(* ===== verification/Oran_Prelude.thy ===== *)
theory Oran_Prelude
  imports Main "HOL-Library.Word" "HOL-Library.Sublist"
begin

text \<open>
  Shared vocabulary of the development: the collections of simplification rules that the
  component theories fill, the reading of C++ strings as byte lists, 64-bit signed
  arithmetic with the wrap-around written out, decimal printing as \<^verbatim>\<open>std::to_string\<close> and
  \<^verbatim>\<open>std::format("{}")\<close> do it, and the list, option and sum lemmas that several components use.
\<close>

section \<open>Collections\<close>

named_theorems core_simps \<open>facts about the value types of oran-core\<close>
named_theorems codec_simps \<open>facts about encoders and decoders\<close>
named_theorems inv_intros \<open>operations that keep a component's invariant\<close>

section \<open>Bytes and strings\<close>

text \<open>
  A \<^verbatim>\<open>std::string\<close> or \<^verbatim>\<open>std::string_view\<close> is a list of \<open>char\<close>, and a \<open>char\<close> of
  Isabelle is one byte, as in C++. \<open>byte_of\<close> is the cast to \<^verbatim>\<open>std::uint8_t\<close>.
\<close>

abbreviation byte_of :: "char \<Rightarrow> nat" where
  "byte_of c \<equiv> of_char c"

abbreviation byte_to_char :: "nat \<Rightarrow> char" where
  "byte_to_char n \<equiv> char_of n"

lemma byte_of_to_char: "n < 256 \<Longrightarrow> byte_of (byte_to_char n) = n"
  by simp

lemma byte_of_inject: "byte_of c = byte_of d \<longleftrightarrow> c = d"
  by (metis char_of_char)

lemma byte_to_char_inject:
  "m < 256 \<Longrightarrow> n < 256 \<Longrightarrow> byte_to_char m = byte_to_char n \<longleftrightarrow> m = n"
  by (metis byte_of_to_char)

section \<open>Signed 64-bit arithmetic\<close>

text \<open>\<^verbatim>\<open>std::int64_t\<close> as \<open>int\<close>, with two's complement wrap-around written out.\<close>

definition i64_min :: int where "i64_min = - (2 ^ 63)"
definition i64_max :: int where "i64_max = 2 ^ 63 - 1"

definition i64_wrap :: "int \<Rightarrow> int" where
  "i64_wrap x = (x + 2 ^ 63) mod 2 ^ 64 - 2 ^ 63"

definition in_i64 :: "int \<Rightarrow> bool" where
  "in_i64 x \<longleftrightarrow> i64_min \<le> x \<and> x \<le> i64_max"

lemma i64_wrap_id [simp]: "in_i64 x \<Longrightarrow> i64_wrap x = x"
  unfolding in_i64_def i64_min_def i64_max_def i64_wrap_def by simp

lemma in_i64_wrap [simp]: "in_i64 (i64_wrap x)"
proof -
  define y where "y = (x + 2 ^ 63) mod 2 ^ 64"
  have "0 \<le> y" "y < 2 ^ 64"
    by (simp_all add: y_def)
  then show ?thesis
    unfolding in_i64_def i64_min_def i64_max_def i64_wrap_def y_def [symmetric] by simp
qed

section \<open>Decimal printing\<close>

definition digit_char :: "nat \<Rightarrow> char" where
  "digit_char d = byte_to_char (48 + d)"

fun show_nat :: "nat \<Rightarrow> string" where
  "show_nat n = (if n < 10 then [digit_char n] else show_nat (n div 10) @ [digit_char (n mod 10)])"

declare show_nat.simps [simp del]

definition show_int :: "int \<Rightarrow> string" where
  "show_int i = (if i < 0 then CHR ''-'' # show_nat (nat (- i)) else show_nat (nat i))"

definition is_digit :: "char \<Rightarrow> bool" where
  "is_digit c \<longleftrightarrow> 48 \<le> byte_of c \<and> byte_of c \<le> 57"

definition digit_val :: "char \<Rightarrow> nat" where
  "digit_val c = byte_of c - 48"

lemma byte_of_digit_char [simp]: "d < 10 \<Longrightarrow> byte_of (digit_char d) = 48 + d"
  by (simp add: digit_char_def)

lemma digit_val_char [simp]: "d < 10 \<Longrightarrow> digit_val (digit_char d) = d"
  by (simp add: digit_val_def)

lemma is_digit_char [simp]: "d < 10 \<Longrightarrow> is_digit (digit_char d)"
  by (simp add: is_digit_def)

section \<open>Decimal reading\<close>

text \<open>
  \<^verbatim>\<open>std::from_chars\<close> into a \<^verbatim>\<open>std::int64_t\<close>, with the check of the callers that the whole text was
  consumed: an optional minus sign and digits, in range.
\<close>

definition digits_val :: "string \<Rightarrow> nat" where
  "digits_val ds = foldl (\<lambda>n c. 10 * n + digit_val c) 0 ds"

definition from_chars_i64 :: "string \<Rightarrow> int option" where
  "from_chars_i64 s = (let neg = (s \<noteq> [] \<and> hd s = CHR ''-''); ds = (if neg then tl s else s);
       v = (if neg then - int (digits_val ds) else int (digits_val ds)) in
     if ds \<noteq> [] \<and> list_all is_digit ds \<and> in_i64 v then Some v else None)"

lemma show_nat_nonempty [simp]: "show_nat n \<noteq> []"
  by (subst show_nat.simps) simp

lemma show_nat_digits [simp]: "list_all is_digit (show_nat n)"
  by (induction n rule: show_nat.induct) (subst show_nat.simps, simp)

lemma digits_val_show_nat [simp]: "digits_val (show_nat n) = n"
proof (induction n rule: show_nat.induct)
  case (1 n)
  then show ?case by (subst show_nat.simps) (auto simp: digits_val_def)
qed

lemma hd_show_nat: "is_digit (hd (show_nat n))"
  using show_nat_digits [of n] by (cases "show_nat n") simp_all

lemma from_chars_show_int: "in_i64 i \<Longrightarrow> from_chars_i64 (show_int i) = Some i"
  using hd_show_nat [of "nat i"] by (auto simp: from_chars_i64_def show_int_def Let_def is_digit_def)

lemma show_int_inject: "in_i64 i \<Longrightarrow> in_i64 j \<Longrightarrow> show_int i = show_int j \<longleftrightarrow> i = j"
  by (metis from_chars_show_int option.inject)

section \<open>Lists\<close>

text \<open>\<^verbatim>\<open>std::ranges::find_if\<close> with the position of the match, as the source computes it.\<close>

fun find_idx :: "('a \<Rightarrow> bool) \<Rightarrow> 'a list \<Rightarrow> (nat \<times> 'a) option" where
  "find_idx P [] = None"
| "find_idx P (x # xs) =
     (if P x then Some (0, x) else map_option (\<lambda>(i, y). (Suc i, y)) (find_idx P xs))"

lemma find_idx_None_iff: "find_idx P xs = None \<longleftrightarrow> (\<forall>x \<in> set xs. \<not> P x)"
  by (induction xs) auto

lemma find_idx_SomeD:
  "find_idx P xs = Some (i, x) \<Longrightarrow> i < length xs \<and> xs ! i = x \<and> P x \<and> (\<forall>j < i. \<not> P (xs ! j))"
  by (induction xs arbitrary: i) (auto split: if_splits simp: less_Suc_eq_0_disj nth_Cons')

lemma find_idx_Some_mem: "find_idx P xs = Some (i, x) \<Longrightarrow> x \<in> set xs \<and> P x"
  using find_idx_SomeD nth_mem by metis

section \<open>Sums as results\<close>

lemma sum_bind_cases:
  "(case r of Inl e \<Rightarrow> Inl e | Inr x \<Rightarrow> f x) = Inr y \<longleftrightarrow> (\<exists>x. r = Inr x \<and> f x = Inr y)"
  by (cases r) auto

section \<open>Machines that keep an invariant or a budget\<close>

text \<open>
  The shape shared by the stateful components: a step per event and an invariant that every
  step keeps, so that every run keeps it. A machine may also spend a budget: then no run spends
  more than the budget it started with.
\<close>

fun run_total :: "('e \<Rightarrow> 's \<Rightarrow> 's) \<Rightarrow> ('e \<Rightarrow> 's \<Rightarrow> nat) \<Rightarrow> 'e list \<Rightarrow> 's \<Rightarrow> nat" where
  "run_total step spend [] s = 0"
| "run_total step spend (e # es) s = spend e s + run_total step spend es (step e s)"

locale invariant_machine =
  fixes step :: "'e \<Rightarrow> 's \<Rightarrow> 's" and ok :: "'e \<Rightarrow> bool" and inv :: "'s \<Rightarrow> bool"
  assumes step_inv: "inv s \<Longrightarrow> ok e \<Longrightarrow> inv (step e s)"
begin

lemma run_inv: "inv s \<Longrightarrow> list_all ok es \<Longrightarrow> inv (fold step es s)"
  by (induction es arbitrary: s) (auto intro: step_inv)

lemma run_inv_prefix: "inv s \<Longrightarrow> list_all ok (es @ es') \<Longrightarrow> inv (fold step es s)"
  by (rule run_inv) auto

end

locale budget_machine = invariant_machine +
  fixes spend :: "'e \<Rightarrow> 's \<Rightarrow> nat" and budget :: "'s \<Rightarrow> nat"
  assumes spend_budget: "inv s \<Longrightarrow> ok e \<Longrightarrow> spend e s + budget (step e s) \<le> budget s"
begin

lemma run_spend: "inv s \<Longrightarrow> list_all ok es \<Longrightarrow> run_total step spend es s + budget (fold step es s) \<le> budget s"
proof (induction es arbitrary: s)
  case Nil
  then show ?case by simp
next
  case (Cons e es)
  then have "run_total step spend es (step e s) + budget (fold step es (step e s)) \<le> budget (step e s)"
    by (intro Cons.IH) (auto intro: step_inv)
  moreover have "spend e s + budget (step e s) \<le> budget s" using Cons.prems by (auto intro: spend_budget)
  ultimately show ?case by simp
qed

lemma run_spend_le: "inv s \<Longrightarrow> list_all ok es \<Longrightarrow> run_total step spend es s \<le> budget s"
  using run_spend by (meson le_add1 le_trans)

end

section \<open>Little-endian byte lists\<close>

definition le_bytes :: "nat \<Rightarrow> nat \<Rightarrow> string" where
  "le_bytes n v = map (\<lambda>i. byte_to_char (take_bit 8 (drop_bit (8 * i) v))) [0..<n]"

lemma length_le_bytes [simp]: "length (le_bytes n v) = n"
  by (simp add: le_bytes_def)

lemma le_bytes_Suc: "le_bytes (Suc n) v = byte_to_char (v mod 256) # le_bytes n (v div 256)"
proof -
  have "[0..<Suc n] = 0 # map Suc [0..<n]" by (simp add: map_Suc_upt upt_conv_Cons)
  moreover have "drop_bit (8 * Suc i) v = drop_bit (8 * i) (v div 256)" for i
    by (simp add: drop_bit_eq_div power_add div_mult2_eq)
  ultimately show ?thesis
    by (simp add: le_bytes_def comp_def take_bit_eq_mod del: upt_Suc)
qed

lemma le_bytes_inject:
  "le_bytes n v = le_bytes n w \<longleftrightarrow> v mod 256 ^ n = w mod 256 ^ n"
proof (induction n arbitrary: v w)
  case 0
  show ?case by (simp add: le_bytes_def)
next
  case (Suc n)
  have split: "u mod 256 ^ Suc n = 256 * (u div 256 mod 256 ^ n) + u mod 256" for u :: nat
    using mod_mult2_eq [of u 256 "256 ^ n"] by simp
  have "le_bytes (Suc n) v = le_bytes (Suc n) w \<longleftrightarrow>
    v mod 256 = w mod 256 \<and> v div 256 mod 256 ^ n = w div 256 mod 256 ^ n"
    by (simp add: le_bytes_Suc Suc.IH byte_to_char_inject)
  also have "\<dots> \<longleftrightarrow> v mod 256 ^ Suc n = w mod 256 ^ Suc n"
    unfolding split by (metis (no_types, lifting) add_right_cancel mod_mult_self4 mod_mod_trivial
        mult_cancel1 zero_neq_numeral)
  finally show ?case .
qed

section \<open>Searching\<close>

text \<open>\<^verbatim>\<open>std::string_view::find\<close>: the least position at or after a start.\<close>

fun find_sub :: "string \<Rightarrow> string \<Rightarrow> nat option" where
  "find_sub needle hay =
     (if prefix needle hay then Some 0
      else case hay of [] \<Rightarrow> None | _ # cs \<Rightarrow> map_option Suc (find_sub needle cs))"

declare find_sub.simps [simp del]

lemma find_sub_Some_iff:
  "find_sub needle hay = Some p \<longleftrightarrow> p \<le> length hay \<and> prefix needle (drop p hay) \<and> (\<forall>i < p. \<not> prefix needle (drop i hay))"
proof (induction needle hay arbitrary: p rule: find_sub.induct)
  case (1 needle hay)
  show ?case
  proof (cases "prefix needle hay")
    case True
    then show ?thesis by (subst find_sub.simps) (auto intro: Nat.gr0I)
  next
    case False
    show ?thesis
    proof (cases hay)
      case Nil
      with False show ?thesis by (subst find_sub.simps) auto
    next
      case (Cons c cs)
      show ?thesis
      proof (cases p)
        case 0
        with False show ?thesis by (subst find_sub.simps) (simp add: Cons)
      next
        case (Suc q)
        have "find_sub needle hay = Some p \<longleftrightarrow> find_sub needle cs = Some q"
          using False by (subst find_sub.simps) (auto simp: Cons Suc)
        also have "\<dots> \<longleftrightarrow> q \<le> length cs \<and> prefix needle (drop q cs) \<and> (\<forall>i < q. \<not> prefix needle (drop i cs))"
          by (rule "1.IH" [OF False Cons])
        also have "\<dots> \<longleftrightarrow> p \<le> length hay \<and> prefix needle (drop p hay) \<and> (\<forall>i < p. \<not> prefix needle (drop i hay))"
          using False by (auto simp: Cons Suc less_Suc_eq_0_disj)
        finally show ?thesis .
      qed
    qed
  qed
qed

lemma find_sub_None: "find_sub needle hay = None \<Longrightarrow> i \<le> length hay \<Longrightarrow> \<not> prefix needle (drop i hay)"
proof
  assume none: "find_sub needle hay = None" and "i \<le> length hay" "prefix needle (drop i hay)"
  then have ex: "\<exists>i. i \<le> length hay \<and> prefix needle (drop i hay)" by blast
  define p where "p = (LEAST i. i \<le> length hay \<and> prefix needle (drop i hay))"
  have "p \<le> length hay \<and> prefix needle (drop p hay)" "\<forall>i < p. \<not> prefix needle (drop i hay)"
    using LeastI_ex [OF ex] not_less_Least [of _ "\<lambda>i. i \<le> length hay \<and> prefix needle (drop i hay)"] by (auto simp: p_def)
  then have "find_sub needle hay = Some p" unfolding find_sub_Some_iff by blast
  then show False using none by simp
qed

end
