(* ===== verification/Core_Error.thy ===== *)
theory Core_Error
  imports Oran_Prelude
begin

text \<open>
  \<^verbatim>\<open>oran/core/error.hpp\<close> and \<^verbatim>\<open>oran-core/error.cpp\<close>: the error value that crosses every
  library boundary, its builders and fluent context, and the result type
  \<^verbatim>\<open>core::Result<T> = std::expected<T, Error>\<close> as a sum with the error on the left.
\<close>

section \<open>Data\<close>

datatype error_kind =
    ok_kind | cancelled_kind | invalid_argument_kind | not_found_kind | permission_denied_kind
  | capability_not_granted_kind | config_kind | auth_kind | io_kind | network_kind
  | rate_limit_kind | upstream_kind | parsing_kind | timeout_kind | conflict_kind
  | not_modified_kind | storage_kind | hook_timeout_kind | hook_failed_kind
  | mailbox_overflowed_kind | internal_kind

record core_error =
  err_kind :: error_kind
  err_message :: string
  err_context :: "(string \<times> string) list"
  err_retry_after :: "int option"

type_synonym 'a result = "core_error + 'a"

text \<open>
  \<open>rbind\<close> is the early return of the source: \<^verbatim>\<open>if (!r) return std::unexpected(r.error())\<close>
  followed by the rest of the function.
\<close>

fun rbind :: "'e + 'a \<Rightarrow> ('a \<Rightarrow> 'e + 'b) \<Rightarrow> 'e + 'b" where
  "rbind (Inl e) f = Inl e"
| "rbind (Inr x) f = f x"

fun map_error :: "('e \<Rightarrow> 'e) \<Rightarrow> 'e + 'a \<Rightarrow> 'e + 'a" where
  "map_error g (Inl e) = Inl (g e)"
| "map_error g (Inr x) = Inr x"

fun is_ok :: "'e + 'a \<Rightarrow> bool" where
  "is_ok (Inl e) = False"
| "is_ok (Inr x) = True"

lemma rbind_Inr_iff: "rbind r f = Inr y \<longleftrightarrow> (\<exists>x. r = Inr x \<and> f x = Inr y)"
  by (cases r) auto

lemma rbind_Inl_iff: "rbind r f = Inl e \<longleftrightarrow> r = Inl e \<or> (\<exists>x. r = Inr x \<and> f x = Inl e)"
  by (cases r) auto

lemma map_error_Inr_iff [simp]: "map_error g r = Inr x \<longleftrightarrow> r = Inr x"
  by (cases r) auto

lemma is_ok_iff: "is_ok r \<longleftrightarrow> (\<exists>x. r = Inr x)"
  by (cases r) auto

lemma rbind_cong [fundef_cong]:
  "r = r' \<Longrightarrow> (\<And>x. r' = Inr x \<Longrightarrow> f x = f' x) \<Longrightarrow> rbind r f = rbind r' f'"
  by (cases r') auto

section \<open>Operations\<close>

definition error_kind_name :: "error_kind \<Rightarrow> string" where
  "error_kind_name k = (case k of
     ok_kind \<Rightarrow> ''ok''
   | cancelled_kind \<Rightarrow> ''cancelled''
   | invalid_argument_kind \<Rightarrow> ''invalid_argument''
   | not_found_kind \<Rightarrow> ''not_found''
   | permission_denied_kind \<Rightarrow> ''permission_denied''
   | capability_not_granted_kind \<Rightarrow> ''capability_not_granted''
   | config_kind \<Rightarrow> ''config''
   | auth_kind \<Rightarrow> ''auth''
   | io_kind \<Rightarrow> ''io''
   | network_kind \<Rightarrow> ''network''
   | rate_limit_kind \<Rightarrow> ''rate_limit''
   | upstream_kind \<Rightarrow> ''upstream''
   | parsing_kind \<Rightarrow> ''parsing''
   | timeout_kind \<Rightarrow> ''timeout''
   | conflict_kind \<Rightarrow> ''conflict''
   | not_modified_kind \<Rightarrow> ''not_modified''
   | storage_kind \<Rightarrow> ''storage''
   | hook_timeout_kind \<Rightarrow> ''hook_timeout''
   | hook_failed_kind \<Rightarrow> ''hook_failed''
   | mailbox_overflowed_kind \<Rightarrow> ''mailbox_overflowed''
   | internal_kind \<Rightarrow> ''internal'')"

definition make_error :: "error_kind \<Rightarrow> string \<Rightarrow> core_error" where
  "make_error k m = \<lparr>err_kind = k, err_message = m, err_context = [], err_retry_after = None\<rparr>"

fun retryable_kind :: "error_kind \<Rightarrow> bool" where
  "retryable_kind network_kind = True"
| "retryable_kind rate_limit_kind = True"
| "retryable_kind timeout_kind = True"
| "retryable_kind upstream_kind = True"
| "retryable_kind _ = False"

definition retryable :: "core_error \<Rightarrow> bool" where
  "retryable e = retryable_kind (err_kind e)"

definition with_ctx :: "string \<Rightarrow> string \<Rightarrow> core_error \<Rightarrow> core_error" where
  "with_ctx k v e = e\<lparr>err_context := err_context e @ [(k, v)]\<rparr>"

definition with_retry_after :: "int \<Rightarrow> core_error \<Rightarrow> core_error" where
  "with_retry_after d e = e\<lparr>err_retry_after := Some d\<rparr>"

definition err_cancelled :: core_error where
  "err_cancelled = make_error cancelled_kind ''cancelled''"

definition err_invalid_argument :: "string \<Rightarrow> core_error" where
  "err_invalid_argument m = make_error invalid_argument_kind m"

definition err_not_found :: "string \<Rightarrow> core_error" where
  "err_not_found m = make_error not_found_kind m"

definition err_permission_denied :: "string \<Rightarrow> core_error" where
  "err_permission_denied m = make_error permission_denied_kind m"

definition err_config :: "string \<Rightarrow> core_error" where
  "err_config m = make_error config_kind m"

definition err_io :: "string \<Rightarrow> core_error" where
  "err_io m = make_error io_kind m"

definition err_network :: "string \<Rightarrow> core_error" where
  "err_network m = make_error network_kind m"

definition err_rate_limit :: "string \<Rightarrow> core_error" where
  "err_rate_limit m = make_error rate_limit_kind m"

definition err_upstream :: "string \<Rightarrow> core_error" where
  "err_upstream m = make_error upstream_kind m"

definition err_timeout :: "int \<Rightarrow> core_error" where
  "err_timeout elapsed =
     with_ctx ''elapsed_ms'' (show_int elapsed) (make_error timeout_kind ''operation timed out'')"

definition err_parsing :: "string \<Rightarrow> core_error" where
  "err_parsing m = make_error parsing_kind m"

definition err_not_modified :: "string \<Rightarrow> core_error" where
  "err_not_modified m = make_error not_modified_kind m"

definition err_storage :: "string \<Rightarrow> core_error" where
  "err_storage m = make_error storage_kind m"

definition err_internal :: "string \<Rightarrow> core_error" where
  "err_internal m = make_error internal_kind m"

lemmas error_builder_defs =
  err_cancelled_def err_invalid_argument_def err_not_found_def err_permission_denied_def
  err_config_def err_io_def err_network_def err_rate_limit_def err_upstream_def err_timeout_def
  err_parsing_def err_not_modified_def err_storage_def err_internal_def

section \<open>Facts\<close>

lemma make_error_sel [simp]:
  "err_kind (make_error k m) = k" "err_message (make_error k m) = m"
  "err_context (make_error k m) = []" "err_retry_after (make_error k m) = None"
  by (simp_all add: make_error_def)

lemma with_ctx_sel [simp]:
  "err_kind (with_ctx k v e) = err_kind e" "err_message (with_ctx k v e) = err_message e"
  "err_retry_after (with_ctx k v e) = err_retry_after e"
  "err_context (with_ctx k v e) = err_context e @ [(k, v)]"
  by (simp_all add: with_ctx_def)

lemma with_retry_after_sel [simp]:
  "err_kind (with_retry_after d e) = err_kind e"
  "err_message (with_retry_after d e) = err_message e"
  "err_context (with_retry_after d e) = err_context e"
  "err_retry_after (with_retry_after d e) = Some d"
  by (simp_all add: with_retry_after_def)

lemma err_kind_builders [simp]:
  "err_kind err_cancelled = cancelled_kind"
  "err_kind (err_invalid_argument m) = invalid_argument_kind"
  "err_kind (err_not_found m) = not_found_kind"
  "err_kind (err_permission_denied m) = permission_denied_kind"
  "err_kind (err_config m) = config_kind" "err_kind (err_io m) = io_kind"
  "err_kind (err_network m) = network_kind" "err_kind (err_rate_limit m) = rate_limit_kind"
  "err_kind (err_upstream m) = upstream_kind" "err_kind (err_timeout d) = timeout_kind"
  "err_kind (err_parsing m) = parsing_kind" "err_kind (err_not_modified m) = not_modified_kind"
  "err_kind (err_storage m) = storage_kind" "err_kind (err_internal m) = internal_kind"
  by (simp_all add: error_builder_defs)

lemma retryable_iff [core_simps]:
  "retryable e \<longleftrightarrow> err_kind e \<in> {network_kind, rate_limit_kind, timeout_kind, upstream_kind}"
  by (cases "err_kind e") (simp_all add: retryable_def)

lemma retryable_with [simp]:
  "retryable (with_ctx k v e) = retryable e" "retryable (with_retry_after d e) = retryable e"
  by (simp_all add: retryable_def)

end
