(* ===== verification/Core_Str.thy ===== *)
theory Core_Str
  imports Core_Error
begin

text \<open>
  \<^verbatim>\<open>oran-core/str.cpp\<close>: the UTF-8 validator, the code point counter and the truncation that
  never splits a code point. The reference is the encoder of RFC 3629 over scalar values; the
  byte-range tables of the source are shown to accept exactly its images.
\<close>

section \<open>The source's tables and loops\<close>

definition lead_length :: "nat \<Rightarrow> nat" where
  "lead_length b =
     (if b < 0x80 then 1
      else if b < 0xC2 then 0
      else if b < 0xE0 then 2
      else if b < 0xF0 then 3
      else if b < 0xF5 then 4
      else 0)"

definition first_continuation_range :: "nat \<Rightarrow> nat \<times> nat" where
  "first_continuation_range lead =
     (if lead = 0xE0 then (0xA0, 0xBF)
      else if lead = 0xED then (0x80, 0x9F)
      else if lead = 0xF0 then (0x90, 0xBF)
      else if lead = 0xF4 then (0x80, 0x8F)
      else (0x80, 0xBF))"

definition in_range :: "nat \<Rightarrow> nat \<times> nat \<Rightarrow> bool" where
  "in_range b r \<longleftrightarrow> fst r \<le> b \<and> b \<le> snd r"

text \<open>
  The body shared by \<^verbatim>\<open>is_valid_utf8\<close> and \<^verbatim>\<open>count_code_points\<close>: the length of the sequence at
  the front of the remaining input, or None where the source leaves the loop with a failure.
\<close>

definition sequence_at :: "string \<Rightarrow> nat option" where
  "sequence_at p =
     (case p of [] \<Rightarrow> None
      | c # _ \<Rightarrow>
        (let lead = byte_of c; len = lead_length lead in
         if len = 0 then None
         else if length p < len then None
         else if 2 \<le> len \<and> \<not> in_range (byte_of (p ! 1)) (first_continuation_range lead) then None
         else if \<not> list_all (\<lambda>i. in_range (byte_of (p ! i)) (0x80, 0xBF)) [2..<len] then None
         else Some len))"

lemma lead_length_bounds: "lead_length b \<le> 4"
  by (simp add: lead_length_def)

lemma sequence_at_SomeD:
  "sequence_at p = Some n \<Longrightarrow> 0 < n \<and> n \<le> length p \<and> n \<le> 4 \<and> p \<noteq> [] \<and> n = lead_length (byte_of (hd p))"
  using lead_length_bounds
  by (auto simp: sequence_at_def Let_def split: list.splits if_splits)

function is_valid_utf8 :: "string \<Rightarrow> bool" where
  "is_valid_utf8 p =
     (if p = [] then True
      else case sequence_at p of None \<Rightarrow> False | Some n \<Rightarrow> is_valid_utf8 (drop n p))"
  by pat_completeness auto
termination
  by (relation "measure length") (auto dest: sequence_at_SomeD)

function count_loop :: "string \<Rightarrow> nat \<Rightarrow> nat option" where
  "count_loop p count =
     (if p = [] then Some count
      else case sequence_at p of None \<Rightarrow> None | Some n \<Rightarrow> count_loop (drop n p) (Suc count))"
  by pat_completeness auto
termination
  by (relation "measure (\<lambda>(p, _). length p)") (auto dest: sequence_at_SomeD)

definition count_code_points :: "string \<Rightarrow> nat option" where
  "count_code_points text = count_loop text 0"

definition truncate_step :: "string \<Rightarrow> nat \<Rightarrow> nat" where
  "truncate_step text i =
     (let len = lead_length (byte_of (text ! i)) in if len = 0 then 1 else len)"

lemma truncate_step_pos: "0 < truncate_step text i"
  by (simp add: truncate_step_def Let_def)

function truncate_loop :: "string \<Rightarrow> nat \<Rightarrow> nat \<Rightarrow> nat \<Rightarrow> nat" where
  "truncate_loop text max_bytes i boundary =
     (if i < length text then
        (let step = truncate_step text i in
         if i + step > max_bytes then boundary
         else if i + step > length text then boundary
         else truncate_loop text max_bytes (i + step) (i + step))
      else boundary)"
  by pat_completeness auto
termination
proof (relation "measure (\<lambda>(text, _, i, _). length text - i)")
  fix s max_bytes i boundary step
  assume "i < length s" "step = truncate_step s i"
  then show "((s, max_bytes, i + step, i + step), s, max_bytes, i, boundary)
    \<in> measure (\<lambda>(text, _, i, _). length text - i)"
    using truncate_step_pos [of s i] by auto
qed simp

definition truncate_to_code_point :: "string \<Rightarrow> nat \<Rightarrow> string" where
  "truncate_to_code_point text max_bytes =
     (if length text \<le> max_bytes then text
      else take (truncate_loop text max_bytes 0 0) text)"

declare is_valid_utf8.simps [simp del] count_loop.simps [simp del] truncate_loop.simps [simp del]

section \<open>The reference encoder\<close>

definition scalar_value :: "nat \<Rightarrow> bool" where
  "scalar_value cp \<longleftrightarrow> cp < 0x110000 \<and> \<not> (0xD800 \<le> cp \<and> cp < 0xE000)"

definition utf8_bytes :: "nat \<Rightarrow> nat list" where
  "utf8_bytes cp =
     (if cp < 0x80 then [cp]
      else if cp < 0x800 then [0xC0 + cp div 64, 0x80 + cp mod 64]
      else if cp < 0x10000 then [0xE0 + cp div 4096, 0x80 + cp div 64 mod 64, 0x80 + cp mod 64]
      else [0xF0 + cp div 262144, 0x80 + cp div 4096 mod 64, 0x80 + cp div 64 mod 64, 0x80 + cp mod 64])"

definition utf8_encode :: "nat \<Rightarrow> string" where
  "utf8_encode cp = map byte_to_char (utf8_bytes cp)"

definition utf8_string :: "nat list \<Rightarrow> string" where
  "utf8_string cps = concat (map utf8_encode cps)"

section \<open>One sequence\<close>

lemma utf8_bytes_less: "scalar_value cp \<Longrightarrow> b \<in> set (utf8_bytes cp) \<Longrightarrow> b < 256"
  by (auto simp: utf8_bytes_def scalar_value_def split: if_splits)

lemma byte_of_utf8_encode: "scalar_value cp \<Longrightarrow> map byte_of (utf8_encode cp) = utf8_bytes cp"
  using utf8_bytes_less by (auto simp: utf8_encode_def intro!: map_idI)

lemma length_utf8_encode: "length (utf8_encode cp) = length (utf8_bytes cp)"
  by (simp add: utf8_encode_def)

lemma utf8_encode_nonempty: "utf8_encode cp \<noteq> []"
  by (simp add: utf8_encode_def utf8_bytes_def)

text \<open>The test of the source on the bytes of one sequence, read off its tables.\<close>

definition seq_ok :: "nat list \<Rightarrow> bool" where
  "seq_ok bs \<longleftrightarrow> bs \<noteq> [] \<and> length bs = lead_length (hd bs) \<and>
     (2 \<le> length bs \<longrightarrow> in_range (bs ! 1) (first_continuation_range (hd bs))) \<and>
     (\<forall>i. 2 \<le> i \<and> i < length bs \<longrightarrow> in_range (bs ! i) (0x80, 0xBF))"

lemma sequence_at_iff:
  "sequence_at p = Some n \<longleftrightarrow> n \<le> length p \<and> 0 < n \<and> seq_ok (map byte_of (take n p))"
proof (cases p)
  case Nil
  then show ?thesis by (auto simp: sequence_at_def)
next
  case (Cons c cs)
  have "n \<noteq> 0 \<Longrightarrow> hd (map byte_of (take n p)) = byte_of c"
    by (simp add: Cons take_Cons')
  then show ?thesis
    using lead_length_bounds [of "byte_of c"]
    by (auto simp: sequence_at_def seq_ok_def Cons Let_def list_all_iff min_def nth_append
        simp del: nth_Cons_Suc split: if_splits)
qed

text \<open>Decoding, by the payload of each byte.\<close>

lemma base64_split: "z < 64 \<Longrightarrow> (a * 64 + z) div 64 = a \<and> (a * 64 + z) mod 64 = (z::nat)"
  by simp

lemma utf8_decode2:
  "2 \<le> x \<Longrightarrow> x < 32 \<Longrightarrow> y < 64 \<Longrightarrow>
   scalar_value (x * 64 + y) \<and> utf8_bytes (x * 64 + y) = [0xC0 + x, 0x80 + y]"
  by (auto simp: scalar_value_def utf8_bytes_def)

lemma utf8_decode3:
  assumes "x < 16" "y < 64" "z < 64" "x = 0 \<longrightarrow> 32 \<le> y" "x = 13 \<longrightarrow> y < 32"
  shows "scalar_value (x * 4096 + y * 64 + z) \<and>
    utf8_bytes (x * 4096 + y * 64 + z) = [0xE0 + x, 0x80 + y, 0x80 + z]"
proof -
  let ?cp = "x * 4096 + y * 64 + z"
  have cp: "?cp = (x * 64 + y) * 64 + z" by simp
  have d1: "?cp div 64 = x * 64 + y" and m: "?cp mod 64 = z"
    unfolding cp using base64_split [OF assms(3)] by blast+
  have "?cp div 4096 = ?cp div 64 div 64"
    by (simp flip: div_mult2_eq)
  then have d2: "?cp div 4096 = x"
    unfolding d1 using base64_split [OF assms(2)] by simp
  have dm: "?cp div 64 mod 64 = y"
    unfolding d1 using base64_split [OF assms(2)] by simp
  have lo: "0x800 \<le> ?cp" and hi: "?cp < 0x10000" using assms by (cases "x = 0"; simp)+
  have nosur: "\<not> (0xD800 \<le> ?cp \<and> ?cp < 0xE000)"
  proof (cases "x = 13")
    case True with assms show ?thesis by simp
  next
    case False
    then have "x \<le> 12 \<or> 14 \<le> x" by linarith
    with assms show ?thesis by linarith
  qed
  from hi nosur have "scalar_value ?cp" by (simp add: scalar_value_def)
  moreover have "utf8_bytes ?cp = [0xE0 + x, 0x80 + y, 0x80 + z]"
    using lo hi unfolding utf8_bytes_def dm d2 m by simp
  ultimately show ?thesis by blast
qed

lemma utf8_decode4:
  assumes "x < 5" "y < 64" "z < 64" "w < 64" "x = 0 \<longrightarrow> 16 \<le> y" "x = 4 \<longrightarrow> y < 16"
  shows "scalar_value (x * 262144 + y * 4096 + z * 64 + w) \<and>
    utf8_bytes (x * 262144 + y * 4096 + z * 64 + w) = [0xF0 + x, 0x80 + y, 0x80 + z, 0x80 + w]"
proof -
  let ?cp = "x * 262144 + y * 4096 + z * 64 + w"
  have cp: "?cp = ((x * 64 + y) * 64 + z) * 64 + w" by simp
  have d1: "?cp div 64 = (x * 64 + y) * 64 + z" and m: "?cp mod 64 = w"
    unfolding cp using base64_split [OF assms(4)] by blast+
  have dm1: "?cp div 64 mod 64 = z" and d2': "?cp div 64 div 64 = x * 64 + y"
    unfolding d1 using base64_split [OF assms(3)] by blast+
  have d2: "?cp div 4096 = x * 64 + y" and d3': "?cp div 262144 = ?cp div 4096 div 64"
    unfolding d2' [symmetric] by (simp_all flip: div_mult2_eq)
  have dm2: "?cp div 4096 mod 64 = y" and d3: "?cp div 262144 = x"
    unfolding d3' d2 using base64_split [OF assms(2)] by blast+
  have lo: "0x10000 \<le> ?cp" using assms by (cases "x = 0"; simp)
  have hi: "?cp < 0x110000" using assms by (cases "x = 4"; simp)
  then have "scalar_value ?cp" using lo by (simp add: scalar_value_def)
  moreover have "utf8_bytes ?cp = [0xF0 + x, 0x80 + y, 0x80 + z, 0x80 + w]"
    using lo hi unfolding utf8_bytes_def dm1 dm2 d3 m by simp
  ultimately show ?thesis by blast
qed

lemma seq_ok2: "2 \<le> x \<Longrightarrow> x < 32 \<Longrightarrow> y < 64 \<Longrightarrow> seq_ok [0xC0 + x, 0x80 + y]"
  by (auto simp: seq_ok_def lead_length_def first_continuation_range_def in_range_def)

lemma seq_ok3:
  "x < 16 \<Longrightarrow> y < 64 \<Longrightarrow> z < 64 \<Longrightarrow> x = 0 \<longrightarrow> 32 \<le> y \<Longrightarrow> x = 13 \<longrightarrow> y < 32 \<Longrightarrow>
   seq_ok [0xE0 + x, 0x80 + y, 0x80 + z]"
  by (auto simp: seq_ok_def lead_length_def first_continuation_range_def in_range_def
      nth_Cons' less_Suc_eq)

lemma seq_ok4:
  "x < 5 \<Longrightarrow> y < 64 \<Longrightarrow> z < 64 \<Longrightarrow> w < 64 \<Longrightarrow> x = 0 \<longrightarrow> 16 \<le> y \<Longrightarrow> x = 4 \<longrightarrow> y < 16 \<Longrightarrow>
   seq_ok [0xF0 + x, 0x80 + y, 0x80 + z, 0x80 + w]"
  by (auto simp: seq_ok_def lead_length_def first_continuation_range_def in_range_def
      nth_Cons' less_Suc_eq)

lemma seq_ok_utf8_bytes:
  assumes sv: "scalar_value cp" shows "seq_ok (utf8_bytes cp)"
proof -
  define x2 x3 y where "x2 = cp div 4096" and "x3 = cp div 262144" and "y = cp div 64"
  have "y div 64 = x2" "x2 div 64 = x3"
    by (simp_all add: x2_def x3_def y_def flip: div_mult2_eq)
  then have parts: "y = x2 * 64 + y mod 64" "x2 = x3 * 64 + x2 mod 64" "cp = y * 64 + cp mod 64"
    using div_mult_mod_eq [of y 64] div_mult_mod_eq [of x2 64] div_mult_mod_eq [of cp 64]
    by (simp_all add: y_def)
  consider "cp < 0x80" | "0x80 \<le> cp" "cp < 0x800" | "0x800 \<le> cp" "cp < 0x10000"
    | "0x10000 \<le> cp" "cp < 0x110000"
    using sv by (force simp: scalar_value_def)
  then show ?thesis
  proof cases
    case 1
    then show ?thesis by (simp add: seq_ok_def utf8_bytes_def lead_length_def)
  next
    case 2
    then have "2 \<le> y" "y < 32" by (auto simp: y_def)
    with 2 show ?thesis using seq_ok2 [of y "cp mod 64"] by (simp add: utf8_bytes_def y_def)
  next
    case 3
    have "x2 < 16" using 3 by (auto simp: x2_def)
    moreover have "x2 = 0 \<longrightarrow> 32 \<le> y mod 64" using 3 parts by auto
    moreover have "x2 = 13 \<longrightarrow> y mod 64 < 32"
    proof
      assume "x2 = 13"
      with parts have cp: "cp = 13 * 4096 + y mod 64 * 64 + cp mod 64" by linarith
      then have "cp < 0xE000" using mod_less_divisor [of 64 y] mod_less_divisor [of 64 cp] by linarith
      with sv cp show "y mod 64 < 32" by (simp add: scalar_value_def)
    qed
    ultimately show ?thesis using 3 seq_ok3 [of x2 "y mod 64" "cp mod 64"]
      by (simp add: utf8_bytes_def x2_def y_def)
  next
    case 4
    have "x3 < 5" using 4 by (auto simp: x3_def)
    moreover have "x3 = 0 \<longrightarrow> 16 \<le> x2 mod 64" "x3 = 4 \<longrightarrow> x2 mod 64 < 16" using 4 parts by auto
    ultimately show ?thesis using 4 seq_ok4 [of x3 "x2 mod 64" "y mod 64" "cp mod 64"]
      by (simp add: utf8_bytes_def x2_def x3_def y_def)
  qed
qed

lemma in_range_cont: "in_range b (0x80, 0xBF) \<longleftrightarrow> (\<exists>y < 64. b = 0x80 + y)"
  by (auto simp: in_range_def intro: exI [of _ "b - 0x80"])

lemma seq_ok_decode:
  assumes "seq_ok bs" shows "\<exists>cp. scalar_value cp \<and> utf8_bytes cp = bs"
proof -
  obtain b0 rest where bs: "bs = b0 # rest"
    using assms by (cases bs) (auto simp: seq_ok_def)
  have len: "length bs = lead_length b0"
    using assms by (simp add: seq_ok_def bs)
  consider "lead_length b0 = 1" | "lead_length b0 = 2" | "lead_length b0 = 3" | "lead_length b0 = 4"
    using len bs lead_length_bounds [of b0] by fastforce
  then show ?thesis
  proof cases
    case 1
    with len bs have "bs = [b0]" "b0 < 0x80"
      by (auto simp: lead_length_def split: if_splits)
    then show ?thesis
      by (intro exI [of _ b0]) (simp add: scalar_value_def utf8_bytes_def)
  next
    case 2
    with len bs obtain b1 where b: "bs = [b0, b1]" by (auto simp: length_Suc_conv numeral_eq_Suc)
    from 2 obtain x where x: "b0 = 0xC0 + x" "2 \<le> x" "x < 32"
      by (auto simp: lead_length_def split: if_splits intro: that [of "b0 - 0xC0"])
    with assms b obtain y where "b1 = 0x80 + y" "y < 64"
      by (auto simp: seq_ok_def first_continuation_range_def in_range_cont)
    with x b utf8_decode2 [of x y] show ?thesis by blast
  next
    case 3
    with len bs obtain b1 b2 where b: "bs = [b0, b1, b2]"
      by (auto simp: length_Suc_conv numeral_eq_Suc)
    from 3 obtain x where x: "b0 = 0xE0 + x" "x < 16"
      by (auto simp: lead_length_def split: if_splits intro: that [of "b0 - 0xE0"])
    have r1: "in_range b1 (first_continuation_range b0)" and "in_range b2 (0x80, 0xBF)"
      using assms b by (auto simp: seq_ok_def dest!: spec [of _ 2])
    then obtain z where z: "b2 = 0x80 + z" "z < 64" by (auto simp: in_range_cont)
    from r1 x obtain y where y: "b1 = 0x80 + y" "y < 64" "x = 0 \<longrightarrow> 32 \<le> y" "x = 13 \<longrightarrow> y < 32"
      by (auto simp: in_range_def first_continuation_range_def split: if_splits
          intro: that [of "b1 - 0x80"])
    show ?thesis using utf8_decode3 [of x y z] x y z b by blast
  next
    case 4
    with len bs obtain b1 b2 b3 where b: "bs = [b0, b1, b2, b3]"
      by (auto simp: length_Suc_conv numeral_eq_Suc)
    from 4 obtain x where x: "b0 = 0xF0 + x" "x < 5"
      by (auto simp: lead_length_def split: if_splits intro: that [of "b0 - 0xF0"])
    have r1: "in_range b1 (first_continuation_range b0)" and r2: "in_range b2 (0x80, 0xBF)"
      and r3: "in_range b3 (0x80, 0xBF)"
      using assms b by (auto simp: seq_ok_def dest: spec [of _ 2] spec [of _ 3])
    from r2 r3 obtain z w where zw: "b2 = 0x80 + z" "z < 64" "b3 = 0x80 + w" "w < 64"
      by (auto simp: in_range_cont)
    from r1 x obtain y where y: "b1 = 0x80 + y" "y < 64" "x = 0 \<longrightarrow> 16 \<le> y" "x = 4 \<longrightarrow> y < 16"
      by (auto simp: in_range_def first_continuation_range_def split: if_splits
          intro: that [of "b1 - 0x80"])
    show ?thesis using utf8_decode4 [of x y z w] x y zw b by blast
  qed
qed

lemma seq_ok_iff: "seq_ok bs \<longleftrightarrow> (\<exists>cp. scalar_value cp \<and> utf8_bytes cp = bs)"
  using seq_ok_decode seq_ok_utf8_bytes by blast

section \<open>Whole strings\<close>

lemma utf8_string_simps [simp]:
  "utf8_string [] = []" "utf8_string (cp # cps) = utf8_encode cp @ utf8_string cps"
  "utf8_string (cps @ cps') = utf8_string cps @ utf8_string cps'"
  by (simp_all add: utf8_string_def)

lemma sequence_at_encode:
  "scalar_value cp \<Longrightarrow> sequence_at (utf8_encode cp @ rest) = Some (length (utf8_encode cp))"
  using seq_ok_utf8_bytes [of cp] utf8_encode_nonempty [of cp]
  by (simp add: sequence_at_iff byte_of_utf8_encode)

lemma sequence_at_decode:
  assumes "sequence_at p = Some n"
  shows "\<exists>cp. scalar_value cp \<and> p = utf8_encode cp @ drop n p"
proof -
  from assms obtain cp where cp: "scalar_value cp" "utf8_bytes cp = map byte_of (take n p)"
    by (auto simp: sequence_at_iff seq_ok_iff)
  then have "utf8_encode cp = take n p"
    by (simp add: utf8_encode_def comp_def)
  with cp(1) show ?thesis by (metis append_take_drop_id)
qed

lemma count_loop_encode:
  "list_all scalar_value cps \<Longrightarrow> count_loop (utf8_string cps) c = Some (c + length cps)"
proof (induction cps arbitrary: c)
  case Nil
  show ?case by (simp add: count_loop.simps)
next
  case (Cons cp cps)
  then show ?case
    by (subst count_loop.simps) (simp add: sequence_at_encode utf8_encode_nonempty)
qed

lemma count_loop_decode:
  "count_loop p c = Some m \<Longrightarrow> \<exists>cps. list_all scalar_value cps \<and> p = utf8_string cps \<and> m = c + length cps"
proof (induction p c rule: count_loop.induct)
  case (1 p c)
  show ?case
  proof (cases "p = []")
    case True
    with "1.prems" show ?thesis
      by (intro exI [of _ "[]"]) (simp add: count_loop.simps)
  next
    case False
    with "1.prems" obtain n where n: "sequence_at p = Some n" "count_loop (drop n p) (Suc c) = Some m"
      by (auto simp: count_loop.simps [of p] split: option.splits)
    with "1.IH" False obtain cps where cps:
      "list_all scalar_value cps" "drop n p = utf8_string cps" "m = Suc c + length cps" by blast
    obtain cp where "scalar_value cp" "p = utf8_encode cp @ drop n p"
      using sequence_at_decode n(1) by blast
    with cps show ?thesis by (intro exI [of _ "cp # cps"]) simp
  qed
qed

lemma is_valid_count: "is_valid_utf8 p \<longleftrightarrow> (\<exists>m. count_loop p c = Some m)"
proof (induction p arbitrary: c rule: is_valid_utf8.induct)
  case (1 p)
  then show ?case
    by (cases "p = []")
      (auto simp: is_valid_utf8.simps [of p] count_loop.simps [of p] is_valid_utf8.simps [of "[]"]
        count_loop.simps [of "[]"] split: option.split)
qed

lemma is_valid_utf8_iff:
  "is_valid_utf8 p \<longleftrightarrow> (\<exists>cps. list_all scalar_value cps \<and> p = utf8_string cps)"
  using is_valid_count [of p 0] count_loop_encode count_loop_decode by metis

lemma utf8_string_inj:
  "list_all scalar_value cps \<Longrightarrow> list_all scalar_value cps' \<Longrightarrow>
   utf8_string cps = utf8_string cps' \<Longrightarrow> length cps = length cps'"
  by (metis count_loop_encode option.inject add_left_cancel)

lemma valid_suffix:
  "list_all scalar_value ds \<Longrightarrow> is_valid_utf8 (utf8_string ds @ r) \<Longrightarrow> is_valid_utf8 r"
proof (induction ds)
  case (Cons d ds)
  then show ?case
    by (subst (asm) (2) is_valid_utf8.simps) (simp add: sequence_at_encode utf8_encode_nonempty)
qed simp

lemma nat_eq_by_digits:
  "m div k = n div k \<Longrightarrow> m mod k = n mod k \<Longrightarrow> m = (n::nat)"
  by (metis mult_div_mod_eq)

lemma utf8_bytes_inj:
  assumes "utf8_bytes c = utf8_bytes d"
  shows "c = d"
proof -
  have d2: "x div 4096 = x div 64 div 64" and d3: "x div 262144 = x div 64 div 64 div 64" for x :: nat
    by (simp_all flip: div_mult2_eq)
  from assms show ?thesis
    unfolding utf8_bytes_def d2 d3
    by (auto split: if_splits intro!: nat_eq_by_digits [of _ 64])
qed

lemma utf8_encode_inj:
  assumes "scalar_value c" "scalar_value d" "utf8_encode c @ x = utf8_encode d @ y"
  shows "c = d \<and> x = y"
proof -
  have "length (utf8_encode c) = length (utf8_encode d)"
    using sequence_at_encode assms by (metis option.inject)
  with assms(3) have e: "utf8_encode c = utf8_encode d" "x = y" by auto
  then have "utf8_bytes c = utf8_bytes d" using assms byte_of_utf8_encode by metis
  with e show ?thesis using utf8_bytes_inj by blast
qed

lemma utf8_string_injective:
  "list_all scalar_value cps \<Longrightarrow> list_all scalar_value ds \<Longrightarrow> utf8_string cps = utf8_string ds \<Longrightarrow> cps = ds"
proof (induction cps arbitrary: ds)
  case Nil
  then show ?case by (cases ds) (auto simp: utf8_encode_nonempty)
next
  case (Cons c cps)
  then obtain d ds' where ds: "ds = d # ds'" by (cases ds) (auto simp: utf8_encode_nonempty)
  with Cons.prems have "c = d \<and> utf8_string cps = utf8_string ds'"
    by (intro utf8_encode_inj) auto
  with Cons ds show ?case by simp
qed

section \<open>Truncation\<close>

lemma lead_length_utf8_encode:
  assumes "scalar_value cp"
  shows "lead_length (byte_of (utf8_encode cp ! 0)) = length (utf8_encode cp)"
proof -
  have "seq_ok (map byte_of (utf8_encode cp))"
    using assms by (simp add: byte_of_utf8_encode seq_ok_utf8_bytes)
  then show ?thesis
    using utf8_encode_nonempty [of cp] by (cases "utf8_encode cp") (auto simp: seq_ok_def)
qed

lemma truncate_step_encode:
  assumes "scalar_value cp"
  shows "truncate_step (pre @ utf8_encode cp @ rest) (length pre) = length (utf8_encode cp)"
  using lead_length_utf8_encode [OF assms] utf8_encode_nonempty [of cp]
  by (simp add: truncate_step_def nth_append)

text \<open>The longest run of whole code points that fits a byte budget.\<close>

fun fitting :: "nat \<Rightarrow> nat list \<Rightarrow> nat list" where
  "fitting budget [] = []"
| "fitting budget (cp # cps) =
     (let n = length (utf8_encode cp) in
      if n \<le> budget then cp # fitting (budget - n) cps else [])"

lemma fitting_spec:
  "\<exists>k \<le> length cps. fitting n cps = take k cps \<and> length (utf8_string (take k cps)) \<le> n \<and>
     (k < length cps \<longrightarrow> n < length (utf8_string (take (Suc k) cps)))"
proof (induction cps arbitrary: n)
  case Nil
  show ?case by simp
next
  case (Cons cp cps)
  show ?case
  proof (cases "length (utf8_encode cp) \<le> n")
    case True
    from Cons.IH [of "n - length (utf8_encode cp)"] obtain k where
      "k \<le> length cps" "fitting (n - length (utf8_encode cp)) cps = take k cps"
      "length (utf8_string (take k cps)) \<le> n - length (utf8_encode cp)"
      "k < length cps \<longrightarrow> n - length (utf8_encode cp) < length (utf8_string (take (Suc k) cps))"
      by blast
    with True show ?thesis
      by (intro exI [of _ "Suc k"]) (auto simp: Let_def)
  next
    case False
    then show ?thesis by (intro exI [of _ 0]) (simp add: Let_def)
  qed
qed

lemma truncate_loop_fitting:
  assumes "list_all scalar_value cps" "length pre \<le> n"
  shows "truncate_loop (pre @ utf8_string cps) n (length pre) (length pre)
    = length pre + length (utf8_string (fitting (n - length pre) cps))"
  using assms
proof (induction cps arbitrary: pre)
  case Nil
  then show ?case by (simp add: truncate_loop.simps)
next
  case (Cons cp cps)
  from Cons.prems have sv: "scalar_value cp" by simp
  let ?t = "pre @ utf8_string (cp # cps)"
  have step: "truncate_step ?t (length pre) = length (utf8_encode cp)"
    using truncate_step_encode [OF sv] by simp
  have lt: "length pre < length ?t" using utf8_encode_nonempty [of cp] by simp
  show ?case
  proof (cases "length pre + length (utf8_encode cp) \<le> n")
    case True
    have "truncate_loop ?t n (length pre) (length pre)
      = truncate_loop ((pre @ utf8_encode cp) @ utf8_string cps) n
          (length (pre @ utf8_encode cp)) (length (pre @ utf8_encode cp))"
      using True lt by (subst truncate_loop.simps) (simp add: step [simplified] Let_def)
    also have "\<dots> = length (pre @ utf8_encode cp) +
        length (utf8_string (fitting (n - length (pre @ utf8_encode cp)) cps))"
      using Cons True by (intro Cons.IH) simp_all
    finally show ?thesis using True by (auto simp: Let_def)
  next
    case False
    then show ?thesis
      using lt Cons.prems by (subst truncate_loop.simps) (auto simp: step [simplified] Let_def)
  qed
qed

lemma truncate_fitting:
  assumes "list_all scalar_value cps"
  shows "truncate_to_code_point (utf8_string cps) n = utf8_string (fitting n cps)"
proof (cases "length (utf8_string cps) \<le> n")
  case True
  then have "fitting n cps = cps"
    by (induction cps arbitrary: n) (auto simp: Let_def)
  with True show ?thesis by (simp add: truncate_to_code_point_def)
next
  case False
  obtain k where k: "fitting n cps = take k cps" using fitting_spec by blast
  have "utf8_string cps = utf8_string (take k cps) @ utf8_string (drop k cps)"
    by (simp flip: utf8_string_simps(3))
  then have "take (length (utf8_string (take k cps))) (utf8_string cps) = utf8_string (take k cps)"
    by (metis append_eq_conv_conj)
  with False k show ?thesis
    using truncate_loop_fitting [OF assms, of "[]" n] by (simp add: truncate_to_code_point_def)
qed

lemma truncate_loop_le:
  "boundary \<le> n \<Longrightarrow> truncate_loop s n i boundary \<le> n"
proof (induction s n i boundary rule: truncate_loop.induct)
  case (1 s n i b)
  then show ?case by (subst truncate_loop.simps) (simp add: Let_def)
qed

lemma truncate_prefix_and_bound:
  "length (truncate_to_code_point s n) \<le> n \<and> prefix (truncate_to_code_point s n) s"
  using truncate_loop_le [of 0 n s 0] by (auto simp: truncate_to_code_point_def take_is_prefix)

lemma truncate_valid: "is_valid_utf8 p \<Longrightarrow> is_valid_utf8 (truncate_to_code_point p n)"
proof -
  assume "is_valid_utf8 p"
  then obtain cps where cps: "list_all scalar_value cps" "p = utf8_string cps" by (auto simp: is_valid_utf8_iff)
  obtain k where k: "fitting n cps = take k cps" using fitting_spec by blast
  have "list_all scalar_value (take k cps)" using cps(1) by (auto simp: list_all_iff dest: in_set_takeD)
  then show ?thesis unfolding cps(2) truncate_fitting [OF cps(1)] k is_valid_utf8_iff by blast
qed

section \<open>Properties\<close>

text \<open>
  C39: the validator and the counter agree with the encoding: \<open>count_code_points\<close> returns
  a number exactly for the strings that are an encoding of Unicode scalar values, the number is
  how many scalar values there are, and \<open>is_valid_utf8\<close> accepts exactly these strings.
\<close>

theorem count_code_points_correct:
  "(count_code_points p = Some m \<longleftrightarrow>
     (\<exists>cps. list_all scalar_value cps \<and> p = utf8_string cps \<and> m = length cps)) \<and>
   (is_valid_utf8 p \<longleftrightarrow> count_code_points p \<noteq> None)"
  using count_loop_encode [of _ 0] count_loop_decode [of p 0 m] is_valid_count [of p 0]
  by (auto simp: count_code_points_def)

text \<open>
  Truncation never splits a code point: on a valid string the result of
  \<open>truncate_to_code_point\<close> is valid, is a prefix of at most the asked number of bytes, and
  is the longest prefix that is both.
\<close>

theorem truncate_to_code_point_longest:
  assumes "is_valid_utf8 p"
  shows "is_valid_utf8 (truncate_to_code_point p n)
    \<and> length (truncate_to_code_point p n) \<le> n \<and> prefix (truncate_to_code_point p n) p
    \<and> (\<forall>q. prefix q p \<longrightarrow> is_valid_utf8 q \<longrightarrow> length q \<le> n
          \<longrightarrow> length q \<le> length (truncate_to_code_point p n))"
proof -
  from assms obtain cps where cps: "list_all scalar_value cps" "p = utf8_string cps"
    by (auto simp: is_valid_utf8_iff)
  obtain k where k: "k \<le> length cps" "fitting n cps = take k cps"
    "k < length cps \<longrightarrow> n < length (utf8_string (take (Suc k) cps))"
    using fitting_spec [of cps n] by blast
  have t: "truncate_to_code_point p n = utf8_string (take k cps)"
    using cps k by (simp add: truncate_fitting)
  have "list_all scalar_value (take k cps)"
    using cps(1) by (auto simp: list_all_iff dest: in_set_takeD)
  then have "is_valid_utf8 (truncate_to_code_point p n)"
    unfolding t is_valid_utf8_iff by blast
  moreover have "length q \<le> length (truncate_to_code_point p n)"
    if q: "prefix q p" "is_valid_utf8 q" "length q \<le> n" for q
  proof -
    from q(1) obtain r where r: "p = q @ r" by (auto simp: prefix_def)
    from q(2) obtain ds where ds: "list_all scalar_value ds" "q = utf8_string ds"
      by (auto simp: is_valid_utf8_iff)
    obtain es where es: "list_all scalar_value es" "r = utf8_string es"
      using valid_suffix [OF ds(1)] assms r ds(2) by (auto simp: is_valid_utf8_iff)
    have eq: "cps = ds @ es"
      using utf8_string_injective [of cps "ds @ es"] cps ds es r by simp
    have "length ds \<le> k"
    proof (rule ccontr)
      assume "\<not> length ds \<le> k"
      then have "Suc k \<le> length ds" "k < length cps" using eq by auto
      then have "n < length (utf8_string (take (Suc k) ds))" using k(3) eq by simp
      moreover have "utf8_string ds = utf8_string (take (Suc k) ds) @ utf8_string (drop (Suc k) ds)"
        by (simp flip: utf8_string_simps(3))
      ultimately show False using q(3) ds(2) by simp
    qed
    then have "take k cps = ds @ take (k - length ds) es" using eq by simp
    then show ?thesis unfolding t ds(2) by simp
  qed
  ultimately show ?thesis using truncate_prefix_and_bound by blast
qed

theorem truncate_to_code_point_longest_witness:
  "is_valid_utf8 (utf8_string [0x20AC, 0x62])
   \<and> is_valid_utf8 (truncate_to_code_point (utf8_string [0x20AC, 0x62]) 2)
   \<and> truncate_to_code_point (utf8_string [0x20AC, 0x62]) 2 = []"
proof -
  have sv: "list_all scalar_value [0x20AC, 0x62]" by (simp add: scalar_value_def)
  then have v: "is_valid_utf8 (utf8_string [0x20AC, 0x62])" unfolding is_valid_utf8_iff by blast
  have "truncate_to_code_point (utf8_string [0x20AC, 0x62]) 2 = []"
    unfolding truncate_fitting [OF sv] by (simp add: length_utf8_encode utf8_bytes_def)
  with v truncate_to_code_point_longest [OF v, of 2] show ?thesis by blast
qed

end
