(* ===== verification/Core_Time.thy ===== *)
theory Core_Time
  imports Core_Error
begin

text \<open>
  \<^verbatim>\<open>oran-core/time.cpp\<close>: the ISO 8601 UTC wire format. A \<^verbatim>\<open>core::Time\<close> is the count of
  \<^verbatim>\<open>std::chrono::system_clock\<close>, which libstdc++ keeps in nanoseconds in a signed 64-bit
  integer. The calendar of \<^verbatim>\<open>std::chrono\<close> (\<^verbatim>\<open>year_month_day\<close> of a day count and back) is
  modelled by its proleptic Gregorian definition; the two directions are proved inverse.
  Where the source converts milliseconds to the clock's nanoseconds the product is reduced to
  64 bits (\<open>i64_wrap\<close>); where that changes it the source overflows, and no property speaks of it.
\<close>

section \<open>The civil calendar of the standard library\<close>

definition is_leap :: "int \<Rightarrow> bool" where
  "is_leap y \<longleftrightarrow> y mod 4 = 0 \<and> (y mod 100 \<noteq> 0 \<or> y mod 400 = 0)"

definition last_day :: "int \<Rightarrow> int \<Rightarrow> int" where
  "last_day y m =
     (if m = 2 then (if is_leap y then 29 else 28)
      else if m \<in> {4, 6, 9, 11} then 30 else 31)"

text \<open>\<^verbatim>\<open>year_month_day::ok\<close>; the year range of \<^verbatim>\<open>std::chrono::year\<close> holds every parsed year.\<close>

definition ymd_ok :: "int \<Rightarrow> int \<Rightarrow> int \<Rightarrow> bool" where
  "ymd_ok y m d \<longleftrightarrow> - 32767 \<le> y \<and> y \<le> 32767 \<and> 1 \<le> m \<and> m \<le> 12 \<and> 1 \<le> d \<and> d \<le> last_day y m"

text \<open>Years counted from March, so that a leap day ends its year: day of that year and back.\<close>

definition month_of_doy :: "int \<Rightarrow> int" where
  "month_of_doy doy = (5 * doy + 2) div 153"

definition doy_of_month :: "int \<Rightarrow> int" where
  "doy_of_month mp = (153 * mp + 2) div 5"

definition days_from_civil :: "int \<Rightarrow> int \<Rightarrow> int \<Rightarrow> int" where
  "days_from_civil y m d =
     (let y' = (if m \<le> 2 then y - 1 else y);
          era = y' div 400; yoe = y' mod 400;
          mp = (if m > 2 then m - 3 else m + 9);
          doy = doy_of_month mp + d - 1
      in era * 146097 + (yoe * 365 + yoe div 4 - yoe div 100 + doy) - 719468)"

definition civil_from_days :: "int \<Rightarrow> int \<times> int \<times> int" where
  "civil_from_days z =
     (let era = (z + 719468) div 146097; doe = (z + 719468) mod 146097;
          c = min 3 (doe div 36524); r1 = doe - 36524 * c;
          q = r1 div 1461; r2 = r1 - 1461 * q;
          r = min 3 (r2 div 365); doy = r2 - 365 * r;
          y' = era * 400 + 100 * c + 4 * q + r;
          mp = month_of_doy doy; d = doy - doy_of_month mp + 1;
          m = (if mp < 10 then mp + 3 else mp - 9)
      in (if m \<le> 2 then y' + 1 else y', m, d))"

section \<open>Printing\<close>

definition pad_nat :: "nat \<Rightarrow> nat \<Rightarrow> string" where
  "pad_nat w n = replicate (w - length (show_nat n)) CHR ''0'' @ show_nat n"

definition ms_of_ns :: "int \<Rightarrow> int" where
  "ms_of_ns t = t div 1000000"

definition format_iso8601_utc :: "int \<Rightarrow> string" where
  "format_iso8601_utc t =
     (let tp_ms = ms_of_ns t;
          day_point = tp_ms div 86400000;
          (y, m, d) = civil_from_days day_point;
          tod = tp_ms - day_point * 86400000;
          yr = (if y < 0 then 0 else if y > 9999 then 9999 else y)
      in pad_nat 4 (nat yr) @ ''-'' @ pad_nat 2 (nat m) @ ''-'' @ pad_nat 2 (nat d) @ ''T'' @
         pad_nat 2 (nat (tod div 3600000)) @ '':'' @ pad_nat 2 (nat (tod div 60000 mod 60)) @ '':'' @
         pad_nat 2 (nat (tod div 1000 mod 60)) @ ''.'' @ pad_nat 3 (nat (tod mod 1000)) @ ''Z'')"

section \<open>Parsing\<close>

definition all_digits :: "string \<Rightarrow> bool" where
  "all_digits s = list_all is_digit s"

fun parse_fixed_width_from :: "int \<Rightarrow> string \<Rightarrow> int" where
  "parse_fixed_width_from value [] = value"
| "parse_fixed_width_from value (c # cs) = parse_fixed_width_from (value * 10 + (int (byte_of c) - 48)) cs"

definition parse_fixed_width :: "string \<Rightarrow> int" where
  "parse_fixed_width s = parse_fixed_width_from 0 s"

definition parse_error :: "string \<Rightarrow> string \<Rightarrow> core_error" where
  "parse_error message input = with_ctx ''input'' input (err_parsing message)"

definition substr :: "string \<Rightarrow> nat \<Rightarrow> nat \<Rightarrow> string" where
  "substr s pos n = take n (drop pos s)"

definition frac_scale :: "nat \<Rightarrow> int" where
  "frac_scale n = (if n = 1 then 100 else if n = 2 then 10 else if n = 3 then 1 else 0)"

text \<open>
  The conversion of milliseconds to nanoseconds overflows a signed 64-bit integer for moments outside
  of the years 1677 to 2262, which is undefined in C++. The wrap-around written here only makes the
  function total: the properties below are stated for moments where it does not happen.
\<close>

definition ns_of_fields :: "int \<Rightarrow> int \<Rightarrow> int \<Rightarrow> int \<Rightarrow> int \<Rightarrow> int \<Rightarrow> int \<Rightarrow> int" where
  "ns_of_fields y mo d h mi s ms =
     i64_wrap ((days_from_civil y mo d * 86400000 + h * 3600000 + mi * 60000 + s * 1000 + ms) * 1000000)"

definition check_fields ::
  "string \<Rightarrow> int \<Rightarrow> int \<Rightarrow> int \<Rightarrow> int \<Rightarrow> int \<Rightarrow> int \<Rightarrow> int \<Rightarrow> int result" where
  "check_fields input y mo d h mi s ms =
     (if mo < 1 \<or> mo > 12 then
        Inl (with_ctx ''month'' (show_int mo) (parse_error ''iso8601: month out of range'' input))
      else if d < 1 \<or> d > 31 then
        Inl (with_ctx ''day'' (show_int d) (parse_error ''iso8601: day out of range'' input))
      else if h > 23 then
        Inl (with_ctx ''hour'' (show_int h) (parse_error ''iso8601: hour out of range'' input))
      else if mi > 59 then
        Inl (with_ctx ''minute'' (show_int mi) (parse_error ''iso8601: minute out of range'' input))
      else if s > 59 then
        Inl (with_ctx ''second'' (show_int s) (parse_error ''iso8601: second out of range'' input))
      else if \<not> ymd_ok y mo d then Inl (parse_error ''iso8601: invalid calendar date'' input)
      else Inr (ns_of_fields y mo d h mi s ms))"

definition parse_fraction :: "string \<Rightarrow> int result" where
  "parse_fraction input =
     (let n = length input in
      if n > 20 then
        (if input ! 19 \<noteq> CHR ''.'' then
           Inl (parse_error ''iso8601: missing fractional separator'' input)
         else
           (let frac_len = n - 21; frac = substr input 20 frac_len in
            if \<not> all_digits frac then Inl (parse_error ''iso8601: non-digit fraction'' input)
            else Inr (parse_fixed_width frac * frac_scale frac_len)))
      else Inr 0)"

definition parse_iso8601_utc :: "string \<Rightarrow> int result" where
  "parse_iso8601_utc input =
     (if input = [] then Inl (err_invalid_argument ''empty iso8601 timestamp'')
      else
        (let n = length input in
         if n \<noteq> 20 \<and> n \<noteq> 22 \<and> n \<noteq> 23 \<and> n \<noteq> 24 then
           Inl (with_ctx ''length'' (show_nat n) (parse_error ''iso8601: unexpected length'' input))
         else if input ! 4 \<noteq> CHR ''-'' \<or> input ! 7 \<noteq> CHR ''-'' \<or> input ! 10 \<noteq> CHR ''T'' \<or>
           input ! 13 \<noteq> CHR '':'' \<or> input ! 16 \<noteq> CHR '':'' \<or> last input \<noteq> CHR ''Z'' then
           Inl (parse_error ''iso8601: bad separators'' input)
         else if \<not> all_digits (substr input 0 4) \<or> \<not> all_digits (substr input 5 2) \<or>
           \<not> all_digits (substr input 8 2) \<or> \<not> all_digits (substr input 11 2) \<or>
           \<not> all_digits (substr input 14 2) \<or> \<not> all_digits (substr input 17 2) then
           Inl (parse_error ''iso8601: non-digit field'' input)
         else
           (case parse_fraction input of
              Inl e \<Rightarrow> Inl e
            | Inr ms \<Rightarrow>
                check_fields input (parse_fixed_width (substr input 0 4))
                  (parse_fixed_width (substr input 5 2)) (parse_fixed_width (substr input 8 2))
                  (parse_fixed_width (substr input 11 2)) (parse_fixed_width (substr input 14 2))
                  (parse_fixed_width (substr input 17 2)) ms)))"

section \<open>The calendar\<close>

lemma doy_of_month_table:
  "doy_of_month 0 = 0" "doy_of_month 1 = 31" "doy_of_month 2 = 61" "doy_of_month 3 = 92"
  "doy_of_month 4 = 122" "doy_of_month 5 = 153" "doy_of_month 6 = 184" "doy_of_month 7 = 214"
  "doy_of_month 8 = 245" "doy_of_month 9 = 275" "doy_of_month 10 = 306" "doy_of_month 11 = 337"
  by (simp_all add: doy_of_month_def)

text \<open>The year that starts in March before civil year \<open>y + 1\<close> has a leap day iff \<open>y + 1\<close> is leap.\<close>

definition march_year_len :: "int \<Rightarrow> int" where
  "march_year_len y' = (if is_leap (y' + 1) then 366 else 365)"

text \<open>Position inside a 400-year era: centuries, four-year groups, years, and the day of the year.\<close>

definition era_pos :: "int \<Rightarrow> int \<Rightarrow> int \<Rightarrow> int \<Rightarrow> bool" where
  "era_pos c q r doy \<longleftrightarrow> 0 \<le> c \<and> c \<le> 3 \<and> 0 \<le> q \<and> q \<le> 24 \<and> 0 \<le> r \<and> r \<le> 3 \<and> 0 \<le> doy \<and>
     doy \<le> (if r = 3 \<and> (q < 24 \<or> c = 3) then 365 else 364)"

lemma mod_zero_iff_top: "0 < x \<Longrightarrow> x \<le> n \<Longrightarrow> x mod n = 0 \<longleftrightarrow> x = (n::int)"
  by (cases "x = n") simp_all

lemma era_pos_leap:
  assumes "0 \<le> c" "c \<le> 3" "0 \<le> q" "q \<le> 24" "0 \<le> r" "r \<le> 3"
  shows "is_leap (era * 400 + 100 * c + 4 * q + r + 1) \<longleftrightarrow> r = 3 \<and> (q < 24 \<or> c = 3)"
proof -
  let ?y = "era * 400 + 100 * c + 4 * q + r + 1"
  have m4: "?y mod 4 = (r + 1) mod 4" and m100: "?y mod 100 = (4 * q + r + 1) mod 100"
    and m400: "?y mod 400 = (100 * c + 4 * q + r + 1) mod 400"
    using mod_mult_self2 [of "r + 1" 4 "era * 100 + 25 * c + q"]
      mod_mult_self2 [of "4 * q + r + 1" 100 "era * 4 + c"]
      mod_mult_self2 [of "100 * c + 4 * q + r + 1" 400 era]
    by (simp_all add: algebra_simps)
  have "(r + 1) mod 4 = 0 \<longleftrightarrow> r + 1 = 4" "(4 * q + r + 1) mod 100 = 0 \<longleftrightarrow> 4 * q + r + 1 = 100"
    "(100 * c + 4 * q + r + 1) mod 400 = 0 \<longleftrightarrow> 100 * c + 4 * q + r + 1 = 400"
    using assms by (intro mod_zero_iff_top; linarith)+
  then have "is_leap ?y \<longleftrightarrow> r + 1 = 4 \<and> (4 * q + r + 1 \<noteq> 100 \<or> 100 * c + 4 * q + r + 1 = 400)"
    unfolding is_leap_def m4 m100 m400 by (simp only:)
  also have "\<dots> \<longleftrightarrow> r = 3 \<and> (q < 24 \<or> c = 3)" using assms by auto
  finally show ?thesis .
qed

text \<open>Splitting the day of an era is inverse to counting it.\<close>

lemma era_split_of_pos:
  assumes "era_pos c q r doy"
  defines "doe \<equiv> 36524 * c + 1461 * q + 365 * r + doy"
  shows "min 3 (doe div 36524) = c" "(doe - 36524 * c) div 1461 = q"
    "min 3 ((doe - 36524 * c - 1461 * q) div 365) = r" "0 \<le> doe" "doe < 146097"
proof -
  from assms(1) have b: "0 \<le> c" "c \<le> 3" "0 \<le> q" "q \<le> 24" "0 \<le> r" "r \<le> 3" "0 \<le> doy" "doy \<le> 365"
    and lim: "doy = 365 \<longrightarrow> r = 3 \<and> (q < 24 \<or> c = 3)"
    by (auto simp: era_pos_def split: if_splits)
  define low where "low = 1461 * q + 365 * r + doy"
  have low: "0 \<le> low" "low < 36524 \<or> (low = 36524 \<and> c = 3)"
    using b lim unfolding low_def by auto
  have doe: "doe = low + 36524 * c" by (simp add: doe_def low_def)
  show "0 \<le> doe" "doe < 146097" using low b doe by auto
  have "doe div 36524 = c + low div 36524" unfolding doe by simp
  moreover have "low div 36524 = (if low = 36524 then 1 else 0)" using low by auto
  ultimately show "min 3 (doe div 36524) = c" using low b by auto
  have low': "0 \<le> 365 * r + doy" "365 * r + doy < 1461" using b by auto
  have "(doe - 36524 * c) div 1461 = ((365 * r + doy) + 1461 * q) div 1461"
    by (simp add: doe low_def algebra_simps)
  also have "\<dots> = q" using low' by simp
  finally show "(doe - 36524 * c) div 1461 = q" .
  have "(doe - 36524 * c - 1461 * q) div 365 = (doy + 365 * r) div 365"
    by (simp add: doe low_def algebra_simps)
  also have "\<dots> = r + (if doy = 365 then 1 else 0)" using b by auto
  finally show "min 3 ((doe - 36524 * c - 1461 * q) div 365) = r" using b lim by auto
qed

lemma pos_of_era_split:
  assumes "0 \<le> doe" "doe < 146097"
  defines "c \<equiv> min 3 (doe div 36524)"
  defines "q \<equiv> (doe - 36524 * c) div 1461"
  defines "r \<equiv> min 3 ((doe - 36524 * c - 1461 * q) div 365)"
  shows "era_pos c q r (doe - 36524 * c - 1461 * q - 365 * r)"
proof -
  define r1 where "r1 = doe - 36524 * c"
  define r2 where "r2 = r1 - 1461 * q"
  have "doe div 36524 \<le> 4" "0 \<le> doe div 36524" using assms(1,2) by auto
  then have c: "0 \<le> c" "c \<le> 3" "c < 3 \<longrightarrow> c = doe div 36524" "c = 3 \<longrightarrow> 3 \<le> doe div 36524"
    unfolding c_def by auto
  have r1: "0 \<le> r1" "c < 3 \<longrightarrow> r1 < 36524" "c = 3 \<longrightarrow> r1 \<le> 36524"
    using c assms(1,2) unfolding r1_def by auto
  have q: "q = r1 div 1461" unfolding q_def r1_def ..
  have q': "0 \<le> q" "q \<le> 24" using r1 c unfolding q by auto
  have r2: "r2 = r1 mod 1461" unfolding r2_def q by (simp add: minus_mult_div_eq_mod)
  then have r2': "0 \<le> r2" "r2 < 1461" by auto
  have r: "r = min 3 (r2 div 365)" unfolding r_def r2_def r1_def ..
  have rb: "0 \<le> r" "r \<le> 3" "r2 < 365 * r + 365 \<or> (r = 3 \<and> r2 \<le> 1460)" "365 * r \<le> r2"
    using r2' unfolding r by auto
  have "q = 24 \<and> c < 3 \<longrightarrow> r2 < 1460" using r1 unfolding r2_def by auto
  then show ?thesis
    using c q' rb r2' unfolding era_pos_def r1_def [symmetric] r2_def [symmetric] by auto
qed

text \<open>Months of a year that starts in March.\<close>

definition march_month_len :: "int \<Rightarrow> int" where
  "march_month_len mp = (if mp = 11 then 29 else if mp \<in> {1, 3, 6, 8} then 30 else 31)"

lemma month_index_cases:
  fixes mp :: int
  assumes "0 \<le> mp" "mp \<le> 11"
  shows "mp = 0 \<or> mp = 1 \<or> mp = 2 \<or> mp = 3 \<or> mp = 4 \<or> mp = 5 \<or> mp = 6 \<or> mp = 7 \<or>
    mp = 8 \<or> mp = 9 \<or> mp = 10 \<or> mp = 11"
  using assms by presburger

lemma month_of_doy_of:
  assumes "0 \<le> mp" "mp \<le> 11" "0 \<le> k" "k < march_month_len mp"
  shows "month_of_doy (doy_of_month mp + k) = mp"
  using month_index_cases [OF assms(1,2)] assms(3,4)
  by (elim disjE) (auto simp: month_of_doy_def doy_of_month_table march_month_len_def)

lemma doy_split:
  assumes "0 \<le> doy" "doy \<le> 365"
  shows "0 \<le> month_of_doy doy" "month_of_doy doy \<le> 11"
    "doy_of_month (month_of_doy doy) \<le> doy"
    "doy - doy_of_month (month_of_doy doy) < march_month_len (month_of_doy doy)"
proof -
  show b: "0 \<le> month_of_doy doy" "month_of_doy doy \<le> 11"
    using assms by (auto simp: month_of_doy_def)
  define mp where "mp = month_of_doy doy"
  have "153 * mp \<le> 5 * doy + 2" "5 * doy + 2 < 153 * mp + 153"
    by (auto simp: mp_def month_of_doy_def)
  then show "doy_of_month (month_of_doy doy) \<le> doy"
    "doy - doy_of_month (month_of_doy doy) < march_month_len (month_of_doy doy)"
    using month_index_cases [OF b] assms unfolding mp_def [symmetric]
    by (elim disjE; simp add: doy_of_month_table march_month_len_def)+
qed

lemma last_day_march:
  assumes "1 \<le> m" "m \<le> 12"
  defines "mp \<equiv> (if m > 2 then m - 3 else m + 9)"
  shows "0 \<le> mp" "mp \<le> 11" "m \<noteq> 2 \<Longrightarrow> last_day y m = march_month_len mp"
    "last_day y 2 = (if is_leap y then 29 else 28)"
  using assms by (auto simp: last_day_def march_month_len_def)

text \<open>The number of days of a year that starts in March, placed in its era.\<close>

lemma civil_pos:
  fixes y' :: int
  obtains era c q r where "y' = era * 400 + 100 * c + 4 * q + r" "0 \<le> c" "c \<le> 3" "0 \<le> q" "q \<le> 24"
    "0 \<le> r" "r \<le> 3" "y' div 400 = era" "y' mod 400 = 100 * c + 4 * q + r"
proof
  let ?yoe = "y' mod 400"
  let ?c = "?yoe div 100" and ?q = "?yoe mod 100 div 4" and ?r = "?yoe mod 100 mod 4"
  have "?yoe < 400" "0 \<le> ?yoe" by simp_all
  then show "0 \<le> ?c" "?c \<le> 3" by auto
  have "?yoe mod 100 < 100" "0 \<le> ?yoe mod 100" by simp_all
  then show "0 \<le> ?q" "?q \<le> 24" by auto
  show "0 \<le> ?r" by simp
  have "?r < 4" by simp
  then show "?r \<le> 3" by linarith
  show yoe: "y' mod 400 = 100 * ?c + 4 * ?q + ?r"
    using mult_div_mod_eq [of 100 ?yoe] mult_div_mod_eq [of 4 "?yoe mod 100"] by linarith
  show "y' = (y' div 400) * 400 + 100 * ?c + 4 * ?q + ?r"
    using yoe mult_div_mod_eq [of 400 y'] by linarith
  show "y' div 400 = y' div 400" ..
qed

lemma yoe_days:
  assumes "0 \<le> c" "c \<le> (3::int)" "0 \<le> q" "q \<le> 24" "0 \<le> r" "r \<le> 3"
  shows "(100 * c + 4 * q + r) * 365 + (100 * c + 4 * q + r) div 4 - (100 * c + 4 * q + r) div 100
    = 36524 * c + 1461 * q + 365 * r"
proof -
  have "(100 * c + 4 * q + r) div 4 = (r + (25 * c + q) * 4) div 4" by (simp add: algebra_simps)
  also have "\<dots> = 25 * c + q" using assms by simp
  finally have d4: "(100 * c + 4 * q + r) div 4 = 25 * c + q" .
  have "(100 * c + 4 * q + r) div 100 = (4 * q + r + c * 100) div 100" by (simp add: algebra_simps)
  also have "\<dots> = c" using assms by simp
  finally have d100: "(100 * c + 4 * q + r) div 100 = c" .
  show ?thesis unfolding d4 d100 by simp
qed

lemma days_from_civil_pos:
  assumes "0 \<le> c" "c \<le> 3" "0 \<le> q" "q \<le> 24" "0 \<le> r" "r \<le> 3" "0 \<le> mp" "mp \<le> 11"
    and "y' = era * 400 + 100 * c + 4 * q + r"
  shows "days_from_civil (if mp < 10 then y' else y' + 1) (if mp < 10 then mp + 3 else mp - 9) d
    = era * 146097 + (36524 * c + 1461 * q + 365 * r + doy_of_month mp + d - 1) - 719468"
proof -
  have y': "y' = (100 * c + 4 * q + r) + era * 400" and "0 \<le> 100 * c + 4 * q + r"
    "100 * c + 4 * q + r < 400"
    using assms by auto
  then have e: "y' div 400 = era" and yoe: "y' mod 400 = 100 * c + 4 * q + r"
    by (simp_all only: div_mult_self1 mod_mult_self1) simp_all
  show ?thesis
    unfolding days_from_civil_def Let_def
    using assms(7,8) yoe_days [OF assms(1-6)] by (auto simp: e yoe)
qed

lemma civil_from_days_pos:
  assumes "era_pos c q r doy" "y' = era * 400 + 100 * c + 4 * q + r"
    and "mp = month_of_doy doy"
  shows "civil_from_days (era * 146097 + (36524 * c + 1461 * q + 365 * r + doy) - 719468)
    = (if mp < 10 then y' else y' + 1, if mp < 10 then mp + 3 else mp - 9,
       doy - doy_of_month mp + 1)"
proof -
  let ?doe = "36524 * c + 1461 * q + 365 * r + doy"
  note sp = era_split_of_pos [OF assms(1)]
  have e: "(era * 146097 + ?doe - 719468 + 719468) div 146097 = era"
    and m: "(era * 146097 + ?doe - 719468 + 719468) mod 146097 = ?doe"
    using sp(4,5) by simp_all
  have "0 \<le> mp" "mp \<le> 11"
    using assms(1) doy_split [of doy] by (auto simp: assms(3) era_pos_def split: if_splits)
  then show ?thesis
    unfolding civil_from_days_def Let_def e m sp(1-3)
    by (auto simp: assms(2,3))
qed

text \<open>Every day count is a valid civil date, and the two conversions are inverse.\<close>

lemma civil_from_days_ok:
  assumes "civil_from_days z = (y, m, d)"
  shows "1 \<le> m \<and> m \<le> 12 \<and> 1 \<le> d \<and> d \<le> last_day y m \<and> days_from_civil y m d = z"
proof -
  let ?era = "(z + 719468) div 146097" and ?doe = "(z + 719468) mod 146097"
  define c where "c = min 3 (?doe div 36524)"
  define q where "q = (?doe - 36524 * c) div 1461"
  define r where "r = min 3 ((?doe - 36524 * c - 1461 * q) div 365)"
  define doy where "doy = ?doe - 36524 * c - 1461 * q - 365 * r"
  define mp where "mp = month_of_doy doy"
  define y' where "y' = ?era * 400 + 100 * c + 4 * q + r"
  have pos: "era_pos c q r doy"
    unfolding doy_def c_def q_def r_def by (intro pos_of_era_split) simp_all
  have z: "z = ?era * 146097 + (36524 * c + 1461 * q + 365 * r + doy) - 719468"
    using mult_div_mod_eq [of 146097 "z + 719468"] by (simp add: doy_def)
  then have ymd: "y = (if mp < 10 then y' else y' + 1)" "m = (if mp < 10 then mp + 3 else mp - 9)"
    "d = doy - doy_of_month mp + 1"
    using civil_from_days_pos [OF pos y'_def mp_def] assms by auto
  from pos have b: "0 \<le> c" "c \<le> 3" "0 \<le> q" "q \<le> 24" "0 \<le> r" "r \<le> 3" "0 \<le> doy" "doy \<le> 365"
    and lim: "doy = 365 \<longrightarrow> r = 3 \<and> (q < 24 \<or> c = 3)"
    by (auto simp: era_pos_def split: if_splits)
  note ds = doy_split [OF b(7,8), folded mp_def]
  have m: "1 \<le> m" "m \<le> 12" "1 \<le> d" using ds ymd by auto
  have mp: "(if m > 2 then m - 3 else m + 9) = mp" using ds ymd by auto
  have leap: "is_leap (y' + 1) \<longleftrightarrow> r = 3 \<and> (q < 24 \<or> c = 3)"
    unfolding y'_def using era_pos_leap [OF b(1-6)] by simp
  have "d \<le> last_day y m"
  proof (cases "m = 2")
    case True
    then have "mp = 11" "y = y' + 1" using ymd ds(1) by (auto split: if_splits)
    then show ?thesis using True ymd(3) lim leap ds b(8)
      by (auto simp: last_day_def doy_of_month_table march_month_len_def)
  next
    case False
    then show ?thesis using last_day_march(3) [OF m(1,2)] ds(4) ymd(3) mp by simp
  qed
  moreover have "days_from_civil y m d = z"
    using days_from_civil_pos [OF b(1-6) ds(1,2) y'_def, of d] ymd z by simp
  ultimately show ?thesis using m by simp
qed

lemma civil_from_days_from_civil:
  assumes "1 \<le> m" "m \<le> 12" "1 \<le> d" "d \<le> last_day y m"
  shows "civil_from_days (days_from_civil y m d) = (y, m, d)"
proof -
  define y' where "y' = (if m \<le> 2 then y - 1 else y)"
  define mp where "mp = (if m > 2 then m - 3 else m + 9)"
  obtain era c q r where y': "y' = era * 400 + 100 * c + 4 * q + r"
    and b: "0 \<le> c" "c \<le> 3" "0 \<le> q" "q \<le> 24" "0 \<le> r" "r \<le> 3"
    using civil_pos [of y'] by metis
  define doy where "doy = doy_of_month mp + (d - 1)"
  note ld = last_day_march [OF assms(1,2), folded mp_def]
  have ym: "y = (if mp < 10 then y' else y' + 1)" "m = (if mp < 10 then mp + 3 else mp - 9)"
    using assms(1,2) by (auto simp: y'_def mp_def)
  have "d \<le> march_month_len mp"
    using assms(2,4) ld by (cases "m = 2") (auto simp: mp_def march_month_len_def split: if_splits)
  then have md: "month_of_doy doy = mp"
    unfolding doy_def using assms(3) ld(1,2) by (intro month_of_doy_of) auto
  have "era_pos c q r doy"
  proof -
    have leap: "is_leap (y' + 1) \<longleftrightarrow> r = 3 \<and> (q < 24 \<or> c = 3)"
      unfolding y' using era_pos_leap [OF b] by simp
    have "doy \<le> (if r = 3 \<and> (q < 24 \<or> c = 3) then 365 else 364)"
    proof (cases "m = 2")
      case True
      then have "mp = 11" "y = y' + 1" by (auto simp: mp_def y'_def)
      with True assms(4) leap show ?thesis
        by (auto simp: doy_def last_day_def doy_of_month_table split: if_splits)
    next
      case False
      with \<open>d \<le> march_month_len mp\<close> assms(1,2) month_index_cases [OF ld(1,2)] show ?thesis
        by (elim disjE) (auto simp: doy_def doy_of_month_table march_month_len_def mp_def split: if_splits)
    qed
    moreover have "0 \<le> doy_of_month mp" using ld(1) by (simp add: doy_of_month_def)
    ultimately show ?thesis using b assms(3) by (simp add: era_pos_def doy_def)
  qed
  from civil_from_days_pos [OF this y' md [symmetric]]
    days_from_civil_pos [OF b ld(1,2) y', of d]
  show ?thesis using ym by (simp add: doy_def)
qed

section \<open>Fixed-width decimals\<close>

fun fixed_digits :: "nat \<Rightarrow> nat \<Rightarrow> string" where
  "fixed_digits 0 n = []"
| "fixed_digits (Suc w) n = fixed_digits w (n div 10) @ [digit_char (n mod 10)]"

lemma digit_char_0: "digit_char 0 = CHR ''0''"
  by code_simp

lemma fixed_digits_0: "fixed_digits w 0 = replicate w CHR ''0''"
  by (induction w) (simp_all add: digit_char_0 replicate_append_same)

lemma length_fixed_digits [simp]: "length (fixed_digits w n) = w"
  by (induction w arbitrary: n) simp_all

lemma pad_nat_fixed: "0 < w \<Longrightarrow> n < 10 ^ w \<Longrightarrow> pad_nat w n = fixed_digits w n"
proof (induction n arbitrary: w rule: show_nat.induct)
  case (1 n)
  from "1.prems" obtain v where w: "w = Suc v" by (cases w) auto
  show ?case
  proof (cases "n < 10")
    case True
    then show ?thesis by (simp add: pad_nat_def show_nat.simps [of n] w fixed_digits_0)
  next
    case False
    have "n div 10 < 10 ^ v" using "1.prems" w by (simp add: div_less_iff_less_mult mult.commute)
    moreover from this have "v \<noteq> 0" using False by (cases v) auto
    ultimately have "pad_nat v (n div 10) = fixed_digits v (n div 10)"
      using "1.IH" False by simp
    with False show ?thesis by (simp add: pad_nat_def show_nat.simps [of n] w)
  qed
qed

lemma parse_fixed_width_append:
  "parse_fixed_width_from v (xs @ ys) = parse_fixed_width_from (parse_fixed_width_from v xs) ys"
  by (induction xs arbitrary: v) simp_all

lemma parse_fixed_digits:
  "n < 10 ^ w \<Longrightarrow> all_digits (fixed_digits w n) \<and> parse_fixed_width (fixed_digits w n) = int n"
proof (induction w arbitrary: n)
  case 0
  then show ?case by (simp add: all_digits_def parse_fixed_width_def)
next
  case (Suc w)
  have "n div 10 < 10 ^ w" using Suc.prems by (simp add: div_less_iff_less_mult mult.commute)
  with Suc.IH [of "n div 10"] have
    "all_digits (fixed_digits w (n div 10))" "parse_fixed_width (fixed_digits w (n div 10)) = int (n div 10)"
    by simp_all
  moreover have "int (n div 10) * 10 + int (n mod 10) = int n"
    using div_mult_mod_eq [of n 10] by linarith
  ultimately show ?case
    by (simp add: all_digits_def parse_fixed_width_def parse_fixed_width_append)
qed

lemma digit_char_val: "is_digit c \<Longrightarrow> digit_char (digit_val c) = c"
  by (simp add: is_digit_def digit_char_def digit_val_def)

lemma fixed_digits_parse:
  "all_digits s \<Longrightarrow> 0 \<le> parse_fixed_width s \<and> nat (parse_fixed_width s) < 10 ^ length s \<and>
     fixed_digits (length s) (nat (parse_fixed_width s)) = s"
proof (induction s rule: rev_induct)
  case Nil
  then show ?case by (simp add: parse_fixed_width_def)
next
  case (snoc c s)
  then have c: "is_digit c" and s: "all_digits s" by (simp_all add: all_digits_def)
  define v where "v = nat (parse_fixed_width s)"
  have v: "parse_fixed_width s = int v" "v < 10 ^ length s" "fixed_digits (length s) v = s"
    using snoc.IH [OF s] by (simp_all add: v_def)
  have dv: "digit_val c < 10" "int (byte_of c) - 48 = int (digit_val c)"
    using c by (auto simp: is_digit_def digit_val_def)
  have "parse_fixed_width (s @ [c]) = int (v * 10 + digit_val c)"
    using v(1) dv by (simp add: parse_fixed_width_def parse_fixed_width_append)
  then have "0 \<le> parse_fixed_width (s @ [c])" "nat (parse_fixed_width (s @ [c])) = v * 10 + digit_val c"
    by (simp_all only: nat_int of_nat_0_le_iff)
  moreover have "(v * 10 + digit_val c) div 10 = v" "(v * 10 + digit_val c) mod 10 = digit_val c"
    using dv by simp_all
  moreover have "v * 10 + digit_val c < 10 ^ length (s @ [c])" using v(2) dv(1) by simp
  ultimately show ?case using v(3) c by (simp add: digit_char_val)
qed

section \<open>The wire format\<close>

definition stamp :: "nat \<Rightarrow> nat \<Rightarrow> nat \<Rightarrow> nat \<Rightarrow> nat \<Rightarrow> nat \<Rightarrow> nat \<Rightarrow> string" where
  "stamp y mo d h mi s ms =
     fixed_digits 4 y @ ''-'' @ fixed_digits 2 mo @ ''-'' @ fixed_digits 2 d @ ''T'' @
     fixed_digits 2 h @ '':'' @ fixed_digits 2 mi @ '':'' @ fixed_digits 2 s @ ''.'' @
     fixed_digits 3 ms @ ''Z''"

lemma length_stamp [simp]: "length (stamp y mo d h mi s ms) = 24"
  by (simp add: stamp_def)

lemma substr_stamp:
  "substr (stamp y mo d h mi s ms) 0 4 = fixed_digits 4 y"
  "substr (stamp y mo d h mi s ms) 5 2 = fixed_digits 2 mo"
  "substr (stamp y mo d h mi s ms) 8 2 = fixed_digits 2 d"
  "substr (stamp y mo d h mi s ms) 11 2 = fixed_digits 2 h"
  "substr (stamp y mo d h mi s ms) 14 2 = fixed_digits 2 mi"
  "substr (stamp y mo d h mi s ms) 17 2 = fixed_digits 2 s"
  "substr (stamp y mo d h mi s ms) 20 3 = fixed_digits 3 ms"
  by (simp_all add: substr_def stamp_def)

lemma nth_stamp:
  "stamp y mo d h mi s ms ! 4 = CHR ''-''" "stamp y mo d h mi s ms ! 7 = CHR ''-''"
  "stamp y mo d h mi s ms ! 10 = CHR ''T''" "stamp y mo d h mi s ms ! 13 = CHR '':''"
  "stamp y mo d h mi s ms ! 16 = CHR '':''" "stamp y mo d h mi s ms ! 19 = CHR ''.''"
  "last (stamp y mo d h mi s ms) = CHR ''Z''"
  by (simp_all add: stamp_def nth_append)

lemma parse_stamp:
  assumes "y < 10000" "mo < 100" "d < 100" "h < 100" "mi < 100" "s < 100" "ms < 1000"
  shows "parse_iso8601_utc (stamp y mo d h mi s ms) =
    check_fields (stamp y mo d h mi s ms) (int y) (int mo) (int d) (int h) (int mi) (int s) (int ms)"
proof -
  have "stamp y mo d h mi s ms \<noteq> []" using length_stamp [of y mo d h mi s ms] by fastforce
  then show ?thesis
    using assms
      parse_fixed_digits [of y 4] parse_fixed_digits [of mo 2] parse_fixed_digits [of d 2]
      parse_fixed_digits [of h 2] parse_fixed_digits [of mi 2] parse_fixed_digits [of s 2]
      parse_fixed_digits [of ms 3]
    by (simp add: parse_iso8601_utc_def parse_fraction_def Let_def substr_stamp nth_stamp
        frac_scale_def del: fixed_digits.simps)
qed

text \<open>Every representable time prints as a stamp whose fields give the time back.\<close>

lemma year_bounds:
  assumes "- 106752 \<le> z" "z \<le> 106752" "civil_from_days z = (y, m, d)"
  shows "1600 \<le> y" "y \<le> 2400"
proof -
  define y' where "y' = (if m \<le> 2 then y - 1 else y)"
  define doy where "doy = doy_of_month (if m > 2 then m - 3 else m + 9) + d - 1"
  have ok: "1 \<le> m" "m \<le> 12" "1 \<le> d" "d \<le> 31" and z: "days_from_civil y m d = z"
    using civil_from_days_ok [OF assms(3)] by (auto simp: last_day_def split: if_splits)
  have yoe: "0 \<le> y' mod 400" "y' mod 400 < 400" by simp_all
  then have "0 \<le> y' mod 400 div 4" "y' mod 400 div 4 \<le> 99" "0 \<le> y' mod 400 div 100" "y' mod 400 div 100 \<le> 3"
    by (auto simp: pos_imp_zdiv_nonneg_iff)
  moreover have "0 \<le> doy" "doy \<le> 367"
    using ok by (auto simp: doy_def doy_of_month_def)
  moreover have "z = y' div 400 * 146097 + (y' mod 400 * 365 + y' mod 400 div 4 - y' mod 400 div 100 + doy) - 719468"
    using z by (simp add: days_from_civil_def Let_def y'_def doy_def)
  ultimately have "4 \<le> y' div 400" "y' div 400 \<le> 5" using assms(1,2) yoe by linarith+
  moreover have "y' = y' div 400 * 400 + y' mod 400" by simp
  ultimately have "1600 \<le> y'" "y' < 2400" using yoe by linarith+
  then show "1600 \<le> y" "y \<le> 2400" by (auto simp: y'_def split: if_splits)
qed

lemma last_day_le: "last_day y m \<le> 31"
  by (simp add: last_day_def)

lemma day_bounds:
  assumes "in_i64 t"
  shows "- 106752 \<le> ms_of_ns t div 86400000" "ms_of_ns t div 86400000 \<le> 106752"
proof -
  have "- 9223372036854775808 \<le> t" "t \<le> 9223372036854775807"
    using assms by (simp_all add: in_i64_def i64_min_def i64_max_def)
  then have "(- 9223372036854775808) div 1000000 \<le> ms_of_ns t" "ms_of_ns t \<le> 9223372036854775807 div 1000000"
    unfolding ms_of_ns_def by (auto intro: zdiv_mono1)
  then have "- 9223372036855 \<le> ms_of_ns t" "ms_of_ns t \<le> 9223372036854" by simp_all
  then have "(- 9223372036855) div 86400000 \<le> ms_of_ns t div 86400000"
    "ms_of_ns t div 86400000 \<le> 9223372036854 div 86400000"
    by (auto intro: zdiv_mono1)
  then show "- 106752 \<le> ms_of_ns t div 86400000" "ms_of_ns t div 86400000 \<le> 106752" by simp_all
qed

lemma tod_fields:
  assumes "0 \<le> tod" "tod < (86400000::int)"
  obtains h mi s ms where "tod div 3600000 = h" "tod div 60000 mod 60 = mi" "tod div 1000 mod 60 = s"
    "tod mod 1000 = ms" "h * 3600000 + mi * 60000 + s * 1000 + ms = tod"
    "0 \<le> h" "h \<le> 23" "0 \<le> mi" "mi \<le> 59" "0 \<le> s" "s \<le> 59" "0 \<le> ms" "ms \<le> 999"
proof
  have "tod div 60000 = tod div 1000 div 60" "tod div 3600000 = tod div 60000 div 60"
    by (simp_all add: zdiv_zmult2_eq [symmetric])
  then show "tod div 3600000 * 3600000 + tod div 60000 mod 60 * 60000 + tod div 1000 mod 60 * 1000
    + tod mod 1000 = tod"
    using div_mult_mod_eq [of "tod div 60000" 60] div_mult_mod_eq [of "tod div 1000" 60]
      div_mult_mod_eq [of tod 1000] by linarith
  show "0 \<le> tod div 3600000" "tod div 3600000 \<le> 23"
    using assms by (auto simp: pos_imp_zdiv_nonneg_iff)
  show "0 \<le> tod div 60000 mod 60" "0 \<le> tod div 1000 mod 60" "0 \<le> tod mod 1000" by simp_all
  show "tod div 60000 mod 60 \<le> 59" "tod div 1000 mod 60 \<le> 59" "tod mod 1000 \<le> 999"
    using pos_mod_bound [of 60 "tod div 60000"] pos_mod_bound [of 60 "tod div 1000"]
      pos_mod_bound [of 1000 tod] by linarith+
qed (rule refl)+

text \<open>Every representable time prints as the stamp of a valid date and time of day.\<close>

lemma format_stamp:
  assumes "in_i64 t"
  obtains y m d h mi s ms where
    "format_iso8601_utc t = stamp (nat y) (nat m) (nat d) (nat h) (nat mi) (nat s) (nat ms)"
    "1600 \<le> y" "y \<le> 2400" "ymd_ok y m d"
    "days_from_civil y m d * 86400000 + h * 3600000 + mi * 60000 + s * 1000 + ms = ms_of_ns t"
    "0 \<le> h" "h \<le> 23" "0 \<le> mi" "mi \<le> 59" "0 \<le> s" "s \<le> 59" "0 \<le> ms" "ms \<le> 999"
proof -
  define z tod where "z = ms_of_ns t div 86400000" and "tod = ms_of_ns t mod 86400000"
  have tod: "0 \<le> tod" "tod < 86400000" by (simp_all add: tod_def)
  have split: "ms_of_ns t - z * 86400000 = tod"
    unfolding z_def tod_def by (simp add: minus_div_mult_eq_mod)
  obtain y m d where ymd: "civil_from_days z = (y, m, d)" by (cases "civil_from_days z") auto
  have y: "1600 \<le> y" "y \<le> 2400"
    using year_bounds [OF _ _ ymd] day_bounds [OF assms] unfolding z_def by simp_all
  have c: "1 \<le> m" "m \<le> 12" "1 \<le> d" "d \<le> last_day y m" "days_from_civil y m d = z"
    using civil_from_days_ok [OF ymd] by auto
  then have ok: "ymd_ok y m d" using y by (simp add: ymd_ok_def)
  have d31: "d \<le> 31" using c last_day_le [of y m] by linarith
  obtain h mi s ms where f: "tod div 3600000 = h" "tod div 60000 mod 60 = mi" "tod div 1000 mod 60 = s"
    "tod mod 1000 = ms" "h * 3600000 + mi * 60000 + s * 1000 + ms = tod"
    and b: "0 \<le> h" "h \<le> 23" "0 \<le> mi" "mi \<le> 59" "0 \<le> s" "s \<le> 59" "0 \<le> ms" "ms \<le> 999"
    using tod_fields [OF tod] by metis
  have yr: "(if y < 0 then 0 else if y > 9999 then 9999 else y) = y" using y by simp
  have "nat y < 10 ^ 4" "nat m < 10 ^ 2" "nat d < 10 ^ 2" "nat h < 10 ^ 2" "nat mi < 10 ^ 2"
    "nat s < 10 ^ 2" "nat ms < 10 ^ 3"
    using y c(2) d31 b by simp_all
  note pads = this [THEN pad_nat_fixed [rotated]]
  have "format_iso8601_utc t = stamp (nat y) (nat m) (nat d) (nat h) (nat mi) (nat s) (nat ms)"
    unfolding format_iso8601_utc_def stamp_def z_def [symmetric] Let_def ymd prod.case split f yr
    by (simp only: pads zero_less_numeral)
  moreover have "days_from_civil y m d * 86400000 + h * 3600000 + mi * 60000 + s * 1000 + ms = ms_of_ns t"
    using c(5) split f(5) by linarith
  ultimately show ?thesis using that y ok b by blast
qed

lemma floor_in_i64:
  assumes "in_i64 t" "i64_min \<le> ms_of_ns t * 1000000" shows "in_i64 (ms_of_ns t * 1000000)"
proof -
  have "ms_of_ns t * 1000000 \<le> t"
    unfolding ms_of_ns_def using div_mult_mod_eq [of t 1000000] pos_mod_sign [of 1000000 t] by linarith
  then show ?thesis using assms unfolding in_i64_def by linarith
qed

lemma check_fields_ok:
  assumes "ymd_ok y m d" "h \<le> 23" "mi \<le> 59" "s \<le> 59"
  shows "check_fields input y m d h mi s ms = Inr (ns_of_fields y m d h mi s ms)"
  using assms last_day_le [of y m] by (auto simp: check_fields_def ymd_ok_def)

lemma parse_format:
  assumes "in_i64 t" and "i64_min \<le> ms_of_ns t * 1000000"
  shows "parse_iso8601_utc (format_iso8601_utc t) = Inr (ms_of_ns t * 1000000)"
proof -
  obtain y m d h mi s ms where
    f: "format_iso8601_utc t = stamp (nat y) (nat m) (nat d) (nat h) (nat mi) (nat s) (nat ms)"
    and y: "1600 \<le> y" "y \<le> 2400" and ok: "ymd_ok y m d"
    and total: "days_from_civil y m d * 86400000 + h * 3600000 + mi * 60000 + s * 1000 + ms = ms_of_ns t"
    and b: "0 \<le> h" "h \<le> 23" "0 \<le> mi" "mi \<le> 59" "0 \<le> s" "s \<le> 59" "0 \<le> ms" "ms \<le> 999"
    using format_stamp [OF assms(1)] by metis
  have md: "1 \<le> m" "m \<le> 12" "1 \<le> d" "d \<le> 31"
    using ok last_day_le [of y m] by (auto simp: ymd_ok_def)
  have lt: "nat y < 10000" "nat m < 100" "nat d < 100" "nat h < 100" "nat mi < 100" "nat s < 100"
    "nat ms < 1000" using y md b by simp_all
  have int: "int (nat y) = y" "int (nat m) = m" "int (nat d) = d" "int (nat h) = h"
    "int (nat mi) = mi" "int (nat s) = s" "int (nat ms) = ms" using y md b by simp_all
  have "ns_of_fields y m d h mi s ms = ms_of_ns t * 1000000"
    unfolding ns_of_fields_def total using floor_in_i64 [OF assms] by simp
  then show ?thesis
    using parse_stamp [OF lt] check_fields_ok [OF ok b(2,4,6)] unfolding f int by simp
qed

text \<open>A 24-byte input that parses is the stamp of its fields, so printing restores it.\<close>

lemma substr_step: "n < length s \<Longrightarrow> drop n s = s ! n # drop (Suc n) s"
  by (simp add: Cons_nth_drop_Suc)

lemma substr_run: "drop n s = substr s n k @ drop (n + k) s"
  by (simp add: substr_def add.commute flip: drop_drop)

lemma split24:
  assumes "length s = 24"
  shows "s = substr s 0 4 @ [s ! 4] @ substr s 5 2 @ [s ! 7] @ substr s 8 2 @ [s ! 10] @
    substr s 11 2 @ [s ! 13] @ substr s 14 2 @ [s ! 16] @ substr s 17 2 @ [s ! 19] @
    substr s 20 3 @ [s ! 23]"
proof -
  have "s = drop 0 s" by simp
  also have "\<dots> = substr s 0 4 @ s ! 4 # drop 5 s"
    using substr_run [of 0 s 4] substr_step [of 4 s] assms by simp
  also have "drop 5 s = substr s 5 2 @ s ! 7 # drop 8 s"
    using substr_run [of 5 s 2] substr_step [of 7 s] assms by simp
  also have "drop 8 s = substr s 8 2 @ s ! 10 # drop 11 s"
    using substr_run [of 8 s 2] substr_step [of 10 s] assms by simp
  also have "drop 11 s = substr s 11 2 @ s ! 13 # drop 14 s"
    using substr_run [of 11 s 2] substr_step [of 13 s] assms by simp
  also have "drop 14 s = substr s 14 2 @ s ! 16 # drop 17 s"
    using substr_run [of 14 s 2] substr_step [of 16 s] assms by simp
  also have "drop 17 s = substr s 17 2 @ s ! 19 # drop 20 s"
    using substr_run [of 17 s 2] substr_step [of 19 s] assms by simp
  also have "drop 20 s = substr s 20 3 @ [s ! 23]"
    using substr_run [of 20 s 3] substr_step [of 23 s] assms by simp
  finally show ?thesis by simp
qed

lemma length_substr: "n + k \<le> length s \<Longrightarrow> length (substr s n k) = k"
  by (simp add: substr_def)

lemma fixed_digits_substr:
  assumes "all_digits (substr s n k)" "n + k \<le> length s"
  shows "fixed_digits k (nat (parse_fixed_width (substr s n k))) = substr s n k"
    "0 \<le> parse_fixed_width (substr s n k)" "nat (parse_fixed_width (substr s n k)) < 10 ^ k"
  using fixed_digits_parse [OF assms(1)] length_substr [OF assms(2)] by simp_all

lemma check_fieldsD:
  assumes "check_fields input y m d h mi s ms = Inr t"
  shows "ymd_ok y m d" "h \<le> 23" "mi \<le> 59" "s \<le> 59" "t = ns_of_fields y m d h mi s ms"
  using assms by (auto simp: check_fields_def split: if_splits)

lemma parse24_stamp:
  assumes "parse_iso8601_utc s = Inr t" "length s = 24"
  obtains y m d h mi sec ms where
    "s = stamp (nat y) (nat m) (nat d) (nat h) (nat mi) (nat sec) (nat ms)"
    "0 \<le> y" "y \<le> 9999" "ymd_ok y m d" "0 \<le> h" "h \<le> 23" "0 \<le> mi" "mi \<le> 59" "0 \<le> sec" "sec \<le> 59"
    "0 \<le> ms" "ms \<le> 999" "t = ns_of_fields y m d h mi sec ms" "y = parse_fixed_width (substr s 0 4)"
proof -
  let ?y = "parse_fixed_width (substr s 0 4)" and ?m = "parse_fixed_width (substr s 5 2)"
    and ?d = "parse_fixed_width (substr s 8 2)" and ?h = "parse_fixed_width (substr s 11 2)"
    and ?mi = "parse_fixed_width (substr s 14 2)" and ?sec = "parse_fixed_width (substr s 17 2)"
    and ?ms = "parse_fixed_width (substr s 20 3)"
  have "s \<noteq> []" using assms(2) by auto
  then have last: "last s = s ! 23" using assms(2) by (simp add: last_conv_nth)
  have seps: "s ! 4 = CHR ''-''" "s ! 7 = CHR ''-''" "s ! 10 = CHR ''T''" "s ! 13 = CHR '':''"
      "s ! 16 = CHR '':''" "s ! 19 = CHR ''.''" "s ! 23 = CHR ''Z''"
    and digs: "all_digits (substr s 0 4)" "all_digits (substr s 5 2)" "all_digits (substr s 8 2)"
      "all_digits (substr s 11 2)" "all_digits (substr s 14 2)" "all_digits (substr s 17 2)"
      "all_digits (substr s 20 3)"
    and chk: "check_fields s ?y ?m ?d ?h ?mi ?sec ?ms = Inr t"
    using assms last
    by (auto simp: parse_iso8601_utc_def parse_fraction_def frac_scale_def Let_def
        split: if_splits sum.splits)
  note fd = digs [THEN fixed_digits_substr(1)] and lb = digs [THEN fixed_digits_substr(2)]
    and ub = digs [THEN fixed_digits_substr(3)]
  have "s = stamp (nat ?y) (nat ?m) (nat ?d) (nat ?h) (nat ?mi) (nat ?sec) (nat ?ms)"
    unfolding stamp_def using split24 [OF assms(2)] seps assms(2)
    by (simp only: fd append_Cons append_Nil numeral_le_iff)
  moreover have "0 \<le> ?y" "?y \<le> 9999" "0 \<le> ?h" "0 \<le> ?mi" "0 \<le> ?sec" "0 \<le> ?ms" "?ms \<le> 999"
    using lb ub(1,7) assms(2) by simp_all
  ultimately show ?thesis using that check_fieldsD [OF chk] by blast
qed

lemma divmod_pack: "0 \<le> a \<Longrightarrow> a < n \<Longrightarrow> (a + b * n) div n = b \<and> (a + b * n) mod n = (a::int)"
  by simp

lemma tod_unique:
  assumes "0 \<le> h" "h \<le> (23::int)" "0 \<le> mi" "mi \<le> 59" "0 \<le> s" "s \<le> 59" "0 \<le> ms" "ms \<le> 999"
  defines "tod \<equiv> h * 3600000 + mi * 60000 + s * 1000 + ms"
  shows "tod div 3600000 = h" "tod div 60000 mod 60 = mi" "tod div 1000 mod 60 = s" "tod mod 1000 = ms"
    "0 \<le> tod" "tod < 86400000"
proof -
  have t: "tod = ms + ((h * 60 + mi) * 60 + s) * 1000" unfolding tod_def by simp
  have "tod div 1000 = (h * 60 + mi) * 60 + s" and "tod mod 1000 = ms"
    unfolding t using divmod_pack [of ms 1000 "(h * 60 + mi) * 60 + s"] assms(7,8) by linarith+
  then have d1: "tod div 1000 = s + (h * 60 + mi) * 60" and "tod mod 1000 = ms" by simp_all
  then show "tod mod 1000 = ms" by simp
  have d2: "tod div 1000 div 60 = mi + h * 60" and "tod div 1000 mod 60 = s"
    unfolding d1 using divmod_pack [of s 60 "h * 60 + mi"] assms(5,6) by linarith+
  then show "tod div 1000 mod 60 = s" by simp
  have e2: "tod div 60000 = mi + h * 60"
    unfolding d2 [symmetric] by (simp add: zdiv_zmult2_eq [symmetric])
  show "tod div 60000 mod 60 = mi"
    unfolding e2 using divmod_pack [of mi 60 h] assms(3,4) by linarith
  have "tod div 3600000 = tod div 60000 div 60" by (simp add: zdiv_zmult2_eq [symmetric])
  also have "\<dots> = h" unfolding e2 using divmod_pack [of mi 60 h] assms(3,4) by linarith
  finally show "tod div 3600000 = h" .
  show "0 \<le> tod" "tod < 86400000" using assms(1-8) unfolding tod_def by linarith+
qed

lemma days_bounds:
  assumes "1678 \<le> y" "y \<le> 2261" "ymd_ok y m d"
  shows "- 106700 \<le> days_from_civil y m d" "days_from_civil y m d \<le> 106750"
proof -
  define y' where "y' = (if m \<le> 2 then y - 1 else y)"
  define mp where "mp = (if m > 2 then m - 3 else m + 9)"
  define yoe where "yoe = y' mod 400"
  have md: "1 \<le> m" "m \<le> 12" "1 \<le> d" "d \<le> 31"
    using assms(3) last_day_le [of y m] by (auto simp: ymd_ok_def)
  have mp: "0 \<le> mp" "mp \<le> 11" "m \<le> 2 \<Longrightarrow> 10 \<le> mp" using md by (auto simp: mp_def)
  have dm: "0 \<le> doy_of_month mp" "doy_of_month mp \<le> 337" "10 \<le> mp \<Longrightarrow> 306 \<le> doy_of_month mp"
    using mp by (auto simp: doy_of_month_def)
  have y': "1678 \<le> y' \<or> y' = 1677 \<and> 306 \<le> doy_of_month mp" "y' \<le> 2261"
    using assms(1,2) dm(3) mp(3) by (auto simp: y'_def)
  have e: "y' div 400 = 4 \<or> y' div 400 = 5" using y' dm(1) by auto
  have yo: "y' = y' div 400 * 400 + yoe" by (simp add: yoe_def)
  have yoe: "0 \<le> yoe" "yoe \<le> 399" by (auto simp: yoe_def intro: order.strict_implies_order)
  have q4: "4 * (yoe div 4) \<le> yoe" "yoe \<le> 4 * (yoe div 4) + 3"
    and q100: "100 * (yoe div 100) \<le> yoe" "yoe \<le> 100 * (yoe div 100) + 99" by linarith+
  have "days_from_civil y m d = y' div 400 * 146097 + (yoe * 365 + yoe div 4 - yoe div 100 + (doy_of_month mp + d - 1)) - 719468"
    by (simp add: days_from_civil_def Let_def y'_def mp_def yoe_def)
  then show "- 106700 \<le> days_from_civil y m d" "days_from_civil y m d \<le> 106750"
    using e yo yoe q4 q100 y' dm(1,2) md(3,4) by linarith+
qed

lemma format_of_fields:
  assumes "1678 \<le> y" "y \<le> 2261" "ymd_ok y m d"
    and b: "0 \<le> h" "h \<le> 23" "0 \<le> mi" "mi \<le> 59" "0 \<le> s" "s \<le> 59" "0 \<le> ms" "ms \<le> 999"
  shows "format_iso8601_utc (ns_of_fields y m d h mi s ms)
    = stamp (nat y) (nat m) (nat d) (nat h) (nat mi) (nat s) (nat ms)"
proof -
  define tod where "tod = h * 3600000 + mi * 60000 + s * 1000 + ms"
  define total where "total = days_from_civil y m d * 86400000 + tod"
  note tu = tod_unique [OF b, folded tod_def]
  have md: "1 \<le> m" "m \<le> 12" "1 \<le> d" "d \<le> 31" "d \<le> last_day y m"
    using assms(3) last_day_le [of y m] by (auto simp: ymd_ok_def)
  have "in_i64 (total * 1000000)"
    using days_bounds [OF assms(1-3)] tu(5,6)
    unfolding in_i64_def i64_min_def i64_max_def total_def by simp
  then have ns: "ns_of_fields y m d h mi s ms = total * 1000000"
    by (simp add: ns_of_fields_def total_def tod_def algebra_simps)
  have ms: "ms_of_ns (total * 1000000) = total" by (simp add: ms_of_ns_def)
  have tot: "total = tod + days_from_civil y m d * 86400000" by (simp add: total_def)
  have day: "total div 86400000 = days_from_civil y m d"
    unfolding tot using tu(5,6) by simp
  have split: "total - days_from_civil y m d * 86400000 = tod" by (simp add: tot)
  have civ: "civil_from_days (days_from_civil y m d) = (y, m, d)"
    using civil_from_days_from_civil md by simp
  have yr: "(if y < 0 then 0 else if y > 9999 then 9999 else y) = y" using assms(1,2) by simp
  have "nat y < 10 ^ 4" "nat m < 10 ^ 2" "nat d < 10 ^ 2" "nat h < 10 ^ 2" "nat mi < 10 ^ 2"
    "nat s < 10 ^ 2" "nat ms < 10 ^ 3"
    using assms(1,2) md b by simp_all
  note pads = this [THEN pad_nat_fixed [rotated]]
  show ?thesis
    unfolding ns format_iso8601_utc_def stamp_def ms Let_def day civ prod.case split tu(1-4) yr
    by (simp only: pads zero_less_numeral)
qed

section \<open>Properties\<close>

text \<open>
  C37: every representable time survives the wire format: parsing what the formatter prints
  succeeds and gives the time floored to the millisecond. The one premise excludes the last
  fraction of a millisecond before the smallest 64-bit count.
\<close>

theorem parse_format_iso8601:
  assumes "in_i64 t" and "i64_min \<le> ms_of_ns t * 1000000"
  shows "parse_iso8601_utc (format_iso8601_utc t) = Inr (ms_of_ns t * 1000000)"
  using assms by (rule parse_format)

theorem parse_format_iso8601_witness:
  "in_i64 951782400123456789 \<and> i64_min \<le> ms_of_ns 951782400123456789 * 1000000 \<and>
   parse_iso8601_utc (format_iso8601_utc 951782400123456789) = Inr 951782400123000000"
proof -
  have h: "in_i64 951782400123456789" "i64_min \<le> ms_of_ns 951782400123456789 * 1000000"
    by code_simp+
  have ms: "ms_of_ns 951782400123456789 = 951782400123" by code_simp
  show ?thesis using h parse_format_iso8601 [OF h] unfolding ms by simp
qed

text \<open>
  The strict parser accepts only canonical millisecond stamps, up to the range of the
  clock: a 24-byte input that parses, with a year the 64-bit nanosecond clock can hold
  completely (1678 to 2261), is exactly what the formatter prints for the parsed time.
\<close>

theorem format_parse_iso8601:
  assumes "parse_iso8601_utc s = Inr t" and "length s = 24"
    and "1678 \<le> parse_fixed_width (substr s 0 4)" and "parse_fixed_width (substr s 0 4) \<le> 2261"
  shows "format_iso8601_utc t = s"
proof -
  obtain y m d h mi sec ms where
    s: "s = stamp (nat y) (nat m) (nat d) (nat h) (nat mi) (nat sec) (nat ms)"
    and f: "ymd_ok y m d" "0 \<le> h" "h \<le> 23" "0 \<le> mi" "mi \<le> 59" "0 \<le> sec" "sec \<le> 59" "0 \<le> ms" "ms \<le> 999"
    and t: "t = ns_of_fields y m d h mi sec ms" and y: "y = parse_fixed_width (substr s 0 4)"
    by (rule parse24_stamp [OF assms(1,2)])
  have "1678 \<le> y" "y \<le> 2261" using assms(3,4) unfolding y [symmetric] .
  from format_of_fields [OF this f] show ?thesis unfolding t by (rule trans [OF _ s [symmetric]])
qed

theorem format_parse_iso8601_witness:
  "parse_iso8601_utc ''2000-02-29T00:00:00.123Z'' = Inr 951782400123000000 \<and>
   format_iso8601_utc 951782400123000000 = ''2000-02-29T00:00:00.123Z''"
proof -
  have p: "parse_iso8601_utc ''2000-02-29T00:00:00.123Z'' = Inr 951782400123000000" by code_simp
  have y: "parse_fixed_width (substr ''2000-02-29T00:00:00.123Z'' 0 4) = 2000" by code_simp
  have len: "length ''2000-02-29T00:00:00.123Z'' = 24" by simp
  have "format_iso8601_utc 951782400123000000 = ''2000-02-29T00:00:00.123Z''"
    by (rule format_parse_iso8601 [OF p len]) (unfold y, simp_all)
  with p show ?thesis by blast
qed

end
