(* ===== verification/Perm_Rules.thy ===== *)
theory Perm_Rules
  imports Core_Error
begin

text \<open>
  \<^verbatim>\<open>oran-permission/rule_set.cpp\<close> and \<^verbatim>\<open>defaults.cpp\<close>: the glob matcher over tool names, the
  evaluation of a rule set against a tool call and its required capabilities, the intersection
  of two decisions, and the baseline rules of every mode. The regular expression engine behind
  \<^verbatim>\<open>InputPattern\<close> (re2) is a parameter \<open>re_match\<close> of the definitions: pattern source and input
  to acceptance.
\<close>

section \<open>Data\<close>

datatype verdict = Allow | Deny | Ask

datatype mode = Strict | DefaultMode | Permissive | Sandboxed

datatype capability =
    read_file | write_file | edit_file | delete_path | list_directory
  | egress_http | egress_websocket | spawn_subprocess | signal_subprocess
  | external_mcp | runtime_loader

record rule =
  rl_verdict :: verdict
  rl_tool_pattern :: string
  rl_capability :: "capability option"
  rl_input_pattern :: "string option"
  rl_replay_max :: "32 word"
  rl_approval_ttl :: int

record decision =
  dc_verdict :: verdict
  dc_reason :: string
  dc_replay_max :: "32 word"
  dc_approval_ttl :: int

type_synonym rule_set = "rule list"
type_synonym re_engine = "string \<Rightarrow> string \<Rightarrow> bool"

text \<open>\<^verbatim>\<open>core::enum_name\<close>: the enumerator's identifier, a trailing underscore stripped.\<close>

fun verdict_name :: "verdict \<Rightarrow> string" where
  "verdict_name Allow = ''allow''"
| "verdict_name Deny = ''deny''"
| "verdict_name Ask = ''ask''"

fun mode_name :: "mode \<Rightarrow> string" where
  "mode_name Strict = ''strict''"
| "mode_name DefaultMode = ''default''"
| "mode_name Permissive = ''permissive''"
| "mode_name Sandboxed = ''sandboxed''"

fun capability_name :: "capability \<Rightarrow> string" where
  "capability_name read_file = ''read_file''"
| "capability_name write_file = ''write_file''"
| "capability_name edit_file = ''edit_file''"
| "capability_name delete_path = ''delete_path''"
| "capability_name list_directory = ''list_directory''"
| "capability_name egress_http = ''egress_http''"
| "capability_name egress_websocket = ''egress_websocket''"
| "capability_name spawn_subprocess = ''spawn_subprocess''"
| "capability_name signal_subprocess = ''signal_subprocess''"
| "capability_name external_mcp = ''external_mcp''"
| "capability_name runtime_loader = ''runtime_loader''"

section \<open>The glob matcher\<close>

text \<open>
  The two-pointer loop of \<^verbatim>\<open>glob_match\<close>: \<open>pi\<close> and \<open>ti\<close> index the pattern and the text, \<open>star\<close>
  is the position of the last star seen (None for \<^verbatim>\<open>npos\<close>) and \<open>m\<close> the text position to
  resume from. The loop itself is a partial function; that it always returns is a theorem.
\<close>

partial_function (option) glob_loop ::
  "string \<Rightarrow> string \<Rightarrow> nat \<Rightarrow> nat \<Rightarrow> nat option \<Rightarrow> nat \<Rightarrow> nat option option" where
  "glob_loop p t pi ti star m =
     (if ti < length t then
        (if pi < length p \<and> p ! pi = CHR ''*'' then glob_loop p t (Suc pi) ti (Some pi) ti
         else if pi < length p \<and> p ! pi = t ! ti then glob_loop p t (Suc pi) (Suc ti) star m
         else case star of
             Some s \<Rightarrow> glob_loop p t (Suc s) (Suc m) star (Suc m)
           | None \<Rightarrow> Some None)
      else Some (Some pi))"

fun skip_stars :: "string \<Rightarrow> string" where
  "skip_stars [] = []"
| "skip_stars (c # cs) = (if c = CHR ''*'' then skip_stars cs else c # cs)"

text \<open>After the loop the remaining stars are skipped; the match succeeds at the pattern's end.\<close>

definition glob_match :: "string \<Rightarrow> string \<Rightarrow> bool" where
  "glob_match p t =
     (case glob_loop p t 0 0 None 0 of
        Some (Some pi) \<Rightarrow> skip_stars (drop pi p) = []
      | _ \<Rightarrow> False)"

section \<open>Evaluation\<close>

fun mode_default_verdict :: "mode \<Rightarrow> verdict" where
  "mode_default_verdict Strict = Deny"
| "mode_default_verdict Sandboxed = Deny"
| "mode_default_verdict DefaultMode = Ask"
| "mode_default_verdict Permissive = Allow"

definition format_reason :: "nat \<Rightarrow> rule \<Rightarrow> string" where
  "format_reason index r =
     ''rule #'' @ show_nat index @ '' ('' @ verdict_name (rl_verdict r) @ '': '' @ rl_tool_pattern r @
     (case rl_capability r of None \<Rightarrow> [] | Some c \<Rightarrow> '' capability='' @ capability_name c) @
     (case rl_input_pattern r of None \<Rightarrow> [] | Some q \<Rightarrow> '' input=~\"'' @ q @ ''\"'') @ '')''"

definition rule_matches ::
  "re_engine \<Rightarrow> string \<Rightarrow> string \<Rightarrow> capability option \<Rightarrow> verdict \<Rightarrow> rule \<Rightarrow> bool" where
  "rule_matches re_match tool_name input cap v r \<longleftrightarrow>
     rl_verdict r = v \<and> glob_match (rl_tool_pattern r) tool_name \<and>
     (rl_capability r = None \<or> rl_capability r = cap) \<and>
     (case rl_input_pattern r of None \<Rightarrow> True | Some q \<Rightarrow> re_match q input)"

definition decision_of_rule :: "verdict \<Rightarrow> nat \<Rightarrow> rule \<Rightarrow> decision" where
  "decision_of_rule v index r =
     \<lparr>dc_verdict = v, dc_reason = format_reason index r,
      dc_replay_max = rl_replay_max r, dc_approval_ttl = rl_approval_ttl r\<rparr>"

definition default_decision :: "mode \<Rightarrow> decision" where
  "default_decision md =
     \<lparr>dc_verdict = mode_default_verdict md, dc_reason = ''default by mode='' @ mode_name md,
      dc_replay_max = 8, dc_approval_ttl = 3600\<rparr>"

fun evaluate_passes ::
  "re_engine \<Rightarrow> rule_set \<Rightarrow> string \<Rightarrow> string \<Rightarrow> capability option \<Rightarrow> mode \<Rightarrow> verdict list \<Rightarrow> decision" where
  "evaluate_passes re_match rules tool_name input cap md [] = default_decision md"
| "evaluate_passes re_match rules tool_name input cap md (v # vs) =
     (case find_idx (rule_matches re_match tool_name input cap v) rules of
        Some (i, r) \<Rightarrow> decision_of_rule v i r
      | None \<Rightarrow> evaluate_passes re_match rules tool_name input cap md vs)"

definition evaluate_requirement ::
  "re_engine \<Rightarrow> rule_set \<Rightarrow> string \<Rightarrow> string \<Rightarrow> capability option \<Rightarrow> mode \<Rightarrow> decision" where
  "evaluate_requirement re_match rules tool_name input cap md =
     evaluate_passes re_match rules tool_name input cap md [Deny, Allow, Ask]"

definition intersect :: "decision \<Rightarrow> decision \<Rightarrow> decision" where
  "intersect left right =
     (if dc_verdict left = Deny then left
      else if dc_verdict right = Deny then right
      else if dc_verdict right = Ask then
        (if dc_verdict left = Ask then
           left\<lparr>dc_replay_max := min (dc_replay_max left) (dc_replay_max right),
                dc_approval_ttl := min (dc_approval_ttl left) (dc_approval_ttl right)\<rparr>
         else right)
      else left)"

fun evaluate_rest ::
  "(capability option \<Rightarrow> decision) \<Rightarrow> decision \<Rightarrow> capability list \<Rightarrow> decision" where
  "evaluate_rest ev combined [] = combined"
| "evaluate_rest ev combined (c # cs) =
     (if dc_verdict combined = Deny then combined
      else evaluate_rest ev (intersect combined (ev (Some c))) cs)"

definition evaluate ::
  "re_engine \<Rightarrow> rule_set \<Rightarrow> string \<Rightarrow> string \<Rightarrow> capability list \<Rightarrow> mode \<Rightarrow> decision" where
  "evaluate re_match rules tool_name input required md =
     (case required of
        [] \<Rightarrow> evaluate_requirement re_match rules tool_name input None md
      | c # cs \<Rightarrow>
          evaluate_rest (\<lambda>cap. evaluate_requirement re_match rules tool_name input cap md)
            (evaluate_requirement re_match rules tool_name input (Some c) md) cs)"

section \<open>Baselines\<close>

definition baseline_rule :: "verdict \<Rightarrow> capability \<Rightarrow> rule" where
  "baseline_rule v c =
     \<lparr>rl_verdict = v, rl_tool_pattern = ''*'', rl_capability = Some c, rl_input_pattern = None,
      rl_replay_max = 8, rl_approval_ttl = 3600\<rparr>"

definition default_baseline :: rule_set where
  "default_baseline =
     [baseline_rule Deny runtime_loader, baseline_rule Deny delete_path,
      baseline_rule Allow read_file, baseline_rule Ask write_file, baseline_rule Ask edit_file,
      baseline_rule Ask spawn_subprocess, baseline_rule Ask egress_http]"

definition permissive_baseline :: rule_set where
  "permissive_baseline = [baseline_rule Deny runtime_loader, baseline_rule Deny delete_path]"

definition sandboxed_baseline :: rule_set where
  "sandboxed_baseline = [baseline_rule Allow read_file]"

fun default_rules :: "mode \<Rightarrow> rule_set" where
  "default_rules Strict = []"
| "default_rules DefaultMode = default_baseline"
| "default_rules Permissive = permissive_baseline"
| "default_rules Sandboxed = sandboxed_baseline"

section \<open>Globs: the declarative reading\<close>

inductive glob_spec :: "string \<Rightarrow> string \<Rightarrow> bool" where
  nil: "glob_spec [] []"
| lit: "c \<noteq> CHR ''*'' \<Longrightarrow> glob_spec p t \<Longrightarrow> glob_spec (c # p) (c # t)"
| star: "glob_spec p t \<Longrightarrow> glob_spec (CHR ''*'' # p) (u @ t)"

inductive_simps glob_spec_Nil: "glob_spec [] t"
inductive_simps glob_spec_Cons: "glob_spec (c # p) t"

lemma glob_spec_lit_Cons:
  "c \<noteq> CHR ''*'' \<Longrightarrow> glob_spec (c # p) t \<longleftrightarrow> (\<exists>t'. t = c # t' \<and> glob_spec p t')"
  by (auto simp: glob_spec_Cons)

lemma glob_spec_star:
  "glob_spec (CHR ''*'' # p) t \<longleftrightarrow> (\<exists>k \<le> length t. glob_spec p (drop k t))"
proof
  assume "glob_spec (CHR ''*'' # p) t"
  then obtain u t' where "t = u @ t'" "glob_spec p t'" by (auto simp: glob_spec_Cons)
  then show "\<exists>k \<le> length t. glob_spec p (drop k t)" by (intro exI [of _ "length u"]) simp
next
  assume "\<exists>k \<le> length t. glob_spec p (drop k t)"
  then obtain k where "glob_spec p (drop k t)" by blast
  then show "glob_spec (CHR ''*'' # p) t"
    using glob_spec.star [of p "drop k t" "take k t"] by simp
qed

lemma glob_spec_lits:
  "CHR ''*'' \<notin> set l \<Longrightarrow> glob_spec (l @ p) t \<longleftrightarrow> (\<exists>t'. t = l @ t' \<and> glob_spec p t')"
  by (induction l arbitrary: t) (auto simp: glob_spec_lit_Cons)

lemma glob_spec_empty_text: "glob_spec p [] \<longleftrightarrow> skip_stars p = []"
  by (induction p) (auto simp: glob_spec_Nil glob_spec_lit_Cons glob_spec_star)

section \<open>The matcher is total and decides the glob\<close>

text \<open>
  The loop invariant: since the last star at \<open>s\<close> the pattern up to \<open>pi\<close> is literal and equal to
  the text from \<open>m\<close> to \<open>ti\<close>.
\<close>

definition glob_inv :: "string \<Rightarrow> string \<Rightarrow> nat \<Rightarrow> nat \<Rightarrow> nat option \<Rightarrow> nat \<Rightarrow> bool" where
  "glob_inv p t pi ti star m \<longleftrightarrow> pi \<le> length p \<and> ti \<le> length t \<and>
     (case star of None \<Rightarrow> True
      | Some s \<Rightarrow> \<exists>l. drop s p = CHR ''*'' # l @ drop pi p \<and> drop m t = l @ drop ti t \<and>
          CHR ''*'' \<notin> set l \<and> s < pi \<and> s < length p \<and> m \<le> ti)"

text \<open>What the loop still has to decide in a state.\<close>

definition glob_goal :: "string \<Rightarrow> string \<Rightarrow> nat \<Rightarrow> nat \<Rightarrow> nat option \<Rightarrow> nat \<Rightarrow> bool" where
  "glob_goal p t pi ti star m =
     (case star of None \<Rightarrow> glob_spec (drop pi p) (drop ti t)
      | Some s \<Rightarrow> glob_spec (drop s p) (drop m t))"

lemma drop_eq_Cons: "i < length xs \<Longrightarrow> drop i xs = xs ! i # drop (Suc i) xs"
  by (simp add: Cons_nth_drop_Suc)

lemma glob_star_absorb:
  assumes "CHR ''*'' \<notin> set l"
  shows "glob_spec (CHR ''*'' # l @ CHR ''*'' # q) (l @ t) \<longleftrightarrow> glob_spec (CHR ''*'' # q) t"
proof
  assume "glob_spec (CHR ''*'' # l @ CHR ''*'' # q) (l @ t)"
  then obtain k t' where k: "drop k (l @ t) = l @ t'" and t': "glob_spec (CHR ''*'' # q) t'"
    using assms by (auto simp: glob_spec_star [of "l @ _"] glob_spec_lits)
  have "t' = drop (length l) (drop k (l @ t))" by (subst k) simp
  also have "\<dots> = drop k (drop (length l) (l @ t))" by (simp add: add.commute del: drop_append)
  also have "\<dots> = drop k t" by simp
  finally have "t = take k t @ t'" by simp
  with t' show "glob_spec (CHR ''*'' # q) t"
    by (metis append.assoc glob_spec_Cons)
next
  assume "glob_spec (CHR ''*'' # q) t"
  then have "glob_spec (l @ CHR ''*'' # q) (l @ t)" using assms by (auto simp: glob_spec_lits)
  then show "glob_spec (CHR ''*'' # l @ CHR ''*'' # q) (l @ t)"
    using glob_spec.star [of _ _ "[]"] by simp
qed

lemma glob_star_unfold:
  "glob_spec (CHR ''*'' # p) t \<longleftrightarrow> glob_spec p t \<or> (t \<noteq> [] \<and> glob_spec (CHR ''*'' # p) (tl t))"
proof (cases t)
  case Nil
  then show ?thesis by (simp add: glob_spec_star)
next
  case (Cons c cs)
  have "(\<exists>k \<le> length t. glob_spec p (drop k t)) \<longleftrightarrow>
    glob_spec p t \<or> (\<exists>k \<le> length cs. glob_spec p (drop k cs))"
    by (metis Cons Suc_le_mono drop0 drop_Suc_Cons le0 length_Cons not0_implies_Suc)
  then show ?thesis by (simp add: glob_spec_star Cons)
qed

lemma glob_star_mismatch:
  assumes "CHR ''*'' \<notin> set l" "\<not> glob_spec q t" "l @ t \<noteq> []"
  shows "glob_spec (CHR ''*'' # l @ q) (l @ t) \<longleftrightarrow> glob_spec (CHR ''*'' # l @ q) (tl (l @ t))"
proof -
  have "\<not> glob_spec (l @ q) (l @ t)" using assms(1,2) by (simp add: glob_spec_lits)
  then show ?thesis using assms(3) glob_star_unfold [of "l @ q" "l @ t"] by blast
qed

lemma glob_star_end:
  assumes "CHR ''*'' \<notin> set l"
  shows "glob_spec (CHR ''*'' # l @ q) l \<longleftrightarrow> glob_spec q []"
proof
  assume "glob_spec (CHR ''*'' # l @ q) l"
  then obtain k t' where k: "k \<le> length l" "drop k l = l @ t'" "glob_spec q t'"
    using assms by (auto simp: glob_spec_star glob_spec_lits)
  then have "length l - k = length l + length t'" by (metis length_append length_drop)
  then have "t' = []" by (cases t') auto
  with k show "glob_spec q []" by simp
next
  assume "glob_spec q []"
  then have "glob_spec (l @ q) l" using assms by (auto simp: glob_spec_lits)
  then show "glob_spec (CHR ''*'' # l @ q) l" using glob_spec.star [of _ _ "[]"] by simp
qed

text \<open>One lemma per branch of the loop: the invariant and the goal are kept.\<close>

lemma glob_step_star:
  assumes "glob_inv p t pi ti star m" "ti < length t" "pi < length p" "p ! pi = CHR ''*''"
  shows "glob_inv p t (Suc pi) ti (Some pi) ti"
    "glob_goal p t (Suc pi) ti (Some pi) ti = glob_goal p t pi ti star m"
proof -
  have d: "drop pi p = CHR ''*'' # drop (Suc pi) p" using assms by (simp add: drop_eq_Cons)
  then show "glob_inv p t (Suc pi) ti (Some pi) ti" using assms by (simp add: glob_inv_def)
  show "glob_goal p t (Suc pi) ti (Some pi) ti = glob_goal p t pi ti star m"
    using assms(1) glob_star_absorb by (auto simp: glob_goal_def glob_inv_def d split: option.splits)
qed

lemma glob_step_lit:
  assumes "glob_inv p t pi ti star m" "ti < length t" "pi < length p" "p ! pi \<noteq> CHR ''*''"
    "p ! pi = t ! ti"
  shows "glob_inv p t (Suc pi) (Suc ti) star m"
    "glob_goal p t (Suc pi) (Suc ti) star m = glob_goal p t pi ti star m"
proof -
  have d: "drop pi p = p ! pi # drop (Suc pi) p" "drop ti t = p ! pi # drop (Suc ti) t"
    using assms by (simp_all add: drop_eq_Cons)
  show "glob_inv p t (Suc pi) (Suc ti) star m"
  proof (cases star)
    case None
    with assms show ?thesis by (simp add: glob_inv_def)
  next
    case (Some s)
    with assms(1) obtain l where "drop s p = CHR ''*'' # l @ drop pi p" "drop m t = l @ drop ti t"
      "CHR ''*'' \<notin> set l" "s < pi" "s < length p" "m \<le> ti" by (auto simp: glob_inv_def)
    with Some assms d show ?thesis
      by (auto simp: glob_inv_def intro!: exI [of _ "l @ [p ! pi]"])
  qed
  show "glob_goal p t (Suc pi) (Suc ti) star m = glob_goal p t pi ti star m"
    using assms(4) by (auto simp: glob_goal_def d glob_spec_lit_Cons split: option.splits)
qed

lemma glob_mismatch:
  assumes "ti < length t" "\<not> (pi < length p \<and> p ! pi = CHR ''*'')"
    "\<not> (pi < length p \<and> p ! pi = t ! ti)"
  shows "\<not> glob_spec (drop pi p) (drop ti t)"
  using assms by (cases "pi < length p") (auto simp: drop_eq_Cons glob_spec_lit_Cons glob_spec_Nil)

lemma glob_step_back:
  assumes "glob_inv p t pi ti (Some s) m" "ti < length t" "\<not> (pi < length p \<and> p ! pi = CHR ''*'')"
    "\<not> (pi < length p \<and> p ! pi = t ! ti)"
  shows "glob_inv p t (Suc s) (Suc m) (Some s) (Suc m)"
    "glob_goal p t (Suc s) (Suc m) (Some s) (Suc m) = glob_goal p t pi ti (Some s) m"
proof -
  from assms(1) obtain l where l: "drop s p = CHR ''*'' # l @ drop pi p" "drop m t = l @ drop ti t"
    "CHR ''*'' \<notin> set l" "s < pi" "s < length p" "m \<le> ti" by (auto simp: glob_inv_def)
  have "drop (Suc s) p = tl (drop s p)" by (simp add: drop_Suc tl_drop)
  then have ds: "drop (Suc s) p = l @ drop pi p" by (simp add: l)
  then show "glob_inv p t (Suc s) (Suc m) (Some s) (Suc m)"
    using l assms(2) by (auto simp: glob_inv_def)
  have dm: "drop (Suc m) t = tl (l @ drop ti t)"
    by (simp add: l(2) [symmetric] drop_Suc tl_drop)
  show "glob_goal p t (Suc s) (Suc m) (Some s) (Suc m) = glob_goal p t pi ti (Some s) m"
    using glob_star_mismatch [OF l(3) glob_mismatch [OF assms(2-4)]] assms(2)
    by (simp add: glob_goal_def l(1,2) dm)
qed

lemma glob_loop_total:
  "glob_inv p t pi ti star m \<Longrightarrow>
   \<exists>r. glob_loop p t pi ti star m = Some r \<and>
     ((\<exists>i. r = Some i \<and> skip_stars (drop i p) = []) \<longleftrightarrow> glob_goal p t pi ti star m)"
proof (induction "(pi, ti, star, m)" arbitrary: pi ti star m
    rule: wf_induct_rule [OF wf_measures [of
      "[\<lambda>(pi, ti, star, m). case star of None \<Rightarrow> Suc (length p) | Some s \<Rightarrow> length p - s,
        \<lambda>(pi, ti, star, m). length t - m, \<lambda>(pi, ti, star, m). length t - ti]"]])
  case less: 1
  note IH = less.hyps and inv = less.prems
  show ?case
  proof (cases "ti < length t")
    case False
    then have "ti = length t" using inv by (simp add: glob_inv_def)
    then have "glob_goal p t pi ti star m \<longleftrightarrow> skip_stars (drop pi p) = []"
      using inv glob_star_end
      by (auto simp: glob_goal_def glob_inv_def glob_spec_empty_text split: option.splits)
    with False show ?thesis by (simp add: glob_loop.simps [of p t pi])
  next
    case lt: True
    show ?thesis
    proof (cases "pi < length p \<and> p ! pi = CHR ''*''")
      case True
      have "glob_loop p t pi ti star m = glob_loop p t (Suc pi) ti (Some pi) ti"
        using lt True by (simp add: glob_loop.simps [of p t pi])
      moreover have "length p - pi < (case star of None \<Rightarrow> Suc (length p) | Some s \<Rightarrow> length p - s)"
        using inv True by (auto simp: glob_inv_def split: option.splits)
      ultimately show ?thesis
        using IH [of "Suc pi" ti "Some pi" ti] glob_step_star [OF inv lt] True by simp
    next
      case nostar: False
      show ?thesis
      proof (cases "pi < length p \<and> p ! pi = t ! ti")
        case True
        have "glob_loop p t pi ti star m = glob_loop p t (Suc pi) (Suc ti) star m"
          using lt True nostar by (subst glob_loop.simps) auto
        with IH [of "Suc pi" "Suc ti" star m] glob_step_lit [OF inv lt] True nostar lt show ?thesis by auto
      next
        case mism: False
        show ?thesis
        proof (cases star)
          case None
          have "glob_loop p t pi ti star m = Some None"
            using lt mism nostar None by (subst glob_loop.simps) auto
          with None glob_mismatch [OF lt nostar mism] show ?thesis by (simp add: glob_goal_def)
        next
          case (Some s)
          have "glob_loop p t pi ti star m = glob_loop p t (Suc s) (Suc m) star (Suc m)"
            using lt mism nostar Some by (subst glob_loop.simps) auto
          moreover have "length t - Suc m < length t - m" using inv lt Some by (auto simp: glob_inv_def)
          ultimately show ?thesis
            using IH [of "Suc s" "Suc m" "Some s" "Suc m"] glob_step_back [OF _ lt nostar mism] inv Some
            by simp
        qed
      qed
    qed
  qed
qed

lemma glob_match_iff: "glob_match p t \<longleftrightarrow> glob_spec p t"
  using glob_loop_total [of p t 0 0 None 0]
  by (auto simp: glob_match_def glob_inv_def glob_goal_def split: option.splits)

section \<open>Authority as a ranked meet\<close>

text \<open>
  The contract every combination of decisions relies on: a meet whose rank (how restrictive a
  decision is) is the larger of the two, with a top rank nothing can change. A loop that stops
  at the top computes the whole fold, and its rank is the largest rank met.
\<close>

locale ranked_meet =
  fixes meet :: "'d \<Rightarrow> 'd \<Rightarrow> 'd" and rank :: "'d \<Rightarrow> nat" and top_rank :: nat
  assumes rank_meet: "rank (meet a b) = max (rank a) (rank b)"
    and rank_le_top: "rank a \<le> top_rank"
    and meet_top: "rank a = top_rank \<Longrightarrow> meet a b = a"
begin

lemma foldl_top: "rank a = top_rank \<Longrightarrow> foldl meet a bs = a"
  by (induction bs) (simp_all add: meet_top)

lemma rank_foldl_le: "rank (foldl meet a bs) \<le> n \<longleftrightarrow> rank a \<le> n \<and> (\<forall>b \<in> set bs. rank b \<le> n)"
  by (induction bs arbitrary: a) (auto simp: rank_meet)

lemma rank_foldl_cases: "rank (foldl meet a bs) = rank a \<or> (\<exists>b \<in> set bs. rank (foldl meet a bs) = rank b)"
proof (induction bs arbitrary: a)
  case Nil
  show ?case by simp
next
  case (Cons b bs)
  have "rank (meet a b) = rank a \<or> rank (meet a b) = rank b" by (simp add: rank_meet max_def)
  with Cons.IH [of "meet a b"] show ?case by auto
qed

lemma rank_foldl_eq_top: "rank (foldl meet a bs) = top_rank \<longleftrightarrow> rank a = top_rank \<or> (\<exists>b \<in> set bs. rank b = top_rank)"
  using rank_foldl_cases [of a bs] rank_foldl_le [of a bs "rank (foldl meet a bs)"]
    rank_le_top [of "foldl meet a bs"] by (metis dual_order.antisym order.refl)

end

fun verdict_rank :: "verdict \<Rightarrow> nat" where
  "verdict_rank Allow = 0"
| "verdict_rank Ask = 1"
| "verdict_rank Deny = 2"

lemma verdict_rank_inject [simp]: "verdict_rank v = verdict_rank w \<longleftrightarrow> v = w"
  by (cases v; cases w) simp_all

lemma verdict_rank_iff [simp]:
  "verdict_rank v = 2 \<longleftrightarrow> v = Deny" "verdict_rank v = Suc 0 \<longleftrightarrow> v = Ask" "verdict_rank v = 0 \<longleftrightarrow> v = Allow"
  by (cases v; simp)+

interpretation dec: ranked_meet intersect "\<lambda>d. verdict_rank (dc_verdict d)" 2
proof
  fix a b :: decision
  show "verdict_rank (dc_verdict (intersect a b)) = max (verdict_rank (dc_verdict a)) (verdict_rank (dc_verdict b))"
    by (cases "dc_verdict a"; cases "dc_verdict b") (simp_all add: intersect_def)
  show "verdict_rank (dc_verdict a) \<le> 2" by (cases "dc_verdict a") simp_all
  show "verdict_rank (dc_verdict a) = 2 \<Longrightarrow> intersect a b = a" by (simp add: intersect_def)
qed

section \<open>Evaluation, by cases\<close>

lemma evaluate_rest_foldl:
  "evaluate_rest ev d cs = foldl intersect d (map (\<lambda>c. ev (Some c)) cs)"
proof (induction cs arbitrary: d)
  case Nil
  show ?case by simp
next
  case (Cons c cs)
  show ?case
  proof (cases "dc_verdict d = Deny")
    case True
    then have "foldl intersect d (map (\<lambda>c. ev (Some c)) (c # cs)) = d"
      by (intro dec.foldl_top) simp
    with True show ?thesis by simp
  next
    case False
    with Cons show ?thesis by simp
  qed
qed

abbreviation any_match :: "re_engine \<Rightarrow> rule_set \<Rightarrow> string \<Rightarrow> string \<Rightarrow> capability option \<Rightarrow> verdict \<Rightarrow> bool" where
  "any_match re rules tool input cap v \<equiv> \<exists>r \<in> set rules. rule_matches re tool input cap v r"

text \<open>What a requirement evaluates to, in terms of the set of rules only.\<close>

definition requirement_verdict ::
  "re_engine \<Rightarrow> rule_set \<Rightarrow> string \<Rightarrow> string \<Rightarrow> capability option \<Rightarrow> mode \<Rightarrow> verdict" where
  "requirement_verdict re rules tool input cap md =
     (if any_match re rules tool input cap Deny then Deny
      else if any_match re rules tool input cap Allow then Allow
      else if any_match re rules tool input cap Ask then Ask
      else mode_default_verdict md)"

lemma evaluate_requirement_verdict:
  "dc_verdict (evaluate_requirement re rules tool input cap md) = requirement_verdict re rules tool input cap md"
proof -
  have ex: "any_match re rules tool input cap v \<longleftrightarrow> (\<exists>i r. find_idx (rule_matches re tool input cap v) rules = Some (i, r))" for v
    using find_idx_None_iff [of "rule_matches re tool input cap v" rules]
    by (cases "find_idx (rule_matches re tool input cap v) rules") auto
  show ?thesis
    unfolding requirement_verdict_def ex
    by (auto simp: evaluate_requirement_def decision_of_rule_def default_decision_def split: option.splits)
qed

lemma evaluate_requirement_set:
  "set rules = set rules' \<Longrightarrow>
   requirement_verdict re rules tool input cap md = requirement_verdict re rules' tool input cap md"
  by (simp add: requirement_verdict_def)

lemma evaluate_verdict_rank:
  "required \<noteq> [] \<Longrightarrow> verdict_rank (dc_verdict (evaluate re rules tool input required md)) \<le> n \<longleftrightarrow>
     (\<forall>c \<in> set required. verdict_rank (requirement_verdict re rules tool input (Some c) md) \<le> n)"
  by (cases required)
    (simp_all add: evaluate_def evaluate_rest_foldl dec.rank_foldl_le evaluate_requirement_verdict)

lemma verdict_eq_by_rank:
  assumes "\<And>n. verdict_rank v \<le> n \<longleftrightarrow> verdict_rank w \<le> n" shows "v = w"
  using assms [of "verdict_rank v"] assms [of "verdict_rank w"] by (metis dual_order.antisym order.refl verdict_rank_inject)

text \<open>The strictest verdict of a set.\<close>

definition strictest :: "verdict set \<Rightarrow> verdict" where
  "strictest vs = (if Deny \<in> vs then Deny else if Ask \<in> vs then Ask else Allow)"

lemma verdict_rank_bounds:
  "verdict_rank v \<le> 2" "v \<noteq> Deny \<Longrightarrow> verdict_rank v \<le> 1" "v \<noteq> Deny \<Longrightarrow> v \<noteq> Ask \<Longrightarrow> verdict_rank v = 0"
  by (cases v; simp)+

lemma rank_strictest: "verdict_rank (strictest vs) \<le> n \<longleftrightarrow> (\<forall>v \<in> vs. verdict_rank v \<le> n)"
proof
  assume le: "verdict_rank (strictest vs) \<le> n"
  show "\<forall>v \<in> vs. verdict_rank v \<le> n"
  proof
    fix v assume "v \<in> vs"
    then have "verdict_rank v \<le> verdict_rank (strictest vs)"
      using verdict_rank_bounds [of v] by (cases v) (auto simp: strictest_def)
    then show "verdict_rank v \<le> n" using le by simp
  qed
next
  assume "\<forall>v \<in> vs. verdict_rank v \<le> n"
  then show "verdict_rank (strictest vs) \<le> n" by (fastforce simp: strictest_def)
qed

lemma evaluate_verdict_strictest:
  assumes "required \<noteq> []"
  shows "dc_verdict (evaluate re rules tool input required md) =
    strictest ((\<lambda>c. requirement_verdict re rules tool input (Some c) md) ` set required)"
  by (rule verdict_eq_by_rank) (simp add: evaluate_verdict_rank [OF assms] rank_strictest)

lemma glob_match_any [simp]: "glob_match ''*'' t"
  using glob_spec.star [OF glob_spec.nil, of t] by (simp add: glob_match_iff)

lemma rule_matches_baseline [simp]:
  "rule_matches re tool input cap v (baseline_rule w c) \<longleftrightarrow> w = v \<and> cap = Some c"
  by (auto simp: rule_matches_def baseline_rule_def)

section \<open>Properties\<close>

text \<open>
  C36: the backtracking glob matcher always returns, and it decides the declarative meaning of a
  glob: a star stands for any byte sequence and every other byte for itself.
\<close>

theorem glob_match_correct:
  "(\<exists>r. glob_loop p t 0 0 None 0 = Some r) \<and> (glob_match p t \<longleftrightarrow> glob_spec p t)"
  using glob_loop_total [of p t 0 0 None 0] by (auto simp: glob_inv_def glob_match_iff)

text \<open>
  C3: the verdict of an evaluation over required capabilities. Each capability gets deny if any
  matching rule denies it, else allow if one allows it, else ask if one asks, else the mode's
  default; across capabilities deny outranks ask and ask outranks allow.
\<close>

theorem evaluate_verdict_spec:
  assumes "required \<noteq> []"
  shows "dc_verdict (evaluate re rules tool input required md) =
    (let vs = (\<lambda>c. requirement_verdict re rules tool input (Some c) md) ` set required in
     if Deny \<in> vs then Deny else if Ask \<in> vs then Ask else Allow)"
  using assms by (simp add: evaluate_verdict_strictest strictest_def Let_def)

theorem evaluate_verdict_spec_witness:
  "dc_verdict (evaluate (\<lambda>_ _. False) default_baseline ''FileEdit'' [] [read_file, edit_file] DefaultMode) = Ask"
  using evaluate_verdict_spec [of "[read_file, edit_file]" "\<lambda>_ _. False" default_baseline "''FileEdit''" "[]" DefaultMode]
  by (simp add: requirement_verdict_def default_baseline_def)

text \<open>
  A verdict does not depend on the order in which rules were written, nor on the order or
  repetition of the required capabilities.
\<close>

theorem evaluate_order_independent:
  assumes "set rules = set rules'" "set required = set required'"
  shows "dc_verdict (evaluate re rules tool input required md) = dc_verdict (evaluate re rules' tool input required' md)"
proof (cases "required = []")
  case True
  with assms(2) have "required' = []" by simp
  with True show ?thesis
    using evaluate_requirement_set [OF assms(1)] by (simp add: evaluate_def evaluate_requirement_verdict)
next
  case False
  with assms(2) have "required' \<noteq> []" by auto
  with False show ?thesis
    using assms(2) evaluate_requirement_set [OF assms(1)]
    by (intro verdict_eq_by_rank) (simp add: evaluate_verdict_rank)
qed

theorem evaluate_order_independent_witness:
  "set [baseline_rule Allow read_file, baseline_rule Deny read_file] = set [baseline_rule Deny read_file, baseline_rule Allow read_file] \<and>
   dc_verdict (evaluate (\<lambda>_ _. False) [baseline_rule Allow read_file, baseline_rule Deny read_file] ''FileRead'' [] [read_file] Strict)
   = dc_verdict (evaluate (\<lambda>_ _. False) [baseline_rule Deny read_file, baseline_rule Allow read_file] ''FileRead'' [] [read_file, read_file] Strict)"
proof -
  have h: "set [baseline_rule Allow read_file, baseline_rule Deny read_file] = set [baseline_rule Deny read_file, baseline_rule Allow read_file]"
    "set [read_file] = set [read_file, read_file]" by auto
  show ?thesis using h(1) evaluate_order_independent [OF h] by blast
qed

text \<open>
  Intersecting two decisions never widens authority: the result is as restrictive as the
  stricter one, and an approval it asks for has no more replays and no longer life than any
  side that asked.
\<close>

theorem intersect_never_widens:
  "verdict_rank (dc_verdict (intersect l r)) = max (verdict_rank (dc_verdict l)) (verdict_rank (dc_verdict r)) \<and>
   (dc_verdict (intersect l r) = Ask \<longrightarrow>
     (\<forall>d \<in> {l, r}. dc_verdict d = Ask \<longrightarrow>
        dc_replay_max (intersect l r) \<le> dc_replay_max d \<and>
        dc_approval_ttl (intersect l r) \<le> dc_approval_ttl d))"
proof -
  have "dc_verdict (intersect l r) = Ask \<Longrightarrow> d \<in> {l, r} \<Longrightarrow> dc_verdict d = Ask \<Longrightarrow>
    dc_replay_max (intersect l r) \<le> dc_replay_max d \<and> dc_approval_ttl (intersect l r) \<le> dc_approval_ttl d" for d
    by (cases "dc_verdict l"; cases "dc_verdict r") (auto simp: intersect_def)
  then show ?thesis using dec.rank_meet [of l r] by blast
qed

theorem intersect_never_widens_witness:
  "(let l = (default_decision DefaultMode)\<lparr>dc_replay_max := 3\<rparr>; r = (default_decision DefaultMode)\<lparr>dc_approval_ttl := 60\<rparr> in
    dc_verdict (intersect l r) = Ask \<and> dc_replay_max (intersect l r) \<le> 3 \<and> dc_approval_ttl (intersect l r) \<le> 60)"
  using intersect_never_widens [of "(default_decision DefaultMode)\<lparr>dc_replay_max := 3\<rparr>" "(default_decision DefaultMode)\<lparr>dc_approval_ttl := 60\<rparr>"]
  by (simp add: default_decision_def intersect_def)

fun baseline_verdict :: "mode \<Rightarrow> capability \<Rightarrow> verdict" where
  "baseline_verdict Strict c = Deny"
| "baseline_verdict Sandboxed c = (if c = read_file then Allow else Deny)"
| "baseline_verdict Permissive c = (if c = runtime_loader \<or> c = delete_path then Deny else Allow)"
| "baseline_verdict DefaultMode c =
     (if c = runtime_loader \<or> c = delete_path then Deny else if c = read_file then Allow else Ask)"

text \<open>
  What every mode's baseline grants. For a tool of any name and input that needs the
  capabilities of a list, the verdict is the strictest entry of the mode's table: strict denies
  everything, sandboxed grants exactly reading, permissive withholds loading code and deleting,
  and the default mode asks for everything else but reads.
\<close>

theorem baseline_policy:
  "dc_verdict (evaluate re (default_rules md) tool input (c # cs) md) =
    (let vs = baseline_verdict md ` set (c # cs) in
     if Deny \<in> vs then Deny else if Ask \<in> vs then Ask else Allow)"
proof -
  have "requirement_verdict re (default_rules md) tool input (Some c) md = baseline_verdict md c" for c
    by (cases md; cases c)
      (simp_all add: requirement_verdict_def default_baseline_def permissive_baseline_def sandboxed_baseline_def)
  then show ?thesis by (simp add: evaluate_verdict_strictest strictest_def)
qed

end
