(* ===== verification/Perm_Approval.thy ===== *)
theory Perm_Approval
  imports Perm_Rules
begin

text \<open>
  \<^verbatim>\<open>oran-permission/approval.cpp\<close>, \<^verbatim>\<open>approval_broker.cpp\<close>, \<^verbatim>\<open>approval_secret.cpp\<close> and \<^verbatim>\<open>audit.cpp\<close>:
  signed approval tokens, the broker that bounds their replay, and the audit values made of
  decisions. libsodium's SHA-256 and HMAC-SHA-256 are the parameter \<open>crypto\<close>; random nonces are
  arguments. Times are nanosecond counts as in the time component, byte arrays are strings.
\<close>

section \<open>Data\<close>

record crypto =
  sha256 :: "string \<Rightarrow> string"
  hmac_sha256 :: "string \<Rightarrow> string \<Rightarrow> string"

record approval_request =
  rq_tool_name :: string
  rq_input :: string
  rq_identity :: string
  rq_ttl :: int

record approval_token =
  tk_tool_name :: string
  tk_identity :: string
  tk_input_hash :: string
  tk_nonce :: string
  tk_expires_at :: int
  tk_mac :: string

record approval_grant =
  gr_tool_name :: string
  gr_input :: string
  gr_identity :: string
  gr_ttl :: int
  gr_replay_max :: "32 word"

record grant_key =
  gk_tool_name :: string
  gk_identity :: string
  gk_input_hash :: string

record grant_entry =
  ge_expires_at :: int
  ge_remaining_uses :: "32 word"
  ge_sequence :: "64 word"

text \<open>
  The broker's \<^verbatim>\<open>std::unordered_map\<close> is an association list in iteration order; the broker's
  invariant says that its keys are distinct.
\<close>

type_synonym grants = "(grant_key \<times> grant_entry) list"

record broker =
  br_secret :: string
  br_grants :: grants
  br_next_sequence :: "64 word"

section \<open>Secrets\<close>

definition key_bytes :: nat where "key_bytes = 32"

definition secret_from_bytes :: "string \<Rightarrow> string result" where
  "secret_from_bytes bytes =
     (if length bytes \<noteq> key_bytes then
        Inl (with_ctx ''actual'' (show_nat (length bytes)) (with_ctx ''expected'' (show_nat key_bytes)
          (err_invalid_argument ''ApprovalSecret key must be exactly 32 bytes'')))
      else Inr bytes)"

definition macs_equal :: "string \<Rightarrow> string \<Rightarrow> bool" where
  "macs_equal a b = (if length a \<noteq> length b then False else if a = [] then True else a = b)"

section \<open>Tokens\<close>

definition domain_separator :: string where
  "domain_separator = ''oran-approval-v1''"

definition format_version :: char where
  "format_version = byte_to_char 1"

definition append_le_u32 :: "string \<Rightarrow> nat \<Rightarrow> string" where
  "append_le_u32 out value = out @ le_bytes 4 value"

definition append_le_i64 :: "string \<Rightarrow> int \<Rightarrow> string" where
  "append_le_i64 out value = out @ le_bytes 8 (nat (value mod 2 ^ 64))"

text \<open>\<^verbatim>\<open>duration_cast\<close> truncates towards zero.\<close>

definition to_unix_millis :: "int \<Rightarrow> int" where
  "to_unix_millis t = (if 0 \<le> t then t div 1000000 else - ((- t) div 1000000))"

definition token_denied :: "string \<Rightarrow> core_error" where
  "token_denied reason = with_ctx ''reason'' reason (err_permission_denied ''approval token rejected'')"

definition append_string_view :: "string \<Rightarrow> string \<Rightarrow> string" where
  "append_string_view out sv = append_le_u32 out (length sv mod 2 ^ 32) @ sv"

definition canonical_bytes :: "string \<Rightarrow> string \<Rightarrow> string \<Rightarrow> string \<Rightarrow> int \<Rightarrow> string" where
  "canonical_bytes tool_name identity input_hash nonce expires_at =
     append_le_i64
       (append_string_view (append_string_view (domain_separator @ [format_version]) tool_name) identity
         @ input_hash @ nonce)
       (to_unix_millis expires_at)"

definition input_hash :: "crypto \<Rightarrow> string \<Rightarrow> string" where
  "input_hash cr input = sha256 cr input"

definition issue :: "crypto \<Rightarrow> string \<Rightarrow> string \<Rightarrow> approval_request \<Rightarrow> int \<Rightarrow> approval_token" where
  "issue cr secret nonce req now =
     (let h = input_hash cr (rq_input req);
          expires = i64_wrap (now + rq_ttl req * 1000000000);
          buf = canonical_bytes (rq_tool_name req) (rq_identity req) h nonce expires
      in \<lparr>tk_tool_name = rq_tool_name req, tk_identity = rq_identity req, tk_input_hash = h,
          tk_nonce = nonce, tk_expires_at = expires, tk_mac = hmac_sha256 cr secret buf\<rparr>)"

definition verify :: "crypto \<Rightarrow> string \<Rightarrow> approval_token \<Rightarrow> string \<Rightarrow> string \<Rightarrow> string \<Rightarrow> int \<Rightarrow> unit result" where
  "verify cr secret token tool_name input identity now =
     (if tk_expires_at token \<le> now then Inl (token_denied ''expired'')
      else if tk_tool_name token \<noteq> tool_name then Inl (token_denied ''tool_mismatch'')
      else if tk_identity token \<noteq> identity then Inl (token_denied ''identity_mismatch'')
      else if \<not> macs_equal (input_hash cr input) (tk_input_hash token) then
        Inl (token_denied ''input_mismatch'')
      else if \<not> macs_equal
          (hmac_sha256 cr secret (canonical_bytes (tk_tool_name token) (tk_identity token)
             (tk_input_hash token) (tk_nonce token) (tk_expires_at token)))
          (tk_mac token) then Inl (token_denied ''mac_mismatch'')
      else Inr ())"

section \<open>The broker\<close>

definition max_grants_per_identity :: nat where "max_grants_per_identity = 64"

definition broker_denied :: "string \<Rightarrow> core_error" where
  "broker_denied reason = with_ctx ''reason'' reason (err_permission_denied ''approval broker rejected check'')"

definition make_broker :: "string \<Rightarrow> broker" where
  "make_broker secret = \<lparr>br_secret = secret, br_grants = [], br_next_sequence = 0\<rparr>"

definition reap_expired :: "int \<Rightarrow> broker \<Rightarrow> broker \<times> nat" where
  "reap_expired now b =
     (let g = filter (\<lambda>kv. \<not> ge_expires_at (snd kv) \<le> now) (br_grants b)
      in (b\<lparr>br_grants := g\<rparr>, length (br_grants b) - length g))"

text \<open>The scan of \<^verbatim>\<open>enforce_identity_ceiling\<close>: how many other grants the identity holds, and the oldest.\<close>

fun ceiling_scan ::
  "string \<Rightarrow> grant_key \<Rightarrow> grants \<Rightarrow> nat \<Rightarrow> (grant_key \<times> grant_entry) option \<Rightarrow>
   nat \<times> (grant_key \<times> grant_entry) option" where
  "ceiling_scan identity new_key [] live oldest = (live, oldest)"
| "ceiling_scan identity new_key (kv # rest) live oldest =
     (if gk_identity (fst kv) \<noteq> identity \<or> fst kv = new_key then ceiling_scan identity new_key rest live oldest
      else ceiling_scan identity new_key rest (Suc live)
        (case oldest of
           None \<Rightarrow> Some kv
         | Some o' \<Rightarrow> if ge_sequence (snd kv) < ge_sequence (snd o') then Some kv else Some o'))"

definition enforce_identity_ceiling :: "string \<Rightarrow> grant_key \<Rightarrow> grants \<Rightarrow> grants" where
  "enforce_identity_ceiling identity new_key g =
     (case ceiling_scan identity new_key g 0 None of
        (live, Some o') \<Rightarrow>
          if max_grants_per_identity \<le> live then filter (\<lambda>kv. fst kv \<noteq> fst o') g else g
      | (live, None) \<Rightarrow> g)"

text \<open>\<^verbatim>\<open>operator[]\<close> with assignment: overwrite in place or add.\<close>

fun put_grant :: "grant_key \<Rightarrow> grant_entry \<Rightarrow> grants \<Rightarrow> grants" where
  "put_grant k e [] = [(k, e)]"
| "put_grant k e (kv # rest) = (if fst kv = k then (k, e) # rest else kv # put_grant k e rest)"

definition token_key :: "approval_token \<Rightarrow> grant_key" where
  "token_key token = \<lparr>gk_tool_name = tk_tool_name token, gk_identity = tk_identity token,
     gk_input_hash = tk_input_hash token\<rparr>"

definition approve :: "crypto \<Rightarrow> string \<Rightarrow> approval_grant \<Rightarrow> int \<Rightarrow> broker \<Rightarrow> approval_token \<times> broker" where
  "approve cr nonce grant now b =
     (let token = issue cr (br_secret b) nonce
            \<lparr>rq_tool_name = gr_tool_name grant, rq_input = gr_input grant,
             rq_identity = gr_identity grant, rq_ttl = gr_ttl grant\<rparr> now;
          key = token_key token;
          g1 = br_grants (fst (reap_expired now b));
          g2 = enforce_identity_ceiling (tk_identity token) key g1;
          g3 = put_grant key \<lparr>ge_expires_at = tk_expires_at token,
                 ge_remaining_uses = gr_replay_max grant, ge_sequence = br_next_sequence b\<rparr> g2
      in (token, b\<lparr>br_grants := g3, br_next_sequence := br_next_sequence b + 1\<rparr>))"

definition probe_key :: "crypto \<Rightarrow> string \<Rightarrow> string \<Rightarrow> string \<Rightarrow> grant_key" where
  "probe_key cr tool_name input identity =
     \<lparr>gk_tool_name = tool_name, gk_identity = identity, gk_input_hash = input_hash cr input\<rparr>"

definition check ::
  "crypto \<Rightarrow> approval_token \<Rightarrow> string \<Rightarrow> string \<Rightarrow> string \<Rightarrow> int \<Rightarrow> broker \<Rightarrow> unit result \<times> broker" where
  "check cr token tool_name input identity now b =
     (case verify cr (br_secret b) token tool_name input identity now of
        Inl e \<Rightarrow> (Inl e, b)
      | Inr _ \<Rightarrow>
          (let probe = probe_key cr tool_name input identity in
           case map_of (br_grants b) probe of
             None \<Rightarrow> (Inl (broker_denied ''no_grant''), b)
           | Some e \<Rightarrow>
               if ge_remaining_uses e = 0 then (Inl (broker_denied ''replay_exhausted''), b)
               else (Inr (), b\<lparr>br_grants :=
                 put_grant probe (e\<lparr>ge_remaining_uses := ge_remaining_uses e - 1\<rparr>) (br_grants b)\<rparr>)))"

definition outstanding_grants :: "broker \<Rightarrow> nat" where
  "outstanding_grants b = length (br_grants b)"

section \<open>Audit values\<close>

datatype audit_outcome =
  Oc_allow | Oc_deny | Oc_ask | Oc_approved | Oc_rejected | Oc_blocked_by_hook | Oc_rewritten

record audit_event =
  ae_event_kind :: string
  ae_scope_key :: string
  ae_agent_key :: string
  ae_tool_name :: string
  ae_identity :: string
  ae_verdict :: verdict
  ae_outcome :: audit_outcome
  ae_reason :: string
  ae_input_hash :: "string option"
  ae_parent_turn_id :: "8 word list option"
  ae_metadata_json :: string

fun verdict_to_outcome :: "verdict \<Rightarrow> audit_outcome" where
  "verdict_to_outcome Allow = Oc_allow"
| "verdict_to_outcome Deny = Oc_deny"
| "verdict_to_outcome Ask = Oc_ask"

definition make_audit_event_from_decision :: "decision \<Rightarrow> audit_event" where
  "make_audit_event_from_decision d =
     \<lparr>ae_event_kind = ''permission_decision'', ae_scope_key = [], ae_agent_key = [],
      ae_tool_name = [], ae_identity = [], ae_verdict = dc_verdict d,
      ae_outcome = verdict_to_outcome (dc_verdict d), ae_reason = dc_reason d,
      ae_input_hash = None, ae_parent_turn_id = None, ae_metadata_json = ''{}''\<rparr>"

definition nibble_to_hex :: "nat \<Rightarrow> char" where
  "nibble_to_hex n = byte_to_char (if n < 10 then 48 + n else 97 + (n - 10))"

definition to_hex :: "string \<Rightarrow> string" where
  "to_hex bytes = concat (map (\<lambda>c. [nibble_to_hex (byte_of c div 16), nibble_to_hex (byte_of c mod 16)]) bytes)"

section \<open>Canonical bytes\<close>

lemma macs_equal_iff [simp]: "macs_equal a b \<longleftrightarrow> a = b"
  by (auto simp: macs_equal_def)

lemma length_prefix_inject:
  assumes "length s < 2 ^ 32" "length s' < 2 ^ 32"
    and "le_bytes 4 (length s mod 2 ^ 32) @ s @ r = le_bytes 4 (length s' mod 2 ^ 32) @ s' @ r'"
  shows "s = s' \<and> r = r'"
proof -
  have "le_bytes 4 (length s) = le_bytes 4 (length s')" and "s @ r = s' @ r'"
    using assms by simp_all
  then have "length s = length s'" using assms(1,2) by (simp add: le_bytes_inject)
  with \<open>s @ r = s' @ r'\<close> show ?thesis by simp
qed

lemma to_unix_millis_range: "in_i64 t \<Longrightarrow> - (2 ^ 62) < to_unix_millis t \<and> to_unix_millis t < 2 ^ 62"
  by (auto simp: to_unix_millis_def in_i64_def i64_min_def i64_max_def)

lemma mod_2_64_inject:
  assumes "- (2 ^ 62) < a" "a < 2 ^ 62" "- (2 ^ 62) < b" "b < 2 ^ 62" "a mod 2 ^ 64 = b mod (2 ^ 64 :: int)"
  shows "a = b"
proof -
  have "in_i64 a" "in_i64 b"
    using assms(1-4) by (simp_all add: in_i64_def i64_min_def i64_max_def)
  then have "i64_wrap a = a" "i64_wrap b = b" by simp_all
  moreover have "(a + 2 ^ 63) mod 2 ^ 64 = (a mod 2 ^ 64 + 2 ^ 63) mod 2 ^ 64"
    by (rule mod_add_left_eq [symmetric])
  moreover have "(b mod 2 ^ 64 + 2 ^ 63) mod 2 ^ 64 = (b + 2 ^ 63) mod 2 ^ 64"
    by (rule mod_add_left_eq)
  ultimately show ?thesis unfolding i64_wrap_def assms(5) by linarith
qed

lemma canonical_bytes_flat:
  "canonical_bytes tool ident h nonce t =
     domain_separator @ [format_version] @ le_bytes 4 (length tool mod 2 ^ 32) @ tool @
     le_bytes 4 (length ident mod 2 ^ 32) @ ident @ h @ nonce @
     le_bytes 8 (nat (to_unix_millis t mod 2 ^ 64))"
  by (simp add: canonical_bytes_def append_string_view_def append_le_u32_def append_le_i64_def)

lemma canonical_bytes_inject:
  assumes eq: "canonical_bytes tool ident h nonce t = canonical_bytes tool' ident' h' nonce' t'"
    and len: "length tool < 2 ^ 32" "length tool' < 2 ^ 32" "length ident < 2 ^ 32" "length ident' < 2 ^ 32"
    and hn: "length h = length h'" "length nonce = length nonce'" and t: "in_i64 t" "in_i64 t'"
  shows "tool = tool' \<and> ident = ident' \<and> h = h' \<and> nonce = nonce' \<and> to_unix_millis t = to_unix_millis t'"
proof -
  from eq have "le_bytes 4 (length tool mod 2 ^ 32) @ tool @ (le_bytes 4 (length ident mod 2 ^ 32) @ ident @ h @ nonce @
      le_bytes 8 (nat (to_unix_millis t mod 2 ^ 64))) =
    le_bytes 4 (length tool' mod 2 ^ 32) @ tool' @ (le_bytes 4 (length ident' mod 2 ^ 32) @ ident' @ h' @ nonce' @
      le_bytes 8 (nat (to_unix_millis t' mod 2 ^ 64)))"
    unfolding canonical_bytes_flat by simp
  note r1 = length_prefix_inject [OF len(1,2) this]
  then have "tool = tool'" by blast
  moreover note r2 = length_prefix_inject [OF len(3,4) conjunct2 [OF r1]]
  then have "ident = ident'" by blast
  moreover have r3: "h = h'" "nonce = nonce'"
    "le_bytes 8 (nat (to_unix_millis t mod 2 ^ 64)) = le_bytes 8 (nat (to_unix_millis t' mod 2 ^ 64))"
    using r2 hn by simp_all
  moreover have "nat (to_unix_millis t mod 2 ^ 64) mod 2 ^ 64 = nat (to_unix_millis t' mod 2 ^ 64) mod 2 ^ 64"
    using r3(3) by (simp add: le_bytes_inject)
  moreover have "nat (x mod 2 ^ 64) mod 2 ^ 64 = nat (x mod 2 ^ 64)" for x :: int
    by (simp add: nat_mod_distrib)
  ultimately have "to_unix_millis t mod 2 ^ 64 = to_unix_millis t' mod 2 ^ 64"
    by (metis eq_nat_nat_iff pos_mod_sign zero_less_numeral zero_less_power)
  then have "to_unix_millis t = to_unix_millis t'"
    using mod_2_64_inject to_unix_millis_range [OF t(1)] to_unix_millis_range [OF t(2)] by blast
  with \<open>tool = tool'\<close> \<open>ident = ident'\<close> r3 show ?thesis by blast
qed

section \<open>Grant lists\<close>

lemma keys_put_grant:
  "map fst (put_grant k e g) = (if k \<in> fst ` set g then map fst g else map fst g @ [k])"
  by (induction g) auto

lemma map_of_put_grant: "map_of (put_grant k e g) = (map_of g)(k \<mapsto> e)"
  by (induction g) (auto simp: fun_eq_iff)

lemma distinct_put_grant: "distinct (map fst g) \<Longrightarrow> distinct (map fst (put_grant k e g))"
  by (simp add: keys_put_grant)

definition held :: "string \<Rightarrow> grants \<Rightarrow> nat" where
  "held ident g = length (filter (\<lambda>k. gk_identity k = ident) (map fst g))"

definition others :: "string \<Rightarrow> grant_key \<Rightarrow> grants \<Rightarrow> (grant_key \<times> grant_entry) list" where
  "others ident k g = filter (\<lambda>kv. gk_identity (fst kv) = ident \<and> fst kv \<noteq> k) g"

lemma held_filter_le: "held ident (filter P g) \<le> held ident g"
  by (induction g) (auto simp: held_def)

lemma others_put_grant: "length (others ident k (put_grant k e g)) = length (others ident k g)"
proof (induction g)
  case Nil
  show ?case by (simp add: others_def)
next
  case (Cons kv g)
  show ?case
  proof (cases "fst kv = k")
    case True
    then show ?thesis by (simp add: others_def)
  next
    case False
    with Cons show ?thesis by (simp add: others_def)
  qed
qed

lemma held_le_others:
  "distinct (map fst g) \<Longrightarrow> held ident g \<le> Suc (length (others ident k g))"
proof (induction g)
  case Nil
  show ?case by (simp add: held_def)
next
  case (Cons kv g)
  have "fst kv = k \<Longrightarrow> others ident k g = filter (\<lambda>kv. gk_identity (fst kv) = ident) g"
    unfolding others_def using Cons.prems by (intro filter_cong) (auto simp: image_iff)
  moreover have "length (filter (\<lambda>kv. gk_identity (fst kv) = ident) g) = held ident g"
    by (induction g) (auto simp: held_def)
  ultimately show ?case using Cons by (auto simp: held_def others_def)
qed

lemma held_put_other:
  "gk_identity k \<noteq> ident \<Longrightarrow> held ident (put_grant k e g) = held ident g"
  by (simp add: held_def keys_put_grant)

lemma ceiling_scan_spec:
  assumes "ceiling_scan ident k g live old = (n, res)"
  shows "n = live + length (others ident k g) \<and>
    (case res of
       None \<Rightarrow> old = None \<and> others ident k g = []
     | Some kv \<Rightarrow> (kv \<in> set (others ident k g) \<or> old = Some kv) \<and>
         (\<forall>kv' \<in> set (others ident k g) \<union> set_option old. ge_sequence (snd kv) \<le> ge_sequence (snd kv')))"
  using assms
proof (induction g arbitrary: live old)
  case Nil
  then show ?case by (auto simp: others_def split: option.splits)
next
  case (Cons kv g)
  show ?case
  proof (cases "gk_identity (fst kv) \<noteq> ident \<or> fst kv = k")
    case True
    with Cons.prems have "ceiling_scan ident k g live old = (n, res)" by simp
    note IH = Cons.IH [OF this]
    have oth: "others ident k (kv # g) = others ident k g" using True by (auto simp: others_def)
    show ?thesis unfolding oth by (rule IH)
  next
    case False
    define old' where "old' = (case old of None \<Rightarrow> Some kv
      | Some o' \<Rightarrow> if ge_sequence (snd kv) < ge_sequence (snd o') then Some kv else Some o')"
    have oth: "others ident k (kv # g) = kv # others ident k g" using False by (simp add: others_def)
    have "ceiling_scan ident k g (Suc live) old' = (n, res)"
      using Cons.prems False by (simp add: old'_def)
    note IH = Cons.IH [OF this]
    have old': "(old = None \<and> old' = Some kv) \<or>
      (\<exists>o'. old = Some o' \<and> (old' = Some kv \<or> old' = Some o') \<and>
        (\<forall>x. old' = Some x \<longrightarrow> ge_sequence (snd x) \<le> ge_sequence (snd kv) \<and> ge_sequence (snd x) \<le> ge_sequence (snd o')))"
      unfolding old'_def by (cases old) auto
    show ?thesis
    proof (cases res)
      case None
      then show ?thesis using IH old' by auto
    next
      case (Some r)
      with IH have r: "r \<in> set (others ident k g) \<or> old' = Some r" and n: "n = Suc live + length (others ident k g)"
        and mins: "\<forall>kv' \<in> set (others ident k g) \<union> set_option old'. ge_sequence (snd r) \<le> ge_sequence (snd kv')"
        by simp_all
      have "ge_sequence (snd r) \<le> ge_sequence (snd kv)"
        "\<forall>o' \<in> set_option old. ge_sequence (snd r) \<le> ge_sequence (snd o')"
        using old' mins by (fastforce dest: order_trans)+
      moreover have "r = kv \<or> r \<in> set (others ident k g) \<or> old = Some r" using r old' by auto
      ultimately show ?thesis using Some n mins oth by auto
    qed
  qed
qed

lemma filter_key_length:
  "distinct (map fst xs) \<Longrightarrow> kv \<in> set xs \<Longrightarrow> length (filter (\<lambda>x. fst x \<noteq> fst kv) xs) = length xs - 1"
proof (induction xs)
  case Nil
  then show ?case by simp
next
  case (Cons x xs)
  show ?case
  proof (cases "fst x = fst kv")
    case True
    with Cons.prems have "fst kv \<notin> fst ` set xs" by simp
    then have "\<forall>y \<in> set xs. fst y \<noteq> fst kv" by (metis imageI)
    then have "filter (\<lambda>x. fst x \<noteq> fst kv) xs = xs" by simp
    with True show ?thesis by simp
  next
    case False
    with Cons.prems have "kv \<in> set xs" by auto
    then have "length xs \<noteq> 0" by auto
    with False Cons \<open>kv \<in> set xs\<close> show ?thesis by simp
  qed
qed

text \<open>After the ceiling is enforced the identity holds fewer than the maximum besides the new key.\<close>

lemma enforce_ceiling_others:
  assumes "distinct (map fst g)" "length (others ident k g) \<le> max_grants_per_identity"
  shows "length (others ident k (enforce_identity_ceiling ident k g)) < max_grants_per_identity"
proof -
  obtain n res where scan: "ceiling_scan ident k g 0 None = (n, res)" by fastforce
  note spec = ceiling_scan_spec [OF scan]
  show ?thesis
  proof (cases res)
    case None
    with spec scan show ?thesis by (simp add: enforce_identity_ceiling_def max_grants_per_identity_def)
  next
    case (Some o')
    with spec have o': "o' \<in> set (others ident k g)" and n: "n = length (others ident k g)" by simp_all
    show ?thesis
    proof (cases "max_grants_per_identity \<le> n")
      case False
      with Some scan n show ?thesis by (simp add: enforce_identity_ceiling_def)
    next
      case True
      have "distinct (map fst (others ident k g))"
        unfolding others_def using assms(1) by (rule distinct_map_filter)
      from filter_key_length [OF this o'] True n assms(2)
      have "length (filter (\<lambda>x. fst x \<noteq> fst o') (others ident k g)) < max_grants_per_identity"
        by (simp add: max_grants_per_identity_def)
      moreover have "others ident k (filter (\<lambda>x. fst x \<noteq> fst o') g) = filter (\<lambda>x. fst x \<noteq> fst o') (others ident k g)"
        by (simp add: others_def conj_commute)
      ultimately show ?thesis using True Some scan by (simp add: enforce_identity_ceiling_def)
    qed
  qed
qed

section \<open>The broker as a machine\<close>

datatype broker_op =
    OpApprove string approval_grant int
  | OpCheck approval_token string string string int
  | OpReap int

fun broker_step :: "crypto \<Rightarrow> broker_op \<Rightarrow> broker \<Rightarrow> broker" where
  "broker_step cr (OpApprove nonce grant now) b = snd (approve cr nonce grant now b)"
| "broker_step cr (OpCheck token tool input ident now) b = snd (check cr token tool input ident now b)"
| "broker_step cr (OpReap now) b = fst (reap_expired now b)"

definition broker_inv :: "broker \<Rightarrow> bool" where
  "broker_inv b \<longleftrightarrow> distinct (map fst (br_grants b)) \<and>
     (\<forall>ident. held ident (br_grants b) \<le> max_grants_per_identity)"

lemma others_le_held: "length (others ident k g) \<le> held ident g"
  by (induction g) (auto simp: others_def held_def)

lemma enforce_is_filter: "\<exists>P. enforce_identity_ceiling ident k g = filter P g"
proof -
  obtain n res where "ceiling_scan ident k g 0 None = (n, res)" by fastforce
  then show ?thesis
    by (cases res) (auto simp: enforce_identity_ceiling_def intro: exI [of _ "\<lambda>_. True"])
qed

lemma grants_put_inv:
  assumes "distinct (map fst g)" "\<forall>ident. held ident g \<le> max_grants_per_identity"
    and "length (others (gk_identity k) k g) < max_grants_per_identity"
  shows "distinct (map fst (put_grant k e g))" "held ident (put_grant k e g) \<le> max_grants_per_identity"
proof -
  show d: "distinct (map fst (put_grant k e g))" using assms(1) by (rule distinct_put_grant)
  show "held ident (put_grant k e g) \<le> max_grants_per_identity"
  proof (cases "gk_identity k = ident")
    case True
    then show ?thesis
      using held_le_others [OF d, of ident k] others_put_grant [of ident k e g] assms(3) by simp
  next
    case False
    then show ?thesis using assms(2) by (simp add: held_put_other)
  qed
qed

lemma approve_inv:
  assumes "broker_inv b" shows "broker_inv (snd (approve cr nonce grant now b))"
proof -
  define token where "token = issue cr (br_secret b) nonce
    \<lparr>rq_tool_name = gr_tool_name grant, rq_input = gr_input grant,
     rq_identity = gr_identity grant, rq_ttl = gr_ttl grant\<rparr> now"
  define g1 where "g1 = br_grants (fst (reap_expired now b))"
  define g2 where "g2 = enforce_identity_ceiling (tk_identity token) (token_key token) g1"
  have g1: "distinct (map fst g1)" "\<forall>ident. held ident g1 \<le> max_grants_per_identity"
    using assms held_filter_le le_trans
    by (auto simp: g1_def reap_expired_def Let_def broker_inv_def distinct_map_filter)
      (meson held_filter_le le_trans)+
  obtain P where P: "g2 = filter P g1" unfolding g2_def using enforce_is_filter by blast
  have g2: "distinct (map fst g2)" "\<forall>ident. held ident g2 \<le> max_grants_per_identity"
    using g1 unfolding P by (auto simp: distinct_map_filter intro: le_trans [OF held_filter_le])
  have id: "gk_identity (token_key token) = tk_identity token" by (simp add: token_key_def)
  have "length (others (tk_identity token) (token_key token) g2) < max_grants_per_identity"
    unfolding g2_def using g1 others_le_held le_trans by (blast intro: enforce_ceiling_others)
  from grants_put_inv [OF g2 this [folded id]] show ?thesis
    by (simp add: broker_inv_def approve_def Let_def token_def [symmetric] g1_def [symmetric] g2_def [symmetric])
qed

lemma check_grants_keys: "map fst (br_grants (snd (check cr token tool input ident now b))) = map fst (br_grants b)"
  by (auto simp: check_def Let_def keys_put_grant dest: map_of_SomeD split: sum.splits option.splits)
    (metis image_eqI fst_conv map_of_SomeD)

lemma check_inv: "broker_inv b \<Longrightarrow> broker_inv (snd (check cr token tool input ident now b))"
  unfolding broker_inv_def held_def check_grants_keys .

lemma reap_inv: "broker_inv b \<Longrightarrow> broker_inv (fst (reap_expired now b))"
  by (auto simp: broker_inv_def reap_expired_def Let_def distinct_map_filter intro: le_trans [OF held_filter_le])

lemma broker_step_inv: "broker_inv b \<Longrightarrow> broker_inv (broker_step cr op b)"
  by (cases op) (simp_all add: approve_inv check_inv reap_inv)

interpretation brk: invariant_machine "broker_step cr" "\<lambda>_. True" broker_inv
  by unfold_locales (rule broker_step_inv)

lemma broker_inv_make: "broker_inv (make_broker secret)"
  by (simp add: broker_inv_def make_broker_def held_def)

section \<open>Replay\<close>

definition uses_left :: "grant_key \<Rightarrow> broker \<Rightarrow> nat" where
  "uses_left k b = (case map_of (br_grants b) k of None \<Rightarrow> 0 | Some e \<Rightarrow> unat (ge_remaining_uses e))"

text \<open>How many successful checks of key \<open>k\<close> an operation performs.\<close>

fun honoured :: "crypto \<Rightarrow> grant_key \<Rightarrow> broker_op \<Rightarrow> broker \<Rightarrow> nat" where
  "honoured cr k (OpCheck token tool input ident now) b =
     (if probe_key cr tool input ident = k \<and> fst (check cr token tool input ident now b) = Inr () then 1 else 0)"
| "honoured cr k _ b = 0"

definition grant_request_key :: "crypto \<Rightarrow> approval_grant \<Rightarrow> grant_key" where
  "grant_request_key cr grant = probe_key cr (gr_tool_name grant) (gr_input grant) (gr_identity grant)"

fun leaves_key :: "crypto \<Rightarrow> grant_key \<Rightarrow> broker_op \<Rightarrow> bool" where
  "leaves_key cr k (OpApprove nonce grant now) = (grant_request_key cr grant \<noteq> k)"
| "leaves_key cr k _ = True"

lemma map_of_filter_distinct:
  "distinct (map fst g) \<Longrightarrow> map_of (filter P g) k = None \<or> map_of (filter P g) k = map_of g k"
proof (induction g)
  case Nil
  show ?case by simp
next
  case (Cons kv g)
  show ?case
  proof (cases "fst kv = k")
    case True
    with Cons.prems have "map_of g k = None" by (simp add: map_of_eq_None_iff)
    with True Cons show ?thesis by auto
  next
    case False
    with Cons show ?thesis by auto
  qed
qed

lemma token_key_issue:
  "token_key (issue cr secret nonce req now) = probe_key cr (rq_tool_name req) (rq_input req) (rq_identity req)"
  by (simp add: token_key_def issue_def probe_key_def Let_def)

lemma approve_grants:
  assumes "broker_inv b"
  shows "\<exists>g. map_of (br_grants (snd (approve cr nonce grant now b))) = (map_of g)(grant_request_key cr grant \<mapsto>
      \<lparr>ge_expires_at = tk_expires_at (fst (approve cr nonce grant now b)),
       ge_remaining_uses = gr_replay_max grant, ge_sequence = br_next_sequence b\<rparr>) \<and>
    (\<forall>k. map_of g k = None \<or> map_of g k = map_of (br_grants b) k)"
proof -
  let ?tok = "fst (approve cr nonce grant now b)"
  define g1 where "g1 = br_grants (fst (reap_expired now b))"
  obtain P where P: "enforce_identity_ceiling (tk_identity ?tok) (token_key ?tok) g1 = filter P g1"
    using enforce_is_filter by blast
  have g1: "g1 = filter (\<lambda>kv. \<not> ge_expires_at (snd kv) \<le> now) (br_grants b)"
    by (simp add: g1_def reap_expired_def Let_def)
  have "token_key ?tok = grant_request_key cr grant"
    by (simp add: approve_def Let_def token_key_issue grant_request_key_def)
  then have "map_of (br_grants (snd (approve cr nonce grant now b))) = (map_of (filter P g1))(grant_request_key cr grant \<mapsto>
      \<lparr>ge_expires_at = tk_expires_at ?tok, ge_remaining_uses = gr_replay_max grant, ge_sequence = br_next_sequence b\<rparr>)"
    using P by (simp add: approve_def Let_def map_of_put_grant g1_def)
  moreover have "map_of (filter P g1) k = None \<or> map_of (filter P g1) k = map_of (br_grants b) k" for k
    using assms map_of_filter_distinct [of "br_grants b"] unfolding g1 filter_filter broker_inv_def by blast
  ultimately show ?thesis by blast
qed

lemma honoured_budget:
  assumes "broker_inv b" "leaves_key cr k op"
  shows "honoured cr k op b + uses_left k (broker_step cr op b) \<le> uses_left k b"
proof (cases op)
  case (OpApprove nonce grant now)
  obtain g where g: "map_of (br_grants (snd (approve cr nonce grant now b))) k = map_of g k"
    "map_of g k = None \<or> map_of g k = map_of (br_grants b) k"
    using approve_grants [OF assms(1), of cr nonce grant now] assms(2) OpApprove by auto
  with OpApprove show ?thesis by (auto simp: uses_left_def split: option.split)
next
  case (OpCheck token tool input ident now)
  show ?thesis
  proof (cases "fst (check cr token tool input ident now b) = Inr ()")
    case False
    then have "snd (check cr token tool input ident now b) = b"
      by (auto simp: check_def Let_def split: sum.splits option.splits)
    with False OpCheck show ?thesis by simp
  next
    case True
    then obtain e where e: "map_of (br_grants b) (probe_key cr tool input ident) = Some e" "ge_remaining_uses e \<noteq> 0"
      "br_grants (snd (check cr token tool input ident now b)) =
        put_grant (probe_key cr tool input ident) (e\<lparr>ge_remaining_uses := ge_remaining_uses e - 1\<rparr>) (br_grants b)"
      by (auto simp: check_def Let_def split: sum.splits option.splits if_splits)
    then have "Suc (unat (ge_remaining_uses e - 1)) = unat (ge_remaining_uses e)"
      by (metis Suc_pred' unat_gt_0 unat_minus_one)
    with True e OpCheck show ?thesis by (auto simp: uses_left_def map_of_put_grant)
  qed
next
  case (OpReap now)
  then show ?thesis
    using map_of_filter_distinct [of "br_grants b" "\<lambda>kv. \<not> ge_expires_at (snd kv) \<le> now" k] assms(1)
    by (auto simp: uses_left_def reap_expired_def Let_def broker_inv_def split: option.split)
qed

interpretation replay: budget_machine "broker_step cr" "leaves_key cr k" broker_inv "honoured cr k" "uses_left k"
  by unfold_locales (simp_all add: broker_step_inv honoured_budget)

section \<open>Checks, by cases\<close>

lemma verify_ok_iff:
  "verify cr secret token tool input ident now = Inr () \<longleftrightarrow>
     now < tk_expires_at token \<and> tk_tool_name token = tool \<and> tk_identity token = ident \<and>
     tk_input_hash token = input_hash cr input \<and>
     tk_mac token = hmac_sha256 cr secret (canonical_bytes (tk_tool_name token) (tk_identity token)
       (tk_input_hash token) (tk_nonce token) (tk_expires_at token))"
  by (auto simp: verify_def split: if_splits)

lemma verify_issue:
  "now' < tk_expires_at (issue cr secret nonce req now) \<Longrightarrow>
   verify cr secret (issue cr secret nonce req now) (rq_tool_name req) (rq_input req) (rq_identity req) now' = Inr ()"
  by (simp add: verify_ok_iff issue_def Let_def)

lemma check_ok_iff:
  "fst (check cr token tool input ident now b) = Inr () \<longleftrightarrow>
     verify cr (br_secret b) token tool input ident now = Inr () \<and>
     (\<exists>e. map_of (br_grants b) (probe_key cr tool input ident) = Some e \<and> ge_remaining_uses e \<noteq> 0)"
  by (auto simp: check_def Let_def split: sum.splits option.splits if_splits)

lemma check_failed: "fst (check cr token tool input ident now b) \<noteq> Inr () \<Longrightarrow> snd (check cr token tool input ident now b) = b"
  by (auto simp: check_def Let_def split: sum.splits option.splits)

section \<open>Properties\<close>

text \<open>
  The bytes an approval signs determine what was approved. Two encodings agree only if tool,
  identity, input digest and nonce agree, and the expiry agrees to the millisecond (the unit that
  is signed).
\<close>

theorem canonical_bytes_injective:
  assumes "canonical_bytes tool ident h nonce t = canonical_bytes tool' ident' h' nonce' t'"
    and "length tool < 2 ^ 32" "length tool' < 2 ^ 32" "length ident < 2 ^ 32" "length ident' < 2 ^ 32"
    and "length h = 32" "length h' = 32" "length nonce = 16" "length nonce' = 16"
    and "in_i64 t" "in_i64 t'"
  shows "tool = tool' \<and> ident = ident' \<and> h = h' \<and> nonce = nonce' \<and> to_unix_millis t = to_unix_millis t'"
  using assms canonical_bytes_inject [OF assms(1-5)] by simp

theorem canonical_bytes_injective_witness:
  "canonical_bytes ''FileRead'' ''u'' (replicate 32 (CHR ''h'')) (replicate 16 (CHR ''n'')) 1000001
     = canonical_bytes ''FileRead'' ''u'' (replicate 32 (CHR ''h'')) (replicate 16 (CHR ''n'')) 1999999 \<and>
   to_unix_millis 1000001 = to_unix_millis 1999999"
proof -
  have eq: "canonical_bytes ''FileRead'' ''u'' (replicate 32 (CHR ''h'')) (replicate 16 (CHR ''n'')) 1000001
     = canonical_bytes ''FileRead'' ''u'' (replicate 32 (CHR ''h'')) (replicate 16 (CHR ''n'')) 1999999"
    by (simp add: canonical_bytes_def to_unix_millis_def)
  have len: "length ''FileRead'' < 2 ^ 32" "length ''u'' < 2 ^ 32"
    "length (replicate 32 (CHR ''h'')) = 32" "length (replicate 16 (CHR ''n'')) = 16" by simp_all
  have t: "in_i64 1000001" "in_i64 1999999" by (simp_all add: in_i64_def i64_min_def i64_max_def)
  show ?thesis
    using eq canonical_bytes_injective [OF eq len(1) len(1) len(2) len(2) len(3) len(3) len(4) len(4) t] by blast
qed

text \<open>
  Bounded broker state. After any sequence of approvals, checks and reaps from a fresh broker,
  no identity holds more than 64 grants and no triple is stored twice.
\<close>

theorem broker_identity_ceiling:
  "held ident (br_grants (fold (broker_step cr) ops (make_broker secret))) \<le> 64 \<and>
   distinct (map fst (br_grants (fold (broker_step cr) ops (make_broker secret))))"
proof -
  have "broker_inv (fold (broker_step cr) ops (make_broker secret))"
    by (rule brk.run_inv [OF broker_inv_make]) (simp add: list_all_iff)
  then show ?thesis by (simp add: broker_inv_def max_grants_per_identity_def)
qed

text \<open>
  C2: bounded replay. After an approval, however checks, reaps and approvals of other triples are
  interleaved, the broker honours the approved triple at most \<open>replay_max\<close> times before it is
  approved again.
\<close>

theorem approval_replay_bounded:
  assumes "broker_inv b" and "list_all (leaves_key cr (grant_request_key cr grant)) ops"
  shows "run_total (broker_step cr) (honoured cr (grant_request_key cr grant)) ops
      (snd (approve cr nonce grant now b)) \<le> unat (gr_replay_max grant)"
proof -
  let ?b = "snd (approve cr nonce grant now b)"
  have "uses_left (grant_request_key cr grant) ?b = unat (gr_replay_max grant)"
    using approve_grants [OF assms(1), of cr nonce grant now] by (auto simp: uses_left_def)
  with replay.run_spend_le [OF approve_inv [OF assms(1), of cr nonce grant now] assms(2)] show ?thesis by simp
qed

definition demo_crypto :: crypto where
  "demo_crypto = \<lparr>sha256 = (\<lambda>s. s), hmac_sha256 = (\<lambda>k m. k @ m)\<rparr>"

definition demo_grant :: approval_grant where
  "demo_grant = \<lparr>gr_tool_name = ''FileWrite'', gr_input = ''{}'', gr_identity = ''u'', gr_ttl = 60, gr_replay_max = 1\<rparr>"

definition demo_token :: approval_token where
  "demo_token = fst (approve demo_crypto ''n'' demo_grant 0 (make_broker ''k''))"

theorem approval_replay_bounded_witness:
  "run_total (broker_step demo_crypto) (honoured demo_crypto (grant_request_key demo_crypto demo_grant))
     [OpCheck demo_token ''FileWrite'' ''{}'' ''u'' 5, OpCheck demo_token ''FileWrite'' ''{}'' ''u'' 6]
     (snd (approve demo_crypto ''n'' demo_grant 0 (make_broker ''k''))) \<le> 1"
proof -
  have ok: "list_all (leaves_key demo_crypto (grant_request_key demo_crypto demo_grant))
     [OpCheck demo_token ''FileWrite'' ''{}'' ''u'' 5, OpCheck demo_token ''FileWrite'' ''{}'' ''u'' 6]" by simp
  from approval_replay_bounded [OF broker_inv_make ok, of "''n''" 0 "''k''"]
  show ?thesis by (simp add: demo_grant_def)
qed

text \<open>
  An approval works: until the token expires, checking it for the triple it was issued for
  succeeds when the grant allows at least one use, and consumes exactly one use.
\<close>

theorem approve_then_check:
  assumes "broker_inv b" and "gr_replay_max grant \<noteq> 0"
    and "now' < tk_expires_at (fst (approve cr nonce grant now b))"
  shows "fst (check cr (fst (approve cr nonce grant now b)) (gr_tool_name grant) (gr_input grant) (gr_identity grant)
       now' (snd (approve cr nonce grant now b))) = Inr () \<and>
     Suc (uses_left (grant_request_key cr grant)
       (snd (check cr (fst (approve cr nonce grant now b)) (gr_tool_name grant) (gr_input grant) (gr_identity grant)
         now' (snd (approve cr nonce grant now b))))) = unat (gr_replay_max grant)"
proof -
  let ?tok = "fst (approve cr nonce grant now b)" and ?b = "snd (approve cr nonce grant now b)"
  let ?k = "grant_request_key cr grant"
  obtain e where e: "map_of (br_grants ?b) ?k = Some e" "ge_remaining_uses e = gr_replay_max grant"
    using approve_grants [OF assms(1), of cr nonce grant now] by auto
  have sec: "br_secret ?b = br_secret b" by (simp add: approve_def Let_def)
  have "verify cr (br_secret ?b) ?tok (gr_tool_name grant) (gr_input grant) (gr_identity grant) now' = Inr ()"
    using verify_issue [of now' cr "br_secret b" nonce
        "\<lparr>rq_tool_name = gr_tool_name grant, rq_input = gr_input grant, rq_identity = gr_identity grant, rq_ttl = gr_ttl grant\<rparr>" now]
      assms(3) unfolding sec by (simp add: approve_def Let_def)
  then have chk: "check cr ?tok (gr_tool_name grant) (gr_input grant) (gr_identity grant) now' ?b =
      (Inr (), ?b\<lparr>br_grants := put_grant ?k (e\<lparr>ge_remaining_uses := ge_remaining_uses e - 1\<rparr>) (br_grants ?b)\<rparr>)"
    using e assms(2) by (simp add: check_def Let_def grant_request_key_def)
  have "Suc (unat (gr_replay_max grant - 1)) = unat (gr_replay_max grant)"
    using assms(2) by (metis Suc_pred' unat_gt_0 unat_minus_one)
  then show ?thesis unfolding chk by (simp add: uses_left_def map_of_put_grant e)
qed

theorem approve_then_check_witness:
  "fst (check demo_crypto demo_token ''FileWrite'' ''{}'' ''u'' 5 (snd (approve demo_crypto ''n'' demo_grant 0 (make_broker ''k'')))) = Inr ()"
proof -
  have h: "gr_replay_max demo_grant \<noteq> 0" "5 < tk_expires_at (fst (approve demo_crypto ''n'' demo_grant 0 (make_broker ''k'')))"
    by (simp_all add: demo_grant_def approve_def Let_def issue_def in_i64_def i64_min_def i64_max_def)
  from approve_then_check [OF broker_inv_make h] show ?thesis
    by (simp add: demo_token_def demo_grant_def)
qed

text \<open>
  Nothing else works: a check succeeds only for an unexpired token that names the very tool,
  identity and input digest, carries the MAC of its own canonical bytes under the broker's secret,
  and has a stored grant with uses left; a failing check changes nothing.
\<close>

theorem check_sound:
  "(fst (check cr token tool input ident now b) = Inr () \<longrightarrow>
     now < tk_expires_at token \<and> token_key token = probe_key cr tool input ident \<and>
     tk_mac token = hmac_sha256 cr (br_secret b) (canonical_bytes (tk_tool_name token) (tk_identity token)
       (tk_input_hash token) (tk_nonce token) (tk_expires_at token)) \<and>
     0 < uses_left (probe_key cr tool input ident) b) \<and>
   (fst (check cr token tool input ident now b) \<noteq> Inr () \<longrightarrow> snd (check cr token tool input ident now b) = b)"
  using check_failed
  by (auto simp: check_ok_iff verify_ok_iff uses_left_def token_key_def probe_key_def unat_gt_0)

theorem check_sound_witness:
  "0 < uses_left (probe_key demo_crypto ''FileWrite'' ''{}'' ''u'') (snd (approve demo_crypto ''n'' demo_grant 0 (make_broker ''k'')))"
proof -
  have "fst (check demo_crypto demo_token ''FileWrite'' ''{}'' ''u'' 5 (snd (approve demo_crypto ''n'' demo_grant 0 (make_broker ''k'')))) = Inr ()"
    by (simp add: check_def verify_def demo_token_def demo_grant_def demo_crypto_def approve_def Let_def issue_def
        make_broker_def reap_expired_def enforce_identity_ceiling_def token_key_def probe_key_def input_hash_def
        in_i64_def i64_min_def i64_max_def)
  with check_sound show ?thesis by blast
qed

end
