(* ===== verification/Tool_PathLocks.thy ===== *)
theory Tool_PathLocks
  imports Core_Error
begin

text \<open>
  \<^verbatim>\<open>oran-tool/path-locks.cpp\<close> and \<^verbatim>\<open>_impl/path-lock-table.hpp\<close>: the strand-confined FIFO
  readers-writer locks that serialise tool calls on one path. Each coroutine that calls
  \<^verbatim>\<open>acquire\<close> is named by the wake channel it would wait on. The coroutine is split at its one
  suspension point: \<open>acquire_begin\<close> runs up to \<^verbatim>\<open>co_await wake->receive()\<close>, \<open>acquire_finish\<close> is the
  part after it, and guards are released by \<open>release_lock\<close>. \<open>advance\<close> reports the channels it
  sends a permit to.
\<close>

section \<open>Data\<close>

datatype lock_mode = Shared | Exclusive

type_synonym wake = nat

record lock_entry =
  le_readers :: nat
  le_writer :: bool
  le_waiters :: "(wake \<times> lock_mode) list"

type_synonym lock_table = "string \<Rightarrow> lock_entry option"

definition empty_entry :: lock_entry where
  "empty_entry = \<lparr>le_readers = 0, le_writer = False, le_waiters = []\<rparr>"

section \<open>Operations of the table\<close>

fun take_lock :: "lock_mode \<Rightarrow> lock_entry \<Rightarrow> lock_entry" where
  "take_lock Shared e = e\<lparr>le_readers := Suc (le_readers e)\<rparr>"
| "take_lock Exclusive e = e\<lparr>le_writer := True\<rparr>"

definition can_wake :: "lock_mode \<Rightarrow> lock_entry \<Rightarrow> bool" where
  "can_wake md e = (if md = Exclusive then le_readers e = 0 \<and> \<not> le_writer e else \<not> le_writer e)"

text \<open>The loop of \<^verbatim>\<open>advance\<close> over the waiters: the new entry and the channels woken, in order.\<close>

fun advance_loop :: "(wake \<times> lock_mode) list \<Rightarrow> lock_entry \<Rightarrow> lock_entry \<times> wake list" where
  "advance_loop [] e = (e\<lparr>le_waiters := []\<rparr>, [])"
| "advance_loop ((w, md) # ws) e =
     (if \<not> can_wake md e then (e\<lparr>le_waiters := (w, md) # ws\<rparr>, [])
      else if md = Exclusive then ((take_lock md e)\<lparr>le_waiters := ws\<rparr>, [w])
      else (case advance_loop ws (take_lock md e) of (e', woken) \<Rightarrow> (e', w # woken)))"

definition entry_idle :: "lock_entry \<Rightarrow> bool" where
  "entry_idle e \<longleftrightarrow> le_readers e = 0 \<and> \<not> le_writer e \<and> le_waiters e = []"

definition advance :: "string \<Rightarrow> lock_entry \<Rightarrow> lock_table \<Rightarrow> lock_table \<times> wake list" where
  "advance path e t =
     (case advance_loop (le_waiters e) e of
        (e', woken) \<Rightarrow> (t(path := if entry_idle e' then None else Some e'), woken))"

definition release_lock :: "string \<Rightarrow> lock_mode \<Rightarrow> lock_table \<Rightarrow> lock_table \<times> wake list" where
  "release_lock path md t =
     (case t path of
        None \<Rightarrow> (t, [])
      | Some e \<Rightarrow>
          advance path
            (if md = Shared then (if le_readers e > 0 then e\<lparr>le_readers := le_readers e - 1\<rparr> else e)
             else e\<lparr>le_writer := False\<rparr>) t)"

definition acquire_begin :: "wake \<Rightarrow> string \<Rightarrow> lock_mode \<Rightarrow> lock_table \<Rightarrow> bool \<times> lock_table" where
  "acquire_begin w path md t =
     (let e = (case t path of None \<Rightarrow> empty_entry | Some e \<Rightarrow> e);
          can_take_now = le_waiters e = [] \<and> \<not> le_writer e \<and> (md = Shared \<or> le_readers e = 0)
      in if can_take_now then (True, t(path \<mapsto> take_lock md e))
         else (False, t(path \<mapsto> e\<lparr>le_waiters := le_waiters e @ [(w, md)]\<rparr>)))"

text \<open>
  After the suspension: \<open>received\<close> is whether the receive succeeded and the coroutine was not
  cancelled. A failed receive withdraws the waiter, or returns the permit that was already
  reserved for it.
\<close>

definition acquire_finish ::
  "bool \<Rightarrow> wake \<Rightarrow> string \<Rightarrow> lock_mode \<Rightarrow> lock_table \<Rightarrow> unit result \<times> lock_table \<times> wake list" where
  "acquire_finish received w path md t =
     (case t path of
        None \<Rightarrow> (Inl (err_internal ''path_lock_table: entry vanished while waiting''), t, [])
      | Some e \<Rightarrow>
          if received then (Inr (), t, [])
          else if filter (\<lambda>x. fst x = w) (le_waiters e) = [] then
            (Inl err_cancelled, release_lock path md t)
          else (Inl err_cancelled,
                advance path (e\<lparr>le_waiters := filter (\<lambda>x. fst x \<noteq> w) (le_waiters e)\<rparr>) t))"

section \<open>Coroutines over the table\<close>

datatype phase = Waiting | Permitted | Holding

record client =
  cl_path :: string
  cl_mode :: lock_mode
  cl_phase :: phase

type_synonym clients = "wake \<Rightarrow> client option"

record lock_state =
  ls_table :: lock_table
  ls_clients :: clients

definition permit_all :: "wake list \<Rightarrow> clients \<Rightarrow> clients" where
  "permit_all woken m = (\<lambda>w. if w \<in> set woken then map_option (\<lambda>c. c\<lparr>cl_phase := Permitted\<rparr>) (m w) else m w)"

text \<open>
  One rule per thing that can happen on the strand: a coroutine starts to acquire and gets the
  lock at once or waits (one that is already cancelled returns before it touches the table); a
  coroutine with a permit resumes and becomes a holder; a waiting or permitted coroutine is
  cancelled; a holder's guard is destroyed.
\<close>

inductive lock_step :: "lock_state \<Rightarrow> lock_state \<Rightarrow> bool" where
  begin_taken: "ls_clients s w = None \<Longrightarrow> acquire_begin w path md (ls_table s) = (True, t) \<Longrightarrow>
    lock_step s \<lparr>ls_table = t, ls_clients = (ls_clients s)(w \<mapsto> \<lparr>cl_path = path, cl_mode = md, cl_phase = Holding\<rparr>)\<rparr>"
| begin_waits: "ls_clients s w = None \<Longrightarrow> acquire_begin w path md (ls_table s) = (False, t) \<Longrightarrow>
    lock_step s \<lparr>ls_table = t, ls_clients = (ls_clients s)(w \<mapsto> \<lparr>cl_path = path, cl_mode = md, cl_phase = Waiting\<rparr>)\<rparr>"
| resume: "ls_clients s w = Some c \<Longrightarrow> cl_phase c = Permitted \<Longrightarrow>
    acquire_finish True w (cl_path c) (cl_mode c) (ls_table s) = (Inr (), t, woken) \<Longrightarrow>
    lock_step s \<lparr>ls_table = t, ls_clients = (ls_clients s)(w \<mapsto> c\<lparr>cl_phase := Holding\<rparr>)\<rparr>"
| cancel: "ls_clients s w = Some c \<Longrightarrow> cl_phase c \<noteq> Holding \<Longrightarrow>
    acquire_finish False w (cl_path c) (cl_mode c) (ls_table s) = (Inl e, t, woken) \<Longrightarrow>
    lock_step s \<lparr>ls_table = t, ls_clients = permit_all woken ((ls_clients s)(w := None))\<rparr>"
| release: "ls_clients s w = Some c \<Longrightarrow> cl_phase c = Holding \<Longrightarrow>
    release_lock (cl_path c) (cl_mode c) (ls_table s) = (t, woken) \<Longrightarrow>
    lock_step s \<lparr>ls_table = t, ls_clients = permit_all woken ((ls_clients s)(w := None))\<rparr>"

inductive lock_reachable :: "lock_state \<Rightarrow> bool" where
  start: "lock_reachable \<lparr>ls_table = Map.empty, ls_clients = Map.empty\<rparr>"
| step: "lock_reachable s \<Longrightarrow> lock_step s s' \<Longrightarrow> lock_reachable s'"

section \<open>The invariant\<close>

text \<open>The clients of a path that have the lock: holders, and waiters with a reserved permit.\<close>

definition granted :: "string \<Rightarrow> lock_mode \<Rightarrow> clients \<Rightarrow> wake set" where
  "granted p md m = {w. \<exists>c. m w = Some c \<and> cl_path c = p \<and> cl_mode c = md \<and> cl_phase c \<noteq> Waiting}"

definition queued :: "string \<Rightarrow> clients \<Rightarrow> (wake \<times> lock_mode) set" where
  "queued p m = {(w, cl_mode c) | w c. m w = Some c \<and> cl_path c = p \<and> cl_phase c = Waiting}"

definition entry_of :: "lock_table \<Rightarrow> string \<Rightarrow> lock_entry" where
  "entry_of t p = (case t p of None \<Rightarrow> empty_entry | Some e \<Rightarrow> e)"

text \<open>The entry agrees with the clients of its path.\<close>

definition entry_agrees :: "string \<Rightarrow> lock_entry \<Rightarrow> clients \<Rightarrow> bool" where
  "entry_agrees p e m \<longleftrightarrow>
     le_readers e = card (granted p Shared m) \<and>
     card (granted p Exclusive m) = (if le_writer e then 1 else 0) \<and>
     \<not> (le_writer e \<and> 0 < le_readers e) \<and>
     distinct (map fst (le_waiters e)) \<and> set (le_waiters e) = queued p m"

text \<open>Nobody waits who could be woken.\<close>

definition entry_settled :: "lock_entry \<Rightarrow> bool" where
  "entry_settled e \<longleftrightarrow> (case le_waiters e of [] \<Rightarrow> True | (w, md) # _ \<Rightarrow> \<not> can_wake md e)"

definition path_ok :: "lock_table \<Rightarrow> clients \<Rightarrow> string \<Rightarrow> bool" where
  "path_ok t m p \<longleftrightarrow> entry_agrees p (entry_of t p) m \<and> entry_settled (entry_of t p) \<and>
     (\<forall>e. t p = Some e \<longrightarrow> \<not> entry_idle e)"

definition lock_inv :: "lock_state \<Rightarrow> bool" where
  "lock_inv s \<longleftrightarrow> finite (dom (ls_clients s)) \<and> (\<forall>p. path_ok (ls_table s) (ls_clients s) p)"

section \<open>Clients and their sets\<close>

lemma granted_upd:
  "granted p md (m(w \<mapsto> c)) = (if cl_path c = p \<and> cl_mode c = md \<and> cl_phase c \<noteq> Waiting
     then insert w (granted p md m) else granted p md m - {w})"
  by (auto simp: granted_def)

lemma granted_del: "granted p md (m(w := None)) = granted p md m - {w}"
  by (auto simp: granted_def)

lemma queued_upd:
  "queued p (m(w \<mapsto> c)) = (queued p m - {w} \<times> UNIV) \<union>
     (if cl_path c = p \<and> cl_phase c = Waiting then {(w, cl_mode c)} else {})"
  by (auto simp: queued_def split: if_splits)

lemma queued_del: "queued p (m(w := None)) = queued p m - {w} \<times> UNIV"
  by (auto simp: queued_def)

lemma granted_subset_dom: "granted p md m \<subseteq> dom m"
  by (auto simp: granted_def)

lemma finite_granted: "finite (dom m) \<Longrightarrow> finite (granted p md m)"
  by (rule finite_subset [OF granted_subset_dom])

lemma granted_iff:
  "w \<in> granted p md m \<longleftrightarrow> (\<exists>c. m w = Some c \<and> cl_path c = p \<and> cl_mode c = md \<and> cl_phase c \<noteq> Waiting)"
  by (simp add: granted_def)

lemma queued_iff:
  "(w, md) \<in> queued p m \<longleftrightarrow> (\<exists>c. m w = Some c \<and> cl_path c = p \<and> cl_mode c = md \<and> cl_phase c = Waiting)"
  by (auto simp: queued_def)

lemma permit_all_Nil [simp]: "permit_all [] m = m"
  by (simp add: permit_all_def)

lemma permit_all_Cons: "permit_all (w # ws) m = permit_all ws (permit_all [w] m)"
proof
  fix v
  show "permit_all (w # ws) m v = permit_all ws (permit_all [w] m) v"
    by (cases "m v"; cases "v = w") (simp_all add: permit_all_def)
qed

lemma permit_one: "m w = Some c \<Longrightarrow> permit_all [w] m = m(w \<mapsto> c\<lparr>cl_phase := Permitted\<rparr>)"
  by (auto simp: permit_all_def)

lemma dom_permit_all [simp]: "dom (permit_all ws m) = dom m"
  by (auto simp: permit_all_def split: if_splits)

text \<open>Permits for waiters of one path leave every other path alone.\<close>

lemma permit_other_path:
  assumes "\<forall>w \<in> set ws. \<exists>c. m w = Some c \<and> cl_path c = p" "q \<noteq> p"
  shows "granted q md (permit_all ws m) = granted q md m" "queued q (permit_all ws m) = queued q m"
  using assms by (fastforce simp: granted_def queued_def permit_all_def split: if_splits)+

lemma path_ok_cong:
  assumes "t p = t' p" "\<And>w md. w \<in> granted p md m \<longleftrightarrow> w \<in> granted p md m'"
    "\<And>w md. (w, md) \<in> queued p m \<longleftrightarrow> (w, md) \<in> queued p m'"
  shows "path_ok t m p = path_ok t' m' p"
proof -
  have "granted p md m = granted p md m'" "queued p m = queued p m'" for md
    using assms(2,3) by auto
  then show ?thesis using assms(1) by (simp add: path_ok_def entry_of_def entry_agrees_def)
qed

section \<open>Advancing the queue\<close>

lemma take_lock_agrees:
  assumes fin: "finite (dom m)" and "entry_agrees p (e\<lparr>le_waiters := (w, md) # ws\<rparr>) m" "can_wake md e"
  shows "\<exists>c. m w = Some c \<and> cl_path c = p \<and> cl_phase c = Waiting"
    "entry_agrees p ((take_lock md e)\<lparr>le_waiters := ws\<rparr>) (permit_all [w] m)"
proof -
  from assms(2) have q: "queued p m = insert (w, md) (set ws)" and d: "w \<notin> fst ` set ws" "distinct (map fst ws)"
    by (auto simp: entry_agrees_def)
  then obtain c where c: "m w = Some c" "cl_path c = p" "cl_mode c = md" "cl_phase c = Waiting"
    using queued_iff [of w md p m] by auto
  then show "\<exists>c. m w = Some c \<and> cl_path c = p \<and> cl_phase c = Waiting" by blast
  have nin: "w \<notin> granted p md' m" for md' using c by (auto simp: granted_iff)
  have q': "queued p (m(w \<mapsto> c\<lparr>cl_phase := Permitted\<rparr>)) = set ws"
    unfolding queued_upd q using d(1) by (force simp: image_iff)
  show "entry_agrees p ((take_lock md e)\<lparr>le_waiters := ws\<rparr>) (permit_all [w] m)"
    unfolding permit_one [of m w c, OF c(1)] using assms(2,3) c nin d(2) q' finite_granted [OF fin]
    by (cases md) (auto simp: entry_agrees_def granted_upd can_wake_def)
qed

lemma advance_loop_agrees:
  assumes "finite (dom m)" "entry_agrees p (e\<lparr>le_waiters := ws\<rparr>) m" "advance_loop ws e = (e', woken)"
  shows "entry_agrees p e' (permit_all woken m) \<and> entry_settled e' \<and>
    (\<forall>w \<in> set woken. \<exists>c. m w = Some c \<and> cl_path c = p \<and> cl_phase c = Waiting)"
  using assms
proof (induction ws e arbitrary: m e' woken rule: advance_loop.induct)
  case (1 e)
  then show ?case by (auto simp: entry_settled_def)
next
  case (2 w md ws e)
  show ?case
  proof (cases "can_wake md e")
    case False
    with "2.prems" show ?thesis by (auto simp: entry_settled_def can_wake_def)
  next
    case True
    note tl = take_lock_agrees [OF "2.prems"(1,2) True]
    show ?thesis
    proof (cases "md = Exclusive")
      case ex: True
      with True "2.prems"(3) have "e' = (take_lock md e)\<lparr>le_waiters := ws\<rparr>" "woken = [w]" by auto
      moreover have "entry_settled ((take_lock md e)\<lparr>le_waiters := ws\<rparr>)"
        using ex by (auto simp: entry_settled_def can_wake_def split: list.splits)
      ultimately show ?thesis using tl by simp
    next
      case sh: False
      obtain e1 woken1 where r: "advance_loop ws (take_lock md e) = (e1, woken1)" by fastforce
      with True sh "2.prems"(3) have e': "e' = e1" "woken = w # woken1" by auto
      have "entry_agrees p e1 (permit_all woken1 (permit_all [w] m)) \<and> entry_settled e1 \<and>
        (\<forall>v \<in> set woken1. \<exists>c. permit_all [w] m v = Some c \<and> cl_path c = p \<and> cl_phase c = Waiting)"
        using "2.IH" [of "permit_all [w] m" e1 woken1] True sh "2.prems"(1) tl(2) r by simp
      then show ?thesis using tl(1) unfolding e' permit_all_Cons [of w woken1]
        by (auto simp: permit_all_def split: if_splits)
    qed
  qed
qed

lemma advance_path_ok:
  assumes fin: "finite (dom m)" and ag: "entry_agrees p e m" and oth: "\<And>q. q \<noteq> p \<Longrightarrow> path_ok t m q"
    and adv: "advance p e t = (t', woken)"
  shows "path_ok t' (permit_all woken m) q"
proof -
  obtain e' where r: "advance_loop (le_waiters e) e = (e', woken)"
    and t': "t' = t(p := if entry_idle e' then None else Some e')"
    using adv by (auto simp: advance_def split: prod.splits)
  have al: "entry_agrees p e' (permit_all woken m)" "entry_settled e'"
    "\<forall>w \<in> set woken. \<exists>c. m w = Some c \<and> cl_path c = p \<and> cl_phase c = Waiting"
    using advance_loop_agrees [OF fin _ r] ag by simp_all
  show ?thesis
  proof (cases "q = p")
    case True
    have "entry_idle e' \<Longrightarrow> e' = empty_entry" by (simp add: entry_idle_def empty_entry_def)
    then have "entry_of t' p = e'" by (auto simp: t' entry_of_def)
    with al True show ?thesis by (auto simp: path_ok_def t')
  next
    case False
    have "\<forall>w \<in> set woken. \<exists>c. m w = Some c \<and> cl_path c = p" using al(3) by blast
    note po = permit_other_path [OF this False]
    have "path_ok t' (permit_all woken m) q = path_ok t m q"
      using False by (intro path_ok_cong) (simp_all add: t' po)
    with oth [OF False] show ?thesis by simp
  qed
qed

text \<open>Removing a client that has the lock matches the decrement of \<open>release_lock\<close>.\<close>

lemma granted_entry:
  assumes "finite (dom m)" "path_ok t m p" "m w = Some c" "cl_path c = p" "cl_phase c \<noteq> Waiting"
  obtains e where "t p = Some e" "entry_agrees p e m"
    "cl_mode c = Shared \<Longrightarrow> 0 < le_readers e" "cl_mode c = Exclusive \<Longrightarrow> le_writer e"
proof -
  have w: "w \<in> granted p (cl_mode c) m" using assms by (auto simp: granted_iff)
  then have "0 < card (granted p (cl_mode c) m)"
    using finite_granted [OF assms(1)] by (auto simp: card_gt_0_iff)
  then have ne: "cl_mode c = Shared \<Longrightarrow> 0 < le_readers (entry_of t p)" "cl_mode c = Exclusive \<Longrightarrow> le_writer (entry_of t p)"
    using assms(2) by (auto simp: path_ok_def entry_agrees_def split: if_splits)
  then have "t p \<noteq> None" by (cases "cl_mode c"; cases "t p") (auto simp: entry_of_def empty_entry_def)
  then obtain e where "t p = Some e" by blast
  with ne assms(2) show ?thesis using that by (auto simp: path_ok_def entry_of_def)
qed

lemma release_agrees:
  assumes "finite (dom m)" "entry_agrees p e m" "m w = Some c" "cl_path c = p" "cl_phase c \<noteq> Waiting"
    "cl_mode c = Shared \<Longrightarrow> 0 < le_readers e" "cl_mode c = Exclusive \<Longrightarrow> le_writer e"
  shows "entry_agrees p (if cl_mode c = Shared then (if le_readers e > 0 then e\<lparr>le_readers := le_readers e - 1\<rparr> else e)
     else e\<lparr>le_writer := False\<rparr>) (m(w := None))"
proof -
  have w: "w \<in> granted p (cl_mode c) m" "\<And>md. md \<noteq> cl_mode c \<Longrightarrow> w \<notin> granted p md m"
    using assms by (auto simp: granted_iff)
  have q: "queued p m - {w} \<times> UNIV = queued p m" using assms(3,5) by (auto simp: queued_def)
  show ?thesis
    using assms(2,6,7) w finite_granted [OF assms(1)]
    by (cases "cl_mode c") (auto simp: entry_agrees_def granted_del queued_del q card_Diff_singleton_if)
qed

lemma path_ok_del_other:
  "m w = Some c \<Longrightarrow> q \<noteq> cl_path c \<Longrightarrow> path_ok t (m(w := None)) q = path_ok t m q"
  by (intro path_ok_cong) (auto simp: granted_iff queued_iff)

lemma release_lock_ok:
  assumes "finite (dom m)" "\<And>q. path_ok t m q" "m w = Some c" "cl_phase c \<noteq> Waiting"
    "release_lock (cl_path c) (cl_mode c) t = (t', woken)"
  shows "path_ok t' (permit_all woken (m(w := None))) q"
proof -
  obtain e where e: "t (cl_path c) = Some e" "entry_agrees (cl_path c) e m"
    "cl_mode c = Shared \<Longrightarrow> 0 < le_readers e" "cl_mode c = Exclusive \<Longrightarrow> le_writer e"
    using granted_entry [OF assms(1,2,3) refl assms(4)] by blast
  have adv: "advance (cl_path c) (if cl_mode c = Shared then (if le_readers e > 0 then e\<lparr>le_readers := le_readers e - 1\<rparr> else e)
     else e\<lparr>le_writer := False\<rparr>) t = (t', woken)"
    using assms(5) e(1) by (simp add: release_lock_def)
  show ?thesis
    by (rule advance_path_ok [OF _ release_agrees [OF assms(1) e(2) assms(3) refl assms(4) e(3,4)] _ adv])
      (use assms(1-3) in \<open>simp_all add: path_ok_del_other\<close>)
qed

lemma begin_path_ok:
  assumes fin: "finite (dom m)" and ok: "\<And>q. path_ok t m q" and w: "m w = None"
    and beg: "acquire_begin w p md t = (taken, t')"
  shows "path_ok t' (m(w \<mapsto> \<lparr>cl_path = p, cl_mode = md, cl_phase = if taken then Holding else Waiting\<rparr>)) q"
proof (cases "q = p")
  case False
  have "t' q = t q" using beg False by (auto simp: acquire_begin_def Let_def split: if_splits)
  with False ok [of q] w show ?thesis
    by (subst path_ok_cong [where t' = t and m' = m]) (auto simp: granted_iff queued_iff)
next
  case True
  let ?e = "entry_of t p"
  have ag: "entry_agrees p ?e m" "entry_settled ?e" using ok [of p] by (simp_all add: path_ok_def)
  have nin: "w \<notin> granted p md' m" "\<And>x. (w, x) \<notin> queued p m" for md'
    using w by (auto simp: granted_iff queued_iff)
  have q: "queued p m - {w} \<times> UNIV = queued p m" using nin(2) by auto
  have nw: "w \<notin> fst ` set (le_waiters ?e)" using ag(1) nin(2) by (auto simp: entry_agrees_def)
  show ?thesis
  proof (cases taken)
    case True
    then have can: "le_waiters ?e = []" "\<not> le_writer ?e" "md = Shared \<or> le_readers ?e = 0"
      and t': "t' = t(p \<mapsto> take_lock md ?e)"
      using beg by (auto simp: acquire_begin_def entry_of_def Let_def split: if_splits)
    have "entry_agrees p (take_lock md ?e) (m(w \<mapsto> \<lparr>cl_path = p, cl_mode = md, cl_phase = Holding\<rparr>))"
      using ag(1) can nin finite_granted [OF fin] q
      by (cases md) (auto simp: entry_agrees_def granted_upd queued_upd)
    moreover have "entry_settled (take_lock md ?e)" "\<not> entry_idle (take_lock md ?e)"
      using can(1) by (cases md; simp add: entry_settled_def entry_idle_def)+
    ultimately show ?thesis using \<open>q = p\<close> True by (simp add: path_ok_def t' entry_of_def)
  next
    case False
    let ?e' = "?e\<lparr>le_waiters := le_waiters ?e @ [(w, md)]\<rparr>"
    from False have cant: "\<not> (le_waiters ?e = [] \<and> \<not> le_writer ?e \<and> (md = Shared \<or> le_readers ?e = 0))"
      and t': "t' = t(p \<mapsto> ?e')"
      using beg by (auto simp: acquire_begin_def entry_of_def Let_def split: if_splits)
    have "entry_agrees p ?e' (m(w \<mapsto> \<lparr>cl_path = p, cl_mode = md, cl_phase = Waiting\<rparr>))"
      using ag(1) nin nw q by (auto simp: entry_agrees_def granted_upd queued_upd)
    moreover have "entry_settled ?e'"
      using cant ag(2) by (cases "le_waiters ?e"; cases md) (auto simp: entry_settled_def can_wake_def)
    ultimately show ?thesis using \<open>q = p\<close> False by (simp add: path_ok_def t' entry_of_def entry_idle_def)
  qed
qed

lemma cancel_path_ok:
  assumes fin: "finite (dom m)" and ok: "\<And>q. path_ok t m q" and c: "m w = Some c" "cl_phase c \<noteq> Holding"
    and can: "acquire_finish False w (cl_path c) (cl_mode c) t = (Inl x, t', woken)" and e: "t (cl_path c) = Some e"
  shows "path_ok t' (permit_all woken (m(w := None))) q"
proof (cases "filter (\<lambda>x. fst x = w) (le_waiters e) = []")
  case True
  have ag: "entry_agrees (cl_path c) e m" using ok [of "cl_path c"] e by (simp add: path_ok_def entry_of_def)
  have "cl_phase c \<noteq> Waiting"
  proof
    assume "cl_phase c = Waiting"
    then have "(w, cl_mode c) \<in> set (le_waiters e)" using ag c(1) by (auto simp: entry_agrees_def queued_iff)
    with True show False by (auto simp: filter_empty_conv)
  qed
  moreover have "release_lock (cl_path c) (cl_mode c) t = (t', woken)"
    using can e True by (simp add: acquire_finish_def)
  ultimately show ?thesis using release_lock_ok [OF fin ok c(1)] by blast
next
  case False
  let ?e = "e\<lparr>le_waiters := filter (\<lambda>x. fst x \<noteq> w) (le_waiters e)\<rparr>"
  have ag: "entry_agrees (cl_path c) e m" using ok [of "cl_path c"] e by (simp add: path_ok_def entry_of_def)
  from False obtain md where "(w, md) \<in> set (le_waiters e)" by (auto simp: filter_empty_conv)
  then have wait: "cl_phase c = Waiting" using ag c(1) by (auto simp: entry_agrees_def queued_iff)
  have adv: "advance (cl_path c) ?e t = (t', woken)" using can e False by (simp add: acquire_finish_def)
  have "granted (cl_path c) md' m - {w} = granted (cl_path c) md' m" for md'
    using c(1) wait by (auto simp: granted_iff)
  then have "entry_agrees (cl_path c) ?e (m(w := None))"
    using ag by (auto simp: entry_agrees_def granted_del queued_del distinct_map_filter)
  from advance_path_ok [OF _ this _ adv] show ?thesis
    using fin ok c(1) by (simp add: path_ok_del_other)
qed

text \<open>The entry of a client never vanishes, so the source's internal error is unreachable.\<close>

lemma waiting_or_granted_entry:
  assumes "lock_inv s" "ls_clients s w = Some c" shows "\<exists>e. ls_table s (cl_path c) = Some e"
proof (cases "cl_phase c = Waiting")
  case True
  then have "(w, cl_mode c) \<in> set (le_waiters (entry_of (ls_table s) (cl_path c)))"
    using assms by (auto simp: lock_inv_def path_ok_def entry_agrees_def queued_iff)
  then show ?thesis by (cases "ls_table s (cl_path c)") (auto simp: entry_of_def empty_entry_def)
next
  case False
  then show ?thesis
    using assms granted_entry [of "ls_clients s" "ls_table s" "cl_path c" w c] by (auto simp: lock_inv_def)
qed

lemma lock_step_inv: "lock_step s s' \<Longrightarrow> lock_inv s \<Longrightarrow> lock_inv s'"
proof (induction rule: lock_step.induct)
  case (begin_taken s w path md t)
  then show ?case using begin_path_ok [of "ls_clients s" "ls_table s" w path md True t] by (simp add: lock_inv_def)
next
  case (begin_waits s w path md t)
  then show ?case using begin_path_ok [of "ls_clients s" "ls_table s" w path md False t] by (simp add: lock_inv_def)
next
  case (resume s w c t woken)
  have "path_ok t ((ls_clients s)(w \<mapsto> c\<lparr>cl_phase := Holding\<rparr>)) q" for q
  proof -
    have "t = ls_table s" using resume(3) by (auto simp: acquire_finish_def split: option.splits)
    moreover have "path_ok (ls_table s) ((ls_clients s)(w \<mapsto> c\<lparr>cl_phase := Holding\<rparr>)) q = path_ok (ls_table s) (ls_clients s) q"
      using resume(1,2) by (intro path_ok_cong) (auto simp: granted_iff queued_iff)
    ultimately show ?thesis using resume(4) by (simp add: lock_inv_def)
  qed
  with resume(4) show ?case by (simp add: lock_inv_def)
next
  case (cancel s w c e t woken)
  obtain en where en: "ls_table s (cl_path c) = Some en"
    using cancel waiting_or_granted_entry [of s w c] by blast
  show ?case
    using cancel cancel_path_ok [of "ls_clients s" "ls_table s" w c e t woken en] en
    by (simp add: lock_inv_def)
next
  case (release s w c t woken)
  then show ?case
    using release_lock_ok [of "ls_clients s" "ls_table s" w c t woken] by (simp add: lock_inv_def)
qed

lemma lock_inv_start: "lock_inv \<lparr>ls_table = Map.empty, ls_clients = Map.empty\<rparr>"
  by (simp add: lock_inv_def path_ok_def entry_of_def empty_entry_def entry_agrees_def entry_settled_def
      granted_def queued_def)

lemma lock_reachable_inv: "lock_reachable s \<Longrightarrow> lock_inv s"
  by (induction rule: lock_reachable.induct) (auto intro: lock_inv_start lock_step_inv)

lemma card_two: "finite A \<Longrightarrow> a \<in> A \<Longrightarrow> b \<in> A \<Longrightarrow> card A \<le> 1 \<Longrightarrow> a = b"
  by (metis card_le_Suc0_iff_eq One_nat_def)

lemma granted_exclusion:
  assumes "lock_inv s" "ls_clients s v = Some c" "ls_clients s w = Some d" "v \<noteq> w"
    "cl_path c = cl_path d" "cl_phase c \<noteq> Waiting" "cl_phase d \<noteq> Waiting"
  shows "cl_mode c = Shared \<and> cl_mode d = Shared"
proof (rule ccontr)
  assume "\<not> (cl_mode c = Shared \<and> cl_mode d = Shared)"
  then have ex: "cl_mode c = Exclusive \<or> cl_mode d = Exclusive" by (cases "cl_mode c"; cases "cl_mode d") auto
  let ?e = "entry_of (ls_table s) (cl_path d)"
  have fin: "finite (dom (ls_clients s))" and ag: "entry_agrees (cl_path d) ?e (ls_clients s)"
    using assms(1) by (auto simp: lock_inv_def path_ok_def)
  have v: "v \<in> granted (cl_path d) (cl_mode c) (ls_clients s)" and w: "w \<in> granted (cl_path d) (cl_mode d) (ls_clients s)"
    using assms by (auto simp: granted_iff)
  have c1: "card (granted (cl_path d) Exclusive (ls_clients s)) \<le> 1" using ag by (simp add: entry_agrees_def)
  have pos: "x \<in> granted (cl_path d) md (ls_clients s) \<Longrightarrow> 0 < card (granted (cl_path d) md (ls_clients s))" for x md
    using finite_granted [OF fin] card_gt_0_iff by blast
  show False
  proof (cases "cl_mode c = cl_mode d")
    case True
    with ex v w have "v = w" using card_two [OF finite_granted [OF fin] _ _ c1] by metis
    with assms(4) show False by simp
  next
    case False
    with ex v w pos ag show False
      by (cases "cl_mode c"; cases "cl_mode d") (fastforce simp: entry_agrees_def split: if_splits)+
  qed
qed

section \<open>Properties\<close>

text \<open>
  C4: mutual exclusion of path locks. In every state the coroutines of a strand can reach, with any
  interleaving of acquires, resumptions, cancellations and releases, two coroutines that have the lock of
  one path both have it shared; a permit that is reserved but not yet picked up counts as having it.
\<close>

theorem path_lock_exclusion:
  assumes "lock_reachable s" "ls_clients s v = Some c" "ls_clients s w = Some d" "v \<noteq> w"
    and "cl_path c = cl_path d" "cl_phase c \<noteq> Waiting" "cl_phase d \<noteq> Waiting"
  shows "cl_mode c = Shared \<and> cl_mode d = Shared"
  using granted_exclusion [OF lock_reachable_inv [OF assms(1)]] assms by blast

definition demo_client :: "lock_mode \<Rightarrow> phase \<Rightarrow> client" where
  "demo_client md ph = \<lparr>cl_path = ''a'', cl_mode = md, cl_phase = ph\<rparr>"

lemma demo_two_readers:
  "lock_reachable \<lparr>ls_table = Map.empty(''a'' \<mapsto> \<lparr>le_readers = 2, le_writer = False, le_waiters = []\<rparr>),
     ls_clients = Map.empty(0 \<mapsto> demo_client Shared Holding, Suc 0 \<mapsto> demo_client Shared Holding)\<rparr>"
proof -
  let ?s1 = "\<lparr>ls_table = Map.empty(''a'' \<mapsto> \<lparr>le_readers = Suc 0, le_writer = False, le_waiters = []\<rparr>),
     ls_clients = Map.empty(0 \<mapsto> demo_client Shared Holding)\<rparr>"
  have "lock_step \<lparr>ls_table = Map.empty, ls_clients = Map.empty\<rparr> ?s1"
    using lock_step.begin_taken [of "\<lparr>ls_table = Map.empty, ls_clients = Map.empty\<rparr>" 0 "''a''" Shared]
    by (simp add: acquire_begin_def empty_entry_def demo_client_def)
  from lock_reachable.step [OF lock_reachable.start this] have r1: "lock_reachable ?s1" .
  show ?thesis
    using lock_reachable.step [OF r1 lock_step.begin_taken [of ?s1 "Suc 0" "''a''" Shared]]
    by (simp add: acquire_begin_def demo_client_def numeral_2_eq_2)
qed

theorem path_lock_exclusion_witness:
  "cl_mode (demo_client Shared Holding) = Shared \<and> cl_mode (demo_client Shared Holding) = Shared"
  by (rule path_lock_exclusion [OF demo_two_readers, of 0 _ "Suc 0"]) (simp_all add: demo_client_def)

text \<open>
  C17: nobody waits for nothing, and the table does not leak. In every reachable state a coroutine that
  waits on a path waits behind one that has the lock there, the entry it waits on exists (so the error
  "entry vanished while waiting" cannot occur), and an entry is kept only while somebody holds or waits.
\<close>

theorem path_lock_progress:
  assumes "lock_reachable s"
  shows "(\<forall>w c. ls_clients s w = Some c \<longrightarrow> ls_table s (cl_path c) \<noteq> None) \<and>
    (\<forall>w c. ls_clients s w = Some c \<and> cl_phase c = Waiting \<longrightarrow>
       (\<exists>v d. ls_clients s v = Some d \<and> cl_path d = cl_path c \<and> cl_phase d \<noteq> Waiting)) \<and>
    (\<forall>p. ls_table s p \<noteq> None \<longrightarrow> (\<exists>w c. ls_clients s w = Some c \<and> cl_path c = p))"
proof (intro conjI allI impI)
  have inv: "lock_inv s" using assms by (rule lock_reachable_inv)
  then have ag: "\<And>p. entry_agrees p (entry_of (ls_table s) p) (ls_clients s)"
    and st: "\<And>p. entry_settled (entry_of (ls_table s) p)" and ni: "\<And>p e. ls_table s p = Some e \<Longrightarrow> \<not> entry_idle e"
    by (auto simp: lock_inv_def path_ok_def)
  fix w c
  { assume "ls_clients s w = Some c"
    then show "ls_table s (cl_path c) \<noteq> None" using waiting_or_granted_entry [OF inv] by blast }
  { assume a: "ls_clients s w = Some c \<and> cl_phase c = Waiting"
    let ?e = "entry_of (ls_table s) (cl_path c)"
    have "(w, cl_mode c) \<in> set (le_waiters ?e)" using a ag [of "cl_path c"] by (auto simp: entry_agrees_def queued_iff)
    then obtain v md ws where "le_waiters ?e = (v, md) # ws" by (cases "le_waiters ?e") auto
    then have "\<not> can_wake md ?e" using st [of "cl_path c"] by (simp add: entry_settled_def)
    then have "0 < le_readers ?e \<or> le_writer ?e" by (auto simp: can_wake_def split: if_splits)
    then obtain md' where "granted (cl_path c) md' (ls_clients s) \<noteq> {}"
      using ag [of "cl_path c"] by (fastforce simp: entry_agrees_def split: if_splits)
    then show "\<exists>v d. ls_clients s v = Some d \<and> cl_path d = cl_path c \<and> cl_phase d \<noteq> Waiting"
      by (auto simp: granted_def) }
next
  have inv: "lock_inv s" using assms by (rule lock_reachable_inv)
  fix p assume "ls_table s p \<noteq> None"
  then obtain e where e: "ls_table s p = Some e" by blast
  then have "entry_agrees p e (ls_clients s)" "\<not> entry_idle e"
    using inv by (auto simp: lock_inv_def path_ok_def entry_of_def dest: spec [of _ p])
  then have "(\<exists>md. granted p md (ls_clients s) \<noteq> {}) \<or> queued p (ls_clients s) \<noteq> {}"
    by (fastforce simp: entry_agrees_def entry_idle_def split: if_splits)
  then show "\<exists>w c. ls_clients s w = Some c \<and> cl_path c = p" by (auto simp: granted_def queued_def)
qed

theorem path_lock_progress_witness:
  "\<exists>w c. (Map.empty(0 \<mapsto> demo_client Shared Holding, Suc 0 \<mapsto> demo_client Shared Holding)) w = Some c \<and> cl_path c = ''a''"
  using path_lock_progress [OF demo_two_readers] by simp

end
