(* ===== verification/Http_Sse.thy ===== *)
theory Http_Sse
  imports Oran_Prelude
begin

text \<open>
  \<^verbatim>\<open>oran-http/_impl/sse_parser.hpp\<close>: the incremental parser of the
  \<^verbatim>\<open>text/event-stream\<close> grammar that the streaming HTTP client feeds with byte chunks.
  Events reported through \<^verbatim>\<open>on_event\<close> are the second component of the result. The theory shows
  that chunk boundaries are transparent, that the buffers stay within the configured bounds, and
  that rendering events and parsing the bytes gives the events back.
\<close>

section \<open>Data\<close>

record sse_options =
  max_line_bytes :: nat
  max_event_bytes :: nat

definition default_sse_options :: sse_options where
  "default_sse_options = \<lparr>max_line_bytes = 64 * 1024, max_event_bytes = 16 * 1024 * 1024\<rparr>"

record sse_event =
  ev_event :: string
  ev_data :: string

record sse_parser =
  sse_exceeded :: bool
  pending_line :: string
  event_type :: string
  sse_data :: string

definition sse_init :: sse_parser where
  "sse_init = \<lparr>sse_exceeded = False, pending_line = [], event_type = [], sse_data = []\<rparr>"

abbreviation NL :: char where "NL \<equiv> CHR 0x0A"
abbreviation CR :: char where "CR \<equiv> CHR 0x0D"

section \<open>Operations\<close>

text \<open>\<^verbatim>\<open>line.ends_with('\r')\<close> and \<^verbatim>\<open>remove_suffix(1)\<close>.\<close>

definition strip_cr :: "string \<Rightarrow> string" where
  "strip_cr line = (if line \<noteq> [] \<and> last line = CR then butlast line else line)"

text \<open>The split of a line at its first colon, with one leading space of the value removed.\<close>

definition split_field :: "string \<Rightarrow> string \<times> string" where
  "split_field line =
     (if CHR '':'' \<in> set line
      then let field = takeWhile (\<lambda>c. c \<noteq> CHR '':'') line;
               val = drop (Suc (length field)) line
           in (field, case val of c # cs \<Rightarrow> if c = CHR '' '' then cs else val | [] \<Rightarrow> [])
      else (line, []))"

definition consume_field :: "sse_options \<Rightarrow> string \<Rightarrow> sse_parser \<Rightarrow> sse_parser" where
  "consume_field opts line p =
     (if sse_exceeded p then p
      else if hd line = CHR '':'' then p
      else let (field, val) = split_field line in
        if field = ''event'' then p\<lparr>event_type := val\<rparr>
        else if field = ''data''
        then if max_event_bytes opts < length (sse_data p) + length val + 1
             then p\<lparr>sse_exceeded := True\<rparr>
             else p\<lparr>sse_data := sse_data p @ val @ [NL]\<rparr>
        else p)"

definition dispatch :: "sse_parser \<Rightarrow> sse_parser \<times> sse_event list" where
  "dispatch p =
     (if sse_exceeded p then (p, [])
      else if sse_data p = [] then (p\<lparr>event_type := []\<rparr>, [])
      else let d = (if last (sse_data p) = NL then butlast (sse_data p) else sse_data p) in
        (p\<lparr>event_type := [], sse_data := []\<rparr>,
         [\<lparr>ev_event = (if event_type p = [] then ''message'' else event_type p), ev_data = d\<rparr>]))"

text \<open>One complete line: the body of the loop after a line feed.\<close>

definition end_line :: "sse_options \<Rightarrow> sse_parser \<Rightarrow> sse_parser \<times> sse_event list" where
  "end_line opts p =
     (let line = strip_cr (pending_line p);
          (q, evs) = (if line = [] then dispatch p else (consume_field opts line p, []))
      in (q\<lparr>pending_line := []\<rparr>, evs))"

text \<open>
  The loop over the bytes of a chunk. Only an overlong line leaves it early: an event that exceeds
  its bound latches the flag in \<open>consume_field\<close> and the loop goes on over bytes that have no
  effect on events any more.
\<close>

fun feed_loop :: "sse_options \<Rightarrow> string \<Rightarrow> sse_parser \<Rightarrow> sse_parser \<times> sse_event list" where
  "feed_loop opts [] p = (p, [])"
| "feed_loop opts (byte # bytes) p =
     (if byte \<noteq> NL
      then if length (pending_line p) < max_line_bytes opts
           then feed_loop opts bytes (p\<lparr>pending_line := pending_line p @ [byte]\<rparr>)
           else (p\<lparr>sse_exceeded := True\<rparr>, [])
      else let (q, evs) = end_line opts p; (r, evs') = feed_loop opts bytes q in (r, evs @ evs'))"

definition feed :: "sse_options \<Rightarrow> string \<Rightarrow> sse_parser \<Rightarrow> sse_parser \<times> sse_event list" where
  "feed opts chunk p = (if sse_exceeded p then (p, []) else feed_loop opts chunk p)"

text \<open>A sequence of chunks, as the write callback of the client delivers them.\<close>

fun feed_all :: "sse_options \<Rightarrow> string list \<Rightarrow> sse_parser \<Rightarrow> sse_parser \<times> sse_event list" where
  "feed_all opts [] p = (p, [])"
| "feed_all opts (c # cs) p =
     (let (q, evs) = feed opts c p; (r, evs') = feed_all opts cs q in (r, evs @ evs'))"

section \<open>The writer's side\<close>

text \<open>The wire form of an event, the inverse the parser is checked against.\<close>

fun split_nl :: "string \<Rightarrow> string list" where
  "split_nl [] = [[]]"
| "split_nl (c # cs) =
     (if c = NL then [] # split_nl cs
      else case split_nl cs of [] \<Rightarrow> [[c]] | l # ls \<Rightarrow> (c # l) # ls)"

definition data_line :: "string \<Rightarrow> string" where
  "data_line l = ''data: '' @ l @ [NL]"

definition render_event :: "sse_event \<Rightarrow> string" where
  "render_event ev =
     ''event: '' @ ev_event ev @ [NL] @ concat (map data_line (split_nl (ev_data ev))) @ [NL]"

definition renderable :: "sse_options \<Rightarrow> sse_event \<Rightarrow> bool" where
  "renderable opts ev \<longleftrightarrow>
     ev_event ev \<noteq> [] \<and> NL \<notin> set (ev_event ev) \<and> CR \<notin> set (ev_event ev) \<and> CR \<notin> set (ev_data ev) \<and>
     length (ev_event ev) + 7 \<le> max_line_bytes opts \<and>
     (\<forall>l \<in> set (split_nl (ev_data ev)). length l + 6 \<le> max_line_bytes opts) \<and>
     length (ev_data ev) + 1 \<le> max_event_bytes opts"

section \<open>Bounds\<close>

definition sse_inv :: "sse_options \<Rightarrow> sse_parser \<Rightarrow> bool" where
  "sse_inv opts p \<longleftrightarrow>
     length (pending_line p) \<le> max_line_bytes opts \<and> length (sse_data p) \<le> max_event_bytes opts"

lemma end_line_inv: "sse_inv opts p \<Longrightarrow> sse_inv opts (fst (end_line opts p))"
  by (auto simp: end_line_def sse_inv_def Let_def dispatch_def consume_field_def split: prod.splits)

lemma feed_loop_inv [inv_intros]: "sse_inv opts p \<Longrightarrow> sse_inv opts (fst (feed_loop opts chunk p))"
proof (induction opts chunk p rule: feed_loop.induct)
  case (2 opts byte bytes p)
  then show ?case
    using end_line_inv [of opts p] by (auto simp: split: prod.splits) (auto simp: sse_inv_def)
qed simp

lemma feed_inv [inv_intros]: "sse_inv opts p \<Longrightarrow> sse_inv opts (fst (feed opts chunk p))"
  by (simp add: feed_def feed_loop_inv)

interpretation sse: invariant_machine "\<lambda>c p. fst (feed opts c p)" "\<lambda>_. True" "sse_inv opts" for opts
  by unfold_locales (rule feed_inv)

section \<open>Chunk boundaries\<close>

text \<open>Once the flag is set no byte changes it and none reports an event.\<close>

lemma end_line_exceeded:
  "sse_exceeded p \<Longrightarrow> sse_exceeded (fst (end_line opts p)) \<and> snd (end_line opts p) = []"
  by (simp add: end_line_def dispatch_def consume_field_def Let_def)

lemma feed_loop_exceeded:
  "sse_exceeded p \<Longrightarrow> sse_exceeded (fst (feed_loop opts c p)) \<and> snd (feed_loop opts c p) = []"
proof (induction opts c p rule: feed_loop.induct)
  case (2 opts byte bytes p)
  then show ?case using end_line_exceeded [of p opts] by (auto split: prod.splits)
qed simp

text \<open>What a client can observe of a parser: the flag, and everything else while it is unset.\<close>

definition same_sse :: "sse_parser \<Rightarrow> sse_parser \<Rightarrow> bool" where
  "same_sse p q \<longleftrightarrow> (sse_exceeded p \<and> sse_exceeded q) \<or> p = q"

lemma feed_loop_append:
  "same_sse (fst (feed_loop opts (c @ d) p)) (fst (feed_loop opts d (fst (feed_loop opts c p)))) \<and>
   snd (feed_loop opts (c @ d) p) = snd (feed_loop opts c p) @
     (if sse_exceeded (fst (feed_loop opts c p)) then []
      else snd (feed_loop opts d (fst (feed_loop opts c p))))"
proof (induction opts c p rule: feed_loop.induct)
  case (1 opts p)
  then show ?case using feed_loop_exceeded [of p opts d] by (auto simp: same_sse_def)
next
  case (2 opts byte bytes p)
  show ?case
  proof (cases "byte = NL")
    case True
    with "2.IH"(2) [of "end_line opts p" "fst (end_line opts p)" "snd (end_line opts p)"] show ?thesis
      by (simp add: Let_def case_prod_beta)
  next
    case False
    with "2.IH"(1) feed_loop_exceeded [of "p\<lparr>sse_exceeded := True\<rparr>" opts d] show ?thesis
      by (auto simp: same_sse_def)
  qed
qed

lemma feed_append:
  "same_sse (fst (feed opts (c @ d) p)) (fst (feed opts d (fst (feed opts c p)))) \<and>
   snd (feed opts (c @ d) p) = snd (feed opts c p) @ snd (feed opts d (fst (feed opts c p)))"
  using feed_loop_append [of opts c d p] feed_loop_exceeded [of "fst (feed_loop opts c p)" opts d]
  by (auto simp: feed_def same_sse_def)

lemma feed_same: "same_sse p q \<Longrightarrow> feed opts c p = (p, []) \<and> feed opts c q = (q, []) \<or> feed opts c p = feed opts c q"
  by (auto simp: same_sse_def feed_def)

lemma feed_all_same:
  "same_sse p q \<Longrightarrow> same_sse (fst (feed_all opts cs p)) (fst (feed_all opts cs q)) \<and>
   snd (feed_all opts cs p) = snd (feed_all opts cs q)"
proof (induction cs arbitrary: p q)
  case (Cons c cs)
  have "same_sse (fst (feed opts c p)) (fst (feed opts c q)) \<and> snd (feed opts c p) = snd (feed opts c q)"
    using feed_same [OF Cons.prems, of opts c] Cons.prems by (auto simp: same_sse_def)
  with Cons.IH [of "fst (feed opts c p)" "fst (feed opts c q)"] show ?case
    by (simp add: case_prod_beta Let_def)
qed simp

lemma feed_all_concat:
  "same_sse (fst (feed_all opts cs p)) (fst (feed opts (concat cs) p)) \<and>
   snd (feed_all opts cs p) = snd (feed opts (concat cs) p)"
proof (induction cs arbitrary: p)
  case Nil
  show ?case by (simp add: feed_def same_sse_def)
next
  case (Cons c cs)
  let ?q = "fst (feed opts c p)"
  from Cons.IH [of ?q] feed_append [of opts c "concat cs" p] show ?case
    by (auto simp: case_prod_beta Let_def same_sse_def)
qed

section \<open>Rendered events\<close>

lemma split_nl_nonempty: "split_nl s \<noteq> []"
  by (induction s) (auto split: list.splits)

lemma split_nl_join:
  "concat (map (\<lambda>l. l @ [NL]) (split_nl s)) = s @ [NL]"
proof (induction s)
  case (Cons c s)
  then show ?case using split_nl_nonempty [of s] by (cases "split_nl s") auto
qed simp

lemma split_nl_chars: "l \<in> set (split_nl s) \<Longrightarrow> NL \<notin> set l \<and> set l \<subseteq> set s"
proof (induction s arbitrary: l)
  case (Cons c s)
  show ?case
  proof (cases "split_nl s")
    case Nil
    then show ?thesis using split_nl_nonempty by blast
  next
    case (Cons m ms)
    with Cons.IH [of m] Cons.IH [of l] Cons.prems show ?thesis
      by (auto split: if_splits)
  qed
qed simp

lemma feed_loop_line:
  "NL \<notin> set l \<Longrightarrow> length (pending_line p) + length l \<le> max_line_bytes opts \<Longrightarrow>
   feed_loop opts (l @ rest) p = feed_loop opts rest (p\<lparr>pending_line := pending_line p @ l\<rparr>)"
  by (induction l arbitrary: p) auto

lemma feed_loop_full_line:
  assumes "NL \<notin> set l" "length l \<le> max_line_bytes opts" "pending_line p = []"
  shows "feed_loop opts (l @ NL # rest) p =
    (let (q, evs) = end_line opts (p\<lparr>pending_line := l\<rparr>); (r, evs') = feed_loop opts rest q
     in (r, evs @ evs'))"
  using assms by (simp add: feed_loop_line)

lemma strip_cr_id: "CR \<notin> set l \<Longrightarrow> strip_cr l = l"
  unfolding strip_cr_def by (metis last_in_set)

lemma split_field_colon:
  "CHR '':'' \<notin> set f \<Longrightarrow> split_field (f @ CHR '':'' # CHR '' '' # v) = (f, v)"
proof -
  assume "CHR '':'' \<notin> set f"
  then have "takeWhile (\<lambda>c. c \<noteq> CHR '':'') (f @ CHR '':'' # CHR '' '' # v) = f"
    by (subst takeWhile_append2) (auto dest: bspec)
  then show ?thesis by (simp add: split_field_def Let_def)
qed

lemma end_line_event:
  assumes "CR \<notin> set t" "\<not> sse_exceeded p"
  shows "end_line opts (p\<lparr>pending_line := ''event: '' @ t\<rparr>) = (p\<lparr>pending_line := [], event_type := t\<rparr>, [])"
  using assms split_field_colon [of "''event''" t]
  by (simp add: end_line_def strip_cr_id consume_field_def)

lemma end_line_data:
  assumes "CR \<notin> set l" "\<not> sse_exceeded p" "length (sse_data p) + length l + 1 \<le> max_event_bytes opts"
  shows "end_line opts (p\<lparr>pending_line := ''data: '' @ l\<rparr>) =
    (p\<lparr>pending_line := [], sse_data := sse_data p @ l @ [NL]\<rparr>, [])"
  using assms split_field_colon [of "''data''" l]
  by (simp add: end_line_def strip_cr_id consume_field_def)

lemma feed_loop_data_lines:
  assumes "\<forall>l \<in> set ls. NL \<notin> set l \<and> CR \<notin> set l \<and> length l + 6 \<le> max_line_bytes opts"
    and "length (sse_data p) + length (concat (map (\<lambda>l. l @ [NL]) ls)) \<le> max_event_bytes opts"
    and "\<not> sse_exceeded p" "pending_line p = []"
  shows "feed_loop opts (concat (map data_line ls) @ rest) p =
    feed_loop opts rest (p\<lparr>sse_data := sse_data p @ concat (map (\<lambda>l. l @ [NL]) ls)\<rparr>)"
  using assms
proof (induction ls arbitrary: p)
  case (Cons l ls)
  let ?p = "p\<lparr>pending_line := [], sse_data := sse_data p @ l @ [NL]\<rparr>"
  have "feed_loop opts (concat (map data_line (l # ls)) @ rest) p =
      feed_loop opts ((''data: '' @ l) @ NL # (concat (map data_line ls) @ rest)) p"
    by (simp add: data_line_def)
  also have "\<dots> = feed_loop opts (concat (map data_line ls) @ rest) ?p"
    using Cons.prems by (subst feed_loop_full_line) (auto simp: end_line_data [simplified] Let_def)
  also have "\<dots> = feed_loop opts rest (?p\<lparr>sse_data := sse_data ?p @ concat (map (\<lambda>l. l @ [NL]) ls)\<rparr>)"
    using Cons.prems by (intro Cons.IH) auto
  also have "\<dots> = feed_loop opts rest (p\<lparr>sse_data := sse_data p @ concat (map (\<lambda>l. l @ [NL]) (l # ls))\<rparr>)"
    using Cons.prems by (cases p) simp
  finally show ?case .
qed simp

lemma feed_loop_event:
  assumes "renderable opts ev"
  shows "feed_loop opts (render_event ev @ rest) sse_init =
    (let (r, evs) = feed_loop opts rest sse_init in (r, ev # evs))"
proof -
  let ?t = "ev_event ev" and ?ls = "split_nl (ev_data ev)"
  let ?p1 = "sse_init\<lparr>pending_line := [], event_type := ?t\<rparr>"
  let ?p2 = "?p1\<lparr>sse_data := ev_data ev @ [NL]\<rparr>"
  from assms have w: "NL \<notin> set ?t" "CR \<notin> set ?t" "length ?t + 7 \<le> max_line_bytes opts" "?t \<noteq> []"
    by (auto simp: renderable_def)
  have "feed_loop opts (render_event ev @ rest) sse_init =
      feed_loop opts ((''event: '' @ ?t) @ NL # (concat (map data_line ?ls) @ NL # rest)) sse_init"
    by (simp add: render_event_def)
  also have "\<dots> = feed_loop opts (concat (map data_line ?ls) @ NL # rest) ?p1"
    using w end_line_event [of ?t sse_init opts]
    by (subst feed_loop_full_line) (auto simp: Let_def sse_init_def)
  also have "\<dots> = feed_loop opts (NL # rest) ?p2"
    using assms split_nl_chars [of _ "ev_data ev"]
    by (subst feed_loop_data_lines) (auto simp: renderable_def split_nl_join sse_init_def)
  also have "\<dots> = (let (r, evs) = feed_loop opts rest sse_init in (r, ev # evs))"
    using w by (cases ev) (simp add: end_line_def strip_cr_def dispatch_def sse_init_def Let_def)
  finally show ?thesis .
qed

lemma feed_render:
  "list_all (renderable opts) evs \<Longrightarrow> feed opts (concat (map render_event evs)) sse_init = (sse_init, evs)"
proof (induction evs)
  case Nil
  show ?case by (simp add: feed_def)
next
  case (Cons ev evs)
  moreover have "\<not> sse_exceeded sse_init" by (simp add: sse_init_def)
  ultimately show ?case by (simp add: feed_def feed_loop_event)
qed

section \<open>Properties\<close>

text \<open>
  C16: however the bytes of a stream are cut into chunks, the parser reports the same events in
  the same order, sets the size flag in the same cases, and ends in the same state unless the flag
  is set.
\<close>

theorem feed_chunking_transparent:
  "concat cs = concat ds \<Longrightarrow>
   snd (feed_all opts cs p) = snd (feed_all opts ds p) \<and>
   sse_exceeded (fst (feed_all opts cs p)) = sse_exceeded (fst (feed_all opts ds p)) \<and>
   (\<not> sse_exceeded (fst (feed_all opts cs p)) \<longrightarrow> fst (feed_all opts cs p) = fst (feed_all opts ds p))"
  using feed_all_concat [of opts cs p] feed_all_concat [of opts ds p] by (auto simp: same_sse_def)

theorem feed_chunking_transparent_witness:
  "snd (feed_all default_sse_options [''da'', ''ta: x'' @ [NL], [NL]] sse_init) =
   snd (feed_all default_sse_options [''data: x'' @ [NL, NL]] sse_init)"
  using feed_chunking_transparent [of "[''da'', ''ta: x'' @ [NL], [NL]]" "[''data: x'' @ [NL, NL]]"
      default_sse_options sse_init] by simp

text \<open>
  Every chunking of the bytes of a list of events, each within the line and event bounds,
  reports exactly these events, and the parser is then back in its initial state.
\<close>

theorem feed_render_roundtrip:
  assumes "list_all (renderable opts) evs" and "concat chunks = concat (map render_event evs)"
  shows "feed_all opts chunks sse_init = (sse_init, evs)"
  using feed_all_concat [of opts chunks sse_init] feed_render [OF assms(1)] assms(2)
  by (auto simp: same_sse_def sse_init_def prod_eq_iff)

definition demo_event :: sse_event where
  "demo_event = \<lparr>ev_event = ''tick'', ev_data = ''a'' @ [NL] @ ''b''\<rparr>"

theorem feed_render_roundtrip_witness:
  "feed_all default_sse_options [''event: tick'' @ [NL] @ ''da'', ''ta: a'' @ [NL] @ ''data: b'' @ [NL, NL]] sse_init
     = (sse_init, [demo_event])"
  by (rule feed_render_roundtrip)
    (simp_all add: demo_event_def renderable_def default_sse_options_def render_event_def data_line_def)

text \<open>
  The buffers of the parser are bounded: whatever chunks arrive, the pending line never
  grows past the line bound and the data of the event being assembled never past the event bound.
\<close>

theorem sse_buffers_bounded:
  "sse_inv opts (fst (feed_all opts chunks sse_init))"
proof -
  have "fst (feed_all opts cs p) = fold (\<lambda>c p. fst (feed opts c p)) cs p" for cs p
    by (induction cs arbitrary: p) (simp_all add: case_prod_beta Let_def)
  moreover have "sse_inv opts sse_init" by (simp add: sse_inv_def sse_init_def)
  ultimately show ?thesis using sse.run_inv [of opts sse_init chunks] by (simp add: list_all_iff)
qed

end
