(* ===== verification/Core_Content.thy ===== *)
theory Core_Content
  imports Core_Error Perm_Rules
begin

text \<open>
  The value types every layer shares: \<^verbatim>\<open>core/content.hpp\<close>, \<^verbatim>\<open>core/message.hpp\<close>,
  \<^verbatim>\<open>core/role.hpp\<close>, \<^verbatim>\<open>core/stop_reason.hpp\<close>, \<^verbatim>\<open>core/tool_def.hpp\<close> and the turn
  identifiers of \<^verbatim>\<open>core/turn_id.cpp\<close>, whose hexadecimal spelling round-trips.
\<close>

section \<open>Content, messages and stop reasons\<close>

datatype content =
    TextContent string
  | ThinkingContent string "string option"
  | ToolUseContent string string string
  | ToolResultContent string string "string option" bool
  | ImageContent string string

definition holds_text :: "content \<Rightarrow> bool" where
  "holds_text c = (case c of TextContent _ \<Rightarrow> True | _ \<Rightarrow> False)"

definition holds_tool_use :: "content \<Rightarrow> bool" where
  "holds_tool_use c = (case c of ToolUseContent _ _ _ \<Rightarrow> True | _ \<Rightarrow> False)"

definition holds_thinking :: "content \<Rightarrow> bool" where
  "holds_thinking c = (case c of ThinkingContent _ _ \<Rightarrow> True | _ \<Rightarrow> False)"

definition holds_tool_result :: "content \<Rightarrow> bool" where
  "holds_tool_result c = (case c of ToolResultContent _ _ _ _ \<Rightarrow> True | _ \<Rightarrow> False)"

definition text_view :: "content \<Rightarrow> string option" where
  "text_view c = (case c of TextContent t \<Rightarrow> Some t | _ \<Rightarrow> None)"

datatype role = user_role | assistant_role | system_role | tool_role

definition role_name :: "role \<Rightarrow> string" where
  "role_name r = (case r of user_role \<Rightarrow> ''user'' | assistant_role \<Rightarrow> ''assistant''
     | system_role \<Rightarrow> ''system'' | tool_role \<Rightarrow> ''tool'')"

record message =
  msg_role :: role
  msg_blocks :: "content list"
  msg_created_at :: "int option"

definition user_text :: "string \<Rightarrow> message" where
  "user_text t = \<lparr>msg_role = user_role, msg_blocks = [TextContent t], msg_created_at = None\<rparr>"

definition assistant_text :: "string \<Rightarrow> message" where
  "assistant_text t = \<lparr>msg_role = assistant_role, msg_blocks = [TextContent t], msg_created_at = None\<rparr>"

datatype stop_reason = SR_end_turn | SR_max_tokens | SR_tool_use | SR_stop_sequence | SR_cancelled | SR_error

definition stop_reason_name :: "stop_reason \<Rightarrow> string" where
  "stop_reason_name r = (case r of SR_end_turn \<Rightarrow> ''end_turn'' | SR_max_tokens \<Rightarrow> ''max_tokens''
     | SR_tool_use \<Rightarrow> ''tool_use'' | SR_stop_sequence \<Rightarrow> ''stop_sequence''
     | SR_cancelled \<Rightarrow> ''cancelled'' | SR_error \<Rightarrow> ''error'')"

text \<open>
  \<^verbatim>\<open>parse_enum\<close> walks the enumerators in declaration order and keeps the last one whose
  spelling is the text.
\<close>

definition parse_enum :: "('e \<Rightarrow> string) \<Rightarrow> 'e list \<Rightarrow> string \<Rightarrow> 'e option" where
  "parse_enum name vals t = fold (\<lambda>e r. if t = name e then Some e else r) vals None"

definition stop_reasons :: "stop_reason list" where
  "stop_reasons = [SR_end_turn, SR_max_tokens, SR_tool_use, SR_stop_sequence, SR_cancelled, SR_error]"

definition parse_stop_reason :: "string \<Rightarrow> stop_reason option" where
  "parse_stop_reason = parse_enum stop_reason_name stop_reasons"

lemma parse_enum_name:
  assumes "inj_on name (set vals)" "e \<in> set vals"
  shows "parse_enum name vals (name e) = Some e"
proof -
  have "inj_on name (set vs) \<Longrightarrow> e \<in> set vs \<or> r = Some e \<Longrightarrow> inj_on name (insert e (set vs)) \<Longrightarrow>
      fold (\<lambda>x r. if name e = name x then Some x else r) vs r = Some e" for vs r
    by (induction vs arbitrary: r) (auto simp: inj_on_def)
  from this [of vals None] assms show ?thesis
    by (simp add: parse_enum_def insert_absorb)
qed

lemma parse_enum_SomeD:
  "parse_enum name vals t = Some e \<Longrightarrow> e \<in> set vals \<and> name e = t"
proof -
  have "fold (\<lambda>x r. if t = name x then Some x else r) vs r = Some e \<Longrightarrow> r = Some e \<or> e \<in> set vs \<and> name e = t" for vs r
    by (induction vs arbitrary: r) (auto split: if_splits)
  then show "parse_enum name vals t = Some e \<Longrightarrow> e \<in> set vals \<and> name e = t"
    by (fastforce simp: parse_enum_def)
qed

lemma parse_stop_reason_name [simp]: "parse_stop_reason (stop_reason_name r) = Some r"
  unfolding parse_stop_reason_def
  by (rule parse_enum_name) (cases r; auto simp: inj_on_def stop_reasons_def stop_reason_name_def)+

record tool_def =
  tool_name :: string
  tool_description :: string
  input_schema_json :: string
  required_capabilities :: "capability list"

definition with_no_input :: "string \<Rightarrow> string \<Rightarrow> tool_def" where
  "with_no_input name description =
     \<lparr>tool_name = name, tool_description = description,
      input_schema_json =
        ''{\"type\":\"object\",\"properties\":{},\"additionalProperties\":false}'',
      required_capabilities = []\<rparr>"

section \<open>Turn identifiers\<close>

text \<open>A \<^verbatim>\<open>TurnId\<close> is an array of sixteen bytes.\<close>

type_synonym turn_id = "8 word list"

definition turn_id_size :: nat where "turn_id_size = 16"

definition hex_digits :: string where "hex_digits = ''0123456789abcdef''"

definition hex_find :: "char \<Rightarrow> nat option" where
  "hex_find c = map_option fst (find_idx (\<lambda>d. d = c) hex_digits)"

definition is_zero_turn_id :: "turn_id \<Rightarrow> bool" where
  "is_zero_turn_id tid = list_all (\<lambda>b. b = 0) tid"

definition turn_id_error :: core_error where
  "turn_id_error = err_invalid_argument ''turn id must contain 32 lowercase hexadecimal characters''"

definition hex_pair :: "char \<Rightarrow> char \<Rightarrow> 8 word option" where
  "hex_pair h l = (case (hex_find h, hex_find l) of
     (Some high, Some low) \<Rightarrow> Some (or (push_bit 4 (of_nat high)) (of_nat low))
   | _ \<Rightarrow> None)"

fun parse_hex_loop :: "string \<Rightarrow> turn_id result" where
  "parse_hex_loop (h # l # rest) = (case hex_pair h l of
      None \<Rightarrow> Inl turn_id_error
    | Some b \<Rightarrow> rbind (parse_hex_loop rest) (\<lambda>bs. Inr (b # bs)))"
| "parse_hex_loop _ = Inr []"

definition parse_turn_id_hex :: "string \<Rightarrow> turn_id result" where
  "parse_turn_id_hex t =
     (if length t \<noteq> turn_id_size * 2 then Inl turn_id_error else parse_hex_loop t)"

definition hex_byte :: "8 word \<Rightarrow> string" where
  "hex_byte b = [hex_digits ! unat (drop_bit 4 b), hex_digits ! unat (and b 0x0F)]"

definition format_turn_id_hex :: "turn_id \<Rightarrow> string" where
  "format_turn_id_hex tid = concat (map hex_byte tid)"

definition u64_be :: "64 word \<Rightarrow> turn_id" where
  "u64_be v = map (\<lambda>i. ucast (and (drop_bit ((7 - i) * 8) v) 0xFF)) [0..<8]"

text \<open>
  \<^verbatim>\<open>generate_turn_id\<close> with the entropy, the counter and the clock reading as arguments; \<open>None\<close>
  for the entropy is a throwing \<^verbatim>\<open>std::random_device\<close>.
\<close>

definition generate_turn_id :: "(64 word + string) \<Rightarrow> 64 word \<Rightarrow> 64 word \<Rightarrow> turn_id result" where
  "generate_turn_id source counter timestamp = (case source of
      Inr reason \<Rightarrow> Inl (with_ctx ''reason'' reason (err_internal ''failed to generate turn id''))
    | Inl entropy \<Rightarrow>
        let t0 = u64_be (xor entropy (word_rotl 17 timestamp))
                 @ u64_be (xor (xor counter (word_rotl 31 entropy)) timestamp);
            t1 = t0[6 := or (and (t0 ! 6) 0x0F) 0x40];
            t2 = t1[8 := or (and (t1 ! 8) 0x3F) 0x80]
        in Inr (if is_zero_turn_id t2 then t2[15 := 1] else t2))"

section \<open>The hexadecimal round trip\<close>

lemma hex_digits_distinct: "distinct hex_digits"
  by (simp add: hex_digits_def)

lemma length_hex_digits [simp]: "length hex_digits = 16"
  by (simp add: hex_digits_def)

lemma hex_find_SomeD: "hex_find c = Some n \<Longrightarrow> n < 16 \<and> hex_digits ! n = c"
  by (auto simp: hex_find_def dest: find_idx_SomeD)

lemma hex_find_nth:
  assumes "n < 16"
  shows "hex_find (hex_digits ! n) = Some n"
proof (cases "hex_find (hex_digits ! n)")
  case None
  then show ?thesis using assms by (auto simp: hex_find_def find_idx_None_iff)
next
  case (Some m)
  then show ?thesis
    using hex_find_SomeD [OF Some] assms nth_eq_iff_index_eq [OF hex_digits_distinct, of m n] by simp
qed

lemma nibbles_of_byte:
  fixes b :: "8 word"
  shows "unat (drop_bit 4 b) < 16" "unat (and b 0x0F) < 16"
    "or (push_bit 4 (of_nat (unat (drop_bit 4 b)))) (of_nat (unat (and b 0x0F))) = b"
proof -
  have b: "unat b < 256" using unsigned_less [of b] by simp
  have "unat (drop_bit 4 b) = unat b div 16" by (simp add: drop_bit_eq_div unat_div)
  with b show "unat (drop_bit 4 b) < 16" by (simp add: less_mult_imp_div_less)
  have m: "and b 0x0F = take_bit 4 b" by (simp add: take_bit_eq_mask mask_eq_exp_minus_1)
  have "unat (take_bit 4 b) = unat b mod 16" by (simp add: take_bit_eq_mod unat_mod)
  then show "unat (and b 0x0F) < 16" by (simp add: m)
  show "or (push_bit 4 (of_nat (unat (drop_bit 4 b)))) (of_nat (unat (and b 0x0F))) = b"
    unfolding m of_nat_unat ucast_id
    by (rule bit_word_eqI) (auto simp: bit_simps)
qed

lemma hex_pair_byte: "hex_pair (hex_digits ! unat (drop_bit 4 b)) (hex_digits ! unat (and b 0x0F)) = Some b"
  by (simp add: hex_pair_def hex_find_nth nibbles_of_byte del: of_nat_unat)

lemma parse_hex_loop_format: "parse_hex_loop (format_turn_id_hex tid) = Inr tid"
  by (induction tid) (simp_all add: format_turn_id_hex_def hex_byte_def hex_pair_byte)

lemma length_format_turn_id_hex: "length (format_turn_id_hex tid) = 2 * length tid"
  by (induction tid) (simp_all add: format_turn_id_hex_def hex_byte_def)

lemma byte_of_nibbles:
  "\<forall>h \<in> set [0..<16]. \<forall>l \<in> set [0..<16].
     let b = or (push_bit 4 (of_nat h)) (of_nat l) :: 8 word in unat (drop_bit 4 b) = h \<and> unat (and b 0x0F) = l"
  by code_simp

lemma hex_pair_format: "hex_pair h l = Some b \<Longrightarrow> hex_byte b = [h, l]"
  using byte_of_nibbles
  by (auto simp: hex_pair_def hex_byte_def Let_def dest!: hex_find_SomeD split: option.splits)

lemma parse_hex_loop_SomeD:
  "parse_hex_loop t = Inr tid \<Longrightarrow> even (length t) \<Longrightarrow> format_turn_id_hex tid = t"
  by (induction t arbitrary: tid rule: parse_hex_loop.induct)
    (auto simp: format_turn_id_hex_def rbind_Inr_iff hex_pair_format split: option.splits)

section \<open>Properties\<close>

text \<open>
  The hexadecimal spelling of a turn identifier is canonical: parsing accepts a text
  exactly when it is the spelling of a sixteen-byte identifier, and returns that identifier.
\<close>

theorem turn_id_hex_roundtrip:
  "parse_turn_id_hex t = Inr tid \<longleftrightarrow> length tid = 16 \<and> t = format_turn_id_hex tid"
proof
  assume "parse_turn_id_hex t = Inr tid"
  then have "length t = 32" "parse_hex_loop t = Inr tid"
    by (auto simp: parse_turn_id_hex_def turn_id_size_def split: if_splits)
  then show "length tid = 16 \<and> t = format_turn_id_hex tid"
    using parse_hex_loop_SomeD [of t tid] length_format_turn_id_hex [of tid] by simp
next
  assume "length tid = 16 \<and> t = format_turn_id_hex tid"
  then show "parse_turn_id_hex t = Inr tid"
    by (simp add: parse_turn_id_hex_def turn_id_size_def parse_hex_loop_format length_format_turn_id_hex)
qed

text \<open>
  A generated identifier has sixteen bytes, the version and variant bits of a random UUID,
  and is never zero, whatever the entropy, the counter and the clock are.
\<close>

theorem generate_turn_id_shape:
  "\<exists>tid. generate_turn_id (Inl entropy) counter timestamp = Inr tid \<and> length tid = 16 \<and>
     and (tid ! 6) 0xF0 = 0x40 \<and> and (tid ! 8) 0xC0 = 0x80 \<and> \<not> is_zero_turn_id tid"
proof -
  define t0 where "t0 = u64_be (xor entropy (word_rotl 17 timestamp))
      @ u64_be (xor (xor counter (word_rotl 31 entropy)) timestamp)"
  define t2 where "t2 = t0[6 := or (and (t0 ! 6) 0x0F) 0x40, 8 := or (and (t0 ! 8) 0x3F) 0x80]"
  have len: "length t0 = 16" by (simp add: t0_def u64_be_def)
  have m6: "and (or (and x 0x0F) 0x40) 0xF0 = 0x40" and m8: "and (or (and x 0x3F) 0x80) 0xC0 = 0x80"
    for x :: "8 word"
    by (simp_all add: and.assoc bit.conj_disj_distrib2)
  have b: "and (t2 ! 6) 0xF0 = 0x40" "and (t2 ! 8) 0xC0 = 0x80" "length t2 = 16"
    using len m6 m8 by (simp_all add: t2_def)
  then have nz: "\<not> is_zero_turn_id t2"
    by (force simp: is_zero_turn_id_def list_all_length intro: exI [of _ 6])
  have "generate_turn_id (Inl entropy) counter timestamp = Inr t2"
    using nz len by (simp add: generate_turn_id_def t2_def Let_def flip: t0_def)
  with b nz show ?thesis by blast
qed

end
