(* ===== verification/Json_Value.thy ===== *)
theory Json_Value
  imports Core_Error
begin

text \<open>
  The JSON values the sources handle through the nlohmann library, and the accessors they use.
  Parsing and printing are the library's: \<open>json_lib\<close> carries them as the two functions
  \<^verbatim>\<open>json::parse\<close> (its exception text on the left) and \<^verbatim>\<open>dump\<close>. The library keeps integers
  in two representations, unsigned for the non-negative ones it parses and signed otherwise; a
  floating-point number is kept by its spelling, since the modelled code only asks whether a value
  is one.
\<close>

datatype json =
    JNull
  | JBool bool
  | JUnsigned "64 word"
  | JInteger int
  | JFloat string
  | JString string
  | JArray "json list"
  | JObject "(string \<times> json) list"

record json_lib =
  json_parse :: "string \<Rightarrow> string + json"
  json_dump :: "json \<Rightarrow> string"

fun is_object :: "json \<Rightarrow> bool" where
  "is_object (JObject _) = True"
| "is_object _ = False"

fun is_array :: "json \<Rightarrow> bool" where
  "is_array (JArray _) = True"
| "is_array _ = False"

fun is_string :: "json \<Rightarrow> bool" where
  "is_string (JString _) = True"
| "is_string _ = False"

fun is_boolean :: "json \<Rightarrow> bool" where
  "is_boolean (JBool _) = True"
| "is_boolean _ = False"

fun is_number :: "json \<Rightarrow> bool" where
  "is_number (JUnsigned _) = True"
| "is_number (JInteger _) = True"
| "is_number (JFloat _) = True"
| "is_number _ = False"

fun json_items :: "json \<Rightarrow> (string \<times> json) list" where
  "json_items (JObject kvs) = kvs"
| "json_items _ = []"

fun json_elements :: "json \<Rightarrow> json list" where
  "json_elements (JArray xs) = xs"
| "json_elements _ = []"

text \<open>\<^verbatim>\<open>member(object, key)\<close> of the provider sources: null for a value that is no object.\<close>

fun json_member :: "json \<Rightarrow> string \<Rightarrow> json option" where
  "json_member (JObject kvs) key = map_of kvs key"
| "json_member _ key = None"

definition object_member :: "json \<Rightarrow> string \<Rightarrow> json option" where
  "object_member j key = (case json_member j key of
     Some v \<Rightarrow> if is_object v then Some v else None | None \<Rightarrow> None)"

definition string_or_empty :: "json \<Rightarrow> string \<Rightarrow> string" where
  "string_or_empty j key = (case json_member j key of Some (JString s) \<Rightarrow> s | _ \<Rightarrow> [])"

definition u64_or_zero :: "json \<Rightarrow> string \<Rightarrow> 64 word" where
  "u64_or_zero j key = (case json_member j key of
     Some (JUnsigned n) \<Rightarrow> n
   | Some (JInteger i) \<Rightarrow> if 0 \<le> i then of_int i else 0
   | _ \<Rightarrow> 0)"

text \<open>\<^verbatim>\<open>out[key] = value\<close> on an object, as its list of members.\<close>

fun set_member :: "string \<Rightarrow> json \<Rightarrow> (string \<times> json) list \<Rightarrow> (string \<times> json) list" where
  "set_member k v [] = [(k, v)]"
| "set_member k v ((k', v') # kvs) = (if k = k' then (k, v) # kvs else (k', v') # set_member k v kvs)"

lemma map_of_set_member [simp]: "map_of (set_member k v kvs) = (map_of kvs)(k \<mapsto> v)"
  by (induction kvs) auto

lemma json_member_mem: "json_member j key = Some v \<Longrightarrow> (key, v) \<in> set (json_items j)"
  by (cases j) (auto dest: map_of_SomeD)

lemma size_json_member: "json_member j key = Some v \<Longrightarrow> size v < size j"
proof (cases j)
  case (JObject kvs)
  assume "json_member j key = Some v"
  with JObject have "(key, v) \<in> set kvs" by (auto dest: map_of_SomeD)
  then have "size_prod (\<lambda>_. 0) size (key, v) \<le> size_list (size_prod (\<lambda>_. 0) size) kvs"
    by (rule size_list_estimation') simp
  with JObject show ?thesis by simp
qed auto

lemma object_member_SomeD: "object_member j key = Some v \<Longrightarrow> json_member j key = Some v \<and> is_object v"
  by (auto simp: object_member_def split: option.splits if_splits)

end
