(* ===== verification/Provider_Response.thy ===== *)
theory Provider_Response
  imports Core_Content Json_Value
begin

text \<open>
  \<^verbatim>\<open>oran/provider/types.hpp\<close>, \<^verbatim>\<open>system.hpp\<close> and \<^verbatim>\<open>oran-provider/protocol_response.cpp\<close>: the
  request and response values of the provider layer and the decoding of complete response bodies
  for the two protocols that are implemented.
\<close>

section \<open>Data\<close>

datatype protocol_kind =
    anthropic_messages | openai_chat_completions | openai_responses
  | gemini_generate_content | custom_openai_compatible

definition protocol_name :: "protocol_kind \<Rightarrow> string" where
  "protocol_name p = (case p of anthropic_messages \<Rightarrow> ''anthropic_messages''
     | openai_chat_completions \<Rightarrow> ''openai_chat_completions''
     | openai_responses \<Rightarrow> ''openai_responses''
     | gemini_generate_content \<Rightarrow> ''gemini_generate_content''
     | custom_openai_compatible \<Rightarrow> ''custom_openai_compatible'')"

text \<open>
  Prices and cost estimates are \<^verbatim>\<open>double\<close>s; the type of amounts is a parameter \<open>'c\<close> of the
  records that carry them.
\<close>

record 'c provider_pricing =
  input_per_million :: "'c option"
  output_per_million :: "'c option"
  cache_creation_per_million :: "'c option"
  cache_read_per_million :: "'c option"

definition pricing_empty :: "'c provider_pricing \<Rightarrow> bool" where
  "pricing_empty p \<longleftrightarrow> input_per_million p = None \<and> output_per_million p = None \<and>
     cache_creation_per_million p = None \<and> cache_read_per_million p = None"

record cache_options =
  cache_enabled :: bool
  min_prefix_bytes :: nat

record 'c model_target =
  tgt_profile :: string
  tgt_model :: string
  tgt_protocol :: protocol_kind
  tgt_thinking_budget :: "32 word option"
  tgt_cache :: "cache_options option"
  tgt_pricing :: "'c provider_pricing"

record 'c usage =
  input_tokens :: "64 word"
  output_tokens :: "64 word"
  cache_creation_tokens :: "64 word"
  cache_read_tokens :: "64 word"
  cost_estimate :: "'c option"

definition usage_zero :: "'c usage" where
  "usage_zero = \<lparr>input_tokens = 0, output_tokens = 0, cache_creation_tokens = 0,
     cache_read_tokens = 0, cost_estimate = None\<rparr>"

record 'c response =
  resp_blocks :: "content list"
  resp_stop_reason :: stop_reason
  resp_usage :: "'c usage"
  resp_model_used :: "string option"

section \<open>Field helpers\<close>

definition protocol_error :: "string \<Rightarrow> 'c model_target \<Rightarrow> core_error" where
  "protocol_error m t = with_ctx ''protocol'' (protocol_name (tgt_protocol t))
     (with_ctx ''model'' (tgt_model t) (with_ctx ''profile'' (tgt_profile t) (err_config m)))"

definition response_parse_error :: "string \<Rightarrow> string \<Rightarrow> 'c model_target \<Rightarrow> core_error" where
  "response_parse_error m field t = with_ctx ''protocol'' (protocol_name (tgt_protocol t))
     (with_ctx ''field'' field (err_parsing m))"

definition parse_json_object :: "json_lib \<Rightarrow> string \<Rightarrow> string \<Rightarrow> 'c model_target \<Rightarrow> json result" where
  "parse_json_object lib s field t = (case json_parse lib s of
     Inl detail \<Rightarrow> Inl (with_ctx ''detail'' detail
       (response_parse_error ''provider protocol response field is not valid JSON'' field t))
   | Inr j \<Rightarrow> if is_object j then Inr j
       else Inl (response_parse_error ''provider protocol response field must be a JSON object'' field t))"

definition parse_body_json :: "json_lib \<Rightarrow> string \<Rightarrow> 'c model_target \<Rightarrow> json result" where
  "parse_body_json lib s t = map_error (with_ctx ''scope'' ''response'') (parse_json_object lib s ''body'' t)"

definition required_string :: "json \<Rightarrow> string \<Rightarrow> string \<Rightarrow> 'c model_target \<Rightarrow> string result" where
  "required_string obj key field t = (case json_member obj key of
     Some (JString s) \<Rightarrow> Inr s
   | _ \<Rightarrow> Inl (response_parse_error ''provider protocol response field must be a string'' field t))"

definition optional_string :: "json \<Rightarrow> string \<Rightarrow> string \<Rightarrow> 'c model_target \<Rightarrow> string result" where
  "optional_string obj key field t = (case json_member obj key of
     None \<Rightarrow> Inr []
   | Some JNull \<Rightarrow> Inr []
   | Some (JString s) \<Rightarrow> Inr s
   | _ \<Rightarrow> Inl (response_parse_error ''provider protocol response field must be a string'' field t))"

definition unsigned_integer_value :: "json \<Rightarrow> string \<Rightarrow> 'c model_target \<Rightarrow> 64 word result" where
  "unsigned_integer_value v field t =
     (let e = Inl (response_parse_error ''provider protocol response field must be a non-negative integer'' field t)
      in case v of JUnsigned n \<Rightarrow> Inr n
       | JInteger i \<Rightarrow> if 0 \<le> i then Inr (of_int i) else e
       | _ \<Rightarrow> e)"

definition optional_u64 :: "json \<Rightarrow> string \<Rightarrow> string \<Rightarrow> 'c model_target \<Rightarrow> 64 word result" where
  "optional_u64 obj key field t = (case json_member obj key of
     None \<Rightarrow> Inr 0
   | Some JNull \<Rightarrow> Inr 0
   | Some v \<Rightarrow> unsigned_integer_value v field t)"

definition required_array :: "json \<Rightarrow> string \<Rightarrow> string \<Rightarrow> 'c model_target \<Rightarrow> json list result" where
  "required_array obj key field t = (case json_member obj key of
     Some (JArray xs) \<Rightarrow> Inr xs
   | _ \<Rightarrow> Inl (response_parse_error ''provider protocol response field must be an array'' field t))"

definition anthropic_stop_reason :: "string \<Rightarrow> stop_reason" where
  "anthropic_stop_reason r = (case parse_stop_reason r of Some x \<Rightarrow> x | None \<Rightarrow> SR_error)"

text \<open>The field names \<^verbatim>\<open>content[i].key\<close> and \<^verbatim>\<open>output[i].key\<close>.\<close>

definition indexed :: "string \<Rightarrow> nat \<Rightarrow> string \<Rightarrow> string" where
  "indexed base i sfx = base @ ''['' @ show_nat i @ '']'' @ sfx"

definition none_if_empty :: "string \<Rightarrow> string option" where
  "none_if_empty s = (if s = [] then None else Some s)"

section \<open>Anthropic bodies\<close>

definition anthropic_content_block :: "json_lib \<Rightarrow> json \<Rightarrow> nat \<Rightarrow> 'c model_target \<Rightarrow> content result" where
  "anthropic_content_block lib block i t =
     (if \<not> is_object block
      then Inl (response_parse_error ''anthropic content block must be an object'' (indexed ''content'' i '''') t)
      else rbind (required_string block ''type'' (indexed ''content'' i ''.type'') t) (\<lambda>type.
        if type = ''text'' then
          rbind (required_string block ''text'' (indexed ''content'' i ''.text'') t) (\<lambda>s.
            Inr (TextContent s))
        else if type = ''thinking'' then
          rbind (required_string block ''thinking'' (indexed ''content'' i ''.thinking'') t) (\<lambda>thinking.
          rbind (optional_string block ''signature'' (indexed ''content'' i ''.signature'') t) (\<lambda>signature.
            Inr (ThinkingContent thinking (none_if_empty signature))))
        else if type = ''tool_use'' then
          rbind (required_string block ''id'' (indexed ''content'' i ''.id'') t) (\<lambda>uid.
          rbind (required_string block ''name'' (indexed ''content'' i ''.name'') t) (\<lambda>name.
            case object_member block ''input'' of
              None \<Rightarrow> Inl (with_ctx ''tool'' name (with_ctx ''tool_use_id'' uid
                (response_parse_error ''anthropic tool input must be a JSON object'' (indexed ''content'' i ''.input'') t)))
            | Some input \<Rightarrow> Inr (ToolUseContent uid name (json_dump lib input))))
        else Inl (with_ctx ''type'' type
          (response_parse_error ''anthropic content block type is not supported'' (indexed ''content'' i ''.type'') t))))"

definition anthropic_usage :: "json \<Rightarrow> 'c model_target \<Rightarrow> 'c usage result" where
  "anthropic_usage body t = (case json_member body ''usage'' of
     None \<Rightarrow> Inr usage_zero
   | Some JNull \<Rightarrow> Inr usage_zero
   | Some u \<Rightarrow> if \<not> is_object u
       then Inl (response_parse_error ''anthropic usage field must be an object'' ''usage'' t)
       else
         rbind (optional_u64 u ''input_tokens'' ''usage.input_tokens'' t) (\<lambda>inp.
         rbind (optional_u64 u ''output_tokens'' ''usage.output_tokens'' t) (\<lambda>out.
         rbind (optional_u64 u ''cache_creation_input_tokens'' ''usage.cache_creation_input_tokens'' t) (\<lambda>cc.
         rbind (optional_u64 u ''cache_read_input_tokens'' ''usage.cache_read_input_tokens'' t) (\<lambda>cr.
           Inr \<lparr>input_tokens = inp, output_tokens = out, cache_creation_tokens = cc,
                cache_read_tokens = cr, cost_estimate = None\<rparr>)))))"

fun anthropic_blocks :: "json_lib \<Rightarrow> json list \<Rightarrow> nat \<Rightarrow> 'c model_target \<Rightarrow> content list result" where
  "anthropic_blocks lib [] i t = Inr []"
| "anthropic_blocks lib (b # bs) i t =
     rbind (anthropic_content_block lib b i t) (\<lambda>c.
     rbind (anthropic_blocks lib bs (Suc i) t) (\<lambda>cs. Inr (c # cs)))"

definition decode_anthropic_response :: "json_lib \<Rightarrow> string \<Rightarrow> 'c model_target \<Rightarrow> 'c response result" where
  "decode_anthropic_response lib body_json t =
     rbind (parse_body_json lib body_json t) (\<lambda>body.
     rbind (required_array body ''content'' ''content'' t) (\<lambda>cont.
     rbind (anthropic_blocks lib cont 0 t) (\<lambda>blocks.
     rbind (required_string body ''stop_reason'' ''stop_reason'' t) (\<lambda>stop.
     rbind (anthropic_usage body t) (\<lambda>u.
     rbind (optional_string body ''model'' ''model'' t) (\<lambda>model.
       Inr \<lparr>resp_blocks = blocks, resp_stop_reason = anthropic_stop_reason stop,
            resp_usage = u, resp_model_used = none_if_empty model\<rparr>))))))"

section \<open>OpenAI Responses bodies\<close>

definition openai_message_block :: "json \<Rightarrow> nat \<Rightarrow> nat \<Rightarrow> 'c model_target \<Rightarrow> content result" where
  "openai_message_block block i k t =
     (let at = (\<lambda>sfx. indexed (indexed ''output'' i ''.content'') k sfx) in
      if \<not> is_object block
      then Inl (response_parse_error ''openai message content block must be an object'' (at '''') t)
      else rbind (required_string block ''type'' (at ''.type'') t) (\<lambda>type.
        if type = ''output_text'' then
          rbind (required_string block ''text'' (at ''.text'') t) (\<lambda>s. Inr (TextContent s))
        else Inl (with_ctx ''type'' type
          (response_parse_error ''openai message content block type is not supported'' (at ''.type'') t))))"

fun openai_message_blocks :: "json list \<Rightarrow> nat \<Rightarrow> nat \<Rightarrow> 'c model_target \<Rightarrow> content list result" where
  "openai_message_blocks [] i k t = Inr []"
| "openai_message_blocks (b # bs) i k t =
     rbind (openai_message_block b i k t) (\<lambda>c.
     rbind (openai_message_blocks bs i (Suc k) t) (\<lambda>cs. Inr (c # cs)))"

definition append_openai_message_content :: "json \<Rightarrow> nat \<Rightarrow> content list \<Rightarrow> 'c model_target \<Rightarrow> content list result" where
  "append_openai_message_content item i blocks t =
     rbind (optional_string item ''role'' (indexed ''output'' i ''.role'') t) (\<lambda>role.
       if role \<noteq> [] \<and> role \<noteq> ''assistant''
       then Inl (with_ctx ''role'' role
         (response_parse_error ''openai response message role is not supported'' (indexed ''output'' i ''.role'') t))
       else rbind (required_array item ''content'' (indexed ''output'' i ''.content'') t) (\<lambda>cont.
         rbind (openai_message_blocks cont i 0 t) (\<lambda>cs. Inr (blocks @ cs))))"

fun openai_summary_blocks :: "json list \<Rightarrow> nat \<Rightarrow> nat \<Rightarrow> 'c model_target \<Rightarrow> content list result" where
  "openai_summary_blocks [] i k t = Inr []"
| "openai_summary_blocks (e # es) i k t =
     (let at = (\<lambda>sfx. indexed (indexed ''output'' i ''.summary'') k sfx) in
      if \<not> is_object e
      then Inl (response_parse_error ''openai reasoning summary entry must be an object'' (at '''') t)
      else rbind (required_string e ''type'' (at ''.type'') t) (\<lambda>type.
        if type \<noteq> ''summary_text'' then openai_summary_blocks es i (Suc k) t
        else rbind (required_string e ''text'' (at ''.text'') t) (\<lambda>s.
          rbind (openai_summary_blocks es i (Suc k) t) (\<lambda>cs. Inr (ThinkingContent s None # cs)))))"

definition append_openai_reasoning :: "json \<Rightarrow> nat \<Rightarrow> content list \<Rightarrow> 'c model_target \<Rightarrow> content list result" where
  "append_openai_reasoning item i blocks t = (case json_member item ''summary'' of
     None \<Rightarrow> Inr blocks
   | Some JNull \<Rightarrow> Inr blocks
   | Some (JArray es) \<Rightarrow> rbind (openai_summary_blocks es i 0 t) (\<lambda>cs. Inr (blocks @ cs))
   | _ \<Rightarrow> Inl (response_parse_error ''openai reasoning summary must be an array'' (indexed ''output'' i ''.summary'') t))"

definition append_openai_function_call :: "json_lib \<Rightarrow> json \<Rightarrow> nat \<Rightarrow> content list \<Rightarrow> 'c model_target \<Rightarrow> content list result" where
  "append_openai_function_call lib item i blocks t =
     rbind (required_string item ''call_id'' (indexed ''output'' i ''.call_id'') t) (\<lambda>call_id.
     rbind (required_string item ''name'' (indexed ''output'' i ''.name'') t) (\<lambda>name.
     rbind (required_string item ''arguments'' (indexed ''output'' i ''.arguments'') t) (\<lambda>arguments.
     rbind (map_error (\<lambda>e. with_ctx ''tool'' name (with_ctx ''tool_use_id'' call_id e))
         (parse_json_object lib arguments (indexed ''output'' i ''.arguments'') t)) (\<lambda>parsed.
       Inr (blocks @ [ToolUseContent call_id name (json_dump lib parsed)])))))"

definition openai_usage :: "json \<Rightarrow> 'c model_target \<Rightarrow> 'c usage result" where
  "openai_usage body t = (case json_member body ''usage'' of
     None \<Rightarrow> Inr usage_zero
   | Some JNull \<Rightarrow> Inr usage_zero
   | Some u \<Rightarrow> if \<not> is_object u
       then Inl (response_parse_error ''openai usage field must be an object'' ''usage'' t)
       else
         rbind (optional_u64 u ''input_tokens'' ''usage.input_tokens'' t) (\<lambda>inp.
         rbind (optional_u64 u ''output_tokens'' ''usage.output_tokens'' t) (\<lambda>out.
         rbind (case json_member u ''input_tokens_details'' of
             None \<Rightarrow> Inr 0
           | Some JNull \<Rightarrow> Inr 0
           | Some d \<Rightarrow> if \<not> is_object d
               then Inl (response_parse_error ''openai input token details must be an object''
                 ''usage.input_tokens_details'' t)
               else optional_u64 d ''cached_tokens'' ''usage.input_tokens_details.cached_tokens'' t) (\<lambda>cr.
           Inr \<lparr>input_tokens = inp, output_tokens = out, cache_creation_tokens = 0,
                cache_read_tokens = cr, cost_estimate = None\<rparr>))))"

definition openai_status_stop_reason :: "string \<Rightarrow> bool \<Rightarrow> json \<Rightarrow> stop_reason" where
  "openai_status_stop_reason status has_tool_use body =
     (if status = ''completed'' then (if has_tool_use then SR_tool_use else SR_end_turn)
      else if status = ''cancelled'' then SR_cancelled
      else if status = ''incomplete'' then
        (case object_member body ''incomplete_details'' of
           Some d \<Rightarrow> if json_member d ''reason'' = Some (JString ''max_output_tokens'')
             then SR_max_tokens else SR_error
         | None \<Rightarrow> SR_error)
      else SR_error)"

text \<open>The loop over the output items, with the blocks so far and whether a tool call was seen.\<close>

fun openai_items :: "json_lib \<Rightarrow> json list \<Rightarrow> nat \<Rightarrow> content list \<Rightarrow> bool \<Rightarrow> 'c model_target \<Rightarrow> (content list \<times> bool) result" where
  "openai_items lib [] i blocks tool_seen t = Inr (blocks, tool_seen)"
| "openai_items lib (item # items) i blocks tool_seen t =
     (if \<not> is_object item
      then Inl (response_parse_error ''openai output item must be an object'' (indexed ''output'' i '''') t)
      else rbind (required_string item ''type'' (indexed ''output'' i ''.type'') t) (\<lambda>type.
        if type = ''message'' then
          rbind (append_openai_message_content item i blocks t) (\<lambda>bs. openai_items lib items (Suc i) bs tool_seen t)
        else if type = ''reasoning'' then
          rbind (append_openai_reasoning item i blocks t) (\<lambda>bs. openai_items lib items (Suc i) bs tool_seen t)
        else if type = ''function_call'' then
          rbind (append_openai_function_call lib item i blocks t) (\<lambda>bs. openai_items lib items (Suc i) bs True t)
        else Inl (with_ctx ''type'' type
          (response_parse_error ''openai output item type is not supported'' (indexed ''output'' i ''.type'') t))))"

definition decode_openai_response :: "json_lib \<Rightarrow> string \<Rightarrow> 'c model_target \<Rightarrow> 'c response result" where
  "decode_openai_response lib body_json t =
     rbind (parse_body_json lib body_json t) (\<lambda>body.
     rbind (required_array body ''output'' ''output'' t) (\<lambda>output.
     rbind (openai_items lib output 0 [] False t) (\<lambda>(blocks, has_tool_use).
     rbind (required_string body ''status'' ''status'' t) (\<lambda>status.
     rbind (openai_usage body t) (\<lambda>u.
     rbind (optional_string body ''model'' ''model'' t) (\<lambda>model.
       Inr \<lparr>resp_blocks = blocks, resp_stop_reason = openai_status_stop_reason status has_tool_use body,
            resp_usage = u, resp_model_used = none_if_empty model\<rparr>))))))"

definition decode_protocol_response :: "json_lib \<Rightarrow> string \<Rightarrow> 'c model_target \<Rightarrow> 'c response result" where
  "decode_protocol_response lib body_json t = (case tgt_protocol t of
     anthropic_messages \<Rightarrow> decode_anthropic_response lib body_json t
   | openai_responses \<Rightarrow> decode_openai_response lib body_json t
   | _ \<Rightarrow> Inl (protocol_error ''provider protocol response decoding is not implemented'' t))"

section \<open>Facts\<close>

definition object_input :: "json_lib \<Rightarrow> content \<Rightarrow> bool" where
  "object_input lib c = (case c of
     ToolUseContent uid name input \<Rightarrow> (\<exists>kvs. input = json_dump lib (JObject kvs)) | _ \<Rightarrow> True)"

lemma is_object_JObject: "is_object j \<longleftrightarrow> (\<exists>kvs. j = JObject kvs)"
  by (cases j) auto

lemma case_option_Inl_Inr_iff:
  "(case x of None \<Rightarrow> Inl e | Some v \<Rightarrow> Inr (f v)) = Inr y \<longleftrightarrow> (\<exists>v. x = Some v \<and> y = f v)"
  by (cases x) auto

lemma parse_json_object_Inr_iff:
  "parse_json_object lib s field t = Inr j \<longleftrightarrow> json_parse lib s = Inr j \<and> is_object j"
  by (auto simp: parse_json_object_def split: sum.splits if_splits)

lemma anthropic_content_block_object_input:
  "anthropic_content_block lib b i t = Inr c \<Longrightarrow> object_input lib c"
  by (auto simp: anthropic_content_block_def object_input_def rbind_Inr_iff is_object_JObject
      case_option_Inl_Inr_iff dest!: object_member_SomeD split: if_splits)

lemma anthropic_blocks_object_input:
  "anthropic_blocks lib bs i t = Inr cs \<Longrightarrow> list_all (object_input lib) cs"
  by (induction bs arbitrary: i cs)
    (auto simp: rbind_Inr_iff dest: anthropic_content_block_object_input)

lemma openai_message_block_text:
  "openai_message_block b i k t = Inr c \<Longrightarrow> object_input lib c \<and> \<not> holds_tool_use c"
  by (auto simp: openai_message_block_def object_input_def holds_tool_use_def rbind_Inr_iff Let_def
      split: if_splits)

lemma openai_message_blocks_text:
  "openai_message_blocks bs i k t = Inr cs \<Longrightarrow> list_all (\<lambda>c. object_input lib c \<and> \<not> holds_tool_use c) cs"
  by (induction bs arbitrary: k cs) (auto simp: rbind_Inr_iff dest: openai_message_block_text [where lib = lib])

lemma openai_summary_blocks_text:
  "openai_summary_blocks es i k t = Inr cs \<Longrightarrow> list_all (\<lambda>c. object_input lib c \<and> \<not> holds_tool_use c) cs"
  by (induction es arbitrary: k cs)
    (auto simp: rbind_Inr_iff Let_def object_input_def holds_tool_use_def split: if_splits)

lemma append_openai_text:
  "append_openai_message_content item i blocks t = Inr bs \<Longrightarrow>
     \<exists>cs. bs = blocks @ cs \<and> list_all (\<lambda>c. object_input lib c \<and> \<not> holds_tool_use c) cs"
  "append_openai_reasoning item i blocks t = Inr bs \<Longrightarrow>
     \<exists>cs. bs = blocks @ cs \<and> list_all (\<lambda>c. object_input lib c \<and> \<not> holds_tool_use c) cs"
  by (auto simp: append_openai_message_content_def append_openai_reasoning_def rbind_Inr_iff
      dest: openai_message_blocks_text openai_summary_blocks_text split: if_splits option.splits json.splits)

lemma append_openai_function_call_tool:
  "append_openai_function_call lib item i blocks t = Inr bs \<Longrightarrow>
     \<exists>c. bs = blocks @ [c] \<and> object_input lib c \<and> holds_tool_use c"
  by (auto simp: append_openai_function_call_def rbind_Inr_iff parse_json_object_Inr_iff is_object_JObject
      object_input_def holds_tool_use_def)

lemma openai_items_tools:
  "openai_items lib items i blocks seen t = Inr (bs, seen') \<Longrightarrow>
     \<exists>cs. bs = blocks @ cs \<and> list_all (object_input lib) cs \<and> seen' = (seen \<or> list_ex holds_tool_use cs)"
proof (induction items arbitrary: i blocks seen)
  case (Cons item items)
  from Cons.prems obtain mid seen1 where step: "openai_items lib items (Suc i) mid seen1 t = Inr (bs, seen')"
    and mid: "\<exists>ds. mid = blocks @ ds \<and> list_all (object_input lib) ds \<and> seen1 = (seen \<or> list_ex holds_tool_use ds)"
    by (fastforce simp: rbind_Inr_iff list_all_iff list_ex_iff split: if_splits
        dest!: append_openai_text [where lib = lib] append_openai_function_call_tool)
  from mid obtain ds where ds: "mid = blocks @ ds" "list_all (object_input lib) ds"
    "seen1 = (seen \<or> list_ex holds_tool_use ds)" by blast
  from Cons.IH [OF step] obtain cs where "bs = mid @ cs" "list_all (object_input lib) cs"
    "seen' = (seen1 \<or> list_ex holds_tool_use cs)" by blast
  with ds show ?case by (intro exI [of _ "ds @ cs"]) auto
qed simp

section \<open>Properties\<close>

text \<open>
  Whatever body arrives, a decoded response carries as the input of each tool call the
  printed form of a JSON object, for both protocols: a tool never receives any other JSON value.
\<close>

theorem decoded_tool_inputs_are_objects:
  assumes "decode_protocol_response lib body t = Inr r"
    and "ToolUseContent uid name input \<in> set (resp_blocks r)"
  shows "\<exists>kvs. input = json_dump lib (JObject kvs)"
proof -
  have "list_all (object_input lib) (resp_blocks r)"
    using assms(1)
    by (auto simp: decode_protocol_response_def decode_anthropic_response_def decode_openai_response_def
        rbind_Inr_iff dest: anthropic_blocks_object_input openai_items_tools split: protocol_kind.splits)
  with assms(2) show ?thesis by (auto simp: list_all_iff object_input_def)
qed

definition demo_target :: "protocol_kind \<Rightarrow> int model_target" where
  "demo_target p = \<lparr>tgt_profile = ''p'', tgt_model = ''m'', tgt_protocol = p, tgt_thinking_budget = None,
     tgt_cache = None, tgt_pricing = \<lparr>input_per_million = None, output_per_million = None,
       cache_creation_per_million = None, cache_read_per_million = None\<rparr>\<rparr>"

definition demo_body :: json where
  "demo_body = JObject [(''output'', JArray [JObject [(''type'', JString ''function_call''),
     (''call_id'', JString ''c1''), (''name'', JString ''file.read''), (''arguments'', JString ''{}'')]]),
     (''status'', JString ''completed'')]"

definition demo_lib :: json_lib where
  "demo_lib = \<lparr>json_parse = (\<lambda>s. if s = ''{}'' then Inr (JObject []) else if s = ''body'' then Inr demo_body
     else Inl ''syntax error''), json_dump = (\<lambda>j. ''{}'')\<rparr>"

lemmas demo_response_defs = demo_target_def demo_body_def demo_lib_def

lemma demo_decode:
  "decode_protocol_response demo_lib ''body'' (demo_target openai_responses) =
     Inr \<lparr>resp_blocks = [ToolUseContent ''c1'' ''file.read'' ''{}''], resp_stop_reason = SR_tool_use,
          resp_usage = usage_zero, resp_model_used = None\<rparr>"
  by (simp add: decode_protocol_response_def decode_openai_response_def demo_response_defs
      parse_body_json_def parse_json_object_def required_array_def required_string_def optional_string_def
      append_openai_function_call_def openai_usage_def openai_status_stop_reason_def none_if_empty_def)

theorem decoded_tool_inputs_are_objects_witness:
  "\<exists>kvs. ''{}'' = json_dump demo_lib (JObject kvs)"
  by (rule decoded_tool_inputs_are_objects [OF demo_decode]) simp

text \<open>
  For a completed response of the OpenAI protocol the stop reason says \<open>tool_use\<close>
  exactly when the response asks for a tool call, which is what the agent loop branches on.
\<close>

theorem openai_tool_use_stop_reason:
  assumes "decode_openai_response lib body t = Inr r"
    and "\<And>j. json_parse lib body = Inr j \<Longrightarrow> json_member j ''status'' = Some (JString ''completed'')"
  shows "resp_stop_reason r = SR_tool_use \<longleftrightarrow> list_ex holds_tool_use (resp_blocks r)"
proof -
  from assms(1) obtain j out blocks seen status where j: "json_parse lib body = Inr j"
    and items: "openai_items lib out 0 [] False t = Inr (blocks, seen)"
    and st: "required_string j ''status'' ''status'' t = Inr status"
    and r: "resp_blocks r = blocks" "resp_stop_reason r = openai_status_stop_reason status seen j"
    by (auto simp: decode_openai_response_def rbind_Inr_iff parse_body_json_def parse_json_object_Inr_iff)
  from st assms(2) [OF j] have "status = ''completed''" by (simp add: required_string_def)
  with openai_items_tools [OF items] r show ?thesis
    by (auto simp: openai_status_stop_reason_def)
qed

theorem openai_tool_use_stop_reason_witness:
  "\<exists>r. decode_openai_response demo_lib ''body'' (demo_target openai_responses) = Inr r \<and>
     (resp_stop_reason r = SR_tool_use \<longleftrightarrow> list_ex holds_tool_use (resp_blocks r))"
proof -
  have d: "decode_openai_response demo_lib ''body'' (demo_target openai_responses) =
     Inr \<lparr>resp_blocks = [ToolUseContent ''c1'' ''file.read'' ''{}''], resp_stop_reason = SR_tool_use,
          resp_usage = usage_zero, resp_model_used = None\<rparr>"
    using demo_decode by (simp add: decode_protocol_response_def demo_target_def)
  have p: "json_member j ''status'' = Some (JString ''completed'')" if "json_parse demo_lib ''body'' = Inr j" for j
    using that by (auto simp: demo_lib_def demo_body_def)
  from openai_tool_use_stop_reason [OF d p] d show ?thesis by blast
qed

end
