(* ===== verification/Provider_Stream.thy ===== *)
theory Provider_Stream
  imports Provider_Response
begin

text \<open>
  \<^verbatim>\<open>oran-provider/_impl/anthropic_sse_decoder.cpp\<close> and
  \<^verbatim>\<open>openai_responses_sse_decoder.cpp\<close>: the incremental decoders of the streaming path. The
  calls on the optional \<^verbatim>\<open>EventSink\<close> are recorded in the decoder state, in order. The main
  result is that the stream of a message and its body decode to the same response.
\<close>

section \<open>The event sink\<close>

datatype sink_call =
    OnTextDelta string
  | OnThinkingDelta string
  | OnToolStart string string
  | OnToolDelta string string
  | OnDone stop_reason

section \<open>The Anthropic decoder\<close>

datatype block_kind = NoBlock | TextBlock | ThinkingBlock | ToolUseBlock

record open_block =
  ob_kind :: block_kind
  ob_text :: string
  ob_signature :: "string option"
  ob_tool_id :: string
  ob_tool_name :: string
  ob_tool_input :: string

definition no_block :: open_block where
  "no_block = \<lparr>ob_kind = NoBlock, ob_text = [], ob_signature = None, ob_tool_id = [], ob_tool_name = [],
     ob_tool_input = []\<rparr>"

record 'c anthropic_decoder =
  ad_target :: "'c model_target"
  ad_sink :: "sink_call list option"
  ad_blocks :: "content list"
  ad_open :: open_block
  ad_usage :: "'c usage"
  ad_stop_reason :: stop_reason
  ad_model :: "string option"
  ad_error :: "core_error option"
  ad_saw_stop :: bool

definition anthropic_decoder_init :: "'c model_target \<Rightarrow> bool \<Rightarrow> 'c anthropic_decoder" where
  "anthropic_decoder_init t sink =
     \<lparr>ad_target = t, ad_sink = (if sink then Some [] else None), ad_blocks = [], ad_open = no_block,
      ad_usage = usage_zero, ad_stop_reason = SR_end_turn, ad_model = None, ad_error = None,
      ad_saw_stop = False\<rparr>"

definition emit :: "sink_call \<Rightarrow> 'c anthropic_decoder \<Rightarrow> 'c anthropic_decoder" where
  "emit c d = d\<lparr>ad_sink := map_option (\<lambda>cs. cs @ [c]) (ad_sink d)\<rparr>"

definition ad_fail :: "core_error \<Rightarrow> 'c anthropic_decoder \<Rightarrow> 'c anthropic_decoder" where
  "ad_fail e d = (case ad_error d of None \<Rightarrow> d\<lparr>ad_error := Some e\<rparr> | Some _ \<Rightarrow> d)"

definition ad_protocol :: "'c anthropic_decoder \<Rightarrow> core_error \<Rightarrow> core_error" where
  "ad_protocol d = with_ctx ''protocol'' (protocol_name (tgt_protocol (ad_target d)))"

definition on_message_start :: "json \<Rightarrow> 'c anthropic_decoder \<Rightarrow> 'c anthropic_decoder" where
  "on_message_start payload d = (case object_member payload ''message'' of
     None \<Rightarrow> d
   | Some m \<Rightarrow>
       let d1 = (let model = string_or_empty m ''model'' in
                 if model \<noteq> [] then d\<lparr>ad_model := Some model\<rparr> else d)
       in (case object_member m ''usage'' of
            None \<Rightarrow> d1
          | Some u \<Rightarrow> d1\<lparr>ad_usage := (ad_usage d1)\<lparr>
              input_tokens := u64_or_zero u ''input_tokens'',
              output_tokens := u64_or_zero u ''output_tokens'',
              cache_creation_tokens := u64_or_zero u ''cache_creation_input_tokens'',
              cache_read_tokens := u64_or_zero u ''cache_read_input_tokens''\<rparr>\<rparr>))"

definition on_block_start :: "json \<Rightarrow> 'c anthropic_decoder \<Rightarrow> 'c anthropic_decoder" where
  "on_block_start payload d =
     (if ob_kind (ad_open d) \<noteq> NoBlock
      then ad_fail (ad_protocol d (err_parsing ''anthropic content block started before the previous block stopped'')) d
      else case object_member payload ''content_block'' of
        None \<Rightarrow> ad_fail (ad_protocol d (err_parsing ''anthropic content_block_start is missing content_block'')) d
      | Some block \<Rightarrow>
          let type = string_or_empty block ''type'' in
          if type = ''text'' then d\<lparr>ad_open := no_block\<lparr>ob_kind := TextBlock\<rparr>\<rparr>
          else if type = ''thinking'' then d\<lparr>ad_open := no_block\<lparr>ob_kind := ThinkingBlock\<rparr>\<rparr>
          else if type = ''tool_use'' then
            emit (OnToolStart (string_or_empty block ''id'') (string_or_empty block ''name''))
              (d\<lparr>ad_open := no_block\<lparr>ob_kind := ToolUseBlock, ob_tool_id := string_or_empty block ''id'',
                 ob_tool_name := string_or_empty block ''name''\<rparr>\<rparr>)
          else ad_fail (with_ctx ''type'' type
                 (ad_protocol d (err_parsing ''anthropic content block type is not supported'')))
               (d\<lparr>ad_open := no_block\<rparr>))"

definition on_block_delta :: "json \<Rightarrow> 'c anthropic_decoder \<Rightarrow> 'c anthropic_decoder" where
  "on_block_delta payload d =
     (if ob_kind (ad_open d) = NoBlock
      then ad_fail (ad_protocol d (err_parsing ''anthropic content block delta has no open block'')) d
      else case object_member payload ''delta'' of
        None \<Rightarrow> ad_fail (ad_protocol d (err_parsing ''anthropic content_block_delta is missing delta'')) d
      | Some delta \<Rightarrow>
          let type = string_or_empty delta ''type''; ob = ad_open d in
          if type = ''text_delta'' then
            let s = string_or_empty delta ''text'' in
            emit (if ob_kind ob = ThinkingBlock then OnThinkingDelta s else OnTextDelta s)
              (d\<lparr>ad_open := ob\<lparr>ob_text := ob_text ob @ s\<rparr>\<rparr>)
          else if type = ''thinking_delta'' then
            let s = string_or_empty delta ''thinking'' in
            emit (OnThinkingDelta s) (d\<lparr>ad_open := ob\<lparr>ob_text := ob_text ob @ s\<rparr>\<rparr>)
          else if type = ''signature_delta'' then
            d\<lparr>ad_open := ob\<lparr>ob_signature :=
              Some ((case ob_signature ob of Some s \<Rightarrow> s | None \<Rightarrow> []) @ string_or_empty delta ''signature'')\<rparr>\<rparr>
          else if type = ''input_json_delta'' then
            let s = string_or_empty delta ''partial_json'' in
            emit (OnToolDelta (ob_tool_id ob) s) (d\<lparr>ad_open := ob\<lparr>ob_tool_input := ob_tool_input ob @ s\<rparr>\<rparr>)
          else d)"

definition finalize_open_block :: "json_lib \<Rightarrow> 'c anthropic_decoder \<Rightarrow> 'c anthropic_decoder" where
  "finalize_open_block lib d =
     (let ob = ad_open d;
          push = (\<lambda>c. d\<lparr>ad_blocks := ad_blocks d @ [c], ad_open := no_block\<rparr>);
          tool_ctx = (\<lambda>e. with_ctx ''tool'' (ob_tool_name ob) (with_ctx ''tool_use_id'' (ob_tool_id ob) (ad_protocol d e)))
      in case ob_kind ob of
        TextBlock \<Rightarrow> push (TextContent (ob_text ob))
      | ThinkingBlock \<Rightarrow> push (ThinkingContent (ob_text ob) (ob_signature ob))
      | ToolUseBlock \<Rightarrow>
          (case json_parse lib (if ob_tool_input ob = [] then ''{}'' else ob_tool_input ob) of
             Inl detail \<Rightarrow> ad_fail (with_ctx ''detail'' detail
               (tool_ctx (err_parsing ''anthropic tool input json is malformed''))) d
           | Inr input \<Rightarrow>
               if \<not> is_object input
               then ad_fail (tool_ctx (err_parsing ''anthropic tool input must be a JSON object'')) d
               else push (ToolUseContent (ob_tool_id ob) (ob_tool_name ob) (json_dump lib input)))
      | NoBlock \<Rightarrow> d\<lparr>ad_open := no_block\<rparr>)"

definition on_block_stop :: "json_lib \<Rightarrow> 'c anthropic_decoder \<Rightarrow> 'c anthropic_decoder" where
  "on_block_stop lib d =
     (if ob_kind (ad_open d) = NoBlock
      then ad_fail (ad_protocol d (err_parsing ''anthropic content block stop has no open block'')) d
      else finalize_open_block lib d)"

definition on_message_delta :: "json \<Rightarrow> 'c anthropic_decoder \<Rightarrow> 'c anthropic_decoder" where
  "on_message_delta payload d =
     (let d1 = (case object_member payload ''delta'' of
            None \<Rightarrow> d
          | Some delta \<Rightarrow>
              let reason = string_or_empty delta ''stop_reason'' in
              if reason \<noteq> [] then d\<lparr>ad_stop_reason := anthropic_stop_reason reason\<rparr> else d)
      in case object_member payload ''usage'' of
        None \<Rightarrow> d1
      | Some u \<Rightarrow> d1\<lparr>ad_usage := (ad_usage d1)\<lparr>output_tokens := u64_or_zero u ''output_tokens''\<rparr>\<rparr>)"

definition on_message_stop :: "'c anthropic_decoder \<Rightarrow> 'c anthropic_decoder" where
  "on_message_stop d =
     (if ob_kind (ad_open d) \<noteq> NoBlock
      then ad_fail (ad_protocol d (err_parsing ''anthropic message stopped before the content block completed'')) d
      else emit (OnDone (ad_stop_reason d)) (d\<lparr>ad_saw_stop := True\<rparr>))"

definition on_error_event :: "json \<Rightarrow> 'c anthropic_decoder \<Rightarrow> 'c anthropic_decoder" where
  "on_error_event payload d =
     (let field = (\<lambda>k. case json_member payload ''error'' of Some e \<Rightarrow> string_or_empty e k | None \<Rightarrow> [])
      in ad_fail (with_ctx ''error_message'' (field ''message'') (with_ctx ''error_type'' (field ''type'')
           (ad_protocol d (err_upstream ''anthropic stream returned an error event'')))) d)"

definition anthropic_event :: "json_lib \<Rightarrow> string \<Rightarrow> json \<Rightarrow> 'c anthropic_decoder \<Rightarrow> 'c anthropic_decoder" where
  "anthropic_event lib event payload d =
     (if event = ''message_start'' then on_message_start payload d
      else if event = ''content_block_start'' then on_block_start payload d
      else if event = ''content_block_delta'' then on_block_delta payload d
      else if event = ''content_block_stop'' then on_block_stop lib d
      else if event = ''message_delta'' then on_message_delta payload d
      else if event = ''message_stop'' then on_message_stop d
      else if event = ''error'' then on_error_event payload d
      else d)"

definition anthropic_consume :: "json_lib \<Rightarrow> string \<Rightarrow> string \<Rightarrow> 'c anthropic_decoder \<Rightarrow> 'c anthropic_decoder" where
  "anthropic_consume lib event edata d =
     (if ad_error d \<noteq> None then d
      else if event = ''ping'' then d
      else case json_parse lib edata of
        Inl detail \<Rightarrow> ad_fail (with_ctx ''detail'' detail (with_ctx ''event'' event
          (ad_protocol d (err_parsing ''anthropic stream event is not valid JSON'')))) d
      | Inr payload \<Rightarrow>
          if \<not> is_object payload
          then ad_fail (with_ctx ''event'' event
            (ad_protocol d (err_parsing ''anthropic stream event must be a JSON object''))) d
          else anthropic_event lib event payload d)"

definition anthropic_result :: "'c anthropic_decoder \<Rightarrow> 'c response result" where
  "anthropic_result d = (case ad_error d of
     Some e \<Rightarrow> Inl e
   | None \<Rightarrow>
       if \<not> ad_saw_stop d
       then Inl (ad_protocol d (err_parsing ''anthropic stream ended before message_stop''))
       else Inr \<lparr>resp_blocks = ad_blocks d, resp_stop_reason = ad_stop_reason d,
                 resp_usage = ad_usage d, resp_model_used = ad_model d\<rparr>)"

definition anthropic_run :: "json_lib \<Rightarrow> (string \<times> string) list \<Rightarrow> 'c anthropic_decoder \<Rightarrow> 'c anthropic_decoder" where
  "anthropic_run lib evs d = fold (\<lambda>(event, edata). anthropic_consume lib event edata) evs d"

section \<open>A message on the wire\<close>

text \<open>
  A message as the vendor sends it: once as the events of a stream, each block cut into deltas, and
  once as the body of a non-streaming response.
\<close>

datatype wire_block =
    WText "string list"
  | WThinking "string list" "string list"
  | WTool string string "string list" "(string \<times> json) list"

record wire_message =
  wm_blocks :: "wire_block list"
  wm_model :: string
  wm_stop :: string
  wm_input_tokens :: "64 word"
  wm_start_tokens :: "64 word"
  wm_output_tokens :: "64 word"
  wm_cache_creation :: "64 word"
  wm_cache_read :: "64 word"

definition w_start :: "(string \<times> json) list \<Rightarrow> string \<times> json" where
  "w_start fs = (''content_block_start'', JObject [(''content_block'', JObject fs)])"

definition w_delta :: "string \<Rightarrow> string \<Rightarrow> string \<Rightarrow> string \<times> json" where
  "w_delta ty key s = (''content_block_delta'', JObject [(''delta'', JObject [(''type'', JString ty), (key, JString s)])])"

definition w_stop :: "string \<times> json" where
  "w_stop = (''content_block_stop'', JObject [])"

fun block_events :: "wire_block \<Rightarrow> (string \<times> json) list" where
  "block_events (WText cs) =
     w_start [(''type'', JString ''text'')] # map (w_delta ''text_delta'' ''text'') cs @ [w_stop]"
| "block_events (WThinking cs sigs) =
     w_start [(''type'', JString ''thinking'')] # map (w_delta ''thinking_delta'' ''thinking'') cs
       @ map (w_delta ''signature_delta'' ''signature'') sigs @ [w_stop]"
| "block_events (WTool uid name cs input) =
     w_start [(''type'', JString ''tool_use''), (''id'', JString uid), (''name'', JString name)]
       # map (w_delta ''input_json_delta'' ''partial_json'') cs @ [w_stop]"

fun block_body :: "wire_block \<Rightarrow> json" where
  "block_body (WText cs) = JObject [(''type'', JString ''text''), (''text'', JString (concat cs))]"
| "block_body (WThinking cs sigs) = JObject [(''type'', JString ''thinking''),
     (''thinking'', JString (concat cs)), (''signature'', JString (concat sigs))]"
| "block_body (WTool uid name cs input) = JObject [(''type'', JString ''tool_use''), (''id'', JString uid),
     (''name'', JString name), (''input'', JObject input)]"

fun block_content :: "json_lib \<Rightarrow> wire_block \<Rightarrow> content" where
  "block_content lib (WText cs) = TextContent (concat cs)"
| "block_content lib (WThinking cs sigs) = ThinkingContent (concat cs) (none_if_empty (concat sigs))"
| "block_content lib (WTool uid name cs input) = ToolUseContent uid name (json_dump lib (JObject input))"

text \<open>
  The two decoders keep a thinking block differently when it has signature deltas that are all
  empty: the stream keeps an empty signature, the body none. A block is \<open>signed_plainly\<close> when this is
  not its case.
\<close>

fun stream_content :: "json_lib \<Rightarrow> wire_block \<Rightarrow> content" where
  "stream_content lib (WThinking cs sigs) = ThinkingContent (concat cs) (if sigs = [] then None else Some (concat sigs))"
| "stream_content lib b = block_content lib b"

fun signed_plainly :: "wire_block \<Rightarrow> bool" where
  "signed_plainly (WThinking cs sigs) \<longleftrightarrow> sigs = [] \<or> concat sigs \<noteq> []"
| "signed_plainly b \<longleftrightarrow> True"

fun drop_empty_signature :: "content \<Rightarrow> content" where
  "drop_empty_signature (ThinkingContent t (Some [])) = ThinkingContent t None"
| "drop_empty_signature c = c"

fun block_calls :: "wire_block \<Rightarrow> sink_call list" where
  "block_calls (WText cs) = map OnTextDelta cs"
| "block_calls (WThinking cs sigs) = map OnThinkingDelta cs"
| "block_calls (WTool uid name cs input) = OnToolStart uid name # map (OnToolDelta uid) cs"

text \<open>What a well-formed message satisfies: the input of each tool call is a JSON object, cut into deltas anyhow.\<close>

fun wire_block_ok :: "json_lib \<Rightarrow> wire_block \<Rightarrow> bool" where
  "wire_block_ok lib (WText cs) \<longleftrightarrow> True"
| "wire_block_ok lib (WThinking cs sigs) \<longleftrightarrow> True"
| "wire_block_ok lib (WTool uid name cs input) \<longleftrightarrow>
     json_parse lib (if concat cs = [] then ''{}'' else concat cs) = Inr (JObject input)"

definition message_events :: "wire_message \<Rightarrow> (string \<times> json) list" where
  "message_events m =
     (''message_start'', JObject [(''message'', JObject [(''model'', JString (wm_model m)),
        (''usage'', JObject [(''input_tokens'', JUnsigned (wm_input_tokens m)),
          (''output_tokens'', JUnsigned (wm_start_tokens m)),
          (''cache_creation_input_tokens'', JUnsigned (wm_cache_creation m)),
          (''cache_read_input_tokens'', JUnsigned (wm_cache_read m))])])])
     # concat (map block_events (wm_blocks m)) @
     [(''message_delta'', JObject [(''delta'', JObject [(''stop_reason'', JString (wm_stop m))]),
        (''usage'', JObject [(''output_tokens'', JUnsigned (wm_output_tokens m))])]),
      (''message_stop'', JObject [])]"

definition message_body :: "wire_message \<Rightarrow> json" where
  "message_body m = JObject [(''model'', JString (wm_model m)),
     (''content'', JArray (map block_body (wm_blocks m))),
     (''stop_reason'', JString (wm_stop m)),
     (''usage'', JObject [(''input_tokens'', JUnsigned (wm_input_tokens m)),
        (''output_tokens'', JUnsigned (wm_output_tokens m)),
        (''cache_creation_input_tokens'', JUnsigned (wm_cache_creation m)),
        (''cache_read_input_tokens'', JUnsigned (wm_cache_read m))])]"

text \<open>An empty stop reason leaves the stream's at its default, while the body's is unknown and becomes \<open>error\<close>.\<close>

definition stream_stop :: "wire_message \<Rightarrow> stop_reason" where
  "stream_stop m = (if wm_stop m = [] then SR_end_turn else anthropic_stop_reason (wm_stop m))"

definition message_calls :: "wire_message \<Rightarrow> sink_call list" where
  "message_calls m = concat (map block_calls (wm_blocks m)) @ [OnDone (stream_stop m)]"

section \<open>Decoding the stream\<close>

definition emits :: "sink_call list \<Rightarrow> 'c anthropic_decoder \<Rightarrow> 'c anthropic_decoder" where
  "emits cs d = d\<lparr>ad_sink := map_option (\<lambda>xs. xs @ cs) (ad_sink d)\<rparr>"

lemma emit_emits: "emit c d = emits [c] d"
  by (simp add: emit_def emits_def)

lemma emits_simps [simp]:
  "emits cs (emits bs d) = emits (bs @ cs) d" "emits [] d = d"
  "ad_open (emits cs d) = ad_open d" "ad_error (emits cs d) = ad_error d"
  "ad_blocks (emits cs d) = ad_blocks d" "ad_sink (emits cs d) = map_option (\<lambda>xs. xs @ cs) (ad_sink d)"
  "(emits cs d)\<lparr>ad_open := ob\<rparr> = emits cs (d\<lparr>ad_open := ob\<rparr>)"
  "(emits cs d)\<lparr>ad_blocks := bl\<rparr> = emits cs (d\<lparr>ad_blocks := bl\<rparr>)"
  by (cases d; simp add: emits_def option.map_comp comp_def option.map_ident)+

definition step_event :: "json_lib \<Rightarrow> string \<times> json \<Rightarrow> 'c anthropic_decoder \<Rightarrow> 'c anthropic_decoder" where
  "step_event lib = (\<lambda>(event, payload) d. if ad_error d \<noteq> None then d else anthropic_event lib event payload d)"

definition carries :: "json_lib \<Rightarrow> string \<times> string \<Rightarrow> string \<times> json \<Rightarrow> bool" where
  "carries lib = (\<lambda>(event, edata) (event', payload).
     event = event' \<and> event \<noteq> ''ping'' \<and> json_parse lib edata = Inr payload \<and> is_object payload)"

lemma anthropic_run_steps:
  "list_all2 (carries lib) evs ps \<Longrightarrow> anthropic_run lib evs d = fold (step_event lib) ps d"
proof (induction evs ps arbitrary: d rule: list_all2_induct)
  case Nil
  then show ?case by (simp add: anthropic_run_def)
next
  case (Cons ev evs p ps)
  then show ?case
    by (auto simp: anthropic_run_def carries_def step_event_def anthropic_consume_def split: prod.splits)
qed

lemmas step_event_simps = step_event_def anthropic_event_def w_start_def w_delta_def w_stop_def
  object_member_def string_or_empty_def Let_def

lemma fold_text_deltas:
  "ad_error d = None \<Longrightarrow> ob_kind (ad_open d) = TextBlock \<Longrightarrow>
   fold (step_event lib) (map (w_delta ''text_delta'' ''text'') cs) d =
   emits (map OnTextDelta cs) (d\<lparr>ad_open := (ad_open d)\<lparr>ob_text := ob_text (ad_open d) @ concat cs\<rparr>\<rparr>)"
  by (induction cs arbitrary: d) (simp_all add: step_event_simps on_block_delta_def emit_emits)

lemma fold_thinking_deltas:
  "ad_error d = None \<Longrightarrow> ob_kind (ad_open d) = ThinkingBlock \<Longrightarrow>
   fold (step_event lib) (map (w_delta ''thinking_delta'' ''thinking'') cs) d =
   emits (map OnThinkingDelta cs) (d\<lparr>ad_open := (ad_open d)\<lparr>ob_text := ob_text (ad_open d) @ concat cs\<rparr>\<rparr>)"
  by (induction cs arbitrary: d) (simp_all add: step_event_simps on_block_delta_def emit_emits)

lemma fold_signature_deltas:
  "ad_error d = None \<Longrightarrow> ob_kind (ad_open d) = ThinkingBlock \<Longrightarrow>
   fold (step_event lib) (map (w_delta ''signature_delta'' ''signature'') cs) d =
   d\<lparr>ad_open := (ad_open d)\<lparr>ob_signature := (if cs = [] then ob_signature (ad_open d)
     else Some ((case ob_signature (ad_open d) of Some s \<Rightarrow> s | None \<Rightarrow> []) @ concat cs))\<rparr>\<rparr>"
  by (induction cs arbitrary: d) (auto simp add: step_event_simps on_block_delta_def)

lemma fold_input_deltas:
  "ad_error d = None \<Longrightarrow> ob_kind (ad_open d) = ToolUseBlock \<Longrightarrow>
   fold (step_event lib) (map (w_delta ''input_json_delta'' ''partial_json'') cs) d =
   emits (map (OnToolDelta (ob_tool_id (ad_open d))) cs)
     (d\<lparr>ad_open := (ad_open d)\<lparr>ob_tool_input := ob_tool_input (ad_open d) @ concat cs\<rparr>\<rparr>)"
  by (induction cs arbitrary: d) (simp_all add: step_event_simps on_block_delta_def emit_emits)

lemma no_block_sel [simp]:
  "ob_kind no_block = NoBlock" "ob_text no_block = []" "ob_signature no_block = None"
  "ob_tool_id no_block = []" "ob_tool_name no_block = []" "ob_tool_input no_block = []"
  by (simp_all add: no_block_def)

lemma ad_open_update_idem [simp]: "ad_open d = ob \<Longrightarrow> d\<lparr>ad_open := ob\<rparr> = d"
  by (cases d) simp

lemma step_starts:
  assumes "ad_error d = None" "ad_open d = no_block"
  shows "step_event lib (w_start [(''type'', JString ''text'')]) d = d\<lparr>ad_open := no_block\<lparr>ob_kind := TextBlock\<rparr>\<rparr>"
    and "step_event lib (w_start [(''type'', JString ''thinking'')]) d = d\<lparr>ad_open := no_block\<lparr>ob_kind := ThinkingBlock\<rparr>\<rparr>"
    and "step_event lib (w_start [(''type'', JString ''tool_use''), (''id'', JString uid), (''name'', JString name)]) d =
      emits [OnToolStart uid name]
        (d\<lparr>ad_open := no_block\<lparr>ob_kind := ToolUseBlock, ob_tool_id := uid, ob_tool_name := name\<rparr>\<rparr>)"
  using assms by (simp_all add: step_event_simps on_block_start_def emit_emits)

lemma step_stop:
  assumes "ad_error d = None" "ob_kind (ad_open d) \<noteq> NoBlock"
  shows "step_event lib w_stop d = finalize_open_block lib d"
  using assms by (simp add: step_event_simps on_block_stop_def)

lemma fold_block_events:
  assumes "ad_error d = None" "ad_open d = no_block" "wire_block_ok lib b"
  shows "fold (step_event lib) (block_events b) d =
    emits (block_calls b) (d\<lparr>ad_blocks := ad_blocks d @ [stream_content lib b]\<rparr>)"
  using assms
  by (cases b)
    (auto simp: step_starts fold_text_deltas fold_thinking_deltas fold_signature_deltas fold_input_deltas
      step_stop finalize_open_block_def none_if_empty_def Let_def simp del: concat_eq_Nil_conv)

lemma fold_blocks_events:
  assumes "ad_error d = None" "ad_open d = no_block" "list_all (wire_block_ok lib) bs"
  shows "fold (step_event lib) (concat (map block_events bs)) d =
    emits (concat (map block_calls bs)) (d\<lparr>ad_blocks := ad_blocks d @ map (stream_content lib) bs\<rparr>)"
  using assms
proof (induction bs arbitrary: d)
  case (Cons b bs)
  then show ?case
    using Cons.IH [of "emits (block_calls b) (d\<lparr>ad_blocks := ad_blocks d @ [stream_content lib b]\<rparr>)"]
    by (simp add: fold_block_events)
qed simp

definition message_response :: "json_lib \<Rightarrow> wire_message \<Rightarrow> 'c response" where
  "message_response lib m = \<lparr>resp_blocks = map (block_content lib) (wm_blocks m),
     resp_stop_reason = anthropic_stop_reason (wm_stop m),
     resp_usage = \<lparr>input_tokens = wm_input_tokens m, output_tokens = wm_output_tokens m,
       cache_creation_tokens = wm_cache_creation m, cache_read_tokens = wm_cache_read m, cost_estimate = None\<rparr>,
     resp_model_used = none_if_empty (wm_model m)\<rparr>"

definition stream_response :: "json_lib \<Rightarrow> wire_message \<Rightarrow> 'c response" where
  "stream_response lib m =
     (message_response lib m)\<lparr>resp_blocks := map (stream_content lib) (wm_blocks m), resp_stop_reason := stream_stop m\<rparr>"

definition wire_ok :: "json_lib \<Rightarrow> wire_message \<Rightarrow> bool" where
  "wire_ok lib m \<longleftrightarrow> list_all (wire_block_ok lib) (wm_blocks m)"

definition plain_message :: "wire_message \<Rightarrow> bool" where
  "plain_message m \<longleftrightarrow> wm_stop m \<noteq> [] \<and> list_all signed_plainly (wm_blocks m)"

lemma stream_decodes:
  assumes "list_all2 (carries lib) evs (message_events m)" "wire_ok lib m"
  shows "anthropic_result (anthropic_run lib evs (anthropic_decoder_init t sink)) = Inr (stream_response lib m)"
    and "ad_sink (anthropic_run lib evs (anthropic_decoder_init t sink)) =
      (if sink then Some (message_calls m) else None)"
proof -
  define d1 where "d1 = (anthropic_decoder_init t sink)\<lparr>ad_model := none_if_empty (wm_model m),
    ad_usage := \<lparr>input_tokens = wm_input_tokens m, output_tokens = wm_start_tokens m,
       cache_creation_tokens = wm_cache_creation m, cache_read_tokens = wm_cache_read m, cost_estimate = None\<rparr>\<rparr>"
  have sel: "ad_error d1 = None" "ad_open d1 = no_block" "ad_blocks d1 = []" "ad_stop_reason d1 = SR_end_turn"
    by (simp_all add: d1_def anthropic_decoder_init_def)
  have start: "step_event lib (hd (message_events m)) (anthropic_decoder_init t sink) = d1"
    by (simp add: message_events_def step_event_simps on_message_start_def d1_def none_if_empty_def
        anthropic_decoder_init_def u64_or_zero_def usage_zero_def)
  let ?d2 = "emits (concat (map block_calls (wm_blocks m))) (d1\<lparr>ad_blocks := map (stream_content lib) (wm_blocks m)\<rparr>)"
  have blocks: "fold (step_event lib) (concat (map block_events (wm_blocks m))) d1 = ?d2"
    using fold_blocks_events [OF sel(1,2)] assms(2) sel(3) by (simp add: wire_ok_def)
  let ?d3 = "emits (message_calls m) (d1\<lparr>ad_blocks := map (stream_content lib) (wm_blocks m), ad_saw_stop := True,
      ad_stop_reason := stream_stop m,
      ad_usage := (ad_usage d1)\<lparr>output_tokens := wm_output_tokens m\<rparr>\<rparr>)"
  have "anthropic_run lib evs (anthropic_decoder_init t sink) =
      fold (step_event lib) (drop (length (message_events m) - 2) (message_events m)) ?d2"
    unfolding anthropic_run_steps [OF assms(1)]
    using start blocks by (simp add: message_events_def)
  also have "\<dots> = ?d3"
    using assms(2) sel
    by (simp add: message_events_def step_event_simps on_message_delta_def on_message_stop_def
        stream_stop_def emit_emits u64_or_zero_def message_calls_def)
      (cases d1, simp add: emits_def option.map_comp comp_def)
  finally have "anthropic_run lib evs (anthropic_decoder_init t sink) = ?d3" .
  then show "anthropic_result (anthropic_run lib evs (anthropic_decoder_init t sink)) = Inr (stream_response lib m)"
    and "ad_sink (anthropic_run lib evs (anthropic_decoder_init t sink)) =
      (if sink then Some (message_calls m) else None)"
    by (simp_all add: anthropic_result_def emits_def d1_def anthropic_decoder_init_def message_response_def stream_response_def)
qed

lemma body_block_decodes:
  "wire_block_ok lib b \<Longrightarrow> anthropic_content_block lib (block_body b) i t = Inr (block_content lib b)"
  by (cases b) (simp_all add: anthropic_content_block_def required_string_def optional_string_def object_member_def)

lemma body_blocks_decode:
  "list_all (wire_block_ok lib) bs \<Longrightarrow>
   anthropic_blocks lib (map block_body bs) i t = Inr (map (block_content lib) bs)"
  by (induction bs arbitrary: i) (simp_all add: body_block_decodes)

lemma body_decodes:
  assumes "json_parse lib body = Inr (message_body m)" "wire_ok lib m"
  shows "decode_anthropic_response lib body t = Inr (message_response lib m)"
  using assms
  by (simp add: decode_anthropic_response_def parse_body_json_def parse_json_object_def message_body_def
      required_array_def body_blocks_decode wire_ok_def required_string_def optional_string_def
      anthropic_usage_def optional_u64_def unsigned_integer_value_def message_response_def)

section \<open>Properties of the Anthropic decoder\<close>

lemma stream_content_body:
  "drop_empty_signature (stream_content lib b) = block_content lib b"
  "stream_content lib b = block_content lib b \<longleftrightarrow> signed_plainly b"
  by (cases b; auto simp: none_if_empty_def neq_Nil_conv simp del: concat_eq_Nil_conv)+

lemma stream_contents_body:
  "map (stream_content lib) bs = map (block_content lib) bs \<longleftrightarrow> list_all signed_plainly bs"
  by (induction bs) (simp_all add: stream_content_body)

lemma empty_stop_reason [simp]: "anthropic_stop_reason [] = SR_error"
  by (simp add: anthropic_stop_reason_def parse_stop_reason_def parse_enum_def stop_reasons_def stop_reason_name_def)

lemma stream_response_body:
  "stream_response lib m = message_response lib m \<longleftrightarrow> plain_message m"
proof -
  have stop: "stream_stop m = anthropic_stop_reason (wm_stop m) \<longleftrightarrow> wm_stop m \<noteq> []"
    by (auto simp: stream_stop_def)
  show ?thesis
    using stream_contents_body [of lib "wm_blocks m"] stop
    by (auto simp: stream_response_def message_response_def plain_message_def)
qed

text \<open>
  C15: what streaming changes of a response, exactly. Take any message whose tool inputs are JSON
  objects, fed as its events with every block cut into any deltas. The streaming decoder and the
  decoder of the body both succeed, with the same usage and model, and with the same blocks up to
  empty signatures of thinking blocks; the stop reasons agree unless the message's is empty, when
  the stream keeps \<open>end_turn\<close> and the body gives \<open>error\<close>. The two responses are equal if and only if the
  stop reason is not empty and no thinking block has signature deltas that are all empty. The sink
  saw the deltas in order and last the stop reason of the stream's response.
\<close>

theorem stream_equals_body:
  assumes "list_all2 (carries lib) evs (message_events m)"
    and "json_parse lib body = Inr (message_body m)"
    and "wire_ok lib m"
    and "tgt_protocol t = anthropic_messages"
  shows "\<exists>rs rb. anthropic_result (anthropic_run lib evs (anthropic_decoder_init t sink)) = Inr rs
    \<and> decode_protocol_response lib body t = Inr rb
    \<and> (rs = rb \<longleftrightarrow> plain_message m)
    \<and> resp_usage rs = resp_usage rb \<and> resp_model_used rs = resp_model_used rb
    \<and> map drop_empty_signature (resp_blocks rs) = resp_blocks rb
    \<and> (if wm_stop m = [] then resp_stop_reason rs = SR_end_turn \<and> resp_stop_reason rb = SR_error
       else resp_stop_reason rs = resp_stop_reason rb)
    \<and> ad_sink (anthropic_run lib evs (anthropic_decoder_init t True)) =
       Some (concat (map block_calls (wm_blocks m)) @ [OnDone (resp_stop_reason rs)])"
proof (intro exI conjI)
  show "anthropic_result (anthropic_run lib evs (anthropic_decoder_init t sink)) = Inr (stream_response lib m)"
    by (rule stream_decodes [OF assms(1,3)])
  show "decode_protocol_response lib body t = Inr (message_response lib m)"
    using body_decodes [OF assms(2,3), of t] assms(4) by (simp add: decode_protocol_response_def)
  show "(stream_response lib m :: 'a response) = message_response lib m \<longleftrightarrow> plain_message m"
    by (rule stream_response_body)
  show "if wm_stop m = [] then resp_stop_reason (stream_response lib m) = SR_end_turn \<and> resp_stop_reason (message_response lib m) = SR_error
      else resp_stop_reason (stream_response lib m) = resp_stop_reason (message_response lib m)"
    by (simp add: stream_response_def message_response_def stream_stop_def)
  show "ad_sink (anthropic_run lib evs (anthropic_decoder_init t True)) =
      Some (concat (map block_calls (wm_blocks m)) @ [OnDone (resp_stop_reason (stream_response lib m))])"
    using stream_decodes(2) [OF assms(1,3), of t True] by (simp add: message_calls_def stream_response_def)
qed (simp_all add: stream_response_def message_response_def stream_content_body comp_def)

definition demo_message :: wire_message where
  "demo_message = \<lparr>wm_blocks = [WText [''a'', ''b''], WTool ''t1'' ''file.read'' [''{'', ''}''] []], wm_model = ''m'',
     wm_stop = ''tool_use'', wm_input_tokens = 1, wm_start_tokens = 0, wm_output_tokens = 2,
     wm_cache_creation = 0, wm_cache_read = 0\<rparr>"

text \<open>Event texts that name a position of the demo stream, and a parser that looks them up.\<close>

definition demo_names :: "string list" where
  "demo_names = [''0'', ''1'', ''2'', ''3'', ''4'', ''5'', ''6'', ''7'', ''8'', ''9'', ''10'']"

definition demo_stream_lib :: json_lib where
  "demo_stream_lib = \<lparr>json_parse = (\<lambda>s. if s = ''{}'' then Inr (JObject [])
       else if s = ''body'' then Inr (message_body demo_message)
       else case map_of (zip demo_names (map snd (message_events demo_message))) s of
         Some p \<Rightarrow> Inr p | None \<Rightarrow> Inl ''syntax error''),
     json_dump = (\<lambda>j. ''{}'')\<rparr>"

definition demo_stream :: "(string \<times> string) list" where
  "demo_stream = zip (map fst (message_events demo_message)) demo_names"

theorem stream_equals_body_witness:
  "anthropic_result (anthropic_run demo_stream_lib demo_stream (anthropic_decoder_init (demo_target anthropic_messages) True))
     = decode_protocol_response demo_stream_lib ''body'' (demo_target anthropic_messages)"
proof -
  have evs: "list_all2 (carries demo_stream_lib) demo_stream (message_events demo_message)"
    unfolding demo_stream_def demo_stream_lib_def demo_names_def
    by (simp add: message_events_def demo_message_def w_start_def w_delta_def w_stop_def carries_def)
  have ok: "wire_ok demo_stream_lib demo_message"
    by (simp add: wire_ok_def demo_message_def demo_stream_lib_def)
  have body: "json_parse demo_stream_lib ''body'' = Inr (message_body demo_message)"
    by (simp add: demo_stream_lib_def)
  show ?thesis
    using stream_equals_body [OF evs body ok, of "demo_target anthropic_messages" True]
    by (auto simp: demo_target_def plain_message_def demo_message_def)
qed

lemma ad_fail_sel [simp]:
  "ad_error (ad_fail e d) = (case ad_error d of None \<Rightarrow> Some e | Some e' \<Rightarrow> Some e')"
  "ad_sink (ad_fail e d) = ad_sink d"
  by (simp_all add: ad_fail_def split: option.splits)

lemma anthropic_consume_latched: "ad_error d = Some e \<Longrightarrow> anthropic_consume lib ev dat d = d"
  by (simp add: anthropic_consume_def)

lemma anthropic_run_latched: "ad_error d = Some e \<Longrightarrow> anthropic_run lib evs d = d"
  by (induction evs) (auto simp: anthropic_run_def anthropic_consume_latched)

lemma anthropic_run_append: "anthropic_run lib (xs @ ys) d = anthropic_run lib ys (anthropic_run lib xs d)"
  by (simp add: anthropic_run_def)

text \<open>
  The first failure wins. After the prefix of a stream has recorded an error, no later event
  reaches the sink and the result is that error, whatever follows.
\<close>

theorem anthropic_first_error_wins:
  assumes "ad_error (anthropic_run lib xs d) = Some e"
  shows "anthropic_run lib (xs @ ys) d = anthropic_run lib xs d \<and>
    anthropic_result (anthropic_run lib (xs @ ys) d) = Inl e"
  using assms by (simp add: anthropic_run_append anthropic_run_latched anthropic_result_def)

theorem anthropic_first_error_wins_witness:
  "\<exists>e. anthropic_result (anthropic_run demo_lib ([(''message_start'', ''bad'')] @ [(''message_stop'', ''{}'')])
     (anthropic_decoder_init (demo_target anthropic_messages) False)) = Inl e"
proof -
  obtain e where "ad_error (anthropic_run demo_lib [(''message_start'', ''bad'')]
      (anthropic_decoder_init (demo_target anthropic_messages) False)) = Some e"
    by (simp add: anthropic_run_def anthropic_consume_def anthropic_decoder_init_def demo_lib_def)
  from anthropic_first_error_wins [OF this] show ?thesis by blast
qed

text \<open>
  The decoder does not require the state machine its documentation describes: a stream
  that is \<open>message_stop\<close> twice and nothing else is a complete, empty response, and the sink is told
  twice that the stream is done.
\<close>

theorem anthropic_repeated_message_stop:
  assumes "json_parse lib dat = Inr (JObject [])"
  shows "let d = anthropic_run lib [(''message_stop'', dat), (''message_stop'', dat)] (anthropic_decoder_init t True)
    in ad_sink d = Some [OnDone SR_end_turn, OnDone SR_end_turn] \<and>
       anthropic_result d = Inr \<lparr>resp_blocks = [], resp_stop_reason = SR_end_turn, resp_usage = usage_zero,
         resp_model_used = None\<rparr>"
  using assms
  by (simp add: anthropic_run_def anthropic_consume_def anthropic_event_def on_message_stop_def emit_def
      anthropic_decoder_init_def anthropic_result_def)

theorem anthropic_repeated_message_stop_witness:
  "ad_sink (anthropic_run demo_lib [(''message_stop'', ''{}''), (''message_stop'', ''{}'')]
     (anthropic_decoder_init (demo_target anthropic_messages) True)) = Some [OnDone SR_end_turn, OnDone SR_end_turn]"
  using anthropic_repeated_message_stop [of demo_lib "''{}''" "demo_target anthropic_messages"]
  by (simp add: demo_lib_def Let_def)

section \<open>The OpenAI Responses decoder\<close>

record function_call_state =
  fc_item_id :: string
  fc_call_id :: string
  fc_name :: string
  fc_arguments :: string
  fc_started :: bool

definition fc_new :: function_call_state where
  "fc_new = \<lparr>fc_item_id = [], fc_call_id = [], fc_name = [], fc_arguments = [], fc_started = False\<rparr>"

record 'c openai_decoder =
  od_target :: "'c model_target"
  od_sink :: "sink_call list option"
  od_error :: "core_error option"
  od_final :: "string option"
  od_calls :: "string \<Rightarrow> function_call_state option"

definition openai_decoder_init :: "'c model_target \<Rightarrow> bool \<Rightarrow> 'c openai_decoder" where
  "openai_decoder_init t sink = \<lparr>od_target = t, od_sink = (if sink then Some [] else None), od_error = None,
     od_final = None, od_calls = (\<lambda>_. None)\<rparr>"

definition od_emit :: "sink_call \<Rightarrow> 'c openai_decoder \<Rightarrow> 'c openai_decoder" where
  "od_emit c d = d\<lparr>od_sink := map_option (\<lambda>cs. cs @ [c]) (od_sink d)\<rparr>"

definition od_fail :: "core_error \<Rightarrow> 'c openai_decoder \<Rightarrow> 'c openai_decoder" where
  "od_fail e d = (case od_error d of None \<Rightarrow> d\<lparr>od_error := Some e\<rparr> | Some _ \<Rightarrow> d)"

definition od_protocol :: "'c model_target \<Rightarrow> core_error \<Rightarrow> core_error" where
  "od_protocol t = with_ctx ''protocol'' (protocol_name (tgt_protocol t))"

text \<open>\<^verbatim>\<open>function_calls_[item_id]\<close> inserts a fresh state for a new key.\<close>

definition fc_at :: "string \<Rightarrow> 'c openai_decoder \<Rightarrow> function_call_state" where
  "fc_at item_id d = (case od_calls d item_id of Some s \<Rightarrow> s | None \<Rightarrow> fc_new)"

definition fc_ref :: "function_call_state \<Rightarrow> string" where
  "fc_ref s = (if fc_call_id s \<noteq> [] then fc_call_id s else fc_item_id s)"

definition maybe_start_tool :: "string \<Rightarrow> function_call_state \<Rightarrow> 'c openai_decoder \<Rightarrow> 'c openai_decoder" where
  "maybe_start_tool key s d =
     (if od_sink d = None \<or> fc_name s = [] then d\<lparr>od_calls := (od_calls d)(key := Some s)\<rparr>
      else if fc_started s then d\<lparr>od_calls := (od_calls d)(key := Some s)\<rparr>
      else od_emit (OnToolStart (fc_ref s) (fc_name s))
             (d\<lparr>od_calls := (od_calls d)(key := Some (s\<lparr>fc_started := True\<rparr>))\<rparr>))"

definition failed_response_error :: "json \<Rightarrow> 'c model_target \<Rightarrow> core_error" where
  "failed_response_error resp t =
     (let field = (\<lambda>k. case object_member resp ''error'' of Some e \<Rightarrow> string_or_empty e k | None \<Rightarrow> []);
          base = (if field ''code'' = ''rate_limit_exceeded'' then err_rate_limit ''openai responses stream failed''
                  else err_upstream ''openai responses stream failed'')
      in with_ctx ''error_message'' (field ''message'') (with_ctx ''error_code'' (field ''code'') (od_protocol t base)))"

definition on_item_added :: "json \<Rightarrow> 'c openai_decoder \<Rightarrow> 'c openai_decoder" where
  "on_item_added payload d = (case object_member payload ''item'' of
     None \<Rightarrow> d
   | Some item \<Rightarrow>
       let item_id = string_or_empty item ''id'' in
       if string_or_empty item ''type'' \<noteq> ''function_call'' then d
       else if item_id = [] then d
       else let s = (fc_at item_id d)\<lparr>fc_item_id := item_id, fc_call_id := string_or_empty item ''call_id'',
                      fc_name := string_or_empty item ''name''\<rparr>;
                args = string_or_empty item ''arguments'';
                s' = (if args \<noteq> [] then s\<lparr>fc_arguments := args\<rparr> else s)
            in maybe_start_tool item_id s' d)"

definition on_arguments_delta :: "json \<Rightarrow> 'c openai_decoder \<Rightarrow> 'c openai_decoder" where
  "on_arguments_delta payload d =
     (let item_id = string_or_empty payload ''item_id''; delta = string_or_empty payload ''delta'' in
      if item_id = [] then d
      else let s0 = fc_at item_id d;
               s = s0\<lparr>fc_item_id := item_id, fc_arguments := fc_arguments s0 @ delta\<rparr>
           in od_emit (OnToolDelta (fc_ref s) delta) (d\<lparr>od_calls := (od_calls d)(item_id := Some s)\<rparr>))"

definition on_arguments_done :: "json \<Rightarrow> 'c openai_decoder \<Rightarrow> 'c openai_decoder" where
  "on_arguments_done payload d =
     (let item_id = string_or_empty payload ''item_id'' in
      if item_id = [] then d
      else maybe_start_tool item_id
        ((fc_at item_id d)\<lparr>fc_item_id := item_id, fc_name := string_or_empty payload ''name'',
           fc_arguments := string_or_empty payload ''arguments''\<rparr>) d)"

definition on_terminal :: "json_lib \<Rightarrow> string \<Rightarrow> json \<Rightarrow> 'c openai_decoder \<Rightarrow> 'c openai_decoder" where
  "on_terminal lib event payload d = (case object_member payload ''response'' of
     None \<Rightarrow> od_fail (with_ctx ''event'' event (od_protocol (od_target d)
       (err_parsing ''openai responses terminal stream event is missing response''))) d
   | Some resp \<Rightarrow>
       if event = ''response.failed'' then od_fail (failed_response_error resp (od_target d)) d
       else d\<lparr>od_final := Some (json_dump lib resp)\<rparr>)"

definition openai_event :: "json_lib \<Rightarrow> string \<Rightarrow> json \<Rightarrow> 'c openai_decoder \<Rightarrow> 'c openai_decoder" where
  "openai_event lib event payload d =
     (if event = ''response.output_item.added'' then on_item_added payload d
      else if event = ''response.output_text.delta'' then od_emit (OnTextDelta (string_or_empty payload ''delta'')) d
      else if event = ''response.reasoning_summary_text.delta'' \<or> event = ''response.reasoning_text.delta''
        then od_emit (OnThinkingDelta (string_or_empty payload ''delta'')) d
      else if event = ''response.function_call_arguments.delta'' then on_arguments_delta payload d
      else if event = ''response.function_call_arguments.done'' then on_arguments_done payload d
      else if event = ''response.completed'' \<or> event = ''response.incomplete'' \<or> event = ''response.failed''
        then on_terminal lib event payload d
      else if event = ''error'' then
        od_fail (with_ctx ''error_message'' (string_or_empty payload ''message'')
          (with_ctx ''error_code'' (string_or_empty payload ''code'') (od_protocol (od_target d)
            (err_upstream ''openai responses stream returned an error event'')))) d
      else d)"

definition openai_consume :: "json_lib \<Rightarrow> string \<Rightarrow> string \<Rightarrow> 'c openai_decoder \<Rightarrow> 'c openai_decoder" where
  "openai_consume lib event edata d =
     (if od_error d \<noteq> None then d
      else case json_parse lib edata of
        Inl detail \<Rightarrow> od_fail (with_ctx ''detail'' detail (with_ctx ''event'' event (od_protocol (od_target d)
          (err_parsing ''openai responses stream event is not valid JSON'')))) d
      | Inr payload \<Rightarrow>
          if \<not> is_object payload
          then od_fail (with_ctx ''event'' event (od_protocol (od_target d)
            (err_parsing ''openai responses stream event must be a JSON object''))) d
          else openai_event lib event payload d)"

text \<open>\<^verbatim>\<open>result()\<close> with the sink calls after it: the terminal callback is made here.\<close>

definition openai_result :: "json_lib \<Rightarrow> 'c openai_decoder \<Rightarrow> 'c response result \<times> sink_call list option" where
  "openai_result lib d = (case od_error d of
     Some e \<Rightarrow> (Inl e, od_sink d)
   | None \<Rightarrow> (case od_final d of
       None \<Rightarrow> (Inl (od_protocol (od_target d)
         (err_parsing ''openai responses stream ended before terminal response event'')), od_sink d)
     | Some body \<Rightarrow> (case decode_protocol_response lib body (od_target d) of
         Inl e \<Rightarrow> (Inl e, od_sink d)
       | Inr r \<Rightarrow> (Inr r, od_sink (od_emit (OnDone (resp_stop_reason r)) d)))))"

definition openai_run :: "json_lib \<Rightarrow> (string \<times> string) list \<Rightarrow> 'c openai_decoder \<Rightarrow> 'c openai_decoder" where
  "openai_run lib evs d = fold (\<lambda>(event, edata). openai_consume lib event edata) evs d"

section \<open>Properties of the OpenAI decoder\<close>

definition started_items :: "'c openai_decoder \<Rightarrow> string set" where
  "started_items d = {k. \<exists>s. od_calls d k = Some s \<and> fc_started s}"

fun is_tool_start :: "sink_call \<Rightarrow> bool" where
  "is_tool_start (OnToolStart _ _) = True"
| "is_tool_start _ = False"

fun is_done :: "sink_call \<Rightarrow> bool" where
  "is_done (OnDone _) = True"
| "is_done _ = False"

definition od_inv :: "'c openai_decoder \<Rightarrow> bool" where
  "od_inv d \<longleftrightarrow> finite (started_items d) \<and>
     (\<forall>cs. od_sink d = Some cs \<longrightarrow> list_all (\<lambda>c. \<not> is_done c) cs \<and>
        length (filter is_tool_start cs) = card (started_items d))"

lemma od_inv_fail [simp]: "od_inv (od_fail e d) = od_inv d"
  by (simp add: od_inv_def od_fail_def started_items_def split: option.splits)

lemma od_inv_emit: "od_inv d \<Longrightarrow> \<not> is_done c \<Longrightarrow> \<not> is_tool_start c \<Longrightarrow> od_inv (od_emit c d)"
  by (auto simp: od_inv_def od_emit_def started_items_def)

lemma started_items_upd:
  "started_items (d\<lparr>od_calls := (od_calls d)(k := Some s)\<rparr>) =
     (if fc_started s then insert k (started_items d) else started_items d - {k})"
  by (auto simp: started_items_def)

lemma fc_at_started: "fc_started (fc_at k d) \<longleftrightarrow> k \<in> started_items d"
  by (auto simp: fc_at_def started_items_def fc_new_def split: option.splits)

lemma od_inv_upd:
  "od_inv d \<Longrightarrow> fc_started s = (k \<in> started_items d) \<Longrightarrow> od_inv (d\<lparr>od_calls := (od_calls d)(k := Some s)\<rparr>)"
  by (auto simp: od_inv_def started_items_upd insert_absorb)

lemma od_inv_maybe_start:
  assumes "od_inv d" "fc_started s = (k \<in> started_items d)"
  shows "od_inv (maybe_start_tool k s d)"
proof (cases "od_sink d = None \<or> fc_name s = [] \<or> fc_started s")
  case True
  then show ?thesis using od_inv_upd [OF assms] by (auto simp: maybe_start_tool_def)
next
  case False
  let ?d = "d\<lparr>od_calls := (od_calls d)(k := Some (s\<lparr>fc_started := True\<rparr>))\<rparr>"
  from False have m: "maybe_start_tool k s d = od_emit (OnToolStart (fc_ref s) (fc_name s)) ?d"
    by (auto simp: maybe_start_tool_def)
  have "started_items (od_emit c ?d) = insert k (started_items d)" for c
    using started_items_upd [of d k "s\<lparr>fc_started := True\<rparr>"] by (simp add: od_emit_def started_items_def)
  with assms False show ?thesis
    unfolding m od_inv_def by (auto simp: od_emit_def)
qed

lemma od_inv_item_added: "od_inv d \<Longrightarrow> od_inv (on_item_added payload d)"
  unfolding on_item_added_def Let_def
  by (auto split: option.split intro!: od_inv_maybe_start simp: fc_at_started)

lemma od_inv_arguments_delta: "od_inv d \<Longrightarrow> od_inv (on_arguments_delta payload d)"
  unfolding on_arguments_delta_def Let_def
  by (auto intro!: od_inv_emit od_inv_upd simp: fc_at_started)

lemma od_inv_arguments_done: "od_inv d \<Longrightarrow> od_inv (on_arguments_done payload d)"
  unfolding on_arguments_done_def Let_def
  by (auto intro!: od_inv_maybe_start simp: fc_at_started)

lemma od_inv_terminal: "od_inv d \<Longrightarrow> od_inv (on_terminal lib event payload d)"
  unfolding on_terminal_def
  by (auto simp: od_inv_def od_fail_def started_items_def split: option.split)

lemma od_inv_event: "od_inv d \<Longrightarrow> od_inv (openai_event lib event payload d)"
  unfolding openai_event_def
  by (simp add: od_inv_item_added od_inv_arguments_delta od_inv_arguments_done od_inv_terminal od_inv_emit)

lemma od_inv_consume [inv_intros]: "od_inv d \<Longrightarrow> od_inv (openai_consume lib event edata d)"
  unfolding openai_consume_def by (auto split: sum.split intro: od_inv_event)

interpretation openai: invariant_machine "\<lambda>(event, edata). openai_consume lib event edata" "\<lambda>_. True" od_inv for lib
  by unfold_locales (auto intro: od_inv_consume)

lemma od_inv_run: "od_inv (openai_run lib evs (openai_decoder_init t sink))"
proof -
  have "od_inv (openai_decoder_init t sink)"
    by (simp add: od_inv_def openai_decoder_init_def started_items_def)
  then show ?thesis unfolding openai_run_def by (rule openai.run_inv) (simp add: list_all_iff)
qed

text \<open>
  The sink contract of the OpenAI stream. When the stream decodes, the response is the body
  decoding of the terminal event's response object, the terminal callback carries its stop reason,
  comes last and only once, and every function-call item was announced at most once.
\<close>

theorem openai_stream_contract:
  assumes "openai_result lib (openai_run lib evs (openai_decoder_init t True)) = (Inr r, Some calls)"
  shows "\<exists>body cs. od_final (openai_run lib evs (openai_decoder_init t True)) = Some body
    \<and> decode_protocol_response lib body (od_target (openai_run lib evs (openai_decoder_init t True))) = Inr r
    \<and> calls = cs @ [OnDone (resp_stop_reason r)] \<and> list_all (\<lambda>c. \<not> is_done c) cs
    \<and> length (filter is_tool_start cs) = card (started_items (openai_run lib evs (openai_decoder_init t True)))"
proof -
  let ?d = "openai_run lib evs (openai_decoder_init t True)"
  from assms obtain body cs where "od_final ?d = Some body" "od_sink ?d = Some cs"
    "decode_protocol_response lib body (od_target ?d) = Inr r" "calls = cs @ [OnDone (resp_stop_reason r)]"
    by (auto simp: openai_result_def od_emit_def split: option.splits sum.splits)
  then show ?thesis using od_inv_run [of lib evs t True] by (auto simp: od_inv_def)
qed

definition demo_openai_lib :: json_lib where
  "demo_openai_lib = \<lparr>json_parse = (\<lambda>s. if s = ''{}'' then Inr (JObject []) else if s = ''body'' then Inr demo_body
       else if s = ''final'' then Inr (JObject [(''response'', demo_body)]) else Inl ''syntax error''),
     json_dump = (\<lambda>j. if j = demo_body then ''body'' else ''{}'')\<rparr>"

theorem openai_stream_contract_witness:
  "\<exists>r calls cs. openai_result demo_openai_lib (openai_run demo_openai_lib [(''response.completed'', ''final'')]
       (openai_decoder_init (demo_target openai_responses) True)) = (Inr r, Some calls)
     \<and> calls = cs @ [OnDone (resp_stop_reason r)]"
proof -
  have "openai_result demo_openai_lib (openai_run demo_openai_lib [(''response.completed'', ''final'')]
       (openai_decoder_init (demo_target openai_responses) True)) =
     (Inr \<lparr>resp_blocks = [ToolUseContent ''c1'' ''file.read'' ''{}''], resp_stop_reason = SR_tool_use,
          resp_usage = usage_zero, resp_model_used = None\<rparr>, Some [OnDone SR_tool_use])"
    by (simp add: openai_run_def openai_consume_def openai_event_def on_terminal_def object_member_def
        openai_decoder_init_def openai_result_def od_emit_def demo_openai_lib_def demo_body_def
        decode_protocol_response_def decode_openai_response_def demo_target_def
        parse_body_json_def parse_json_object_def required_array_def required_string_def optional_string_def
        append_openai_function_call_def openai_usage_def openai_status_stop_reason_def none_if_empty_def)
  with openai_stream_contract [OF this] show ?thesis by blast
qed

end
