(* ===== verification/Provider_Execution.thy ===== *)
theory Provider_Execution
  imports Provider_Stream Complex_Main
begin

text \<open>
  \<^verbatim>\<open>oran-provider/execution.cpp\<close>: bounded attempts over the primary target and its fallbacks.
  The backend and the timer are arguments: \<open>xb_send\<close> answers the n-th send with the calls it made
  on the sink and with what it returned or threw, \<open>xb_sleep\<close> answers the n-th wait. A log records
  every send and every wait, so that replay and bounds can be stated.
\<close>

section \<open>Data\<close>

record retry_policy =
  max_attempts :: "32 word"
  initial_backoff :: int

record cache_hints =
  prefix_hash :: "64 word"
  prefix_bytes :: nat

record request =
  req_messages :: "message list"
  req_system_prompt :: "string option"
  req_tools :: "tool_def list"
  req_tool_choice :: "string option"
  req_max_tokens :: "32 word option"
  req_thinking_budget :: "32 word option"
  req_stream :: bool
  req_cache :: "cache_hints option"
  req_retry :: retry_policy

record 'c route =
  rt_primary :: "'c model_target"
  rt_fallbacks :: "'c model_target list"

record attribution =
  at_profile :: string
  at_model :: string
  at_protocol :: protocol_kind
  at_fallback :: bool

record 'c outcome =
  oc_target :: attribution
  oc_response :: "'c response result"

datatype 'a awaited = Returned 'a | ThrewAborted | ThrewOther

record 'c sent =
  sent_target :: "'c model_target"
  sent_request :: request
  sent_calls :: "sink_call list"
  sent_answer :: "'c response result awaited"

record 'c exec_log =
  el_sends :: "'c sent list"
  el_sleeps :: "int list"

record 'c exec_backend =
  xb_send :: "nat \<Rightarrow> request \<Rightarrow> 'c model_target \<Rightarrow> bool \<Rightarrow> sink_call list \<times> 'c response result awaited"
  xb_sleep :: "nat \<Rightarrow> int \<Rightarrow> unit result awaited"

section \<open>Operations\<close>

definition with_target_context :: "core_error \<Rightarrow> attribution \<Rightarrow> nat \<Rightarrow> nat \<Rightarrow> core_error" where
  "with_target_context e a attempt max_att =
     with_ctx ''max_attempts'' (show_nat max_att) (with_ctx ''attempt'' (show_nat attempt)
     (with_ctx ''route_role'' (if at_fallback a then ''fallback'' else ''primary'')
     (with_ctx ''protocol'' (protocol_name (at_protocol a))
     (with_ctx ''provider_model'' (at_model a) (with_ctx ''provider_profile'' (at_profile a) e)))))"

text \<open>The cost formula over an arbitrary field; the rounding of \<^verbatim>\<open>double\<close> is not modelled.\<close>

definition apply_profile_cost_if_missing :: "'c::field usage \<Rightarrow> 'c provider_pricing \<Rightarrow> 'c usage" where
  "apply_profile_cost_if_missing u p =
     (if cost_estimate u \<noteq> None \<or> pricing_empty p then u
      else let inp = (case input_per_million p of Some x \<Rightarrow> x | None \<Rightarrow> 0);
               out = (case output_per_million p of Some x \<Rightarrow> x | None \<Rightarrow> inp);
               creation = (case cache_creation_per_million p of Some x \<Rightarrow> x | None \<Rightarrow> inp);
               read = (case cache_read_per_million p of Some x \<Rightarrow> x | None \<Rightarrow> inp)
           in u\<lparr>cost_estimate := Some ((of_nat (unat (input_tokens u)) * inp + of_nat (unat (output_tokens u)) * out
                + of_nat (unat (cache_creation_tokens u)) * creation
                + of_nat (unat (cache_read_tokens u)) * read) / 1000000)\<rparr>)"

definition apply_fallback_thinking_policy :: "request \<Rightarrow> 'c model_target \<Rightarrow> request" where
  "apply_fallback_thinking_policy r t =
     (case tgt_thinking_budget t of
        Some b \<Rightarrow> r\<lparr>req_thinking_budget := Some b\<rparr>
      | None \<Rightarrow> if tgt_protocol t \<noteq> anthropic_messages then r\<lparr>req_thinking_budget := None\<rparr> else r)"

definition attribution_of :: "'c model_target \<Rightarrow> bool \<Rightarrow> attribution" where
  "attribution_of t fb = \<lparr>at_profile = tgt_profile t, at_model = tgt_model t, at_protocol = tgt_protocol t, at_fallback = fb\<rparr>"

definition finish_success :: "'c::field model_target \<Rightarrow> attribution \<Rightarrow> 'c response \<Rightarrow> 'c outcome" where
  "finish_success t a r =
     \<lparr>oc_target = (case resp_model_used r of
         Some m \<Rightarrow> if m \<noteq> [] then a\<lparr>at_model := m\<rparr> else a | None \<Rightarrow> a),
      oc_response = Inr (r\<lparr>resp_usage := apply_profile_cost_if_missing (resp_usage r) (tgt_pricing t)\<rparr>)\<rparr>"

definition failed :: "core_error \<Rightarrow> attribution \<Rightarrow> 'c outcome" where
  "failed e a = \<lparr>oc_target = a, oc_response = Inl e\<rparr>"

text \<open>What \<^verbatim>\<open>catch\<close> makes of an exception that leaves an attempt.\<close>

definition thrown :: "bool \<Rightarrow> attribution \<Rightarrow> nat \<Rightarrow> nat \<Rightarrow> 'c outcome" where
  "thrown aborted a attempt max_att = failed (with_target_context
     (if aborted then err_cancelled else err_internal ''provider execution failed unexpectedly'') a attempt max_att) a"

definition retry_delay :: "core_error \<Rightarrow> request \<Rightarrow> int" where
  "retry_delay e r = max (case err_retry_after e of Some d \<Rightarrow> d | None \<Rightarrow> initial_backoff (req_retry r))
     (initial_backoff (req_retry r))"

text \<open>
  One pass of the inner loop: it ends the run, leaves the loop for the next target after the last
  attempt, or goes on to the next attempt after the wait.
\<close>

datatype 'c attempt_step = StopRun "'c outcome" | NextTarget "'c outcome" | NextAttempt "'c outcome"

definition attempt_failed ::
  "'c::field exec_backend \<Rightarrow> request \<Rightarrow> attribution \<Rightarrow> bool \<Rightarrow> nat \<Rightarrow> nat \<Rightarrow> core_error \<Rightarrow> 'c exec_log
    \<Rightarrow> 'c attempt_step \<times> 'c exec_log" where
  "attempt_failed xb req a emitted max_att attempt e lg =
     (let e1 = with_target_context e a attempt max_att;
          terminal = (err_kind e1 = cancelled_kind \<or> \<not> retryable e1 \<or> emitted);
          e2 = (if emitted \<and> retryable e1
                then with_ctx ''fallback_skipped'' ''stream_already_emitted''
                       (with_ctx ''retry_skipped'' ''stream_already_emitted'' e1)
                else e1);
          delay = retry_delay e2 req
      in if terminal then (StopRun (failed e2 a), lg)
         else if attempt = max_att then (NextTarget (failed e2 a), lg)
         else if delay > 0
         then (case xb_sleep xb (length (el_sleeps lg)) delay of
                 Returned (Inr _) \<Rightarrow> NextAttempt (failed e2 a)
               | Returned (Inl se) \<Rightarrow> StopRun (failed (with_target_context se a attempt max_att) a)
               | ThrewAborted \<Rightarrow> StopRun (thrown True a attempt max_att)
               | ThrewOther \<Rightarrow> StopRun (thrown False a attempt max_att),
               lg\<lparr>el_sleeps := el_sleeps lg @ [delay]\<rparr>)
         else (NextAttempt (failed e2 a), lg))"

definition attempt_once ::
  "'c::field exec_backend \<Rightarrow> request \<Rightarrow> 'c model_target \<Rightarrow> attribution \<Rightarrow> bool \<Rightarrow> nat \<Rightarrow> nat \<Rightarrow> 'c exec_log
    \<Rightarrow> 'c attempt_step \<times> 'c exec_log" where
  "attempt_once xb req t a sink max_att attempt lg =
     (let attempt_request = (if at_fallback a then apply_fallback_thinking_policy req t else req);
          (calls, answer) = xb_send xb (length (el_sends lg)) attempt_request t sink;
          log1 = lg\<lparr>el_sends := el_sends lg @
            [\<lparr>sent_target = t, sent_request = attempt_request, sent_calls = calls, sent_answer = answer\<rparr>]\<rparr>
      in case answer of
        ThrewAborted \<Rightarrow> (StopRun (thrown True a attempt max_att), log1)
      | ThrewOther \<Rightarrow> (StopRun (thrown False a attempt max_att), log1)
      | Returned (Inr r) \<Rightarrow> (StopRun (finish_success t a r), log1)
      | Returned (Inl e) \<Rightarrow> attempt_failed xb req a (sink \<and> calls \<noteq> []) max_att attempt e log1)"

text \<open>
  The attempts on one target, from attempt number \<open>Suc index\<close> on. The result is \<open>Inl\<close> when
  the run ends and \<open>Inr\<close>, with the last failure, when it goes on to the next target.
\<close>

function run_attempts ::
  "'c::field exec_backend \<Rightarrow> request \<Rightarrow> 'c model_target \<Rightarrow> attribution \<Rightarrow> bool \<Rightarrow> nat \<Rightarrow> nat \<Rightarrow> 'c outcome \<Rightarrow> 'c exec_log
    \<Rightarrow> ('c outcome + 'c outcome) \<times> 'c exec_log" where
  "run_attempts xb req t a sink max_att index out lg =
     (if max_att \<le> index then (Inr out, lg)
      else case attempt_once xb req t a sink max_att (Suc index) lg of
        (StopRun out', lg') \<Rightarrow> (Inl out', lg')
      | (NextTarget out', lg') \<Rightarrow> (Inr out', lg')
      | (NextAttempt out', lg') \<Rightarrow> run_attempts xb req t a sink max_att (Suc index) out' lg')"
  by pat_completeness auto
termination by (relation "measure (\<lambda>(xb, req, t, a, sink, max_att, index, out, lg). max_att - index)") auto

declare run_attempts.simps [simp del]

text \<open>The loop over the targets: the primary first, then the fallbacks in order.\<close>

fun run_targets ::
  "'c::field exec_backend \<Rightarrow> request \<Rightarrow> ('c model_target \<times> bool) list \<Rightarrow> bool \<Rightarrow> nat \<Rightarrow> 'c outcome \<Rightarrow> 'c exec_log
    \<Rightarrow> 'c outcome \<times> 'c exec_log" where
  "run_targets xb req [] sink max_att out lg = (out, lg)"
| "run_targets xb req ((t, fb) # ts) sink max_att out lg =
     (case run_attempts xb req t (attribution_of t fb) sink max_att 0
             (out\<lparr>oc_target := attribution_of t fb\<rparr>) lg of
        (Inl out', lg') \<Rightarrow> (out', lg')
      | (Inr out', lg') \<Rightarrow> run_targets xb req ts sink max_att out' lg')"

definition empty_response :: "'c response" where
  "empty_response = \<lparr>resp_blocks = [], resp_stop_reason = SR_end_turn, resp_usage = usage_zero, resp_model_used = None\<rparr>"

definition route_targets :: "'c route \<Rightarrow> ('c model_target \<times> bool) list" where
  "route_targets rt = (rt_primary rt, False) # map (\<lambda>t. (t, True)) (rt_fallbacks rt)"

definition execution_run :: "'c::field exec_backend \<Rightarrow> request \<Rightarrow> 'c route \<Rightarrow> bool \<Rightarrow> 'c outcome \<times> 'c exec_log" where
  "execution_run xb req rt sink =
     (let out = \<lparr>oc_target = attribution_of (rt_primary rt) False, oc_response = Inr empty_response\<rparr>;
          max_att = unat (max_attempts (req_retry req));
          lg = \<lparr>el_sends = [], el_sleeps = []\<rparr>
      in if max_att = 0
         then (out\<lparr>oc_response := Inl (with_ctx ''field'' ''retry.max_attempts''
                 (err_invalid_argument ''provider retry policy requires at least one attempt''))\<rparr>, lg)
         else run_targets xb req (route_targets rt) sink max_att out lg)"

section \<open>What a run sends\<close>

text \<open>A send that may be followed by another one: a retryable failure the caller saw nothing of.\<close>

definition silent_retryable :: "bool \<Rightarrow> 'c sent \<Rightarrow> bool" where
  "silent_retryable sink s \<longleftrightarrow> (\<exists>e. sent_answer s = Returned (Inl e) \<and> retryable e) \<and> (sink \<longrightarrow> sent_calls s = [])"

lemma retryable_context [simp]:
  "retryable (with_target_context e a k n) = retryable e"
  "err_kind (with_target_context e a k n) = err_kind e"
  by (simp_all add: with_target_context_def)

text \<open>The outcome reports what the last send answered.\<close>

definition reports :: "'c::field outcome \<Rightarrow> 'c sent \<Rightarrow> bool" where
  "reports out s \<longleftrightarrow>
     (\<forall>r. oc_response out = Inr r \<longrightarrow> (\<exists>r0. sent_answer s = Returned (Inr r0) \<and>
        r = r0\<lparr>resp_usage := apply_profile_cost_if_missing (resp_usage r0) (tgt_pricing (sent_target s))\<rparr>)) \<and>
     (\<forall>r0. sent_answer s = Returned (Inr r0) \<longrightarrow> (\<exists>r. oc_response out = Inr r))"

lemma attempt_failed_spec:
  assumes "attempt_failed xb req a emitted max_att attempt e lg = (st, lg')"
  shows "el_sends lg' = el_sends lg \<and>
    (case st of StopRun out \<Rightarrow> \<exists>e. oc_response out = Inl e
     | NextTarget out \<Rightarrow> attempt = max_att \<and> retryable e \<and> \<not> emitted \<and> (\<exists>e. oc_response out = Inl e)
     | NextAttempt out \<Rightarrow> attempt \<noteq> max_att \<and> retryable e \<and> \<not> emitted \<and> (\<exists>e. oc_response out = Inl e))"
  using assms
  by (auto simp: attempt_failed_def Let_def failed_def thrown_def split: if_splits awaited.splits sum.splits)

lemma attempt_once_spec:
  assumes "attempt_once xb req t a sink max_att attempt lg = (st, lg')"
  shows "\<exists>s. el_sends lg' = el_sends lg @ [s] \<and> sent_target s = t \<and>
    (case st of StopRun out \<Rightarrow> reports out s
     | NextTarget out \<Rightarrow> attempt = max_att \<and> silent_retryable sink s \<and> reports out s
     | NextAttempt out \<Rightarrow> attempt \<noteq> max_att \<and> silent_retryable sink s \<and> reports out s)"
proof -
  let ?rq = "if at_fallback a then apply_fallback_thinking_policy req t else req"
  obtain calls answer where x: "xb_send xb (length (el_sends lg)) ?rq t sink = (calls, answer)" by fastforce
  let ?s = "\<lparr>sent_target = t, sent_request = ?rq, sent_calls = calls, sent_answer = answer\<rparr>"
  show ?thesis
  proof (cases "\<exists>e. answer = Returned (Inl e)")
    case True
    then obtain e where e: "answer = Returned (Inl e)" by blast
    with assms x have "attempt_failed xb req a (sink \<and> calls \<noteq> []) max_att attempt e
        (lg\<lparr>el_sends := el_sends lg @ [?s]\<rparr>) = (st, lg')"
      by (simp add: attempt_once_def)
    from attempt_failed_spec [OF this] e show ?thesis
      by (intro exI [of _ ?s]) (auto simp: silent_retryable_def reports_def split: attempt_step.splits)
  next
    case False
    with assms x show ?thesis
      by (intro exI [of _ ?s])
        (auto simp: attempt_once_def reports_def finish_success_def thrown_def failed_def Let_def
          split: awaited.splits sum.splits)
  qed
qed

lemma run_attempts_sends:
  assumes "index < max_att" "run_attempts xb req t a sink max_att index out lg = (res, lg')"
  shows "\<exists>new. el_sends lg' = el_sends lg @ new \<and> new \<noteq> [] \<and> length new \<le> max_att - index \<and>
     list_all (silent_retryable sink) (butlast new) \<and> list_all (\<lambda>s. sent_target s = t) new \<and>
     (case res of Inl out \<Rightarrow> reports out (last new)
      | Inr out \<Rightarrow> silent_retryable sink (last new) \<and> reports out (last new))"
  using assms
proof (induction "max_att - index" arbitrary: index out lg)
  case 0
  then show ?case by simp
next
  case (Suc n)
  obtain st log1 where once: "attempt_once xb req t a sink max_att (Suc index) lg = (st, log1)" by fastforce
  from attempt_once_spec [OF this] obtain s where s: "el_sends log1 = el_sends lg @ [s]" "sent_target s = t"
    and st: "case st of StopRun out \<Rightarrow> reports out s
      | NextTarget out \<Rightarrow> Suc index = max_att \<and> silent_retryable sink s \<and> reports out s
      | NextAttempt out \<Rightarrow> Suc index \<noteq> max_att \<and> silent_retryable sink s \<and> reports out s" by blast
  have unfold: "run_attempts xb req t a sink max_att index out lg = (case st of
        StopRun out' \<Rightarrow> (Inl out', log1) | NextTarget out' \<Rightarrow> (Inr out', log1)
      | NextAttempt out' \<Rightarrow> run_attempts xb req t a sink max_att (Suc index) out' log1)"
    using Suc.prems(1) once by (subst run_attempts.simps) simp
  show ?case
  proof (cases st)
    case (NextAttempt out')
    with st Suc.prems have lt: "Suc index < max_att" by simp
    have "run_attempts xb req t a sink max_att (Suc index) out' log1 = (res, lg')"
      using unfold NextAttempt Suc.prems(2) by simp
    moreover have "n = max_att - Suc index" using Suc.hyps(2) by simp
    ultimately obtain new where
      "el_sends lg' = el_sends log1 @ new" "new \<noteq> []" "length new \<le> max_att - Suc index"
      "list_all (silent_retryable sink) (butlast new)" "list_all (\<lambda>s. sent_target s = t) new"
      "case res of Inl out \<Rightarrow> reports out (last new)
        | Inr out \<Rightarrow> silent_retryable sink (last new) \<and> reports out (last new)"
      using Suc.hyps(1) [OF _ lt] by blast
    with s st NextAttempt lt show ?thesis
      by (intro exI [of _ "s # new"]) (auto split: sum.splits)
  next
    case (StopRun out')
    with unfold Suc.prems s st show ?thesis by (intro exI [of _ "[s]"]) auto
  next
    case (NextTarget out')
    with unfold Suc.prems s st show ?thesis by (intro exI [of _ "[s]"]) auto
  qed
qed

lemma run_targets_sends:
  assumes "0 < max_att" "run_targets xb req ts sink max_att out lg = (out', lg')" "ts \<noteq> []"
  shows "\<exists>new. el_sends lg' = el_sends lg @ new \<and> new \<noteq> [] \<and> length new \<le> max_att * length ts \<and>
     list_all (silent_retryable sink) (butlast new) \<and> reports out' (last new) \<and>
     list_all (\<lambda>s. sent_target s \<in> set (map fst ts)) new"
  using assms(2,3)
proof (induction ts arbitrary: out lg)
  case (Cons tfb ts)
  obtain t fb where tfb: "tfb = (t, fb)" by fastforce
  obtain res log1 where att: "run_attempts xb req t (attribution_of t fb) sink max_att 0
      (out\<lparr>oc_target := attribution_of t fb\<rparr>) lg = (res, log1)" by fastforce
  from run_attempts_sends [OF assms(1) att] obtain new where new:
    "el_sends log1 = el_sends lg @ new" "new \<noteq> []" "length new \<le> max_att"
    "list_all (silent_retryable sink) (butlast new)" "list_all (\<lambda>s. sent_target s = t) new"
    "case res of Inl out \<Rightarrow> reports out (last new)
      | Inr out \<Rightarrow> silent_retryable sink (last new) \<and> reports out (last new)" by auto
  show ?case
  proof (cases "\<exists>out1. res = Inr out1 \<and> ts \<noteq> []")
    case True
    then obtain out1 where r: "res = Inr out1" "ts \<noteq> []" by blast
    with Cons.prems att tfb have "run_targets xb req ts sink max_att out1 log1 = (out', lg')" by simp
    from Cons.IH [OF this r(2)] obtain new' where new':
      "el_sends lg' = el_sends log1 @ new'" "new' \<noteq> []" "length new' \<le> max_att * length ts"
      "list_all (silent_retryable sink) (butlast new')" "reports out' (last new')"
      "list_all (\<lambda>s. sent_target s \<in> set (map fst ts)) new'" by blast
    have "list_all (silent_retryable sink) new"
      using new r by (cases new rule: rev_cases) auto
    with new new' tfb show ?thesis
      by (intro exI [of _ "new @ new'"]) (auto simp: butlast_append list_all_iff)
  next
    case False
    with Cons.prems att tfb new show ?thesis
      by (intro exI [of _ new]) (auto simp: list_all_iff split: sum.splits)
  qed
qed simp

lemma execution_run_sends:
  assumes "execution_run xb req rt sink = (out, lg)" "max_attempts (req_retry req) \<noteq> 0"
  shows "el_sends lg \<noteq> [] \<and> length (el_sends lg) \<le> unat (max_attempts (req_retry req)) * Suc (length (rt_fallbacks rt)) \<and>
     list_all (silent_retryable sink) (butlast (el_sends lg)) \<and> reports out (last (el_sends lg)) \<and>
     list_all (\<lambda>s. sent_target s \<in> insert (rt_primary rt) (set (rt_fallbacks rt))) (el_sends lg)"
proof -
  have "0 < unat (max_attempts (req_retry req))" using assms(2) by (simp add: unat_gt_0)
  moreover have "route_targets rt \<noteq> []" by (simp add: route_targets_def)
  moreover have "run_targets xb req (route_targets rt) sink (unat (max_attempts (req_retry req)))
      \<lparr>oc_target = attribution_of (rt_primary rt) False, oc_response = Inr empty_response\<rparr>
      \<lparr>el_sends = [], el_sleeps = []\<rparr> = (out, lg)"
    using assms by (auto simp: execution_run_def Let_def unat_eq_zero)
  ultimately show ?thesis
    using run_targets_sends [of "unat (max_attempts (req_retry req))" xb req "route_targets rt" sink
        "\<lparr>oc_target = attribution_of (rt_primary rt) False, oc_response = Inr empty_response\<rparr>"
        "\<lparr>el_sends = [], el_sleeps = []\<rparr>" out lg]
    by (auto simp: route_targets_def comp_def list_all_iff)
qed

section \<open>Properties\<close>

text \<open>
  C14: visible output is never replayed. In every run, each send but the last failed with a
  retryable error and made no call on the caller's sink, so at most one send is ever visible, and
  the number of sends is bounded by the attempts allowed on each target of the route.
\<close>

theorem execution_never_replays_visible_output:
  assumes "execution_run xb req rt sink = (out, lg)"
  shows "list_all (silent_retryable sink) (butlast (el_sends lg)) \<and>
    length (el_sends lg) \<le> unat (max_attempts (req_retry req)) * Suc (length (rt_fallbacks rt))"
proof (cases "max_attempts (req_retry req) = 0")
  case True
  with assms show ?thesis by (auto simp: execution_run_def Let_def)
next
  case False
  then show ?thesis using execution_run_sends [OF assms] by blast
qed

definition demo_request :: request where
  "demo_request = \<lparr>req_messages = [user_text ''hi''], req_system_prompt = None, req_tools = [], req_tool_choice = None,
     req_max_tokens = None, req_thinking_budget = None, req_stream = True, req_cache = None,
     req_retry = \<lparr>max_attempts = 2, initial_backoff = 0\<rparr>\<rparr>"

definition demo_route :: "rat route" where
  "demo_route = \<lparr>rt_primary = \<lparr>tgt_profile = ''p'', tgt_model = ''m'', tgt_protocol = anthropic_messages,
     tgt_thinking_budget = None, tgt_cache = None, tgt_pricing = \<lparr>input_per_million = None, output_per_million = None,
       cache_creation_per_million = None, cache_read_per_million = None\<rparr>\<rparr>, rt_fallbacks = []\<rparr>"

text \<open>A backend that fails once with a network error and then answers.\<close>

definition demo_backend :: "rat exec_backend" where
  "demo_backend = \<lparr>xb_send = (\<lambda>n req t sink. if n = 0 then ([], Returned (Inl (err_network ''reset'')))
       else ([OnTextDelta ''ok''], Returned (Inr empty_response))),
     xb_sleep = (\<lambda>n d. Returned (Inr ()))\<rparr>"

lemma demo_execution:
  "\<exists>out lg. execution_run demo_backend demo_request demo_route True = (out, lg) \<and> length (el_sends lg) = 2"
  by (simp add: execution_run_def demo_request_def demo_route_def demo_backend_def route_targets_def
      run_attempts.simps attempt_once_def attempt_failed_def retry_delay_def with_target_context_def
      retryable_def attribution_of_def failed_def Let_def err_network_def)

theorem execution_never_replays_visible_output_witness:
  "\<exists>out lg. execution_run demo_backend demo_request demo_route True = (out, lg) \<and> length (el_sends lg) = 2 \<and>
     list_all (silent_retryable True) (butlast (el_sends lg))"
  using demo_execution execution_never_replays_visible_output by blast

text \<open>
  With at least one attempt allowed, a run answers: it sends at least once, only to targets
  of the route, succeeds exactly when its last send did, and the response is that send's response
  with the profile's cost estimate filled in.
\<close>

theorem execution_reports_last_send:
  assumes "execution_run xb req rt sink = (out, lg)" "max_attempts (req_retry req) \<noteq> 0"
  shows "el_sends lg \<noteq> [] \<and> reports out (last (el_sends lg)) \<and>
    list_all (\<lambda>s. sent_target s \<in> insert (rt_primary rt) (set (rt_fallbacks rt))) (el_sends lg)"
  using execution_run_sends [OF assms] by blast

theorem execution_reports_last_send_witness:
  "\<exists>out lg. execution_run demo_backend demo_request demo_route True = (out, lg) \<and>
     reports out (last (el_sends lg))"
proof -
  have "max_attempts (req_retry demo_request) \<noteq> 0" by (simp add: demo_request_def)
  then show ?thesis using demo_execution execution_reports_last_send by blast
qed

end
