(* ===== verification/Hook_Bus.thy ===== *)
theory Hook_Bus
  imports Core_Content Complex_Main
begin

text \<open>
  \<^verbatim>\<open>oran/hook/event.hpp\<close>, \<^verbatim>\<open>decision.hpp\<close>, \<^verbatim>\<open>payload.hpp\<close>, \<^verbatim>\<open>sink.hpp\<close> and
  \<^verbatim>\<open>oran-hook/bus.cpp\<close>: the effect gates and observations of the runtime. A sink's callbacks are
  functions of the event and of the payload it is given; the race of a decision against the timer
  is an argument. The theory shows that a gate fails closed and that an untrusted sink cannot learn
  what redaction removes.
\<close>

section \<open>Events, decisions and payloads\<close>

datatype hook_event =
    EvChannelAction | EvProviderRequest | EvProviderResponse | EvProviderError | EvToolBefore | EvToolAfter
  | EvMemoryReadAfter | EvMemoryWriteBefore | EvMemoryWriteAfter | EvMemoryForget | EvPermissionAskRendered

fun is_gate :: "hook_event \<Rightarrow> bool" where
  "is_gate EvToolBefore = True"
| "is_gate EvPermissionAskRendered = True"
| "is_gate EvMemoryWriteBefore = True"
| "is_gate _ = False"

datatype hook_decision_kind = HkProceed | HkVeto | HkRewrite | HkRequireApproval

definition hook_decision_kind_name :: "hook_decision_kind \<Rightarrow> string" where
  "hook_decision_kind_name k = (case k of HkProceed \<Rightarrow> ''proceed'' | HkVeto \<Rightarrow> ''veto''
     | HkRewrite \<Rightarrow> ''rewrite'' | HkRequireApproval \<Rightarrow> ''require_approval'')"

record hook_trace =
  ht_sink_id :: string
  ht_kind :: hook_decision_kind
  ht_reason :: string
  ht_elapsed :: "int option"

record hook_decision =
  hd_kind :: hook_decision_kind
  hd_reason :: string
  hd_rewritten :: "string option"
  hd_trace :: "hook_trace list"

definition proceed_decision :: hook_decision where
  "proceed_decision = \<lparr>hd_kind = HkProceed, hd_reason = [], hd_rewritten = None, hd_trace = []\<rparr>"

text \<open>Doubles are only copied into payloads.\<close>

type_synonym double = rat

record hook_identity =
  id_scope_key :: string
  id_agent_key :: string
  id_identity :: string

record tool_before_payload =
  tb_tool_name :: string
  tb_input_json :: string
  tb_redacted :: "string option"
  tb_who :: hook_identity
  tb_started_at :: int

record hook_tool_usage =
  hu_bytes_read :: "nat option"
  hu_bytes_written :: "nat option"
  hu_files_touched :: "32 word option"
  hu_match_count :: "64 word option"
  hu_cost_estimate :: "double option"
  hu_wall_time :: "int option"
  hu_truncated :: bool
  hu_data_dropped :: bool

record tool_after_payload =
  ta_tool_name :: string
  ta_input_json :: string
  ta_redacted :: "string option"
  ta_who :: hook_identity
  ta_succeeded :: bool
  ta_output_text :: string
  ta_data_json :: "string option"
  ta_usage :: hook_tool_usage
  ta_error_kind :: string
  ta_error_message :: string
  ta_started_at :: int
  ta_finished_at :: int
  ta_duration :: int

record permission_ask_payload =
  pa_tool_name :: string
  pa_input_json :: string
  pa_redacted :: "string option"
  pa_who :: hook_identity
  pa_decision_reason :: string
  pa_replay_max :: "32 word"
  pa_approval_ttl :: int
  pa_requested_at :: int
  pa_turn_id :: "turn_id option"

record memory_record_payload =
  mr_id :: string
  mr_scope_key :: string
  mr_kind :: string
  mr_title :: string
  mr_body :: string
  mr_created_at :: int
  mr_updated_at :: int
  mr_last_read_at :: int
  mr_importance :: double
  mr_tags :: "string list"
  mr_linked :: "string list"
  mr_shadow :: bool

record redacted_memory_record =
  rm_id :: string
  rm_scope_key :: string
  rm_kind :: string
  rm_title_bytes :: nat
  rm_body_bytes :: nat
  rm_tag_count :: nat
  rm_linked_count :: nat
  rm_shadow :: bool

record memory_write_payload =
  mw_who :: hook_identity
  mw_record :: memory_record_payload
  mw_redacted :: "redacted_memory_record option"
  mw_started_at :: int
  mw_finished_at :: int
  mw_duration :: int

record memory_read_hit =
  mh_record :: memory_record_payload
  mh_score :: double
  mh_redacted :: "redacted_memory_record option"

record memory_read_payload =
  md_who :: hook_identity
  md_source :: string
  md_query :: string
  md_redacted_query_bytes :: "nat option"
  md_limit :: nat
  md_kinds :: "string list"
  md_match_count :: nat
  md_hits :: "memory_read_hit list"
  md_started_at :: int
  md_finished_at :: int
  md_duration :: int

record memory_forget_payload =
  mf_who :: hook_identity
  mf_id :: string
  mf_scope_key :: string
  mf_started_at :: int
  mf_finished_at :: int
  mf_duration :: int

record channel_action_payload =
  ca_platform :: string
  ca_account :: string
  ca_operation :: string
  ca_allowed :: bool

record provider_usage =
  pu_input_tokens :: "64 word"
  pu_output_tokens :: "64 word"
  pu_cache_creation_tokens :: "64 word"
  pu_cache_read_tokens :: "64 word"
  pu_cost_estimate :: "double option"

record provider_request_payload =
  pq_who :: hook_identity
  pq_origin :: string
  pq_turn_id :: "turn_id option"
  pq_iteration :: "32 word"
  pq_route_profile :: string
  pq_route_model :: string
  pq_route_protocol :: string
  pq_fallback_count :: nat
  pq_message_count :: nat
  pq_tool_count :: nat
  pq_stream :: bool
  pq_max_tokens :: "32 word option"
  pq_thinking_budget :: "32 word option"
  pq_retry_max_attempts :: "32 word"
  pq_retry_initial_backoff :: int
  pq_started_at :: int

record provider_response_payload =
  ps_who :: hook_identity
  ps_origin :: string
  ps_turn_id :: "turn_id option"
  ps_iteration :: "32 word"
  ps_route_profile :: string
  ps_route_model :: string
  ps_route_protocol :: string
  ps_served_profile :: string
  ps_served_model :: string
  ps_served_protocol :: string
  ps_stop_reason :: string
  ps_usage :: provider_usage
  ps_started_at :: int
  ps_finished_at :: int
  ps_duration :: int

record provider_error_payload =
  pe_who :: hook_identity
  pe_origin :: string
  pe_turn_id :: "turn_id option"
  pe_iteration :: "32 word"
  pe_route_profile :: string
  pe_route_model :: string
  pe_route_protocol :: string
  pe_error_kind :: string
  pe_error_message :: string
  pe_retryable :: bool
  pe_started_at :: int
  pe_finished_at :: int
  pe_duration :: int

datatype payload =
    PChannelAction channel_action_payload
  | PToolBefore tool_before_payload
  | PToolAfter tool_after_payload
  | PPermissionAsk permission_ask_payload
  | PMemoryRead memory_read_payload
  | PMemoryWrite memory_write_payload
  | PMemoryForget memory_forget_payload
  | PProviderRequest provider_request_payload
  | PProviderResponse provider_response_payload
  | PProviderError provider_error_payload

section \<open>Redaction\<close>

definition clear_memory_text :: "memory_record_payload \<Rightarrow> memory_record_payload" where
  "clear_memory_text r = r\<lparr>mr_title := [], mr_body := [], mr_tags := [], mr_linked := []\<rparr>"

definition redact_hit :: "memory_read_hit \<Rightarrow> memory_read_hit" where
  "redact_hit h = (if mh_redacted h \<noteq> None then h\<lparr>mh_record := clear_memory_text (mh_record h)\<rparr> else h)"

fun redact_payload :: "payload \<Rightarrow> payload" where
  "redact_payload (PToolBefore p) =
     PToolBefore (case tb_redacted p of Some r \<Rightarrow> p\<lparr>tb_input_json := r\<rparr> | None \<Rightarrow> p)"
| "redact_payload (PToolAfter p) =
     PToolAfter ((case ta_redacted p of Some r \<Rightarrow> p\<lparr>ta_input_json := r\<rparr> | None \<Rightarrow> p)\<lparr>ta_data_json := None\<rparr>)"
| "redact_payload (PPermissionAsk p) =
     PPermissionAsk (case pa_redacted p of Some r \<Rightarrow> p\<lparr>pa_input_json := r\<rparr> | None \<Rightarrow> p)"
| "redact_payload (PMemoryWrite p) =
     PMemoryWrite (if mw_redacted p \<noteq> None then p\<lparr>mw_record := clear_memory_text (mw_record p)\<rparr> else p)"
| "redact_payload (PMemoryRead p) =
     PMemoryRead ((if md_redacted_query_bytes p \<noteq> None then p\<lparr>md_query := []\<rparr> else p)
       \<lparr>md_hits := map redact_hit (md_hits p)\<rparr>)"
| "redact_payload p = p"

section \<open>Sinks and the bus\<close>

text \<open>
  A \<^verbatim>\<open>PayloadPtr\<close> is an optional payload. What a decision callback does: return a result, throw a
  standard exception with a text, or throw something else.
\<close>

datatype decide_reply =
    Replied "hook_decision result"
  | ThrewStd string
  | ThrewNonStd

record sink =
  sk_id :: string
  sk_observe :: bool
  sk_decide :: "(hook_event \<Rightarrow> payload option \<Rightarrow> decide_reply) option"
  sk_trusted_local :: bool

record bus_options =
  blocking_timeout :: int
  advisory_timeout :: int

record bus =
  bus_bindings :: "hook_event \<Rightarrow> sink list option"
  bus_opts :: bus_options

definition new_bus :: "bus_options \<Rightarrow> bus" where
  "new_bus opts = \<lparr>bus_bindings = (\<lambda>_. None), bus_opts = opts\<rparr>"

definition subscribe :: "sink \<Rightarrow> hook_event list \<Rightarrow> bus \<Rightarrow> bus" where
  "subscribe s events b = fold (\<lambda>e b. b\<lparr>bus_bindings := (bus_bindings b)(e \<mapsto>
     (case bus_bindings b e of Some ss \<Rightarrow> ss | None \<Rightarrow> []) @ [s])\<rparr>) events b"

record shared_payloads =
  sp_trusted :: "payload option"
  sp_redacted :: "payload option"

definition make_shared_payloads :: "sink list \<Rightarrow> payload \<Rightarrow> shared_payloads" where
  "make_shared_payloads sinks p =
     (let needs_trusted = list_ex sk_trusted_local sinks;
          needs_redacted = \<not> list_all sk_trusted_local sinks
      in if needs_trusted
         then \<lparr>sp_trusted = Some p, sp_redacted = (if needs_redacted then Some (redact_payload p) else None)\<rparr>
         else \<lparr>sp_trusted = None, sp_redacted = (if needs_redacted then Some (redact_payload p) else None)\<rparr>)"

definition for_sink :: "shared_payloads \<Rightarrow> sink \<Rightarrow> payload option" where
  "for_sink sp s = (if sk_trusted_local s then sp_trusted sp else sp_redacted sp)"

definition hook_error_veto :: "string \<Rightarrow> string \<Rightarrow> hook_decision" where
  "hook_error_veto cause sink_id = proceed_decision\<lparr>hd_kind := HkVeto, hd_reason :=
     ''hook_error'' @ (if cause \<noteq> [] then '': '' @ cause else []) @ '' [sink='' @ sink_id @ '']''\<rparr>"

definition call_decide ::
  "string \<Rightarrow> (hook_event \<Rightarrow> payload option \<Rightarrow> decide_reply) \<Rightarrow> hook_event \<Rightarrow> payload option \<Rightarrow> hook_decision" where
  "call_decide sink_id decide event p = (case decide event p of
     Replied (Inl e) \<Rightarrow> hook_error_veto (err_message e) sink_id
   | Replied (Inr d) \<Rightarrow> d
   | ThrewStd what \<Rightarrow> hook_error_veto what sink_id
   | ThrewNonStd \<Rightarrow> hook_error_veto ''sink threw non-std exception'' sink_id)"

text \<open>Who wins the race of the n-th decision against its timer.\<close>

datatype race = DecisionFirst | TimerFired | TimerFailed core_error

definition call_decide_within ::
  "race \<Rightarrow> string \<Rightarrow> (hook_event \<Rightarrow> payload option \<Rightarrow> decide_reply) \<Rightarrow> hook_event \<Rightarrow> payload option \<Rightarrow> int
    \<Rightarrow> (hook_decision \<times> int option) result" where
  "call_decide_within rc sink_id decide event p timeout =
     (if timeout \<le> 0 then Inr (call_decide sink_id decide event p, None)
      else case rc of
        DecisionFirst \<Rightarrow> Inr (call_decide sink_id decide event p, None)
      | TimerFailed e \<Rightarrow> Inl e
      | TimerFired \<Rightarrow> Inr (proceed_decision\<lparr>hd_kind := HkVeto, hd_reason := ''hook_timeout''\<rparr>, Some timeout))"

fun consult ::
  "(nat \<Rightarrow> race) \<Rightarrow> hook_event \<Rightarrow> shared_payloads \<Rightarrow> int \<Rightarrow> sink list \<Rightarrow> hook_trace list \<Rightarrow> hook_decision result" where
  "consult rc event sp timeout [] trace = Inr (proceed_decision\<lparr>hd_trace := trace\<rparr>)"
| "consult rc event sp timeout (s # ss) trace = (case sk_decide s of
     None \<Rightarrow> consult rc event sp timeout ss trace
   | Some decide \<Rightarrow>
       (case call_decide_within (rc (length trace)) (sk_id s) decide event (for_sink sp s) timeout of
          Inl e \<Rightarrow> Inl e
        | Inr (d, elapsed) \<Rightarrow>
            let trace' = trace @ [\<lparr>ht_sink_id = sk_id s, ht_kind = hd_kind d, ht_reason = hd_reason d,
                                   ht_elapsed = elapsed\<rparr>]
            in if hd_kind d \<noteq> HkProceed then Inr (d\<lparr>hd_trace := trace'\<rparr>)
               else consult rc event sp timeout ss trace'))"

definition publish_blocking :: "(nat \<Rightarrow> race) \<Rightarrow> bus \<Rightarrow> hook_event \<Rightarrow> payload \<Rightarrow> hook_decision result" where
  "publish_blocking rc b event p = (case bus_bindings b event of
     None \<Rightarrow> Inr proceed_decision
   | Some sinks \<Rightarrow>
       consult rc event (make_shared_payloads sinks p)
         (if event = EvPermissionAskRendered then 0 else blocking_timeout (bus_opts b)) sinks [])"

text \<open>What an advisory publication hands out: one delivery to each observing sink, in order.\<close>

definition publish_advisory :: "bus \<Rightarrow> hook_event \<Rightarrow> payload \<Rightarrow> (string \<times> bool \<times> payload option) list" where
  "publish_advisory b event p = (case bus_bindings b event of
     None \<Rightarrow> []
   | Some sinks \<Rightarrow>
       let observers = filter sk_observe sinks; sp = make_shared_payloads observers p
       in map (\<lambda>s. (sk_id s, sk_trusted_local s, for_sink sp s)) observers)"

section \<open>Facts\<close>

lemma for_sink_shared:
  "s \<in> set sinks \<Longrightarrow> for_sink (make_shared_payloads sinks p) s =
     Some (if sk_trusted_local s then p else redact_payload p)"
  by (auto simp: for_sink_def make_shared_payloads_def Let_def list_ex_iff list_all_iff)

lemma redact_hit_idem: "redact_hit (redact_hit h) = redact_hit h"
  by (simp add: redact_hit_def clear_memory_text_def)

lemma redact_payload_idem: "redact_payload (redact_payload p) = redact_payload p"
  by (cases p) (auto simp: clear_memory_text_def redact_hit_idem comp_def split: option.splits)

text \<open>
  Consulting the sinks only depends on what each deciding sink answers to the payload it is given.
\<close>

lemma consult_cong:
  assumes "\<And>s decide. s \<in> set ss \<Longrightarrow> sk_decide s = Some decide \<Longrightarrow>
    decide event (for_sink sp s) = decide event (for_sink sp' s)"
  shows "consult rc event sp timeout ss trace = consult rc event sp' timeout ss trace"
  using assms
proof (induction ss arbitrary: trace)
  case (Cons s ss)
  have "call_decide_within r i decide event (for_sink sp s) timeout = call_decide_within r i decide event (for_sink sp' s) timeout"
    if "sk_decide s = Some decide" for r i decide
    using Cons.prems [of s decide] that by (simp add: call_decide_within_def call_decide_def split: race.split)
  with Cons show ?case by (auto simp: Let_def split: option.split sum.split)
qed simp

text \<open>
  An actual approval: the callback of the sink returned, with the decision \<open>proceed\<close>, for the view of
  the payload the sink may see, and it did so before its timer fired (no timer runs for a timeout of zero).
\<close>

definition approves :: "race \<Rightarrow> int \<Rightarrow> hook_event \<Rightarrow> payload option \<Rightarrow> sink \<Rightarrow> bool" where
  "approves r timeout event view s \<longleftrightarrow>
     (case sk_decide s of
        None \<Rightarrow> False
      | Some decide \<Rightarrow> (case decide event view of
          Replied (Inr d) \<Rightarrow> hd_kind d = HkProceed
        | _ \<Rightarrow> False)) \<and> (timeout \<le> 0 \<or> r = DecisionFirst)"

lemma call_decide_within_proceeds:
  assumes "sk_decide s = Some decide"
  shows "(\<exists>d el. call_decide_within r (sk_id s) decide event view timeout = Inr (d, el) \<and> hd_kind d = HkProceed) \<longleftrightarrow>
    approves r timeout event view s"
  using assms
  by (auto simp: call_decide_within_def approves_def call_decide_def hook_error_veto_def
      split: race.splits decide_reply.splits sum.splits)

text \<open>
  The gate lets the effect proceed exactly when every deciding sink approves, the n-th of them in the
  n-th race; it then reports all of them, in order.
\<close>

lemma consult_proceeds_iff:
  "(\<exists>d. consult rc event sp timeout ss trace = Inr d \<and> hd_kind d = HkProceed) \<longleftrightarrow>
   (let ds = filter (\<lambda>s. sk_decide s \<noteq> None) ss in
      \<forall>i < length ds. approves (rc (length trace + i)) timeout event (for_sink sp (ds ! i)) (ds ! i))"
proof (induction ss arbitrary: trace)
  case Nil
  then show ?case by (simp add: proceed_decision_def)
next
  case (Cons s ss)
  show ?case
  proof (cases "sk_decide s")
    case None
    with Cons show ?thesis by simp
  next
    case (Some decide)
    let ?w = "call_decide_within (rc (length trace)) (sk_id s) decide event (for_sink sp s) timeout"
    let ?ds = "filter (\<lambda>s. sk_decide s \<noteq> None) ss"
    have "(\<exists>d. consult rc event sp timeout (s # ss) trace = Inr d \<and> hd_kind d = HkProceed) \<longleftrightarrow>
        (\<exists>d el. ?w = Inr (d, el) \<and> hd_kind d = HkProceed) \<and>
        (\<forall>i < length ?ds. approves (rc (Suc (length trace) + i)) timeout event (for_sink sp (?ds ! i)) (?ds ! i))"
      using Some Cons.IH by (auto simp: Let_def split: sum.splits prod.splits)
    also have "\<dots> \<longleftrightarrow> approves (rc (length trace)) timeout event (for_sink sp s) s \<and>
        (\<forall>i < length ?ds. approves (rc (Suc (length trace) + i)) timeout event (for_sink sp (?ds ! i)) (?ds ! i))"
      using call_decide_within_proceeds [OF Some] by blast
    finally show ?thesis using Some by (simp add: Let_def All_less_Suc2)
  qed
qed

lemma consult_trace:
  assumes "consult rc event sp timeout ss trace = Inr d" "hd_kind d = HkProceed"
  shows "map ht_sink_id (hd_trace d) = map ht_sink_id trace @ map sk_id (filter (\<lambda>s. sk_decide s \<noteq> None) ss)"
  using assms
proof (induction ss arbitrary: trace)
  case (Cons s ss)
  then show ?case by (auto simp: Let_def split: option.splits sum.splits prod.splits if_splits)
qed auto

section \<open>Properties\<close>

text \<open>
  C13: a gate fails closed. Publishing on a gate returns \<open>proceed\<close> exactly when the callback of every
  subscribed sink that decides, given the payload (a trusted sink) or its redacted view (any other),
  returned \<open>proceed\<close> and did so before its timer fired; the trace then names all of these sinks, in
  subscription order. So an error, an exception of any kind, a veto, a rewrite, or a timeout of any
  of them never lets the effect through.
\<close>

theorem gate_fails_closed:
  assumes "bus_bindings b event = Some sinks"
  shows "let ds = filter (\<lambda>s. sk_decide s \<noteq> None) sinks;
      timeout = (if event = EvPermissionAskRendered then 0 else blocking_timeout (bus_opts b)) in
    ((\<exists>d. publish_blocking rc b event p = Inr d \<and> hd_kind d = HkProceed) \<longleftrightarrow>
      (\<forall>i < length ds. (\<exists>decide d.
          sk_decide (ds ! i) = Some decide \<and>
          decide event (Some (if sk_trusted_local (ds ! i) then p else redact_payload p)) = Replied (Inr d) \<and>
          hd_kind d = HkProceed) \<and> (timeout \<le> 0 \<or> rc i = DecisionFirst))) \<and>
    (\<forall>d. publish_blocking rc b event p = Inr d \<and> hd_kind d = HkProceed \<longrightarrow>
      map ht_sink_id (hd_trace d) = map sk_id ds)"
proof -
  define ds where "ds = filter (\<lambda>s. sk_decide s \<noteq> None) sinks"
  define timeout where "timeout = (if event = EvPermissionAskRendered then 0 else blocking_timeout (bus_opts b))"
  have view: "for_sink (make_shared_payloads sinks p) (ds ! i) = Some (if sk_trusted_local (ds ! i) then p else redact_payload p)"
    if "i < length ds" for i
    using nth_mem [OF that] by (intro for_sink_shared) (simp add: ds_def)
  have "approves r timeout event view s \<longleftrightarrow>
      (\<exists>decide d. sk_decide s = Some decide \<and> decide event view = Replied (Inr d) \<and> hd_kind d = HkProceed) \<and>
      (timeout \<le> 0 \<or> r = DecisionFirst)" for r view s
    by (auto simp: approves_def split: option.splits decide_reply.splits sum.splits)
  then have "(\<exists>d. publish_blocking rc b event p = Inr d \<and> hd_kind d = HkProceed) \<longleftrightarrow>
      (\<forall>i < length ds. (\<exists>decide d.
          sk_decide (ds ! i) = Some decide \<and>
          decide event (Some (if sk_trusted_local (ds ! i) then p else redact_payload p)) = Replied (Inr d) \<and>
          hd_kind d = HkProceed) \<and> (timeout \<le> 0 \<or> rc i = DecisionFirst))"
    using consult_proceeds_iff [of rc event "make_shared_payloads sinks p" timeout sinks "[]", folded ds_def] view assms
    by (auto simp: publish_blocking_def Let_def timeout_def [symmetric])
  moreover have "map ht_sink_id (hd_trace d) = map sk_id ds" if "publish_blocking rc b event p = Inr d" "hd_kind d = HkProceed" for d
    using that consult_trace [of rc event _ _ sinks "[]" d] assms by (simp add: publish_blocking_def ds_def)
  ultimately show ?thesis unfolding Let_def ds_def timeout_def by blast
qed

definition demo_sink :: sink where
  "demo_sink = \<lparr>sk_id = ''s'', sk_observe = True,
     sk_decide = Some (\<lambda>e p. case p of Some (PToolBefore t) \<Rightarrow>
       if tb_input_json t = ''secret'' then Replied (Inr (proceed_decision\<lparr>hd_kind := HkVeto\<rparr>)) else Replied (Inr proceed_decision)
       | _ \<Rightarrow> ThrewNonStd),
     sk_trusted_local = False\<rparr>"

text \<open>A trusted sink beside it, which sees the input and rejects only an empty one.\<close>

definition demo_trusted :: sink where
  "demo_trusted = \<lparr>sk_id = ''t'', sk_observe = True,
     sk_decide = Some (\<lambda>e p. case p of Some (PToolBefore t) \<Rightarrow>
       if tb_input_json t = [] then ThrewStd ''empty'' else Replied (Inr proceed_decision)
       | _ \<Rightarrow> ThrewNonStd),
     sk_trusted_local = True\<rparr>"

definition demo_bus :: bus where
  "demo_bus = subscribe demo_sink [EvToolBefore] (subscribe demo_trusted [EvToolBefore]
     (new_bus \<lparr>blocking_timeout = 2000, advisory_timeout = 2000\<rparr>))"

definition demo_before :: "string \<Rightarrow> payload" where
  "demo_before input = PToolBefore \<lparr>tb_tool_name = ''FileWrite'', tb_input_json = input, tb_redacted = Some ''{}'',
     tb_who = \<lparr>id_scope_key = [], id_agent_key = [], id_identity = []\<rparr>, tb_started_at = 0\<rparr>"

lemma demo_bindings: "bus_bindings demo_bus EvToolBefore = Some [demo_trusted, demo_sink]"
  by (simp add: demo_bus_def subscribe_def new_bus_def)

text \<open>The gate opens when both sinks answer in time, and stays closed when the timer of the second fires.\<close>

theorem gate_fails_closed_witness:
  "(\<exists>d. publish_blocking (\<lambda>_. DecisionFirst) demo_bus EvToolBefore (demo_before ''secret'') = Inr d \<and>
     hd_kind d = HkProceed \<and> map ht_sink_id (hd_trace d) = [''t'', ''s'']) \<and>
   \<not> (\<exists>d. publish_blocking (\<lambda>i. if i = 1 then TimerFired else DecisionFirst) demo_bus EvToolBefore (demo_before ''secret'') = Inr d \<and>
     hd_kind d = HkProceed)"
proof -
  note gate = gate_fails_closed [OF demo_bindings, unfolded Let_def, THEN conjunct1]
    and trace = gate_fails_closed [OF demo_bindings, unfolded Let_def, THEN conjunct2]
  have open_gate: "\<exists>d. publish_blocking (\<lambda>_. DecisionFirst) demo_bus EvToolBefore (demo_before ''secret'') = Inr d \<and> hd_kind d = HkProceed"
    unfolding gate by (simp add: All_less_Suc2 demo_trusted_def demo_sink_def demo_before_def proceed_decision_def)
  then have "\<exists>d. publish_blocking (\<lambda>_. DecisionFirst) demo_bus EvToolBefore (demo_before ''secret'') = Inr d \<and>
      hd_kind d = HkProceed \<and> map ht_sink_id (hd_trace d) = [''t'', ''s'']"
    using trace [of "\<lambda>_. DecisionFirst" "demo_before ''secret''"] by (auto simp: demo_trusted_def demo_sink_def)
  moreover have "\<not> (\<exists>d. publish_blocking (\<lambda>i. if i = 1 then TimerFired else DecisionFirst) demo_bus EvToolBefore (demo_before ''secret'') = Inr d \<and>
      hd_kind d = HkProceed)"
    unfolding gate by (simp add: All_less_Suc2 demo_trusted_def demo_sink_def demo_bus_def subscribe_def new_bus_def)
  ultimately show ?thesis by blast
qed

text \<open>
  C35: what redaction removes does not reach untrusted sinks, whatever other sinks listen. Take two
  payloads with the same redacted view, and trusted sinks that answer both alike. Then the gate gives
  the same decision and trace for both, however the untrusted sinks decide and the races go; and
  the deliveries an advisory publication makes to untrusted observers are the same.
\<close>

theorem untrusted_sinks_noninterference:
  assumes "redact_payload p = redact_payload q"
    and "\<And>sinks s decide. bus_bindings b event = Some sinks \<Longrightarrow> s \<in> set sinks \<Longrightarrow> sk_trusted_local s \<Longrightarrow>
      sk_decide s = Some decide \<Longrightarrow> decide event (Some p) = decide event (Some q)"
  shows "publish_blocking rc b event p = publish_blocking rc b event q
    \<and> filter (\<lambda>(i, trusted, view). \<not> trusted) (publish_advisory b event p) =
       filter (\<lambda>(i, trusted, view). \<not> trusted) (publish_advisory b event q)"
proof (cases "bus_bindings b event")
  case None
  then show ?thesis by (simp add: publish_blocking_def publish_advisory_def)
next
  case (Some sinks)
  let ?os = "filter sk_observe sinks"
  have "publish_blocking rc b event p = publish_blocking rc b event q"
    unfolding publish_blocking_def using Some assms
    by (auto simp: for_sink_shared intro!: consult_cong)
  moreover have "filter (\<lambda>(i, trusted, view). \<not> trusted)
        (map (\<lambda>s. (sk_id s, sk_trusted_local s, for_sink (make_shared_payloads ?os p) s)) os) =
      filter (\<lambda>(i, trusted, view). \<not> trusted)
        (map (\<lambda>s. (sk_id s, sk_trusted_local s, for_sink (make_shared_payloads ?os q) s)) os)"
    if "set os \<subseteq> set ?os" for os
    using that by (induction os) (auto simp: for_sink_shared assms(1))
  ultimately show ?thesis using Some by (simp add: publish_advisory_def Let_def)
qed

theorem untrusted_sinks_noninterference_witness:
  "redact_payload (demo_before ''secret'') = redact_payload (demo_before ''other'') \<and>
   publish_blocking (\<lambda>_. DecisionFirst) demo_bus EvToolBefore (demo_before ''secret'') =
   publish_blocking (\<lambda>_. DecisionFirst) demo_bus EvToolBefore (demo_before ''other'') \<and>
   publish_advisory demo_bus EvToolBefore (demo_before ''secret'') \<noteq>
   publish_advisory demo_bus EvToolBefore (demo_before ''other'')"
proof -
  have r: "redact_payload (demo_before ''secret'') = redact_payload (demo_before ''other'')"
    by (simp add: demo_before_def)
  have u: "decide EvToolBefore (Some (demo_before ''secret'')) = decide EvToolBefore (Some (demo_before ''other''))"
    if "bus_bindings demo_bus EvToolBefore = Some sinks" "s \<in> set sinks" "sk_trusted_local s" "sk_decide s = Some decide" for sinks s decide
    using that by (auto simp: demo_bindings demo_sink_def demo_trusted_def demo_before_def)
  have "publish_advisory demo_bus EvToolBefore (demo_before ''secret'') \<noteq> publish_advisory demo_bus EvToolBefore (demo_before ''other'')"
    by (simp add: publish_advisory_def demo_bindings demo_trusted_def demo_sink_def make_shared_payloads_def for_sink_def demo_before_def)
  then show ?thesis using r untrusted_sinks_noninterference [OF r, where b = demo_bus and event = EvToolBefore] u by blast
qed

end
