(* ===== verification/Tool_Input.thy ===== *)
theory Tool_Input
  imports Complex_Main Core_Content Json_Value Core_Str Perm_Approval
    "HOL-Library.List_Lexorder" "HOL-Library.Char_ord" "HOL-Library.Multiset"
begin

text \<open>
  The boundary of the tool layer: registration checks of input schemas
  (\<^verbatim>\<open>schema_validation.cpp\<close>), the argument parser the built-ins share (\<^verbatim>\<open>parse_input.cpp\<close>), the
  input view given to hooks (\<^verbatim>\<open>input_redaction.cpp\<close>), output caps (\<^verbatim>\<open>output.cpp\<close>) and the
  selection of the native catalogue (\<^verbatim>\<open>catalog.cpp\<close>).
\<close>

section \<open>Schema validation\<close>

definition json_schema_types :: "string list" where
  "json_schema_types = [''array'', ''boolean'', ''integer'', ''null'', ''number'', ''object'', ''string'']"

definition schema_error :: "string \<Rightarrow> string \<Rightarrow> string \<Rightarrow> core_error" where
  "schema_error msg tool path = with_ctx ''schema_path'' path (with_ctx ''tool'' tool (err_invalid_argument msg))"

definition child_path :: "string \<Rightarrow> string \<Rightarrow> string" where
  "child_path base child = (if base = [] \<or> base = ''$'' then ''$.'' @ child else base @ ''.'' @ child)"

definition element_path :: "string \<Rightarrow> nat \<Rightarrow> string" where
  "element_path base i = base @ ''['' @ show_nat i @ '']''"

definition is_known_schema_type :: "string \<Rightarrow> bool" where
  "is_known_schema_type v \<longleftrightarrow> v \<in> set json_schema_types"

fun validate_type_items :: "json list \<Rightarrow> nat \<Rightarrow> string \<Rightarrow> string \<Rightarrow> unit result" where
  "validate_type_items [] i tool path = Inr ()"
| "validate_type_items (v # vs) i tool path = (case v of
     JString type \<Rightarrow>
       if \<not> is_known_schema_type type
       then Inl (with_ctx ''value'' type
         (schema_error ''tool input_schema_json has an unknown JSON Schema type'' tool (element_path path i)))
       else validate_type_items vs (Suc i) tool path
   | _ \<Rightarrow> Inl (schema_error ''tool input_schema_json `type` array entries must be strings'' tool (element_path path i)))"

definition validate_schema_type :: "json \<Rightarrow> string \<Rightarrow> string \<Rightarrow> unit result" where
  "validate_schema_type v tool path = (case v of
     JString type \<Rightarrow>
       if \<not> is_known_schema_type type
       then Inl (with_ctx ''value'' type
         (schema_error ''tool input_schema_json has an unknown JSON Schema type'' tool path))
       else Inr ()
   | JArray (x # xs) \<Rightarrow> validate_type_items (x # xs) 0 tool path
   | _ \<Rightarrow> Inl (schema_error ''tool input_schema_json `type` must be a string or a non-empty string array'' tool path))"

fun validate_required_items :: "json list \<Rightarrow> nat \<Rightarrow> json option \<Rightarrow> string \<Rightarrow> string \<Rightarrow> unit result" where
  "validate_required_items [] i properties tool path = Inr ()"
| "validate_required_items (v # vs) i properties tool path = (case v of
     JString name \<Rightarrow>
       if name = []
       then Inl (schema_error ''tool input_schema_json `required` entries must be non-empty'' tool (element_path path i))
       else if (case properties of Some p \<Rightarrow> is_object p \<and> json_member p name = None | None \<Rightarrow> False)
       then Inl (with_ctx ''property'' name (schema_error
         ''tool input_schema_json `required` entry is not declared in `properties`'' tool (element_path path i)))
       else validate_required_items vs (Suc i) properties tool path
   | _ \<Rightarrow> Inl (schema_error ''tool input_schema_json `required` entries must be strings'' tool (element_path path i)))"

definition validate_required :: "json \<Rightarrow> json option \<Rightarrow> string \<Rightarrow> string \<Rightarrow> unit result" where
  "validate_required required properties tool path = (case required of
     JArray xs \<Rightarrow> validate_required_items xs 0 properties tool path
   | _ \<Rightarrow> Inl (schema_error ''tool input_schema_json `required` must be an array'' tool path))"

definition validate_enum :: "json \<Rightarrow> string \<Rightarrow> string \<Rightarrow> unit result" where
  "validate_enum schema tool path = (case json_member schema ''enum'' of
     Some e \<Rightarrow> if \<not> is_array e \<or> json_elements e = []
       then Inl (schema_error ''tool input_schema_json `enum` must be a non-empty array'' tool (child_path path ''enum''))
       else Inr ()
   | None \<Rightarrow> Inr ())"

definition validate_bound :: "json \<Rightarrow> string \<Rightarrow> string \<Rightarrow> string \<Rightarrow> unit result" where
  "validate_bound schema keyword tool path = (case json_member schema keyword of
     Some e \<Rightarrow> if \<not> is_number e
       then Inl (schema_error ''tool input_schema_json numeric bounds must be numbers'' tool (child_path path keyword))
       else Inr ()
   | None \<Rightarrow> Inr ())"

function validate_schema_node :: "json \<Rightarrow> string \<Rightarrow> string \<Rightarrow> unit result"
  and validate_properties :: "json \<Rightarrow> string \<Rightarrow> string \<Rightarrow> unit result"
  and validate_property_list :: "(string \<times> json) list \<Rightarrow> string \<Rightarrow> string \<Rightarrow> unit result" where
  "validate_schema_node schema tool path =
     (if is_boolean schema then Inr ()
      else if \<not> is_object schema
      then Inl (schema_error ''tool input_schema_json nodes must be JSON objects or booleans'' tool path)
      else
        rbind (case json_member schema ''type'' of Some t \<Rightarrow> validate_schema_type t tool (child_path path ''type'')
          | None \<Rightarrow> Inr ()) (\<lambda>_.
        rbind (case json_member schema ''properties'' of
            Some p \<Rightarrow> validate_properties p tool (child_path path ''properties'') | None \<Rightarrow> Inr ()) (\<lambda>_.
        rbind (case json_member schema ''required'' of
            Some r \<Rightarrow> validate_required r (json_member schema ''properties'') tool (child_path path ''required'')
          | None \<Rightarrow> Inr ()) (\<lambda>_.
        rbind (case json_member schema ''additionalProperties'' of
            Some a \<Rightarrow> if is_boolean a then Inr () else validate_schema_node a tool (child_path path ''additionalProperties'')
          | None \<Rightarrow> Inr ()) (\<lambda>_.
        rbind (validate_enum schema tool path) (\<lambda>_.
        rbind (validate_bound schema ''minimum'' tool path) (\<lambda>_.
          validate_bound schema ''maximum'' tool path)))))))"
| "validate_properties properties tool path =
     (case properties of
        JObject kvs \<Rightarrow> validate_property_list kvs tool path
      | _ \<Rightarrow> Inl (schema_error ''tool input_schema_json `properties` must be an object'' tool path))"
| "validate_property_list [] tool path = Inr ()"
| "validate_property_list ((name, q) # kvs) tool path =
     (if name = []
      then Inl (schema_error ''tool input_schema_json property names must be non-empty'' tool (child_path path name))
      else rbind (validate_schema_node q tool (child_path path name)) (\<lambda>_. validate_property_list kvs tool path))"
  by pat_completeness auto
termination
proof (relation "measure (\<lambda>x. case x of Inl (j, _) \<Rightarrow> size j | Inr (Inl (j, _)) \<Rightarrow> size j
    | Inr (Inr (kvs, _)) \<Rightarrow> size_list (size_prod (\<lambda>_. 0) size) kvs)")
qed (auto dest: size_json_member)

declare validate_schema_node.simps [simp del] validate_properties.simps [simp del]

definition validate_input_schema :: "json_lib \<Rightarrow> string \<Rightarrow> string \<Rightarrow> unit result" where
  "validate_input_schema lib tool schema_json =
     (if schema_json = []
      then Inl (schema_error ''tool input_schema_json must not be empty'' tool ''$'')
      else case json_parse lib schema_json of
        Inl detail \<Rightarrow> Inl (with_ctx ''detail'' detail (schema_error ''tool input_schema_json is not valid JSON'' tool ''$''))
      | Inr parsed \<Rightarrow>
          if \<not> is_object parsed
          then Inl (schema_error ''tool input_schema_json must be a JSON Schema object'' tool ''$'')
          else validate_schema_node parsed tool ''$'')"

section \<open>Argument parsing\<close>

definition input_error :: "string \<Rightarrow> string \<Rightarrow> core_error" where
  "input_error tool msg = err_invalid_argument (tool @ '': '' @ msg)"

definition parse_input_object :: "json_lib \<Rightarrow> string \<Rightarrow> string \<Rightarrow> string list \<Rightarrow> json result" where
  "parse_input_object lib input_json tool allowed_fields = (case json_parse lib input_json of
     Inl detail \<Rightarrow> Inl (with_ctx ''detail'' detail (input_error tool ''input is not valid JSON''))
   | Inr parsed \<Rightarrow>
       if \<not> is_object parsed then Inl (input_error tool ''input must be a JSON object'')
       else if allowed_fields = [] then Inr parsed
       else (case find (\<lambda>(key, v). key \<notin> set allowed_fields) (json_items parsed) of
         Some (key, v) \<Rightarrow> Inl (with_ctx ''field'' key (input_error tool ''unknown input field''))
       | None \<Rightarrow> Inr parsed))"

definition require_string_field :: "json \<Rightarrow> string \<Rightarrow> string \<Rightarrow> string result" where
  "require_string_field input tool field = (case json_member input field of
     Some (JString s) \<Rightarrow> Inr s
   | _ \<Rightarrow> Inl (input_error tool (''input must include a string `'' @ field @ ''` field'')))"

definition require_path_field :: "json \<Rightarrow> string \<Rightarrow> string result" where
  "require_path_field input tool =
     rbind (require_string_field input tool ''path'') (\<lambda>path.
       if path = [] \<or> byte_to_char 0 \<in> set path
       then Inl (input_error tool ''`path` must be non-empty and contain no NUL bytes'')
       else Inr path)"

definition parse_positive_unsigned :: "json \<Rightarrow> string \<Rightarrow> string \<Rightarrow> 64 word result" where
  "parse_positive_unsigned raw tool field =
     (let quoted = ''`'' @ field @ ''` '' in case raw of
        JUnsigned n \<Rightarrow> if n = 0 then Inl (input_error tool (quoted @ ''must be positive'')) else Inr n
      | JInteger i \<Rightarrow> if i \<le> 0
          then Inl (with_ctx ''value'' (show_int i) (input_error tool (quoted @ ''must be positive'')))
          else Inr (of_int i)
      | _ \<Rightarrow> Inl (input_error tool (quoted @ ''must be a positive integer'')))"

definition file_max_bytes_limit :: "64 word" where
  "file_max_bytes_limit = 16 * 1024 * 1024"

definition parse_file_max_bytes :: "json \<Rightarrow> string \<Rightarrow> 64 word result" where
  "parse_file_max_bytes input tool = (case json_member input ''max_bytes'' of
     None \<Rightarrow> Inr file_max_bytes_limit
   | Some raw \<Rightarrow> rbind (parse_positive_unsigned raw tool ''max_bytes'') (\<lambda>v.
       if file_max_bytes_limit < v
       then Inl (with_ctx ''max_bytes'' (show_nat (unat file_max_bytes_limit))
              (with_ctx ''value'' (show_nat (unat v)) (input_error tool ''`max_bytes` must be <= 16777216'')))
       else Inr v))"

section \<open>The input view of hooks\<close>

definition redacted_tools :: "string list" where
  "redacted_tools = [''MemoryRemember'', ''AgentRun'']"

definition team_tools :: "string list" where
  "team_tools = [''TeamCreate'', ''TeamTaskCreate'', ''TeamTaskUpdate'', ''TeamGet'', ''TeamStop'', ''TeamMessage'',
     ''TeamMemberAdd'']"

definition is_team_tool :: "string \<Rightarrow> bool" where
  "is_team_tool name \<longleftrightarrow> name \<in> set team_tools"

definition hash_input :: "crypto \<Rightarrow> string \<Rightarrow> string" where
  "hash_input cr input = to_hex (input_hash cr input)"

definition base_redacted_input :: "crypto \<Rightarrow> string \<Rightarrow> string \<Rightarrow> (string \<times> json) list" where
  "base_redacted_input cr tool input =
     [(''kind'', JString ''redacted_tool_input''), (''tool_name'', JString tool),
      (''input_hash'', JString (hash_input cr input)), (''input_bytes'', JUnsigned (of_nat (length input)))]"

definition add_string_byte_count :: "json \<Rightarrow> string \<Rightarrow> string \<Rightarrow> (string \<times> json) list \<Rightarrow> (string \<times> json) list" where
  "add_string_byte_count input field output_name out = (case json_member input field of
     Some (JString s) \<Rightarrow> set_member output_name (JUnsigned (of_nat (length s))) out
   | _ \<Rightarrow> out)"

definition fill_file_write_counts :: "json \<Rightarrow> (string \<times> json) list \<Rightarrow> (string \<times> json) list" where
  "fill_file_write_counts input out = add_string_byte_count input ''content'' ''content_bytes''
     (set_member ''redacted_fields'' (JArray [JString ''content'']) out)"

definition fill_file_edit_counts :: "json \<Rightarrow> (string \<times> json) list \<Rightarrow> (string \<times> json) list" where
  "fill_file_edit_counts input out =
     add_string_byte_count input ''new_string'' ''new_string_bytes''
     (add_string_byte_count input ''old_string'' ''old_string_bytes''
     (set_member ''redacted_fields'' (JArray [JString ''old_string'', JString ''new_string'']) out))"

definition redacted_hook_input_json :: "crypto \<Rightarrow> json_lib \<Rightarrow> string \<Rightarrow> string \<Rightarrow> string option" where
  "redacted_hook_input_json cr lib tool input_json =
     (if tool \<noteq> ''FileWrite'' \<and> tool \<noteq> ''FileEdit'' \<and> tool \<notin> set redacted_tools \<and> \<not> is_team_tool tool then None
      else let out = base_redacted_input cr tool input_json;
               status = (\<lambda>st kvs. Some (json_dump lib (JObject (set_member ''redaction_status'' (JString st) kvs))))
        in if tool \<in> set redacted_tools \<or> is_team_tool tool then status ''ok'' out
           else case json_parse lib input_json of
             Inl _ \<Rightarrow> status ''input_json_parse_failed'' out
           | Inr input \<Rightarrow>
               if \<not> is_object input then status ''input_json_not_object'' out
               else status ''ok'' (if tool = ''FileWrite'' then fill_file_write_counts input out
                                   else fill_file_edit_counts input out))"

section \<open>Output caps\<close>

record tool_usage =
  tu_bytes_read :: "nat option"
  tu_bytes_written :: "nat option"
  tu_files_touched :: "32 word option"
  tu_match_count :: "64 word option"
  tu_cost_estimate :: "rat option"
  tu_wall_time :: "int option"
  tu_truncated :: bool
  tu_data_dropped :: bool

record attachment =
  att_file_path :: string
  att_mime_type :: string
  att_byte_size :: "nat option"
  att_fingerprint :: "string option"

record tool_output =
  out_text :: string
  out_data_json :: "string option"
  out_attachments :: "attachment list"
  out_usage :: tool_usage
  out_is_error :: bool

record output_caps =
  max_text_bytes :: nat
  max_data_bytes :: nat

record output_cap_report =
  cr_text_truncated :: bool
  cr_data_dropped :: bool
  cr_text_before :: nat
  cr_text_after :: nat
  cr_data_before :: nat

definition cap_text :: "output_caps \<Rightarrow> tool_output \<Rightarrow> tool_output" where
  "cap_text caps out =
     (if max_text_bytes caps \<noteq> 0 \<and> max_text_bytes caps < length (out_text out)
      then out\<lparr>out_text := truncate_to_code_point (out_text out) (max_text_bytes caps),
               out_usage := (out_usage out)\<lparr>tu_truncated := True\<rparr>\<rparr>
      else out)"

definition cap_data :: "output_caps \<Rightarrow> tool_output \<Rightarrow> tool_output" where
  "cap_data caps out = (case out_data_json out of
     Some d \<Rightarrow> if max_data_bytes caps \<noteq> 0 \<and> max_data_bytes caps < length d
       then out\<lparr>out_data_json := None, out_usage := (out_usage out)\<lparr>tu_data_dropped := True\<rparr>\<rparr> else out
   | None \<Rightarrow> out)"

definition apply_output_caps :: "output_caps \<Rightarrow> tool_output \<Rightarrow> tool_output \<times> output_cap_report" where
  "apply_output_caps caps out =
     (let o1 = cap_text caps out; o2 = cap_data caps o1 in
      (o2, \<lparr>cr_text_truncated = (max_text_bytes caps \<noteq> 0 \<and> max_text_bytes caps < length (out_text out)),
            cr_data_dropped = (case out_data_json out of
              Some d \<Rightarrow> max_data_bytes caps \<noteq> 0 \<and> max_data_bytes caps < length d | None \<Rightarrow> False),
            cr_text_before = length (out_text out), cr_text_after = length (out_text o1),
            cr_data_before = (case out_data_json out of Some d \<Rightarrow> length d | None \<Rightarrow> 0)\<rparr>))"

section \<open>The native catalogue\<close>

fun adjacent_duplicate :: "tool_def list \<Rightarrow> tool_def option" where
  "adjacent_duplicate (a # b # ds) = (if tool_name a = tool_name b then Some a else adjacent_duplicate (b # ds))"
| "adjacent_duplicate _ = None"

definition select_tools :: "tool_def list \<Rightarrow> string list option \<Rightarrow> tool_def list result" where
  "select_tools catalog names =
     (case (case names of Some ns \<Rightarrow> find (\<lambda>n. n \<notin> tool_name ` set catalog) ns | None \<Rightarrow> None) of
        Some n \<Rightarrow> Inl (with_ctx ''tool'' n (err_not_found ''active tool is not registered''))
      | None \<Rightarrow>
          let selected = sort_key tool_name (filter (\<lambda>d. case names of None \<Rightarrow> True | Some ns \<Rightarrow> tool_name d \<in> set ns) catalog)
          in (case adjacent_duplicate selected of
            Some d \<Rightarrow> Inl (with_ctx ''tool'' (tool_name d) (err_invalid_argument ''tool catalogue contains duplicate names''))
          | None \<Rightarrow> Inr selected))"

section \<open>What the schema check accepts\<close>

text \<open>The accepted schemas, declared without paths, tool names or an order of the checks.\<close>

definition type_ok :: "json \<Rightarrow> bool" where
  "type_ok t \<longleftrightarrow> (\<exists>s. t = JString s \<and> s \<in> set json_schema_types) \<or>
     (\<exists>xs. t = JArray xs \<and> xs \<noteq> [] \<and> (\<forall>x \<in> set xs. \<exists>s. x = JString s \<and> s \<in> set json_schema_types))"

definition required_ok :: "json \<Rightarrow> json option \<Rightarrow> bool" where
  "required_ok r props \<longleftrightarrow> (\<exists>xs. r = JArray xs \<and> (\<forall>x \<in> set xs. \<exists>n. x = JString n \<and> n \<noteq> [] \<and>
     (\<forall>kvs. props = Some (JObject kvs) \<longrightarrow> n \<in> fst ` set kvs)))"

inductive schema_ok :: "json \<Rightarrow> bool" where
  bool: "schema_ok (JBool b)"
| object: "\<lbrakk>\<And>t. map_of kvs ''type'' = Some t \<Longrightarrow> type_ok t;
    \<And>p. map_of kvs ''properties'' = Some p \<Longrightarrow> is_object p;
    \<And>ps n q. map_of kvs ''properties'' = Some (JObject ps) \<Longrightarrow> (n, q) \<in> set ps \<Longrightarrow> n \<noteq> [];
    \<And>ps n q. map_of kvs ''properties'' = Some (JObject ps) \<Longrightarrow> (n, q) \<in> set ps \<Longrightarrow> schema_ok q;
    \<And>r. map_of kvs ''required'' = Some r \<Longrightarrow> required_ok r (map_of kvs ''properties'');
    \<And>a. map_of kvs ''additionalProperties'' = Some a \<Longrightarrow> schema_ok a;
    \<And>e. map_of kvs ''enum'' = Some e \<Longrightarrow> is_array e \<and> json_elements e \<noteq> [];
    \<And>b. map_of kvs ''minimum'' = Some b \<Longrightarrow> is_number b;
    \<And>b. map_of kvs ''maximum'' = Some b \<Longrightarrow> is_number b\<rbrakk>
   \<Longrightarrow> schema_ok (JObject kvs)"

inductive_cases schema_ok_objectE: "schema_ok (JObject kvs)"

lemma is_ok_simps [simp]: "is_ok (rbind r f) \<longleftrightarrow> (\<exists>x. r = Inr x \<and> is_ok (f x))"
  by (cases r) auto

lemma is_ok_unit: "is_ok r \<longleftrightarrow> r = Inr ()"
  by (cases r) auto

lemma validate_type_items_ok:
  "validate_type_items xs i tool path = Inr () \<longleftrightarrow> (\<forall>x \<in> set xs. \<exists>s. x = JString s \<and> s \<in> set json_schema_types)"
  by (induction xs i tool path rule: validate_type_items.induct)
    (auto simp: is_known_schema_type_def split: json.splits)

lemma validate_schema_type_ok: "validate_schema_type t tool path = Inr () \<longleftrightarrow> type_ok t"
  by (auto simp: validate_schema_type_def type_ok_def is_known_schema_type_def validate_type_items_ok
      simp del: validate_type_items.simps split: json.splits list.splits)

lemma map_of_None_fst: "map_of kvs k = None \<longleftrightarrow> k \<notin> fst ` set kvs"
  by (simp add: map_of_eq_None_iff)

lemma validate_required_items_ok:
  "validate_required_items xs i props tool path = Inr () \<longleftrightarrow>
     (\<forall>x \<in> set xs. \<exists>n. x = JString n \<and> n \<noteq> [] \<and> (\<forall>kvs. props = Some (JObject kvs) \<longrightarrow> n \<in> fst ` set kvs))"
proof (induction xs i props tool path rule: validate_required_items.induct)
  case (2 v vs i props tool path)
  have undeclared: "(case props of Some p \<Rightarrow> is_object p \<and> json_member p n = None | None \<Rightarrow> False) \<longleftrightarrow>
      \<not> (\<forall>kvs. props = Some (JObject kvs) \<longrightarrow> n \<in> fst ` set kvs)" for n
    by (cases props; simp; cases "the props") (auto simp: map_of_None_fst)
  with 2 show ?case by (cases v) auto
qed simp

lemma validate_required_ok: "validate_required r props tool path = Inr () \<longleftrightarrow> required_ok r props"
  by (cases r) (auto simp: validate_required_def required_ok_def validate_required_items_ok)

lemma validate_enum_ok:
  "validate_enum (JObject kvs) tool path = Inr () \<longleftrightarrow>
     (\<forall>e. map_of kvs ''enum'' = Some e \<longrightarrow> is_array e \<and> json_elements e \<noteq> [])"
  by (auto simp: validate_enum_def split: option.splits)

lemma validate_bound_ok:
  "validate_bound (JObject kvs) kw tool path = Inr () \<longleftrightarrow> (\<forall>b. map_of kvs kw = Some b \<longrightarrow> is_number b)"
  by (auto simp: validate_bound_def split: option.splits)

lemma validate_node_object:
  "validate_schema_node (JObject kvs) tool path = Inr () \<longleftrightarrow>
     (\<forall>t. map_of kvs ''type'' = Some t \<longrightarrow> type_ok t) \<and>
     (\<forall>p. map_of kvs ''properties'' = Some p \<longrightarrow> validate_properties p tool (child_path path ''properties'') = Inr ()) \<and>
     (\<forall>r. map_of kvs ''required'' = Some r \<longrightarrow> required_ok r (map_of kvs ''properties'')) \<and>
     (\<forall>a. map_of kvs ''additionalProperties'' = Some a \<longrightarrow> is_boolean a \<or>
        validate_schema_node a tool (child_path path ''additionalProperties'') = Inr ()) \<and>
     (\<forall>e. map_of kvs ''enum'' = Some e \<longrightarrow> is_array e \<and> json_elements e \<noteq> []) \<and>
     (\<forall>b. map_of kvs ''minimum'' = Some b \<longrightarrow> is_number b) \<and> (\<forall>b. map_of kvs ''maximum'' = Some b \<longrightarrow> is_number b)"
  by (subst validate_schema_node.simps)
    (auto simp: rbind_Inr_iff validate_schema_type_ok validate_required_ok validate_enum_ok validate_bound_ok
      split: option.splits)

lemma validate_property_list_ok:
  "validate_property_list kvs tool path = Inr () \<longleftrightarrow>
     (\<forall>(n, q) \<in> set kvs. n \<noteq> [] \<and> validate_schema_node q tool (child_path path n) = Inr ())"
  by (induction kvs) (auto simp: rbind_Inr_iff split: if_splits)

lemma validate_properties_ok:
  "validate_properties p tool path = Inr () \<longleftrightarrow> (\<exists>kvs. p = JObject kvs \<and>
     (\<forall>(n, q) \<in> set kvs. n \<noteq> [] \<and> validate_schema_node q tool (child_path path n) = Inr ()))"
  by (cases p) (simp_all add: validate_properties.simps validate_property_list_ok)

lemma size_item: "(n, q) \<in> set kvs \<Longrightarrow> size q < size (JObject kvs)"
proof -
  assume "(n, q) \<in> set kvs"
  then have "size_prod (\<lambda>_. 0) size (n, q) \<le> size_list (size_prod (\<lambda>_. 0) size) kvs"
    by (rule size_list_estimation') simp
  then show ?thesis by simp
qed

lemma validate_node_sound: "validate_schema_node j tool path = Inr () \<Longrightarrow> schema_ok j"
proof (induction j arbitrary: tool path rule: measure_induct_rule [of size])
  case (less j)
  show ?case
  proof (cases j)
    case (JObject kvs)
    note v = less.prems [unfolded JObject validate_node_object]
    have m: "map_of kvs k = Some w \<Longrightarrow> size w < size j" for k w
      using size_item [of k w kvs] JObject by (auto dest: map_of_SomeD)
    show ?thesis
      unfolding JObject
    proof (rule schema_ok.object)
      fix ps n q assume p: "map_of kvs ''properties'' = Some (JObject ps)" and nq: "(n, q) \<in> set ps"
      then have "n \<noteq> [] \<and> validate_schema_node q tool (child_path (child_path path ''properties'') n) = Inr ()"
        using v by (auto simp: validate_properties_ok)
      moreover have "size q < size j" using m [OF p] size_item [OF nq] by simp
      ultimately show "n \<noteq> []" "schema_ok q" using less.IH by blast+
    next
      fix a assume a: "map_of kvs ''additionalProperties'' = Some a"
      show "schema_ok a"
      proof (cases "is_boolean a")
        case True
        then show ?thesis by (cases a) (auto intro: schema_ok.bool)
      next
        case False
        with v a less.IH [OF m [OF a]] show ?thesis by blast
      qed
    qed (use v in \<open>auto simp: validate_properties_ok\<close>)
  next
    case (JBool b)
    then show ?thesis by (simp add: schema_ok.bool)
  qed (use less.prems in \<open>simp_all add: validate_schema_node.simps\<close>)
qed

lemma validate_node_complete: "schema_ok j \<Longrightarrow> validate_schema_node j tool path = Inr ()"
proof (induction j arbitrary: tool path rule: schema_ok.induct)
  case (bool b)
  show ?case by (simp add: validate_schema_node.simps)
next
  case (object kvs)
  have props: "validate_properties p tool (child_path path ''properties'') = Inr ()"
    if p: "map_of kvs ''properties'' = Some p" for p
  proof -
    obtain ps where ps: "p = JObject ps" using object.hyps(2) [OF p] by (cases p) auto
    have "n \<noteq> [] \<and> validate_schema_node q tool (child_path (child_path path ''properties'') n) = Inr ()"
      if "(n, q) \<in> set ps" for n q
      using object.hyps(3) object.IH(1) p ps that by blast
    with ps show ?thesis by (auto simp: validate_properties_ok)
  qed
  show ?case
    unfolding validate_node_object
    using props object.hyps object.IH(2) by (intro conjI allI impI) blast+
qed

section \<open>The selection is canonical\<close>

lemma adjacent_duplicate_None:
  "sorted (map tool_name ds) \<Longrightarrow> adjacent_duplicate ds = None \<longleftrightarrow> distinct (map tool_name ds)"
proof (induction ds rule: adjacent_duplicate.induct)
  case (1 a b ds)
  then show ?case
    by (auto simp: image_iff dest: antisym)
qed simp_all

definition chosen :: "string list option \<Rightarrow> tool_def \<Rightarrow> bool" where
  "chosen names d \<longleftrightarrow> (case names of None \<Rightarrow> True | Some ns \<Rightarrow> tool_name d \<in> set ns)"

lemma select_tools_Inr_iff:
  "select_tools catalog names = Inr sel \<longleftrightarrow>
     (\<forall>ns. names = Some ns \<longrightarrow> set ns \<subseteq> tool_name ` set catalog) \<and>
     sel = sort_key tool_name (filter (chosen names) catalog) \<and> distinct (map tool_name sel)"
proof -
  have f: "find P ns = None \<longleftrightarrow> (\<forall>n \<in> set ns. \<not> P n)" for P and ns :: "string list"
    by (auto simp: find_None_iff)
  have d: "adjacent_duplicate (sort_key tool_name ds) = None \<longleftrightarrow> distinct (map tool_name (sort_key tool_name ds))" for ds
    by (rule adjacent_duplicate_None) simp
  have "filter (\<lambda>d. case names of None \<Rightarrow> True | Some ns \<Rightarrow> tool_name d \<in> set ns) catalog = filter (chosen names) catalog"
    by (rule filter_cong) (simp_all add: chosen_def)
  then show ?thesis
    unfolding select_tools_def Let_def
    using d [of "filter (chosen names) catalog"]
    by (auto simp: f subset_iff find_Some_iff split: option.splits)
qed

section \<open>Properties\<close>

text \<open>
  Registration accepts exactly the well-formed schemas: a non-empty text that parses to an
  object whose nodes are well-formed, at every depth of properties and additional properties,
  whatever the tool is called.
\<close>

theorem validate_input_schema_correct:
  "validate_input_schema lib tool text_json = Inr () \<longleftrightarrow>
     text_json \<noteq> [] \<and> (\<exists>kvs. json_parse lib text_json = Inr (JObject kvs) \<and> schema_ok (JObject kvs))"
proof -
  have "validate_schema_node j tool ''$'' = Inr () \<longleftrightarrow> schema_ok j" for j
    using validate_node_sound validate_node_complete by blast
  moreover have "is_object j \<longleftrightarrow> (\<exists>kvs. j = JObject kvs)" for j by (cases j) auto
  ultimately show ?thesis
    by (auto simp: validate_input_schema_def split: sum.splits)
qed

text \<open>
  Output caps bound what leaves dispatch: within the caps nothing changes, and otherwise
  the text is a prefix within its cap that stays valid UTF-8 if it was, oversized structured data
  is dropped, and each loss is flagged in the usage.
\<close>

theorem apply_output_caps_bounds:
  "let (out', rep) = apply_output_caps caps out in
     prefix (out_text out') (out_text out) \<and> (max_text_bytes caps = 0 \<or> length (out_text out') \<le> max_text_bytes caps)
     \<and> (\<not> is_valid_utf8 (out_text out) \<or> is_valid_utf8 (out_text out'))
     \<and> (out_data_json out' = None \<or> out_data_json out' = out_data_json out
          \<and> (max_data_bytes caps = 0 \<or> length (the (out_data_json out')) \<le> max_data_bytes caps))
     \<and> (out_text out' = out_text out \<or> tu_truncated (out_usage out') \<and> cr_text_truncated rep)
     \<and> (out_data_json out' = out_data_json out \<or> tu_data_dropped (out_usage out') \<and> cr_data_dropped rep)
     \<and> out_is_error out' = out_is_error out \<and> out_attachments out' = out_attachments out
     \<and> ((max_text_bytes caps = 0 \<or> length (out_text out) \<le> max_text_bytes caps)
          \<and> (max_data_bytes caps = 0 \<or> (\<forall>d. out_data_json out = Some d \<longrightarrow> length d \<le> max_data_bytes caps)) \<longrightarrow> out' = out)"
proof -
  have "is_valid_utf8 (truncate_to_code_point t n)" if "is_valid_utf8 t" for t n
    using that truncate_valid by blast
  then show ?thesis
    using truncate_prefix_and_bound
    by (auto simp: apply_output_caps_def cap_text_def cap_data_def Let_def split: option.split)
qed

theorem apply_output_caps_bounds_witness:
  "let out = \<lparr>out_text = ''abc'', out_data_json = None, out_attachments = [],
         out_usage = \<lparr>tu_bytes_read = None, tu_bytes_written = None, tu_files_touched = None, tu_match_count = None,
           tu_cost_estimate = None, tu_wall_time = None, tu_truncated = False, tu_data_dropped = False\<rparr>, out_is_error = False\<rparr>
   in fst (apply_output_caps \<lparr>max_text_bytes = 4, max_data_bytes = 1\<rparr> out) = out"
  using apply_output_caps_bounds [of "\<lparr>max_text_bytes = 4, max_data_bytes = 1\<rparr>"
    "\<lparr>out_text = ''abc'', out_data_json = None, out_attachments = [],
       out_usage = \<lparr>tu_bytes_read = None, tu_bytes_written = None, tu_files_touched = None, tu_match_count = None,
         tu_cost_estimate = None, tu_wall_time = None, tu_truncated = False, tu_data_dropped = False\<rparr>, out_is_error = False\<rparr>"]
  by (simp add: Let_def split_beta)

text \<open>
  The native catalogue of a turn is canonical: it lists exactly the selected definitions,
  strictly ordered by name, and any reordering of the available definitions selects the same list,
  so that the prompt prefix built from it does not depend on registration order.
\<close>

theorem select_tools_canonical:
  assumes "select_tools catalog names = Inr sel"
  shows "sorted (map tool_name sel) \<and> distinct (map tool_name sel)
    \<and> set sel = {d \<in> set catalog. chosen names d}
    \<and> (\<forall>catalog'. mset catalog' = mset catalog \<longrightarrow> select_tools catalog' names = Inr sel)"
proof -
  from assms have ns: "\<forall>ns. names = Some ns \<longrightarrow> set ns \<subseteq> tool_name ` set catalog"
    and sel: "sel = sort_key tool_name (filter (chosen names) catalog)" and dis: "distinct (map tool_name sel)"
    by (auto simp: select_tools_Inr_iff)
  have inj: "inj_on tool_name (set sel)" using dis by (simp add: distinct_map)
  have "select_tools catalog' names = Inr sel" if m: "mset catalog' = mset catalog" for catalog'
  proof -
    have "mset (filter (chosen names) catalog') = mset sel" using m sel by simp
    moreover from this have "set (filter (chosen names) catalog') = set sel" by (metis set_mset_mset)
    ultimately have "sort_key tool_name (filter (chosen names) catalog') = sel"
      using inj sel by (intro sort_key_inj_key_eq) auto
    moreover have "set catalog' = set catalog" using m by (metis set_mset_mset)
    ultimately show ?thesis using ns dis by (simp add: select_tools_Inr_iff)
  qed
  with dis sel show ?thesis by auto
qed

theorem select_tools_canonical_witness:
  "\<exists>sel. select_tools [with_no_input ''b'' [], with_no_input ''a'' []] None = Inr sel \<and> map tool_name sel = [''a'', ''b''] \<and>
     select_tools [with_no_input ''a'' [], with_no_input ''b'' []] None = Inr sel"
proof -
  have "select_tools [with_no_input ''b'' [], with_no_input ''a'' []] None =
      Inr [with_no_input ''a'' [], with_no_input ''b'' []]"
    by (simp add: select_tools_Inr_iff chosen_def with_no_input_def less_char_def)
  from select_tools_canonical [OF this] this show ?thesis
    by (intro exI [of _ "[with_no_input ''a'' [], with_no_input ''b'' []]"]) (simp add: with_no_input_def)
qed

end
