(* ===== verification/Tool_Registry.thy ===== *)
theory Tool_Registry
  imports Tool_Input Tool_PathLocks Hook_Bus
begin

text \<open>
  \<^verbatim>\<open>oran-tool/registry.cpp\<close> with its helpers \<^verbatim>\<open>approval_resolution.cpp\<close>,
  \<^verbatim>\<open>audit_metadata.cpp\<close> and \<^verbatim>\<open>path_resolution.cpp\<close>: registration of tools and the dispatch
  of one call through hooks, preparation, path admission, permission, approval, audit and
  execution. Every effect of a dispatch is appended to a log, so that the theorems can speak about
  order: what was recorded and checked before a handler ran.

  The services a dispatch context borrows are answers of \<open>dispatch_env\<close>: the clock, the wait
  for a path lock (whose table is the subject of \<open>Tool_PathLocks\<close>), the audit sink and the
  filesystem resolution of a workspace.
\<close>

section \<open>Approval resolution\<close>

datatype approval_state = ApPending | ApApproved | ApRejected

record approval_resolution =
  ar_state :: approval_state
  ar_rejection :: "core_error option"
  ar_audit_reason :: "string option"
  ar_trace :: "hook_trace list"

definition pending_resolution :: approval_resolution where
  "pending_resolution = \<lparr>ar_state = ApPending, ar_rejection = None, ar_audit_reason = None, ar_trace = []\<rparr>"

record ask_request =
  aq_tool_name :: string
  aq_input :: string
  aq_identity :: string
  aq_decision :: decision
  aq_now :: int
  aq_token :: "approval_token option"
  aq_payload :: permission_ask_payload

definition decision_reason_or :: "hook_decision \<Rightarrow> string \<Rightarrow> string" where
  "decision_reason_or d fallback = (if hd_reason d = [] then fallback else hd_reason d)"

definition context_value :: "core_error \<Rightarrow> string \<Rightarrow> string" where
  "context_value e key = (case map_of (err_context e) key of Some v \<Rightarrow> v | None \<Rightarrow> [])"

definition operator_reason :: "hook_decision \<Rightarrow> string" where
  "operator_reason d =
     (if hd_reason d \<noteq> [] then hd_reason d
      else case find (\<lambda>t. ht_reason t \<noteq> []) (rev (hd_trace d)) of Some t \<Rightarrow> ht_reason t | None \<Rightarrow> [])"

definition operator_denied_error :: "string \<Rightarrow> core_error" where
  "operator_denied_error reason =
     with_ctx ''hook_reason'' (if reason = [] then ''permission_ask_veto'' else reason)
       (with_ctx ''reason'' ''operator_denied'' (err_permission_denied ''operator denied approval''))"

definition unsupported_decision_error :: "hook_decision \<Rightarrow> core_error" where
  "unsupported_decision_error d =
     with_ctx ''hook_reason'' (decision_reason_or d ''unsupported_permission_ask_decision'')
       (with_ctx ''decision_kind'' (hook_decision_kind_name (hd_kind d)) (with_ctx ''reason'' ''operator_denied''
         (err_permission_denied ''permission approval prompt returned an unsupported decision'')))"

definition missing_operator_reason_error :: core_error where
  "missing_operator_reason_error =
     with_ctx ''hook_reason'' ''permission_ask_missing_operator_reason''
       (with_ctx ''decision_kind'' (hook_decision_kind_name HkProceed) (with_ctx ''reason'' ''operator_denied''
         (err_permission_denied ''permission approval prompt returned proceed without operator identity'')))"

definition rejected :: "core_error \<Rightarrow> string \<Rightarrow> approval_resolution" where
  "rejected e reason = \<lparr>ar_state = ApRejected, ar_rejection = Some e, ar_audit_reason = Some reason, ar_trace = []\<rparr>"

definition check_token :: "crypto \<Rightarrow> ask_request \<Rightarrow> approval_token \<Rightarrow> broker \<Rightarrow> approval_resolution \<times> broker" where
  "check_token cr rq token b =
     (case check cr token (aq_tool_name rq) (aq_input rq) (aq_identity rq) (aq_now rq) b of
        (Inr _, b') \<Rightarrow> (pending_resolution\<lparr>ar_state := ApApproved\<rparr>, b')
      | (Inl e, b') \<Rightarrow> (rejected e (context_value e ''reason''), b'))"

text \<open>
  \<^verbatim>\<open>resolve_ask\<close> with the broker present. The result carries the broker and the token issued
  for the output slot, if any.
\<close>

definition resolve_ask ::
  "crypto \<Rightarrow> (nat \<Rightarrow> race) \<Rightarrow> string \<Rightarrow> bus option \<Rightarrow> ask_request \<Rightarrow> broker
    \<Rightarrow> approval_resolution \<times> broker \<times> approval_token option" where
  "resolve_ask cr rc nonce bs rq b = (case aq_token rq of
     Some token \<Rightarrow> (let (r, b') = check_token cr rq token b in (r, b', None))
   | None \<Rightarrow> (case bs of
       None \<Rightarrow> (pending_resolution, b, None)
     | Some bus \<Rightarrow> (case publish_blocking rc bus EvPermissionAskRendered (PPermissionAsk (aq_payload rq)) of
         Inl e \<Rightarrow> (rejected e ''operator_denied'', b, None)
       | Inr d \<Rightarrow>
           if hd_trace d = [] then (pending_resolution, b, None)
           else (case hd_kind d of
             HkProceed \<Rightarrow>
               if operator_reason d = []
               then ((rejected missing_operator_reason_error ''operator_denied'')\<lparr>ar_trace := hd_trace d\<rparr>, b, None)
               else let (token, b1) = approve cr nonce
                          \<lparr>gr_tool_name = aq_tool_name rq, gr_input = aq_input rq, gr_identity = aq_identity rq,
                           gr_ttl = dc_approval_ttl (aq_decision rq), gr_replay_max = dc_replay_max (aq_decision rq)\<rparr>
                          (aq_now rq) b;
                        (r, b2) = check_token cr rq token b1
                    in (r\<lparr>ar_trace := hd_trace d\<rparr>, b2, Some token)
           | HkVeto \<Rightarrow> ((rejected (operator_denied_error (hd_reason d)) ''operator_denied'')\<lparr>ar_trace := hd_trace d\<rparr>, b, None)
           | _ \<Rightarrow> ((rejected (unsupported_decision_error d) ''operator_denied'')\<lparr>ar_trace := hd_trace d\<rparr>, b, None)))))"

section \<open>Audit metadata\<close>

definition parse_metadata_object :: "json_lib \<Rightarrow> string \<Rightarrow> (string \<times> json) list" where
  "parse_metadata_object lib metadata = (case json_parse lib metadata of Inr (JObject kvs) \<Rightarrow> kvs | _ \<Rightarrow> [])"

definition hook_decision_trace_to_json :: "hook_trace list \<Rightarrow> json" where
  "hook_decision_trace_to_json trace = JArray (map (\<lambda>t. JObject
     ([(''sink_id'', JString (ht_sink_id t)), (''kind'', JString (hook_decision_kind_name (ht_kind t))),
       (''reason'', JString (ht_reason t))]
      @ (case ht_elapsed t of Some ms \<Rightarrow> [(''elapsed_ms'', JInteger ms)] | None \<Rightarrow> []))) trace)"

definition with_hook_decision_metadata ::
  "json_lib \<Rightarrow> string \<Rightarrow> hook_trace list \<Rightarrow> string option \<Rightarrow> string option \<Rightarrow> string" where
  "with_hook_decision_metadata lib metadata trace original rewritten =
     (let m0 = set_member ''hook_decisions'' (hook_decision_trace_to_json trace) (parse_metadata_object lib metadata);
          m1 = (case original of Some h \<Rightarrow> set_member ''original_input_hash'' (JString h) m0 | None \<Rightarrow> m0);
          m2 = (case rewritten of Some h \<Rightarrow> set_member ''rewritten_input_hash'' (JString h) m1 | None \<Rightarrow> m1)
      in json_dump lib (JObject m2))"

definition with_permission_ask_metadata :: "json_lib \<Rightarrow> string \<Rightarrow> hook_trace list \<Rightarrow> string" where
  "with_permission_ask_metadata lib metadata trace = json_dump lib (JObject
     (set_member ''permission_ask_decisions'' (hook_decision_trace_to_json trace) (parse_metadata_object lib metadata)))"

section \<open>Path resolution\<close>

datatype path_intent = IntentNone | IntentRead | IntentWrite
datatype lock_direction = LockRead | LockWrite

record path_request =
  pr_path :: string
  pr_intent :: path_intent
  pr_create_parents :: bool
  pr_allow_outside :: bool

text \<open>A directory authority is an opaque handle of the io layer.\<close>

record resolved_path =
  rp_authority :: nat
  rp_authority_relative :: string
  rp_absolute :: string
  rp_relative :: string
  rp_symlink_followed :: bool
  rp_created_parents :: bool
  rp_outside_explicit :: bool
  rp_per_call_outside :: bool
  rp_override_root :: "nat option"

record resolved_tool_path =
  tp_resolved :: resolved_path
  tp_display_path :: string
  tp_input_path_hash :: string
  tp_workspace_root_hash :: string

record workspace_ops =
  ws_root :: string
  ws_display_path :: "string \<Rightarrow> string"
  ws_resolve_read :: "string \<Rightarrow> resolved_path result"
  ws_resolve_outside :: "string \<Rightarrow> resolved_path result"
  ws_resolve_write :: "string \<Rightarrow> bool \<Rightarrow> resolved_path result"
  ws_lock_key :: "string \<Rightarrow> lock_direction \<Rightarrow> string option"

record path_report =
  pp_path :: "resolved_tool_path option"
  pp_metadata :: string
  pp_error :: "core_error option"
  pp_requires_approval :: bool

definition empty_path_report :: path_report where
  "empty_path_report = \<lparr>pp_path = None, pp_metadata = ''{}'', pp_error = None, pp_requires_approval = False\<rparr>"

definition resolve_request :: "workspace_ops \<Rightarrow> path_request \<Rightarrow> resolved_path result" where
  "resolve_request ws rq = (case pr_intent rq of
     IntentRead \<Rightarrow> ws_resolve_read ws (pr_path rq)
   | IntentWrite \<Rightarrow> ws_resolve_write ws (pr_path rq) (pr_create_parents rq)
   | IntentNone \<Rightarrow> Inl (err_internal ''unknown workspace path intent''))"

definition to_tool_path :: "crypto \<Rightarrow> workspace_ops \<Rightarrow> string \<Rightarrow> resolved_path \<Rightarrow> resolved_tool_path" where
  "to_tool_path cr ws input_path rp = \<lparr>tp_resolved = rp,
     tp_display_path = (if rp_per_call_outside rp then rp_absolute rp else ws_display_path ws (rp_absolute rp)),
     tp_input_path_hash = hash_input cr input_path, tp_workspace_root_hash = hash_input cr (ws_root ws)\<rparr>"

definition path_resolution_error_metadata_json :: "crypto \<Rightarrow> json_lib \<Rightarrow> workspace_ops \<Rightarrow> string \<Rightarrow> core_error \<Rightarrow> string" where
  "path_resolution_error_metadata_json cr lib ws input_path e = json_dump lib (JObject [(''path_resolution'', JObject
     [(''input_path_hash'', JString (hash_input cr input_path)), (''resolved_relative_path'', JNull),
      (''workspace_root_hash'', JString (hash_input cr (ws_root ws))), (''resolved_display_path'', JNull),
      (''symlink_followed'', JNull), (''created_parents'', JNull), (''outside_workspace_explicit_override'', JNull),
      (''per_call_outside_workspace_override'', JNull), (''override_root_index'', JNull),
      (''error_kind'', JString (error_kind_name (err_kind e))), (''error_reason'', JString (context_value e ''reason''))])])"

definition path_resolution_metadata_json :: "json_lib \<Rightarrow> resolved_tool_path \<Rightarrow> string" where
  "path_resolution_metadata_json lib tp = (let rp = tp_resolved tp in json_dump lib (JObject [(''path_resolution'', JObject
     [(''input_path_hash'', JString (tp_input_path_hash tp)),
      (''resolved_relative_path'', if rp_per_call_outside rp then JNull else JString (rp_relative rp)),
      (''workspace_root_hash'', JString (tp_workspace_root_hash tp)), (''resolved_display_path'', JString (tp_display_path tp)),
      (''symlink_followed'', JBool (rp_symlink_followed rp)), (''created_parents'', JBool (rp_created_parents rp)),
      (''outside_workspace_explicit_override'', JBool (rp_outside_explicit rp)),
      (''per_call_outside_workspace_override'', JBool (rp_per_call_outside rp)),
      (''override_root_index'', case rp_override_root rp of Some i \<Rightarrow> JUnsigned (of_nat i) | None \<Rightarrow> JNull)])]))"

definition path_lock_direction :: "capability list \<Rightarrow> lock_direction option" where
  "path_lock_direction caps =
     (if list_ex (\<lambda>c. c = write_file \<or> c = edit_file \<or> c = delete_path) caps then Some LockWrite
      else if list_ex (\<lambda>c. c = read_file \<or> c = list_directory) caps then Some LockRead
      else None)"

definition prepare_lock_path :: "json_lib \<Rightarrow> string \<Rightarrow> string \<Rightarrow> path_request option" where
  "prepare_lock_path lib tool input_json = (case parse_input_object lib input_json tool [] of
     Inl _ \<Rightarrow> None
   | Inr parsed \<Rightarrow> (case require_string_field parsed tool ''path'' of
       Inl _ \<Rightarrow> None
     | Inr path \<Rightarrow> Some \<lparr>pr_path = path, pr_intent = IntentNone, pr_create_parents = False, pr_allow_outside = False\<rparr>))"

definition resolve_tool_path :: "crypto \<Rightarrow> json_lib \<Rightarrow> workspace_ops \<Rightarrow> path_request \<Rightarrow> path_report" where
  "resolve_tool_path cr lib ws rq =
     (if pr_intent rq = IntentNone then empty_path_report
      else let first = resolve_request ws rq;
               outside = (case first of
                 Inl e \<Rightarrow> pr_allow_outside rq \<and> pr_intent rq = IntentRead \<and>
                   (context_value e ''reason'' = ''outside_workspace'' \<or> context_value e ''reason'' = ''symlink_escape'')
               | Inr _ \<Rightarrow> False);
               resolved = (if outside then ws_resolve_outside ws (pr_path rq) else first)
        in case resolved of
          Inl e \<Rightarrow> empty_path_report\<lparr>pp_metadata := path_resolution_error_metadata_json cr lib ws (pr_path rq) e,
                                     pp_error := Some e\<rparr>
        | Inr rp \<Rightarrow> let tp = to_tool_path cr ws (pr_path rq) rp in
            \<lparr>pp_path = Some tp, pp_metadata = path_resolution_metadata_json lib tp, pp_error = None,
             pp_requires_approval = outside\<rparr>)"

section \<open>The registry\<close>

datatype dispatch_policy = Permissioned | RuntimePolicy

text \<open>A prepared call; an absent executor is an empty \<^verbatim>\<open>std::move_only_function\<close>.\<close>

record prepared_call =
  pc_path :: "path_request option"
  pc_execute :: "(resolved_tool_path option \<Rightarrow> tool_output result) option"

definition empty_prepared :: prepared_call where
  "empty_prepared = \<lparr>pc_path = None, pc_execute = None\<rparr>"

record reg_entry =
  re_def :: tool_def
  re_prepare :: "string \<Rightarrow> prepared_call result"
  re_policy :: dispatch_policy
  re_index :: nat

text \<open>The \<^verbatim>\<open>std::unordered_map\<close> of entries as an association list in iteration order.\<close>

record registry =
  reg_entries :: "(string \<times> reg_entry) list"
  reg_next_index :: nat

definition empty_registry :: registry where
  "empty_registry = \<lparr>reg_entries = [], reg_next_index = 0\<rparr>"

definition make_lookup_error :: "string \<Rightarrow> core_error" where
  "make_lookup_error name = with_ctx ''tool'' name (err_not_found ''tool is not registered'')"

definition add_prepared ::
  "json_lib \<Rightarrow> tool_def \<Rightarrow> (string \<Rightarrow> prepared_call result) option \<Rightarrow> dispatch_policy \<Rightarrow> registry \<Rightarrow> unit result \<times> registry" where
  "add_prepared lib d prepare policy r =
     (if tool_name d = [] then (Inl (err_invalid_argument ''tool definition must have a non-empty name''), r)
      else case prepare of
        None \<Rightarrow> (Inl (with_ctx ''tool'' (tool_name d) (err_invalid_argument ''tool preparer must not be empty'')), r)
      | Some prep \<Rightarrow>
          if policy = RuntimePolicy \<and> required_capabilities d \<noteq> []
          then (Inl (err_invalid_argument ''runtime tools cannot declare external capabilities''), r)
          else (case validate_input_schema lib (tool_name d) (input_schema_json d) of
            Inl e \<Rightarrow> (Inl e, r)
          | Inr _ \<Rightarrow>
              if map_of (reg_entries r) (tool_name d) \<noteq> None
              then (Inl (with_ctx ''tool'' (tool_name d) (make_error conflict_kind ''tool is already registered'')), r)
              else (Inr (), \<lparr>reg_entries = reg_entries r @ [(tool_name d, \<lparr>re_def = d, re_prepare = prep,
                      re_policy = policy, re_index = reg_next_index r\<rparr>)], reg_next_index = Suc (reg_next_index r)\<rparr>)))"

definition add_tool ::
  "json_lib \<Rightarrow> tool_def \<Rightarrow> (string \<Rightarrow> resolved_tool_path option \<Rightarrow> tool_output result) option \<Rightarrow> registry \<Rightarrow> unit result \<times> registry" where
  "add_tool lib d handler r = (case handler of
     None \<Rightarrow> (Inl (with_ctx ''tool'' (tool_name d) (err_invalid_argument ''tool handler must not be empty'')), r)
   | Some h \<Rightarrow> add_prepared lib d (Some (\<lambda>input. Inr
       \<lparr>pc_path = (if path_lock_direction (required_capabilities d) \<noteq> None
                   then prepare_lock_path lib (tool_name d) input else None),
        pc_execute = Some (h input)\<rparr>)) Permissioned r)"

definition remove_tool :: "string \<Rightarrow> registry \<Rightarrow> unit result \<times> registry" where
  "remove_tool name r = (case map_of (reg_entries r) name of
     None \<Rightarrow> (Inl (make_lookup_error name), r)
   | Some _ \<Rightarrow> (Inr (), r\<lparr>reg_entries := filter (\<lambda>kv. fst kv \<noteq> name) (reg_entries r)\<rparr>))"

definition find_tool :: "string \<Rightarrow> registry \<Rightarrow> tool_def option" where
  "find_tool name r = map_option re_def (map_of (reg_entries r) name)"

definition catalog :: "registry \<Rightarrow> tool_def list" where
  "catalog r = map re_def (sort_key re_index (map snd (reg_entries r)))"

section \<open>Dispatch\<close>

record dispatch_ctx =
  dx_mode :: mode
  dx_rules :: rule_set
  dx_parent_policy :: "(rule_set \<times> mode) option"
  dx_token :: "approval_token option"
  dx_bus :: "bus option"
  dx_active_tools :: "string list option"
  dx_workspace :: "workspace_ops option"
  dx_path_locks :: bool
  dx_caps :: output_caps
  dx_parent_turn_id :: "turn_id option"
  dx_scope_key :: string
  dx_agent_key :: string
  dx_identity :: string

record dispatch_env =
  en_crypto :: crypto
  en_lib :: json_lib
  en_re :: re_engine
  en_started :: int
  en_finished :: int
  en_before_race :: "nat \<Rightarrow> race"
  en_ask_race :: "nat \<Rightarrow> race"
  en_nonce :: string
  en_acquire :: "string \<Rightarrow> lock_mode \<Rightarrow> unit result"
  en_wait :: int
  en_record :: "audit_event \<Rightarrow> unit result"

datatype effect =
    FxBefore payload
  | FxLock string lock_mode
  | FxAudit audit_event
  | FxAuditFailed audit_event
  | FxExecute string
  | FxAfter payload

text \<open>What a dispatch mutates: the broker and the token slot, the context's clock and path, the log.\<close>

record dispatch_state =
  ds_broker :: "broker option"
  ds_token_output :: "approval_token option"
  ds_now :: int
  ds_resolved :: "resolved_tool_path option"
  ds_effects :: "effect list"

definition log_effect :: "effect \<Rightarrow> dispatch_state \<Rightarrow> dispatch_state" where
  "log_effect fx st = st\<lparr>ds_effects := ds_effects st @ [fx]\<rparr>"

definition build_event ::
  "dispatch_env \<Rightarrow> string \<Rightarrow> string \<Rightarrow> decision \<Rightarrow> dispatch_ctx \<Rightarrow> string \<Rightarrow> audit_event" where
  "build_event en name input_json d ctx metadata =
     (make_audit_event_from_decision d)\<lparr>ae_scope_key := dx_scope_key ctx, ae_agent_key := dx_agent_key ctx,
        ae_tool_name := name, ae_identity := dx_identity ctx,
        ae_input_hash := Some (input_hash (en_crypto en) input_json),
        ae_parent_turn_id := dx_parent_turn_id ctx, ae_metadata_json := metadata\<rparr>"

definition default_decision_of :: "verdict \<Rightarrow> string \<Rightarrow> decision" where
  "default_decision_of v reason = \<lparr>dc_verdict = v, dc_reason = reason, dc_replay_max = 8, dc_approval_ttl = 3600\<rparr>"

definition hook_veto_error :: "string \<Rightarrow> string \<Rightarrow> core_error" where
  "hook_veto_error name reason = with_ctx ''hook_reason'' reason (with_ctx ''reason'' ''blocked_by_hook''
     (with_ctx ''tool'' name (err_permission_denied ''tool blocked by hook'')))"

definition hook_rewrite_error :: "string \<Rightarrow> string \<Rightarrow> core_error" where
  "hook_rewrite_error name reason = with_ctx ''hook_reason'' reason (with_ctx ''reason'' ''blocked_by_hook''
     (with_ctx ''tool'' name (err_permission_denied ''tool rewrite rejected by hook'')))"

definition require_approval_decision :: "decision \<Rightarrow> hook_decision \<Rightarrow> decision" where
  "require_approval_decision d h =
     (if dc_verdict d \<noteq> Allow then d
      else d\<lparr>dc_verdict := Ask, dc_reason := decision_reason_or h ''hook require_approval''\<rparr>)"

definition require_workspace_override_approval :: "decision \<Rightarrow> decision" where
  "require_workspace_override_approval d =
     (if dc_verdict d \<noteq> Allow then d
      else d\<lparr>dc_verdict := Ask, dc_reason := ''outside_workspace_override'', dc_replay_max := 1\<rparr>)"

definition error_kind_label :: "core_error \<Rightarrow> string" where
  "error_kind_label e = (if (''reason'', ''blocked_by_hook'') \<in> set (err_context e) then ''blocked_by_hook''
     else error_kind_name (err_kind e))"

definition make_hook_identity :: "dispatch_ctx \<Rightarrow> hook_identity" where
  "make_hook_identity ctx = \<lparr>id_scope_key = dx_scope_key ctx, id_agent_key = dx_agent_key ctx, id_identity = dx_identity ctx\<rparr>"

definition build_before_payload :: "dispatch_env \<Rightarrow> string \<Rightarrow> string \<Rightarrow> dispatch_ctx \<Rightarrow> payload" where
  "build_before_payload en name input_json ctx = PToolBefore
     \<lparr>tb_tool_name = name, tb_input_json = input_json,
      tb_redacted = redacted_hook_input_json (en_crypto en) (en_lib en) name input_json,
      tb_who = make_hook_identity ctx, tb_started_at = en_started en\<rparr>"

definition copy_usage :: "tool_usage \<Rightarrow> hook_tool_usage" where
  "copy_usage u = \<lparr>hu_bytes_read = tu_bytes_read u, hu_bytes_written = tu_bytes_written u,
     hu_files_touched = tu_files_touched u, hu_match_count = tu_match_count u, hu_cost_estimate = tu_cost_estimate u,
     hu_wall_time = tu_wall_time u, hu_truncated = tu_truncated u, hu_data_dropped = tu_data_dropped u\<rparr>"

definition no_usage :: tool_usage where
  "no_usage = \<lparr>tu_bytes_read = None, tu_bytes_written = None, tu_files_touched = None, tu_match_count = None,
     tu_cost_estimate = None, tu_wall_time = None, tu_truncated = False, tu_data_dropped = False\<rparr>"

definition build_after_payload ::
  "dispatch_env \<Rightarrow> string \<Rightarrow> string \<Rightarrow> dispatch_ctx \<Rightarrow> tool_output result \<Rightarrow> payload" where
  "build_after_payload en name input_json ctx res = PToolAfter
     \<lparr>ta_tool_name = name, ta_input_json = input_json,
      ta_redacted = redacted_hook_input_json (en_crypto en) (en_lib en) name input_json,
      ta_who = make_hook_identity ctx, ta_succeeded = is_ok res,
      ta_output_text = (case res of Inr out \<Rightarrow> out_text out | Inl _ \<Rightarrow> []),
      ta_data_json = (case res of Inr out \<Rightarrow> out_data_json out | Inl _ \<Rightarrow> None),
      ta_usage = copy_usage (case res of Inr out \<Rightarrow> out_usage out | Inl _ \<Rightarrow> no_usage),
      ta_error_kind = (case res of Inr _ \<Rightarrow> [] | Inl e \<Rightarrow> error_kind_label e),
      ta_error_message = (case res of Inr _ \<Rightarrow> [] | Inl e \<Rightarrow> err_message e),
      ta_started_at = en_started en, ta_finished_at = en_finished en,
      ta_duration = en_finished en - en_started en\<rparr>"

definition build_permission_ask_payload ::
  "dispatch_env \<Rightarrow> string \<Rightarrow> string \<Rightarrow> dispatch_ctx \<Rightarrow> int \<Rightarrow> decision \<Rightarrow> permission_ask_payload" where
  "build_permission_ask_payload en name input_json ctx now d =
     \<lparr>pa_tool_name = name, pa_input_json = input_json,
      pa_redacted = redacted_hook_input_json (en_crypto en) (en_lib en) name input_json,
      pa_who = make_hook_identity ctx, pa_decision_reason = dc_reason d, pa_replay_max = dc_replay_max d,
      pa_approval_ttl = dc_approval_ttl d, pa_requested_at = now, pa_turn_id = dx_parent_turn_id ctx\<rparr>"

text \<open>What the \<^verbatim>\<open>tool_before\<close> gate decided about the call.\<close>

record hook_phase =
  hp_error :: "core_error option"
  hp_decision :: hook_decision
  hp_blocked :: bool
  hp_reason :: string
  hp_rewritten :: "string option"

definition hook_before :: "dispatch_env \<Rightarrow> reg_entry \<Rightarrow> string \<Rightarrow> string \<Rightarrow> dispatch_ctx \<Rightarrow> hook_phase" where
  "hook_before en entry name input_json ctx =
     (let none = \<lparr>hp_error = None, hp_decision = proceed_decision, hp_blocked = False, hp_reason = [], hp_rewritten = None\<rparr> in
      case dx_bus ctx of
        None \<Rightarrow> none
      | Some bus \<Rightarrow> (case publish_blocking (en_before_race en) bus EvToolBefore (build_before_payload en name input_json ctx) of
          Inl e \<Rightarrow> none\<lparr>hp_error := Some e\<rparr>
        | Inr d \<Rightarrow> (case hd_kind d of
            HkProceed \<Rightarrow> none\<lparr>hp_decision := d\<rparr>
          | HkVeto \<Rightarrow> none\<lparr>hp_decision := d, hp_blocked := True, hp_reason := decision_reason_or d ''hook veto''\<rparr>
          | HkRewrite \<Rightarrow> (case hd_rewritten d of
              None \<Rightarrow> none\<lparr>hp_decision := d, hp_blocked := True, hp_reason := ''hook rewrite missing rewritten_input_json''\<rparr>
            | Some input \<Rightarrow> none\<lparr>hp_decision := d, hp_reason := decision_reason_or d ''hook rewrite'', hp_rewritten := Some input\<rparr>)
          | HkRequireApproval \<Rightarrow>
              if re_policy entry = RuntimePolicy
              then none\<lparr>hp_decision := d, hp_blocked := True, hp_reason := ''runtime tools do not support approval escalation''\<rparr>
              else none\<lparr>hp_decision := d, hp_reason := decision_reason_or d ''hook require_approval''\<rparr>)))"

definition effective_input :: "hook_phase \<Rightarrow> string \<Rightarrow> string" where
  "effective_input hp input_json = (case hp_rewritten hp of Some i \<Rightarrow> i | None \<Rightarrow> input_json)"

definition with_hook_facts :: "dispatch_env \<Rightarrow> hook_phase \<Rightarrow> string \<Rightarrow> string \<Rightarrow> string" where
  "with_hook_facts en hp input_json metadata =
     (let rewrote = (hp_rewritten hp \<noteq> None) in
      if \<not> hp_blocked hp \<and> \<not> rewrote \<and> hd_trace (hp_decision hp) = [] then metadata
      else with_hook_decision_metadata (en_lib en) metadata (hd_trace (hp_decision hp))
        (if hp_blocked hp \<or> rewrote then Some (hash_input (en_crypto en) input_json) else None)
        (if rewrote then Some (hash_input (en_crypto en) (effective_input hp input_json)) else None))"

definition prepare_call :: "reg_entry \<Rightarrow> hook_phase \<Rightarrow> string \<Rightarrow> prepared_call result" where
  "prepare_call entry hp eff =
     (if hp_error hp = None \<and> \<not> hp_blocked hp
      then rbind (re_prepare entry eff) (\<lambda>pc.
        if pc_execute pc = None then Inl (err_internal ''tool preparation returned no executor'')
        else if pc_path pc \<noteq> None \<and> re_policy entry = RuntimePolicy
        then Inl (err_invalid_argument ''runtime tools cannot request filesystem authority'')
        else Inr pc)
      else Inr empty_prepared)"

text \<open>The wait for the path lock, if the call names a lockable path.\<close>

definition lock_path ::
  "dispatch_env \<Rightarrow> reg_entry \<Rightarrow> prepared_call result \<Rightarrow> dispatch_ctx \<Rightarrow> dispatch_state \<Rightarrow> unit result \<times> dispatch_state" where
  "lock_path en entry prepared ctx st = (case prepared of
     Inl _ \<Rightarrow> (Inr (), st)
   | Inr pc \<Rightarrow> (case (pc_path pc, dx_workspace ctx, dx_path_locks ctx, path_lock_direction (required_capabilities (re_def entry))) of
       (Some rq, Some ws, True, Some dir) \<Rightarrow> (case ws_lock_key ws (pr_path rq) dir of
           None \<Rightarrow> (Inr (), st)
         | Some key \<Rightarrow> let md = (if dir = LockRead then Shared else Exclusive) in
             (en_acquire en key md, (log_effect (FxLock key md) st)\<lparr>ds_now := ds_now st + en_wait en\<rparr>))
     | _ \<Rightarrow> (Inr (), st)))"

definition record_audit :: "dispatch_env \<Rightarrow> audit_event \<Rightarrow> dispatch_state \<Rightarrow> unit result \<times> dispatch_state" where
  "record_audit en ev st = (case en_record en ev of
     Inr _ \<Rightarrow> (Inr (), log_effect (FxAudit ev) st)
   | Inl e \<Rightarrow> (Inl e, log_effect (FxAuditFailed ev) st))"

text \<open>The policies of the dispatching agent and of its parent, with the escalations of hooks and paths.\<close>

definition authorize :: "dispatch_env \<Rightarrow> reg_entry \<Rightarrow> string \<Rightarrow> string \<Rightarrow> dispatch_ctx \<Rightarrow> hook_phase \<Rightarrow> bool \<Rightarrow> decision" where
  "authorize en entry name eff ctx hp outside =
     (let caps = required_capabilities (re_def entry);
          d0 = (if re_policy entry = Permissioned then evaluate (en_re en) (dx_rules ctx) name eff caps (dx_mode ctx)
                else default_decision_of Allow ''runtime_tool'');
          d1 = (case dx_parent_policy ctx of
                  Some (rules, md) \<Rightarrow> if re_policy entry = Permissioned
                    then intersect (evaluate (en_re en) rules name eff caps md) d0 else d0
                | None \<Rightarrow> d0);
          d2 = (if hd_kind (hp_decision hp) = HkRequireApproval then require_approval_decision d1 (hp_decision hp) else d1)
      in if outside then require_workspace_override_approval d2 else d2)"

definition denied_error :: "string \<Rightarrow> decision \<Rightarrow> core_error" where
  "denied_error name d = with_ctx ''reason'' (dc_reason d) (with_ctx ''tool'' name
     (err_permission_denied ''tool denied by permission rules''))"

definition approval_required_error :: "string \<Rightarrow> decision \<Rightarrow> core_error" where
  "approval_required_error name d =
     with_ctx ''approval_ttl_seconds'' (show_int (dc_approval_ttl d)) (with_ctx ''replay_max'' (show_nat (unat (dc_replay_max d)))
     (with_ctx ''decision_reason'' (dc_reason d) (with_ctx ''reason'' ''approval_required'' (with_ctx ''tool'' name
       (err_permission_denied ''tool requires approval'')))))"

text \<open>The approval step: it runs only for an \<open>ask\<close> with a broker and no path error.\<close>

definition approval_step ::
  "dispatch_env \<Rightarrow> string \<Rightarrow> string \<Rightarrow> dispatch_ctx \<Rightarrow> decision \<Rightarrow> path_report \<Rightarrow> dispatch_state
    \<Rightarrow> approval_resolution \<times> dispatch_state" where
  "approval_step en name eff ctx d pp st = (case ds_broker st of
     Some b \<Rightarrow> if pp_error pp = None \<and> dc_verdict d = Ask
       then let (r, b', tok) = resolve_ask (en_crypto en) (en_ask_race en) (en_nonce en) (dx_bus ctx)
                  \<lparr>aq_tool_name = name, aq_input = eff, aq_identity = dx_identity ctx, aq_decision = d, aq_now = ds_now st,
                   aq_token = dx_token ctx, aq_payload = build_permission_ask_payload en name eff ctx (ds_now st) d\<rparr> b
            in (r, st\<lparr>ds_broker := Some b', ds_token_output := (case tok of Some t \<Rightarrow> Some t | None \<Rightarrow> ds_token_output st)\<rparr>)
       else (pending_resolution, st)
   | None \<Rightarrow> (pending_resolution, st))"

definition decision_event ::
  "dispatch_env \<Rightarrow> string \<Rightarrow> string \<Rightarrow> string \<Rightarrow> dispatch_ctx \<Rightarrow> hook_phase \<Rightarrow> decision \<Rightarrow> path_report \<Rightarrow> approval_resolution
    \<Rightarrow> audit_event" where
  "decision_event en name input_json eff ctx hp d pp ap =
     (let ev0 = build_event en name eff d ctx (with_hook_facts en hp input_json (pp_metadata pp));
          ev1 = (if hp_rewritten hp \<noteq> None \<and> dc_verdict d = Allow then ev0\<lparr>ae_outcome := Oc_rewritten\<rparr> else ev0);
          ev2 = (if ar_trace ap \<noteq> [] then ev1\<lparr>ae_metadata_json :=
                   with_permission_ask_metadata (en_lib en) (ae_metadata_json ev1) (ar_trace ap)\<rparr> else ev1)
      in case ar_state ap of
        ApApproved \<Rightarrow> ev2\<lparr>ae_outcome := Oc_approved\<rparr>
      | ApRejected \<Rightarrow> (case ar_audit_reason ap of
            Some r \<Rightarrow> if r \<noteq> [] then ev2\<lparr>ae_outcome := Oc_rejected, ae_reason := r\<rparr> else ev2\<lparr>ae_outcome := Oc_rejected\<rparr>
          | None \<Rightarrow> ev2\<lparr>ae_outcome := Oc_rejected\<rparr>)
      | ApPending \<Rightarrow> ev2)"

definition may_run :: "decision \<Rightarrow> approval_resolution \<Rightarrow> path_report \<Rightarrow> bool" where
  "may_run d ap pp \<longleftrightarrow> pp_error pp = None \<and>
     (dc_verdict d = Allow \<or> dc_verdict d = Ask \<and> ar_state ap = ApApproved)"

text \<open>The report of the path a prepared call names.\<close>

definition path_report_of :: "dispatch_env \<Rightarrow> dispatch_ctx \<Rightarrow> prepared_call \<Rightarrow> path_report" where
  "path_report_of en ctx pc = (case (pc_path pc, dx_workspace ctx) of
     (Some rq, Some ws) \<Rightarrow> resolve_tool_path (en_crypto en) (en_lib en) ws rq
   | _ \<Rightarrow> empty_path_report)"

text \<open>The admitted call: path, decision, approval, audit row, and then the handler or the refusal.\<close>

definition admitted ::
  "dispatch_env \<Rightarrow> reg_entry \<Rightarrow> string \<Rightarrow> string \<Rightarrow> string \<Rightarrow> prepared_call \<Rightarrow> hook_phase \<Rightarrow> dispatch_ctx \<Rightarrow> dispatch_state
    \<Rightarrow> tool_output result \<times> dispatch_state" where
  "admitted en entry name input_json eff pc hp ctx st =
     (let pp = path_report_of en ctx pc;
          st1 = st\<lparr>ds_resolved := pp_path pp\<rparr>;
          d = authorize en entry name eff ctx hp (pp_requires_approval pp);
          (ap, st2) = approval_step en name eff ctx d pp st1;
          (recorded, st3) = record_audit en (decision_event en name input_json eff ctx hp d pp ap) st2
      in case recorded of
        Inl e \<Rightarrow> (Inl e, st3)
      | Inr _ \<Rightarrow> (case pp_error pp of
          Some e \<Rightarrow> (Inl (with_ctx ''tool'' name e), st3)
        | None \<Rightarrow>
            if may_run d ap pp
            then (case pc_execute pc of
                Some run \<Rightarrow> (run (pp_path pp), log_effect (FxExecute eff) st3)
              | None \<Rightarrow> (Inl (err_internal ''tool preparation returned no executor''), st3))
            else if dc_verdict d = Deny then (Inl (denied_error name d), st3)
            else if ar_state ap = ApRejected
            then (Inl (with_ctx ''tool'' name (the (ar_rejection ap))), st3)
            else (Inl (approval_required_error name d), st3)))"

definition blocked_call ::
  "dispatch_env \<Rightarrow> string \<Rightarrow> string \<Rightarrow> string \<Rightarrow> hook_phase \<Rightarrow> dispatch_ctx \<Rightarrow> dispatch_state \<Rightarrow> tool_output result \<times> dispatch_state" where
  "blocked_call en name input_json eff hp ctx st =
     (let ev = (build_event en name eff (default_decision_of Deny (hp_reason hp)) ctx (with_hook_facts en hp input_json ''{}''))
                 \<lparr>ae_outcome := Oc_blocked_by_hook\<rparr>;
          (recorded, st1) = record_audit en ev st
      in case recorded of
        Inl e \<Rightarrow> (Inl e, st1)
      | Inr _ \<Rightarrow> (Inl (if hd_kind (hp_decision hp) = HkRewrite then hook_rewrite_error name (hp_reason hp)
                         else hook_veto_error name (hp_reason hp)), st1))"

definition unprepared_call ::
  "dispatch_env \<Rightarrow> string \<Rightarrow> string \<Rightarrow> string \<Rightarrow> core_error \<Rightarrow> hook_phase \<Rightarrow> dispatch_ctx \<Rightarrow> dispatch_state
    \<Rightarrow> tool_output result \<times> dispatch_state" where
  "unprepared_call en name input_json eff e hp ctx st =
     (let ev = build_event en name eff (default_decision_of Deny
                 (if err_kind e = invalid_argument_kind then ''invalid_tool_input'' else ''tool_preparation_failed''))
                 ctx (with_hook_facts en hp input_json ''{}'');
          (recorded, st1) = record_audit en ev st
      in case recorded of
        Inl re \<Rightarrow> (Inl re, st1)
      | Inr _ \<Rightarrow> (Inl (with_ctx ''tool'' name e), st1))"

text \<open>The call once its hook, its preparation and its lock are settled.\<close>

definition decide_call ::
  "dispatch_env \<Rightarrow> reg_entry \<Rightarrow> string \<Rightarrow> string \<Rightarrow> hook_phase \<Rightarrow> prepared_call result \<Rightarrow> unit result \<Rightarrow> dispatch_ctx
    \<Rightarrow> dispatch_state \<Rightarrow> tool_output result \<times> dispatch_state" where
  "decide_call en entry name input_json hp prepared locked ctx st =
     (let eff = effective_input hp input_json in
      case locked of
        Inl e \<Rightarrow> (Inl (with_ctx ''tool'' name e), st)
      | Inr _ \<Rightarrow> (case hp_error hp of
          Some e \<Rightarrow> (Inl (with_ctx ''tool'' name e), st)
        | None \<Rightarrow>
            if hp_blocked hp then blocked_call en name input_json eff hp ctx st
            else (case prepared of
              Inl e \<Rightarrow> unprepared_call en name input_json eff e hp ctx st
            | Inr pc \<Rightarrow> admitted en entry name input_json eff pc hp ctx st)))"

definition publish_before :: "dispatch_env \<Rightarrow> string \<Rightarrow> string \<Rightarrow> dispatch_ctx \<Rightarrow> dispatch_state \<Rightarrow> dispatch_state" where
  "publish_before en name input_json ctx st =
     (if dx_bus ctx = None then st else log_effect (FxBefore (build_before_payload en name input_json ctx)) st)"

text \<open>The caps on a result and the advisory \<^verbatim>\<open>tool_after\<close> event.\<close>

definition finish_call ::
  "dispatch_env \<Rightarrow> string \<Rightarrow> string \<Rightarrow> dispatch_ctx \<Rightarrow> tool_output result \<Rightarrow> dispatch_state \<Rightarrow> tool_output result \<times> dispatch_state" where
  "finish_call en name eff ctx res st =
     (let capped = (case res of Inr out \<Rightarrow> Inr (fst (apply_output_caps (dx_caps ctx) out)) | Inl e \<Rightarrow> Inl e)
      in (capped, if dx_bus ctx = None then st else log_effect (FxAfter (build_after_payload en name eff ctx capped)) st))"

definition dispatch_entry ::
  "dispatch_env \<Rightarrow> reg_entry \<Rightarrow> string \<Rightarrow> string \<Rightarrow> dispatch_ctx \<Rightarrow> dispatch_state \<Rightarrow> tool_output result \<times> dispatch_state" where
  "dispatch_entry en entry name input_json ctx st =
     (let hp = hook_before en entry name input_json ctx;
          eff = effective_input hp input_json;
          prepared = prepare_call entry hp eff;
          (locked, st1) = lock_path en entry prepared ctx (publish_before en name input_json ctx st);
          (res, st2) = decide_call en entry name input_json hp prepared locked ctx st1
      in finish_call en name eff ctx res st2)"

definition dispatch_call ::
  "dispatch_env \<Rightarrow> registry \<Rightarrow> string \<Rightarrow> string \<Rightarrow> dispatch_ctx \<Rightarrow> dispatch_state \<Rightarrow> tool_output result \<times> dispatch_state" where
  "dispatch_call en reg name input_json ctx st0 =
     (let st = st0\<lparr>ds_resolved := None\<rparr> in
      if (case dx_active_tools ctx of Some ns \<Rightarrow> name \<notin> set ns | None \<Rightarrow> False)
      then (Inl (with_ctx ''tool'' name (err_not_found ''tool is not enabled for this turn'')), st)
      else case map_of (reg_entries reg) name of
        None \<Rightarrow> (Inl (make_lookup_error name), st)
      | Some entry \<Rightarrow> dispatch_entry en entry name input_json ctx st)"

section \<open>What a dispatch logs\<close>

lemma log_effect_effects [simp]: "ds_effects (log_effect fx st) = ds_effects st @ [fx]"
  by (simp add: log_effect_def)

lemma log_effect_broker [simp]: "ds_broker (log_effect fx st) = ds_broker st"
  by (simp add: log_effect_def)

lemma approval_step_effects [simp]: "ds_effects (snd (approval_step en name eff ctx d pp st)) = ds_effects st"
  by (auto simp: approval_step_def Let_def split: option.splits prod.splits)

lemma record_audit_cases:
  "(\<exists>e. record_audit en ev st = (Inl e, log_effect (FxAuditFailed ev) st) \<and> en_record en ev = Inl e) \<or>
   record_audit en ev st = (Inr (), log_effect (FxAudit ev) st) \<and> en_record en ev = Inr ()"
  by (cases "en_record en ev") (auto simp: record_audit_def)

lemma lock_path_effects:
  "\<exists>ls. ds_effects (snd (lock_path en entry prepared ctx st)) = ds_effects st @ ls \<and> (\<forall>fx \<in> set ls. \<exists>k md. fx = FxLock k md)"
  by (auto simp: lock_path_def Let_def split: sum.splits option.splits bool.splits)

lemma lock_path_broker [simp]: "ds_broker (snd (lock_path en entry prepared ctx st)) = ds_broker st"
  by (auto simp: lock_path_def Let_def split: sum.splits option.splits bool.splits)

text \<open>
  The outcomes of an admitted call: its audit row failed and nothing ran, the row stands and the
  call was refused, or the row stands and the handler ran on the same input.
\<close>

lemma admitted_cases:
  fixes en entry name input_json eff pc hp ctx st
  defines "pp \<equiv> path_report_of en ctx pc"
  defines "d \<equiv> authorize en entry name eff ctx hp (pp_requires_approval pp)"
  defines "ap \<equiv> fst (approval_step en name eff ctx d pp (st\<lparr>ds_resolved := pp_path pp\<rparr>))"
  defines "ev \<equiv> decision_event en name input_json eff ctx hp d pp ap"
  obtains (audit_failed) e st' where
      "admitted en entry name input_json eff pc hp ctx st = (Inl e, st')" "en_record en ev = Inl e"
      "ds_effects st' = ds_effects st @ [FxAuditFailed ev]"
    | (refused) e st' where
      "admitted en entry name input_json eff pc hp ctx st = (Inl e, st')" "en_record en ev = Inr ()"
      "ds_effects st' = ds_effects st @ [FxAudit ev]" "\<not> may_run d ap pp \<or> pc_execute pc = None"
    | (ran) run st' where
      "admitted en entry name input_json eff pc hp ctx st = (run (pp_path pp), st')" "en_record en ev = Inr ()"
      "ds_effects st' = ds_effects st @ [FxAudit ev, FxExecute eff]" "may_run d ap pp" "pc_execute pc = Some run"
proof -
  obtain ap' st2 where a: "approval_step en name eff ctx d pp (st\<lparr>ds_resolved := pp_path pp\<rparr>) = (ap', st2)"
    by (cases "approval_step en name eff ctx d pp (st\<lparr>ds_resolved := pp_path pp\<rparr>)")
  have ap: "ap' = ap" using a by (simp add: ap_def)
  have st2: "ds_effects st2 = ds_effects st"
    using approval_step_effects [of en name eff ctx d pp "st\<lparr>ds_resolved := pp_path pp\<rparr>"] a by simp
  note body = admitted_def pp_def [symmetric] d_def [symmetric] Let_def a ap ev_def [symmetric]
  from record_audit_cases [of en ev st2] show thesis
  proof (elim disjE exE conjE)
    fix e assume "record_audit en ev st2 = (Inl e, log_effect (FxAuditFailed ev) st2)" "en_record en ev = Inl e"
    then show thesis using audit_failed [of e "log_effect (FxAuditFailed ev) st2"] st2 by (simp add: body)
  next
    assume r: "record_audit en ev st2 = (Inr (), log_effect (FxAudit ev) st2)" "en_record en ev = Inr ()"
    show thesis
    proof (cases "may_run d ap pp \<and> pc_execute pc \<noteq> None")
      case True
      then obtain run where run: "pc_execute pc = Some run" by auto
      from True have "pp_error pp = None" by (simp add: may_run_def)
      then show thesis
        using ran [of run "log_effect (FxExecute eff) (log_effect (FxAudit ev) st2)"] True run r st2 by (simp add: body)
    next
      case False
      have "admitted en entry name input_json eff pc hp ctx st = (case pp_error pp of
          Some e \<Rightarrow> (Inl (with_ctx ''tool'' name e), log_effect (FxAudit ev) st2)
        | None \<Rightarrow> (Inl (if may_run d ap pp then err_internal ''tool preparation returned no executor''
            else if dc_verdict d = Deny then denied_error name d
            else if ar_state ap = ApRejected then with_ctx ''tool'' name (the (ar_rejection ap))
            else approval_required_error name d), log_effect (FxAudit ev) st2))"
        using False r by (cases "pp_error pp") (simp_all add: body)
      then obtain e where "admitted en entry name input_json eff pc hp ctx st = (Inl e, log_effect (FxAudit ev) st2)"
        by (cases "pp_error pp") simp_all
      then show thesis using refused [of e] False r st2 by auto
    qed
  qed
qed

text \<open>
  One recording attempt of a call that ends in the error \<open>e\<close>: the sink took the event, or it
  failed and its failure is the error of the call.
\<close>

definition attempted :: "dispatch_env \<Rightarrow> audit_event \<Rightarrow> core_error \<Rightarrow> effect \<Rightarrow> bool" where
  "attempted en ev e fx \<longleftrightarrow>
     fx = FxAudit ev \<and> en_record en ev = Inr () \<or> fx = FxAuditFailed ev \<and> en_record en ev = Inl e"

lemma blocked_call_effects:
  "\<exists>e ev fx. fst (blocked_call en name input_json eff hp ctx st) = Inl e \<and>
     ds_effects (snd (blocked_call en name input_json eff hp ctx st)) = ds_effects st @ [fx] \<and>
     attempted en ev e fx"
proof -
  obtain ev where ev: "ev = (build_event en name eff (default_decision_of Deny (hp_reason hp)) ctx
    (with_hook_facts en hp input_json ''{}''))\<lparr>ae_outcome := Oc_blocked_by_hook\<rparr>" by simp
  show ?thesis using record_audit_cases [of en ev st] by (auto simp: blocked_call_def attempted_def Let_def ev)
qed

lemma unprepared_call_effects:
  "\<exists>re ev fx. fst (unprepared_call en name input_json eff e hp ctx st) = Inl re \<and>
     ds_effects (snd (unprepared_call en name input_json eff e hp ctx st)) = ds_effects st @ [fx] \<and>
     attempted en ev re fx"
proof -
  obtain ev where ev: "ev = build_event en name eff (default_decision_of Deny
    (if err_kind e = invalid_argument_kind then ''invalid_tool_input'' else ''tool_preparation_failed''))
    ctx (with_hook_facts en hp input_json ''{}'')" by simp
  show ?thesis using record_audit_cases [of en ev st] by (auto simp: unprepared_call_def attempted_def Let_def ev)
qed

text \<open>The consents a dispatch needs: of the \<^verbatim>\<open>tool_before\<close> gate, and of an operator.\<close>

definition hook_consents :: "dispatch_env \<Rightarrow> reg_entry \<Rightarrow> string \<Rightarrow> string \<Rightarrow> dispatch_ctx \<Rightarrow> string \<Rightarrow> bool" where
  "hook_consents en entry name input_json ctx i = (case dx_bus ctx of
     None \<Rightarrow> i = input_json
   | Some bus \<Rightarrow> (case publish_blocking (en_before_race en) bus EvToolBefore (build_before_payload en name input_json ctx) of
       Inl _ \<Rightarrow> False
     | Inr d \<Rightarrow> (case hd_kind d of
         HkProceed \<Rightarrow> i = input_json
       | HkVeto \<Rightarrow> False
       | HkRewrite \<Rightarrow> hd_rewritten d = Some i
       | HkRequireApproval \<Rightarrow> i = input_json \<and> re_policy entry = Permissioned)))"

definition hook_escalates :: "dispatch_env \<Rightarrow> string \<Rightarrow> string \<Rightarrow> dispatch_ctx \<Rightarrow> bool" where
  "hook_escalates en name input_json ctx = (case dx_bus ctx of
     None \<Rightarrow> False
   | Some bus \<Rightarrow> (case publish_blocking (en_before_race en) bus EvToolBefore (build_before_payload en name input_json ctx) of
       Inl _ \<Rightarrow> False
     | Inr d \<Rightarrow> hd_kind d = HkRequireApproval))"

definition operator_consents :: "dispatch_env \<Rightarrow> string \<Rightarrow> string \<Rightarrow> dispatch_ctx \<Rightarrow> int \<Rightarrow> decision \<Rightarrow> broker \<Rightarrow> bool" where
  "operator_consents en name i ctx now d b = (case dx_token ctx of
     Some token \<Rightarrow> fst (check (en_crypto en) token name i (dx_identity ctx) now b) = Inr ()
   | None \<Rightarrow> (case dx_bus ctx of
       None \<Rightarrow> False
     | Some bus \<Rightarrow> (case publish_blocking (en_ask_race en) bus EvPermissionAskRendered
           (PPermissionAsk (build_permission_ask_payload en name i ctx now d)) of
         Inl _ \<Rightarrow> False
       | Inr h \<Rightarrow> hd_kind h = HkProceed \<and> operator_reason h \<noteq> [])))"

definition policies :: "dispatch_ctx \<Rightarrow> (rule_set \<times> mode) list" where
  "policies ctx = (dx_rules ctx, dx_mode ctx) # (case dx_parent_policy ctx of Some p \<Rightarrow> [p] | None \<Rightarrow> [])"

lemma not_runtime_policy [simp]: "p \<noteq> RuntimePolicy \<longleftrightarrow> p = Permissioned"
  by (cases p) auto

lemma hook_before_ok:
  assumes "hp = hook_before en entry name input_json ctx" and "hp_error hp = None" and "\<not> hp_blocked hp"
  shows "hook_consents en entry name input_json ctx (effective_input hp input_json)"
    and "hook_escalates en name input_json ctx \<longleftrightarrow> hd_kind (hp_decision hp) = HkRequireApproval"
    and "hd_kind (hp_decision hp) = HkRequireApproval \<Longrightarrow> re_policy entry = Permissioned"
  using assms
  by (auto simp: hook_before_def hook_consents_def hook_escalates_def effective_input_def proceed_decision_def Let_def
      split: option.splits sum.splits hook_decision_kind.splits if_splits)

lemma resolve_ask_approved:
  assumes "ar_state (fst (resolve_ask cr rc nonce bs rq b)) = ApApproved"
  shows "case aq_token rq of
     Some token \<Rightarrow> fst (check cr token (aq_tool_name rq) (aq_input rq) (aq_identity rq) (aq_now rq) b) = Inr ()
   | None \<Rightarrow> (\<exists>bus h. bs = Some bus \<and> publish_blocking rc bus EvPermissionAskRendered (PPermissionAsk (aq_payload rq)) = Inr h \<and>
       hd_kind h = HkProceed \<and> operator_reason h \<noteq> [])"
  using assms
  by (auto simp: resolve_ask_def check_token_def pending_resolution_def rejected_def Let_def
      split: option.splits sum.splits prod.splits if_splits hook_decision_kind.splits)

lemma approval_step_approved:
  assumes "ar_state (fst (approval_step en name i ctx d pp st)) = ApApproved"
  shows "\<exists>b. ds_broker st = Some b \<and> dc_verdict d = Ask \<and> operator_consents en name i ctx (ds_now st) d b"
proof -
  obtain b where b: "ds_broker st = Some b" and ask: "dc_verdict d = Ask"
    using assms by (auto simp: approval_step_def pending_resolution_def split: option.splits if_splits)
  have "pp_error pp = None" using assms b by (auto simp: approval_step_def pending_resolution_def split: if_splits)
  with assms b ask have "ar_state (fst (resolve_ask (en_crypto en) (en_ask_race en) (en_nonce en) (dx_bus ctx)
      \<lparr>aq_tool_name = name, aq_input = i, aq_identity = dx_identity ctx, aq_decision = d, aq_now = ds_now st,
       aq_token = dx_token ctx, aq_payload = build_permission_ask_payload en name i ctx (ds_now st) d\<rparr> b)) = ApApproved"
    by (simp add: approval_step_def Let_def split: prod.splits)
  from resolve_ask_approved [OF this] b ask show ?thesis
    by (auto simp: operator_consents_def split: option.splits)
qed

lemma authorize_rank:
  assumes "re_policy entry = Permissioned"
  shows "(rules, md) \<in> set (policies ctx) \<Longrightarrow>
      verdict_rank (dc_verdict (evaluate (en_re en) rules name i (required_capabilities (re_def entry)) md))
      \<le> verdict_rank (dc_verdict (authorize en entry name i ctx hp outside))"
    and "hd_kind (hp_decision hp) = HkRequireApproval \<or> outside \<Longrightarrow>
      dc_verdict (authorize en entry name i ctx hp outside) \<noteq> Allow"
proof -
  have esc: "verdict_rank (dc_verdict d) \<le> verdict_rank (dc_verdict (require_approval_decision d h))"
    "verdict_rank (dc_verdict d) \<le> verdict_rank (dc_verdict (require_workspace_override_approval d))" for d h
    by (auto simp: require_approval_decision_def require_workspace_override_approval_def)
  note esc' = esc [THEN order_trans [rotated]]
  show "verdict_rank (dc_verdict (evaluate (en_re en) rules name i (required_capabilities (re_def entry)) md))
      \<le> verdict_rank (dc_verdict (authorize en entry name i ctx hp outside))" if "(rules, md) \<in> set (policies ctx)"
    using that assms
    by (auto simp: authorize_def policies_def Let_def dec.rank_meet split: option.splits intro!: esc')
  show "dc_verdict (authorize en entry name i ctx hp outside) \<noteq> Allow" if "hd_kind (hp_decision hp) = HkRequireApproval \<or> outside"
    using that by (auto simp: authorize_def Let_def require_approval_decision_def require_workspace_override_approval_def)
qed

lemma decision_event_fields:
  "ae_tool_name (decision_event en name input_json i ctx hp d pp ap) = name"
  "ae_identity (decision_event en name input_json i ctx hp d pp ap) = dx_identity ctx"
  "ae_input_hash (decision_event en name input_json i ctx hp d pp ap) = Some (input_hash (en_crypto en) i)"
  by (auto simp: decision_event_def build_event_def Let_def split: approval_state.splits option.splits)

lemma decision_event_outcome:
  "may_run d ap pp \<Longrightarrow> ar_state ap = ApApproved \<Longrightarrow> ae_outcome (decision_event en name input_json i ctx hp d pp ap) = Oc_approved"
  "may_run d ap pp \<Longrightarrow> ar_state ap \<noteq> ApApproved \<Longrightarrow> ar_state ap \<noteq> ApRejected \<Longrightarrow>
   ae_outcome (decision_event en name input_json i ctx hp d pp ap) = (if hp_rewritten hp \<noteq> None then Oc_rewritten else Oc_allow)"
  by (auto simp: decision_event_def build_event_def may_run_def make_audit_event_from_decision_def Let_def
      split: approval_state.splits option.splits)

lemma approval_step_allow: "dc_verdict d \<noteq> Ask \<Longrightarrow> fst (approval_step en name i ctx d pp st) = pending_resolution"
  by (auto simp: approval_step_def split: option.splits)

lemma lock_path_now: "ds_now (snd (lock_path en entry prepared ctx st)) \<in> {ds_now st, ds_now st + en_wait en}"
  by (auto simp: lock_path_def Let_def log_effect_def split: sum.splits option.splits bool.splits)

definition quiet :: "effect list \<Rightarrow> bool" where
  "quiet fxs \<longleftrightarrow> list_all (\<lambda>fx. case fx of FxBefore _ \<Rightarrow> True | FxLock _ _ \<Rightarrow> True | FxAfter _ \<Rightarrow> True | _ \<Rightarrow> False) fxs"

lemma quiet_simps [simp]:
  "quiet []" "quiet (xs @ ys) \<longleftrightarrow> quiet xs \<and> quiet ys" "quiet (FxBefore p # xs) \<longleftrightarrow> quiet xs"
  "quiet (FxLock k m # xs) \<longleftrightarrow> quiet xs" "quiet (FxAfter p # xs) \<longleftrightarrow> quiet xs"
  "\<not> quiet (FxAudit ev # xs)" "\<not> quiet (FxAuditFailed ev # xs)" "\<not> quiet (FxExecute i # xs)"
  by (auto simp: quiet_def)

lemma quiet_noD: "quiet xs \<Longrightarrow> FxExecute i \<notin> set xs \<and> FxAudit ev \<notin> set xs \<and> FxAuditFailed ev \<notin> set xs"
  by (auto simp: quiet_def list_all_iff)

text \<open>
  A row of the audit log, as opposed to an attempt to record one: an attempt that failed leaves no row.
\<close>

fun is_row :: "effect \<Rightarrow> bool" where
  "is_row (FxAudit _) = True"
| "is_row _ = False"

fun is_attempt :: "effect \<Rightarrow> bool" where
  "is_attempt (FxAudit _) = True"
| "is_attempt (FxAuditFailed _) = True"
| "is_attempt _ = False"

fun is_run :: "effect \<Rightarrow> bool" where
  "is_run (FxExecute _) = True"
| "is_run _ = False"

lemma quiet_filter [simp]: "quiet xs \<Longrightarrow> filter is_attempt xs = [] \<and> filter is_row xs = [] \<and> filter is_run xs = []"
  by (induction xs) (auto simp: quiet_def split: effect.splits)

text \<open>How the decided call ends: with no row, with one row and no run, or with one row and then one run.\<close>

lemma decide_call_cases:
  fixes en entry name input_json hp ctx st
  defines "i \<equiv> effective_input hp input_json"
  obtains (silent) e where
      "decide_call en entry name input_json hp prepared locked ctx st = (Inl e, st)" "hp_error hp \<noteq> None \<or> locked \<noteq> Inr ()"
    | (refused) fx ev e st' where
      "decide_call en entry name input_json hp prepared locked ctx st = (Inl e, st')"
      "ds_effects st' = ds_effects st @ [fx]" "attempted en ev e fx"
    | (ran) ev d ap pp res sta st' where
      "decide_call en entry name input_json hp prepared locked ctx st = (res, st')"
      "ds_effects st' = ds_effects st @ [FxAudit ev, FxExecute i]"
      "hp_error hp = None" "\<not> hp_blocked hp" "en_record en ev = Inr ()"
      "d = authorize en entry name i ctx hp (pp_requires_approval pp)"
      "ap = fst (approval_step en name i ctx d pp sta)" "may_run d ap pp"
      "ev = decision_event en name input_json i ctx hp d pp ap"
      "ds_broker sta = ds_broker st" "ds_now sta = ds_now st"
proof -
  note body = decide_call_def Let_def i_def [symmetric]
  show thesis
  proof (cases "locked = Inr () \<and> hp_error hp = None")
    case False
    then have "\<exists>e. decide_call en entry name input_json hp prepared locked ctx st = (Inl e, st)"
      by (cases locked; cases "hp_error hp") (auto simp: body)
    then show thesis using silent False by blast
  next
    case ok: True
    show thesis
    proof (cases "hp_blocked hp")
      case True
      with ok have eq: "decide_call en entry name input_json hp prepared locked ctx st = blocked_call en name input_json i hp ctx st"
        by (simp add: body)
      show thesis using blocked_call_effects [of en name input_json i hp ctx st] refused eq by (metis prod.collapse)
    next
      case free: False
      show thesis
      proof (cases prepared)
        case (Inl e)
        with ok free have eq: "decide_call en entry name input_json hp prepared locked ctx st = unprepared_call en name input_json i e hp ctx st"
          by (simp add: body)
        show thesis using unprepared_call_effects [of en name input_json i e hp ctx st] refused eq by (metis prod.collapse)
      next
        case (Inr pc)
        have eq: "decide_call en entry name input_json hp prepared locked ctx st = admitted en entry name input_json i pc hp ctx st"
          using ok free Inr by (simp add: body)
        show thesis
        proof (rule admitted_cases [of en entry name input_json i pc hp ctx st], goal_cases)
          case (3 run st')
          then show thesis using ok free eq
            by (intro ran [OF _ _ _ _ _ refl refl _ refl, where sta = "st\<lparr>ds_resolved := pp_path (path_report_of en ctx pc)\<rparr>"]) simp_all
        qed (use eq refused attempted_def in metis)+
      qed
    qed
  qed
qed

lemma publish_before_effects: "\<exists>ls. ds_effects (publish_before en name input_json ctx st) = ds_effects st @ ls \<and> quiet ls"
  by (auto simp: publish_before_def)

lemma publish_before_keeps [simp]:
  "ds_broker (publish_before en name input_json ctx st) = ds_broker st"
  "ds_now (publish_before en name input_json ctx st) = ds_now st"
  by (auto simp: publish_before_def log_effect_def)

lemma finish_call_effects:
  "\<exists>post. ds_effects (snd (finish_call en name eff ctx res st)) = ds_effects st @ post \<and> quiet post"
  by (auto simp: finish_call_def Let_def)

lemma finish_call_error [simp]: "fst (finish_call en name eff ctx (Inl e) st) = Inl e"
  by (simp add: finish_call_def Let_def)

text \<open>The log of one dispatch of a registered tool, in the three ways it can go.\<close>

lemma dispatch_entry_cases:
  fixes en entry name input_json ctx st
  defines "hp \<equiv> hook_before en entry name input_json ctx"
  defines "i \<equiv> effective_input hp input_json"
  obtains (silent) ls where
      "ds_effects (snd (dispatch_entry en entry name input_json ctx st)) = ds_effects st @ ls" "quiet ls"
      "\<not> is_ok (fst (dispatch_entry en entry name input_json ctx st))"
      "hp_error hp \<noteq> None \<or>
       fst (lock_path en entry (prepare_call entry hp i) ctx (publish_before en name input_json ctx st)) \<noteq> Inr ()"
    | (refused) ls fx ev e post where
      "ds_effects (snd (dispatch_entry en entry name input_json ctx st)) = ds_effects st @ ls @ fx # post"
      "quiet ls" "quiet post" "attempted en ev e fx"
      "fst (dispatch_entry en entry name input_json ctx st) = Inl e"
    | (ran) ls ev post d ap pp sta where
      "ds_effects (snd (dispatch_entry en entry name input_json ctx st)) = ds_effects st @ ls @ FxAudit ev # FxExecute i # post"
      "quiet ls" "quiet post" "hp_error hp = None" "\<not> hp_blocked hp" "en_record en ev = Inr ()"
      "d = authorize en entry name i ctx hp (pp_requires_approval pp)"
      "ap = fst (approval_step en name i ctx d pp sta)" "may_run d ap pp"
      "ev = decision_event en name input_json i ctx hp d pp ap"
      "ds_broker sta = ds_broker st" "ds_now sta \<in> {ds_now st, ds_now st + en_wait en}"
proof -
  let ?prep = "prepare_call entry hp i" and ?stb = "publish_before en name input_json ctx st"
  obtain locked stl where lk: "lock_path en entry ?prep ctx ?stb = (locked, stl)" by (rule prod.exhaust)
  obtain res std where dc: "decide_call en entry name input_json hp ?prep locked ctx stl = (res, std)" by (rule prod.exhaust)
  have eq: "dispatch_entry en entry name input_json ctx st = finish_call en name i ctx res std"
    using lk dc by (simp add: dispatch_entry_def Let_def hp_def [symmetric] i_def [symmetric])
  obtain ls where ls: "ds_effects stl = ds_effects st @ ls" "quiet ls"
    using publish_before_effects [of en name input_json ctx st] lock_path_effects [of en entry ?prep ctx ?stb] lk
    by (fastforce simp: quiet_def list_all_iff)
  obtain post where post: "ds_effects (snd (finish_call en name i ctx res std)) = ds_effects std @ post" "quiet post"
    using finish_call_effects by blast
  show thesis
  proof (rule decide_call_cases [of en entry name input_json hp ?prep locked ctx stl], unfold i_def [symmetric] dc, goal_cases)
    case (1 e)
    then show thesis using ls post lk by (intro silent [of "ls @ post"]) (auto simp: eq is_ok_iff)
  next
    case (2 fx ev e st')
    then show thesis using ls post by (intro refused [of ls fx post ev e]) (auto simp: eq is_ok_iff)
  next
    case (3 ev d ap pp r sta st')
    then show thesis using ls post lk lock_path_broker [of en entry ?prep ctx ?stb] lock_path_now [of en entry ?prep ctx ?stb]
      by (intro ran [of ls ev post d pp ap sta]) (auto simp: eq)
  qed
qed

lemma may_run_policies:
  assumes "re_policy entry = Permissioned" and "may_run (authorize en entry name i ctx hp outside) ap pp"
    and "(rules, md) \<in> set (policies ctx)"
  shows "dc_verdict (evaluate (en_re en) rules name i (required_capabilities (re_def entry)) md) \<noteq> Deny"
    and "dc_verdict (evaluate (en_re en) rules name i (required_capabilities (re_def entry)) md) = Ask \<Longrightarrow> ar_state ap = ApApproved"
proof -
  let ?own = "dc_verdict (evaluate (en_re en) rules name i (required_capabilities (re_def entry)) md)"
    and ?all = "dc_verdict (authorize en entry name i ctx hp outside)"
  have le: "verdict_rank ?own \<le> verdict_rank ?all" using authorize_rank(1) [OF assms(1) assms(3)] .
  show "?own \<noteq> Deny" using le assms(2) by (auto simp: may_run_def)
  show "ar_state ap = ApApproved" if "?own = Ask" using le assms(2) that by (auto simp: may_run_def)
qed

section \<open>The registry as a list of definitions\<close>

datatype registry_op = OpAdd tool_def "(string \<Rightarrow> prepared_call result) option" dispatch_policy | OpRemove string

fun registry_step :: "json_lib \<Rightarrow> registry_op \<Rightarrow> registry \<Rightarrow> registry" where
  "registry_step lib (OpAdd d p policy) r = snd (add_prepared lib d p policy r)"
| "registry_step lib (OpRemove name) r = snd (remove_tool name r)"

text \<open>The specification: the registered definitions, in the order of registration.\<close>

fun catalog_step :: "json_lib \<Rightarrow> registry_op \<Rightarrow> tool_def list \<Rightarrow> tool_def list" where
  "catalog_step lib (OpAdd d p policy) ds =
     (if tool_name d \<noteq> [] \<and> p \<noteq> None \<and> (policy = RuntimePolicy \<longrightarrow> required_capabilities d = []) \<and>
         is_ok (validate_input_schema lib (tool_name d) (input_schema_json d)) \<and> tool_name d \<notin> tool_name ` set ds
      then ds @ [d] else ds)"
| "catalog_step lib (OpRemove name) ds = filter (\<lambda>d. tool_name d \<noteq> name) ds"

definition registry_inv :: "registry \<Rightarrow> bool" where
  "registry_inv r \<longleftrightarrow> list_all (\<lambda>(n, e). n = tool_name (re_def e) \<and> re_index e < reg_next_index r) (reg_entries r) \<and>
     distinct (map fst (reg_entries r)) \<and> sorted_wrt (<) (map (re_index \<circ> snd) (reg_entries r))"

abbreviation registered :: "registry \<Rightarrow> tool_def list" where
  "registered r \<equiv> map (re_def \<circ> snd) (reg_entries r)"

lemma registry_names:
  assumes "registry_inv r"
  shows "map_of (reg_entries r) n = None \<longleftrightarrow> n \<notin> tool_name ` set (registered r)"
  using assms by (force simp: registry_inv_def list_all_iff map_of_eq_None_iff image_iff)

lemma add_prepared_registry:
  "snd (add_prepared lib d p policy r) =
     (if tool_name d \<noteq> [] \<and> p \<noteq> None \<and> (policy = RuntimePolicy \<longrightarrow> required_capabilities d = []) \<and>
         is_ok (validate_input_schema lib (tool_name d) (input_schema_json d)) \<and> map_of (reg_entries r) (tool_name d) = None
      then \<lparr>reg_entries = reg_entries r @ [(tool_name d, \<lparr>re_def = d, re_prepare = the p,
             re_policy = policy, re_index = reg_next_index r\<rparr>)], reg_next_index = Suc (reg_next_index r)\<rparr>
      else r)"
  by (auto simp: add_prepared_def is_ok_iff split: option.splits sum.splits if_splits)

lemma registry_step_inv: "registry_inv r \<Longrightarrow> registry_inv (registry_step lib op r)"
proof (cases op)
  case (OpAdd d p policy)
  assume inv: "registry_inv r"
  then show ?thesis
    using OpAdd registry_names [OF inv, of "tool_name d"]
    by (auto simp: add_prepared_registry registry_inv_def list_all_iff sorted_wrt_append map_of_eq_None_iff less_Suc_eq)
next
  case (OpRemove n)
  assume "registry_inv r"
  then show ?thesis
    by (auto simp: OpRemove remove_tool_def registry_inv_def list_all_iff distinct_map_filter sorted_wrt_filter sorted_wrt_map
        split: option.splits)
qed

interpretation reg: invariant_machine "registry_step lib" "\<lambda>_. True" registry_inv for lib
  by unfold_locales (rule registry_step_inv)

lemma registered_step:
  assumes "registry_inv r"
  shows "registered (registry_step lib op r) = catalog_step lib op (registered r)"
proof (cases op)
  case (OpAdd d p policy)
  then show ?thesis using registry_names [OF assms, of "tool_name d"]
    by (auto simp: OpAdd add_prepared_registry image_image)
next
  case (OpRemove n)
  have "filter (\<lambda>kv. fst kv \<noteq> n) es = es" if "n \<notin> fst ` set es" for es :: "(string \<times> reg_entry) list"
    using that by (induction es) auto
  moreover have "map (re_def \<circ> snd) (filter (\<lambda>kv. fst kv \<noteq> n) (reg_entries r)) =
      filter (\<lambda>d. tool_name d \<noteq> n) (registered r)"
    using assms unfolding registry_inv_def
    by (induction "reg_entries r" arbitrary: r rule: list.induct) (auto simp: filter_map comp_def list_all_iff intro!: arg_cong [where f = "map _"] filter_cong)
  ultimately show ?thesis by (auto simp: OpRemove remove_tool_def map_of_eq_None_iff split: option.splits)
qed

lemma registered_run: "registered (fold (registry_step lib) ops empty_registry) = fold (catalog_step lib) ops []"
proof -
  have "registry_inv r \<Longrightarrow> registered (fold (registry_step lib) ops r) = fold (catalog_step lib) ops (registered r)" for r
    by (induction ops arbitrary: r) (simp_all add: registered_step registry_step_inv)
  from this [of empty_registry] show ?thesis by (simp add: registry_inv_def empty_registry_def)
qed

lemma distinct_fst_perm: "mset xs = mset ys \<Longrightarrow> distinct (map fst xs) \<longleftrightarrow> distinct (map fst ys)"
  by (metis mset_eq_imp_distinct_iff mset_map)

lemma sort_by_index:
  assumes inv: "registry_inv r" and perm: "mset es = mset (reg_entries r)"
  shows "sort_key re_index (map snd es) = map snd (reg_entries r)"
proof (rule sort_key_inj_key_eq)
  show "mset (map snd es) = mset (map snd (reg_entries r))" using perm by simp
  have srt: "sorted_wrt (<) (map re_index (map snd (reg_entries r)))" using inv by (simp add: registry_inv_def)
  then have "distinct (map re_index (map snd (reg_entries r)))" by (simp add: strict_sorted_iff)
  then show "inj_on re_index (set (map snd es))" using mset_eq_setD [OF perm] by (simp add: distinct_map inj_on_imageI)
  show "sorted (map re_index (map snd (reg_entries r)))" using srt by (simp add: strict_sorted_iff)
qed

section \<open>Properties of dispatch\<close>

text \<open>
  C1: a tool handler runs only with authority, and only after its decision is on record. If a
  dispatch of \<open>name\<close> ran a handler on input \<open>i\<close>, then the tool is registered and enabled for the
  turn; the \<^verbatim>\<open>tool_before\<close> gate agreed to exactly that input; immediately before the run one
  audit row was durably recorded, naming the tool, the identity and the digest of that input, and
  the handler ran once; no policy in force denies the call; and if a policy or a hook asks for
  approval, the row says so and the broker honoured a token or an operator agreed.
\<close>

theorem handler_runs_only_when_authorized:
  assumes fresh: "ds_effects st = []"
    and ran: "FxExecute i \<in> set (ds_effects (snd (dispatch_call en reg name input_json ctx st)))"
  shows "\<exists>entry ev pre post.
    map_of (reg_entries reg) name = Some entry \<and> (\<forall>ns. dx_active_tools ctx = Some ns \<longrightarrow> name \<in> set ns) \<and>
    hook_consents en entry name input_json ctx i \<and>
    ds_effects (snd (dispatch_call en reg name input_json ctx st)) = pre @ FxAudit ev # FxExecute i # post \<and>
    quiet pre \<and> quiet post \<and> en_record en ev = Inr () \<and>
    ae_tool_name ev = name \<and> ae_identity ev = dx_identity ctx \<and> ae_input_hash ev = Some (input_hash (en_crypto en) i) \<and>
    ae_outcome ev \<in> {Oc_allow, Oc_rewritten, Oc_approved} \<and>
    (re_policy entry = Permissioned \<longrightarrow>
      (\<forall>(rules, md) \<in> set (policies ctx).
        let v = dc_verdict (evaluate (en_re en) rules name i (required_capabilities (re_def entry)) md) in
        v \<noteq> Deny \<and> (v = Ask \<or> hook_escalates en name input_json ctx \<longrightarrow> ae_outcome ev = Oc_approved))) \<and>
    (ae_outcome ev = Oc_approved \<longrightarrow>
      (\<exists>b d now. ds_broker st = Some b \<and> now \<in> {ds_now st, ds_now st + en_wait en} \<and>
        operator_consents en name i ctx now d b))"
proof -
  obtain entry where entry: "map_of (reg_entries reg) name = Some entry"
      and active: "\<forall>ns. dx_active_tools ctx = Some ns \<longrightarrow> name \<in> set ns"
      and eq: "dispatch_call en reg name input_json ctx st = dispatch_entry en entry name input_json ctx (st\<lparr>ds_resolved := None\<rparr>)"
    using fresh ran by (auto simp: dispatch_call_def Let_def split: option.splits if_splits)
  show ?thesis
  proof (rule dispatch_entry_cases [of en entry name input_json ctx "st\<lparr>ds_resolved := None\<rparr>"], goal_cases)
    case (3 ls ev post d ap pp sta)
    let ?hp = "hook_before en entry name input_json ctx"
    let ?i = "effective_input ?hp input_json"
    have i: "i = ?i" using ran 3(1) fresh quiet_noD [OF 3(2)] quiet_noD [OF 3(3)] by (auto simp: eq)
    note hook = hook_before_ok [OF refl 3(4,5)]
    have run: "may_run (authorize en entry name ?i ctx ?hp (pp_requires_approval pp)) ap pp" using 3(7,9) by simp
    have oc: "ae_outcome ev = Oc_approved \<longleftrightarrow> ar_state ap = ApApproved" "ae_outcome ev \<in> {Oc_allow, Oc_rewritten, Oc_approved}"
      using decision_event_outcome [OF 3(9), of en name input_json ?i ctx ?hp] 3(9) approval_step_allow [of d en name ?i ctx pp sta]
      by (cases "ar_state ap"; auto simp: 3(8,10) may_run_def pending_resolution_def)+
    have esc: "ar_state ap = ApApproved" if "hook_escalates en name input_json ctx"
      using that hook(2) authorize_rank(2) [OF hook(3), of ?hp] run by (auto simp: may_run_def)
    have appr: "\<exists>b d now. ds_broker st = Some b \<and> now \<in> {ds_now st, ds_now st + en_wait en} \<and> operator_consents en name ?i ctx now d b"
      if "ar_state ap = ApApproved"
      using approval_step_approved [of en name ?i ctx d pp sta] that 3(8,11,12) by auto
    have pol: "\<forall>(rules, md) \<in> set (policies ctx).
        let v = dc_verdict (evaluate (en_re en) rules name ?i (required_capabilities (re_def entry)) md) in
        v \<noteq> Deny \<and> (v = Ask \<or> hook_escalates en name input_json ctx \<longrightarrow> ae_outcome ev = Oc_approved)"
      if "re_policy entry = Permissioned"
      using may_run_policies [OF that run] esc oc(1) by (auto simp: Let_def)
    show ?thesis unfolding i eq
      using entry active hook(1) 3(1-3,6) fresh oc pol appr decision_event_fields [of en name input_json ?i ctx ?hp d pp ap] 3(10)
      by (intro exI [of _ entry] exI [of _ ev] exI [of _ ls] exI [of _ post]) simp
  qed (use ran fresh in \<open>auto simp: eq attempted_def dest: quiet_noD\<close>)
qed

definition demo_out :: tool_output where
  "demo_out = \<lparr>out_text = ''ok'', out_data_json = None, out_attachments = [], out_usage = no_usage, out_is_error = False\<rparr>"

definition demo_reg :: registry where
  "demo_reg = \<lparr>reg_entries = [(''FileRead'', \<lparr>re_def = \<lparr>tool_name = ''FileRead'', tool_description = [],
       input_schema_json = ''{}'', required_capabilities = [read_file]\<rparr>,
     re_prepare = (\<lambda>i. Inr \<lparr>pc_path = None, pc_execute = Some (\<lambda>_. Inr demo_out)\<rparr>), re_policy = Permissioned, re_index = 0\<rparr>)],
     reg_next_index = 1\<rparr>"

definition demo_env :: dispatch_env where
  "demo_env = \<lparr>en_crypto = \<lparr>sha256 = (\<lambda>s. s), hmac_sha256 = (\<lambda>k s. s)\<rparr>,
     en_lib = \<lparr>json_parse = (\<lambda>_. Inr (JObject [])), json_dump = (\<lambda>_. [])\<rparr>, en_re = (\<lambda>_ _. False), en_started = 0, en_finished = 1,
     en_before_race = (\<lambda>_. DecisionFirst), en_ask_race = (\<lambda>_. DecisionFirst), en_nonce = [],
     en_acquire = (\<lambda>_ _. Inr ()), en_wait = 0, en_record = (\<lambda>_. Inr ())\<rparr>"

definition demo_ctx :: dispatch_ctx where
  "demo_ctx = \<lparr>dx_mode = DefaultMode, dx_rules = default_rules DefaultMode, dx_parent_policy = None, dx_token = None, dx_bus = None,
     dx_active_tools = Some [''FileRead''], dx_workspace = None, dx_path_locks = False,
     dx_caps = \<lparr>max_text_bytes = 100, max_data_bytes = 100\<rparr>, dx_parent_turn_id = None,
     dx_scope_key = ''s'', dx_agent_key = ''a'', dx_identity = ''u''\<rparr>"

definition demo_state :: dispatch_state where
  "demo_state = \<lparr>ds_broker = None, ds_token_output = None, ds_now = 0, ds_resolved = None, ds_effects = []\<rparr>"

lemmas demo_dispatch_defs = demo_out_def demo_reg_def demo_env_def demo_ctx_def demo_state_def

lemma demo_verdict: "dc_verdict (evaluate (\<lambda>_ _. False) default_baseline ''FileRead'' ''x'' [read_file] DefaultMode) = Allow"
  by (simp add: evaluate_verdict_strictest requirement_verdict_def default_baseline_def strictest_def)

lemma demo_run:
  "FxExecute ''x'' \<in> set (ds_effects (snd (dispatch_call demo_env demo_reg ''FileRead'' ''x'' demo_ctx demo_state)))"
  by (simp add: demo_dispatch_defs dispatch_call_def dispatch_entry_def publish_before_def hook_before_def effective_input_def
      prepare_call_def lock_path_def decide_call_def admitted_def path_report_of_def empty_path_report_def
      approval_step_def record_audit_def may_run_def authorize_def demo_verdict proceed_decision_def finish_call_def Let_def)

theorem handler_runs_only_when_authorized_witness:
  "\<exists>ev. FxAudit ev \<in> set (ds_effects (snd (dispatch_call demo_env demo_reg ''FileRead'' ''x'' demo_ctx demo_state))) \<and>
     ae_tool_name ev = ''FileRead'' \<and> ae_identity ev = ''u'' \<and> ae_input_hash ev = Some (input_hash (en_crypto demo_env) ''x'')"
proof -
  have "ds_effects demo_state = []" "dx_identity demo_ctx = ''u''" by (simp_all add: demo_state_def demo_ctx_def)
  then show ?thesis using handler_runs_only_when_authorized [OF _ demo_run] by (metis in_set_conv_decomp)
qed

text \<open>
  C12: every dispatch is accounted for. It tries at most once to record an audit event and runs at
  most one handler. Whenever the tool is registered and enabled, its hooks answered and its path
  lock was granted, it tries exactly once, whatever the decision is, and the log then holds exactly
  one row if the sink took the event and no row if it did not. A row is an event the sink took; an
  attempt that failed leaves no row and no run, and its error is the error of the call. A handler
  never runs, and a call never succeeds, without its one row.
\<close>

theorem dispatch_audits_exactly_once:
  assumes fresh: "ds_effects st = []"
  shows "let (res, st') = dispatch_call en reg name input_json ctx st; fx = ds_effects st';
      attempts = filter is_attempt fx; rows = filter is_row fx; runs = filter is_run fx in
    length attempts \<le> 1 \<and> length runs \<le> 1 \<and>
    (is_ok res \<longrightarrow> runs \<noteq> []) \<and> (runs \<noteq> [] \<longrightarrow> length rows = 1) \<and>
    (\<forall>ev. FxAudit ev \<in> set fx \<longrightarrow> en_record en ev = Inr ()) \<and>
    (\<forall>ev. FxAuditFailed ev \<in> set fx \<longrightarrow> rows = [] \<and> runs = [] \<and> (\<exists>e. en_record en ev = Inl e \<and> res = Inl e)) \<and>
    (\<forall>entry hp. map_of (reg_entries reg) name = Some entry \<and> (\<forall>ns. dx_active_tools ctx = Some ns \<longrightarrow> name \<in> set ns) \<and>
      hp = hook_before en entry name input_json ctx \<and> hp_error hp = None \<and> (\<forall>k m. en_acquire en k m = Inr ()) \<longrightarrow>
      (\<exists>ev. (case en_record en ev of
          Inr _ \<Rightarrow> attempts = [FxAudit ev] \<and> rows = [FxAudit ev]
        | Inl e \<Rightarrow> attempts = [FxAuditFailed ev] \<and> rows = [] \<and> runs = [] \<and> res = Inl e)))"
proof (cases "map_of (reg_entries reg) name = None \<or> \<not> (\<forall>ns. dx_active_tools ctx = Some ns \<longrightarrow> name \<in> set ns)")
  case True
  then show ?thesis using fresh by (auto simp: dispatch_call_def Let_def is_ok_iff split: option.splits)
next
  case False
  let ?st = "st\<lparr>ds_resolved := None\<rparr>"
  obtain entry where eq: "dispatch_call en reg name input_json ctx st = dispatch_entry en entry name input_json ctx ?st"
      and entry: "map_of (reg_entries reg) name = Some entry"
    using False by (cases "map_of (reg_entries reg) name"; cases "dx_active_tools ctx") (auto simp: dispatch_call_def)
  have lock: "fst (lock_path en entry prepared ctx s) = Inr ()" if "\<forall>k m. en_acquire en k m = Inr ()" for prepared s
    using that by (auto simp: lock_path_def Let_def split: sum.splits option.splits bool.splits)
  show ?thesis
  proof (rule dispatch_entry_cases [of en entry name input_json ctx ?st], goal_cases)
    case (1 ls)
    then show ?thesis using fresh entry lock by (auto simp: eq Let_def split_beta dest: quiet_noD)
  next
    case (2 ls fx ev e post)
    then show ?thesis using fresh
      by (auto simp: eq Let_def split_beta attempted_def is_ok_iff dest: quiet_noD intro!: exI [of _ ev])
  next
    case (3 ls ev post d ap pp sta)
    then show ?thesis using fresh
      by (auto simp: eq Let_def split_beta dest: quiet_noD intro!: exI [of _ ev])
  qed
qed

theorem dispatch_audits_exactly_once_witness:
  "length (filter is_row (ds_effects (snd (dispatch_call demo_env demo_reg ''FileRead'' ''x'' demo_ctx demo_state)))) = 1"
proof -
  have answered: "map_of (reg_entries demo_reg) ''FileRead'' \<noteq> None" "\<forall>ns. dx_active_tools demo_ctx = Some ns \<longrightarrow> ''FileRead'' \<in> set ns"
    "hp_error (hook_before demo_env entry ''FileRead'' ''x'' demo_ctx) = None"
    "en_acquire demo_env k m = Inr ()" "en_record demo_env ev = Inr ()" for entry k m ev
    by (simp_all add: demo_dispatch_defs hook_before_def Let_def)
  obtain entry where "map_of (reg_entries demo_reg) ''FileRead'' = Some entry" using answered(1) by blast
  then show ?thesis
    using dispatch_audits_exactly_once [of demo_state demo_env demo_reg "''FileRead''" "''x''" demo_ctx] answered(2-)
    by (auto simp: Let_def split_beta demo_state_def)
qed

text \<open>
  C40: the registry is the list of its definitions. After any sequence of additions and removals,
  and whatever order the hash map iterates in, the catalog is the definitions in the order they
  were registered; a refused addition changes nothing; and \<open>find\<close> returns the entry of that
  name in the catalog.
\<close>

theorem registry_refines_catalog:
  assumes "mset (reg_entries r) = mset (reg_entries (fold (registry_step lib) ops empty_registry))"
  shows "catalog r = fold (catalog_step lib) ops [] \<and>
    find_tool n r = find (\<lambda>d. tool_name d = n) (catalog r) \<and> distinct (map tool_name (catalog r))"
proof -
  let ?r = "fold (registry_step lib) ops empty_registry"
  have inv: "registry_inv ?r"
    by (rule reg.run_inv) (simp_all add: registry_inv_def empty_registry_def list_all_iff)
  have cat: "catalog r = registered ?r"
    using sort_by_index [OF inv assms] by (simp add: catalog_def)
  have names: "map tool_name (registered ?r) = map fst (reg_entries ?r)"
    using inv by (auto simp: registry_inv_def list_all_iff)
  have "map_of (reg_entries r) = map_of (reg_entries ?r)"
    using inv mset_eq_setD [OF assms] distinct_fst_perm [OF assms]
    by (subst map_of_inject_set) (auto simp: registry_inv_def)
  moreover have "map_option re_def (map_of es n) = find (\<lambda>d. tool_name d = n) (map (re_def \<circ> snd) es)"
    if "list_all (\<lambda>(n, e). n = tool_name (re_def e)) es" for es
    using that by (induction es) auto
  moreover have "list_all (\<lambda>(n, e). n = tool_name (re_def e)) (reg_entries ?r)"
    using inv by (auto simp: registry_inv_def list_all_iff)
  ultimately have "find_tool n r = find (\<lambda>d. tool_name d = n) (registered ?r)" by (simp add: find_tool_def)
  moreover have "distinct (map tool_name (registered ?r))" using names inv by (simp only: registry_inv_def)
  ultimately show ?thesis using cat registered_run [of lib ops] by simp
qed

theorem registry_refines_catalog_witness:
  "let d = (\<lambda>n. \<lparr>tool_name = n, tool_description = [], input_schema_json = ''{}'', required_capabilities = [read_file]\<rparr>);
       ops = [OpAdd (d ''a'') (Some (\<lambda>_. Inr empty_prepared)) Permissioned, OpAdd (d ''b'') (Some (\<lambda>_. Inr empty_prepared)) Permissioned,
              OpAdd (d ''b'') None Permissioned, OpRemove ''a''];
       r = fold (registry_step (en_lib demo_env)) ops empty_registry
   in catalog r = [d ''b''] \<and> find_tool ''b'' r = Some (d ''b'')"
  using registry_refines_catalog [OF refl, of "en_lib demo_env"
    "let d = (\<lambda>n. \<lparr>tool_name = n, tool_description = [], input_schema_json = ''{}'', required_capabilities = [read_file]\<rparr>) in
     [OpAdd (d ''a'') (Some (\<lambda>_. Inr empty_prepared)) Permissioned, OpAdd (d ''b'') (Some (\<lambda>_. Inr empty_prepared)) Permissioned,
      OpAdd (d ''b'') None Permissioned, OpRemove ''a'']" "''b''"]
  by (simp add: Let_def demo_env_def validate_input_schema_def validate_schema_node.simps validate_enum_def validate_bound_def is_ok_iff)

end
