(* ===== verification/Agent_Scheduler.thy ===== *)
theory Agent_Scheduler
  imports Tool_Registry Provider_Execution
begin

text \<open>
  \<^verbatim>\<open>oran-agent/scheduler.cpp\<close>: one batch of tool calls under bounded parallelism. The coordinator
  coroutine of \<^verbatim>\<open>run_batch\<close> and the spawned calls interleave; the model is a machine over events,
  one per point where a coroutine resumes. An event that is not enabled changes nothing, so a run
  is any list of events.
\<close>

section \<open>Data\<close>

record scheduler_options =
  max_parallel_tools :: nat
  per_call_timeout :: int

record batch_call =
  bc_tool_use_id :: string
  bc_name :: string
  bc_input_json :: string

record batch_result =
  br_tool_use_id :: string
  br_name :: string
  br_output :: "tool_output result"

text \<open>How the race of a dispatch with its timeout ended, and whether the coroutine threw.\<close>

datatype call_race =
    DispatchReturned "tool_output result"
  | DispatchThrew bool
  | TimeoutFired
  | TimerFailed_call
  | CallThrew

definition parent_cancelled_error :: core_error where
  "parent_cancelled_error = with_ctx ''reason'' ''parent_cancelled'' err_cancelled"

definition timeout_error :: "string \<Rightarrow> int \<Rightarrow> core_error" where
  "timeout_error tool ms = with_ctx ''per_call_timeout_ms'' (show_int ms) (with_ctx ''tool'' tool (with_ctx ''reason'' ''timeout'' err_cancelled))"

definition cancellation_grace :: int where "cancellation_grace = 100"

definition cancellation_lag_metadata_json :: "int \<Rightarrow> string" where
  "cancellation_lag_metadata_json ms =
     ''{\"error_kind\":\"cancellation_lag\",\"cancellation_grace_ms\":'' @ show_int cancellation_grace
     @ '',\"per_call_timeout_ms\":'' @ show_int ms @ ''}''"

definition dispatch_failed :: core_error where
  "dispatch_failed = err_internal ''tool dispatch failed unexpectedly''"

text \<open>\<^verbatim>\<open>dispatch\<close>, \<^verbatim>\<open>run_call\<close> and the completion handler: what a call reports.\<close>

definition call_output :: "scheduler_options \<Rightarrow> batch_call \<Rightarrow> call_race \<Rightarrow> tool_output result" where
  "call_output o1 c race = (case race of
     DispatchReturned r \<Rightarrow> r
   | DispatchThrew is_cancelled \<Rightarrow> Inl (if is_cancelled then parent_cancelled_error else dispatch_failed)
   | TimeoutFired \<Rightarrow> Inl (timeout_error (bc_name c) (per_call_timeout o1))
   | TimerFailed_call \<Rightarrow> Inl parent_cancelled_error
   | CallThrew \<Rightarrow> Inl dispatch_failed)"

text \<open>The context of one call: it shares the scheduler's locks, and only a single call may return a token.\<close>

definition call_context :: "dispatch_ctx \<Rightarrow> dispatch_ctx" where
  "call_context prototype = prototype\<lparr>dx_path_locks := True\<rparr>"

definition threads_token_output :: "batch_call list \<Rightarrow> bool" where
  "threads_token_output calls \<longleftrightarrow> length calls = 1"

definition cancellation_lag_event :: "dispatch_ctx \<Rightarrow> scheduler_options \<Rightarrow> string \<Rightarrow> audit_event" where
  "cancellation_lag_event prototype o1 tool =
     \<lparr>ae_event_kind = ''cancellation_lag'', ae_scope_key = dx_scope_key prototype, ae_agent_key = dx_agent_key prototype,
      ae_tool_name = tool, ae_identity = dx_identity prototype, ae_verdict = Allow, ae_outcome = Oc_allow,
      ae_reason = ''cancellation_lag'', ae_input_hash = None, ae_parent_turn_id = dx_parent_turn_id prototype,
      ae_metadata_json = cancellation_lag_metadata_json (per_call_timeout o1)\<rparr>"

section \<open>The batch machine\<close>

datatype batch_phase = Draining | Grace | Finished "batch_result list result"

record batch_state =
  bs_calls :: "batch_call list"
  bs_results :: "tool_output result option list"
  bs_completion :: "nat list"
  bs_running :: "nat list"
  bs_active :: nat
  bs_admitted :: nat
  bs_reported :: "bool list"
  bs_completed :: nat
  bs_lag :: "audit_event list"
  bs_phase :: batch_phase

datatype batch_event =
    CallDone nat call_race
  | Received bool
  | ReceiveFailed
  | GraceOver

definition start_call :: "nat \<Rightarrow> batch_state \<Rightarrow> batch_state" where
  "start_call i b = b\<lparr>bs_running := bs_running b @ [i], bs_active := bs_active b + 1\<rparr>"

definition ordered_results :: "batch_state \<Rightarrow> batch_result list" where
  "ordered_results b = map (\<lambda>(c, r). \<lparr>br_tool_use_id = bc_tool_use_id c, br_name = bc_name c, br_output = the r\<rparr>)
     (zip (bs_calls b) (bs_results b))"

text \<open>The completion handler of a call: result, context count, then the report.\<close>

definition call_done :: "scheduler_options \<Rightarrow> nat \<Rightarrow> call_race \<Rightarrow> batch_state \<Rightarrow> batch_state" where
  "call_done o1 i race b =
     (if i \<in> set (bs_running b)
      then b\<lparr>bs_results := (bs_results b)[i := Some (call_output o1 (bs_calls b ! i) race)],
             bs_running := remove1 i (bs_running b), bs_active := bs_active b - 1,
             bs_completion := bs_completion b @ [i]\<rparr>
      else b)"

text \<open>
  Entering the cleanup of a cancelled batch: queued calls are dropped as if reported, every
  admitted call is signalled, and with nothing left to wait for the batch returns at once.
\<close>

definition lag_rows :: "dispatch_ctx \<Rightarrow> scheduler_options \<Rightarrow> batch_state \<Rightarrow> audit_event list" where
  "lag_rows prototype o1 b = map (\<lambda>i. cancellation_lag_event prototype o1 (bc_name (bs_calls b ! i)))
     (filter (\<lambda>i. \<not> bs_reported b ! i) [0..<length (bs_calls b)])"

definition finish_cancelled :: "dispatch_ctx \<Rightarrow> scheduler_options \<Rightarrow> batch_state \<Rightarrow> batch_state" where
  "finish_cancelled prototype o1 b =
     b\<lparr>bs_lag := lag_rows prototype o1 b, bs_phase := Finished (Inl parent_cancelled_error)\<rparr>"

definition drop_queued :: "batch_state \<Rightarrow> batch_state" where
  "drop_queued b = (let queued = length (bs_calls b) - bs_admitted b in
     b\<lparr>bs_calls := take (bs_admitted b) (bs_calls b)
         @ replicate queued \<lparr>bc_tool_use_id = [], bc_name = [], bc_input_json = []\<rparr>,
       bs_reported := take (bs_admitted b) (bs_reported b) @ replicate queued True,
       bs_completed := bs_completed b + queued, bs_phase := Grace\<rparr>)"

definition cancel_batch :: "dispatch_ctx \<Rightarrow> scheduler_options \<Rightarrow> batch_state \<Rightarrow> batch_state" where
  "cancel_batch prototype o1 b =
     (if bs_completed (drop_queued b) < length (bs_calls b) then drop_queued b
      else finish_cancelled prototype o1 (drop_queued b))"

definition note_report :: "nat \<Rightarrow> nat list \<Rightarrow> batch_state \<Rightarrow> batch_state" where
  "note_report i rest b =
     b\<lparr>bs_completion := rest, bs_reported := (bs_reported b)[i := True], bs_completed := bs_completed b + 1\<rparr>"

definition received :: "dispatch_ctx \<Rightarrow> scheduler_options \<Rightarrow> bool \<Rightarrow> batch_state \<Rightarrow> batch_state" where
  "received prototype o1 is_cancelled b = (case bs_completion b of
     [] \<Rightarrow> b
   | i # rest \<Rightarrow>
       (let b1 = note_report i rest b;
            n = length (bs_calls b) in
        case bs_phase b of
          Draining \<Rightarrow>
            if is_cancelled then cancel_batch prototype o1 b1
            else if bs_completed b1 = n then b1\<lparr>bs_phase := Finished (Inr (ordered_results b1))\<rparr>
            else if bs_admitted b1 < n then start_call (bs_admitted b1) (b1\<lparr>bs_admitted := bs_admitted b1 + 1\<rparr>)
            else b1
        | Grace \<Rightarrow> if bs_completed b1 < n then b1 else finish_cancelled prototype o1 b1
        | Finished _ \<Rightarrow> b))"

definition batch_step :: "dispatch_ctx \<Rightarrow> scheduler_options \<Rightarrow> batch_event \<Rightarrow> batch_state \<Rightarrow> batch_state" where
  "batch_step prototype o1 ev b = (case ev of
     CallDone i race \<Rightarrow> call_done o1 i race b
   | Received is_cancelled \<Rightarrow> received prototype o1 is_cancelled b
   | ReceiveFailed \<Rightarrow> if bs_phase b = Draining then cancel_batch prototype o1 b else b
   | GraceOver \<Rightarrow> if bs_phase b = Grace then finish_cancelled prototype o1 b else b)"

definition fresh_batch :: "batch_call list \<Rightarrow> batch_phase \<Rightarrow> batch_state" where
  "fresh_batch calls ph = \<lparr>bs_calls = calls, bs_results = replicate (length calls) None, bs_completion = [], bs_running = [],
     bs_active = 0, bs_admitted = 0, bs_reported = replicate (length calls) False, bs_completed = 0, bs_lag = [], bs_phase = ph\<rparr>"

text \<open>The start of \<^verbatim>\<open>run_batch_shared\<close>, up to its first wait.\<close>

definition start_batch :: "bool \<Rightarrow> scheduler_options \<Rightarrow> bool \<Rightarrow> batch_call list \<Rightarrow> batch_state" where
  "start_batch has_executor o1 is_cancelled calls =
     (if \<not> has_executor \<or> max_parallel_tools o1 = 0 \<or> per_call_timeout o1 \<le> 0
      then fresh_batch calls (Finished (Inl (err_invalid_argument ''scheduler requires an executor and positive bounds'')))
      else if calls = [] then fresh_batch calls (Finished (Inr []))
      else if is_cancelled then fresh_batch calls (Finished (Inl parent_cancelled_error))
      else let w = min (length calls) (max_parallel_tools o1) in
        fold (\<lambda>i b. start_call i (b\<lparr>bs_admitted := Suc i\<rparr>)) [0..<w] (fresh_batch calls Draining))"

definition run_batch :: "dispatch_ctx \<Rightarrow> bool \<Rightarrow> scheduler_options \<Rightarrow> bool \<Rightarrow> batch_call list \<Rightarrow> batch_event list \<Rightarrow> batch_state" where
  "run_batch prototype has_executor o1 is_cancelled calls evs =
     fold (batch_step prototype o1) evs (start_batch has_executor o1 is_cancelled calls)"

definition batch_outcome :: "batch_state \<Rightarrow> batch_result list result option" where
  "batch_outcome b = (case bs_phase b of Finished r \<Rightarrow> Some r | _ \<Rightarrow> None)"

text \<open>\<^verbatim>\<open>wait_idle\<close> returns when its context has no active dispatch.\<close>

definition context_idle :: "batch_state \<Rightarrow> bool" where
  "context_idle b \<longleftrightarrow> bs_active b = 0"

section \<open>The invariant\<close>

abbreviation in_flight :: "batch_state \<Rightarrow> nat list" where
  "in_flight b \<equiv> bs_running b @ bs_completion b"

definition flight_inv :: "scheduler_options \<Rightarrow> batch_call list \<Rightarrow> batch_state \<Rightarrow> bool" where
  "flight_inv o1 calls b \<longleftrightarrow>
     length (bs_calls b) = length calls \<and> length (bs_results b) = length calls \<and> length (bs_reported b) = length calls \<and>
     bs_admitted b \<le> length calls \<and> distinct (in_flight b) \<and> set (in_flight b) \<subseteq> {..<bs_admitted b} \<and>
     length (in_flight b) \<le> max_parallel_tools o1 \<and> bs_active b = length (bs_running b) \<and>
     (\<forall>i < bs_admitted b. bs_reported b ! i \<longleftrightarrow> i \<notin> set (in_flight b)) \<and>
     (\<forall>i < length calls. bs_results b ! i = None \<longleftrightarrow> i \<in> set (bs_running b) \<or> bs_admitted b \<le> i) \<and>
     (\<forall>i < bs_admitted b. bs_calls b ! i = calls ! i)"

definition phase_inv :: "scheduler_options \<Rightarrow> batch_call list \<Rightarrow> batch_state \<Rightarrow> bool" where
  "phase_inv o1 calls b \<longleftrightarrow> (case bs_phase b of
     Draining \<Rightarrow> bs_calls b = calls \<and> 0 < max_parallel_tools o1 \<and> bs_completed b < length calls \<and>
       bs_completed b + length (in_flight b) = bs_admitted b \<and>
       bs_admitted b = min (length calls) (bs_completed b + max_parallel_tools o1) \<and>
       (\<forall>i < length calls. bs_admitted b \<le> i \<longrightarrow> \<not> bs_reported b ! i)
   | Grace \<Rightarrow> bs_completed b < length calls \<and> bs_completed b + length (in_flight b) = length calls
   | Finished (Inr rs) \<Rightarrow> bs_calls b = calls \<and> in_flight b = [] \<and> bs_admitted b = length calls \<and> rs = ordered_results b
   | Finished (Inl e) \<Rightarrow> True)"

definition batch_inv :: "scheduler_options \<Rightarrow> batch_call list \<Rightarrow> batch_state \<Rightarrow> bool" where
  "batch_inv o1 calls b \<longleftrightarrow> flight_inv o1 calls b \<and> phase_inv o1 calls b"

lemma flight_invD:
  assumes "flight_inv o1 calls b"
  shows "length (bs_calls b) = length calls" "length (bs_results b) = length calls" "length (bs_reported b) = length calls"
    "bs_admitted b \<le> length calls" "distinct (in_flight b)" "set (in_flight b) \<subseteq> {..<bs_admitted b}"
    "length (in_flight b) \<le> max_parallel_tools o1" "bs_active b = length (bs_running b)"
    "\<And>i. i < bs_admitted b \<Longrightarrow> bs_reported b ! i \<longleftrightarrow> i \<notin> set (in_flight b)"
    "\<And>i. i < length calls \<Longrightarrow> bs_results b ! i = None \<longleftrightarrow> i \<in> set (bs_running b) \<or> bs_admitted b \<le> i"
    "\<And>i. i < bs_admitted b \<Longrightarrow> bs_calls b ! i = calls ! i"
  using assms unfolding flight_inv_def by simp_all

lemma length_remove1_Suc: "x \<in> set xs \<Longrightarrow> Suc (length (remove1 x xs)) = length xs"
  by (induction xs) auto

lemma call_done_flight:
  assumes f: "flight_inv o1 calls b" and i: "i \<in> set (bs_running b)"
  shows "flight_inv o1 calls (call_done o1 i race b)"
proof -
  note F = flight_invD [OF f]
  have d: "distinct (bs_running b)" "distinct (bs_completion b)" "set (bs_running b) \<inter> set (bs_completion b) = {}"
    using F(5) by simp_all
  have adm: "i < bs_admitted b" using F(6) i by auto
  have r: "set (remove1 i (bs_running b)) = set (bs_running b) - {i}" using d(1) by simp
  have st: "set (remove1 i (bs_running b) @ bs_completion b @ [i]) = set (in_flight b)" using r i by auto
  obtain k where "length (bs_running b) = Suc k" using length_remove1_Suc [OF i] by metis
  then have len: "length (remove1 i (bs_running b) @ bs_completion b @ [i]) = length (in_flight b)"
    "length (remove1 i (bs_running b)) = length (bs_running b) - 1"
    using i by (simp_all add: length_remove1)
  have "distinct (remove1 i (bs_running b) @ bs_completion b @ [i])" using d i r by auto
  moreover have "(bs_results b)[i := Some out] ! j = None \<longleftrightarrow> j \<in> set (remove1 i (bs_running b)) \<or> bs_admitted b \<le> j"
    if "j < length calls" for j out
    using F(2) F(10) [OF that] adm that by (cases "j = i") (simp_all add: r)
  ultimately show ?thesis
    using F(1-4,6-8) F(9,11) st len i unfolding flight_inv_def call_done_def
    by (simp del: set_append length_append distinct_append append_assoc set_remove1_eq add: append_assoc [symmetric])
qed

lemma call_done_inv:
  assumes "batch_inv o1 calls b"
  shows "batch_inv o1 calls (call_done o1 i race b)"
proof (cases "i \<in> set (bs_running b)")
  case True
  have len: "length (remove1 i (bs_running b)) + 1 = length (bs_running b)"
    using length_remove1_Suc [OF True] by simp
  have "bs_running b \<noteq> []" using True by auto
  then have "phase_inv o1 calls (call_done o1 i race b)"
    using assms True len by (auto simp: batch_inv_def phase_inv_def call_done_def split: batch_phase.splits sum.splits)
  then show ?thesis using assms call_done_flight [OF _ True] by (simp add: batch_inv_def)
qed (use assms in \<open>simp add: call_done_def\<close>)

lemma finish_cancelled_inv: "flight_inv o1 calls b \<Longrightarrow> batch_inv o1 calls (finish_cancelled prototype o1 b)"
  by (auto simp: batch_inv_def flight_inv_def phase_inv_def finish_cancelled_def)

lemma cancel_batch_inv:
  assumes "flight_inv o1 calls b" and "bs_completed b + length (in_flight b) = bs_admitted b"
  shows "batch_inv o1 calls (cancel_batch prototype o1 b)"
proof -
  have f: "flight_inv o1 calls (drop_queued b)" using assms(1) by (auto simp: flight_inv_def drop_queued_def Let_def nth_append)
  have "phase_inv o1 calls (drop_queued b)" if "bs_completed (drop_queued b) < length (bs_calls b)"
    using assms that by (auto simp: phase_inv_def flight_inv_def drop_queued_def Let_def)
  then show ?thesis using f finish_cancelled_inv [OF f] by (auto simp: cancel_batch_def batch_inv_def)
qed

lemma received_inv:
  assumes "batch_inv o1 calls b"
  shows "batch_inv o1 calls (received prototype o1 cx b)"
proof (cases "bs_completion b")
  case Nil
  with assms show ?thesis by (simp add: received_def)
next
  case (Cons i rest)
  define b1 where "b1 = note_report i rest b"
  have f: "flight_inv o1 calls b" and p: "phase_inv o1 calls b" using assms by (simp_all add: batch_inv_def)
  have f1: "flight_inv o1 calls b1" using f Cons by (auto simp: flight_inv_def b1_def note_report_def nth_list_update)
  note body = received_def Cons Let_def b1_def [symmetric]
  show ?thesis
  proof (cases "bs_phase b")
    case Draining
    have c1: "bs_completed b1 + length (in_flight b1) = bs_admitted b1" "bs_completed b1 \<le> length calls"
      "bs_admitted b1 = min (length calls) (bs_completed b + max_parallel_tools o1)" "bs_calls b1 = calls" "bs_phase b1 = Draining"
      "length (bs_calls b) = length calls"
      "\<forall>j < length calls. bs_admitted b1 \<le> j \<longrightarrow> \<not> bs_reported b1 ! j" "0 < max_parallel_tools o1"
      using p Draining Cons f by (auto simp: phase_inv_def b1_def note_report_def flight_inv_def)
    consider "cx" | "\<not> cx" "bs_completed b1 = length calls" | "\<not> cx" "bs_completed b1 < length calls" using c1(2) by linarith
    then show ?thesis
    proof cases
      case 1
      then show ?thesis using cancel_batch_inv [OF f1 c1(1)] Draining by (simp add: body)
    next
      case 2
      then have "length (in_flight b1) = 0" "bs_admitted b1 = length calls" using c1(1,3) by linarith+
      then have "in_flight b1 = []" "bs_admitted b1 = length calls" by simp_all
      then show ?thesis using 2 f1 c1 Draining
        by (auto simp: body batch_inv_def flight_inv_def phase_inv_def ordered_results_def)
    next
      case 3
      have "bs_completed b1 = Suc (bs_completed b)" by (simp add: b1_def note_report_def)
      then show ?thesis using 3 f1 c1 Draining
        by (auto simp: body batch_inv_def flight_inv_def phase_inv_def start_call_def nth_append less_Suc_eq)
    qed
  next
    case Grace
    have "bs_completed b1 + length (in_flight b1) = length calls" "length (bs_calls b) = length calls"
      using p Grace Cons f by (auto simp: phase_inv_def b1_def note_report_def flight_inv_def)
    moreover have "bs_phase b1 = Grace" by (simp add: b1_def note_report_def Grace)
    ultimately have "batch_inv o1 calls b1" if "bs_completed b1 < length calls" using that f1 by (simp add: batch_inv_def phase_inv_def)
    then show ?thesis using finish_cancelled_inv [OF f1] Grace \<open>length (bs_calls b) = length calls\<close> by (simp add: body)
  next
    case (Finished r)
    with assms show ?thesis by (simp add: body)
  qed
qed

lemma draining_count:
  "batch_inv o1 calls b \<Longrightarrow> bs_phase b = Draining \<Longrightarrow> bs_completed b + length (in_flight b) = bs_admitted b"
  by (simp add: batch_inv_def phase_inv_def)

lemma batch_step_inv:
  assumes "batch_inv o1 calls b"
  shows "batch_inv o1 calls (batch_step prototype o1 ev b)"
proof -
  have f: "flight_inv o1 calls b" using assms by (simp add: batch_inv_def)
  show ?thesis
    using assms call_done_inv [OF assms] received_inv [OF assms] finish_cancelled_inv [OF f] cancel_batch_inv [OF f draining_count [OF assms]]
    by (cases ev) (simp_all add: batch_step_def)
qed

lemma start_loop:
  "fold (\<lambda>i b. start_call i (b\<lparr>bs_admitted := Suc i\<rparr>)) [0..<w] (fresh_batch calls Draining)
     = (fresh_batch calls Draining)\<lparr>bs_running := [0..<w], bs_active := w, bs_admitted := w\<rparr>"
  by (induction w) (simp_all add: fresh_batch_def start_call_def)

lemma start_batch_started:
  "has_executor \<Longrightarrow> 0 < max_parallel_tools o1 \<Longrightarrow> 0 < per_call_timeout o1 \<Longrightarrow> calls \<noteq> [] \<Longrightarrow>
   start_batch has_executor o1 False calls = (fresh_batch calls Draining)
     \<lparr>bs_running := [0..<min (length calls) (max_parallel_tools o1)], bs_active := min (length calls) (max_parallel_tools o1),
      bs_admitted := min (length calls) (max_parallel_tools o1)\<rparr>"
  by (simp add: start_batch_def start_loop Let_def)

lemma start_batch_inv: "batch_inv o1 calls (start_batch has_executor o1 cx calls)"
proof (cases "has_executor \<and> 0 < max_parallel_tools o1 \<and> 0 < per_call_timeout o1 \<and> calls \<noteq> [] \<and> \<not> cx")
  case True
  then show ?thesis
    by (auto simp: start_batch_started batch_inv_def flight_inv_def phase_inv_def fresh_batch_def)
next
  case False
  then show ?thesis
    by (auto simp: start_batch_def batch_inv_def flight_inv_def phase_inv_def fresh_batch_def ordered_results_def)
qed

interpretation batch: invariant_machine "batch_step prototype o1" "\<lambda>_. True" "batch_inv o1 calls" for prototype o1 calls
  by unfold_locales (rule batch_step_inv)

lemma run_batch_inv: "batch_inv o1 calls (run_batch prototype has_executor o1 cx calls evs)"
  unfolding run_batch_def by (rule batch.run_inv) (simp_all add: start_batch_inv list_all_iff)

section \<open>Where results come from\<close>

definition produced :: "scheduler_options \<Rightarrow> batch_call list \<Rightarrow> batch_event list \<Rightarrow> batch_state \<Rightarrow> bool" where
  "produced o1 calls evs b \<longleftrightarrow> (\<forall>i out. i < length calls \<longrightarrow> bs_results b ! i = Some out \<longrightarrow>
     (\<exists>race. CallDone i race \<in> set evs \<and> out = call_output o1 (calls ! i) race))"

lemma results_of_step:
  "bs_results (received prototype o1 cx b) = bs_results b" "bs_results (cancel_batch prototype o1 b) = bs_results b"
  "bs_results (finish_cancelled prototype o1 b) = bs_results b"
  by (simp_all add: received_def cancel_batch_def finish_cancelled_def drop_queued_def note_report_def
      start_call_def Let_def split: list.splits batch_phase.splits)

lemma produced_run: "produced o1 calls evs (run_batch prototype has_executor o1 cx calls evs)"
proof (induction evs rule: rev_induct)
  case Nil
  have "bs_results (start_batch has_executor o1 cx calls) = replicate (length calls) None"
    by (simp add: start_batch_def start_loop Let_def) (simp add: fresh_batch_def)
  then show ?case by (simp add: produced_def run_batch_def)
next
  case (snoc ev evs)
  let ?b = "run_batch prototype has_executor o1 cx calls evs"
  have inv: "flight_inv o1 calls ?b" using run_batch_inv by (simp add: batch_inv_def)
  have eq: "run_batch prototype has_executor o1 cx calls (evs @ [ev]) = batch_step prototype o1 ev ?b" by (simp add: run_batch_def)
  show ?case
  proof (cases "\<exists>i race. ev = CallDone i race \<and> i \<in> set (bs_running ?b)")
    case True
    then obtain i race where ev: "ev = CallDone i race" "i \<in> set (bs_running ?b)" by blast
    then have "i < bs_admitted ?b" "i < length calls" using inv by (auto simp: flight_inv_def)
    then have "bs_calls ?b ! i = calls ! i" "length (bs_results ?b) = length calls" using inv by (simp_all add: flight_inv_def)
    moreover have "bs_results (batch_step prototype o1 ev ?b) = (bs_results ?b)[i := Some (call_output o1 (bs_calls ?b ! i) race)]"
      using ev by (simp add: batch_step_def call_done_def)
    ultimately have r: "bs_results (batch_step prototype o1 ev ?b) ! j =
        (if j = i then Some (call_output o1 (calls ! i) race) else bs_results ?b ! j)" if "j < length calls" for j
      using that \<open>i < length calls\<close> by (simp add: nth_list_update)
    show ?thesis unfolding eq produced_def
    proof (intro allI impI)
      fix j out assume j: "j < length calls" "bs_results (batch_step prototype o1 ev ?b) ! j = Some out"
      show "\<exists>race. CallDone j race \<in> set (evs @ [ev]) \<and> out = call_output o1 (calls ! j) race"
        using snoc j r [OF j(1)] ev(1) unfolding produced_def by (cases "j = i") auto
    qed
  next
    case False
    then have "bs_results (batch_step prototype o1 ev ?b) = bs_results ?b" 
      by (cases ev) (auto simp: batch_step_def call_done_def results_of_step)
    then show ?thesis using snoc unfolding eq produced_def by auto
  qed
qed

section \<open>Termination\<close>

definition batch_measure :: "batch_state \<Rightarrow> nat" where
  "batch_measure b = 2 * (length (bs_calls b) - bs_admitted b) + 2 * length (bs_running b) + length (bs_completion b)
     + (case bs_phase b of Draining \<Rightarrow> 2 | Grace \<Rightarrow> 1 | Finished _ \<Rightarrow> 0)"

lemma cancel_batch_measure:
  "bs_admitted b \<le> length (bs_calls b) \<Longrightarrow> bs_phase b = Draining \<Longrightarrow> batch_measure (cancel_batch prototype o1 b) < batch_measure b"
  by (auto simp: cancel_batch_def drop_queued_def finish_cancelled_def batch_measure_def Let_def)

lemma finish_cancelled_measure:
  "bs_phase b = Grace \<Longrightarrow> batch_measure (finish_cancelled prototype o1 b) < batch_measure b"
  by (auto simp: finish_cancelled_def batch_measure_def)

lemma note_report_measure: "bs_completion b = i # rest \<Longrightarrow> Suc (batch_measure (note_report i rest b)) = batch_measure b"
  by (auto simp: note_report_def batch_measure_def split: batch_phase.splits)

lemma received_measure:
  assumes "bs_admitted b \<le> length (bs_calls b)" "received prototype o1 cx b \<noteq> b"
  shows "batch_measure (received prototype o1 cx b) < batch_measure b"
proof (cases "bs_completion b")
  case Nil
  with assms show ?thesis by (simp add: received_def)
next
  case (Cons i rest)
  let ?b1 = "note_report i rest b"
  note m = note_report_measure [OF Cons]
  have same: "bs_phase ?b1 = bs_phase b" "bs_admitted ?b1 = bs_admitted b" "bs_calls ?b1 = bs_calls b" by (simp_all add: note_report_def)
  have adm: "batch_measure (start_call (bs_admitted ?b1) (?b1\<lparr>bs_admitted := bs_admitted ?b1 + 1\<rparr>)) = batch_measure ?b1"
    if "bs_admitted ?b1 < length (bs_calls b)"
    using that same by (auto simp: batch_measure_def start_call_def split: batch_phase.splits)
  have fin: "batch_measure (?b1\<lparr>bs_phase := Finished r\<rparr>) \<le> batch_measure ?b1" for r
    by (auto simp: batch_measure_def split: batch_phase.splits)
  show ?thesis
  proof (cases "bs_phase b")
    case Draining
    have "batch_measure (cancel_batch prototype o1 ?b1) < batch_measure ?b1"
      using assms(1) same Draining by (intro cancel_batch_measure) simp_all
    then have le: "batch_measure x \<le> batch_measure ?b1"
      if "x = cancel_batch prototype o1 ?b1 \<or> x = ?b1\<lparr>bs_phase := Finished (Inr (ordered_results ?b1))\<rparr> \<or> x = ?b1 \<or>
        bs_admitted ?b1 < length (bs_calls b) \<and> x = start_call (bs_admitted ?b1) (?b1\<lparr>bs_admitted := bs_admitted ?b1 + 1\<rparr>)" for x
      using that adm fin by auto
    have "batch_measure (received prototype o1 cx b) \<le> batch_measure ?b1"
      by (rule le) (simp add: received_def Cons Let_def Draining)
    with m show ?thesis by linarith
  next
    case Grace
    then show ?thesis using m finish_cancelled_measure [of ?b1 prototype o1] same
      by (auto simp: received_def Cons Let_def)
  next
    case (Finished r)
    with assms(2) show ?thesis by (simp add: received_def Cons Let_def)
  qed
qed

lemma call_done_measure: "call_done o1 i race b \<noteq> b \<Longrightarrow> batch_measure (call_done o1 i race b) < batch_measure b"
proof -
  assume "call_done o1 i race b \<noteq> b"
  then have "i \<in> set (bs_running b)" by (auto simp: call_done_def split: if_splits)
  moreover from this obtain k where "length (remove1 i (bs_running b)) = k" "length (bs_running b) = Suc k"
    using length_remove1_Suc by metis
  ultimately show ?thesis by (simp add: call_done_def batch_measure_def)
qed

lemma batch_step_measure:
  assumes "batch_inv o1 calls b" "batch_step prototype o1 ev b \<noteq> b"
  shows "batch_measure (batch_step prototype o1 ev b) < batch_measure b"
proof -
  have "bs_admitted b \<le> length (bs_calls b)" using assms(1) by (simp add: batch_inv_def flight_inv_def)
  with assms(2) show ?thesis
    using call_done_measure [of o1] received_measure [of b] cancel_batch_measure [of b] finish_cancelled_measure [of b]
    by (cases ev) (auto simp: batch_step_def split: if_splits)
qed

interpretation batch_budget: budget_machine "batch_step prototype o1" "\<lambda>_. True" "batch_inv o1 calls"
    "\<lambda>ev b. if batch_step prototype o1 ev b = b then 0 else 1" batch_measure for prototype o1 calls
  by unfold_locales (auto dest: batch_step_measure)

text \<open>A fair scheduler: a waiting report is received, otherwise a running call ends.\<close>

definition next_event :: "call_race \<Rightarrow> batch_state \<Rightarrow> batch_event" where
  "next_event race b = (if bs_completion b \<noteq> [] then Received False else CallDone (hd (bs_running b)) race)"

lemma next_event_changes:
  assumes "batch_inv o1 calls b" "batch_outcome b = None"
  shows "batch_step prototype o1 (next_event race b) b \<noteq> b" "bs_completion b = [] \<Longrightarrow> hd (bs_running b) \<in> set (bs_running b)"
proof -
  have busy: "bs_running b \<noteq> [] \<or> bs_completion b \<noteq> []" using assms
    by (auto simp: batch_outcome_def batch_inv_def phase_inv_def split: batch_phase.splits)
  then show i: "hd (bs_running b) \<in> set (bs_running b)" if "bs_completion b = []" using that by simp
  show "batch_step prototype o1 (next_event race b) b \<noteq> b"
  proof (cases "bs_completion b")
    case Nil
    then have "bs_running (batch_step prototype o1 (next_event race b) b) \<noteq> bs_running b" using length_remove1_Suc [OF i [OF Nil]] i
      by (auto simp: next_event_def batch_step_def call_done_def dest: arg_cong [of _ _ length])
    then show ?thesis by metis
  next
    case (Cons j rest)
    then have "bs_completed (batch_step prototype o1 (next_event race b) b) \<noteq> bs_completed b" using assms(2)
      by (auto simp: next_event_def batch_outcome_def batch_step_def received_def note_report_def start_call_def finish_cancelled_def Let_def
          split: batch_phase.splits)
    then show ?thesis by metis
  qed
qed

fun fair_events :: "dispatch_ctx \<Rightarrow> scheduler_options \<Rightarrow> call_race \<Rightarrow> nat \<Rightarrow> batch_state \<Rightarrow> batch_event list" where
  "fair_events prototype o1 race 0 b = []"
| "fair_events prototype o1 race (Suc n) b =
     next_event race b # fair_events prototype o1 race n (batch_step prototype o1 (next_event race b) b)"

lemma start_batch_measure: "batch_measure (start_batch has_executor o1 cx calls) \<le> 2 * length calls + 2"
  by (simp add: start_batch_def start_loop Let_def) (auto simp: fresh_batch_def batch_measure_def min_def)

lemma finished_stays: "batch_outcome b \<noteq> None \<Longrightarrow> batch_outcome (batch_step prototype o1 ev b) \<noteq> None"
  by (cases ev) (auto simp: batch_outcome_def batch_step_def call_done_def received_def split: batch_phase.splits list.splits)

lemma fair_events_finish:
  "batch_inv o1 calls b \<Longrightarrow> batch_measure b \<le> n \<Longrightarrow> batch_outcome (fold (batch_step prototype o1) (fair_events prototype o1 race n b) b) \<noteq> None"
proof (induction n arbitrary: b)
  case 0
  then have "batch_outcome b \<noteq> None" using batch_step_measure next_event_changes(1) by (metis less_nat_zero_code le_zero_eq)
  then show ?case by simp
next
  case (Suc n)
  let ?ev = "next_event race b"
  have inv: "batch_inv o1 calls (batch_step prototype o1 ?ev b)" using Suc.prems(1) by (rule batch_step_inv)
  show ?case
  proof (cases "batch_outcome b")
    case None
    then have "batch_measure (batch_step prototype o1 ?ev b) \<le> n"
      using batch_step_measure [OF Suc.prems(1) next_event_changes(1) [OF Suc.prems(1) None]] Suc.prems(2) by (meson leD le_trans not_less_eq_eq)
    then show ?thesis using Suc.IH [OF inv] by (simp del: not_None_eq)
  next
    case (Some r)
    have "batch_outcome (fold (batch_step prototype o1) evs x) \<noteq> None" if "batch_outcome x \<noteq> None" for evs x
      using that by (induction evs arbitrary: x) (simp_all add: finished_stays del: not_None_eq)
    then show ?thesis using Some finished_stays by (metis fold_simps(2) fair_events.simps(2) option.distinct(1))
  qed
qed

section \<open>Laggards\<close>

definition laggards_named :: "dispatch_ctx \<Rightarrow> scheduler_options \<Rightarrow> batch_call list \<Rightarrow> batch_state \<Rightarrow> bool" where
  "laggards_named prototype o1 calls b \<longleftrightarrow> (case bs_phase b of
     Finished _ \<Rightarrow> (\<forall>i \<in> set (bs_running b). cancellation_lag_event prototype o1 (bc_name (calls ! i)) \<in> set (bs_lag b))
   | _ \<Rightarrow> True)"

lemma finish_cancelled_named:
  assumes "flight_inv o1 calls b"
  shows "laggards_named prototype o1 calls (finish_cancelled prototype o1 b)"
proof -
  note F = flight_invD [OF assms]
  have "i < length (bs_calls b) \<and> \<not> bs_reported b ! i \<and> bs_calls b ! i = calls ! i" if "i \<in> set (bs_running b)" for i
  proof -
    have "i < bs_admitted b" using F(6) that by auto
    then show ?thesis using F(1,4,9,11) that by auto
  qed
  then show ?thesis by (force simp: laggards_named_def finish_cancelled_def lag_rows_def image_iff)
qed

lemma cancel_batch_named:
  assumes "flight_inv o1 calls b"
  shows "laggards_named prototype o1 calls (cancel_batch prototype o1 b)"
proof -
  have "flight_inv o1 calls (drop_queued b)" using assms by (auto simp: flight_inv_def drop_queued_def Let_def nth_append)
  note fin = finish_cancelled_named [OF this, of prototype]
  have "laggards_named prototype o1 calls (drop_queued b)" by (simp add: laggards_named_def drop_queued_def Let_def)
  with fin show ?thesis by (simp add: cancel_batch_def)
qed

lemma batch_step_named:
  assumes inv: "batch_inv o1 calls b" and named: "laggards_named prototype o1 calls b"
  shows "laggards_named prototype o1 calls (batch_step prototype o1 ev b)"
proof (cases ev)
  case (CallDone i race)
  then show ?thesis using named
    by (auto simp: batch_step_def call_done_def laggards_named_def split: batch_phase.splits dest: notin_set_remove1)
next
  case (Received cx)
  have f: "flight_inv o1 calls b" using inv by (simp add: batch_inv_def)
  have "flight_inv o1 calls (note_report i rest b)" if "bs_completion b = i # rest" for i rest
    using f that by (auto simp: flight_inv_def note_report_def nth_list_update)
  note f1 = this [THEN cancel_batch_named] this [THEN finish_cancelled_named]
  have fin: "bs_running b' = []" if "b' = note_report i rest b" "bs_phase b = Draining" "bs_completed b' = length (bs_calls b)"
      "bs_completion b = i # rest" for b' i rest
  proof -
    have le: "bs_completed b + length (in_flight b) \<le> length calls" and calls: "bs_calls b = calls"
      using inv that(2) by (auto simp: batch_inv_def phase_inv_def)
    have "Suc (bs_completed b) = length calls" "length (in_flight b) = Suc (length (bs_running b) + length rest)"
      using that(3,4) calls by (simp_all add: that(1) note_report_def)
    with le have "length (bs_running b) = 0" by linarith
    then show ?thesis by (simp add: that(1) note_report_def)
  qed
  show ?thesis
  proof (cases "bs_completion b")
    case Nil
    then show ?thesis using named by (simp add: Received batch_step_def received_def)
  next
    case (Cons i rest)
    have open_phase: "laggards_named prototype o1 calls b'" if "bs_phase b' = Draining \<or> bs_phase b' = Grace" for b'
      using that by (auto simp: laggards_named_def)
    have done_phase: "laggards_named prototype o1 calls (note_report i rest b\<lparr>bs_phase := Finished r\<rparr>)"
      if "bs_phase b = Draining" "bs_completed (note_report i rest b) = length (bs_calls b)" for r
      using fin [OF refl that Cons] by (simp add: laggards_named_def)
    show ?thesis
      using f1 [OF Cons] done_phase named
      by (cases "bs_phase b")
        (auto simp: Received batch_step_def received_def Cons Let_def start_call_def note_report_def intro!: open_phase)
  qed
next
  case ReceiveFailed
  then show ?thesis using inv named cancel_batch_named [of o1 calls b prototype] by (auto simp: batch_step_def batch_inv_def)
next
  case GraceOver
  then show ?thesis using inv named finish_cancelled_named [of o1 calls b prototype] by (auto simp: batch_step_def batch_inv_def)
qed

lemma run_batch_named: "laggards_named prototype o1 calls (run_batch prototype has_executor o1 cx calls evs)"
proof (induction evs rule: rev_induct)
  case Nil
  show ?case by (simp add: run_batch_def start_batch_def start_loop Let_def laggards_named_def) (simp add: fresh_batch_def)
next
  case (snoc ev evs)
  then show ?case using batch_step_named [OF run_batch_inv snoc, of ev] by (simp add: run_batch_def)
qed

lemma batch_result_ids:
  assumes "batch_outcome (run_batch prototype has_executor o1 cx calls evs) = Some (Inr rs)"
  shows "map br_tool_use_id rs = map bc_tool_use_id calls"
proof -
  define b where "b = run_batch prototype has_executor o1 cx calls evs"
  have inv: "flight_inv o1 calls b" "phase_inv o1 calls b" using run_batch_inv by (simp_all add: b_def batch_inv_def)
  have "bs_calls b = calls" "rs = ordered_results b"
    using assms inv(2) by (auto simp: b_def [symmetric] batch_outcome_def phase_inv_def split: batch_phase.splits)
  then show ?thesis using flight_invD(2) [OF inv(1)]
    by (auto simp: ordered_results_def split_beta o_def intro!: nth_equalityI)
qed

section \<open>Properties\<close>

text \<open>
  C8: a batch is bounded, ordered and accounted for. However calls and coordinator interleave, no
  more than the configured number of calls run at once and none runs twice; the context counts as
  idle exactly when none runs. If the batch returns results, it waited for every call, and result
  \<open>i\<close> carries the id and name of call \<open>i\<close> and the output that very call produced. If it returns
  early, every call still running is named by a \<^verbatim>\<open>cancellation_lag\<close> audit row.
\<close>

theorem batch_bounded_and_ordered:
  fixes prototype has_executor o1 cx calls evs
  defines "b \<equiv> run_batch prototype has_executor o1 cx calls evs"
  shows "length (bs_running b) \<le> max_parallel_tools o1 \<and> distinct (bs_running b) \<and> (context_idle b \<longleftrightarrow> bs_running b = []) \<and>
    (\<forall>rs. batch_outcome b = Some (Inr rs) \<longrightarrow> bs_running b = [] \<and> length rs = length calls \<and>
      (\<forall>i < length calls. br_tool_use_id (rs ! i) = bc_tool_use_id (calls ! i) \<and> br_name (rs ! i) = bc_name (calls ! i) \<and>
        (\<exists>race. CallDone i race \<in> set evs \<and> br_output (rs ! i) = call_output o1 (calls ! i) race))) \<and>
    (batch_outcome b \<noteq> None \<longrightarrow>
      (\<forall>i \<in> set (bs_running b). cancellation_lag_event prototype o1 (bc_name (calls ! i)) \<in> set (bs_lag b)))"
proof -
  have inv: "flight_inv o1 calls b" "phase_inv o1 calls b" using run_batch_inv by (simp_all add: b_def batch_inv_def)
  note F = flight_invD [OF inv(1)]
  have "bs_running b = [] \<and> length rs = length calls \<and>
      (\<forall>i < length calls. br_tool_use_id (rs ! i) = bc_tool_use_id (calls ! i) \<and> br_name (rs ! i) = bc_name (calls ! i) \<and>
        (\<exists>race. CallDone i race \<in> set evs \<and> br_output (rs ! i) = call_output o1 (calls ! i) race))"
    if "batch_outcome b = Some (Inr rs)" for rs
  proof -
    have p: "bs_calls b = calls" "in_flight b = []" "bs_admitted b = length calls" "rs = ordered_results b"
      using that inv(2) by (auto simp: batch_outcome_def phase_inv_def split: batch_phase.splits)
    have "\<exists>out. bs_results b ! i = Some out \<and> (\<exists>race. CallDone i race \<in> set evs \<and> out = call_output o1 (calls ! i) race)"
      if "i < length calls" for i
      using F(10) [OF that] p that produced_run [of o1 calls evs prototype has_executor cx]
      by (auto simp: produced_def b_def [symmetric])
    then show ?thesis using p F(2) by (auto simp: ordered_results_def) fastforce
  qed
  moreover have "\<forall>i \<in> set (bs_running b). cancellation_lag_event prototype o1 (bc_name (calls ! i)) \<in> set (bs_lag b)" if "batch_outcome b \<noteq> None"
    using that run_batch_named [of prototype o1 calls has_executor cx evs]
    by (auto simp: laggards_named_def batch_outcome_def b_def [symmetric] split: batch_phase.splits)
  ultimately show ?thesis using F(5,7,8) by (auto simp: context_idle_def)
qed

definition demo_calls :: "batch_call list" where
  "demo_calls = map (\<lambda>i. \<lparr>bc_tool_use_id = i, bc_name = ''FileRead'', bc_input_json = []\<rparr>) [''a'', ''b'']"

definition demo_events :: "batch_event list" where
  "demo_events = [CallDone 0 TimeoutFired, Received False, CallDone 1 (DispatchReturned (Inr demo_out)), Received False]"

definition demo_sched :: scheduler_options where
  "demo_sched = \<lparr>max_parallel_tools = 1, per_call_timeout = 60000\<rparr>"

lemma demo_batch_outcome:
  "\<exists>rs. batch_outcome (run_batch demo_ctx True demo_sched False demo_calls demo_events) = Some (Inr rs)"
  by (simp add: run_batch_def demo_calls_def demo_events_def demo_sched_def start_batch_def fresh_batch_def start_call_def
      batch_step_def call_done_def received_def note_report_def batch_outcome_def Let_def)

theorem batch_bounded_and_ordered_witness:
  "\<exists>rs. batch_outcome (run_batch demo_ctx True demo_sched False demo_calls demo_events) = Some (Inr rs) \<and>
     length rs = length demo_calls \<and> br_tool_use_id (rs ! 1) = bc_tool_use_id (demo_calls ! 1)"
proof (rule exE [OF demo_batch_outcome], intro exI conjI)
  fix rs assume rs: "batch_outcome (run_batch demo_ctx True demo_sched False demo_calls demo_events) = Some (Inr rs)"
  have one: "1 < length demo_calls" by (simp add: demo_calls_def)
  note ordered = batch_bounded_and_ordered [of demo_ctx True demo_sched False demo_calls demo_events,
      THEN conjunct2, THEN conjunct2, THEN conjunct2, THEN conjunct1, THEN spec, THEN mp, OF rs, THEN conjunct2]
  show "batch_outcome (run_batch demo_ctx True demo_sched False demo_calls demo_events) = Some (Inr rs)" by (rule rs)
  show "length rs = length demo_calls" by (rule conjunct1 [OF ordered])
  show "br_tool_use_id (rs ! 1) = bc_tool_use_id (demo_calls ! 1)"
    by (rule conjunct1 [OF conjunct2 [OF ordered, THEN spec, THEN mp, OF one]])
qed

text \<open>
  C9: batches end. As long as a batch has not returned, some call is running or some report is
  waiting, so an event that changes the state is possible; and no sequence of events changes the
  state of a batch of \<open>n\<close> calls more than \<open>2 n + 2\<close> times, so every batch whose calls all end returns.
\<close>

theorem batch_terminates:
  fixes prototype has_executor o1 cx calls evs
  defines "b \<equiv> run_batch prototype has_executor o1 cx calls evs"
  shows "(batch_outcome b = None \<longrightarrow> (\<exists>ev. (ev = Received False \<or> (\<exists>i \<in> set (bs_running b). \<exists>race. ev = CallDone i race)) \<and>
      batch_step prototype o1 ev b \<noteq> b)) \<and>
    run_total (batch_step prototype o1) (\<lambda>ev b. if batch_step prototype o1 ev b = b then 0 else 1) evs
      (start_batch has_executor o1 cx calls) \<le> 2 * length calls + 2"
proof
  have inv: "batch_inv o1 calls b" using run_batch_inv by (simp add: b_def)
  show "batch_outcome b = None \<longrightarrow> (\<exists>ev. (ev = Received False \<or> (\<exists>i \<in> set (bs_running b). \<exists>race. ev = CallDone i race)) \<and>
      batch_step prototype o1 ev b \<noteq> b)"
    using next_event_changes [OF inv] unfolding next_event_def by metis
next
  show "run_total (batch_step prototype o1) (\<lambda>ev b. if batch_step prototype o1 ev b = b then 0 else 1) evs
      (start_batch has_executor o1 cx calls) \<le> 2 * length calls + 2"
    using batch_budget.run_spend_le [OF start_batch_inv, of evs prototype o1 has_executor cx calls]
      start_batch_measure [of has_executor o1 cx calls] by (simp add: list_all_iff)
qed

theorem batch_terminates_witness:
  "\<exists>ev. batch_step demo_ctx demo_sched ev (run_batch demo_ctx True demo_sched False demo_calls [])
     \<noteq> run_batch demo_ctx True demo_sched False demo_calls []"
proof -
  have "batch_outcome (run_batch demo_ctx True demo_sched False demo_calls []) = None"
    by (simp add: run_batch_def demo_calls_def demo_sched_def start_batch_def fresh_batch_def start_call_def batch_outcome_def)
  then show ?thesis using batch_terminates [of demo_ctx True demo_sched False demo_calls "[]"] by blast
qed

end
