(* ===== verification/Prompt_Render.thy ===== *)
theory Prompt_Render
  imports Core_Content
begin

unbundle bit_operations_syntax

text \<open>
  \<^verbatim>\<open>oran-prompt/render.cpp\<close>: the stable prefix of a prompt and its fingerprint. The fingerprint is
  FNV-1a over a length-prefixed byte string; the theory shows which byte string that is and that
  it determines the tool declarations.
\<close>

section \<open>FNV-1a\<close>

definition fnv_offset :: "64 word" where "fnv_offset = 14695981039346656037"
definition fnv_prime :: "64 word" where "fnv_prime = 1099511628211"

fun hash_append :: "64 word \<Rightarrow> string \<Rightarrow> 64 word" where
  "hash_append h [] = h"
| "hash_append h (c # cs) = hash_append ((h XOR of_nat (byte_of c)) * fnv_prime) cs"

definition hash_append_u64 :: "64 word \<Rightarrow> 64 word \<Rightarrow> 64 word" where
  "hash_append_u64 h v = hash_append h (map (\<lambda>i. byte_to_char (unat (drop_bit (i * 8) v AND 0xFF))) [0..<8])"

definition hash_field :: "64 word \<Rightarrow> string \<Rightarrow> 64 word" where
  "hash_field h bs = hash_append (hash_append_u64 h (of_nat (length bs))) bs"

definition hash_tool :: "tool_def \<Rightarrow> 64 word \<Rightarrow> 64 word" where
  "hash_tool d h = hash_field (hash_field (hash_field h (tool_name d)) (tool_description d)) (input_schema_json d)"

definition hash_tools :: "tool_def list \<Rightarrow> 64 word" where
  "hash_tools tools = fold hash_tool tools (hash_append_u64 fnv_offset (of_nat (length tools)))"

section \<open>Rendering\<close>

record render_inputs =
  ri_system_preamble :: string
  ri_tools :: "tool_def list"
  ri_skills_catalog :: string
  ri_memory_framing :: string
  ri_per_agent_overlay :: string

record rendered_prompt =
  rp_system_prompt :: string
  rp_tool_catalog_hash :: "64 word"
  rp_prefix_hash :: "64 word"
  rp_prefix_bytes :: nat

definition append_section :: "string \<Rightarrow> string \<Rightarrow> string" where
  "append_section t acc = (if t = [] then acc else (if acc = [] then [] else acc @ [byte_to_char 10]) @ t)"

definition sections :: "render_inputs \<Rightarrow> string list" where
  "sections i = [ri_system_preamble i, ri_skills_catalog i, ri_memory_framing i, ri_per_agent_overlay i]"

definition render :: "render_inputs \<Rightarrow> rendered_prompt" where
  "render i = (let prompt = fold append_section (sections i) []; th = hash_tools (ri_tools i) in
     \<lparr>rp_system_prompt = prompt, rp_tool_catalog_hash = th,
      rp_prefix_hash = hash_append_u64 (hash_field fnv_offset prompt) th,
      rp_prefix_bytes = fold (\<lambda>d n. n + length (tool_name d) + length (tool_description d) + length (input_schema_json d))
        (ri_tools i) (length prompt)\<rparr>)"

section \<open>The bytes that are hashed\<close>

definition field_bytes :: "string \<Rightarrow> string" where
  "field_bytes bs = le_bytes 8 (length bs) @ bs"

definition tool_bytes :: "tool_def \<Rightarrow> string" where
  "tool_bytes d = field_bytes (tool_name d) @ field_bytes (tool_description d) @ field_bytes (input_schema_json d)"

definition catalog_bytes :: "tool_def list \<Rightarrow> string" where
  "catalog_bytes tools = le_bytes 8 (length tools) @ concat (map tool_bytes tools)"

abbreviation declared :: "tool_def \<Rightarrow> string \<times> string \<times> string" where
  "declared d \<equiv> (tool_name d, tool_description d, input_schema_json d)"

abbreviation small :: "tool_def list \<Rightarrow> bool" where
  "small tools \<equiv> list_all (\<lambda>d. length (tool_name d) < 2 ^ 64 \<and> length (tool_description d) < 2 ^ 64 \<and> length (input_schema_json d) < 2 ^ 64) tools"

definition representable :: "tool_def list \<Rightarrow> bool" where
  "representable tools \<longleftrightarrow> length tools < 2 ^ 64 \<and>
     small tools"

lemma hash_append_append: "hash_append h (a @ b) = hash_append (hash_append h a) b"
  by (induction h a rule: hash_append.induct) auto

lemma hash_u64_bytes: "hash_append_u64 h v = hash_append h (le_bytes 8 (unat v))"
proof -
  have "unat (drop_bit (i * 8) v AND 0xFF) = take_bit 8 (drop_bit (8 * i) (unat v))" for i
  proof -
    have "drop_bit (i * 8) v AND 0xFF = take_bit 8 (drop_bit (i * 8) v)"
      by (simp add: take_bit_eq_mask mask_numeral)
    moreover have "take_bit 64 (unat v) = unat v" using unsigned_less [of v] by (intro take_bit_nat_eq_self) simp
    ultimately show ?thesis by (simp add: unsigned_take_bit_eq unsigned_drop_bit_eq mult.commute)
  qed
  then show ?thesis by (simp add: hash_append_u64_def le_bytes_def)
qed

lemma hash_field_bytes:
  assumes "length bs < 2 ^ 64"
  shows "hash_field h bs = hash_append h (field_bytes bs)"
  using assms by (simp add: hash_field_def hash_u64_bytes field_bytes_def hash_append_append unat_of_nat)

lemma hash_tools_bytes:
  assumes "representable tools"
  shows "hash_tools tools = hash_append fnv_offset (catalog_bytes tools)"
proof -
  have "small ts
      \<Longrightarrow> fold hash_tool ts h = hash_append h (concat (map tool_bytes ts))" for ts h
    by (induction ts arbitrary: h) (auto simp: hash_tool_def hash_field_bytes tool_bytes_def hash_append_append)
  with assms show ?thesis
    by (simp add: hash_tools_def hash_u64_bytes catalog_bytes_def hash_append_append representable_def unat_of_nat)
qed

lemma le8_inject: "m < 2 ^ 64 \<Longrightarrow> n < 2 ^ 64 \<Longrightarrow> le_bytes 8 m = le_bytes 8 n \<Longrightarrow> m = n"
  by (simp add: le_bytes_inject)

lemma field_bytes_inject:
  assumes "length a < 2 ^ 64" "length b < 2 ^ 64" "field_bytes a @ r = field_bytes b @ r'"
  shows "a = b \<and> r = r'"
proof -
  have "le_bytes 8 (length a) = le_bytes 8 (length b)" "a @ r = b @ r'" using assms(3) by (simp_all add: field_bytes_def)
  with assms(1,2) show ?thesis by (simp add: le_bytes_inject)
qed

lemma tool_bytes_inject:
  assumes "small [d, e]"
    and "tool_bytes d @ r = tool_bytes e @ r'"
  shows "declared d = declared e \<and> r = r'"
proof -
  have n: "tool_name d = tool_name e \<and>
      field_bytes (tool_description d) @ field_bytes (input_schema_json d) @ r = field_bytes (tool_description e) @ field_bytes (input_schema_json e) @ r'"
    using assms by (intro field_bytes_inject) (auto simp: tool_bytes_def)
  have "tool_description d = tool_description e \<and> field_bytes (input_schema_json d) @ r = field_bytes (input_schema_json e) @ r'"
    using assms n by (intro field_bytes_inject) auto
  with n show ?thesis using assms field_bytes_inject [of "input_schema_json d" "input_schema_json e" r r'] by auto
qed

lemma catalog_bytes_inject:
  assumes "representable ts" "representable us"
  shows "catalog_bytes ts = catalog_bytes us \<longleftrightarrow> map declared ts = map declared us"
proof
  assume eq: "catalog_bytes ts = catalog_bytes us"
  then have c: "concat (map tool_bytes ts) = concat (map tool_bytes us)" and l: "le_bytes 8 (length ts) = le_bytes 8 (length us)"
    by (simp_all add: catalog_bytes_def)
  have "length ts = length us" using assms by (intro le8_inject [OF _ _ l]) (simp_all add: representable_def)
  moreover have "small ts" "small us" using assms by (simp_all add: representable_def)
  ultimately show "map declared ts = map declared us" using c
  proof (induction ts us rule: list_induct2)
    case (Cons d ts e us)
    have b: "tool_bytes d @ concat (map tool_bytes ts) = tool_bytes e @ concat (map tool_bytes us)" "small [d, e]"
      using Cons.prems(3) by (simp only: list.map concat.simps) (use Cons.prems(1,2) in simp)
    note h = tool_bytes_inject [OF b(2,1)]
    have "small ts" "small us" using Cons.prems(1,2) by simp_all
    then have "map declared ts = map declared us" using conjunct2 [OF h] by (rule Cons.IH)
    then show ?case using conjunct1 [OF h] by (simp only: list.map)
  qed simp
next
  assume eq: "map declared ts = map declared us"
  then have len: "length ts = length us" using map_eq_imp_length_eq by blast
  then have "map tool_bytes ts = map tool_bytes us" using eq
    by (induction ts us rule: list_induct2) (simp_all add: tool_bytes_def)
  moreover note len
  ultimately show "catalog_bytes ts = catalog_bytes us" by (simp add: catalog_bytes_def)
qed

definition joined :: "string list \<Rightarrow> string" where
  "joined ss = (case filter (\<lambda>t. t \<noteq> []) ss of [] \<Rightarrow> [] | t # ts \<Rightarrow> t @ concat (map (\<lambda>u. byte_to_char 10 # u) ts))"

lemma append_sections: "fold append_section ss [] = joined ss"
proof -
  have "acc \<noteq> [] \<Longrightarrow> fold append_section ss acc = acc @ concat (map (\<lambda>u. byte_to_char 10 # u) (filter (\<lambda>t. t \<noteq> []) ss))" for acc ss
    by (induction ss arbitrary: acc) (auto simp: append_section_def)
  then show ?thesis by (induction ss) (auto simp: joined_def append_section_def)
qed

text \<open>
  The cache identity of a prompt. The system text is the nonempty sections joined by single
  newlines; the prefix fingerprint is FNV-1a of that text and of the fingerprint of the tools, which
  is FNV-1a of a byte string; and that byte string is equal for two catalogs exactly when they
  declare the same names, descriptions and schemas in the same order, so no two different catalogs
  are confused before hashing.
\<close>

theorem render_fingerprint:
  assumes "representable (ri_tools i)" "representable (ri_tools j)" "length (rp_system_prompt (render i)) < 2 ^ 64"
  shows "rp_system_prompt (render i) = joined (sections i) \<and>
    rp_tool_catalog_hash (render i) = hash_append fnv_offset (catalog_bytes (ri_tools i)) \<and>
    rp_prefix_hash (render i) = hash_append fnv_offset
      (field_bytes (rp_system_prompt (render i)) @ le_bytes 8 (unat (rp_tool_catalog_hash (render i)))) \<and>
    (catalog_bytes (ri_tools i) = catalog_bytes (ri_tools j) \<longleftrightarrow> map declared (ri_tools i) = map declared (ri_tools j))"
  using assms catalog_bytes_inject [OF assms(1,2)] hash_tools_bytes [OF assms(1)]
  by (simp add: render_def Let_def append_sections hash_u64_bytes hash_field_bytes hash_append_append)

definition demo_render :: "string \<Rightarrow> render_inputs" where
  "demo_render n = \<lparr>ri_system_preamble = ''a'', ri_tools = [with_no_input n ''d''], ri_skills_catalog = [],
     ri_memory_framing = ''b'', ri_per_agent_overlay = []\<rparr>"

theorem render_fingerprint_witness:
  "rp_system_prompt (render (demo_render ''x'')) = ''a'' @ [byte_to_char 10] @ ''b'' \<and>
   catalog_bytes (ri_tools (demo_render ''x'')) \<noteq> catalog_bytes (ri_tools (demo_render ''y''))"
proof -
  have "length (rp_system_prompt (render (demo_render ''x''))) = 3"
    by (simp add: render_def Let_def demo_render_def sections_def append_section_def)
  then show ?thesis
    using render_fingerprint [of "demo_render ''x''" "demo_render ''y''"]
    by (simp add: demo_render_def representable_def with_no_input_def joined_def sections_def)
qed

end
