(* ===== verification/Agent_Observer.thy ===== *)
theory Agent_Observer
  imports Agent_Context Agent_Scheduler Prompt_Render
begin

text \<open>
  The inputs of a turn (\<^verbatim>\<open>oran/agent/loop.hpp\<close>) and its observer, \<^verbatim>\<open>oran-agent/turn_observer.cpp\<close>:
  the advisory provider events and the trace row of a finished turn. Every publication and
  every trace write is an entry of a log; the answers of the trace repository, the clock and the
  other services of a turn are functions of a tick that counts the questions asked so far.
\<close>

section \<open>Inputs\<close>

record trace_context =
  tc_enabled :: bool
  tc_repository :: bool
  tc_blocking_executor :: bool
  tc_session_id :: turn_id
  tc_parent_turn_id :: "turn_id option"
  tc_agent_key :: string
  tc_origin :: string
  tc_context_json :: string

record turn_inputs =
  in_system_preamble :: string
  in_tool_catalog :: "tool_def list"
  in_active_tools :: "string list option"
  in_skills_catalog :: string
  in_memory_framing :: string
  in_per_agent_overlay :: string
  in_conversation_tail :: "message list"
  in_context :: context_options
  in_checkpoint :: working_context
  in_history_end :: int
  in_history_loader :: "(int \<Rightarrow> message list result) option"
  in_inbox_reader :: "(nat \<Rightarrow> string result) option"
  in_tool_choice :: "string option"
  in_max_tokens :: "32 word option"
  in_thinking_budget :: "32 word option"
  in_retry :: retry_policy
  in_stream :: bool
  in_turn_id :: "turn_id option"
  in_trace :: trace_context
  in_bus :: bool
  in_scope_key :: string
  in_agent_key :: string
  in_identity :: string
  in_origin :: string
  in_dispatch :: "dispatch_ctx option"
  in_scheduler :: "scheduler_options option"
  in_executor :: bool

section \<open>Trace rows\<close>

record trace_row =
  tr_turn_id :: turn_id
  tr_parent_turn_id :: "turn_id option"
  tr_session_id :: turn_id
  tr_agent_key :: string
  tr_origin :: string
  tr_route_profile :: string
  tr_route_model :: string
  tr_started_at_ns :: int
  tr_finished_at_ns :: int
  tr_stop_reason :: string
  tr_iteration_count :: nat
  tr_prompt_prefix_hash :: "64 word"
  tr_prompt_prefix_bytes :: nat
  tr_active_catalog_hash :: "64 word"
  tr_cache_creation_tokens :: nat
  tr_cache_read_tokens :: nat
  tr_input_tokens :: nat
  tr_output_tokens :: nat
  tr_cost_estimate_usd :: rat
  tr_cancellation_phase :: "string option"
  tr_context_json :: string

datatype turn_effect = TxPublish hook_event payload | TxTrace trace_row

record turn_env =
  te_backend :: "nat \<Rightarrow> rat exec_backend"
  te_cancelled :: "nat \<Rightarrow> bool"
  te_clock :: "nat \<Rightarrow> int"
  te_trace_write :: "nat \<Rightarrow> trace_row \<Rightarrow> unit result awaited"
  te_trace_cause :: "nat \<Rightarrow> string"
  te_trace_cancelled :: "nat \<Rightarrow> bool"
  te_turn_id :: "turn_id result"
  te_batch_events :: "nat \<Rightarrow> dispatch_ctx \<Rightarrow> batch_call list \<Rightarrow> batch_event list"

record turn_state =
  ts_transcript :: "message list"
  ts_view :: context_view
  ts_usage :: "rat usage"
  ts_target :: attribution
  ts_seen :: "string set"
  ts_tick :: nat
  ts_log :: "turn_effect list"

text \<open>What a turn fixes before its first request.\<close>

record turn_frame =
  tf_inputs :: turn_inputs
  tf_route :: "rat route"
  tf_rendered :: rendered_prompt
  tf_request :: request
  tf_budget_request :: request
  tf_started_at_ns :: int
  tf_sink :: bool

definition trace_configured :: "turn_inputs \<Rightarrow> bool" where
  "trace_configured inp \<longleftrightarrow> tc_enabled (in_trace inp) \<and> tc_repository (in_trace inp)"

definition checked_i64 :: "nat \<Rightarrow> string \<Rightarrow> string \<Rightarrow> nat result" where
  "checked_i64 v msg field = (if i64_max < int v then Inl (with_ctx ''field'' field (err_invalid_argument msg)) else Inr v)"

definition make_trace_request ::
  "turn_frame \<Rightarrow> rat usage \<Rightarrow> 32 word \<Rightarrow> int \<Rightarrow> string \<Rightarrow> string \<Rightarrow> stop_reason \<Rightarrow> string option \<Rightarrow> trace_row result" where
  "make_trace_request fr u iterations finished model served stop cancellation_phase =
     (let inp = tf_inputs fr; counter = ''trace counter exceeds storage range'' in
      if \<not> tc_repository (in_trace inp) then Inl (err_invalid_argument ''trace repository is not configured'')
      else if \<not> tc_enabled (in_trace inp) then Inl (err_invalid_argument ''trace writer is disabled'')
      else case in_turn_id inp of
        None \<Rightarrow> Inl (err_invalid_argument ''trace writer requires a turn id'')
      | Some tid \<Rightarrow>
        rbind (checked_i64 (rp_prefix_bytes (tf_rendered fr)) ''trace byte count exceeds storage range'' ''prompt_prefix_bytes'') (\<lambda>bytes.
        rbind (checked_i64 (unat (input_tokens u)) counter ''input_tokens'') (\<lambda>inputs.
        rbind (checked_i64 (unat (output_tokens u)) counter ''output_tokens'') (\<lambda>outputs.
        rbind (checked_i64 (unat (cache_creation_tokens u)) counter ''cache_creation_tokens'') (\<lambda>created.
        rbind (checked_i64 (unat (cache_read_tokens u)) counter ''cache_read_tokens'') (\<lambda>reads.
          Inr \<lparr>tr_turn_id = tid, tr_parent_turn_id = tc_parent_turn_id (in_trace inp), tr_session_id = tc_session_id (in_trace inp),
            tr_agent_key = tc_agent_key (in_trace inp), tr_origin = tc_origin (in_trace inp),
            tr_route_profile = (if served = [] then tgt_profile (rt_primary (tf_route fr)) else served), tr_route_model = model,
            tr_started_at_ns = tf_started_at_ns fr, tr_finished_at_ns = finished, tr_stop_reason = stop_reason_name stop,
            tr_iteration_count = unat iterations, tr_prompt_prefix_hash = rp_prefix_hash (tf_rendered fr),
            tr_prompt_prefix_bytes = bytes, tr_active_catalog_hash = rp_tool_catalog_hash (tf_rendered fr),
            tr_cache_creation_tokens = created, tr_cache_read_tokens = reads, tr_input_tokens = inputs, tr_output_tokens = outputs,
            tr_cost_estimate_usd = (case cost_estimate u of Some c \<Rightarrow> c | None \<Rightarrow> 0),
            tr_cancellation_phase = cancellation_phase, tr_context_json = tc_context_json (in_trace inp)\<rparr>))))))"

definition tick :: "turn_state \<Rightarrow> turn_state" where
  "tick st = st\<lparr>ts_tick := Suc (ts_tick st)\<rparr>"

definition log_turn :: "turn_effect \<Rightarrow> turn_state \<Rightarrow> turn_state" where
  "log_turn fx st = st\<lparr>ts_log := ts_log st @ [fx]\<rparr>"

definition write_trace_turn ::
  "turn_env \<Rightarrow> turn_frame \<Rightarrow> 32 word \<Rightarrow> stop_reason \<Rightarrow> string option \<Rightarrow> turn_state \<Rightarrow> unit result \<times> turn_state" where
  "write_trace_turn en fr iterations stop cancellation_phase st =
     (if \<not> trace_configured (tf_inputs fr) then (Inr (), st)
      else case make_trace_request fr (ts_usage st) iterations (te_clock en (ts_tick st)) (at_model (ts_target st))
             (at_profile (ts_target st)) stop cancellation_phase of
        Inl e \<Rightarrow> (Inl e, tick st)
      | Inr row \<Rightarrow> (case te_trace_write en (ts_tick st) row of
          Returned (Inl e) \<Rightarrow> (Inl e, tick (log_turn (TxTrace row) st))
        | Returned (Inr _) \<Rightarrow> (if te_trace_cancelled en (ts_tick st) then Inl err_cancelled else Inr (), tick (log_turn (TxTrace row) st))
        | ThrewAborted \<Rightarrow> (Inl err_cancelled, tick (log_turn (TxTrace row) st))
        | ThrewOther \<Rightarrow> (Inl (with_ctx ''cause'' (te_trace_cause en (ts_tick st)) (err_storage ''trace write failed'')), tick (log_turn (TxTrace row) st))))"

definition attach_trace_write_error :: "core_error \<Rightarrow> core_error \<Rightarrow> core_error" where
  "attach_trace_write_error original trace_error = with_ctx ''trace_write_failed'' (err_message trace_error) original"

definition observer_complete :: "turn_env \<Rightarrow> turn_frame \<Rightarrow> stop_reason \<Rightarrow> 32 word \<Rightarrow> turn_state \<Rightarrow> unit result \<times> turn_state" where
  "observer_complete en fr stop iterations st = write_trace_turn en fr iterations stop None st"

text \<open>
  \<^verbatim>\<open>TurnObserver::fail\<close>. A cancelled turn shields its cleanup, so the cancellation check after the
  write sees nothing.
\<close>

definition observer_fail :: "turn_env \<Rightarrow> turn_frame \<Rightarrow> core_error \<Rightarrow> string \<Rightarrow> 32 word \<Rightarrow> turn_state \<Rightarrow> core_error \<times> turn_state" where
  "observer_fail en fr e ph iterations st =
     (if \<not> trace_configured (tf_inputs fr) then (e, st)
      else let is_cancelled = (err_kind e = cancelled_kind);
               en' = (if is_cancelled then en\<lparr>te_trace_cancelled := (\<lambda>_. False)\<rparr> else en);
               (traced, st') = write_trace_turn en' fr iterations (if is_cancelled then SR_cancelled else SR_error)
                 (if is_cancelled then Some ph else None) st
        in case traced of Inl te \<Rightarrow> (attach_trace_write_error e te, st') | Inr _ \<Rightarrow> (e, st'))"

section \<open>Provider events\<close>

definition turn_hook_identity :: "turn_inputs \<Rightarrow> hook_identity" where
  "turn_hook_identity inp = \<lparr>id_scope_key = in_scope_key inp, id_agent_key = in_agent_key inp, id_identity = in_identity inp\<rparr>"

definition hook_usage :: "rat usage \<Rightarrow> provider_usage" where
  "hook_usage u = \<lparr>pu_input_tokens = input_tokens u, pu_output_tokens = output_tokens u,
     pu_cache_creation_tokens = cache_creation_tokens u, pu_cache_read_tokens = cache_read_tokens u, pu_cost_estimate = cost_estimate u\<rparr>"

definition make_provider_request_payload :: "turn_frame \<Rightarrow> request \<Rightarrow> 32 word \<Rightarrow> int \<Rightarrow> payload" where
  "make_provider_request_payload fr r iteration started = PProviderRequest
     \<lparr>pq_who = turn_hook_identity (tf_inputs fr), pq_origin = in_origin (tf_inputs fr), pq_turn_id = in_turn_id (tf_inputs fr),
      pq_iteration = iteration, pq_route_profile = tgt_profile (rt_primary (tf_route fr)),
      pq_route_model = tgt_model (rt_primary (tf_route fr)),
      pq_route_protocol = protocol_name (tgt_protocol (rt_primary (tf_route fr))),
      pq_fallback_count = length (rt_fallbacks (tf_route fr)), pq_message_count = length (req_messages r),
      pq_tool_count = length (req_tools r), pq_stream = req_stream r, pq_max_tokens = req_max_tokens r,
      pq_thinking_budget = req_thinking_budget r, pq_retry_max_attempts = max_attempts (req_retry r),
      pq_retry_initial_backoff = initial_backoff (req_retry r), pq_started_at = started\<rparr>"

definition make_provider_response_payload ::
  "turn_frame \<Rightarrow> rat response \<Rightarrow> attribution \<Rightarrow> 32 word \<Rightarrow> int \<Rightarrow> int \<Rightarrow> payload" where
  "make_provider_response_payload fr r target iteration started finished = PProviderResponse
     \<lparr>ps_who = turn_hook_identity (tf_inputs fr), ps_origin = in_origin (tf_inputs fr), ps_turn_id = in_turn_id (tf_inputs fr),
      ps_iteration = iteration, ps_route_profile = tgt_profile (rt_primary (tf_route fr)),
      ps_route_model = tgt_model (rt_primary (tf_route fr)),
      ps_route_protocol = protocol_name (tgt_protocol (rt_primary (tf_route fr))), ps_served_profile = at_profile target,
      ps_served_model = at_model target, ps_served_protocol = protocol_name (at_protocol target),
      ps_stop_reason = stop_reason_name (resp_stop_reason r), ps_usage = hook_usage (resp_usage r), ps_started_at = started,
      ps_finished_at = finished, ps_duration = finished - started\<rparr>"

definition make_provider_error_payload ::
  "turn_frame \<Rightarrow> core_error \<Rightarrow> attribution \<Rightarrow> 32 word \<Rightarrow> int \<Rightarrow> int \<Rightarrow> payload" where
  "make_provider_error_payload fr e target iteration started finished = PProviderError
     \<lparr>pe_who = turn_hook_identity (tf_inputs fr), pe_origin = in_origin (tf_inputs fr), pe_turn_id = in_turn_id (tf_inputs fr),
      pe_iteration = iteration, pe_route_profile = at_profile target, pe_route_model = at_model target,
      pe_route_protocol = protocol_name (at_protocol target), pe_error_kind = error_kind_name (err_kind e),
      pe_error_message = err_message e, pe_retryable = retryable e, pe_started_at = started, pe_finished_at = finished,
      pe_duration = finished - started\<rparr>"

definition observe :: "turn_frame \<Rightarrow> hook_event \<Rightarrow> payload \<Rightarrow> turn_state \<Rightarrow> turn_state" where
  "observe fr ev p st = (if in_bus (tf_inputs fr) then log_turn (TxPublish ev p) st else st)"

end
