(* ===== verification/Provider_Request.thy ===== *)
theory Provider_Request
  imports Provider_Execution
begin

unbundle bit_operations_syntax

text \<open>
  \<^verbatim>\<open>oran-provider/protocol_request.cpp\<close>: the bodies of the two vendor protocols. The body is built as
  the ordered list of its members, in the order in which the source writes them; its text is what
  \<^verbatim>\<open>dump\<close> makes of it. The facts compare what a request says with what its body carries: a response
  that was decoded is sent back unchanged, and no tool call or result is lost or reordered.
\<close>

section \<open>Fields\<close>

record protocol_request =
  pr_method :: string
  pr_path :: string
  pr_body_json :: string

definition default_cache_options :: cache_options where
  "default_cache_options = \<lparr>cache_enabled = True, min_prefix_bytes = 0\<rparr>"

definition has_system_prefix :: "request \<Rightarrow> bool" where
  "has_system_prefix r \<longleftrightarrow> (case req_system_prompt r of Some s \<Rightarrow> s \<noteq> [] | None \<Rightarrow> False)"

definition use_prompt_cache :: "request \<Rightarrow> 'c model_target \<Rightarrow> bool" where
  "use_prompt_cache r t = (let o1 = (case tgt_cache t of Some c \<Rightarrow> c | None \<Rightarrow> default_cache_options) in
     case req_cache r of
       None \<Rightarrow> False
     | Some h \<Rightarrow> cache_enabled o1 \<and> 0 < prefix_bytes h \<and> min_prefix_bytes o1 \<le> prefix_bytes h \<and> (has_system_prefix r \<or> req_tools r \<noteq> []))"

definition parse_object_document :: "json_lib \<Rightarrow> string \<Rightarrow> string \<Rightarrow> 'c model_target \<Rightarrow> json result" where
  "parse_object_document lib s field t = (case json_parse lib s of
     Inl detail \<Rightarrow> Inl (with_ctx ''detail'' detail (response_parse_error ''provider protocol field is not valid JSON'' field t))
   | Inr j \<Rightarrow> if is_object j then Inr j
       else Inl (response_parse_error ''provider protocol field must be a JSON object'' field t))"

definition tool_schema_json :: "json_lib \<Rightarrow> tool_def \<Rightarrow> 'c model_target \<Rightarrow> json result" where
  "tool_schema_json lib d t = map_error (with_ctx ''tool'' (tool_name d))
     (parse_object_document lib (input_schema_json d) ''tool.input_schema_json'' t)"

definition tool_input_json :: "json_lib \<Rightarrow> string \<Rightarrow> string \<Rightarrow> string \<Rightarrow> 'c model_target \<Rightarrow> json result" where
  "tool_input_json lib uid name input t = map_error (\<lambda>e. with_ctx ''tool_use_id'' uid (with_ctx ''tool'' name e))
     (parse_object_document lib input ''tool.input_json'' t)"

definition tool_result_text :: "string \<Rightarrow> string option \<Rightarrow> string" where
  "tool_result_text res data = (case data of Some d \<Rightarrow> if res = [] then d else res | None \<Rightarrow> res)"

definition anthropic_tool_choice :: "string \<Rightarrow> json" where
  "anthropic_tool_choice choice =
     (if choice = ''auto'' then JObject [(''type'', JString ''auto'')]
      else if choice = ''any'' then JObject [(''type'', JString ''any'')]
      else JObject [(''type'', JString ''tool''), (''name'', JString choice)])"

definition openai_tool_choice :: "string \<Rightarrow> json" where
  "openai_tool_choice choice =
     (if choice \<in> {''auto'', ''none'', ''required''} then JString choice
      else if choice = ''any'' then JString ''required''
      else JObject [(''type'', JString ''function''), (''name'', JString choice)])"

definition valid_image :: "string \<Rightarrow> string \<Rightarrow> bool" where
  "valid_image media data \<longleftrightarrow> data \<noteq> [] \<and> media \<in> {''image/jpeg'', ''image/png'', ''image/gif'', ''image/webp''}"

text \<open>The text of a system message: its blocks joined by blank lines.\<close>

fun system_parts :: "string \<Rightarrow> content list \<Rightarrow> 'c model_target \<Rightarrow> string \<Rightarrow> string result" where
  "system_parts msg [] t acc = Inr acc"
| "system_parts msg (TextContent s # bs) t acc =
     system_parts msg bs t (acc @ (if acc = [] then [] else [byte_to_char 10, byte_to_char 10]) @ s)"
| "system_parts msg (b # bs) t acc = Inl (protocol_error msg t)"

definition blank_line :: string where "blank_line = [byte_to_char 10, byte_to_char 10]"

fun result_map :: "('a \<Rightarrow> 'e + 'b) \<Rightarrow> 'a list \<Rightarrow> 'e + 'b list" where
  "result_map f [] = Inr []"
| "result_map f (x # xs) = rbind (f x) (\<lambda>y. rbind (result_map f xs) (\<lambda>ys. Inr (y # ys)))"

section \<open>Anthropic messages\<close>

fun anthropic_request_block :: "json_lib \<Rightarrow> role \<Rightarrow> 'c model_target \<Rightarrow> content \<Rightarrow> json result" where
  "anthropic_request_block lib role t (TextContent s) = Inr (JObject [(''type'', JString ''text''), (''text'', JString s)])"
| "anthropic_request_block lib role t (ImageContent media data) =
     (if role \<noteq> user_role \<or> \<not> valid_image media data then Inl (protocol_error ''unsupported or empty image input'' t)
      else Inr (JObject [(''type'', JString ''image''),
        (''source'', JObject [(''type'', JString ''base64''), (''media_type'', JString media), (''data'', JString data)])]))"
| "anthropic_request_block lib role t (ThinkingContent s sig) =
     Inr (JObject ([(''type'', JString ''thinking''), (''thinking'', JString s)]
       @ (case sig of Some g \<Rightarrow> [(''signature'', JString g)] | None \<Rightarrow> [])))"
| "anthropic_request_block lib role t (ToolUseContent uid name input) =
     rbind (tool_input_json lib uid name input t) (\<lambda>j.
       Inr (JObject [(''type'', JString ''tool_use''), (''id'', JString uid), (''name'', JString name), (''input'', j)]))"
| "anthropic_request_block lib role t (ToolResultContent uid res data is_error) =
     Inr (JObject ([(''type'', JString ''tool_result''), (''tool_use_id'', JString uid), (''content'', JString (tool_result_text res data))]
       @ (if is_error then [(''is_error'', JBool True)] else [])))"

definition append_anthropic_system_text :: "message \<Rightarrow> 'c model_target \<Rightarrow> (string \<times> json) list \<Rightarrow> (string \<times> json) list result" where
  "append_anthropic_system_text m t body =
     rbind (system_parts ''anthropic system messages must contain only text blocks'' (msg_blocks m) t []) (\<lambda>parts.
       if parts = [] then Inr body
       else Inr (case map_of body ''system'' of
         Some (JArray xs) \<Rightarrow> set_member ''system'' (JArray (xs @ [JObject [(''type'', JString ''text''), (''text'', JString (blank_line @ parts))]])) body
       | Some (JString s) \<Rightarrow> set_member ''system'' (JString (s @ blank_line @ parts)) body
       | _ \<Rightarrow> set_member ''system'' (JString parts) body))"

definition anthropic_message_json :: "json_lib \<Rightarrow> message \<Rightarrow> 'c model_target \<Rightarrow> json result" where
  "anthropic_message_json lib m t =
     rbind (result_map (anthropic_request_block lib (msg_role m) t) (msg_blocks m)) (\<lambda>cont.
       if msg_role m = system_role then Inl (protocol_error ''anthropic system messages must be lifted before encoding'' t)
       else Inr (JObject [(''role'', JString (if msg_role m = assistant_role then ''assistant'' else ''user'')), (''content'', JArray cont)]))"

definition anthropic_tools_json :: "json_lib \<Rightarrow> request \<Rightarrow> 'c model_target \<Rightarrow> json list result" where
  "anthropic_tools_json lib r t = result_map (\<lambda>d. rbind (tool_schema_json lib d t) (\<lambda>schema.
     Inr (JObject [(''name'', JString (tool_name d)), (''description'', JString (tool_description d)), (''input_schema'', schema)]))) (req_tools r)"

definition ephemeral :: json where "ephemeral = JObject [(''type'', JString ''ephemeral'')]"

fun mark_last :: "json list \<Rightarrow> json list" where
  "mark_last [] = []"
| "mark_last [JObject kvs] = [JObject (set_member ''cache_control'' ephemeral kvs)]"
| "mark_last (x # xs) = x # mark_last xs"

text \<open>The loop over the messages: system messages change the body, the others become array entries.\<close>

fun anthropic_messages_json :: "json_lib \<Rightarrow> 'c model_target \<Rightarrow> message list \<Rightarrow> (string \<times> json) list \<Rightarrow> ((string \<times> json) list \<times> json list) result" where
  "anthropic_messages_json lib t [] body = Inr (body, [])"
| "anthropic_messages_json lib t (m # ms) body =
     (if msg_role m = system_role
      then rbind (append_anthropic_system_text m t body) (\<lambda>body'. anthropic_messages_json lib t ms body')
      else rbind (anthropic_message_json lib m t) (\<lambda>j.
        rbind (anthropic_messages_json lib t ms body) (\<lambda>(body', js). Inr (body', j # js))))"

definition anthropic_head :: "request \<Rightarrow> 'c model_target \<Rightarrow> 32 word \<Rightarrow> (string \<times> json) list" where
  "anthropic_head r t mx =
     (let cached = use_prompt_cache r t in
      [(''model'', JString (tgt_model t)), (''max_tokens'', JUnsigned (ucast mx)), (''stream'', JBool (req_stream r))]
      @ (case req_system_prompt r of
           Some s \<Rightarrow> if s = [] then []
             else [(''system'', if cached
               then JArray [JObject [(''type'', JString ''text''), (''text'', JString s), (''cache_control'', ephemeral)]]
               else JString s)]
         | None \<Rightarrow> [])
      @ [(''thinking'', case req_thinking_budget r of
           Some b \<Rightarrow> JObject [(''type'', JString ''enabled''), (''budget_tokens'', JUnsigned (ucast b))]
         | None \<Rightarrow> JObject [(''type'', JString ''disabled'')])]
      @ (case req_tool_choice r of Some c \<Rightarrow> [(''tool_choice'', anthropic_tool_choice c)] | None \<Rightarrow> []))"

definition anthropic_body :: "json_lib \<Rightarrow> request \<Rightarrow> 'c model_target \<Rightarrow> (string \<times> json) list result" where
  "anthropic_body lib r t =
     (if tgt_model t = [] then Inl (protocol_error ''provider protocol target model must be non-empty'' t)
      else case req_max_tokens r of
        None \<Rightarrow> Inl (protocol_error ''anthropic messages requests require max_tokens'' t)
      | Some mx \<Rightarrow>
        rbind (anthropic_messages_json lib t (req_messages r) (anthropic_head r t mx)) (\<lambda>(body, msgs).
        let body1 = set_member ''messages'' (JArray msgs) body in
        rbind (anthropic_tools_json lib r t) (\<lambda>tools.
          Inr (if tools = [] then body1
               else set_member ''tools'' (JArray (if use_prompt_cache r t \<and> \<not> has_system_prefix r then mark_last tools else tools)) body1))))"

definition make_anthropic_request :: "json_lib \<Rightarrow> request \<Rightarrow> 'c model_target \<Rightarrow> protocol_request result" where
  "make_anthropic_request lib r t = rbind (anthropic_body lib r t) (\<lambda>body.
     Inr \<lparr>pr_method = ''POST'', pr_path = ''/v1/messages'', pr_body_json = json_dump lib (JObject body)\<rparr>)"

section \<open>OpenAI Responses\<close>

definition append_openai_instructions_text :: "message \<Rightarrow> 'c model_target \<Rightarrow> (string \<times> json) list \<Rightarrow> (string \<times> json) list result" where
  "append_openai_instructions_text m t body =
     rbind (system_parts ''openai system messages must contain only text blocks'' (msg_blocks m) t []) (\<lambda>parts.
       if parts = [] then Inr body
       else Inr (case map_of body ''instructions'' of
         Some (JString s) \<Rightarrow> set_member ''instructions'' (JString (s @ blank_line @ parts)) body
       | _ \<Rightarrow> set_member ''instructions'' (JString parts) body))"

definition openai_content_type :: "role \<Rightarrow> string" where
  "openai_content_type r = (if r = assistant_role then ''output_text'' else ''input_text'')"

definition openai_text_message :: "role \<Rightarrow> string \<Rightarrow> json" where
  "openai_text_message r s = JObject [(''role'', JString (role_name r)),
     (''content'', JArray [JObject [(''type'', JString (openai_content_type r)), (''text'', JString s)]])]"

fun openai_input_item :: "json_lib \<Rightarrow> role \<Rightarrow> 'c model_target \<Rightarrow> content \<Rightarrow> json result" where
  "openai_input_item lib role t (TextContent s) = Inr (openai_text_message role s)"
| "openai_input_item lib role t (ImageContent media data) =
     (if role \<noteq> user_role \<or> \<not> valid_image media data then Inl (protocol_error ''unsupported image input'' t)
      else Inr (JObject [(''role'', JString ''user''), (''content'', JArray [JObject [(''type'', JString ''input_image''),
        (''image_url'', JString (''data:'' @ media @ '';base64,'' @ data))]])]))"
| "openai_input_item lib role t (ThinkingContent s sig) =
     Inr (JObject [(''type'', JString ''reasoning''), (''summary'', JArray [JObject [(''type'', JString ''summary_text''), (''text'', JString s)]])])"
| "openai_input_item lib role t (ToolUseContent uid name input) =
     rbind (tool_input_json lib uid name input t) (\<lambda>j.
       Inr (JObject [(''type'', JString ''function_call''), (''call_id'', JString uid), (''name'', JString name),
         (''arguments'', JString (json_dump lib j))]))"
| "openai_input_item lib role t (ToolResultContent uid res data is_error) =
     Inr (JObject ([(''type'', JString ''function_call_output''), (''call_id'', JString uid), (''output'', JString (tool_result_text res data))]
       @ (if is_error then [(''status'', JString ''error'')] else [])))"

definition openai_tools_json :: "json_lib \<Rightarrow> request \<Rightarrow> 'c model_target \<Rightarrow> json list result" where
  "openai_tools_json lib r t = result_map (\<lambda>d. rbind (tool_schema_json lib d t) (\<lambda>schema.
     Inr (JObject [(''type'', JString ''function''), (''name'', JString (tool_name d)), (''description'', JString (tool_description d)),
       (''parameters'', schema)]))) (req_tools r)"

fun openai_input :: "json_lib \<Rightarrow> 'c model_target \<Rightarrow> message list \<Rightarrow> (string \<times> json) list \<Rightarrow> ((string \<times> json) list \<times> json list) result" where
  "openai_input lib t [] body = Inr (body, [])"
| "openai_input lib t (m # ms) body =
     (if msg_role m = system_role
      then rbind (append_openai_instructions_text m t body) (\<lambda>body'. openai_input lib t ms body')
      else rbind (result_map (openai_input_item lib (msg_role m) t) (msg_blocks m)) (\<lambda>js.
        rbind (openai_input lib t ms body) (\<lambda>(body', js'). Inr (body', js @ js'))))"

definition hex64 :: "64 word \<Rightarrow> string" where
  "hex64 h = map (\<lambda>i. hex_digits ! unat (drop_bit (4 * (15 - i)) h AND 0xF)) [0..<16]"

definition openai_head :: "request \<Rightarrow> 'c model_target \<Rightarrow> (string \<times> json) list" where
  "openai_head r t =
     [(''model'', JString (tgt_model t)), (''stream'', JBool (req_stream r))]
     @ (case req_cache r of
          Some h \<Rightarrow> if use_prompt_cache r t then [(''prompt_cache_key'', JString (''oran-'' @ hex64 (prefix_hash h)))] else []
        | None \<Rightarrow> [])
     @ (case req_system_prompt r of Some s \<Rightarrow> if s = [] then [] else [(''instructions'', JString s)] | None \<Rightarrow> [])
     @ (case req_max_tokens r of Some mx \<Rightarrow> [(''max_output_tokens'', JUnsigned (ucast mx))] | None \<Rightarrow> [])
     @ (case req_tool_choice r of Some c \<Rightarrow> [(''tool_choice'', openai_tool_choice c)] | None \<Rightarrow> [])"

definition openai_body :: "json_lib \<Rightarrow> request \<Rightarrow> 'c model_target \<Rightarrow> (string \<times> json) list result" where
  "openai_body lib r t =
     (if tgt_model t = [] then Inl (protocol_error ''provider protocol target model must be non-empty'' t)
      else if req_thinking_budget r \<noteq> None
      then Inl (protocol_error ''openai responses requests do not accept token-budget thinking controls'' t)
      else rbind (openai_input lib t (req_messages r) (openai_head r t)) (\<lambda>(body, input).
        let body1 = set_member ''input'' (JArray input) body in
        rbind (openai_tools_json lib r t) (\<lambda>tools.
          Inr (if tools = [] then body1 else set_member ''tools'' (JArray tools) body1))))"

definition make_openai_responses_request :: "json_lib \<Rightarrow> request \<Rightarrow> 'c model_target \<Rightarrow> protocol_request result" where
  "make_openai_responses_request lib r t = rbind (openai_body lib r t) (\<lambda>body.
     Inr \<lparr>pr_method = ''POST'', pr_path = ''/responses'', pr_body_json = json_dump lib (JObject body)\<rparr>)"

definition make_protocol_request :: "json_lib \<Rightarrow> request \<Rightarrow> 'c model_target \<Rightarrow> protocol_request result" where
  "make_protocol_request lib r t = (case tgt_protocol t of
     anthropic_messages \<Rightarrow> make_anthropic_request lib r t
   | openai_responses \<Rightarrow> make_openai_responses_request lib r t
   | _ \<Rightarrow> Inl (protocol_error ''provider protocol request serialization is not implemented'' t))"

section \<open>Replaying a response\<close>

text \<open>The values inside a document, the document included.\<close>

fun json_parts :: "json \<Rightarrow> json list" where
  "json_parts (JArray xs) = JArray xs # concat (map json_parts xs)"
| "json_parts (JObject kvs) = JObject kvs # concat (map (\<lambda>kv. json_parts (snd kv)) kvs)"
| "json_parts j = [j]"

lemma json_parts_self [simp]: "j \<in> set (json_parts j)"
  by (cases j) auto

lemma json_parts_trans: "v \<in> set (json_parts j) \<Longrightarrow> set (json_parts v) \<subseteq> set (json_parts j)"
  by (induction j arbitrary: v rule: json_parts.induct) (fastforce+)

lemma json_parts_member: "json_member j key = Some v \<Longrightarrow> v \<in> set (json_parts j)"
  by (cases j) (fastforce dest: map_of_SomeD)+

lemma json_parts_element: "JArray xs \<in> set (json_parts j) \<Longrightarrow> b \<in> set xs \<Longrightarrow> b \<in> set (json_parts j)"
  using json_parts_trans [of "JArray xs" j] by fastforce

text \<open>
  What the library promises of a document it parsed: every value of it is read back from its
  own text.
\<close>

definition reparses :: "json_lib \<Rightarrow> string \<Rightarrow> bool" where
  "reparses lib s \<longleftrightarrow> (case json_parse lib s of
     Inl e \<Rightarrow> True | Inr j \<Rightarrow> list_all (\<lambda>v. json_parse lib (json_dump lib v) = Inr v) (json_parts j))"

fun replayable :: "json_lib \<Rightarrow> content \<Rightarrow> bool" where
  "replayable lib (TextContent s) = True"
| "replayable lib (ThinkingContent s sig) = (sig \<noteq> Some [])"
| "replayable lib (ToolUseContent uid name input) = (\<exists>j. is_object j \<and> json_parse lib input = Inr j \<and> input = json_dump lib j)"
| "replayable lib _ = False"

lemma replayable_roundtrip:
  "replayable lib c \<Longrightarrow> \<exists>j. anthropic_request_block lib role t c = Inr j \<and> anthropic_content_block lib j i t = Inr c"
proof (cases c)
  case (ToolUseContent uid name input)
  assume "replayable lib c"
  then obtain j where "is_object j" "json_parse lib input = Inr j" "input = json_dump lib j" using ToolUseContent by auto
  then show ?thesis unfolding ToolUseContent
    by (simp add: tool_input_json_def parse_object_document_def anthropic_content_block_def required_string_def object_member_def)
qed (auto simp: anthropic_content_block_def required_string_def optional_string_def none_if_empty_def split: option.splits)

lemma decoded_block_replayable:
  assumes "anthropic_content_block lib b i t = Inr c" "\<forall>v \<in> set (json_parts b). json_parse lib (json_dump lib v) = Inr v"
  shows "replayable lib c"
  using assms by (auto simp: anthropic_content_block_def rbind_Inr_iff case_option_Inl_Inr_iff none_if_empty_def
      dest!: object_member_SomeD json_parts_member split: if_splits)

lemma decoded_blocks_replayable:
  "anthropic_blocks lib bs i t = Inr cs \<Longrightarrow> \<forall>b \<in> set bs. \<forall>v \<in> set (json_parts b). json_parse lib (json_dump lib v) = Inr v
    \<Longrightarrow> list_all (replayable lib) cs"
  by (induction bs arbitrary: i cs) (auto simp: rbind_Inr_iff intro: decoded_block_replayable)

lemma replayable_blocks_roundtrip:
  "list_all (replayable lib) cs \<Longrightarrow> \<exists>js. result_map (anthropic_request_block lib role t) cs = Inr js \<and> anthropic_blocks lib js i t = Inr cs"
proof (induction cs arbitrary: i)
  case (Cons c cs)
  obtain j where "anthropic_request_block lib role t c = Inr j" "anthropic_content_block lib j i t = Inr c"
    using replayable_roundtrip [of lib c role t i] Cons.prems by auto
  moreover obtain js where "result_map (anthropic_request_block lib role t) cs = Inr js" "anthropic_blocks lib js (Suc i) t = Inr cs"
    using Cons by auto
  ultimately show ?case by simp
qed simp

lemma required_array_Inr_iff: "required_array obj key field t = Inr xs \<longleftrightarrow> json_member obj key = Some (JArray xs)"
  by (auto simp: required_array_def split: option.splits json.splits)

text \<open>
  C34: what the model said is sent back unchanged. The assistant message made of a decoded Anthropic response
  always encodes, and decoding the blocks of that encoding gives the response's blocks again: text, signed
  thinking and tool calls with their inputs.
\<close>

theorem anthropic_replays_response:
  assumes "tgt_protocol t = anthropic_messages" "decode_protocol_response lib s t = Inr r" "reparses lib s"
  shows "\<exists>js. anthropic_message_json lib \<lparr>msg_role = assistant_role, msg_blocks = resp_blocks r, msg_created_at = None\<rparr> t
        = Inr (JObject [(''role'', JString ''assistant''), (''content'', JArray js)]) \<and>
    anthropic_blocks lib js 0 t = Inr (resp_blocks r)"
proof -
  obtain body cont where d: "json_parse lib s = Inr body" "json_member body ''content'' = Some (JArray cont)"
    "anthropic_blocks lib cont 0 t = Inr (resp_blocks r)"
    using assms(1,2) by (auto simp: decode_protocol_response_def decode_anthropic_response_def rbind_Inr_iff parse_body_json_def
        parse_json_object_Inr_iff required_array_Inr_iff)
  have "v \<in> set (json_parts body)" if "b \<in> set cont" "v \<in> set (json_parts b)" for b v
    using that json_parts_element [OF json_parts_member [OF d(2)]] json_parts_trans by blast
  then have "list_all (replayable lib) (resp_blocks r)"
    using assms(3) d(1) by (intro decoded_blocks_replayable [OF d(3)]) (auto simp: reparses_def list_all_iff)
  from replayable_blocks_roundtrip [OF this, of assistant_role t 0] show ?thesis
    by (auto simp: anthropic_message_json_def)
qed

text \<open>A library that knows one document, a response with one tool call, and names its values by their position.\<close>

definition replay_body :: json where
  "replay_body = JObject [(''content'', JArray [JObject [(''type'', JString ''tool_use''), (''id'', JString ''a''), (''name'', JString ''f''),
     (''input'', JObject [])]]), (''stop_reason'', JString ''x'')]"

definition replay_lib :: json_lib where
  "replay_lib = \<lparr>json_parse = (\<lambda>s. if length s < length (json_parts replay_body) then Inr (json_parts replay_body ! length s) else Inl ''e''),
     json_dump = (\<lambda>j. replicate (length (takeWhile (\<lambda>v. v \<noteq> j) (json_parts replay_body))) (CHR ''x''))\<rparr>"

definition replay_target :: "rat model_target" where
  "replay_target = (rt_primary demo_route)\<lparr>tgt_protocol := anthropic_messages\<rparr>"

lemma replay_reparses: "reparses replay_lib []"
  by (simp add: reparses_def replay_lib_def replay_body_def)

lemma replay_decodes: "\<exists>r. decode_protocol_response replay_lib [] replay_target = Inr r \<and> resp_blocks r = [ToolUseContent ''a'' ''f'' ''xxxxxx'']"
  by (simp add: decode_protocol_response_def replay_target_def decode_anthropic_response_def parse_body_json_def parse_json_object_def
      required_array_def anthropic_content_block_def required_string_def object_member_def anthropic_usage_def optional_string_def
      replay_lib_def replay_body_def)

theorem anthropic_replays_response_witness:
  "\<exists>r js. resp_blocks r = [ToolUseContent ''a'' ''f'' ''xxxxxx''] \<and> decode_protocol_response replay_lib [] replay_target = Inr r \<and>
     anthropic_blocks replay_lib js 0 replay_target = Inr (resp_blocks r)"
proof -
  obtain r where r: "decode_protocol_response replay_lib [] replay_target = Inr r" "resp_blocks r = [ToolUseContent ''a'' ''f'' ''xxxxxx'']"
    using replay_decodes by blast
  have "tgt_protocol replay_target = anthropic_messages" by (simp add: replay_target_def)
  from anthropic_replays_response [OF this r(1) replay_reparses] r show ?thesis by blast
qed

section \<open>Exchanges on the wire\<close>

text \<open>Tool calls (true) and tool results (false) with their ids, as the conversation has them and as a body has them.\<close>

fun block_exchange :: "content \<Rightarrow> (bool \<times> string) list" where
  "block_exchange (ToolUseContent uid name input) = [(True, uid)]"
| "block_exchange (ToolResultContent uid res data is_error) = [(False, uid)]"
| "block_exchange _ = []"

definition conversation_exchanges :: "message list \<Rightarrow> (bool \<times> string) list" where
  "conversation_exchanges ms = concat (map (\<lambda>m. concat (map block_exchange (msg_blocks m))) ms)"

definition entry_exchange :: "json \<Rightarrow> (bool \<times> string) list" where
  "entry_exchange j = (let ty = string_or_empty j ''type'' in
     if ty = ''tool_use'' then [(True, string_or_empty j ''id'')]
     else if ty = ''tool_result'' then [(False, string_or_empty j ''tool_use_id'')]
     else if ty = ''function_call'' then [(True, string_or_empty j ''call_id'')]
     else if ty = ''function_call_output'' then [(False, string_or_empty j ''call_id'')]
     else [])"

definition array_member :: "json \<Rightarrow> string \<Rightarrow> json list" where
  "array_member j key = (case json_member j key of Some v \<Rightarrow> json_elements v | None \<Rightarrow> [])"

definition wire_entries :: "protocol_kind \<Rightarrow> (string \<times> json) list \<Rightarrow> json list" where
  "wire_entries p body = (if p = anthropic_messages
     then concat (map (\<lambda>m. array_member m ''content'') (array_member (JObject body) ''messages''))
     else array_member (JObject body) ''input'')"

lemma anthropic_block_exchange: "anthropic_request_block lib role t c = Inr j \<Longrightarrow> entry_exchange j = block_exchange c"
  by (cases c) (auto simp: entry_exchange_def string_or_empty_def rbind_Inr_iff split: if_splits option.splits)

lemma openai_item_exchange: "openai_input_item lib role t c = Inr j \<Longrightarrow> entry_exchange j = block_exchange c"
  by (cases c) (auto simp: entry_exchange_def string_or_empty_def rbind_Inr_iff openai_text_message_def split: if_splits option.splits)

lemma result_map_concat:
  "result_map f xs = Inr ys \<Longrightarrow> (\<And>x y. f x = Inr y \<Longrightarrow> g y = h x) \<Longrightarrow> concat (map g ys) = concat (map h xs)"
  by (induction xs arbitrary: ys) (auto simp: rbind_Inr_iff)

lemma system_parts_text: "system_parts msg bs t acc = Inr p \<Longrightarrow> concat (map block_exchange bs) = []"
  by (induction msg bs t acc rule: system_parts.induct) auto

lemma anthropic_messages_exchange:
  "anthropic_messages_json lib t ms body = Inr (body', js) \<Longrightarrow>
    concat (map entry_exchange (concat (map (\<lambda>m. array_member m ''content'') js))) = conversation_exchanges ms"
proof (induction ms arbitrary: body js)
  case (Cons m ms)
  show ?case
  proof (cases "msg_role m = system_role")
    case True
    then show ?thesis using Cons by (auto simp: rbind_Inr_iff append_anthropic_system_text_def conversation_exchanges_def dest!: system_parts_text)
  next
    case False
    then obtain cont js' where c: "result_map (anthropic_request_block lib (msg_role m) t) (msg_blocks m) = Inr cont"
      "array_member (hd js) ''content'' = cont" "js = hd js # js'" "anthropic_messages_json lib t ms body = Inr (body', js')"
      using Cons.prems by (auto simp: rbind_Inr_iff anthropic_message_json_def array_member_def)
    have "concat (map entry_exchange cont) = concat (map block_exchange (msg_blocks m))"
      by (rule result_map_concat [OF c(1) anthropic_block_exchange])
    then show ?thesis using Cons.IH [OF c(4)] c(2) by (subst c(3)) (simp add: conversation_exchanges_def)
  qed
qed (simp add: conversation_exchanges_def)

lemma openai_input_exchange:
  "openai_input lib t ms body = Inr (body', js) \<Longrightarrow> concat (map entry_exchange js) = conversation_exchanges ms"
proof (induction ms arbitrary: body js)
  case (Cons m ms)
  show ?case
  proof (cases "msg_role m = system_role")
    case True
    then show ?thesis using Cons by (auto simp: rbind_Inr_iff append_openai_instructions_text_def conversation_exchanges_def dest!: system_parts_text)
  next
    case False
    then obtain js1 js2 where "result_map (openai_input_item lib (msg_role m) t) (msg_blocks m) = Inr js1" "js = js1 @ js2"
      "openai_input lib t ms body = Inr (body', js2)"
      using Cons.prems by (auto simp: rbind_Inr_iff)
    then show ?thesis using Cons.IH result_map_concat [OF _ openai_item_exchange] by (auto simp: conversation_exchanges_def)
  qed
qed (simp add: conversation_exchanges_def)

lemma anthropic_body_messages:
  assumes "anthropic_body lib r t = Inr body"
  shows "concat (map entry_exchange (wire_entries anthropic_messages body)) = conversation_exchanges (req_messages r)"
proof -
  obtain mx body0 msgs where "anthropic_messages_json lib t (req_messages r) (anthropic_head r t mx) = Inr (body0, msgs)"
    "array_member (JObject body) ''messages'' = msgs"
    using assms by (auto simp: anthropic_body_def rbind_Inr_iff Let_def array_member_def split: if_split_asm option.splits)
  then show ?thesis using anthropic_messages_exchange by (auto simp: wire_entries_def)
qed

lemma openai_body_input:
  assumes "openai_body lib r t = Inr body"
  shows "concat (map entry_exchange (wire_entries openai_responses body)) = conversation_exchanges (req_messages r)"
proof -
  obtain body0 js where "openai_input lib t (req_messages r) (openai_head r t) = Inr (body0, js)"
    "array_member (JObject body) ''input'' = js"
    using assms by (auto simp: openai_body_def rbind_Inr_iff Let_def array_member_def split: if_split_asm)
  then show ?thesis using openai_input_exchange by (auto simp: wire_entries_def)
qed

text \<open>
  Requests lose no exchange. Whenever a request is encoded, for either protocol, the tool calls and tool results
  of its body, read off in order, are exactly those of the conversation, with the same ids.
\<close>

theorem request_keeps_exchanges:
  assumes "make_protocol_request lib r t = Inr p"
  shows "\<exists>body. pr_body_json p = json_dump lib (JObject body) \<and>
    concat (map entry_exchange (wire_entries (tgt_protocol t) body)) = conversation_exchanges (req_messages r)"
  using assms anthropic_body_messages openai_body_input
  by (fastforce simp: make_protocol_request_def make_anthropic_request_def make_openai_responses_request_def rbind_Inr_iff
      split: protocol_kind.splits)

definition exchange_request :: request where
  "exchange_request = demo_request\<lparr>req_max_tokens := Some 1, req_messages :=
     [user_text ''hi'', \<lparr>msg_role = assistant_role, msg_blocks = [ToolUseContent ''a'' ''f'' ''xxxxxx''], msg_created_at = None\<rparr>,
      \<lparr>msg_role = tool_role, msg_blocks = [ToolResultContent ''a'' ''ok'' None False], msg_created_at = None\<rparr>]\<rparr>"

lemma exchange_encodes: "\<exists>p. make_protocol_request replay_lib (exchange_request\<lparr>req_stream := b\<rparr>) replay_target = Inr p"
proof -
  have "\<exists>j. tool_input_json replay_lib ''a'' ''f'' ''xxxxxx'' replay_target = Inr j"
    by (simp add: tool_input_json_def parse_object_document_def replay_lib_def replay_body_def)
  then show ?thesis
    by (auto simp: make_protocol_request_def replay_target_def make_anthropic_request_def anthropic_body_def exchange_request_def demo_request_def
        user_text_def anthropic_message_json_def anthropic_tools_json_def demo_route_def)
qed

theorem request_keeps_exchanges_witness:
  "\<exists>p body. make_protocol_request replay_lib exchange_request replay_target = Inr p \<and> pr_body_json p = json_dump replay_lib (JObject body) \<and>
     concat (map entry_exchange (wire_entries (tgt_protocol replay_target) body)) = [(True, ''a''), (False, ''a'')]"
proof -
  have "exchange_request\<lparr>req_stream := True\<rparr> = exchange_request" by (simp add: exchange_request_def demo_request_def)
  then obtain p where p: "make_protocol_request replay_lib exchange_request replay_target = Inr p" using exchange_encodes [of True] by auto
  have "conversation_exchanges (req_messages exchange_request) = [(True, ''a''), (False, ''a'')]"
    by (simp add: conversation_exchanges_def exchange_request_def user_text_def)
  with request_keeps_exchanges [OF p] p show ?thesis by metis
qed

end
