(* ===== verification/Provider_Transport.thy ===== *)
theory Provider_Transport
  imports Provider_Request
begin

text \<open>
  \<^verbatim>\<open>oran-provider/protocol_transport.cpp\<close>: endpoints, credentials and one send over a transport. The
  transport is an argument that answers an HTTP request, with the server-sent events it delivered
  when it streams; a send returns its result, the calls on the sink and the HTTP requests it
  made. The facts are about credentials: where they go and what they cannot influence.
\<close>

section \<open>Data\<close>

record 'c resolved_profile =
  pf_target :: "'c model_target"
  pf_base_url :: string
  pf_api_key_env :: string

record 'c route_resolution =
  rr_primary :: "'c resolved_profile"
  rr_fallbacks :: "'c resolved_profile list"

record 'c endpoint =
  ep_target :: "'c model_target"
  ep_base_url :: string
  ep_api_key :: string

record http_request =
  hq_method :: string
  hq_url :: string
  hq_headers :: "(string \<times> string) list"
  hq_body_json :: string

record http_response =
  hr_status_code :: "16 word"
  hr_headers :: "(string \<times> string) list"
  hr_body_json :: string

record transport =
  tp_send :: "http_request \<Rightarrow> http_response result"
  tp_supports_streaming :: bool
  tp_send_streaming :: "http_request \<Rightarrow> (string \<times> string) list \<times> http_response result"

text \<open>\<^verbatim>\<open>SecretLookup\<close>: None when the lookup throws.\<close>

type_synonym secret_lookup = "string \<Rightarrow> string result option"

section \<open>Endpoints\<close>

definition resolution_route :: "'c route_resolution \<Rightarrow> 'c route" where
  "resolution_route rr = \<lparr>rt_primary = pf_target (rr_primary rr), rt_fallbacks = map pf_target (rr_fallbacks rr)\<rparr>"

definition validate_profile :: "'c resolved_profile \<Rightarrow> unit result" where
  "validate_profile p =
     (case find (\<lambda>(field, v). v = []) [(''profile'', tgt_profile (pf_target p)), (''model'', tgt_model (pf_target p)),
        (''base_url'', pf_base_url p), (''api_key_env'', pf_api_key_env p)] of
        Some (field, v) \<Rightarrow> Inl (with_ctx ''field'' field (protocol_error ''provider endpoint field must be non-empty'' (pf_target p)))
      | None \<Rightarrow>
          if \<not> prefix ''http://'' (pf_base_url p) \<and> \<not> prefix ''https://'' (pf_base_url p)
          then Inl (with_ctx ''base_url'' (pf_base_url p) (with_ctx ''field'' ''base_url''
                 (protocol_error ''provider endpoint base_url must use http or https'' (pf_target p))))
          else if tgt_protocol (pf_target p) \<notin> {anthropic_messages, openai_responses}
          then Inl (protocol_error ''provider transport protocol is not implemented'' (pf_target p))
          else Inr ())"

definition key_failure :: "'c resolved_profile \<Rightarrow> string \<Rightarrow> core_error" where
  "key_failure p msg = with_ctx ''api_key_env'' (pf_api_key_env p) (with_ctx ''profile'' (tgt_profile (pf_target p)) (make_error auth_kind msg))"

definition resolve_api_key :: "(string \<Rightarrow> string option) \<Rightarrow> secret_lookup option \<Rightarrow> 'c resolved_profile \<Rightarrow> string result" where
  "resolve_api_key env secrets p = (case secrets of
     Some lookup \<Rightarrow> (case lookup (pf_api_key_env p) of
         None \<Rightarrow> Inl (key_failure p ''provider credential lookup failed'')
       | Some (Inr key) \<Rightarrow> if key = [] then Inl (key_failure p ''provider credential is unavailable'') else Inr key
       | Some (Inl e) \<Rightarrow> Inl (key_failure p ''provider credential is unavailable''))
   | None \<Rightarrow> (case env (pf_api_key_env p) of
         None \<Rightarrow> Inl (key_failure p ''provider API-key environment variable is not set'')
       | Some key \<Rightarrow> if key = [] then Inl (key_failure p ''provider API-key environment variable is empty'') else Inr key))"

definition role_label :: "nat \<Rightarrow> string" where
  "role_label i = (if i = 0 then ''primary'' else ''fallback'')"

text \<open>The preflight over the route, before any credential is read.\<close>

fun preflight :: "nat \<Rightarrow> string list \<Rightarrow> 'c resolved_profile list \<Rightarrow> unit result" where
  "preflight i seen [] = Inr ()"
| "preflight i seen (p # ps) = rbind (map_error (with_ctx ''role'' (role_label i)) (validate_profile p)) (\<lambda>_.
     if tgt_profile (pf_target p) \<in> set seen
     then Inl (with_ctx ''role'' (role_label i) (protocol_error ''provider route contains duplicate profiles'' (pf_target p)))
     else preflight (Suc i) (tgt_profile (pf_target p) # seen) ps)"

fun read_keys :: "(string \<Rightarrow> string option) \<Rightarrow> secret_lookup option \<Rightarrow> nat \<Rightarrow> 'c resolved_profile list \<Rightarrow> 'c endpoint list result" where
  "read_keys env secrets i [] = Inr []"
| "read_keys env secrets i (p # ps) =
     rbind (map_error (with_ctx ''role'' (role_label i)) (resolve_api_key env secrets p)) (\<lambda>key.
     rbind (read_keys env secrets (Suc i) ps) (\<lambda>es.
       Inr (\<lparr>ep_target = pf_target p, ep_base_url = pf_base_url p, ep_api_key = key\<rparr> # es)))"

definition make_protocol_system ::
  "(string \<Rightarrow> string option) \<Rightarrow> secret_lookup option \<Rightarrow> 'c route_resolution \<Rightarrow> 'c endpoint list result" where
  "make_protocol_system env secrets rr = (let profiles = rr_primary rr # rr_fallbacks rr in
     rbind (preflight 0 [] profiles) (\<lambda>_. read_keys env secrets 0 profiles))"

section \<open>Sending\<close>

definition ends_with_slash :: "string \<Rightarrow> bool" where
  "ends_with_slash s \<longleftrightarrow> s \<noteq> [] \<and> last s = CHR ''/''"

definition join_url :: "string \<Rightarrow> string \<Rightarrow> string" where
  "join_url base path =
     (if ends_with_slash base \<and> prefix ''/'' path then butlast base
      else if \<not> ends_with_slash base \<and> \<not> prefix ''/'' path then base @ ''/'' else base) @ path"

definition protocol_headers :: "'c endpoint \<Rightarrow> (string \<times> string) list" where
  "protocol_headers ep = [(''content-type'', ''application/json''), (''accept'', ''application/json'')] @
     (case tgt_protocol (ep_target ep) of
        anthropic_messages \<Rightarrow> [(''x-api-key'', ep_api_key ep), (''anthropic-version'', ''2023-06-01'')]
      | openai_responses \<Rightarrow> [(''authorization'', ''Bearer '' @ ep_api_key ep)]
      | _ \<Rightarrow> [])"

definition with_provider :: "'c model_target \<Rightarrow> core_error \<Rightarrow> core_error" where
  "with_provider t e = with_ctx ''provider_model'' (tgt_model t) (with_ctx ''provider_profile'' (tgt_profile t) e)"

definition http_status_error :: "http_response \<Rightarrow> 'c model_target \<Rightarrow> core_error" where
  "http_status_error h t =
     (let code = unat (hr_status_code h);
          e = (if code = 401 \<or> code = 403 then make_error auth_kind ''provider authentication failed''
               else if code = 408 then make_error timeout_kind ''provider request timed out''
               else if code = 429 then err_rate_limit ''provider rate limited''
               else if 500 \<le> code then err_upstream ''provider upstream error''
               else if 400 \<le> code then err_invalid_argument ''provider rejected request''
               else err_network ''provider transport returned non-success status'')
      in with_ctx ''body_bytes'' (show_nat (length (hr_body_json h))) (with_ctx ''http_status'' (show_nat code)
           (with_ctx ''protocol'' (protocol_name (tgt_protocol t)) (with_provider t e))))"

definition http_of :: "'c endpoint \<Rightarrow> protocol_request \<Rightarrow> http_request" where
  "http_of ep p = \<lparr>hq_method = pr_method p, hq_url = join_url (ep_base_url ep) (pr_path p), hq_headers = protocol_headers ep,
     hq_body_json = pr_body_json p\<rparr>"

text \<open>The checks on the HTTP answer that both paths share; \<open>Inr\<close> is a success.\<close>

definition check_http :: "'c model_target \<Rightarrow> http_response result \<Rightarrow> http_response result" where
  "check_http t h = (case h of
     Inl e \<Rightarrow> Inl (with_ctx ''protocol'' (protocol_name (tgt_protocol t)) (with_provider t e))
   | Inr resp \<Rightarrow> if unat (hr_status_code resp) < 200 \<or> 300 \<le> unat (hr_status_code resp) then Inl (http_status_error resp t) else Inr resp)"

type_synonym 'c send_result = "'c response result \<times> sink_call list \<times> http_request list"

definition opt_calls :: "sink_call list option \<Rightarrow> sink_call list" where
  "opt_calls cs = (case cs of Some l \<Rightarrow> l | None \<Rightarrow> [])"

text \<open>What the decoder of the protocol told the sink while the events came in, and its result with the calls up to then.\<close>

definition stream_calls :: "json_lib \<Rightarrow> 'c model_target \<Rightarrow> bool \<Rightarrow> (string \<times> string) list \<Rightarrow> sink_call list" where
  "stream_calls lib t sink evs =
     (if tgt_protocol t = openai_responses then opt_calls (od_sink (openai_run lib evs (openai_decoder_init t sink)))
      else opt_calls (ad_sink (anthropic_run lib evs (anthropic_decoder_init t sink))))"

definition stream_result :: "json_lib \<Rightarrow> 'c model_target \<Rightarrow> bool \<Rightarrow> (string \<times> string) list \<Rightarrow> 'c response result \<times> sink_call list" where
  "stream_result lib t sink evs =
     (if tgt_protocol t = openai_responses
      then (case openai_result lib (openai_run lib evs (openai_decoder_init t sink)) of (r, calls) \<Rightarrow> (r, opt_calls calls))
      else (anthropic_result (anthropic_run lib evs (anthropic_decoder_init t sink)), stream_calls lib t sink evs))"

text \<open>
  \<^verbatim>\<open>send_stream\<close>. The decoder has consumed the events before the answer is examined; its result, and with
  OpenAI the terminal callback, is asked for only after a success.
\<close>

definition send_stream :: "json_lib \<Rightarrow> transport \<Rightarrow> 'c endpoint \<Rightarrow> request \<Rightarrow> 'c model_target \<Rightarrow> bool \<Rightarrow> 'c send_result" where
  "send_stream lib tp ep req t sink = (case make_protocol_request lib (req\<lparr>req_stream := True\<rparr>) t of
     Inl e \<Rightarrow> (Inl e, [], [])
   | Inr p \<Rightarrow>
       (let hq = http_of ep p; (evs, h) = tp_send_streaming tp hq in
        case check_http t h of
          Inl e \<Rightarrow> (Inl e, stream_calls lib t sink evs, [hq])
        | Inr resp \<Rightarrow> (case stream_result lib t sink evs of (r, calls) \<Rightarrow> (map_error (with_provider t) r, calls, [hq]))))"

definition send_body :: "json_lib \<Rightarrow> transport \<Rightarrow> 'c endpoint \<Rightarrow> request \<Rightarrow> 'c model_target \<Rightarrow> bool \<Rightarrow> 'c send_result" where
  "send_body lib tp ep req t sink = (case make_protocol_request lib (req\<lparr>req_stream := False\<rparr>) t of
     Inl e \<Rightarrow> (Inl e, [], [])
   | Inr p \<Rightarrow>
       (let hq = http_of ep p in
        case check_http t (tp_send tp hq) of
          Inl e \<Rightarrow> (Inl e, [], [hq])
        | Inr resp \<Rightarrow> (case decode_protocol_response lib (hr_body_json resp) t of
            Inl e \<Rightarrow> (Inl (with_provider t e), [], [hq])
          | Inr r \<Rightarrow> (Inr r, if sink then [OnDone (resp_stop_reason r)] else [], [hq]))))"

definition system_send :: "json_lib \<Rightarrow> transport \<Rightarrow> 'c endpoint list \<Rightarrow> request \<Rightarrow> 'c model_target \<Rightarrow> bool \<Rightarrow> 'c send_result" where
  "system_send lib tp eps req t sink = (case find (\<lambda>ep. tgt_profile (ep_target ep) = tgt_profile t) eps of
     None \<Rightarrow> (Inl (protocol_error ''provider endpoint not available for route profile'' t), [], [])
   | Some ep \<Rightarrow>
       if tgt_model t \<noteq> tgt_model (ep_target ep)
       then (Inl (with_ctx ''route_model'' (tgt_model t) (protocol_error ''provider endpoint route model mismatch'' (ep_target ep))), [], [])
       else if tgt_protocol t \<noteq> tgt_protocol (ep_target ep)
       then (Inl (with_ctx ''route_protocol'' (protocol_name (tgt_protocol t)) (protocol_error ''provider endpoint route protocol mismatch'' (ep_target ep))), [], [])
       else if req_stream req \<and> tp_supports_streaming tp then send_stream lib tp ep req t sink
       else send_body lib tp ep req t sink)"

section \<open>Credentials\<close>

definition keyed :: "(string \<Rightarrow> string option) \<Rightarrow> secret_lookup option \<Rightarrow> 'c resolved_profile \<Rightarrow> 'c endpoint \<Rightarrow> bool" where
  "keyed env secrets p ep \<longleftrightarrow> ep_target ep = pf_target p \<and> ep_base_url ep = pf_base_url p \<and> resolve_api_key env secrets p = Inr (ep_api_key ep)"

lemma read_keys_keyed: "read_keys env secrets i ps = Inr eps \<Longrightarrow> list_all2 (keyed env secrets) ps eps"
  by (induction ps arbitrary: i eps) (auto simp: rbind_Inr_iff keyed_def)

lemma preflight_distinct:
  "preflight i seen ps = Inr () \<Longrightarrow> distinct (map (tgt_profile \<circ> pf_target) ps) \<and> set (map (tgt_profile \<circ> pf_target) ps) \<inter> set seen = {} \<and>
    list_all (\<lambda>p. validate_profile p = Inr ()) ps"
  by (induction ps arbitrary: i seen) (fastforce simp: rbind_Inr_iff split: if_splits)+

lemma validate_profile_url: "validate_profile p = Inr () \<Longrightarrow> prefix ''http://'' (pf_base_url p) \<or> prefix ''https://'' (pf_base_url p)"
  by (auto simp: validate_profile_def split: option.splits if_splits prod.splits)

lemma make_protocol_system_keyed:
  assumes "make_protocol_system env secrets rr = Inr eps"
  shows "list_all2 (keyed env secrets) (rr_primary rr # rr_fallbacks rr) eps" "distinct (map (tgt_profile \<circ> ep_target) eps)"
    "list_all (\<lambda>p. validate_profile p = Inr ()) (rr_primary rr # rr_fallbacks rr)"
proof -
  let ?ps = "rr_primary rr # rr_fallbacks rr"
  have pre: "preflight 0 [] ?ps = Inr ()" and keys: "read_keys env secrets 0 ?ps = Inr eps"
    using assms by (auto simp: make_protocol_system_def Let_def rbind_Inr_iff simp del: preflight.simps read_keys.simps)
  show k: "list_all2 (keyed env secrets) ?ps eps" by (rule read_keys_keyed [OF keys])
  have "map (tgt_profile \<circ> ep_target) eps = map (tgt_profile \<circ> pf_target) ?ps"
    using k by (induction rule: list_all2_induct) (auto simp: keyed_def)
  then show "distinct (map (tgt_profile \<circ> ep_target) eps)" using preflight_distinct [OF pre] by simp
  show "list_all (\<lambda>p. validate_profile p = Inr ()) ?ps" using preflight_distinct [OF pre] by blast
qed

text \<open>A send goes to the endpoint of its target, or nowhere.\<close>

lemma system_send_requests:
  assumes "system_send lib tp eps req t sink = (r, calls, hqs)"
  shows "hqs = [] \<or> (\<exists>ep \<in> set eps. \<exists>p. hqs = [http_of ep p] \<and> tgt_profile (ep_target ep) = tgt_profile t \<and> tgt_model (ep_target ep) = tgt_model t \<and>
    tgt_protocol (ep_target ep) = tgt_protocol t \<and> (\<exists>st. make_protocol_request lib (req\<lparr>req_stream := st\<rparr>) t = Inr p))"
proof (cases "find (\<lambda>ep. tgt_profile (ep_target ep) = tgt_profile t) eps")
  case (Some ep)
  then have "ep \<in> set eps" "tgt_profile (ep_target ep) = tgt_profile t" by (auto simp: find_Some_iff)
  moreover have "hqs = [] \<or> (\<exists>p. hqs = [http_of ep p] \<and> tgt_model (ep_target ep) = tgt_model t \<and> tgt_protocol (ep_target ep) = tgt_protocol t \<and>
      (\<exists>st. make_protocol_request lib (req\<lparr>req_stream := st\<rparr>) t = Inr p))"
    using assms Some by (auto simp: system_send_def send_stream_def send_body_def Let_def split: if_splits sum.splits prod.splits)
  ultimately show ?thesis by blast
qed (use assms in \<open>simp add: system_send_def\<close>)

lemma same_profiles: "list_all2 (keyed env secrets) ps eps \<Longrightarrow> map (tgt_profile \<circ> ep_target) eps = map (tgt_profile \<circ> pf_target) ps"
  by (induction rule: list_all2_induct) (auto simp: keyed_def)

lemma distinct_profile: "distinct (map f ps) \<Longrightarrow> p \<in> set ps \<Longrightarrow> q \<in> set ps \<Longrightarrow> f q = f p \<Longrightarrow> q = p"
  by (auto simp: distinct_map inj_on_def)

lemma list_all2_right: "list_all2 R xs ys \<Longrightarrow> y \<in> set ys \<Longrightarrow> \<exists>x \<in> set xs. R x y"
  by (induction rule: list_all2_induct) auto

text \<open>A request that presents the credential of a profile to that profile's own server.\<close>

definition presents :: "(string \<Rightarrow> string option) \<Rightarrow> secret_lookup option \<Rightarrow> 'c resolved_profile \<Rightarrow> http_request \<Rightarrow> bool" where
  "presents env secrets p hq \<longleftrightarrow> (\<exists>key path. resolve_api_key env secrets p = Inr key \<and>
     hq_headers hq = protocol_headers \<lparr>ep_target = pf_target p, ep_base_url = pf_base_url p, ep_api_key = key\<rparr> \<and>
     hq_url hq = join_url (pf_base_url p) path) \<and> (prefix ''http://'' (pf_base_url p) \<or> prefix ''https://'' (pf_base_url p))"

lemma keyed_presents: "keyed env secrets p ep \<Longrightarrow> validate_profile p = Inr () \<Longrightarrow> presents env secrets p (http_of ep pr)"
  using validate_profile_url [of p] by (cases ep) (auto simp: presents_def keyed_def http_of_def)

text \<open>
  C30: a credential goes only where it belongs. In a system built from a route, every send makes at most one HTTP request;
  it presents the key that was resolved for a profile of the route to the base URL of that same profile, an http or https
  URL; that profile is the only one of the route with the name the target asks for, and its model and protocol are the target's.
\<close>

theorem credentials_stay_at_endpoint:
  assumes "make_protocol_system env secrets rr = Inr eps" "system_send lib tp eps req t sink = (r, calls, hqs)"
  shows "hqs = [] \<or> (\<exists>hq p. hqs = [hq] \<and> p \<in> set (rr_primary rr # rr_fallbacks rr) \<and> presents env secrets p hq \<and>
    tgt_profile (pf_target p) = tgt_profile t \<and> tgt_model (pf_target p) = tgt_model t \<and> tgt_protocol (pf_target p) = tgt_protocol t \<and>
    (\<forall>q \<in> set (rr_primary rr # rr_fallbacks rr). tgt_profile (pf_target q) = tgt_profile t \<longrightarrow> q = p))"
proof (cases "hqs = []")
  case False
  let ?ps = "rr_primary rr # rr_fallbacks rr"
  note S = make_protocol_system_keyed [OF assms(1)]
  from False system_send_requests [OF assms(2)] obtain ep pr where ep: "ep \<in> set eps" "hqs = [http_of ep pr]"
    "tgt_profile (ep_target ep) = tgt_profile t" "tgt_model (ep_target ep) = tgt_model t" "tgt_protocol (ep_target ep) = tgt_protocol t"
    by blast
  obtain p where p: "p \<in> set ?ps" "keyed env secrets p ep" using list_all2_right [OF S(1) ep(1)] by blast
  have t: "pf_target p = ep_target ep" using p(2) by (simp add: keyed_def)
  have "presents env secrets p (http_of ep pr)" using S(3) p unfolding list_all_iff by (blast intro: keyed_presents)
  moreover have "\<forall>q \<in> set ?ps. tgt_profile (pf_target q) = tgt_profile t \<longrightarrow> q = p"
    using distinct_profile [OF S(2) [unfolded same_profiles [OF S(1)]] p(1)] t ep(3) by simp
  ultimately have "p \<in> set ?ps \<and> presents env secrets p (http_of ep pr) \<and> tgt_profile (pf_target p) = tgt_profile t \<and>
      tgt_model (pf_target p) = tgt_model t \<and> tgt_protocol (pf_target p) = tgt_protocol t \<and>
      (\<forall>q \<in> set ?ps. tgt_profile (pf_target q) = tgt_profile t \<longrightarrow> q = p)"
    unfolding t ep(3-5) using p(1) by blast
  then show ?thesis unfolding ep(2) by blast
qed simp

definition key_blind :: "transport \<Rightarrow> bool" where
  "key_blind tp \<longleftrightarrow> (\<forall>hq hd. tp_send tp (hq\<lparr>hq_headers := hd\<rparr>) = tp_send tp hq \<and> tp_send_streaming tp (hq\<lparr>hq_headers := hd\<rparr>) = tp_send_streaming tp hq)"

lemma key_blind_http:
  assumes "key_blind tp"
  shows "tp_send tp (http_of (ep\<lparr>ep_api_key := k\<rparr>) p) = tp_send tp (http_of ep p)"
    "tp_send_streaming tp (http_of (ep\<lparr>ep_api_key := k\<rparr>) p) = tp_send_streaming tp (http_of ep p)"
proof -
  have "http_of (ep\<lparr>ep_api_key := k\<rparr>) p = (http_of ep p)\<lparr>hq_headers := protocol_headers (ep\<lparr>ep_api_key := k\<rparr>)\<rparr>"
    by (simp add: http_of_def)
  with assms show "tp_send tp (http_of (ep\<lparr>ep_api_key := k\<rparr>) p) = tp_send tp (http_of ep p)"
    "tp_send_streaming tp (http_of (ep\<lparr>ep_api_key := k\<rparr>) p) = tp_send_streaming tp (http_of ep p)"
    unfolding key_blind_def by metis+
qed

lemma find_map_same: "(\<And>x. P (g x) = P x) \<Longrightarrow> find P (map g xs) = map_option g (find P xs)"
  by (induction xs) auto

definition visible :: "'c send_result \<Rightarrow> 'c response result \<times> sink_call list" where
  "visible out = (case out of (r, calls, hqs) \<Rightarrow> (r, calls))"

lemma send_visible_rekeyed:
  assumes "key_blind tp"
  shows "visible (send_stream lib tp (ep\<lparr>ep_api_key := k\<rparr>) req t sink) = visible (send_stream lib tp ep req t sink)"
    "visible (send_body lib tp (ep\<lparr>ep_api_key := k\<rparr>) req t sink) = visible (send_body lib tp ep req t sink)"
  by (auto simp: visible_def send_stream_def send_body_def key_blind_http [OF assms] Let_def split: sum.splits prod.splits)

text \<open>
  Credentials do not influence what a caller sees. For two systems that differ only in their keys, over a transport whose answers
  do not depend on headers, every send has the same result, error diagnostics included, and makes the same calls on the sink.
\<close>

theorem send_blind_to_keys:
  assumes "key_blind tp"
  shows "visible (system_send lib tp (map (\<lambda>ep. ep\<lparr>ep_api_key := key ep\<rparr>) eps) req t sink) = visible (system_send lib tp eps req t sink)"
proof (cases "find (\<lambda>ep. tgt_profile (ep_target ep) = tgt_profile t) eps")
  case None
  then show ?thesis by (simp add: system_send_def find_map_same)
next
  case (Some ep)
  then show ?thesis by (simp add: system_send_def find_map_same send_visible_rekeyed [OF assms])
qed

section \<open>A concrete system\<close>

definition demo_profile :: "rat resolved_profile" where
  "demo_profile = \<lparr>pf_target = replay_target, pf_base_url = ''https://h'', pf_api_key_env = ''K''\<rparr>"

definition demo_resolution :: "rat route_resolution" where
  "demo_resolution = \<lparr>rr_primary = demo_profile, rr_fallbacks = []\<rparr>"

definition demo_transport :: transport where
  "demo_transport = \<lparr>tp_send = (\<lambda>_. Inr \<lparr>hr_status_code = 200, hr_headers = [], hr_body_json = []\<rparr>), tp_supports_streaming = False,
     tp_send_streaming = (\<lambda>_. ([], Inl err_cancelled))\<rparr>"

lemma demo_system: "make_protocol_system (\<lambda>_. Some ''k'') None demo_resolution =
    Inr [\<lparr>ep_target = replay_target, ep_base_url = ''https://h'', ep_api_key = ''k''\<rparr>]"
  by (simp add: make_protocol_system_def demo_resolution_def demo_profile_def validate_profile_def resolve_api_key_def replay_target_def demo_route_def)

theorem credentials_stay_at_endpoint_witness:
  "\<exists>r calls hq. system_send replay_lib demo_transport [\<lparr>ep_target = replay_target, ep_base_url = ''https://h'', ep_api_key = ''k''\<rparr>]
     exchange_request replay_target True = (r, calls, [hq]) \<and> presents (\<lambda>_. Some ''k'') None demo_profile hq"
proof -
  obtain r calls hqs where s: "system_send replay_lib demo_transport [\<lparr>ep_target = replay_target, ep_base_url = ''https://h'', ep_api_key = ''k''\<rparr>]
      exchange_request replay_target True = (r, calls, hqs)" by (metis prod.exhaust)
  have "hqs \<noteq> []" using s exchange_encodes [of False] by (auto simp: system_send_def demo_transport_def send_body_def Let_def split: sum.splits)
  with credentials_stay_at_endpoint [OF demo_system s] s show ?thesis by (auto simp: demo_resolution_def)
qed

theorem send_blind_to_keys_witness:
  "visible (system_send replay_lib demo_transport [\<lparr>ep_target = replay_target, ep_base_url = ''https://h'', ep_api_key = ''other''\<rparr>] exchange_request replay_target True)
   = visible (system_send replay_lib demo_transport [\<lparr>ep_target = replay_target, ep_base_url = ''https://h'', ep_api_key = ''k''\<rparr>] exchange_request replay_target True)"
proof -
  have "key_blind demo_transport" by (simp add: key_blind_def demo_transport_def)
  from send_blind_to_keys [OF this, of replay_lib "\<lambda>_. ''other''" "[\<lparr>ep_target = replay_target, ep_base_url = ''https://h'', ep_api_key = ''k''\<rparr>]"]
  show ?thesis by simp
qed

end
