(* ===== verification/Async_Channel.thy ===== *)
theory Async_Channel
  imports Core_Error "HOL-Library.Multiset"
begin

text \<open>
  \<^verbatim>\<open>oran/async/channel.hpp\<close>: the bounded channel. Every operation of the source runs under the
  channel's mutex and then runs the completions it collected, so an operation is one step that
  returns the new state and its outputs in order: completions of pending operations, and the
  immediate answers of the try operations. The identifiers are drawn from a 64-bit counter that
  is a natural number here; handlers and executors are not modelled.
\<close>

section \<open>State\<close>

record 'a pending_send =
  ps_id :: nat
  ps_value :: 'a

record 'a channel =
  ch_capacity :: nat
  ch_closed :: bool
  ch_next_id :: nat
  ch_values :: "'a list"
  ch_senders :: "'a pending_send list"
  ch_receivers :: "nat list"

datatype 'a channel_output =
    SendDone "'a pending_send" "unit result"
  | ReceiveDone nat "'a result"
  | TrySent 'a "unit result"
  | TryReceived "'a option result"

definition channel_closed_error :: core_error where
  "channel_closed_error = make_error cancelled_kind ''channel closed''"

definition channel_init :: "nat \<Rightarrow> 'a channel" where
  "channel_init n = \<lparr>ch_capacity = n, ch_closed = False, ch_next_id = 1, ch_values = [], ch_senders = [], ch_receivers = []\<rparr>"

section \<open>Pumping\<close>

text \<open>The inner loop: waiting receivers take buffered values.\<close>

fun match_values :: "nat list \<Rightarrow> 'a list \<Rightarrow> nat list \<times> 'a list \<times> 'a channel_output list" where
  "match_values (r # rs) (v # vs) = (case match_values rs vs of (rs', vs', outs) \<Rightarrow> (rs', vs', ReceiveDone r (Inr v) # outs))"
| "match_values rs vs = (rs, vs, [])"

text \<open>The branch of a closed channel: senders fail, receivers drain the buffer and then fail.\<close>

definition pump_closed :: "'a channel \<Rightarrow> 'a channel \<times> 'a channel_output list" where
  "pump_closed c = (case match_values (ch_receivers c) (ch_values c) of (rs, vs, outs) \<Rightarrow>
     (c\<lparr>ch_senders := [], ch_receivers := [], ch_values := vs\<rparr>,
      map (\<lambda>s. SendDone s (Inl channel_closed_error)) (ch_senders c) @ outs @ map (\<lambda>r. ReceiveDone r (Inl channel_closed_error)) rs))"

function pump_locked :: "'a channel \<Rightarrow> 'a channel \<times> 'a channel_output list" where
  "pump_locked c = (case match_values (ch_receivers c) (ch_values c) of (rs, vs, outs) \<Rightarrow>
     let c1 = c\<lparr>ch_receivers := rs, ch_values := vs\<rparr> in
     if ch_closed c then (case pump_closed c1 of (c2, outs2) \<Rightarrow> (c2, outs @ outs2))
     else (case ch_senders c of
       [] \<Rightarrow> (c1, outs)
     | s # ss \<Rightarrow> (case rs of
         r # rs' \<Rightarrow> (case pump_locked (c1\<lparr>ch_senders := ss, ch_receivers := rs'\<rparr>) of
           (c2, outs2) \<Rightarrow> (c2, outs @ [ReceiveDone r (Inr (ps_value s)), SendDone s (Inr ())] @ outs2))
       | [] \<Rightarrow>
           if length vs < ch_capacity c
           then (case pump_locked (c1\<lparr>ch_senders := ss, ch_values := vs @ [ps_value s]\<rparr>) of
             (c2, outs2) \<Rightarrow> (c2, outs @ [SendDone s (Inr ())] @ outs2))
           else (c1, outs))))"
  by pat_completeness auto
termination by (relation "measure (\<lambda>c. length (ch_senders c))") auto

declare pump_locked.simps [simp del]

section \<open>Operations\<close>

definition async_send :: "'a \<Rightarrow> 'a channel \<Rightarrow> 'a channel \<times> 'a channel_output list" where
  "async_send v c = pump_locked (c\<lparr>ch_next_id := Suc (ch_next_id c), ch_senders := ch_senders c @ [\<lparr>ps_id = ch_next_id c, ps_value = v\<rparr>]\<rparr>)"

definition async_receive :: "'a channel \<Rightarrow> 'a channel \<times> 'a channel_output list" where
  "async_receive c = pump_locked (c\<lparr>ch_next_id := Suc (ch_next_id c), ch_receivers := ch_receivers c @ [ch_next_id c]\<rparr>)"

definition try_send :: "'a \<Rightarrow> 'a channel \<Rightarrow> 'a channel \<times> 'a channel_output list" where
  "try_send v c = (case pump_locked c of (c1, outs) \<Rightarrow>
     if ch_closed c1 then (c1, outs @ [TrySent v (Inl channel_closed_error)])
     else if ch_receivers c1 \<noteq> [] \<and> ch_values c1 = []
     then (c1\<lparr>ch_receivers := tl (ch_receivers c1)\<rparr>, outs @ [ReceiveDone (hd (ch_receivers c1)) (Inr v), TrySent v (Inr ())])
     else if length (ch_values c1) < ch_capacity c1
     then (case pump_locked (c1\<lparr>ch_values := ch_values c1 @ [v]\<rparr>) of (c2, outs2) \<Rightarrow> (c2, outs @ [TrySent v (Inr ())] @ outs2))
     else (c1, outs @ [TrySent v (Inl (make_error mailbox_overflowed_kind ''channel capacity exceeded''))]))"

definition try_receive :: "'a channel \<Rightarrow> 'a channel \<times> 'a channel_output list" where
  "try_receive c = (case pump_locked c of (c1, outs) \<Rightarrow> (
     case ch_values c1 of
       v # vs \<Rightarrow> (case pump_locked (c1\<lparr>ch_values := vs\<rparr>) of (c2, outs2) \<Rightarrow> (c2, outs @ [TryReceived (Inr (Some v))] @ outs2))
     | [] \<Rightarrow> (case ch_senders c1 of
         s # ss \<Rightarrow> (c1\<lparr>ch_senders := ss\<rparr>, outs @ [TryReceived (Inr (Some (ps_value s))), SendDone s (Inr ())])
       | [] \<Rightarrow> (c1, outs @ [TryReceived (if ch_closed c1 then Inl channel_closed_error else Inr None)]))))"

definition close :: "'a channel \<Rightarrow> 'a channel \<times> 'a channel_output list" where
  "close c = pump_locked (c\<lparr>ch_closed := True\<rparr>)"

definition cancel_send :: "nat \<Rightarrow> 'a channel \<Rightarrow> 'a channel \<times> 'a channel_output list" where
  "cancel_send i c = (case find (\<lambda>s. ps_id s = i) (ch_senders c) of
     None \<Rightarrow> (c, [])
   | Some s \<Rightarrow> (c\<lparr>ch_senders := remove1 s (ch_senders c)\<rparr>, [SendDone s (Inl err_cancelled)]))"

definition cancel_receive :: "nat \<Rightarrow> 'a channel \<Rightarrow> 'a channel \<times> 'a channel_output list" where
  "cancel_receive i c = (if i \<in> set (ch_receivers c)
     then (c\<lparr>ch_receivers := remove1 i (ch_receivers c)\<rparr>, [ReceiveDone i (Inl err_cancelled)]) else (c, []))"

datatype 'a channel_event =
    Send 'a | Receive | TrySend 'a | TryReceive | Close | CancelSend nat | CancelReceive nat

fun channel_step :: "'a channel_event \<Rightarrow> 'a channel \<Rightarrow> 'a channel \<times> 'a channel_output list" where
  "channel_step (Send v) c = async_send v c"
| "channel_step Receive c = async_receive c"
| "channel_step (TrySend v) c = try_send v c"
| "channel_step TryReceive c = try_receive c"
| "channel_step Close c = close c"
| "channel_step (CancelSend i) c = cancel_send i c"
| "channel_step (CancelReceive i) c = cancel_receive i c"

fun channel_run :: "'a channel_event list \<Rightarrow> 'a channel \<Rightarrow> 'a channel \<times> 'a channel_output list" where
  "channel_run [] c = (c, [])"
| "channel_run (ev # evs) c = (case channel_step ev c of (c1, outs) \<Rightarrow> case channel_run evs c1 of (c2, outs2) \<Rightarrow> (c2, outs @ outs2))"

section \<open>What the outputs say\<close>

fun accepts :: "'a channel_output \<Rightarrow> 'a list" where
  "accepts (SendDone s (Inr _)) = [ps_value s]"
| "accepts (TrySent v (Inr _)) = [v]"
| "accepts _ = []"

fun delivers :: "'a channel_output \<Rightarrow> 'a list" where
  "delivers (ReceiveDone r (Inr v)) = [v]"
| "delivers (TryReceived (Inr (Some v))) = [v]"
| "delivers _ = []"

fun completes :: "'a channel_output \<Rightarrow> nat list" where
  "completes (SendDone s r) = [ps_id s]"
| "completes (ReceiveDone i r) = [i]"
| "completes _ = []"

definition accepted :: "'a channel_output list \<Rightarrow> 'a list" where "accepted outs = concat (map accepts outs)"
definition delivered :: "'a channel_output list \<Rightarrow> 'a list" where "delivered outs = concat (map delivers outs)"
definition completed :: "'a channel_output list \<Rightarrow> nat list" where "completed outs = concat (map completes outs)"

lemmas output_defs = accepted_def delivered_def completed_def

lemma outputs_simps [simp]:
  "accepted [] = []" "accepted (x # xs) = accepts x @ accepted xs" "accepted (xs @ ys) = accepted xs @ accepted ys"
  "delivered [] = []" "delivered (x # xs) = delivers x @ delivered xs" "delivered (xs @ ys) = delivered xs @ delivered ys"
  "completed [] = []" "completed (x # xs) = completes x @ completed xs" "completed (xs @ ys) = completed xs @ completed ys"
  by (simp_all add: output_defs)

definition pending :: "'a channel \<Rightarrow> nat list" where
  "pending c = map ps_id (ch_senders c) @ ch_receivers c"

text \<open>The states between operations: within capacity, and nobody waits for what is there.\<close>

definition quiet :: "'a channel \<Rightarrow> bool" where
  "quiet c \<longleftrightarrow> length (ch_values c) \<le> ch_capacity c \<and> (ch_receivers c \<noteq> [] \<longrightarrow> ch_values c = [] \<and> ch_senders c = []) \<and>
     (ch_senders c \<noteq> [] \<longrightarrow> length (ch_values c) = ch_capacity c) \<and> (ch_closed c \<longrightarrow> pending c = [])"

text \<open>What every step conserves: the order of values and the identifiers of operations.\<close>

definition conserved :: "'a channel \<Rightarrow> 'a channel \<Rightarrow> 'a channel_output list \<Rightarrow> bool" where
  "conserved c c' outs \<longleftrightarrow> ch_values c @ accepted outs = delivered outs @ ch_values c' \<and> ch_capacity c' = ch_capacity c \<and>
     (ch_closed c \<longrightarrow> ch_closed c') \<and> ch_next_id c \<le> ch_next_id c' \<and>
     mset (pending c) + mset [ch_next_id c..<ch_next_id c'] = mset (pending c') + mset (completed outs)"

lemma match_values_spec:
  "match_values rs vs = (rs', vs', outs) \<Longrightarrow> vs = delivered outs @ vs' \<and> accepted outs = [] \<and> (rs' = [] \<or> vs' = []) \<and> rs = completed outs @ rs'"
  by (induction rs vs arbitrary: rs' vs' outs rule: match_values.induct) (auto split: prod.splits)

lemma failed_senders [simp]: "accepted (map (\<lambda>s. SendDone s (Inl e)) ss) = []" "delivered (map (\<lambda>s. SendDone s r) ss) = []"
    "completed (map (\<lambda>s. SendDone s r) ss) = map ps_id ss"
  by (induction ss) auto

lemma failed_receivers [simp]: "accepted (map (\<lambda>i. ReceiveDone i r) rs) = []" "delivered (map (\<lambda>i. ReceiveDone i (Inl e)) rs) = []"
    "completed (map (\<lambda>i. ReceiveDone i r) rs) = rs"
  by (induction rs) auto

lemma pump_locked_spec:
  "pump_locked c = (c', outs) \<Longrightarrow> length (ch_values c) \<le> ch_capacity c \<Longrightarrow>
    quiet c' \<and> conserved c c' outs \<and> ch_next_id c' = ch_next_id c \<and> ch_closed c' = ch_closed c"
proof (induction c arbitrary: c' outs rule: pump_locked.induct)
  case (1 c)
  obtain rs vs outs1 where m: "match_values (ch_receivers c) (ch_values c) = (rs, vs, outs1)" by (metis prod.exhaust)
  note M = match_values_spec [OF m]
  define c1 where "c1 = c\<lparr>ch_receivers := rs, ch_values := vs\<rparr>"
  have len: "length vs \<le> ch_capacity c" using M 1(4) by (metis length_append le_add2 le_trans)
  note unfold = 1(3) [unfolded pump_locked.simps [of c] m prod.case, folded c1_def]
  show ?case
  proof (cases "ch_closed c")
    case True
    then obtain rs2 vs2 outs2 where m2: "match_values rs vs = (rs2, vs2, outs2)" by (metis prod.exhaust)
    show ?thesis using unfold True M match_values_spec [OF m2] len m2
      by (auto simp: Let_def c1_def pump_closed_def quiet_def conserved_def pending_def)
  next
    case opened: False
    show ?thesis
    proof (cases "ch_senders c")
      case Nil
      then show ?thesis using unfold opened M len by (auto simp: Let_def c1_def quiet_def conserved_def pending_def)
    next
      case (Cons s ss)
      show ?thesis
      proof (cases rs)
        case (Cons r rs')
        obtain c2 outs2 where r: "pump_locked (c1\<lparr>ch_senders := ss, ch_receivers := rs'\<rparr>) = (c2, outs2)" by fastforce
        show ?thesis using unfold opened \<open>ch_senders c = s # ss\<close> Cons r M len
            1(2) [OF m [symmetric] refl c1_def opened \<open>ch_senders c = s # ss\<close> Cons r]
          by (auto simp: Let_def c1_def conserved_def pending_def)
      next
        case Nil
        show ?thesis
        proof (cases "length vs < ch_capacity c")
          case True
          obtain c2 outs2 where r: "pump_locked (c1\<lparr>ch_senders := ss, ch_values := vs @ [ps_value s]\<rparr>) = (c2, outs2)" by fastforce
          show ?thesis using unfold opened \<open>ch_senders c = s # ss\<close> Nil True r M len
              1(1) [OF m [symmetric] refl c1_def opened \<open>ch_senders c = s # ss\<close> Nil True r]
            by (auto simp: Let_def c1_def conserved_def pending_def)
        next
          case False
          then show ?thesis using unfold opened \<open>ch_senders c = s # ss\<close> Nil M len
            by (auto simp: Let_def c1_def quiet_def conserved_def pending_def)
        qed
      qed
    qed
  qed
qed

lemma conserved_refl: "conserved c c []" by (simp add: conserved_def)

lemma conserved_trans:
  assumes "conserved c c1 outs1" "conserved c1 c2 outs2"
  shows "conserved c c2 (outs1 @ outs2)"
proof -
  have le: "ch_next_id c \<le> ch_next_id c1" "ch_next_id c1 \<le> ch_next_id c2" using assms by (simp_all add: conserved_def)
  then have "mset [ch_next_id c..<ch_next_id c2] = mset [ch_next_id c..<ch_next_id c1] + mset [ch_next_id c1..<ch_next_id c2]"
    by (metis mset_append upt_add_eq_append le_add_diff_inverse)
  moreover have "ch_values c @ accepted (outs1 @ outs2) = delivered (outs1 @ outs2) @ ch_values c2"
    using assms unfolding conserved_def by (metis append.assoc outputs_simps(3,6))
  moreover have "a + (u + w) = (p + (k + m) :: nat multiset)" if "a + u = b + k" "b + w = p + m" for a b u w k m p
  proof -
    have "a + (u + w) = (b + k) + w" using that(1) by (simp add: add.assoc [symmetric])
    also have "\<dots> = (b + w) + k" by (simp add: ac_simps)
    finally show ?thesis using that(2) by (simp add: ac_simps)
  qed
  note ids = this
  have "mset (pending c) + mset [ch_next_id c..<ch_next_id c2] = mset (pending c2) + mset (completed (outs1 @ outs2))"
    using assms calculation(1) ids [of "mset (pending c)" "mset [ch_next_id c..<ch_next_id c1]" "mset (pending c1)" "mset (completed outs1)"
        "mset [ch_next_id c1..<ch_next_id c2]" "mset (pending c2)" "mset (completed outs2)"]
    unfolding conserved_def by (simp only: outputs_simps mset_append)
  ultimately show ?thesis using assms le unfolding conserved_def by simp
qed

lemma pump_step:
  assumes "quiet c" "pump_locked c = (c1, outs)"
  shows "quiet c1" "conserved c c1 outs"
  using pump_locked_spec [OF assms(2)] assms(1) by (simp_all add: quiet_def)

lemma try_send_spec:
  assumes "quiet c" "try_send v c = (c', outs)"
  shows "quiet c' \<and> conserved c c' outs"
proof -
  obtain c1 outs1 where p: "pump_locked c = (c1, outs1)" by fastforce
  note P = pump_step [OF assms(1) p]
  have "\<exists>outs2. outs = outs1 @ outs2 \<and> quiet c' \<and> conserved c1 c' outs2"
  proof (cases "\<not> ch_closed c1 \<and> (ch_receivers c1 = [] \<or> ch_values c1 \<noteq> []) \<and> length (ch_values c1) < ch_capacity c1")
    case True
    obtain c2 outs2 where r: "pump_locked (c1\<lparr>ch_values := ch_values c1 @ [v]\<rparr>) = (c2, outs2)" by fastforce
    have "conserved c1 c2 ([TrySent v (Inr ())] @ outs2)" "quiet c2" using pump_locked_spec [OF r] True
      by (auto simp: conserved_def pending_def)
    then show ?thesis using assms(2) p r True by (auto simp: try_send_def)
  next
    case False
    then show ?thesis using assms(2) p P(1)
      by (auto simp: try_send_def quiet_def conserved_def pending_def neq_Nil_conv split: if_splits)
  qed
  then show ?thesis using conserved_trans [OF P(2)] by blast
qed

lemma try_receive_spec:
  assumes "quiet c" "try_receive c = (c', outs)"
  shows "quiet c' \<and> conserved c c' outs"
proof -
  obtain c1 outs1 where p: "pump_locked c = (c1, outs1)" by fastforce
  note P = pump_step [OF assms(1) p]
  have "\<exists>outs2. outs = outs1 @ outs2 \<and> quiet c' \<and> conserved c1 c' outs2"
  proof (cases "ch_values c1")
    case (Cons v vs)
    obtain c2 outs2 where r: "pump_locked (c1\<lparr>ch_values := vs\<rparr>) = (c2, outs2)" by fastforce
    have "conserved c1 c2 ([TryReceived (Inr (Some v))] @ outs2)" "quiet c2" using pump_locked_spec [OF r] P(1) Cons
      by (auto simp: conserved_def pending_def quiet_def)
    then show ?thesis using assms(2) p r Cons by (auto simp: try_receive_def)
  next
    case Nil
    then show ?thesis using assms(2) p P(1)
      by (auto simp: try_receive_def quiet_def conserved_def pending_def split: list.splits)
  qed
  then show ?thesis using conserved_trans [OF P(2)] by blast
qed

lemma cancel_spec:
  assumes "quiet c"
  shows "cancel_send i c = (c', outs) \<Longrightarrow> quiet c' \<and> conserved c c' outs" "cancel_receive i c = (c', outs) \<Longrightarrow> quiet c' \<and> conserved c c' outs"
proof -
  show "quiet c' \<and> conserved c c' outs" if "cancel_send i c = (c', outs)"
  proof (cases "find (\<lambda>s. ps_id s = i) (ch_senders c)")
    case (Some s)
    then have "s \<in> set (ch_senders c)" by (auto simp: find_Some_iff)
    moreover from this have "image_mset ps_id (mset (ch_senders c)) = add_mset (ps_id s) (image_mset ps_id (mset (ch_senders c) - {#s#}))"
      by (metis image_mset_add_mset insert_DiffM set_mset_mset)
    ultimately show ?thesis using assms that Some by (auto simp: cancel_send_def quiet_def conserved_def pending_def)
  qed (use assms that in \<open>simp add: cancel_send_def conserved_refl\<close>)
  show "cancel_receive i c = (c', outs) \<Longrightarrow> quiet c' \<and> conserved c c' outs"
    using assms by (auto simp: cancel_receive_def quiet_def conserved_def pending_def split: if_splits)
qed

lemma channel_step_spec:
  assumes "quiet c" "channel_step ev c = (c', outs)"
  shows "quiet c' \<and> conserved c c' outs"
proof (cases ev)
  case (Send v)
  then show ?thesis using assms pump_locked_spec [of "c\<lparr>ch_next_id := Suc (ch_next_id c), ch_senders := ch_senders c @ [\<lparr>ps_id = ch_next_id c, ps_value = v\<rparr>]\<rparr>" c' outs]
    by (auto simp: async_send_def quiet_def conserved_def pending_def)
next
  case Receive
  then show ?thesis using assms pump_locked_spec [of "c\<lparr>ch_next_id := Suc (ch_next_id c), ch_receivers := ch_receivers c @ [ch_next_id c]\<rparr>" c' outs]
    by (auto simp: async_receive_def quiet_def conserved_def pending_def)
next
  case Close
  then show ?thesis using assms pump_locked_spec [of "c\<lparr>ch_closed := True\<rparr>" c' outs]
    by (auto simp: close_def quiet_def conserved_def pending_def)
next
  case (TrySend v)
  then show ?thesis using assms(2) by (intro try_send_spec [OF assms(1), of v]) simp
next
  case TryReceive
  then show ?thesis using assms(2) by (intro try_receive_spec [OF assms(1)]) simp
next
  case (CancelSend i)
  then show ?thesis using assms(2) by (intro cancel_spec(1) [OF assms(1), of i]) simp
next
  case (CancelReceive i)
  then show ?thesis using assms(2) by (intro cancel_spec(2) [OF assms(1), of i]) simp
qed

lemma channel_run_spec: "quiet c \<Longrightarrow> channel_run evs c = (c', outs) \<Longrightarrow> quiet c' \<and> conserved c c' outs"
proof (induction evs arbitrary: c outs)
  case (Cons ev evs)
  obtain c1 outs1 where s: "channel_step ev c = (c1, outs1)" by fastforce
  obtain c2 outs2 where r: "channel_run evs c1 = (c2, outs2)" by fastforce
  show ?case using Cons s r channel_step_spec [OF Cons.prems(1) s] conserved_trans by fastforce
qed (simp add: conserved_refl)

section \<open>Properties\<close>

text \<open>
  C31: a channel is a bounded queue. After any sequence of sends, receives, try operations, cancellations
  and a close, the values handed out followed by the values still buffered are the values whose send succeeded, in the order
  in which the sends succeeded, so nothing is lost, duplicated or reordered; the buffer is within the capacity; every operation ever started
  is either still waiting or was completed, and completed exactly once; and nobody waits for what is there.
\<close>

theorem channel_is_bounded_fifo:
  assumes "channel_run evs (channel_init n) = (c, outs)"
  shows "accepted outs = delivered outs @ ch_values c \<and> length (ch_values c) \<le> n \<and>
    mset (completed outs) + mset (pending c) = mset [1..<ch_next_id c] \<and>
    (ch_receivers c \<noteq> [] \<longrightarrow> ch_values c = [] \<and> ch_senders c = []) \<and> (ch_senders c \<noteq> [] \<longrightarrow> length (ch_values c) = n) \<and>
    (ch_closed c \<longrightarrow> pending c = [])"
proof -
  have "quiet c \<and> conserved (channel_init n) c outs"
    by (rule channel_run_spec [OF _ assms]) (simp add: quiet_def channel_init_def)
  then show ?thesis by (auto simp: quiet_def conserved_def channel_init_def pending_def ac_simps)
qed

theorem channel_is_bounded_fifo_witness:
  "\<exists>c outs. channel_run [Send (1 :: int), Send 2, Receive, TrySend 3] (channel_init 1) = (c, outs) \<and> accepted outs = delivered outs @ ch_values c \<and>
     delivered outs = [1] \<and> ch_values c = [2]"
proof -
  define evs :: "int channel_event list" where "evs = [Send 1, Send 2, Receive, TrySend 3]"
  have e: "delivered (snd (channel_run evs (channel_init 1))) = [1]" "ch_values (fst (channel_run evs (channel_init 1))) = [2]"
    by (simp_all add: evs_def channel_init_def async_send_def async_receive_def try_send_def pump_locked.simps)
  obtain c outs where r: "channel_run evs (channel_init 1) = (c, outs)" by fastforce
  show ?thesis using channel_is_bounded_fifo [OF r] r e unfolding evs_def by auto
qed

end
