(* ===== verification/Async_TaskGroup.thy ===== *)
theory Async_TaskGroup
  imports Async_Channel Oran_Prelude
begin

text \<open>
  \<^verbatim>\<open>oran-async/task_group.cpp\<close>: bounded ownership of named child tasks. The group is a machine over the
  critical sections of the source. A child that ends first records its outcome and then, in a
  second step, signals the completion channel; a join first looks at the number of active children
  and then, in a second step, receives: the machine interleaves these halves in any order, over
  the channel of \<open>Async_Channel\<close>. Groups that were moved from are not modelled.
\<close>

section \<open>State\<close>

record group_options =
  go_max_tasks :: nat
  go_max_completed :: nat

datatype outcome_status = Succeeded | Failed | Cancelled | Lagging

record task_outcome =
  to_name :: string
  to_status :: outcome_status
  to_error :: "core_error option"

record group_report =
  gr_tasks :: "task_outcome list"
  gr_dropped :: nat

datatype join_phase =
    NotJoining
  | JoinChecking
  | JoinReceiving
  | JoinParked nat
  | JoinReturned "group_report result"

record task_group =
  tg_options :: group_options
  tg_active :: "(nat \<times> string) list"
  tg_completed :: "(nat \<times> task_outcome) list"
  tg_next_sequence :: nat
  tg_completed_dropped :: nat
  tg_closed :: bool
  tg_stop_requested :: bool
  tg_join_started :: bool
  tg_completion :: "unit channel"
  tg_unsignalled :: nat
  tg_cancelled :: "nat list"
  tg_join :: join_phase
  tg_shielded :: bool
  tg_drained :: nat

text \<open>How the coroutine of a child ended.\<close>

datatype child_end =
    ChildReturned "unit result"
  | ChildAborted
  | ChildThrewAsio string string
  | ChildThrew string

section \<open>Outcomes\<close>

definition failed_outcome :: "string \<Rightarrow> core_error \<Rightarrow> task_outcome" where
  "failed_outcome name e = \<lparr>to_name = name, to_status = (if err_kind e = cancelled_kind then Cancelled else Failed), to_error = Some e\<rparr>"

definition child_outcome :: "string \<Rightarrow> child_end \<Rightarrow> task_outcome" where
  "child_outcome name ended = (case ended of
     ChildReturned (Inr _) \<Rightarrow> \<lparr>to_name = name, to_status = Succeeded, to_error = None\<rparr>
   | ChildReturned (Inl e) \<Rightarrow> failed_outcome name e
   | ChildAborted \<Rightarrow> failed_outcome name err_cancelled
   | ChildThrewAsio what msg \<Rightarrow> failed_outcome name (with_ctx ''asio_error'' msg (with_ctx ''reason'' what (err_internal ''task group child threw asio error'')))
   | ChildThrew what \<Rightarrow> failed_outcome name (with_ctx ''reason'' what (err_internal ''task group child threw'')))"

definition count_status :: "outcome_status \<Rightarrow> group_report \<Rightarrow> nat" where
  "count_status s r = length (filter (\<lambda>t. to_status t = s) (gr_tasks r))"

definition all_succeeded :: "group_report \<Rightarrow> bool" where
  "all_succeeded r \<longleftrightarrow> gr_dropped r = 0 \<and> count_status Failed r = 0 \<and> count_status Cancelled r = 0 \<and> count_status Lagging r = 0"

section \<open>Operations\<close>

definition task_group_create :: "group_options \<Rightarrow> task_group result" where
  "task_group_create o1 =
     (if go_max_tasks o1 = 0 then Inl (err_invalid_argument ''task group max_tasks must be positive'')
      else if go_max_completed o1 = 0 then Inl (err_invalid_argument ''task group max_completed must be positive'')
      else Inr \<lparr>tg_options = o1, tg_active = [], tg_completed = [], tg_next_sequence = 0, tg_completed_dropped = 0, tg_closed = False,
        tg_stop_requested = False, tg_join_started = False, tg_completion = channel_init 1, tg_unsignalled = 0, tg_cancelled = [],
        tg_join = NotJoining, tg_shielded = False, tg_drained = 0\<rparr>)"

text \<open>The first half of \<^verbatim>\<open>finish\<close>: the record moves from the active set to the bounded queue.\<close>

definition finish_record :: "nat \<Rightarrow> task_outcome \<Rightarrow> task_group \<Rightarrow> task_group" where
  "finish_record i out g =
     (if i \<notin> fst ` set (tg_active g) then g
      else let full = (length (tg_completed g) = go_max_completed (tg_options g)) in
        g\<lparr>tg_active := filter (\<lambda>a. fst a \<noteq> i) (tg_active g),
          tg_completed := (if full then tl (tg_completed g) else tg_completed g) @ [(i, out)],
          tg_completed_dropped := tg_completed_dropped g + (if full then 1 else 0),
          tg_unsignalled := tg_unsignalled g + 1\<rparr>)"

definition spawn :: "string \<Rightarrow> bool \<Rightarrow> string option \<Rightarrow> task_group \<Rightarrow> unit result \<times> task_group" where
  "spawn name has_task spawn_error g =
     (if name = [] then (Inl (err_invalid_argument ''task group child name must be non-empty''), g)
      else if \<not> has_task then (Inl (err_invalid_argument ''task group child task is empty''), g)
      else if tg_closed g then (Inl (make_error conflict_kind ''task group is closed''), g)
      else if go_max_tasks (tg_options g) \<le> length (tg_active g)
      then (Inl (with_ctx ''max_tasks'' (show_nat (go_max_tasks (tg_options g))) (make_error mailbox_overflowed_kind ''task group capacity reached'')), g)
      else let i = tg_next_sequence g; g1 = g\<lparr>tg_next_sequence := i + 1, tg_active := tg_active g @ [(i, name)]\<rparr> in
        (Inr (), case spawn_error of
           None \<Rightarrow> g1
         | Some reason \<Rightarrow> finish_record i (failed_outcome name (with_ctx ''reason'' reason (err_internal ''task group failed to spawn child''))) g1))"

definition close_group :: "task_group \<Rightarrow> task_group" where
  "close_group g = g\<lparr>tg_closed := True\<rparr>"

definition request_stop :: "task_group \<Rightarrow> task_group" where
  "request_stop g = (let g1 = close_group g in
     if tg_stop_requested g then g1 else g1\<lparr>tg_stop_requested := True, tg_cancelled := map fst (tg_active g)\<rparr>)"

definition drain_completed :: "task_group \<Rightarrow> group_report \<times> task_group" where
  "drain_completed g = (\<lparr>gr_tasks = map snd (sort_key fst (tg_completed g)), gr_dropped = tg_completed_dropped g\<rparr>,
     g\<lparr>tg_completed := [], tg_completed_dropped := 0, tg_drained := tg_drained g + length (tg_completed g) + tg_completed_dropped g\<rparr>)"

definition lagging_row :: "nat \<times> string \<Rightarrow> nat \<times> task_outcome" where
  "lagging_row a = (fst a, \<lparr>to_name = snd a, to_status = Lagging, to_error = None\<rparr>)"

fun merge_rows :: "(nat \<times> task_outcome) list \<Rightarrow> (nat \<times> string) list \<Rightarrow> (nat \<times> task_outcome) list" where
  "merge_rows (c # cs) (a # as) = (if fst c < fst a then c # merge_rows cs (a # as) else lagging_row a # merge_rows (c # cs) as)"
| "merge_rows cs [] = cs"
| "merge_rows [] as = map lagging_row as"

definition timed_join_report :: "task_group \<Rightarrow> group_report \<times> task_group" where
  "timed_join_report g =
     (\<lparr>gr_tasks = map snd (merge_rows (sort_key fst (tg_completed g)) (sort_key fst (tg_active g))), gr_dropped = tg_completed_dropped g\<rparr>,
      snd (drain_completed g))"

text \<open>The second half of \<^verbatim>\<open>finish\<close>; a parked join is woken by the value it receives.\<close>

definition wake_join :: "unit channel_output list \<Rightarrow> join_phase \<Rightarrow> join_phase" where
  "wake_join outs ph = (case ph of
     JoinParked i \<Rightarrow> if ReceiveDone i (Inr ()) \<in> set outs then JoinChecking else ph
   | _ \<Rightarrow> ph)"

definition finish_signal :: "task_group \<Rightarrow> task_group" where
  "finish_signal g = (if tg_unsignalled g = 0 then g
     else case try_send () (tg_completion g) of (c, outs) \<Rightarrow>
       g\<lparr>tg_unsignalled := tg_unsignalled g - 1, tg_completion := c, tg_join := wake_join outs (tg_join g)\<rparr>)"

definition begin_join :: "task_group \<Rightarrow> unit result \<times> task_group" where
  "begin_join g = (let g1 = close_group g in
     if tg_join_started g then (Inl (make_error conflict_kind ''task group join already started''), g1)
     else (Inr (), g1\<lparr>tg_join_started := True, tg_join := JoinChecking\<rparr>))"

text \<open>
  \<^verbatim>\<open>join\<close> and \<^verbatim>\<open>join_with_timeout\<close> between two suspensions: the test of the loop, the start of a receive, a
  cancellation of the joining coroutine, which stops the children and shields the rest, and the
  deadline of the timed variant.
\<close>

definition join_check :: "task_group \<Rightarrow> task_group" where
  "join_check g = (if tg_join g \<noteq> JoinChecking then g
     else if tg_active g \<noteq> [] then g\<lparr>tg_join := JoinReceiving\<rparr>
     else (case drain_completed g of (r, g1) \<Rightarrow> g1\<lparr>tg_join := JoinReturned (Inr r)\<rparr>))"

definition join_receive :: "task_group \<Rightarrow> task_group" where
  "join_receive g = (if tg_join g \<noteq> JoinReceiving then g
     else let i = ch_next_id (tg_completion g) in
       case async_receive (tg_completion g) of (c, outs) \<Rightarrow>
         g\<lparr>tg_completion := c, tg_join := wake_join outs (JoinParked i)\<rparr>)"

definition join_cancelled :: "task_group \<Rightarrow> task_group" where
  "join_cancelled g = (if tg_shielded g then g
     else case tg_join g of
       JoinReceiving \<Rightarrow> (request_stop g)\<lparr>tg_join := JoinChecking, tg_shielded := True\<rparr>
     | JoinParked i \<Rightarrow> (case cancel_receive i (tg_completion g) of (c, outs) \<Rightarrow>
         (request_stop g)\<lparr>tg_completion := c, tg_join := JoinChecking, tg_shielded := True\<rparr>)
     | _ \<Rightarrow> g)"

definition expire_join :: "task_group \<Rightarrow> task_group" where
  "expire_join g = (if tg_active g \<noteq> []
     then (case timed_join_report (request_stop g) of (r, g1) \<Rightarrow> g1\<lparr>tg_join := JoinReturned (Inr r)\<rparr>)
     else (case drain_completed g of (r, g1) \<Rightarrow> g1\<lparr>tg_join := JoinReturned (Inr r)\<rparr>))"

definition join_deadline :: "task_group \<Rightarrow> task_group" where
  "join_deadline g = (case tg_join g of
     JoinChecking \<Rightarrow> expire_join g
   | JoinReceiving \<Rightarrow> expire_join g
   | JoinParked i \<Rightarrow> (case cancel_receive i (tg_completion g) of (c, outs) \<Rightarrow> expire_join (g\<lparr>tg_completion := c\<rparr>))
   | _ \<Rightarrow> g)"

datatype group_event =
    Spawn string bool "string option"
  | ChildEnds nat child_end
  | ChildFrameFails nat
  | Signal
  | Drain
  | CloseGroup
  | RequestStop
  | BeginJoin
  | JoinCheck
  | JoinReceive
  | JoinCancel
  | JoinDeadline

definition child_name :: "nat \<Rightarrow> task_group \<Rightarrow> string" where
  "child_name i g = (case map_of (tg_active g) i of Some n \<Rightarrow> n | None \<Rightarrow> [])"

fun group_step :: "group_event \<Rightarrow> task_group \<Rightarrow> task_group" where
  "group_step (Spawn name has_task spawn_error) g = snd (spawn name has_task spawn_error g)"
| "group_step (ChildEnds i ended) g = finish_record i (child_outcome (child_name i g) ended) g"
| "group_step (ChildFrameFails i) g = finish_record i (failed_outcome (child_name i g) (err_internal ''task group child frame terminated'')) g"
| "group_step Signal g = finish_signal g"
| "group_step Drain g = snd (drain_completed g)"
| "group_step CloseGroup g = close_group g"
| "group_step RequestStop g = request_stop g"
| "group_step BeginJoin g = snd (begin_join g)"
| "group_step JoinCheck g = join_check g"
| "group_step JoinReceive g = join_receive g"
| "group_step JoinCancel g = join_cancelled g"
| "group_step JoinDeadline g = join_deadline g"

section \<open>The completion channel\<close>

lemma match_values_idle: "rs = [] \<or> vs = [] \<Longrightarrow> match_values rs vs = (rs, vs, [])"
  by (cases rs; cases vs) auto

text \<open>The channel as the group uses it: room for one token, at most one receiver, never a waiting sender.\<close>

definition bell :: "join_phase \<Rightarrow> unit channel \<Rightarrow> bool" where
  "bell ph c \<longleftrightarrow> ch_capacity c = 1 \<and> \<not> ch_closed c \<and> ch_senders c = [] \<and> ch_values c \<in> {[], [()]} \<and>
     ch_receivers c = (case ph of JoinParked i \<Rightarrow> [i] | _ \<Rightarrow> []) \<and> (ch_receivers c = [] \<or> ch_values c = [])"

lemma pump_idle: "\<not> ch_closed c \<Longrightarrow> ch_senders c = [] \<Longrightarrow> ch_receivers c = [] \<or> ch_values c = [] \<Longrightarrow> pump_locked c = (c, [])"
  by (subst pump_locked.simps) (simp add: match_values_idle Let_def)

lemma bell_signal:
  assumes "bell ph c" "try_send () c = (c', outs)"
  shows "bell (wake_join outs ph) c'" "(case wake_join outs ph of JoinParked i \<Rightarrow> False | JoinReceiving \<Rightarrow> ch_values c' \<noteq> [] | _ \<Rightarrow> True)"
    "wake_join outs ph = (case ph of JoinParked i \<Rightarrow> JoinChecking | _ \<Rightarrow> ph)"
proof -
  have p: "pump_locked c = (c, [])" using assms(1) by (intro pump_idle) (auto simp: bell_def)
  have q: "pump_locked (c\<lparr>ch_values := [()]\<rparr>) = (c\<lparr>ch_values := [()]\<rparr>, [])" if "ch_receivers c = []"
    using assms(1) that by (intro pump_idle) (auto simp: bell_def)
  show "bell (wake_join outs ph) c'" "(case wake_join outs ph of JoinParked i \<Rightarrow> False | JoinReceiving \<Rightarrow> ch_values c' \<noteq> [] | _ \<Rightarrow> True)"
    "wake_join outs ph = (case ph of JoinParked i \<Rightarrow> JoinChecking | _ \<Rightarrow> ph)"
    using assms q by (auto simp: try_send_def p bell_def wake_join_def split: join_phase.splits if_splits)
qed

lemma bell_receive:
  assumes "bell JoinReceiving c" "async_receive c = (c', outs)"
  shows "if ch_values c = [] then wake_join outs (JoinParked (ch_next_id c)) = JoinParked (ch_next_id c) \<and> bell (JoinParked (ch_next_id c)) c'
    else wake_join outs (JoinParked (ch_next_id c)) = JoinChecking \<and> bell JoinChecking c'"
  using assms by (auto simp: async_receive_def bell_def wake_join_def pump_locked.simps Let_def)

lemma bell_cancel: "bell (JoinParked i) c \<Longrightarrow> cancel_receive i c = (c', outs) \<Longrightarrow> bell JoinChecking c'"
  by (auto simp: cancel_receive_def bell_def)

lemma bell_unparked: "bell JoinChecking c \<Longrightarrow> \<forall>i. ph \<noteq> JoinParked i \<Longrightarrow> bell ph c"
  by (cases ph) (auto simp: bell_def)

section \<open>The invariant\<close>

definition counted :: "task_group \<Rightarrow> bool" where
  "counted g \<longleftrightarrow> distinct (map fst (tg_active g) @ map fst (tg_completed g)) \<and>
     (\<forall>a \<in> set (tg_active g). fst a < tg_next_sequence g) \<and> (\<forall>a \<in> set (tg_completed g). fst a < tg_next_sequence g) \<and>
     0 < go_max_completed (tg_options g) \<and>
     length (tg_active g) \<le> go_max_tasks (tg_options g) \<and> length (tg_completed g) \<le> go_max_completed (tg_options g) \<and>
     tg_next_sequence g = length (tg_active g) + length (tg_completed g) + tg_completed_dropped g + tg_drained g \<and>
     list_all (\<lambda>(i, t). to_status t \<noteq> Lagging) (tg_completed g)"

definition awake :: "task_group \<Rightarrow> bool" where
  "awake g \<longleftrightarrow> (tg_join g \<noteq> NotJoining \<longrightarrow> tg_closed g \<and> tg_join_started g) \<and> (case tg_join g of
     JoinReceiving \<Rightarrow> tg_active g \<noteq> [] \<or> 0 < tg_unsignalled g \<or> ch_values (tg_completion g) \<noteq> []
   | JoinParked i \<Rightarrow> tg_active g \<noteq> [] \<or> 0 < tg_unsignalled g
   | JoinReturned (Inr r) \<Rightarrow> count_status Lagging r = 0 \<longrightarrow> tg_active g = []
   | _ \<Rightarrow> True)"

definition group_inv :: "task_group \<Rightarrow> bool" where
  "group_inv g \<longleftrightarrow> counted g \<and> bell (tg_join g) (tg_completion g) \<and> awake g"

lemma filter_removes_one:
  "distinct (map fst xs) \<Longrightarrow> i \<in> fst ` set xs \<Longrightarrow> Suc (length (filter (\<lambda>a. fst a \<noteq> i) xs)) = length (xs :: (nat \<times> 'b) list)"
proof (induction xs)
  case (Cons x xs)
  show ?case
  proof (cases "fst x = i")
    case True
    then have "filter (\<lambda>a. fst a \<noteq> i) xs = xs" using Cons.prems(1) by (intro filter_True) (auto simp: image_iff)
    then show ?thesis using True by simp
  qed (use Cons in \<open>auto\<close>)
qed simp

lemma child_outcome_status: "to_status (child_outcome n ended) \<noteq> Lagging" "to_status (failed_outcome n e) \<noteq> Lagging"
  by (auto simp: child_outcome_def failed_outcome_def split: child_end.splits sum.splits)

lemma finish_record_counted:
  assumes "counted g" "to_status out \<noteq> Lagging"
  shows "counted (finish_record i out g)"
proof (cases "i \<in> fst ` set (tg_active g)")
  case True
  have d: "distinct (map fst (tg_active g))" using assms(1) by (simp add: counted_def)
  have f: "distinct (map fst (filter (\<lambda>a. fst a \<noteq> i) (tg_active g)))" using d by (rule distinct_map_filter)
  have s: "fst ` set (filter (\<lambda>a. fst a \<noteq> i) (tg_active g)) = fst ` set (tg_active g) - {i}" by force
  show ?thesis
  proof (cases "length (tg_completed g) = go_max_completed (tg_options g)")
    case full: True
    then obtain c cs where cs: "tg_completed g = c # cs" using assms(1) by (cases "tg_completed g") (auto simp: counted_def)
    show ?thesis using assms True full filter_removes_one [OF d True] f s unfolding counted_def finish_record_def
      by (auto simp: cs Let_def)
  next
    case False
    then show ?thesis using assms True filter_removes_one [OF d True] f s unfolding counted_def finish_record_def
      by (auto simp: Let_def)
  qed
qed (use assms in \<open>simp add: finish_record_def\<close>)

lemma spawn_counted:
  assumes "counted g"
  shows "counted (snd (spawn name has_task spawn_error g))"
proof -
  let ?g1 = "g\<lparr>tg_next_sequence := tg_next_sequence g + 1, tg_active := tg_active g @ [(tg_next_sequence g, name)]\<rparr>"
  have "counted ?g1" if "length (tg_active g) < go_max_tasks (tg_options g)"
    using assms that by (fastforce simp: counted_def)
  then show ?thesis using assms finish_record_counted [of ?g1] child_outcome_status(2)
    by (auto simp: spawn_def Let_def split: option.splits)
qed

lemma counted_other [simp]:
  "counted (g\<lparr>tg_completion := c\<rparr>) = counted g" "counted (g\<lparr>tg_join := j\<rparr>) = counted g" "counted (g\<lparr>tg_unsignalled := n\<rparr>) = counted g"
  "counted (g\<lparr>tg_shielded := b\<rparr>) = counted g" "counted (g\<lparr>tg_join_started := b\<rparr>) = counted g" "counted (close_group g) = counted g"
  "counted (request_stop g) = counted g"
  by (simp_all add: counted_def close_group_def request_stop_def Let_def)

lemma drain_counted: "counted g \<Longrightarrow> counted (snd (drain_completed g))"
  by (fastforce simp: counted_def drain_completed_def)

lemma lagging_rows: "as \<noteq> [] \<Longrightarrow> \<exists>t \<in> set (map snd (merge_rows cs as)). to_status t = Lagging"
  by (induction cs as rule: merge_rows.induct) (auto simp: lagging_row_def)

lemma finish_record_frame [simp]:
  "tg_join (finish_record i out g) = tg_join g" "tg_completion (finish_record i out g) = tg_completion g" "tg_closed (finish_record i out g) = tg_closed g"
  "tg_join_started (finish_record i out g) = tg_join_started g"
  by (auto simp: finish_record_def Let_def)

lemma finish_record_wakes: "tg_active g \<noteq> [] \<or> 0 < tg_unsignalled g \<Longrightarrow> tg_active (finish_record i out g) \<noteq> [] \<or> 0 < tg_unsignalled (finish_record i out g)"
  "tg_active g = [] \<Longrightarrow> finish_record i out g = g"
  by (auto simp: finish_record_def Let_def)

lemma finish_record_inv:
  assumes "group_inv g" "to_status out \<noteq> Lagging"
  shows "group_inv (finish_record i out g)"
proof -
  have "awake (finish_record i out g)"
    using assms(1) finish_record_wakes [of g i out] unfolding group_inv_def awake_def
    by (auto split: join_phase.splits sum.splits)
  then show ?thesis using assms finish_record_counted [of g out i] by (simp add: group_inv_def)
qed

lemma frame_simps [simp]:
  "tg_join (close_group g) = tg_join g" "tg_completion (close_group g) = tg_completion g" "tg_closed (close_group g)" "tg_active (close_group g) = tg_active g"
  "tg_unsignalled (close_group g) = tg_unsignalled g"
  "tg_join (request_stop g) = tg_join g" "tg_completion (request_stop g) = tg_completion g" "tg_closed (request_stop g)" "tg_active (request_stop g) = tg_active g"
  "tg_unsignalled (request_stop g) = tg_unsignalled g" "tg_join_started (close_group g) = tg_join_started g"
  "tg_join_started (request_stop g) = tg_join_started g"
  by (simp_all add: close_group_def request_stop_def Let_def)

lemma drain_frame [simp]:
  "tg_join (snd (drain_completed g)) = tg_join g" "tg_completion (snd (drain_completed g)) = tg_completion g" "tg_closed (snd (drain_completed g)) = tg_closed g"
  "tg_active (snd (drain_completed g)) = tg_active g" "tg_unsignalled (snd (drain_completed g)) = tg_unsignalled g"
  "tg_join_started (snd (drain_completed g)) = tg_join_started g"
  by (simp_all add: drain_completed_def)

lemma spawn_inv:
  assumes "group_inv g"
  shows "group_inv (snd (spawn name has_task spawn_error g))"
proof (cases "tg_closed g")
  case True
  then show ?thesis using assms by (auto simp: spawn_def)
next
  case False
  let ?g1 = "g\<lparr>tg_next_sequence := tg_next_sequence g + 1, tg_active := tg_active g @ [(tg_next_sequence g, name)]\<rparr>"
  have j: "tg_join g = NotJoining" using assms False by (auto simp: group_inv_def awake_def)
  have "group_inv ?g1" if "length (tg_active g) < go_max_tasks (tg_options g)"
    using assms that j by (auto simp: group_inv_def counted_def awake_def)
  then show ?thesis using assms finish_record_inv [of ?g1] child_outcome_status(2)
    by (auto simp: spawn_def Let_def split: option.splits)
qed

lemma returned_inv:
  assumes "counted g" "bell (tg_join g) (tg_completion g)" "tg_closed g" "tg_join_started g" "\<forall>i. tg_join g \<noteq> JoinParked i"
    "count_status Lagging r = 0 \<longrightarrow> tg_active g = []"
  shows "group_inv ((snd (drain_completed g))\<lparr>tg_join := JoinReturned (Inr r)\<rparr>)"
proof -
  have "bell (JoinReturned (Inr r)) (tg_completion g)" using assms(2,5) by (auto simp: bell_def split: join_phase.splits)
  then show ?thesis using assms drain_counted by (auto simp: group_inv_def awake_def)
qed

lemma expire_join_inv:
  assumes "counted g" "bell JoinChecking (tg_completion g)" "tg_closed g" "tg_join_started g"
  shows "group_inv (expire_join g)"
proof -
  let ?g0 = "g\<lparr>tg_join := JoinChecking\<rparr>"
  have e: "expire_join g = (if tg_active g \<noteq> [] then (snd (drain_completed (request_stop ?g0)))\<lparr>tg_join := JoinReturned (Inr (fst (timed_join_report (request_stop g))))\<rparr>
      else (snd (drain_completed ?g0))\<lparr>tg_join := JoinReturned (Inr (fst (drain_completed g)))\<rparr>)"
    by (simp add: expire_join_def timed_join_report_def drain_completed_def request_stop_def close_group_def Let_def)
  have "count_status Lagging (fst (timed_join_report (request_stop g))) \<noteq> 0" if "tg_active g \<noteq> []"
  proof -
    have "sort_key fst (tg_active g) \<noteq> []" using that by (metis length_0_conv length_sort)
    from lagging_rows [OF this] show ?thesis by (fastforce simp: count_status_def timed_join_report_def filter_empty_conv)
  qed
  then show ?thesis unfolding e using assms returned_inv [of "request_stop ?g0"] returned_inv [of ?g0] by auto
qed

lemma finish_signal_inv:
  assumes "group_inv g"
  shows "group_inv (finish_signal g)"
proof (cases "tg_unsignalled g = 0")
  case False
  obtain c outs where t: "try_send () (tg_completion g) = (c, outs)" by fastforce
  note B = bell_signal [OF _ t, of "tg_join g"]
  have b: "bell (tg_join g) (tg_completion g)" using assms by (simp add: group_inv_def)
  have "finish_signal g = g\<lparr>tg_unsignalled := tg_unsignalled g - 1, tg_completion := c, tg_join := wake_join outs (tg_join g)\<rparr>"
    using False t by (simp add: finish_signal_def)
  moreover have "awake (g\<lparr>tg_unsignalled := tg_unsignalled g - 1, tg_completion := c, tg_join := wake_join outs (tg_join g)\<rparr>)"
    using assms B(2,3) [OF b] by (auto simp: group_inv_def awake_def split: join_phase.splits sum.splits)
  ultimately show ?thesis using assms B(1) [OF b] by (simp add: group_inv_def)
qed (use assms in \<open>simp add: finish_signal_def\<close>)

lemma awakeD: "group_inv g \<Longrightarrow> tg_join g \<noteq> NotJoining \<Longrightarrow> tg_closed g \<and> tg_join_started g" "group_inv g \<Longrightarrow> counted g" "group_inv g \<Longrightarrow> bell (tg_join g) (tg_completion g)"
  by (simp_all add: group_inv_def awake_def)

lemma join_check_inv:
  assumes "group_inv g"
  shows "group_inv (join_check g)"
proof (cases "tg_join g = JoinChecking")
  case True
  note A = awakeD [OF assms]
  show ?thesis
  proof (cases "tg_active g = []")
    case empty: True
    have "join_check g = (snd (drain_completed g))\<lparr>tg_join := JoinReturned (Inr (fst (drain_completed g)))\<rparr>"
      using True empty by (simp add: join_check_def split_beta)
    moreover have "tg_closed g" "tg_join_started g" using A(1) True by simp_all
    ultimately show ?thesis using returned_inv [of g] A(2,3) True empty by auto
  next
    case False
    have "bell JoinReceiving (tg_completion g)" using A(3) True by (auto simp: bell_def)
    then show ?thesis using False True A(1,2) by (auto simp: join_check_def group_inv_def awake_def)
  qed
qed (use assms in \<open>simp add: join_check_def\<close>)

lemma join_receive_inv:
  assumes "group_inv g"
  shows "group_inv (join_receive g)"
proof (cases "tg_join g = JoinReceiving")
  case True
  note A = awakeD [OF assms]
  obtain c outs where r: "async_receive (tg_completion g) = (c, outs)" by fastforce
  have B: "if ch_values (tg_completion g) = []
    then wake_join outs (JoinParked (ch_next_id (tg_completion g))) = JoinParked (ch_next_id (tg_completion g)) \<and> bell (JoinParked (ch_next_id (tg_completion g))) c
    else wake_join outs (JoinParked (ch_next_id (tg_completion g))) = JoinChecking \<and> bell JoinChecking c"
    using bell_receive [OF A(3) [unfolded True] r] .
  show ?thesis using assms B A(1,2) r True
    by (auto simp: join_receive_def group_inv_def awake_def Let_def split: if_splits)
qed (use assms in \<open>simp add: join_receive_def\<close>)

lemma join_cancelled_inv:
  assumes "group_inv g"
  shows "group_inv (join_cancelled g)"
proof -
  note A = awakeD [OF assms]
  have restarted: "group_inv ((request_stop g)\<lparr>tg_completion := c, tg_join := JoinChecking, tg_shielded := True\<rparr>)" if "bell JoinChecking c" "tg_join_started g" for c
    using A(2) that by (simp add: group_inv_def awake_def)
  have same: "(request_stop g)\<lparr>tg_completion := tg_completion g, tg_join := JoinChecking, tg_shielded := True\<rparr>
      = (request_stop g)\<lparr>tg_join := JoinChecking, tg_shielded := True\<rparr>" by (simp add: request_stop_def close_group_def Let_def)
  show ?thesis
  proof (cases "tg_join g")
    case JoinReceiving
    then have "bell JoinChecking (tg_completion g)" using A(3) by (auto simp: bell_def)
    then have "group_inv ((request_stop g)\<lparr>tg_join := JoinChecking, tg_shielded := True\<rparr>)"
      using restarted [of "tg_completion g"] A(1) JoinReceiving unfolding same by simp
    then show ?thesis using JoinReceiving assms by (simp add: join_cancelled_def)
  next
    case (JoinParked i)
    then show ?thesis using assms bell_cancel [of i "tg_completion g"] A(1,3) restarted by (auto simp: join_cancelled_def split: prod.splits)
  qed (use assms in \<open>auto simp: join_cancelled_def\<close>)
qed

lemma join_deadline_inv:
  assumes "group_inv g"
  shows "group_inv (join_deadline g)"
proof -
  note A = awakeD [OF assms]
  have unparked: "bell JoinChecking (tg_completion g)" if "tg_join g \<in> {JoinChecking, JoinReceiving}" using A(3) that by (auto simp: bell_def)
  show ?thesis
  proof (cases "tg_join g")
    case (JoinParked i)
    then show ?thesis using bell_cancel [of i "tg_completion g"] A expire_join_inv by (auto simp: join_deadline_def split: prod.splits)
  qed (use assms A unparked expire_join_inv in \<open>auto simp: join_deadline_def\<close>)
qed

lemma group_step_inv:
  assumes "group_inv g"
  shows "group_inv (group_step ev g)"
proof (cases ev)
  case (ChildEnds i ended)
  then show ?thesis using finish_record_inv [OF assms child_outcome_status(1)] by simp
next
  case (ChildFrameFails i)
  then show ?thesis using finish_record_inv [OF assms child_outcome_status(2)] by simp
next
  case Drain
  have "awake (snd (drain_completed g))" using assms by (auto simp: group_inv_def awake_def split: join_phase.splits sum.splits)
  then show ?thesis using Drain assms drain_counted by (simp add: group_inv_def)
next
  case CloseGroup
  then show ?thesis using assms by (auto simp: group_inv_def awake_def split: join_phase.splits sum.splits)
next
  case RequestStop
  then show ?thesis using assms by (auto simp: group_inv_def awake_def split: join_phase.splits sum.splits)
next
  case BeginJoin
  have "bell JoinChecking (tg_completion g)" if "tg_join g = NotJoining"
    using assms that by (auto simp: group_inv_def bell_def)
  moreover have "tg_join g = NotJoining" if "\<not> tg_join_started g" using awakeD(1) [OF assms] that by blast
  moreover have "awake (close_group g)" using assms by (auto simp: group_inv_def awake_def split: join_phase.splits sum.splits)
  ultimately have "group_inv (close_group g)" "tg_join_started g \<or> group_inv ((close_group g)\<lparr>tg_join_started := True, tg_join := JoinChecking\<rparr>)"
    using assms by (auto simp: group_inv_def awake_def)
  then show ?thesis using BeginJoin by (auto simp: begin_join_def Let_def)
qed (use spawn_inv finish_signal_inv join_check_inv join_receive_inv join_cancelled_inv join_deadline_inv assms in simp_all)

interpretation grp: invariant_machine group_step "\<lambda>_. True" group_inv
  by unfold_locales (rule group_step_inv)

lemma created_inv: "task_group_create o1 = Inr g \<Longrightarrow> group_inv g"
  by (auto simp: task_group_create_def group_inv_def counted_def bell_def awake_def channel_init_def split: if_splits)

lemma group_run_options: "tg_options (fold group_step evs g) = tg_options g"
proof (induction evs arbitrary: g)
  case (Cons ev evs)
  have "tg_options (group_step ev g) = tg_options g"
    by (cases ev) (auto simp: spawn_def finish_record_def finish_signal_def drain_completed_def close_group_def request_stop_def begin_join_def
        join_check_def join_receive_def join_cancelled_def join_deadline_def expire_join_def timed_join_report_def Let_def
        split: option.splits prod.splits join_phase.splits)
  then show ?case using Cons.IH by simp
qed simp

section \<open>Properties\<close>

text \<open>
  C33: a group is bounded and accounts for its children. After any interleaving of spawns, endings, signals, drains, stops and
  joins, at most the configured number of children are active and at most the configured number of outcomes are kept, and every
  child that was ever spawned is exactly one of: active, kept with its outcome, or reported by a drain, as a row or in the count of dropped rows.
\<close>

theorem group_bounded_and_accounted:
  assumes "task_group_create o1 = Inr g0"
  shows "let g = fold group_step evs g0 in
    length (tg_active g) \<le> go_max_tasks o1 \<and> length (tg_completed g) \<le> go_max_completed o1 \<and>
    distinct (map fst (tg_active g) @ map fst (tg_completed g)) \<and>
    tg_next_sequence g = length (tg_active g) + length (tg_completed g) + tg_completed_dropped g + tg_drained g"
proof -
  have "tg_options g0 = o1" using assms by (auto simp: task_group_create_def split: if_splits)
  moreover have "counted (fold group_step evs g0)" using grp.run_inv [OF created_inv [OF assms]] by (simp add: group_inv_def list_all_iff)
  ultimately show ?thesis using group_run_options [of evs g0] by (simp add: counted_def Let_def)
qed

text \<open>
  C32: a join is never stuck. Whenever a join is waiting on the completion channel, a child is still active or an ended child has yet to
  signal, so the wait ends once the children have ended, however the halves of endings and of the join interleave; and a join that returns
  without lagging rows returns when no child is active.
\<close>

theorem join_never_stuck:
  assumes "task_group_create o1 = Inr g0"
  shows "let g = fold group_step evs g0 in
    (\<forall>i. tg_join g = JoinParked i \<longrightarrow> tg_active g \<noteq> [] \<or> 0 < tg_unsignalled g) \<and>
    (\<forall>i. tg_join g = JoinParked i \<and> 0 < tg_unsignalled g \<longrightarrow> tg_join (group_step Signal g) = JoinChecking) \<and>
    (\<forall>r. tg_join g = JoinReturned (Inr r) \<and> count_status Lagging r = 0 \<longrightarrow> tg_active g = [])"
proof -
  define g where "g = fold group_step evs g0"
  have inv: "group_inv g" using grp.run_inv [OF created_inv [OF assms]] by (simp add: g_def list_all_iff)
  obtain c outs where t: "try_send () (tg_completion g) = (c, outs)" by fastforce
  have "tg_join (finish_signal g) = JoinChecking" if "tg_join g = JoinParked i" "0 < tg_unsignalled g" for i
    using bell_signal(3) [OF awakeD(3) [OF inv] t] that t by (simp add: finish_signal_def)
  with inv show ?thesis unfolding g_def [symmetric] Let_def by (auto simp: group_inv_def awake_def)
qed

definition demo_group_events :: "group_event list" where
  "demo_group_events = [Spawn ''a'' True None, BeginJoin, JoinCheck, ChildEnds 0 (ChildReturned (Inr ())), JoinReceive]"

lemma demo_group: "\<exists>g0. task_group_create \<lparr>go_max_tasks = 1, go_max_completed = 1\<rparr> = Inr g0 \<and> tg_join (fold group_step demo_group_events g0) = JoinParked 1"
  by (simp add: task_group_create_def demo_group_events_def spawn_def begin_join_def close_group_def join_check_def finish_record_def
      join_receive_def async_receive_def channel_init_def pump_locked.simps wake_join_def Let_def)

theorem group_bounded_and_accounted_witness:
  "\<exists>g0. task_group_create \<lparr>go_max_tasks = 1, go_max_completed = 1\<rparr> = Inr g0 \<and> length (tg_active (fold group_step demo_group_events g0)) \<le> 1"
  using demo_group group_bounded_and_accounted [of "\<lparr>go_max_tasks = 1, go_max_completed = 1\<rparr>" _ demo_group_events] by (auto simp: Let_def)

theorem join_never_stuck_witness:
  "\<exists>g0. task_group_create \<lparr>go_max_tasks = 1, go_max_completed = 1\<rparr> = Inr g0 \<and>
     (tg_active (fold group_step demo_group_events g0) \<noteq> [] \<or> 0 < tg_unsignalled (fold group_step demo_group_events g0))"
  using demo_group join_never_stuck [of "\<lparr>go_max_tasks = 1, go_max_completed = 1\<rparr>" _ demo_group_events] by (auto simp: Let_def)

end
