(* ===== verification/Storage_Cache.thy ===== *)
theory Storage_Cache
  imports Core_Error Oran_Prelude
begin

text \<open>
  \<^verbatim>\<open>oran-storage/statement_cache.cpp\<close>: prepared statements kept per connection in the order of their
  last use and handed out as leases. Entries are shared between the list, the index and the
  leases, so they live in a store and are named by their address. Preparing, resetting and
  clearing a statement are answers of SQLite and come with the events.
\<close>

section \<open>State\<close>

record cache_entry =
  ce_sql :: string
  ce_leased :: bool
  ce_orphaned :: bool

record statement_cache =
  ca_capacity :: nat
  ca_lru :: "nat list"
  ca_by_sql :: "string \<rightharpoonup> nat"
  ca_hits :: nat
  ca_misses :: nat
  ca_evictions :: nat
  ca_entries :: "nat \<Rightarrow> cache_entry"
  ca_next :: nat
  ca_leases :: "nat list"

definition already_leased_error :: "string \<Rightarrow> core_error" where
  "already_leased_error sql = with_ctx ''sql'' sql (make_error conflict_kind ''statement is already leased'')"

definition empty_sql_error :: core_error where
  "empty_sql_error = err_invalid_argument ''sql must not be empty''"

definition cache_open :: "nat \<Rightarrow> statement_cache result" where
  "cache_open capacity = (if capacity = 0 then Inl (err_invalid_argument ''statement cache capacity must be greater than zero'')
     else Inr \<lparr>ca_capacity = capacity, ca_lru = [], ca_by_sql = Map.empty, ca_hits = 0, ca_misses = 0, ca_evictions = 0,
       ca_entries = (\<lambda>_. \<lparr>ce_sql = [], ce_leased = False, ce_orphaned = False\<rparr>), ca_next = 0, ca_leases = []\<rparr>)"

section \<open>Operations\<close>

definition build_lease :: "nat \<Rightarrow> statement_cache \<Rightarrow> statement_cache" where
  "build_lease e c = c\<lparr>ca_leases := e # ca_leases c\<rparr>"

definition erase_entry :: "string \<Rightarrow> nat \<Rightarrow> statement_cache \<Rightarrow> statement_cache" where
  "erase_entry sql e c = c\<lparr>ca_lru := remove1 e (ca_lru c), ca_by_sql := (ca_by_sql c)(sql := None)\<rparr>"

definition push_entry :: "nat \<Rightarrow> statement_cache \<Rightarrow> statement_cache" where
  "push_entry e c = c\<lparr>ca_lru := e # ca_lru c, ca_by_sql := (ca_by_sql c)(ce_sql (ca_entries c e) \<mapsto> e)\<rparr>"

definition set_entry :: "nat \<Rightarrow> (cache_entry \<Rightarrow> cache_entry) \<Rightarrow> statement_cache \<Rightarrow> statement_cache" where
  "set_entry e f c = c\<lparr>ca_entries := (ca_entries c)(e := f (ca_entries c e))\<rparr>"

definition find_victim :: "statement_cache \<Rightarrow> nat option" where
  "find_victim c = (case filter (\<lambda>e. \<not> ce_leased (ca_entries c e)) (ca_lru c) of [] \<Rightarrow> None | es \<Rightarrow> Some (last es))"

definition acquire_hit :: "unit result \<Rightarrow> unit result \<Rightarrow> string \<Rightarrow> nat \<Rightarrow> statement_cache \<Rightarrow> nat result \<times> statement_cache" where
  "acquire_hit rst clr sql e c =
     (if ce_leased (ca_entries c e) then (Inl (already_leased_error sql), c)
      else let c1 = c\<lparr>ca_lru := e # remove1 e (ca_lru c)\<rparr> in
        case rst of Inl err \<Rightarrow> (Inl (with_ctx ''sql'' sql err), erase_entry sql e c1)
        | Inr _ \<Rightarrow> (case clr of Inl err \<Rightarrow> (Inl (with_ctx ''sql'' sql err), erase_entry sql e c1)
          | Inr _ \<Rightarrow> (Inr e, build_lease e ((set_entry e (\<lambda>x. x\<lparr>ce_leased := True\<rparr>) c1)\<lparr>ca_hits := ca_hits c + 1\<rparr>))))"

definition new_entry :: "string \<Rightarrow> statement_cache \<Rightarrow> statement_cache" where
  "new_entry sql c = c\<lparr>ca_misses := ca_misses c + 1, ca_next := ca_next c + 1,
     ca_entries := (ca_entries c)(ca_next c := \<lparr>ce_sql = sql, ce_leased = True, ce_orphaned = False\<rparr>)\<rparr>"

definition acquire_miss :: "unit result \<Rightarrow> string \<Rightarrow> statement_cache \<Rightarrow> nat result \<times> statement_cache" where
  "acquire_miss prepared sql c =
     (case prepared of Inl err \<Rightarrow> (Inl err, c\<lparr>ca_misses := ca_misses c + 1\<rparr>)
      | Inr _ \<Rightarrow> let e = ca_next c; c1 = new_entry sql c in
        (Inr e, build_lease e
          (if length (ca_lru c1) < ca_capacity c1 then push_entry e c1
           else case find_victim c1 of
             None \<Rightarrow> set_entry e (\<lambda>x. x\<lparr>ce_orphaned := True\<rparr>) c1
           | Some v \<Rightarrow> push_entry e ((erase_entry (ce_sql (ca_entries c1 v)) v c1)\<lparr>ca_evictions := ca_evictions c1 + 1\<rparr>))))"

definition cache_acquire ::
  "unit result \<Rightarrow> unit result \<Rightarrow> unit result \<Rightarrow> string \<Rightarrow> statement_cache \<Rightarrow> nat result \<times> statement_cache" where
  "cache_acquire prepared rst clr sql c =
     (if sql = [] then (Inl empty_sql_error, c)
      else case ca_by_sql c sql of Some e \<Rightarrow> acquire_hit rst clr sql e c | None \<Rightarrow> acquire_miss prepared sql c)"

definition cache_clear :: "statement_cache \<Rightarrow> statement_cache" where
  "cache_clear c = c\<lparr>ca_lru := [], ca_by_sql := Map.empty, ca_hits := 0, ca_misses := 0, ca_evictions := 0,
     ca_entries := (\<lambda>e. if e \<in> set (ca_lru c) \<and> ce_leased (ca_entries c e) then (ca_entries c e)\<lparr>ce_orphaned := True\<rparr> else ca_entries c e)\<rparr>"

definition cache_release :: "unit result \<Rightarrow> unit result \<Rightarrow> nat \<Rightarrow> statement_cache \<Rightarrow> statement_cache" where
  "cache_release rst clr e c =
     (if e \<notin> set (ca_leases c) then c
      else let c1 = c\<lparr>ca_leases := remove1 e (ca_leases c)\<rparr>; x = ca_entries c e in
        if ce_orphaned x then c1
        else if \<not> is_ok rst \<or> \<not> is_ok clr
        then (if ca_by_sql c1 (ce_sql x) = Some e then erase_entry (ce_sql x) e c1 else c1)
        else set_entry e (\<lambda>y. y\<lparr>ce_leased := False\<rparr>) c1)"

datatype cache_event =
    CacheAcquire "unit result" "unit result" "unit result" string
  | CacheRelease "unit result" "unit result" nat
  | CacheClear

fun cache_step :: "cache_event \<Rightarrow> statement_cache \<Rightarrow> statement_cache" where
  "cache_step (CacheAcquire prepared rst clr sql) c = snd (cache_acquire prepared rst clr sql c)"
| "cache_step (CacheRelease rst clr e) c = cache_release rst clr e c"
| "cache_step CacheClear c = cache_clear c"

section \<open>The invariant\<close>

definition sql_of :: "statement_cache \<Rightarrow> nat \<Rightarrow> string" where
  "sql_of c e = ce_sql (ca_entries c e)"

definition index_inv :: "statement_cache \<Rightarrow> bool" where
  "index_inv c \<longleftrightarrow> distinct (ca_lru c) \<and> (\<forall>e\<in>set (ca_lru c). e < ca_next c) \<and>
     (\<forall>s e. ca_by_sql c s = Some e \<longleftrightarrow> e \<in> set (ca_lru c) \<and> sql_of c e = s) \<and> length (ca_lru c) \<le> ca_capacity c \<and>
     length (ca_lru c) + ca_evictions c \<le> ca_misses c"

definition lease_inv :: "statement_cache \<Rightarrow> bool" where
  "lease_inv c \<longleftrightarrow> distinct (ca_leases c) \<and> (\<forall>e\<in>set (ca_leases c). e < ca_next c) \<and>
     (\<forall>e\<in>set (ca_leases c). ce_leased (ca_entries c e) \<and> (ce_orphaned (ca_entries c e) \<longleftrightarrow> e \<notin> set (ca_lru c))) \<and>
     (\<forall>e\<in>set (ca_lru c). \<not> ce_orphaned (ca_entries c e) \<and> (ce_leased (ca_entries c e) \<longrightarrow> e \<in> set (ca_leases c)))"

definition cache_inv :: "statement_cache \<Rightarrow> bool" where
  "cache_inv c \<longleftrightarrow> index_inv c \<and> lease_inv c"

lemma index_inj: "index_inv c \<Longrightarrow> e \<in> set (ca_lru c) \<Longrightarrow> e' \<in> set (ca_lru c) \<Longrightarrow> sql_of c e = sql_of c e' \<Longrightarrow> e = e'"
  by (metis index_inv_def option.inject)

lemma erase_entry_index:
  assumes "index_inv c" "e \<in> set (ca_lru c)"
  shows "index_inv (erase_entry (sql_of c e) e c)"
proof -
  have "sql_of c e' = sql_of c e \<longleftrightarrow> e' = e" if "e' \<in> set (ca_lru c)" for e'
    using index_inj [OF assms that] index_inj [OF assms(1) that assms(2)] by auto
  then show ?thesis using assms by (auto simp: index_inv_def erase_entry_def sql_of_def length_remove1)
qed

lemma erase_entry_inv:
  assumes "cache_inv c" "e \<in> set (ca_lru c)" "\<not> ce_leased (ca_entries c e)"
  shows "cache_inv (erase_entry (sql_of c e) e c)"
proof -
  have "e \<notin> set (ca_leases c)" using assms by (auto simp: cache_inv_def lease_inv_def)
  moreover have "index_inv (erase_entry (sql_of c e) e c)" using assms by (auto simp: cache_inv_def intro: erase_entry_index)
  ultimately show ?thesis using assms by (auto simp: cache_inv_def lease_inv_def index_inv_def erase_entry_def)
qed

lemma move_front_inv:
  assumes "cache_inv c" "e \<in> set (ca_lru c)"
  shows "cache_inv (c\<lparr>ca_lru := e # remove1 e (ca_lru c)\<rparr>)"
proof -
  have "length (e # remove1 e (ca_lru c)) = length (ca_lru c)"
    using assms(2) length_pos_if_in_set [OF assms(2)] by (simp add: length_remove1)
  moreover have "set (e # remove1 e (ca_lru c)) = set (ca_lru c)" "distinct (e # remove1 e (ca_lru c))"
    using assms by (auto simp: cache_inv_def index_inv_def)
  ultimately show ?thesis using assms by (simp del: length_Cons list.set distinct.simps add: cache_inv_def index_inv_def lease_inv_def sql_of_def)
qed

lemma lease_hit_inv:
  "cache_inv c \<Longrightarrow> e \<in> set (ca_lru c) \<Longrightarrow> \<not> ce_leased (ca_entries c e) \<Longrightarrow>
   cache_inv (build_lease e ((set_entry e (\<lambda>x. x\<lparr>ce_leased := True\<rparr>) c)\<lparr>ca_hits := n\<rparr>))"
  by (auto simp: cache_inv_def index_inv_def lease_inv_def sql_of_def build_lease_def set_entry_def)

lemma acquire_hit_inv:
  assumes "cache_inv c" "ca_by_sql c sql = Some e"
  shows "cache_inv (snd (acquire_hit rst clr sql e c))"
proof (cases "ce_leased (ca_entries c e)")
  case False
  define c1 where "c1 = c\<lparr>ca_lru := e # remove1 e (ca_lru c)\<rparr>"
  have e: "e \<in> set (ca_lru c)" "sql_of c e = sql" using assms by (auto simp: cache_inv_def index_inv_def)
  have "cache_inv c1" "e \<in> set (ca_lru c1)" "\<not> ce_leased (ca_entries c1 e)" "sql_of c1 e = sql"
    using move_front_inv [OF assms(1) e(1)] False e(2) by (simp_all add: c1_def sql_of_def)
  then have "cache_inv (erase_entry sql e c1)" "cache_inv (build_lease e ((set_entry e (\<lambda>x. x\<lparr>ce_leased := True\<rparr>) c1)\<lparr>ca_hits := n\<rparr>))" for n
    using erase_entry_inv [of c1 e] lease_hit_inv [of c1 e] by simp_all
  then show ?thesis using False by (auto simp: acquire_hit_def Let_def c1_def [symmetric] split: sum.split)
qed (use assms(1) in \<open>simp add: acquire_hit_def\<close>)

section \<open>Adding an entry\<close>

lemma find_victim_Some:
  assumes "find_victim c = Some v"
  shows "v \<in> set (ca_lru c) \<and> \<not> ce_leased (ca_entries c v)"
proof -
  let ?es = "filter (\<lambda>e. \<not> ce_leased (ca_entries c e)) (ca_lru c)"
  have "?es \<noteq> [] \<and> v = last ?es" using assms by (auto simp: find_victim_def split: list.splits)
  then have "v \<in> set ?es" using last_in_set by metis
  then show ?thesis by simp
qed

lemma fresh_entry: "cache_inv c \<Longrightarrow> ca_next c \<notin> set (ca_lru c) \<and> ca_next c \<notin> set (ca_leases c)"
  by (auto simp: cache_inv_def index_inv_def lease_inv_def)

lemma new_entry_inv: "cache_inv c \<Longrightarrow> cache_inv (new_entry sql c)"
  using fresh_entry [of c] by (auto simp: cache_inv_def index_inv_def lease_inv_def sql_of_def new_entry_def split: if_splits)

lemma push_lease_inv:
  assumes "cache_inv c" "ca_by_sql c (sql_of c e) = None" "e < ca_next c" "e \<notin> set (ca_lru c)" "e \<notin> set (ca_leases c)"
    and "ce_leased (ca_entries c e)" "\<not> ce_orphaned (ca_entries c e)"
    and "length (ca_lru c) < ca_capacity c" "length (ca_lru c) + ca_evictions c < ca_misses c"
  shows "cache_inv (build_lease e (push_entry e c))"
proof -
  have "sql_of c e' \<noteq> sql_of c e" if "e' \<in> set (ca_lru c)" for e'
    using assms(1,2) that by (metis cache_inv_def index_inv_def option.distinct(1))
  then have "index_inv (push_entry e c)"
    using assms by (auto simp: cache_inv_def index_inv_def push_entry_def sql_of_def)
  moreover have "lease_inv (build_lease e (push_entry e c))"
    using assms by (auto simp: cache_inv_def lease_inv_def build_lease_def push_entry_def)
  ultimately show ?thesis by (simp add: cache_inv_def index_inv_def build_lease_def sql_of_def)
qed

lemma orphan_lease_inv:
  assumes "cache_inv c" "e < ca_next c" "e \<notin> set (ca_lru c)" "e \<notin> set (ca_leases c)" "ce_leased (ca_entries c e)"
  shows "cache_inv (build_lease e (set_entry e (\<lambda>x. x\<lparr>ce_orphaned := True\<rparr>) c))"
  using assms by (auto simp: cache_inv_def index_inv_def lease_inv_def build_lease_def set_entry_def sql_of_def)

lemma evicted_inv:
  assumes "cache_inv c" "v \<in> set (ca_lru c)" "\<not> ce_leased (ca_entries c v)"
  shows "cache_inv ((erase_entry (sql_of c v) v c)\<lparr>ca_evictions := ca_evictions c + 1\<rparr>)"
proof -
  have "index_inv c" using assms(1) by (simp add: cache_inv_def)
  then have "Suc (length (remove1 v (ca_lru c))) + ca_evictions c \<le> ca_misses c"
    using assms(2) length_pos_if_in_set [OF assms(2)] by (simp add: index_inv_def length_remove1)
  then have "length (ca_lru (erase_entry (sql_of c v) v c)) + (ca_evictions c + 1) \<le> ca_misses (erase_entry (sql_of c v) v c)"
    by (simp add: erase_entry_def)
  then show ?thesis using erase_entry_inv [OF assms] by (simp add: cache_inv_def index_inv_def lease_inv_def sql_of_def)
qed

lemma acquire_miss_inv:
  assumes "cache_inv c" "ca_by_sql c sql = None"
  shows "cache_inv (snd (acquire_miss prepared sql c))"
proof (cases prepared)
  case Inl
  then show ?thesis using assms(1) by (auto simp: acquire_miss_def cache_inv_def index_inv_def lease_inv_def sql_of_def)
next
  case (Inr u)
  define e c1 where "e = ca_next c" and "c1 = new_entry sql c"
  have inv: "cache_inv c1" unfolding c1_def by (rule new_entry_inv) (rule assms)
  have e: "e < ca_next c1" "e \<notin> set (ca_lru c1)" "e \<notin> set (ca_leases c1)" "ce_leased (ca_entries c1 e)" "\<not> ce_orphaned (ca_entries c1 e)"
    "sql_of c1 e = sql" "ca_by_sql c1 sql = None" "length (ca_lru c1) + ca_evictions c1 < ca_misses c1"
    using fresh_entry [OF assms(1)] assms by (auto simp: c1_def e_def new_entry_def sql_of_def cache_inv_def index_inv_def)
  have room: "cache_inv (build_lease e (push_entry e c1))" if "length (ca_lru c1) < ca_capacity c1"
    using push_lease_inv [OF inv] e that by simp
  have orphan: "cache_inv (build_lease e (set_entry e (\<lambda>x. x\<lparr>ce_orphaned := True\<rparr>) c1))"
    using orphan_lease_inv [OF inv] e by simp
  have evict: "cache_inv (build_lease e (push_entry e ((erase_entry (ce_sql (ca_entries c1 v)) v c1)\<lparr>ca_evictions := ca_evictions c1 + 1\<rparr>)))"
    if v: "find_victim c1 = Some v" for v
  proof -
    note vic = find_victim_Some [OF v]
    let ?c = "(erase_entry (ce_sql (ca_entries c1 v)) v c1)\<lparr>ca_evictions := ca_evictions c1 + 1\<rparr>"
    obtain n where n: "length (ca_lru c1) = Suc n" using vic by (cases "ca_lru c1") auto
    have "length (ca_lru c1) \<le> ca_capacity c1" using inv by (simp add: cache_inv_def index_inv_def)
    then have "length (ca_lru ?c) < ca_capacity ?c" "length (ca_lru ?c) + ca_evictions ?c < ca_misses ?c"
      using vic e(8) n by (simp_all add: erase_entry_def length_remove1)
    moreover have "cache_inv ?c" using evicted_inv [OF inv] vic by (simp add: sql_of_def)
    ultimately show ?thesis using e(1-7)
      by (intro push_lease_inv) (auto simp: erase_entry_def sql_of_def dest: in_set_remove1)
  qed
  show ?thesis using room orphan evict
    by (auto simp: acquire_miss_def Inr Let_def simp flip: e_def c1_def split: option.split)
qed

lemma unlease_inv:
  "cache_inv c \<Longrightarrow> e \<in> set (ca_leases c) \<Longrightarrow> e \<in> set (ca_lru c) \<Longrightarrow>
   cache_inv (set_entry e (\<lambda>y. y\<lparr>ce_leased := False\<rparr>) (c\<lparr>ca_leases := remove1 e (ca_leases c)\<rparr>))"
  by (auto simp: cache_inv_def index_inv_def lease_inv_def set_entry_def sql_of_def)

lemma drop_lease_inv:
  "cache_inv c \<Longrightarrow> e \<notin> set (ca_lru c) \<Longrightarrow> cache_inv (c\<lparr>ca_leases := remove1 e (ca_leases c)\<rparr>)"
  by (auto simp: cache_inv_def index_inv_def lease_inv_def sql_of_def)

lemma drop_broken_inv:
  assumes "cache_inv c" "e \<in> set (ca_lru c)"
  shows "cache_inv (erase_entry (sql_of c e) e (c\<lparr>ca_leases := remove1 e (ca_leases c)\<rparr>))"
proof -
  let ?c = "c\<lparr>ca_leases := remove1 e (ca_leases c)\<rparr>"
  have "index_inv ?c" using assms(1) by (simp add: cache_inv_def index_inv_def sql_of_def)
  then have "index_inv (erase_entry (sql_of ?c e) e ?c)" by (rule erase_entry_index) (simp add: assms(2))
  moreover have "lease_inv (erase_entry (sql_of c e) e ?c)"
    using assms by (auto simp: cache_inv_def index_inv_def lease_inv_def erase_entry_def)
  ultimately show ?thesis by (simp add: cache_inv_def sql_of_def)
qed

lemma release_inv:
  assumes "cache_inv c"
  shows "cache_inv (cache_release rst clr e c)"
proof (cases "e \<in> set (ca_leases c)")
  case True
  then have lease: "ce_orphaned (ca_entries c e) \<longleftrightarrow> e \<notin> set (ca_lru c)" using assms by (auto simp: cache_inv_def lease_inv_def)
  have "e \<in> set (ca_lru c) \<Longrightarrow> ca_by_sql c (sql_of c e) = Some e" using assms by (auto simp: cache_inv_def index_inv_def)
  then show ?thesis using True lease drop_lease_inv [OF assms] unlease_inv [OF assms True] drop_broken_inv [OF assms]
    by (simp add: cache_release_def Let_def sql_of_def)
qed (use assms in \<open>simp add: cache_release_def\<close>)

lemma clear_inv: "cache_inv c \<Longrightarrow> cache_inv (cache_clear c)"
  by (auto simp: cache_clear_def cache_inv_def index_inv_def lease_inv_def sql_of_def)

lemma cache_step_inv: "cache_inv c \<Longrightarrow> cache_inv (cache_step ev c)"
  by (cases ev) (auto simp: cache_acquire_def acquire_hit_inv acquire_miss_inv release_inv clear_inv split: option.split)

interpretation stmts: invariant_machine cache_step "\<lambda>_. True" cache_inv
  by unfold_locales (rule cache_step_inv)

lemma capacity_step [simp]: "ca_capacity (cache_step ev c) = ca_capacity c"
  by (cases ev) (auto simp: cache_acquire_def acquire_hit_def acquire_miss_def Let_def build_lease_def set_entry_def push_entry_def
      erase_entry_def new_entry_def cache_release_def cache_clear_def split: option.split sum.split)

lemma capacity_run [simp]: "ca_capacity (fold cache_step es c) = ca_capacity c"
  by (induction es arbitrary: c) auto

lemma cache_open_inv: "cache_open n = Inr c \<Longrightarrow> cache_inv c \<and> ca_capacity c = n"
  by (auto simp: cache_open_def cache_inv_def index_inv_def lease_inv_def split: if_splits)

section \<open>Leases are exclusive and the cache is bounded\<close>

lemma acquired_entry:
  assumes "cache_inv c" "cache_acquire prepared rst clr sql c = (Inr e, c')"
  shows "e \<notin> set (ca_leases c) \<and> ca_leases c' = e # ca_leases c \<and> sql_of c' e = sql"
proof (cases "ca_by_sql c sql")
  case None
  then show ?thesis using assms fresh_entry [OF assms(1)]
    by (auto simp: cache_acquire_def acquire_miss_def Let_def build_lease_def push_entry_def set_entry_def erase_entry_def new_entry_def
        sql_of_def split: if_splits sum.splits option.splits)
next
  case (Some x)
  then have "x \<in> set (ca_lru c)" "sql_of c x = sql" using assms(1) by (auto simp: cache_inv_def index_inv_def)
  then show ?thesis using assms Some
    by (auto simp: cache_acquire_def acquire_hit_def Let_def build_lease_def set_entry_def sql_of_def cache_inv_def lease_inv_def
        split: if_splits sum.splits)
qed

text \<open>
  C29: After any sequence of acquisitions, releases and clearings of an opened statement cache,
  whatever SQLite answers: the cache holds at most its capacity, one entry per text, and the
  index finds exactly the listed entries; no entry has two live leases and an entry that stays
  in the cache is marked leased exactly while its lease lives; and a further successful
  acquisition leases an entry for the asked text that nobody else holds.
\<close>

theorem cache_leases_exclusive:
  assumes "cache_open n = Inr c0" and "c = fold cache_step es c0"
  shows "length (ca_lru c) \<le> n \<and> distinct (map (sql_of c) (ca_lru c)) \<and>
     (\<forall>sql e. ca_by_sql c sql = Some e \<longleftrightarrow> e \<in> set (ca_lru c) \<and> sql_of c e = sql) \<and>
     distinct (ca_leases c) \<and> (\<forall>e\<in>set (ca_lru c). ce_leased (ca_entries c e) \<longleftrightarrow> e \<in> set (ca_leases c)) \<and>
     (\<forall>prepared rst clr sql e c'. cache_acquire prepared rst clr sql c = (Inr e, c') \<longrightarrow>
        e \<notin> set (ca_leases c) \<and> ca_leases c' = e # ca_leases c \<and> sql_of c' e = sql)"
proof -
  have inv: "cache_inv c" using cache_open_inv [OF assms(1)] stmts.run_inv [of c0 es] by (simp add: assms(2) list_all_iff)
  have "ca_capacity c = n" using cache_open_inv [OF assms(1)] by (simp add: assms(2))
  moreover have "distinct (map (sql_of c) (ca_lru c))"
    using inv index_inj [of c] by (auto simp: cache_inv_def distinct_map inj_on_def index_inv_def)
  moreover have "ce_leased (ca_entries c e) \<longleftrightarrow> e \<in> set (ca_leases c)" if "e \<in> set (ca_lru c)" for e
    using inv that by (auto simp: cache_inv_def lease_inv_def)
  ultimately show ?thesis using inv acquired_entry [OF inv] by (simp add: cache_inv_def index_inv_def lease_inv_def)
qed

text \<open>Two texts in a cache for one: the second lease is orphaned while the first lives, and evicts it afterwards.\<close>

definition demo_cache_events :: "cache_event list" where
  "demo_cache_events = [CacheAcquire (Inr ()) (Inr ()) (Inr ()) ''a'', CacheAcquire (Inr ()) (Inr ()) (Inr ()) ''b'',
     CacheRelease (Inr ()) (Inr ()) 0, CacheAcquire (Inr ()) (Inr ()) (Inr ()) ''c'']"

definition demo_cache :: statement_cache where
  "demo_cache = \<lparr>ca_capacity = 1, ca_lru = [], ca_by_sql = Map.empty, ca_hits = 0, ca_misses = 0, ca_evictions = 0,
     ca_entries = (\<lambda>_. \<lparr>ce_sql = [], ce_leased = False, ce_orphaned = False\<rparr>), ca_next = 0, ca_leases = []\<rparr>"

lemma demo_cache_open: "cache_open 1 = Inr demo_cache"
  by (simp add: cache_open_def demo_cache_def)

theorem cache_leases_exclusive_witness:
  "(let c = fold cache_step demo_cache_events demo_cache in
     distinct (ca_leases c) \<and> ca_leases c = [2, 1] \<and> map (sql_of c) (ca_lru c) = [''c''] \<and> ca_evictions c = 1)"
proof -
  let ?c = "fold cache_step demo_cache_events demo_cache"
  have "ca_leases ?c = [2, 1]" "map (sql_of ?c) (ca_lru ?c) = [''c'']" "ca_evictions ?c = 1"
    by (simp_all add: demo_cache_def demo_cache_events_def Let_def cache_acquire_def acquire_miss_def new_entry_def push_entry_def build_lease_def
        find_victim_def set_entry_def cache_release_def erase_entry_def sql_of_def)
  then show ?thesis using cache_leases_exclusive [OF demo_cache_open refl, of demo_cache_events] by (simp add: Let_def)
qed

end
