(* ===== verification/Storage_Pool.thy ===== *)
theory Storage_Pool
  imports Storage_Cache "HOL-Library.Multiset"
begin

text \<open>
  \<^verbatim>\<open>oran-storage/pool.cpp\<close>: one writer connection and a fixed number of reader connections, handed out
  as leases. Every critical section of the source is one step. A released connection with a
  queued waiter is reserved for that waiter and granted by a task posted to the executor; the
  posted tasks are part of the state and run in any order, so cancellations can overtake grants.
  A lease is live from its creation to its release, whether or not its owner has been resumed.
\<close>

section \<open>State\<close>

datatype waiter_status = WPending | WCancelled | WGranted

datatype posted = GrantWriter nat | GrantReader nat nat

datatype answer = Leased | WaitCancelled

record pool =
  po_reader_count :: nat
  po_writer_busy :: bool
  po_free_readers :: "nat list"
  po_writer_waiters :: "nat list"
  po_reader_waiters :: "nat list"
  po_status :: "nat \<Rightarrow> waiter_status"
  po_next :: nat
  po_posted :: "posted list"
  po_writer_leases :: nat
  po_reader_leases :: "nat list"
  po_answers :: "(nat \<times> answer) list"

record pool_options =
  pl_path :: string
  pl_reader_count :: nat
  pl_cache_capacity :: nat
  pl_busy_timeout_ms :: int
  pl_enable_wal :: bool
  pl_enforce_foreign_keys :: bool

datatype open_mode = ReadWriteCreate | ReadOnly

record connection_options =
  cn_path :: string
  cn_mode :: open_mode
  cn_busy_timeout_ms :: int
  cn_enable_wal :: bool
  cn_enforce_foreign_keys :: bool

section \<open>Opening\<close>

fun open_readers :: "(nat \<Rightarrow> connection_options \<Rightarrow> unit result) \<Rightarrow> pool_options \<Rightarrow> nat \<Rightarrow> nat \<Rightarrow> unit result" where
  "open_readers conn o1 i 0 = Inr ()"
| "open_readers conn o1 i (Suc n) =
     rbind (map_error (\<lambda>e. with_ctx ''pool_slot'' (show_nat i) (with_ctx ''pool_role'' ''reader'' e))
       (conn (Suc i) \<lparr>cn_path = pl_path o1, cn_mode = ReadOnly, cn_busy_timeout_ms = pl_busy_timeout_ms o1, cn_enable_wal = False,
          cn_enforce_foreign_keys = pl_enforce_foreign_keys o1\<rparr>)) (\<lambda>_.
     rbind (map_error (\<lambda>e. with_ctx ''pool_slot'' (show_nat i) (with_ctx ''pool_role'' ''reader_cache'' e)) (cache_open (pl_cache_capacity o1))) (\<lambda>_.
       open_readers conn o1 (Suc i) n))"

definition pool_open :: "(nat \<Rightarrow> connection_options \<Rightarrow> unit result) \<Rightarrow> pool_options \<Rightarrow> pool result" where
  "pool_open conn o1 =
     (if pl_path o1 = [] then Inl (err_invalid_argument ''pool path must not be empty'')
      else if pl_reader_count o1 = 0 then Inl (err_invalid_argument ''pool reader_count must be greater than zero'')
      else if pl_cache_capacity o1 = 0 then Inl (err_invalid_argument ''pool statement_cache_capacity must be greater than zero'')
      else rbind (map_error (with_ctx ''pool_role'' ''writer'')
          (conn 0 \<lparr>cn_path = pl_path o1, cn_mode = ReadWriteCreate, cn_busy_timeout_ms = pl_busy_timeout_ms o1, cn_enable_wal = pl_enable_wal o1,
             cn_enforce_foreign_keys = pl_enforce_foreign_keys o1\<rparr>)) (\<lambda>_.
        rbind (map_error (with_ctx ''pool_role'' ''writer_cache'') (cache_open (pl_cache_capacity o1))) (\<lambda>_.
        rbind (open_readers conn o1 0 (pl_reader_count o1)) (\<lambda>_.
          Inr \<lparr>po_reader_count = pl_reader_count o1, po_writer_busy = False, po_free_readers = [0..<pl_reader_count o1], po_writer_waiters = [],
            po_reader_waiters = [], po_status = (\<lambda>_. WPending), po_next = 0, po_posted = [], po_writer_leases = 0, po_reader_leases = [],
            po_answers = []\<rparr>))))"

section \<open>The writer\<close>

definition complete_writer :: "nat \<Rightarrow> pool \<Rightarrow> pool" where
  "complete_writer w p = p\<lparr>po_writer_leases := po_writer_leases p + 1, po_answers := po_answers p @ [(w, Leased)]\<rparr>"

definition release_writer :: "pool \<Rightarrow> pool" where
  "release_writer p = (case po_writer_waiters p of
     w # ws \<Rightarrow> p\<lparr>po_writer_waiters := ws, po_posted := po_posted p @ [GrantWriter w]\<rparr>
   | [] \<Rightarrow> p\<lparr>po_writer_busy := False\<rparr>)"

definition grant_writer_waiter :: "nat \<Rightarrow> pool \<Rightarrow> pool" where
  "grant_writer_waiter w p = (if po_status p w = WPending
     then complete_writer w (p\<lparr>po_status := (po_status p)(w := WGranted)\<rparr>) else release_writer p)"

definition cancel_writer_waiter :: "nat \<Rightarrow> pool \<Rightarrow> pool" where
  "cancel_writer_waiter w p = (if po_status p w \<noteq> WPending then p
     else p\<lparr>po_status := (po_status p)(w := WCancelled), po_writer_waiters := remove1 w (po_writer_waiters p),
            po_answers := po_answers p @ [(w, WaitCancelled)]\<rparr>)"

definition async_acquire_writer :: "bool \<Rightarrow> pool \<Rightarrow> pool" where
  "async_acquire_writer is_cancelled p = (let w = po_next p; p1 = p\<lparr>po_next := w + 1\<rparr> in
     if \<not> po_writer_busy p then complete_writer w (p1\<lparr>po_writer_busy := True, po_status := (po_status p)(w := WGranted)\<rparr>)
     else if is_cancelled then p1\<lparr>po_status := (po_status p)(w := WCancelled), po_answers := po_answers p @ [(w, WaitCancelled)]\<rparr>
     else p1\<lparr>po_writer_waiters := po_writer_waiters p @ [w]\<rparr>)"

definition writer_lease_release :: "pool \<Rightarrow> pool" where
  "writer_lease_release p = (if po_writer_leases p = 0 then p else release_writer (p\<lparr>po_writer_leases := po_writer_leases p - 1\<rparr>))"

section \<open>The readers\<close>

definition complete_reader :: "nat \<Rightarrow> nat \<Rightarrow> pool \<Rightarrow> pool" where
  "complete_reader w slot p = p\<lparr>po_reader_leases := po_reader_leases p @ [slot], po_answers := po_answers p @ [(w, Leased)]\<rparr>"

definition release_reader :: "nat \<Rightarrow> pool \<Rightarrow> pool" where
  "release_reader slot p = (case po_reader_waiters p of
     w # ws \<Rightarrow> p\<lparr>po_reader_waiters := ws, po_posted := po_posted p @ [GrantReader w slot]\<rparr>
   | [] \<Rightarrow> p\<lparr>po_free_readers := po_free_readers p @ [slot]\<rparr>)"

definition grant_reader_waiter :: "nat \<Rightarrow> nat \<Rightarrow> pool \<Rightarrow> pool" where
  "grant_reader_waiter w slot p = (if po_status p w = WPending
     then complete_reader w slot (p\<lparr>po_status := (po_status p)(w := WGranted)\<rparr>) else release_reader slot p)"

definition cancel_reader_waiter :: "nat \<Rightarrow> pool \<Rightarrow> pool" where
  "cancel_reader_waiter w p = (if po_status p w \<noteq> WPending then p
     else p\<lparr>po_status := (po_status p)(w := WCancelled), po_reader_waiters := remove1 w (po_reader_waiters p),
            po_answers := po_answers p @ [(w, WaitCancelled)]\<rparr>)"

definition async_acquire_reader :: "bool \<Rightarrow> pool \<Rightarrow> pool" where
  "async_acquire_reader is_cancelled p = (let w = po_next p; p1 = p\<lparr>po_next := w + 1\<rparr> in
     case po_free_readers p of
       slot # free \<Rightarrow> complete_reader w slot (p1\<lparr>po_free_readers := free, po_status := (po_status p)(w := WGranted)\<rparr>)
     | [] \<Rightarrow>
         if is_cancelled then p1\<lparr>po_status := (po_status p)(w := WCancelled), po_answers := po_answers p @ [(w, WaitCancelled)]\<rparr>
         else p1\<lparr>po_reader_waiters := po_reader_waiters p @ [w]\<rparr>)"

definition reader_lease_release :: "nat \<Rightarrow> pool \<Rightarrow> pool" where
  "reader_lease_release slot p = (if slot \<notin> set (po_reader_leases p) then p
     else release_reader slot (p\<lparr>po_reader_leases := remove1 slot (po_reader_leases p)\<rparr>))"

section \<open>Steps\<close>

text \<open>A cancellation reaches a waiter only through the slot of an acquisition that had to wait.\<close>

datatype pool_event =
    AcquireWriter bool
  | AcquireReader bool
  | ReleaseWriter
  | ReleaseReader nat
  | RunPosted posted
  | CancelWriter nat
  | CancelReader nat

definition waits_writer :: "nat \<Rightarrow> pool \<Rightarrow> bool" where
  "waits_writer w p \<longleftrightarrow> w \<in> set (po_writer_waiters p) \<or> GrantWriter w \<in> set (po_posted p)"

definition waits_reader :: "nat \<Rightarrow> pool \<Rightarrow> bool" where
  "waits_reader w p \<longleftrightarrow> w \<in> set (po_reader_waiters p) \<or> (\<exists>slot. GrantReader w slot \<in> set (po_posted p))"

fun run_posted :: "posted \<Rightarrow> pool \<Rightarrow> pool" where
  "run_posted (GrantWriter w) p = grant_writer_waiter w p"
| "run_posted (GrantReader w slot) p = grant_reader_waiter w slot p"

fun pool_step :: "pool_event \<Rightarrow> pool \<Rightarrow> pool" where
  "pool_step (AcquireWriter c) p = async_acquire_writer c p"
| "pool_step (AcquireReader c) p = async_acquire_reader c p"
| "pool_step ReleaseWriter p = writer_lease_release p"
| "pool_step (ReleaseReader slot) p = reader_lease_release slot p"
| "pool_step (RunPosted t) p = (if t \<in> set (po_posted p) then run_posted t (p\<lparr>po_posted := remove1 t (po_posted p)\<rparr>) else p)"
| "pool_step (CancelWriter w) p = (if waits_writer w p then cancel_writer_waiter w p else p)"
| "pool_step (CancelReader w) p = (if waits_reader w p then cancel_reader_waiter w p else p)"

section \<open>The pool invariant\<close>

fun grant_waiter :: "posted \<Rightarrow> nat" where
  "grant_waiter (GrantWriter w) = w"
| "grant_waiter (GrantReader w slot) = w"

fun writer_grants :: "posted list \<Rightarrow> nat" where
  "writer_grants [] = 0"
| "writer_grants (GrantWriter w # ts) = Suc (writer_grants ts)"
| "writer_grants (GrantReader w slot # ts) = writer_grants ts"

fun granted_slots :: "posted list \<Rightarrow> nat list" where
  "granted_slots [] = []"
| "granted_slots (GrantWriter w # ts) = granted_slots ts"
| "granted_slots (GrantReader w slot # ts) = slot # granted_slots ts"

definition waiting :: "pool \<Rightarrow> nat list" where
  "waiting p = po_writer_waiters p @ po_reader_waiters p @ map grant_waiter (po_posted p)"

definition answered :: "pool \<Rightarrow> nat set" where
  "answered p = fst ` set (po_answers p)"

definition connections_inv :: "pool \<Rightarrow> bool" where
  "connections_inv p \<longleftrightarrow>
     po_writer_leases p + writer_grants (po_posted p) = (if po_writer_busy p then 1 else 0) \<and>
     mset (po_free_readers p) + mset (po_reader_leases p) + mset (granted_slots (po_posted p)) = mset [0..<po_reader_count p] \<and>
     (po_writer_waiters p \<noteq> [] \<longrightarrow> po_writer_busy p) \<and> (po_reader_waiters p \<noteq> [] \<longrightarrow> po_free_readers p = [])"

definition waiters_inv :: "pool \<Rightarrow> bool" where
  "waiters_inv p \<longleftrightarrow> distinct (waiting p) \<and> distinct (map fst (po_answers p)) \<and>
     set (waiting p) \<union> answered p = {..<po_next p} \<and>
     (\<forall>w<po_next p. po_status p w = WPending \<longleftrightarrow> w \<notin> answered p) \<and>
     (set (po_writer_waiters p) \<union> set (po_reader_waiters p)) \<inter> answered p = {} \<and>
     (\<forall>w\<ge>po_next p. po_status p w = WPending)"

definition pool_inv :: "pool \<Rightarrow> bool" where
  "pool_inv p \<longleftrightarrow> connections_inv p \<and> waiters_inv p"

subsection \<open>Posted grants\<close>

lemma writer_grants_append [simp]: "writer_grants (xs @ ys) = writer_grants xs + writer_grants ys"
  by (induction xs rule: writer_grants.induct) auto

lemma granted_slots_append [simp]: "granted_slots (xs @ ys) = granted_slots xs @ granted_slots ys"
  by (induction xs rule: granted_slots.induct) auto

lemma writer_grants_remove1:
  "t \<in> set ts \<Longrightarrow> writer_grants ts = writer_grants [t] + writer_grants (remove1 t ts)"
  by (induction ts rule: writer_grants.induct) (auto split: if_splits)

lemma granted_slots_remove1:
  "t \<in> set ts \<Longrightarrow> mset (granted_slots ts) = mset (granted_slots [t]) + mset (granted_slots (remove1 t ts))"
  by (induction ts rule: granted_slots.induct) (auto split: if_splits)

lemma mset_waiters_remove1:
  "t \<in> set ts \<Longrightarrow> mset (map grant_waiter ts) = add_mset (grant_waiter t) (mset (map grant_waiter (remove1 t ts)))"
  by (induction ts) auto

subsection \<open>The waiters\<close>

lemma waiters_inv_mset:
  assumes "waiters_inv p" "mset (waiting q) = mset (waiting p)" "po_answers q = po_answers p" "po_status q = po_status p"
    and "po_next q = po_next p" "set (po_writer_waiters q) \<subseteq> set (po_writer_waiters p)"
    and "set (po_reader_waiters q) \<subseteq> set (po_reader_waiters p)"
  shows "waiters_inv q"
  using assms mset_eq_setD [OF assms(2)] mset_eq_imp_distinct_iff [OF assms(2)] by (auto simp: waiters_inv_def answered_def)

lemma waiters_release_writer: "waiters_inv p \<Longrightarrow> waiters_inv (release_writer p)"
  by (erule waiters_inv_mset) (auto simp: release_writer_def waiting_def split: list.splits)

lemma waiters_release_reader: "waiters_inv p \<Longrightarrow> waiters_inv (release_reader slot p)"
  by (erule waiters_inv_mset) (auto simp: release_reader_def waiting_def split: list.splits)

text \<open>An acquisition answered at once, one that joins a queue, and a waiter that is answered later.\<close>

lemma waiters_answer_new:
  assumes "waiters_inv p" "waiting q = waiting p" "po_answers q = po_answers p @ [(po_next p, a)]" "s \<noteq> WPending"
    and "po_status q = (po_status p)(po_next p := s)" "po_next q = Suc (po_next p)"
    and "po_writer_waiters q = po_writer_waiters p" "po_reader_waiters q = po_reader_waiters p"
  shows "waiters_inv q"
proof -
  have "po_next p \<notin> set (waiting p) \<union> answered p" using assms(1) by (auto simp: waiters_inv_def)
  moreover from this have "po_next p \<notin> set (po_writer_waiters p) \<union> set (po_reader_waiters p)" by (auto simp: waiting_def)
  ultimately show ?thesis using assms by (auto simp: waiters_inv_def answered_def lessThan_Suc less_Suc_eq)
qed

lemma waiters_enqueue:
  assumes "waiters_inv p" "mset (waiting q) = add_mset (po_next p) (mset (waiting p))" "po_answers q = po_answers p"
    and "po_status q = po_status p" "po_next q = Suc (po_next p)"
    and "set (po_writer_waiters q) \<union> set (po_reader_waiters q) \<subseteq> insert (po_next p) (set (po_writer_waiters p) \<union> set (po_reader_waiters p))"
  shows "waiters_inv q"
proof -
  have "po_next p \<notin> set (waiting p) \<union> answered p" using assms(1) by (auto simp: waiters_inv_def)
  moreover have "set (waiting q) = insert (po_next p) (set (waiting p))"
    by (metis assms(2) set_mset_add_mset_insert set_mset_mset)
  moreover have "distinct (waiting q) \<longleftrightarrow> distinct (po_next p # waiting p)"
    by (rule mset_eq_imp_distinct_iff) (simp add: assms(2))
  moreover have "(set (po_writer_waiters q) \<union> set (po_reader_waiters q)) \<inter> answered p = {}"
    using assms(1,6) \<open>po_next p \<notin> set (waiting p) \<union> answered p\<close> by (auto simp: waiters_inv_def)
  moreover have "answered q = answered p" by (simp add: answered_def assms(3))
  ultimately show ?thesis using assms(1,3,4,5) by (auto simp: waiters_inv_def lessThan_Suc less_Suc_eq)
qed

lemma waiters_drop_answered:
  assumes "waiters_inv p" "mset (waiting p) = add_mset w (mset (waiting q))" "w \<in> answered p" "po_answers q = po_answers p"
    and "po_status q = po_status p" "po_next q = po_next p" "po_writer_waiters q = po_writer_waiters p" "po_reader_waiters q = po_reader_waiters p"
  shows "waiters_inv q"
proof -
  have "set (waiting p) = insert w (set (waiting q))" by (metis assms(2) set_mset_add_mset_insert set_mset_mset)
  moreover have "distinct (waiting p) \<longleftrightarrow> distinct (w # waiting q)" by (rule mset_eq_imp_distinct_iff) (simp add: assms(2))
  ultimately show ?thesis using assms by (auto simp: waiters_inv_def answered_def)
qed

lemma waiters_answer:
  assumes "waiters_inv p" "mset (waiting p) = add_mset w (mset (waiting q))" "po_status p w = WPending" "s \<noteq> WPending"
    and "po_answers q = po_answers p @ [(w, a)]" "po_status q = (po_status p)(w := s)" "po_next q = po_next p"
    and "set (po_writer_waiters q) \<subseteq> set (po_writer_waiters p)" "set (po_reader_waiters q) \<subseteq> set (po_reader_waiters p)"
  shows "waiters_inv q"
proof -
  have sets: "set (waiting p) = insert w (set (waiting q))" by (metis assms(2) set_mset_add_mset_insert set_mset_mset)
  have "distinct (waiting p) \<longleftrightarrow> distinct (w # waiting q)" by (rule mset_eq_imp_distinct_iff) (simp add: assms(2))
  then have new: "w \<notin> set (waiting q)" "distinct (waiting q)" using assms(1) by (auto simp: waiters_inv_def)
  then have "w \<notin> set (po_writer_waiters q) \<union> set (po_reader_waiters q)" by (auto simp: waiting_def)
  moreover have "w < po_next p" using assms(1) sets by (auto simp: waiters_inv_def)
  moreover from this have "w \<notin> answered p" using assms(1,3) by (auto simp: waiters_inv_def)
  ultimately show ?thesis using assms sets new by (auto simp: waiters_inv_def answered_def)
qed

lemma waiters_cancel_queued:
  assumes "waiters_inv p" "po_status p w = WPending" "w \<in> set (waiting p)" "a \<noteq> WPending"
    and "po_answers q = po_answers p @ [(w, WaitCancelled)]" "po_status q = (po_status p)(w := a)" "po_next q = po_next p"
    and "po_posted q = po_posted p" "mset (waiting p) = add_mset w (mset (waiting q)) \<or> (waiting q = waiting p \<and> w \<notin> set (po_writer_waiters p) \<union> set (po_reader_waiters p))"
    and "set (po_writer_waiters q) \<subseteq> set (po_writer_waiters p)" "set (po_reader_waiters q) \<subseteq> set (po_reader_waiters p)"
  shows "waiters_inv q"
proof (cases "mset (waiting p) = add_mset w (mset (waiting q))")
  case True
  then show ?thesis using waiters_answer [OF assms(1) True assms(2,4,5,6,7,10,11)] by simp
next
  case False
  then have same: "waiting q = waiting p" "w \<notin> set (po_writer_waiters p) \<union> set (po_reader_waiters p)" using assms(9) by auto
  have "w < po_next p" using assms(1,3) by (auto simp: waiters_inv_def)
  moreover from this have "w \<notin> answered p" using assms(1,2) by (auto simp: waiters_inv_def)
  ultimately show ?thesis using assms(1,3-8,10,11) same by (auto simp: waiters_inv_def answered_def)
qed

subsection \<open>Every operation keeps the waiters\<close>

lemma waiting_simps [simp]:
  "waiting (p\<lparr>po_writer_leases := a\<rparr>) = waiting p" "waiting (p\<lparr>po_reader_leases := b\<rparr>) = waiting p"
  by (simp_all add: waiting_def)

lemma mset_waiting_remove1:
  "t \<in> set (po_posted p) \<Longrightarrow>
   mset (waiting p) = add_mset (grant_waiter t) (mset (waiting (p\<lparr>po_posted := remove1 t (po_posted p)\<rparr>)))"
  using mset_waiters_remove1 [of t "po_posted p"] by (simp add: waiting_def)

lemma waiters_acquire_writer: "waiters_inv p \<Longrightarrow> waiters_inv (async_acquire_writer c p)"
  unfolding async_acquire_writer_def Let_def complete_writer_def
  by (auto simp: waiting_def intro: waiters_answer_new [where s = WGranted] waiters_answer_new [where s = WCancelled] waiters_enqueue)

lemma waiters_acquire_reader: "waiters_inv p \<Longrightarrow> waiters_inv (async_acquire_reader c p)"
  unfolding async_acquire_reader_def Let_def complete_reader_def
  by (auto simp: waiting_def split: list.split intro: waiters_answer_new [where s = WGranted] waiters_answer_new [where s = WCancelled] waiters_enqueue)

lemma waiters_leases:
  "waiters_inv p \<Longrightarrow> waiters_inv (p\<lparr>po_writer_leases := a\<rparr>)" "waiters_inv p \<Longrightarrow> waiters_inv (p\<lparr>po_reader_leases := b\<rparr>)"
  by (auto elim!: waiters_inv_mset)

lemma waiters_lease_release:
  "waiters_inv p \<Longrightarrow> waiters_inv (writer_lease_release p)" "waiters_inv p \<Longrightarrow> waiters_inv (reader_lease_release slot p)"
  by (simp_all add: writer_lease_release_def reader_lease_release_def waiters_release_writer waiters_release_reader waiters_leases)

lemma waiters_run_posted:
  assumes "waiters_inv p" "t \<in> set (po_posted p)"
  shows "waiters_inv (run_posted t (p\<lparr>po_posted := remove1 t (po_posted p)\<rparr>))" (is "waiters_inv (run_posted t ?q)")
proof (cases "po_status p (grant_waiter t) = WPending")
  case True
  show ?thesis using mset_waiting_remove1 [OF assms(2)] True
    by (cases t) (auto simp: grant_writer_waiter_def grant_reader_waiter_def complete_writer_def complete_reader_def waiting_def
        intro!: waiters_answer [OF assms(1) _ True, where s = WGranted])
next
  case False
  have "grant_waiter t \<in> set (waiting p)" using assms(2) by (simp add: waiting_def)
  then have "grant_waiter t \<in> answered p" using assms(1) False by (auto simp: waiters_inv_def)
  then have "waiters_inv ?q" by (rule waiters_drop_answered [OF assms(1) mset_waiting_remove1 [OF assms(2)]]) simp_all
  then show ?thesis using False
    by (cases t) (auto simp: grant_writer_waiter_def grant_reader_waiter_def intro: waiters_release_writer waiters_release_reader)
qed

lemma waits_waiter:
  "waits_writer w p \<Longrightarrow> w \<in> set (po_writer_waiters p) \<union> grant_waiter ` set (po_posted p)"
  "waits_reader w p \<Longrightarrow> w \<in> set (po_reader_waiters p) \<union> grant_waiter ` set (po_posted p)"
  by (force simp: waits_writer_def waits_reader_def)+

lemma queues_disjoint:
  assumes "waiters_inv p"
  shows "set (po_reader_waiters p) \<inter> (set (po_writer_waiters p) \<union> grant_waiter ` set (po_posted p)) = {}"
    and "set (po_writer_waiters p) \<inter> (set (po_reader_waiters p) \<union> grant_waiter ` set (po_posted p)) = {}"
  using assms by (auto simp: waiters_inv_def waiting_def)

lemma waiters_cancel_writer:
  assumes "waiters_inv p" "waits_writer w p"
  shows "waiters_inv (cancel_writer_waiter w p)"
proof (cases "po_status p w = WPending")
  case True
  have "w \<notin> set (po_reader_waiters p)" using waits_waiter(1) [OF assms(2)] queues_disjoint(1) [OF assms(1)] by blast
  moreover have "w \<in> set (waiting p)" using waits_waiter(1) [OF assms(2)] by (auto simp: waiting_def)
  moreover have "mset (waiting p) = add_mset w (mset (waiting (cancel_writer_waiter w p))) \<or>
      waiting (cancel_writer_waiter w p) = waiting p \<and> w \<notin> set (po_writer_waiters p)"
    using True by (cases "w \<in> set (po_writer_waiters p)") (simp_all add: cancel_writer_waiter_def waiting_def remove1_idem)
  moreover have "set (remove1 w (po_writer_waiters p)) \<subseteq> set (po_writer_waiters p)" by (rule set_remove1_subset)
  ultimately show ?thesis using True
    by (intro waiters_cancel_queued [OF assms(1) True, where a = WCancelled and q = "cancel_writer_waiter w p"])
       (simp_all add: cancel_writer_waiter_def)
qed (use assms(1) in \<open>simp add: cancel_writer_waiter_def\<close>)

lemma waiters_cancel_reader:
  assumes "waiters_inv p" "waits_reader w p"
  shows "waiters_inv (cancel_reader_waiter w p)"
proof (cases "po_status p w = WPending")
  case True
  have "w \<notin> set (po_writer_waiters p)" using waits_waiter(2) [OF assms(2)] queues_disjoint(2) [OF assms(1)] by blast
  moreover have "w \<in> set (waiting p)" using waits_waiter(2) [OF assms(2)] by (auto simp: waiting_def)
  moreover have "mset (waiting p) = add_mset w (mset (waiting (cancel_reader_waiter w p))) \<or>
      waiting (cancel_reader_waiter w p) = waiting p \<and> w \<notin> set (po_reader_waiters p)"
    using True by (cases "w \<in> set (po_reader_waiters p)") (simp_all add: cancel_reader_waiter_def waiting_def remove1_idem)
  moreover have "set (remove1 w (po_reader_waiters p)) \<subseteq> set (po_reader_waiters p)" by (rule set_remove1_subset)
  ultimately show ?thesis using True
    by (intro waiters_cancel_queued [OF assms(1) True, where a = WCancelled and q = "cancel_reader_waiter w p"])
       (simp_all add: cancel_reader_waiter_def)
qed (use assms(1) in \<open>simp add: cancel_reader_waiter_def\<close>)

subsection \<open>Every operation keeps the connections\<close>

lemma connections_release_writer:
  "connections_inv (p\<lparr>po_writer_leases := Suc (po_writer_leases p)\<rparr>) \<Longrightarrow> connections_inv (release_writer p)"
  by (auto simp: connections_inv_def release_writer_def split: list.splits if_splits)

lemma connections_release_reader:
  "connections_inv (p\<lparr>po_reader_leases := slot # po_reader_leases p\<rparr>) \<Longrightarrow> connections_inv (release_reader slot p)"
  by (auto simp: connections_inv_def release_reader_def split: list.splits)

lemma connections_cong:
  assumes "connections_inv p" "po_writer_leases q = po_writer_leases p" "po_posted q = po_posted p" "po_writer_busy q = po_writer_busy p"
    and "po_free_readers q = po_free_readers p" "mset (po_reader_leases q) = mset (po_reader_leases p)" "po_reader_count q = po_reader_count p"
    and "po_writer_waiters q = [] \<or> po_writer_waiters p \<noteq> [] \<or> po_writer_busy p"
    and "po_reader_waiters q = [] \<or> po_reader_waiters p \<noteq> [] \<or> po_free_readers p = []"
  shows "connections_inv q"
  using assms by (auto simp: connections_inv_def)

lemma connections_acquire_writer: "connections_inv p \<Longrightarrow> connections_inv (async_acquire_writer c p)"
  by (auto simp: connections_inv_def async_acquire_writer_def complete_writer_def Let_def split: if_splits)

lemma connections_acquire_reader: "connections_inv p \<Longrightarrow> connections_inv (async_acquire_reader c p)"
  by (auto simp: connections_inv_def async_acquire_reader_def complete_reader_def Let_def split: list.splits)

lemma connections_cancel:
  "connections_inv p \<Longrightarrow> connections_inv (cancel_writer_waiter w p)" "connections_inv p \<Longrightarrow> connections_inv (cancel_reader_waiter w p)"
  by (auto simp: cancel_writer_waiter_def cancel_reader_waiter_def elim!: connections_cong)

lemma connections_lease_release:
  "connections_inv p \<Longrightarrow> connections_inv (writer_lease_release p)" "connections_inv p \<Longrightarrow> connections_inv (reader_lease_release slot p)"
  by (auto simp: writer_lease_release_def reader_lease_release_def intro!: connections_release_writer connections_release_reader
      elim!: connections_cong)

lemma connections_run_posted:
  assumes "connections_inv p" "t \<in> set (po_posted p)"
  shows "connections_inv (run_posted t (p\<lparr>po_posted := remove1 t (po_posted p)\<rparr>))" (is "connections_inv (run_posted t ?q)")
proof (cases t)
  case (GrantWriter w)
  have "connections_inv (?q\<lparr>po_writer_leases := Suc (po_writer_leases ?q)\<rparr>)"
    using assms(1) writer_grants_remove1 [OF assms(2)] granted_slots_remove1 [OF assms(2)] by (simp add: connections_inv_def GrantWriter)
  then show ?thesis
    by (auto simp: GrantWriter grant_writer_waiter_def complete_writer_def intro!: connections_release_writer elim!: connections_cong)
next
  case (GrantReader w slot)
  have "connections_inv (?q\<lparr>po_reader_leases := slot # po_reader_leases ?q\<rparr>)"
    using assms(1) writer_grants_remove1 [OF assms(2)] granted_slots_remove1 [OF assms(2)] by (simp add: connections_inv_def GrantReader)
  then show ?thesis
    by (auto simp: GrantReader grant_reader_waiter_def complete_reader_def intro!: connections_release_reader elim!: connections_cong)
qed

subsection \<open>Every step keeps the invariant\<close>

lemma pool_inv_step: "pool_inv p \<Longrightarrow> pool_inv (pool_step e p)"
  by (cases e) (simp_all add: pool_inv_def waiters_acquire_writer waiters_acquire_reader waiters_run_posted waiters_cancel_writer
      waiters_cancel_reader waiters_lease_release connections_acquire_writer connections_acquire_reader connections_cancel
      connections_run_posted connections_lease_release)

interpretation pool: invariant_machine pool_step "\<lambda>_. True" pool_inv
  by unfold_locales (rule pool_inv_step)

lemma pool_open_inv: "pool_open conn o1 = Inr p \<Longrightarrow> pool_inv p \<and> po_reader_count p = pl_reader_count o1"
  by (auto simp: pool_open_def pool_inv_def connections_inv_def waiters_inv_def waiting_def answered_def rbind_Inr_iff split: if_splits)

lemma reader_count_release [simp]:
  "po_reader_count (release_writer p) = po_reader_count p" "po_reader_count (release_reader slot p) = po_reader_count p"
  by (simp_all add: release_writer_def release_reader_def split: list.split)

lemma reader_count_run_posted [simp]: "po_reader_count (run_posted t p) = po_reader_count p"
  by (cases t) (simp_all add: grant_writer_waiter_def grant_reader_waiter_def complete_writer_def complete_reader_def)

lemma reader_count_step [simp]: "po_reader_count (pool_step e p) = po_reader_count p"
  by (cases e) (simp_all add: async_acquire_writer_def async_acquire_reader_def complete_writer_def complete_reader_def
      writer_lease_release_def reader_lease_release_def cancel_writer_waiter_def cancel_reader_waiter_def Let_def split: list.split)

lemma reader_count_run [simp]: "po_reader_count (fold pool_step es p) = po_reader_count p"
  by (induction es arbitrary: p) auto

section \<open>Exclusive leases and no lost waiters\<close>

lemma queued_needs_holder:
  assumes "pool_inv p" "po_posted p = []"
  shows "po_writer_waiters p \<noteq> [] \<Longrightarrow> po_writer_leases p = 1"
    and "po_reader_waiters p \<noteq> [] \<Longrightarrow> mset (po_reader_leases p) = mset [0..<po_reader_count p]"
  using assms by (auto simp: pool_inv_def connections_inv_def)

text \<open>
  C18: After any sequence of acquisitions, releases, cancellations and executor tasks on an opened
  pool, at most one writer lease is live and it excludes a reserved writer; every reader
  connection is in exactly one place (free, leased, or reserved for a waiter); every acquisition
  made so far is waiting or has been answered, and is answered at most once; and whenever no
  grant is in flight, a queued writer waits for a live writer lease and a queued reader for all
  reader connections to be leased, so no wake-up is lost.
\<close>

theorem pool_exclusive_and_fair:
  assumes "pool_open conn o1 = Inr p0" and "p = fold pool_step es p0"
  shows "po_writer_leases p + writer_grants (po_posted p) \<le> 1 \<and>
     mset (po_free_readers p @ po_reader_leases p @ granted_slots (po_posted p)) = mset [0..<pl_reader_count o1] \<and>
     distinct (map fst (po_answers p)) \<and> fst ` set (po_answers p) \<union> set (waiting p) = {..<po_next p} \<and>
     (po_posted p = [] \<and> po_writer_waiters p \<noteq> [] \<longrightarrow> po_writer_leases p = 1) \<and>
     (po_posted p = [] \<and> po_reader_waiters p \<noteq> [] \<longrightarrow> mset (po_reader_leases p) = mset [0..<pl_reader_count o1])"
proof -
  have inv: "pool_inv p" and count: "po_reader_count p = pl_reader_count o1"
    using pool_open_inv [OF assms(1)] pool.run_inv [of p0 es] by (auto simp: assms(2) list_all_iff)
  then have "connections_inv p" "waiters_inv p" by (simp_all add: pool_inv_def)
  then show ?thesis using queued_needs_holder [OF inv] count
    by (intro conjI) (simp_all add: connections_inv_def waiters_inv_def answered_def add.assoc Un_commute)
qed

definition demo_pool_options :: pool_options where
  "demo_pool_options = \<lparr>pl_path = ''db'', pl_reader_count = 2, pl_cache_capacity = 4, pl_busy_timeout_ms = 5000, pl_enable_wal = True,
     pl_enforce_foreign_keys = True\<rparr>"

definition demo_pool :: pool where
  "demo_pool = \<lparr>po_reader_count = 2, po_writer_busy = False, po_free_readers = [0, 1], po_writer_waiters = [],
     po_reader_waiters = [], po_status = (\<lambda>_. WPending), po_next = 0, po_posted = [], po_writer_leases = 0, po_reader_leases = [],
     po_answers = []\<rparr>"

lemma demo_pool_open: "pool_open (\<lambda>_ _. Inr ()) demo_pool_options = Inr demo_pool"
  by (simp add: pool_open_def demo_pool_options_def demo_pool_def cache_open_def numeral_2_eq_2)

text \<open>A second writer queues, the first one releases, the queued one is cancelled before its grant runs and the writer becomes free again.\<close>

definition demo_pool_events :: "pool_event list" where
  "demo_pool_events = [AcquireWriter False, AcquireWriter False, ReleaseWriter, CancelWriter 1, RunPosted (GrantWriter 1), AcquireReader False]"

theorem pool_exclusive_and_fair_witness:
  "(let p = fold pool_step demo_pool_events demo_pool in
     po_writer_leases p + writer_grants (po_posted p) \<le> 1 \<and> po_answers p = [(0, Leased), (1, WaitCancelled), (2, Leased)] \<and>
     \<not> po_writer_busy p \<and> po_reader_leases p = [0])"
proof -
  have "fold pool_step demo_pool_events demo_pool =
      demo_pool\<lparr>po_free_readers := [1], po_status := (\<lambda>_. WPending)(0 := WGranted, 1 := WCancelled, Suc 1 := WGranted), po_next := 3,
        po_reader_leases := [0], po_answers := [(0, Leased), (1, WaitCancelled), (2, Leased)]\<rparr>"
    by (simp add: demo_pool_events_def demo_pool_def async_acquire_writer_def async_acquire_reader_def complete_writer_def complete_reader_def
        writer_lease_release_def release_writer_def waits_writer_def cancel_writer_waiter_def grant_writer_waiter_def)
  then show ?thesis
    using pool_exclusive_and_fair [OF demo_pool_open refl, of demo_pool_events] by (simp add: Let_def demo_pool_def)
qed

end
