(* ===== verification/Core_Effect.thy ===== *)
theory Core_Effect
  imports Core_Error
begin

text \<open>
  Fallible steps over a state: a function that returns a result and the state it leaves, whether
  or not it fails. \<open>ebind\<close> is the sequence of the source with its early return, \<open>valid\<close> a Hoare triple
  whose last condition covers the failing runs.
\<close>

type_synonym ('s, 'a) eff = "'s \<Rightarrow> 'a result \<times> 's"

definition eret :: "'a \<Rightarrow> ('s, 'a) eff" where
  "eret x = (\<lambda>s. (Inr x, s))"

definition efail :: "core_error \<Rightarrow> ('s, 'a) eff" where
  "efail e = (\<lambda>s. (Inl e, s))"

definition elift :: "'a result \<Rightarrow> ('s, 'a) eff" where
  "elift r = (\<lambda>s. (r, s))"

definition ebind :: "('s, 'a) eff \<Rightarrow> ('a \<Rightarrow> ('s, 'b) eff) \<Rightarrow> ('s, 'b) eff" where
  "ebind m f = (\<lambda>s. case m s of (Inl e, t) \<Rightarrow> (Inl e, t) | (Inr x, t) \<Rightarrow> f x t)"

definition egets :: "('s \<Rightarrow> 'a) \<Rightarrow> ('s, 'a) eff" where
  "egets g = (\<lambda>s. (Inr (g s), s))"

definition emodify :: "('s \<Rightarrow> 's) \<Rightarrow> ('s, unit) eff" where
  "emodify g = (\<lambda>s. (Inr (), g s))"

definition emap_error :: "(core_error \<Rightarrow> core_error) \<Rightarrow> ('s, 'a) eff \<Rightarrow> ('s, 'a) eff" where
  "emap_error g m = (\<lambda>s. case m s of (Inl e, t) \<Rightarrow> (Inl (g e), t) | (Inr x, t) \<Rightarrow> (Inr x, t))"

definition valid :: "('s \<Rightarrow> bool) \<Rightarrow> ('s, 'a) eff \<Rightarrow> ('a \<Rightarrow> 's \<Rightarrow> bool) \<Rightarrow> ('s \<Rightarrow> bool) \<Rightarrow> bool" where
  "valid P m Q E \<longleftrightarrow> (\<forall>s. P s \<longrightarrow> (case m s of (Inl e, t) \<Rightarrow> E t | (Inr x, t) \<Rightarrow> Q x t))"

lemma ebind_eq_Inr_iff:
  "ebind m f s = (Inr y, u) \<longleftrightarrow> (\<exists>x t. m s = (Inr x, t) \<and> f x t = (Inr y, u))"
  by (auto simp: ebind_def split: prod.splits sum.splits)

lemma ebind_run [simp]:
  "ebind (eret x) f1 = f1 x" "ebind (efail e) f2 = efail e" "ebind (egets g) f3 s = f3 (g s) s" "ebind (emodify h) f4 t = f4 () (h t)"
  "ebind (elift (Inr y)) f5 = f5 y" "ebind (elift (Inl e')) f6 = efail e'"
  by (auto simp: ebind_def eret_def efail_def egets_def emodify_def elift_def)

lemma eff_apply:
  "eret x s = (Inr x, s)" "efail e s = (Inl e, s)" "egets g s = (Inr (g s), s)" "emodify h t = (Inr (), h t)" "elift r s = (r, s)"
  by (simp_all add: eret_def efail_def egets_def emodify_def elift_def)

lemma ebind_assoc: "ebind (ebind m f) g = ebind m (\<lambda>x. ebind (f x) g)"
  by (auto simp: ebind_def fun_eq_iff split: prod.splits sum.splits)

lemma valid_bind [intro]:
  assumes "valid P m Q E" "\<And>x. valid (Q x) (f x) R E"
  shows "valid P (ebind m f) R E"
  unfolding valid_def
proof (intro allI impI)
  fix s assume "P s"
  then have 1: "case m s of (Inl e, t) \<Rightarrow> E t | (Inr x, t) \<Rightarrow> Q x t" using assms(1) by (simp add: valid_def)
  show "case ebind m f s of (Inl e, t) \<Rightarrow> E t | (Inr x, t) \<Rightarrow> R x t"
  proof (cases "m s")
    case (Pair r t)
    show ?thesis
    proof (cases r)
      case (Inr x)
      then have "Q x t" using 1 Pair by simp
      then show ?thesis using assms(2) [of x] Pair Inr by (simp add: valid_def ebind_def)
    qed (use 1 Pair in \<open>simp add: ebind_def\<close>)
  qed
qed

lemma valid_ret: "(\<And>s. P s \<Longrightarrow> Q x s) \<Longrightarrow> valid P (eret x) Q E"
  by (simp add: valid_def eret_def)

lemma valid_fail: "(\<And>s. P s \<Longrightarrow> E s) \<Longrightarrow> valid P (efail e) Q E"
  by (simp add: valid_def efail_def)

lemma valid_lift: "(\<And>s x. P s \<Longrightarrow> r = Inr x \<Longrightarrow> Q x s) \<Longrightarrow> (\<And>s. P s \<Longrightarrow> E s) \<Longrightarrow> valid P (elift r) Q E"
  by (auto simp: valid_def elift_def split: sum.split)

lemma valid_gets: "(\<And>s. P s \<Longrightarrow> Q (g s) s) \<Longrightarrow> valid P (egets g) Q E"
  by (simp add: valid_def egets_def)

lemma valid_modify: "(\<And>s. P s \<Longrightarrow> Q () (g s)) \<Longrightarrow> valid P (emodify g) Q E"
  by (simp add: valid_def emodify_def)

lemma valid_map_error: "valid P m Q E \<Longrightarrow> valid P (emap_error g m) Q E"
  by (fastforce simp: valid_def emap_error_def split: prod.split sum.split)

lemma valid_weaken:
  "valid P m Q E \<Longrightarrow> (\<And>s. P' s \<Longrightarrow> P s) \<Longrightarrow> (\<And>x s. Q x s \<Longrightarrow> Q' x s) \<Longrightarrow> (\<And>s. E s \<Longrightarrow> E' s) \<Longrightarrow> valid P' m Q' E'"
  by (fastforce simp: valid_def split: prod.split sum.split)

lemma validD:
  "valid P m Q E \<Longrightarrow> P s \<Longrightarrow> m s = (Inr x, t) \<Longrightarrow> Q x t"
  "valid P m Q E \<Longrightarrow> P s \<Longrightarrow> m s = (Inl e, t) \<Longrightarrow> E t"
  by (force simp: valid_def)+

end
