(* ===== verification/Storage_Migrations.thy ===== *)
theory Storage_Migrations
  imports Core_Effect
begin

text \<open>
  \<^verbatim>\<open>oran-storage/migrations.cpp\<close>: the schema of a database is brought up to date by numbered SQL
  files, each in its own immediate transaction that also records its number. The database is
  the table of recorded versions and everything else; SQL text is a parameter that acts on
  everything else. Every call of SQLite may fail, and other connections may change the database
  whenever this one is not inside a transaction: both are parameters, indexed by the number of
  calls made. A transaction that is not committed leaves the database as it found it.
\<close>

section \<open>Data\<close>

record migration =
  mg_version :: int
  mg_name :: string
  mg_sql :: string

record migration_report =
  mr_previous_version :: int
  mr_current_version :: int
  mr_applied_versions :: "int list"

record 'd database =
  db_versions :: "(int \<times> string option) list option"
  db_content :: 'd

record 'd sql_world =
  sw_exec :: "string \<Rightarrow> 'd \<Rightarrow> 'd result"
  sw_fault :: "nat \<Rightarrow> core_error option"
  sw_others :: "nat \<Rightarrow> 'd database \<Rightarrow> 'd database"
  sw_no_table :: core_error
  sw_constraint :: core_error

record 'd connection =
  co_db :: "'d database"
  co_calls :: nat

section \<open>Validation\<close>

definition migration_file_version_width :: nat where "migration_file_version_width = 4"
definition max_migration_file_bytes :: nat where "max_migration_file_bytes = 8 * 1024 * 1024"

definition attach_migration_context :: "migration \<Rightarrow> core_error \<Rightarrow> core_error" where
  "attach_migration_context m e = with_ctx ''migration_name'' (mg_name m) (with_ctx ''migration_version'' (show_int (mg_version m)) e)"

fun validate_from :: "int \<Rightarrow> migration list \<Rightarrow> unit result" where
  "validate_from expected [] = Inr ()"
| "validate_from expected (m # ms) =
     (if mg_version m \<le> 0 then Inl (with_ctx ''migration_version'' (show_int (mg_version m))
          (err_invalid_argument ''migration version must be positive''))
      else if mg_version m \<noteq> expected then Inl (with_ctx ''actual_version'' (show_int (mg_version m))
          (with_ctx ''expected_version'' (show_int expected) (err_invalid_argument ''migration versions must be contiguous from 1'')))
      else if mg_name m = [] then Inl (with_ctx ''migration_version'' (show_int (mg_version m))
          (err_invalid_argument ''migration name must not be empty''))
      else if mg_sql m = [] then Inl (with_ctx ''migration_name'' (mg_name m) (with_ctx ''migration_version'' (show_int (mg_version m))
          (err_invalid_argument ''migration sql must not be empty'')))
      else validate_from (expected + 1) ms)"

definition validate_migration_list :: "migration list \<Rightarrow> unit result" where
  "validate_migration_list ms = validate_from 1 ms"

definition parse_version :: "string \<Rightarrow> int result" where
  "parse_version s = (case from_chars_i64 s of Some v \<Rightarrow> Inr v
     | None \<Rightarrow> Inl (with_ctx ''version_text'' s (err_storage ''schema_versions contains an invalid version'')))"

definition row_version :: "string option list \<Rightarrow> int result" where
  "row_version vals = (case vals of Some t # _ \<Rightarrow> parse_version t
     | _ \<Rightarrow> Inl (err_storage ''schema_versions row is missing version''))"

fun row_versions :: "string option list list \<Rightarrow> int list result" where
  "row_versions [] = Inr []"
| "row_versions (r # rs) = rbind (row_version r) (\<lambda>v. rbind (row_versions rs) (\<lambda>vs. Inr (v # vs)))"

fun contiguous_from :: "int \<Rightarrow> int list \<Rightarrow> unit result" where
  "contiguous_from expected [] = Inr ()"
| "contiguous_from expected (v # vs) =
     (if v \<noteq> expected then Inl (with_ctx ''actual_version'' (show_int v) (with_ctx ''expected_version'' (show_int expected)
        (make_error conflict_kind ''schema_versions is not contiguous'')))
      else contiguous_from (expected + 1) vs)"

definition validate_applied_versions :: "int list \<Rightarrow> nat \<Rightarrow> int result" where
  "validate_applied_versions vs n =
     rbind (contiguous_from 1 vs) (\<lambda>_. let current = (if vs = [] then 0 else last vs) in
       if current > int n then Inl (with_ctx ''migration_count'' (show_nat n) (with_ctx ''current_version'' (show_int current)
         (make_error conflict_kind ''database schema is newer than migration set'')))
       else Inr current)"

section \<open>Calls of SQLite\<close>

definition sql_call :: "'d sql_world \<Rightarrow> ('d connection, unit) eff" where
  "sql_call w c = (case sw_fault w (co_calls c) of
     Some e \<Rightarrow> (Inl e, c\<lparr>co_calls := co_calls c + 1\<rparr>) | None \<Rightarrow> (Inr (), c\<lparr>co_calls := co_calls c + 1\<rparr>))"

definition others_run :: "'d sql_world \<Rightarrow> ('d connection, unit) eff" where
  "others_run w = emodify (\<lambda>c. c\<lparr>co_db := sw_others w (co_calls c) (co_db c)\<rparr>)"

definition create_schema_versions :: "'d sql_world \<Rightarrow> ('d connection, unit) eff" where
  "create_schema_versions w = ebind (others_run w) (\<lambda>_. ebind (sql_call w) (\<lambda>_.
     emodify (\<lambda>c. c\<lparr>co_db := (co_db c)\<lparr>db_versions := Some (case db_versions (co_db c) of None \<Rightarrow> [] | Some rows \<Rightarrow> rows)\<rparr>\<rparr>)))"

definition query_versions :: "'d sql_world \<Rightarrow> ('d connection, string option list list) eff" where
  "query_versions w = ebind (sql_call w) (\<lambda>_. ebind (egets (\<lambda>c. db_versions (co_db c))) (\<lambda>t. case t of
     None \<Rightarrow> efail (sw_no_table w)
   | Some rows \<Rightarrow> eret (map (\<lambda>(v, _). [Some (show_int v)]) (sort_key fst rows))))"

definition read_applied_versions :: "'d sql_world \<Rightarrow> ('d connection, int list) eff" where
  "read_applied_versions w = ebind (query_versions w) (\<lambda>rows. elift (row_versions rows))"

definition record_migration :: "'d sql_world \<Rightarrow> migration \<Rightarrow> ('d connection, unit) eff" where
  "record_migration w m =
     ebind (sql_call w) (\<lambda>_. ebind (sql_call w) (\<lambda>_. ebind (sql_call w) (\<lambda>_.
     ebind (egets (\<lambda>c. db_versions (co_db c))) (\<lambda>t. case t of
       None \<Rightarrow> efail (sw_no_table w)
     | Some rows \<Rightarrow>
         if mg_version m \<in> fst ` set rows then efail (sw_constraint w)
         else emodify (\<lambda>c. c\<lparr>co_db := (co_db c)\<lparr>db_versions := Some (rows @ [(mg_version m, Some (mg_name m))])\<rparr>\<rparr>)))))"

definition recorded_migration_name :: "'d sql_world \<Rightarrow> int \<Rightarrow> ('d connection, string option) eff" where
  "recorded_migration_name w v =
     ebind (sql_call w) (\<lambda>_. ebind (sql_call w) (\<lambda>_. ebind (sql_call w) (\<lambda>_.
     ebind (egets (\<lambda>c. db_versions (co_db c))) (\<lambda>t. case t of
       None \<Rightarrow> efail (sw_no_table w)
     | Some rows \<Rightarrow> (case map_of rows v of
         None \<Rightarrow> eret None
       | Some name \<Rightarrow> ebind (sql_call w) (\<lambda>_. (case name of
           None \<Rightarrow> efail (with_ctx ''migration_version'' (show_int v) (err_storage ''schema_versions row is missing migration name''))
         | Some n \<Rightarrow> eret (Some n))))))))"

section \<open>Applying migrations\<close>

definition execute_migration :: "'d sql_world \<Rightarrow> migration \<Rightarrow> ('d connection, unit) eff" where
  "execute_migration w m = ebind (sql_call w) (\<lambda>_. ebind (egets (\<lambda>c. sw_exec w (mg_sql m) (db_content (co_db c)))) (\<lambda>r.
     ebind (elift r) (\<lambda>d. emodify (\<lambda>c. c\<lparr>co_db := (co_db c)\<lparr>db_content := d\<rparr>\<rparr>))))"

text \<open>The destructor of \<^verbatim>\<open>Transaction\<close>: a body that fails, or a commit that fails, is rolled back.\<close>

definition in_transaction :: "'d sql_world \<Rightarrow> ('d connection, 'a) eff \<Rightarrow> ('d connection, 'a) eff" where
  "in_transaction w body = ebind (others_run w) (\<lambda>_. ebind (sql_call w) (\<lambda>_ c.
     (case ebind body (\<lambda>x. ebind (sql_call w) (\<lambda>_. eret x)) c of
        (Inl e, c') \<Rightarrow> (Inl e, c'\<lparr>co_db := co_db c\<rparr>)
      | (Inr x, c') \<Rightarrow> (Inr x, c'))))"

definition migration_body :: "'d sql_world \<Rightarrow> migration \<Rightarrow> nat \<Rightarrow> ('d connection, bool) eff" where
  "migration_body w m n =
     ebind (read_applied_versions w) (\<lambda>vs. ebind (elift (validate_applied_versions vs n)) (\<lambda>_.
     ebind (recorded_migration_name w (mg_version m)) (\<lambda>recorded. case recorded of
       Some name \<Rightarrow>
         if name \<noteq> mg_name m
         then efail (with_ctx ''recorded_name'' name (make_error conflict_kind ''migration version was applied with a different name''))
         else eret False
     | None \<Rightarrow> ebind (execute_migration w m) (\<lambda>_. ebind (record_migration w m) (\<lambda>_. eret True)))))"

definition apply_migration :: "'d sql_world \<Rightarrow> migration \<Rightarrow> nat \<Rightarrow> ('d connection, bool) eff" where
  "apply_migration w m n = emap_error (attach_migration_context m) (in_transaction w (migration_body w m n))"

fun apply_pending :: "'d sql_world \<Rightarrow> nat \<Rightarrow> migration list \<Rightarrow> migration_report \<Rightarrow> ('d connection, migration_report) eff" where
  "apply_pending w n [] report = eret report"
| "apply_pending w n (m # ms) report =
     (if mg_version m \<le> mr_current_version report then apply_pending w n ms report
      else ebind (apply_migration w m n) (\<lambda>applied. apply_pending w n ms
        (report\<lparr>mr_current_version := mg_version m,
          mr_applied_versions := mr_applied_versions report @ (if applied then [mg_version m] else [])\<rparr>)))"

definition run_migrations :: "'d sql_world \<Rightarrow> migration list \<Rightarrow> ('d connection, migration_report) eff" where
  "run_migrations w ms =
     ebind (elift (validate_migration_list ms)) (\<lambda>_.
     ebind (create_schema_versions w) (\<lambda>_.
     ebind (others_run w) (\<lambda>_.
     ebind (read_applied_versions w) (\<lambda>vs.
     ebind (elift (validate_applied_versions vs (length ms))) (\<lambda>current.
       apply_pending w (length ms) ms \<lparr>mr_previous_version = current, mr_current_version = current, mr_applied_versions = []\<rparr>)))))"

section \<open>Loading migrations from a directory\<close>

text \<open>
  The file system is a parameter: what each call answers for an entry of the directory. An error
  code is its message.
\<close>

record dir_entry =
  de_path :: string
  de_name :: string
  de_regular :: "string + bool"
  de_size :: "string + nat"
  de_open :: bool
  de_read :: "string option"
  de_next :: "string option"

datatype dir_status = StatFailed bool string | StatMissing | StatOther | StatDirectory

definition io_error :: "string \<Rightarrow> string \<Rightarrow> string option \<Rightarrow> core_error" where
  "io_error msg path ec = (let e = with_ctx ''path'' path (err_io msg) in case ec of None \<Rightarrow> e | Some m \<Rightarrow> with_ctx ''system_error'' m e)"

definition invalid_migration_file :: "string \<Rightarrow> string \<Rightarrow> core_error" where
  "invalid_migration_file msg path = with_ctx ''path'' path (err_invalid_argument msg)"

definition parse_migration_file_version :: "string \<Rightarrow> string \<Rightarrow> int result" where
  "parse_migration_file_version t path =
     (if length t \<noteq> migration_file_version_width \<or> \<not> list_all is_digit t
      then Inl (invalid_migration_file ''migration filename version must be four digits'' path)
      else case from_chars_i64 t of
        Some v \<Rightarrow> if v \<le> 0 then Inl (invalid_migration_file ''migration filename version must be positive'' path) else Inr v
      | None \<Rightarrow> Inl (invalid_migration_file ''migration filename version must be positive'' path))"

definition split_migration_name :: "string \<Rightarrow> string \<Rightarrow> (string \<times> string) result" where
  "split_migration_name name path =
     (if \<not> suffix ''.sql'' name then Inl (invalid_migration_file ''migration file must use the .sql extension'' path)
      else let stem = take (length name - 4) name; separator = length (takeWhile (\<lambda>c. c \<noteq> CHR ''-'') stem) in
        if CHR ''-'' \<notin> set stem \<or> separator \<noteq> migration_file_version_width \<or> separator + 1 = length stem
        then Inl (invalid_migration_file ''migration filename must match 0001-name.sql'' path)
        else Inr (take separator stem, drop (separator + 1) stem))"

definition load_migration_file :: "dir_entry \<Rightarrow> migration result" where
  "load_migration_file d =
     rbind (split_migration_name (de_name d) (de_path d)) (\<lambda>(digits, name).
     rbind (parse_migration_file_version digits (de_path d)) (\<lambda>version.
       case de_size d of
         Inl m \<Rightarrow> Inl (io_error ''failed to stat migration file'' (de_path d) (Some m))
       | Inr bytes \<Rightarrow>
           if bytes > max_migration_file_bytes
           then Inl (with_ctx ''max_bytes'' (show_nat max_migration_file_bytes) (with_ctx ''size'' (show_nat bytes)
             (with_ctx ''path'' (de_path d) (err_invalid_argument ''migration file exceeds size limit''))))
           else if \<not> de_open d then Inl (io_error ''failed to open migration file'' (de_path d) None)
           else (case de_read d of
               None \<Rightarrow> Inl (io_error ''failed to read migration file'' (de_path d) None)
             | Some sql \<Rightarrow> Inr \<lparr>mg_version = version, mg_name = name, mg_sql = sql\<rparr>)))"

fun load_entries :: "string \<Rightarrow> dir_entry list \<Rightarrow> migration list result" where
  "load_entries root [] = Inr []"
| "load_entries root (d # ds) =
     (case de_regular d of
        Inl m \<Rightarrow> Inl (io_error ''failed to inspect migration file'' (de_path d) (Some m))
      | Inr regular \<Rightarrow>
          rbind (if regular then rbind (load_migration_file d) (\<lambda>m. Inr [m]) else Inr []) (\<lambda>here.
          (case de_next d of
             Some m \<Rightarrow> Inl (io_error ''failed to read migration directory'' root (Some m))
           | None \<Rightarrow> rbind (load_entries root ds) (\<lambda>rest. Inr (here @ rest)))))"

definition load_migrations_from_directory :: "string \<Rightarrow> dir_status \<Rightarrow> string + dir_entry list \<Rightarrow> migration list result" where
  "load_migrations_from_directory dir status listing =
     (if dir = [] then Inl (err_invalid_argument ''migration directory must not be empty'')
      else (case status of
        StatFailed missing m \<Rightarrow> if missing then Inl (with_ctx ''path'' dir (err_not_found ''migration directory does not exist''))
          else Inl (io_error ''failed to inspect migration directory'' dir (Some m))
      | StatMissing \<Rightarrow> Inl (with_ctx ''path'' dir (err_not_found ''migration directory does not exist''))
      | StatOther \<Rightarrow> Inl (invalid_migration_file ''migration path must be a directory'' dir)
      | StatDirectory \<Rightarrow> (case listing of
          Inl m \<Rightarrow> Inl (io_error ''failed to open migration directory'' dir (Some m))
        | Inr entries \<Rightarrow> rbind (load_entries dir entries) (\<lambda>ms.
            if ms = [] then Inl (with_ctx ''path'' dir (err_invalid_argument ''migration directory contains no migration files''))
            else let sorted = sort_key mg_version ms in rbind (validate_migration_list sorted) (\<lambda>_. Inr sorted)))))"

definition run_migrations_from_directory ::
  "'d sql_world \<Rightarrow> string \<Rightarrow> dir_status \<Rightarrow> string + dir_entry list \<Rightarrow> ('d connection, migration_report) eff" where
  "run_migrations_from_directory w dir status listing =
     ebind (elift (load_migrations_from_directory dir status listing)) (run_migrations w)"

text \<open>What a directory yields is valid and does not depend on the order of its entries.\<close>

lemma load_migrations_valid:
  assumes "load_migrations_from_directory dir status listing = Inr ms"
  shows "validate_migration_list ms = Inr () \<and>
    (\<exists>entries found. status = StatDirectory \<and> listing = Inr entries \<and> load_entries dir entries = Inr found \<and> ms = sort_key mg_version found)"
  using assms by (auto simp: load_migrations_from_directory_def Let_def rbind_Inr_iff split: if_splits dir_status.splits sum.splits)

section \<open>Stages of a database\<close>

definition version_rows :: "migration list \<Rightarrow> (int \<times> string option) list" where
  "version_rows ms = map (\<lambda>m. (mg_version m, Some (mg_name m))) ms"

fun run_sql :: "'d sql_world \<Rightarrow> migration list \<Rightarrow> 'd \<Rightarrow> 'd result" where
  "run_sql w [] d = Inr d"
| "run_sql w (m # ms) d = rbind (sw_exec w (mg_sql m) d) (run_sql w ms)"

text \<open>
  A database is at stage \<open>k\<close> when the first \<open>k\<close> migrations are recorded, in order, and its content is
  what running exactly these, once each and in order, makes of the content it started from.
\<close>

definition at_stage :: "'d sql_world \<Rightarrow> migration list \<Rightarrow> 'd \<Rightarrow> nat \<Rightarrow> 'd database \<Rightarrow> bool" where
  "at_stage w ms base k d \<longleftrightarrow> k \<le> length ms \<and> run_sql w (take k ms) base = Inr (db_content d) \<and>
     (db_versions d = Some (version_rows (take k ms)) \<or> k = 0 \<and> db_versions d = None)"

lemma run_sql_append: "run_sql w (xs @ ys) d = rbind (run_sql w xs d) (run_sql w ys)"
proof (induction xs arbitrary: d)
  case (Cons x xs)
  then show ?case by (cases "sw_exec w (mg_sql x) d") simp_all
qed simp

lemma rbind_run_sql_Nil [simp]: "rbind r (run_sql w []) = r"
  by (cases r) simp_all

lemma validate_from_iff:
  "validate_from n ms = Inr () \<longleftrightarrow>
     0 < n \<and> map mg_version ms = map (\<lambda>i. n + int i) [0..<length ms] \<and> (\<forall>m\<in>set ms. mg_name m \<noteq> [] \<and> mg_sql m \<noteq> []) \<or> ms = []"
proof (induction ms arbitrary: n)
  case (Cons m ms)
  have "map (\<lambda>i. n + int i) [0..<length (m # ms)] = n # map (\<lambda>i. n + 1 + int i) [0..<length ms]"
    by (simp add: upt_conv_Cons map_Suc_upt [symmetric] add.assoc del: upt_Suc)
  then show ?case using Cons.IH [of "n + 1"] by (auto simp del: upt_Suc)
qed simp

lemma versions_nth:
  assumes "validate_migration_list ms = Inr ()" "i < length ms"
  shows "mg_version (ms ! i) = int i + 1"
proof -
  have "map mg_version ms = map (\<lambda>i. 1 + int i) [0..<length ms]" using assms by (auto simp: validate_migration_list_def validate_from_iff)
  then have "map mg_version ms ! i = map (\<lambda>i. 1 + int i) [0..<length ms] ! i" by simp
  then show ?thesis using assms(2) by simp
qed

lemma versions_take:
  assumes "validate_migration_list ms = Inr ()" "k \<le> length ms"
  shows "map mg_version (take k ms) = map (\<lambda>i. int i + 1) [0..<k]"
  using assms by (intro nth_equalityI) (simp_all add: versions_nth)

lemma contiguous_versions: "contiguous_from n (map (\<lambda>i. n + int i) [0..<k]) = Inr ()"
proof (induction k arbitrary: n)
  case (Suc k)
  have "map (\<lambda>i. n + int i) [0..<Suc k] = n # map (\<lambda>i. n + 1 + int i) [0..<k]"
    by (simp add: upt_conv_Cons map_Suc_upt [symmetric] add.assoc del: upt_Suc)
  then show ?case using Suc.IH [of "n + 1"] by (simp del: upt_Suc)
qed simp

lemma validate_stage_versions:
  "k \<le> n \<Longrightarrow> validate_applied_versions (map (\<lambda>i. int i + 1) [0..<k]) n = Inr (int k)"
  using contiguous_versions [of 1 k] by (cases k) (simp_all add: validate_applied_versions_def add.commute)

lemma stage_rows_sorted:
  assumes "validate_migration_list ms = Inr ()" "k \<le> length ms"
  shows "sort_key fst (version_rows (take k ms)) = version_rows (take k ms)"
proof (rule sort_key_id_if_sorted)
  have "map fst (version_rows (take k ms)) = map (\<lambda>i. int i + 1) [0..<k]"
    using versions_take [OF assms] by (simp add: version_rows_def comp_def)
  then show "sorted (map fst (version_rows (take k ms)))" by (simp add: sorted_iff_nth_mono)
qed

lemma row_versions_show: "list_all in_i64 vs \<Longrightarrow> row_versions (map (\<lambda>v. [Some (show_int v)]) vs) = Inr vs"
  by (induction vs) (simp_all add: row_version_def parse_version_def from_chars_show_int)

lemma stage_row_versions:
  assumes "validate_migration_list ms = Inr ()" "k \<le> length ms" "int (length ms) \<le> i64_max"
  shows "row_versions (map (\<lambda>(v, _). [Some (show_int v)]) (sort_key fst (version_rows (take k ms)))) = Inr (map (\<lambda>i. int i + 1) [0..<k])"
proof -
  have "map (\<lambda>(v, _). [Some (show_int v)]) (version_rows (take k ms)) = map (\<lambda>v. [Some (show_int v)]) (map mg_version (take k ms))"
    by (simp add: version_rows_def)
  moreover have "list_all in_i64 (map (\<lambda>i. int i + 1) [0..<k])"
    using assms(2,3) by (auto simp: list_all_iff in_i64_def i64_min_def)
  ultimately show ?thesis using row_versions_show [of "map (\<lambda>i. int i + 1) [0..<k]"]
    by (simp add: stage_rows_sorted [OF assms(1,2)] versions_take [OF assms(1,2)])
qed

lemma stage_lookup:
  assumes "validate_migration_list ms = Inr ()" "k \<le> length ms" "i < length ms"
  shows "map_of (version_rows (take k ms)) (int i + 1) = (if i < k then Some (Some (mg_name (ms ! i))) else None)"
proof (cases "i < k")
  case True
  have "distinct (map fst (version_rows (take k ms)))"
    using versions_take [OF assms(1,2)] by (simp add: version_rows_def comp_def distinct_map inj_on_def)
  moreover have "(int i + 1, Some (mg_name (ms ! i))) \<in> set (version_rows (take k ms))"
    using True assms nth_mem [of i "take k ms"] by (auto simp: version_rows_def versions_nth image_iff intro!: bexI [of _ "ms ! i"])
  ultimately show ?thesis using True by simp
next
  case False
  have "fst ` set (version_rows (take k ms)) = set (map mg_version (take k ms))" by (force simp: version_rows_def)
  then have "int i + 1 \<notin> fst ` set (version_rows (take k ms))" using False versions_take [OF assms(1,2)] by auto
  then show ?thesis using False by (simp add: map_of_eq_None_iff)
qed

section \<open>Every call leaves a stage\<close>

lemma valid_sql_call: "valid P (sql_call w) (\<lambda>_. P') E" if "\<And>c n. P c \<Longrightarrow> P' (c\<lparr>co_calls := n\<rparr>)" "\<And>c n. P c \<Longrightarrow> E (c\<lparr>co_calls := n\<rparr>)"
  using that by (auto simp: valid_def sql_call_def split: option.split)

lemma valid_db_call: "valid (\<lambda>c. co_db c = d) (sql_call w) (\<lambda>_ c. co_db c = d) (\<lambda>c. co_db c = d)"
  by (rule valid_sql_call) simp_all

lemma valid_read_versions:
  assumes "validate_migration_list ms = Inr ()" "int (length ms) \<le> i64_max" "at_stage w ms base k d"
  shows "valid (\<lambda>c. co_db c = d) (read_applied_versions w) (\<lambda>vs c. co_db c = d \<and> vs = map (\<lambda>i. int i + 1) [0..<k]) (\<lambda>c. co_db c = d)"
proof -
  let ?text = "\<lambda>rows. map (\<lambda>(v, _). [Some (show_int v)]) (sort_key fst rows)"
  let ?Q = "\<lambda>rows c. co_db c = d \<and> rows = ?text (version_rows (take k ms))"
  have rows: "valid (\<lambda>c. co_db c = d \<and> db_versions d = t) (case t of None \<Rightarrow> efail (sw_no_table w) | Some rows \<Rightarrow> eret (?text rows)) ?Q (\<lambda>c. co_db c = d)" for t
    using assms(3) by (cases t) (auto simp: at_stage_def valid_def eret_def efail_def)
  have "valid (\<lambda>c. co_db c = d) (query_versions w) ?Q (\<lambda>c. co_db c = d)"
    unfolding query_versions_def by (rule valid_bind [OF valid_db_call], rule valid_bind [OF valid_gets rows]) simp
  moreover have "valid (?Q rows) (elift (row_versions rows)) (\<lambda>vs c. co_db c = d \<and> vs = map (\<lambda>i. int i + 1) [0..<k]) (\<lambda>c. co_db c = d)" for rows
    using assms(3) stage_row_versions [OF assms(1) _ assms(2)] by (intro valid_lift) (auto simp: at_stage_def)
  ultimately show ?thesis unfolding read_applied_versions_def by (rule valid_bind)
qed

lemma valid_recorded_name:
  assumes "validate_migration_list ms = Inr ()" "at_stage w ms base k d" "i < length ms"
  shows "valid (\<lambda>c. co_db c = d) (recorded_migration_name w (mg_version (ms ! i)))
    (\<lambda>r c. co_db c = d \<and> db_versions d = Some (version_rows (take k ms)) \<and> r = (if i < k then Some (mg_name (ms ! i)) else None)) (\<lambda>c. co_db c = d)"
    (is "valid ?P _ ?Q ?P")
proof -
  have k: "k \<le> length ms" using assms(2) by (simp add: at_stage_def)
  have found: "valid (\<lambda>c. co_db c = d \<and> db_versions d = t)
    (case t of None \<Rightarrow> efail (sw_no_table w) | Some rows \<Rightarrow> (case map_of rows (mg_version (ms ! i)) of None \<Rightarrow> eret None
        | Some name \<Rightarrow> ebind (sql_call w) (\<lambda>_. (case name of
           None \<Rightarrow> efail (with_ctx ''migration_version'' (show_int (mg_version (ms ! i))) (err_storage ''schema_versions row is missing migration name''))
         | Some n \<Rightarrow> eret (Some n))))) ?Q ?P" for t
  proof (cases "db_versions d = t")
    case t: True
    show ?thesis
    proof (cases t)
      case (Some rows)
      then have "map_of rows (mg_version (ms ! i)) = (if i < k then Some (Some (mg_name (ms ! i))) else None)" "rows = version_rows (take k ms)"
        using assms(2) t stage_lookup [OF assms(1) k assms(3)] versions_nth [OF assms(1,3)] by (auto simp: at_stage_def)
      then show ?thesis using Some t by (auto intro!: valid_ret valid_bind [OF valid_db_call])
    qed (auto intro: valid_fail)
  qed (simp add: valid_def)
  show ?thesis unfolding recorded_migration_name_def
    by (intro valid_bind [OF valid_db_call] valid_bind [OF valid_gets found]) simp
qed

definition reach :: "'d sql_world \<Rightarrow> migration list \<Rightarrow> 'd \<Rightarrow> nat \<Rightarrow> 'd connection \<Rightarrow> bool" where
  "reach w ms base k c \<longleftrightarrow> (\<exists>k'\<ge>k. at_stage w ms base k' (co_db c))"

lemma reach_mono: "reach w ms base j c \<Longrightarrow> k \<le> j \<Longrightarrow> reach w ms base k c"
  by (auto simp: reach_def intro: le_trans)

lemma valid_execute_record:
  assumes "validate_migration_list ms = Inr ()" "at_stage w ms base i d" "db_versions d = Some (version_rows (take i ms))" "i < length ms"
  shows "valid (\<lambda>c. co_db c = d) (ebind (execute_migration w (ms ! i)) (\<lambda>_. ebind (record_migration w (ms ! i)) (\<lambda>_. eret True)))
    (\<lambda>x c. x \<and> at_stage w ms base (Suc i) (co_db c)) (\<lambda>_. True)"
proof -
  have "mg_version (ms ! i) \<notin> fst ` set (version_rows (take i ms))"
    using stage_lookup [OF assms(1) _ assms(4), of i] assms(4) versions_nth [OF assms(1,4)] by (simp add: map_of_eq_None_iff)
  moreover have "run_sql w (take (Suc i) ms) base = sw_exec w (mg_sql (ms ! i)) (db_content d)"
    using assms(2,4) by (auto simp: at_stage_def take_Suc_conv_app_nth run_sql_append split: sum.split elim!: rbind.elims)
  ultimately show ?thesis using assms(2-4)
    by (auto simp: valid_def ebind_def execute_migration_def record_migration_def sql_call_def egets_def emodify_def elift_def eret_def efail_def
        at_stage_def take_Suc_conv_app_nth version_rows_def split: option.splits sum.splits)
qed

lemma valid_migration_body:
  assumes "validate_migration_list ms = Inr ()" "int (length ms) \<le> i64_max" "at_stage w ms base k d" "i \<le> k" "i < length ms"
  shows "valid (\<lambda>c. co_db c = d) (migration_body w (ms ! i) n) (\<lambda>x. reach w ms base (Suc i)) (\<lambda>_. True)"
proof -
  let ?P = "\<lambda>c. co_db c = d"
  let ?R = "\<lambda>r c. co_db c = d \<and> db_versions d = Some (version_rows (take k ms)) \<and> r = (if i < k then Some (mg_name (ms ! i)) else None)"
  have body: "valid (?R r) (case r of
       Some name \<Rightarrow>
         if name \<noteq> mg_name (ms ! i)
         then efail (with_ctx ''recorded_name'' name (make_error conflict_kind ''migration version was applied with a different name''))
         else eret False
     | None \<Rightarrow> ebind (execute_migration w (ms ! i)) (\<lambda>_. ebind (record_migration w (ms ! i)) (\<lambda>_. eret True)))
     (\<lambda>x. reach w ms base (Suc i)) (\<lambda>_. True)" for r
  proof (cases "i < k")
    case True
    then show ?thesis using assms(3) by (cases r) (auto simp: reach_def valid_def eret_def efail_def intro!: exI [of _ k])
  next
    case False
    then have ik: "k = i" using assms(4) by simp
    show ?thesis
    proof (cases "db_versions d = Some (version_rows (take i ms)) \<and> r = None")
      case True
      show ?thesis using assms(3) True unfolding ik
        by (auto intro!: valid_weaken [OF valid_execute_record [OF assms(1) _ _ assms(5)]] simp: reach_def)
    qed (use ik in \<open>auto simp: valid_def\<close>)
  qed
  have read: "valid ?P (read_applied_versions w) (\<lambda>_. ?P) (\<lambda>_. True)"
    using valid_read_versions [OF assms(1-3)] by (rule valid_weaken) auto
  have name: "valid ?P (recorded_migration_name w (mg_version (ms ! i))) ?R (\<lambda>_. True)"
    using valid_recorded_name [OF assms(1,3,5)] by (rule valid_weaken) auto
  show ?thesis unfolding migration_body_def
    by (rule valid_bind [OF read], rule valid_bind [OF valid_lift [where Q = "\<lambda>_. ?P"]]) (auto intro: valid_bind [OF name body])
qed

definition forward :: "'d sql_world \<Rightarrow> migration list \<Rightarrow> 'd \<Rightarrow> bool" where
  "forward w ms base \<longleftrightarrow> (\<forall>j k d. at_stage w ms base k d \<longrightarrow> (\<exists>k'\<ge>k. at_stage w ms base k' (sw_others w j d)))"

lemma valid_others:
  assumes "forward w ms base"
  shows "valid (reach w ms base k) (others_run w) (\<lambda>_. reach w ms base k) E"
  unfolding others_run_def
proof (rule valid_modify)
  fix c assume "reach w ms base k c"
  then obtain k' where k': "k \<le> k'" "at_stage w ms base k' (co_db c)" by (auto simp: reach_def)
  then obtain k'' where "k' \<le> k''" "at_stage w ms base k'' (sw_others w (co_calls c) (co_db c))" using assms k'(2) unfolding forward_def by blast
  then show "reach w ms base k (c\<lparr>co_db := sw_others w (co_calls c) (co_db c)\<rparr>)" using k'(1) by (auto simp: reach_def intro!: exI [of _ k''])
qed

lemma valid_reach_call: "valid (reach w ms base k) (sql_call w) (\<lambda>_. reach w ms base k) (reach w ms base k)"
  by (rule valid_sql_call) (simp_all add: reach_def)

lemma valid_in_transaction:
  assumes "forward w ms base" and "\<And>d k'. k \<le> k' \<Longrightarrow> at_stage w ms base k' d \<Longrightarrow> valid (\<lambda>c. co_db c = d) body Q (\<lambda>_. True)"
    and "\<And>x c n. Q x c \<Longrightarrow> Q x (c\<lparr>co_calls := n\<rparr>)"
  shows "valid (reach w ms base k) (in_transaction w body) Q (reach w ms base k)"
  unfolding in_transaction_def
proof (rule valid_bind [OF valid_others [OF assms(1)]], rule valid_bind [OF valid_reach_call])
  let ?all = "ebind body (\<lambda>x. ebind (sql_call w) (\<lambda>_. eret x))"
  show "valid (reach w ms base k) (\<lambda>c. case ?all c of (Inl e, c') \<Rightarrow> (Inl e, c'\<lparr>co_db := co_db c\<rparr>) | (Inr x, c') \<Rightarrow> (Inr x, c')) Q (reach w ms base k)"
    unfolding valid_def
  proof (intro allI impI)
    fix c assume "reach w ms base k c"
    then obtain k' where k': "k \<le> k'" "at_stage w ms base k' (co_db c)" by (auto simp: reach_def)
    have "valid (\<lambda>a. co_db a = co_db c) ?all Q (\<lambda>_. True)"
      by (rule valid_bind [OF assms(2) [OF k']], rule valid_bind [OF valid_sql_call [where P' = "Q x" for x]]) (auto intro: assms(3) valid_ret)
    then show "case case ?all c of (Inl e, c') \<Rightarrow> (Inl e, c'\<lparr>co_db := co_db c\<rparr>) | (Inr x, c') \<Rightarrow> (Inr x, c') of
        (Inl e, t) \<Rightarrow> reach w ms base k t | (Inr x, t) \<Rightarrow> Q x t"
      using k' by (auto simp: valid_def reach_def split: prod.splits sum.splits)
  qed
qed

lemma valid_apply_migration:
  assumes "validate_migration_list ms = Inr ()" "int (length ms) \<le> i64_max" "forward w ms base" "i < length ms"
  shows "valid (reach w ms base i) (apply_migration w (ms ! i) n) (\<lambda>_. reach w ms base (Suc i)) (reach w ms base i)"
  unfolding apply_migration_def
  by (intro valid_map_error valid_in_transaction [OF assms(3)] valid_migration_body [OF assms(1,2) _ _ assms(4)]) (auto simp: reach_def)

section \<open>A run\<close>

definition good_report :: "migration list \<Rightarrow> nat \<Rightarrow> migration_report \<Rightarrow> bool" where
  "good_report ms k r \<longleftrightarrow> int k \<le> mr_previous_version r \<and> mr_previous_version r \<le> mr_current_version r \<and>
     sorted_wrt (<) (mr_applied_versions r) \<and> set (mr_applied_versions r) \<subseteq> {mr_previous_version r<..mr_current_version r}"

lemma valid_apply_pending:
  assumes "validate_migration_list ms = Inr ()" "int (length ms) \<le> i64_max" "forward w ms base"
  shows "i \<le> j \<Longrightarrow> j \<le> length ms \<Longrightarrow> mr_current_version report = int j \<Longrightarrow> good_report ms k report \<Longrightarrow>
    valid (reach w ms base j) (apply_pending w n (drop i ms) report)
      (\<lambda>r c. good_report ms k r \<and> mr_current_version r = int (length ms) \<and> reach w ms base (length ms) c) (reach w ms base j)"
proof (induction "length ms - i" arbitrary: i j report)
  case 0
  then have "j = length ms" by simp
  then show ?case using 0 by (auto intro!: valid_ret)
next
  case (Suc l)
  then have i: "i < length ms" by simp
  then have step: "drop i ms = ms ! i # drop (Suc i) ms" by (simp add: Cons_nth_drop_Suc)
  note v = versions_nth [OF assms(1) i]
  show ?case
  proof (cases "i < j")
    case True
    then have "apply_pending w n (drop i ms) report = apply_pending w n (drop (Suc i) ms) report"
      using Suc.prems(3) v by (simp add: step)
    then show ?thesis using Suc.hyps(1) [of "Suc i" j report] Suc.hyps(2) Suc.prems True by simp
  next
    case False
    then have j: "j = i" using Suc.prems(1) by simp
    let ?r = "\<lambda>x. report\<lparr>mr_current_version := mg_version (ms ! i),
      mr_applied_versions := mr_applied_versions report @ (if x then [mg_version (ms ! i)] else [])\<rparr>"
    have good: "good_report ms k (?r x)" for x
      using Suc.prems(3,4) v j by (force simp: good_report_def sorted_wrt_append)
    have "valid (reach w ms base (Suc i)) (apply_pending w n (drop (Suc i) ms) (?r x))
       (\<lambda>r c. good_report ms k r \<and> mr_current_version r = int (length ms) \<and> reach w ms base (length ms) c) (reach w ms base i)" for x
    proof -
      have "l = length ms - Suc i" using Suc.hyps(2) i by simp
      moreover have "mr_current_version (?r x) = int (Suc i)" using v by simp
      ultimately have "valid (reach w ms base (Suc i)) (apply_pending w n (drop (Suc i) ms) (?r x))
          (\<lambda>r c. good_report ms k r \<and> mr_current_version r = int (length ms) \<and> reach w ms base (length ms) c) (reach w ms base (Suc i))"
        using Suc.hyps(1) [of "Suc i" "Suc i" "?r x"] good [of x] i by (simp del: of_nat_Suc)
      then show ?thesis by (rule valid_weaken) (auto intro: reach_mono)
    qed
    then have "valid (reach w ms base i) (ebind (apply_migration w (ms ! i) n) (\<lambda>x. apply_pending w n (drop (Suc i) ms) (?r x)))
       (\<lambda>r c. good_report ms k r \<and> mr_current_version r = int (length ms) \<and> reach w ms base (length ms) c) (reach w ms base i)"
      by (rule valid_bind [OF valid_apply_migration [OF assms i, of n]])
    then show ?thesis using Suc.prems(3) v j by (simp add: step)
  qed
qed

lemma valid_create: "forward w ms base \<Longrightarrow> valid (reach w ms base k) (create_schema_versions w) (\<lambda>_. reach w ms base k) (reach w ms base k)"
  unfolding create_schema_versions_def
  by (rule valid_bind [OF valid_others], assumption, rule valid_bind [OF valid_reach_call], rule valid_modify)
     (fastforce simp: reach_def at_stage_def version_rows_def)

lemma valid_read_current:
  assumes "validate_migration_list ms = Inr ()" "int (length ms) \<le> i64_max"
  shows "valid (reach w ms base k) (ebind (read_applied_versions w) (\<lambda>vs. elift (validate_applied_versions vs (length ms))))
    (\<lambda>v c. \<exists>j\<ge>k. v = int j \<and> j \<le> length ms \<and> reach w ms base j c) (reach w ms base k)"
  unfolding valid_def
proof (intro allI impI)
  fix c assume "reach w ms base k c"
  then obtain j where j: "k \<le> j" "at_stage w ms base j (co_db c)" by (auto simp: reach_def)
  let ?P = "\<lambda>a. co_db a = co_db c"
  have "valid ?P (ebind (read_applied_versions w) (\<lambda>vs. elift (validate_applied_versions vs (length ms)))) (\<lambda>v a. ?P a \<and> v = int j) ?P"
    using j(2) by (intro valid_bind [OF valid_read_versions [OF assms j(2)]] valid_lift) (auto simp: at_stage_def validate_stage_versions)
  then have "valid ?P (ebind (read_applied_versions w) (\<lambda>vs. elift (validate_applied_versions vs (length ms))))
      (\<lambda>v c. \<exists>j\<ge>k. v = int j \<and> j \<le> length ms \<and> reach w ms base j c) (reach w ms base k)"
    using j by (elim valid_weaken) (auto simp: reach_def at_stage_def)
  then show "case ebind (read_applied_versions w) (\<lambda>vs. elift (validate_applied_versions vs (length ms))) c of
      (Inl e, t) \<Rightarrow> reach w ms base k t | (Inr v, t) \<Rightarrow> \<exists>j\<ge>k. v = int j \<and> j \<le> length ms \<and> reach w ms base j t"
    by (simp add: valid_def)
qed

lemma valid_run_migrations:
  assumes "validate_migration_list ms = Inr ()" "int (length ms) \<le> i64_max" "forward w ms base"
  shows "valid (reach w ms base k) (run_migrations w ms)
    (\<lambda>r c. good_report ms k r \<and> mr_current_version r = int (length ms) \<and> reach w ms base (length ms) c) (reach w ms base k)"
proof -
  have pending: "valid (\<lambda>c. \<exists>j\<ge>k. v = int j \<and> j \<le> length ms \<and> reach w ms base j c)
      (apply_pending w (length ms) ms \<lparr>mr_previous_version = v, mr_current_version = v, mr_applied_versions = []\<rparr>)
      (\<lambda>r c. good_report ms k r \<and> mr_current_version r = int (length ms) \<and> reach w ms base (length ms) c) (reach w ms base k)" for v
  proof (cases "\<exists>j\<ge>k. v = int j \<and> j \<le> length ms")
    case True
    then obtain j where j: "j \<ge> k" "v = int j" "j \<le> length ms" by blast
    then show ?thesis
      using valid_apply_pending [OF assms, of 0 j "\<lparr>mr_previous_version = v, mr_current_version = v, mr_applied_versions = []\<rparr>" k "length ms"]
      by (auto elim!: valid_weaken simp: good_report_def intro: reach_mono)
  qed (auto simp: valid_def)
  show ?thesis unfolding run_migrations_def assms(1) ebind_run
    by (rule valid_bind [OF valid_create [OF assms(3)]], rule valid_bind [OF valid_others [OF assms(3)]])
       (use valid_bind [OF valid_read_current [OF assms(1,2)] pending] in \<open>simp add: ebind_assoc\<close>)
qed

section \<open>Migrating without faults\<close>

definition quiet :: "'d sql_world \<Rightarrow> bool" where
  "quiet w \<longleftrightarrow> (\<forall>n. sw_fault w n = None) \<and> (\<forall>n d. sw_others w n d = d)"

lemma quiet_call [simp]: "quiet w \<Longrightarrow> ebind (sql_call w) f c = f () (c\<lparr>co_calls := co_calls c + 1\<rparr>)"
  by (simp add: quiet_def ebind_def sql_call_def)

lemma quiet_others [simp]: "quiet w \<Longrightarrow> ebind (others_run w) f c = f () c"
  by (simp add: quiet_def others_run_def)

lemma quiet_read:
  assumes "quiet w" "validate_migration_list ms = Inr ()" "int (length ms) \<le> i64_max" "at_stage w ms base k (co_db c)"
    and "db_versions (co_db c) = Some (version_rows (take k ms))"
  shows "ebind (read_applied_versions w) f c = f (map (\<lambda>i. int i + 1) [0..<k]) (c\<lparr>co_calls := co_calls c + 1\<rparr>)"
  using assms stage_row_versions [OF assms(2) _ assms(3), of k]
  by (simp add: read_applied_versions_def query_versions_def ebind_assoc at_stage_def)

lemma quiet_apply:
  assumes "quiet w" "validate_migration_list ms = Inr ()" "int (length ms) \<le> i64_max" "at_stage w ms base i (co_db c)"
    and "db_versions (co_db c) = Some (version_rows (take i ms))" "i < length ms" "run_sql w ms base = Inr d'"
  shows "\<exists>c'. apply_migration w (ms ! i) (length ms) c = (Inr True, c') \<and> at_stage w ms base (Suc i) (co_db c') \<and>
    db_versions (co_db c') = Some (version_rows (take (Suc i) ms))"
proof -
  have "run_sql w (take i ms @ ms ! i # drop (Suc i) ms) base = Inr d'" using assms(6,7) by (simp add: id_take_nth_drop [symmetric])
  then obtain d where d: "sw_exec w (mg_sql (ms ! i)) (db_content (co_db c)) = Inr d"
    using assms(4) by (auto simp: at_stage_def run_sql_append rbind_Inr_iff)
  moreover have "mg_version (ms ! i) \<notin> fst ` set (version_rows (take i ms))" "map_of (version_rows (take i ms)) (mg_version (ms ! i)) = None"
    using stage_lookup [OF assms(2) _ assms(6), of i] assms(6) versions_nth [OF assms(2,6)] by (simp_all add: map_of_eq_None_iff)
  moreover have "run_sql w (take (Suc i) ms) base = Inr d" using assms(4,6) d by (auto simp: at_stage_def take_Suc_conv_app_nth run_sql_append)
  ultimately show ?thesis using assms(1,4-6) validate_stage_versions [of i "length ms"]
    by (simp add: apply_migration_def in_transaction_def emap_error_def migration_body_def ebind_assoc recorded_migration_name_def
        execute_migration_def record_migration_def quiet_read [OF assms(1-3), of base i] at_stage_def eff_apply
        take_Suc_conv_app_nth version_rows_def)
qed

lemma quiet_pending:
  assumes "quiet w" "validate_migration_list ms = Inr ()" "int (length ms) \<le> i64_max" "run_sql w ms base = Inr d'"
  shows "i \<le> j \<Longrightarrow> j \<le> length ms \<Longrightarrow> mr_current_version report = int j \<Longrightarrow> at_stage w ms base j (co_db c) \<Longrightarrow>
    db_versions (co_db c) = Some (version_rows (take j ms)) \<Longrightarrow>
    \<exists>r c'. apply_pending w (length ms) (drop i ms) report c = (Inr r, c') \<and>
      mr_applied_versions r = mr_applied_versions report @ map (\<lambda>i. int i + 1) [j..<length ms]"
proof (induction "length ms - i" arbitrary: i j report c)
  case 0
  then show ?case by (simp add: eff_apply)
next
  case (Suc l)
  then have i: "i < length ms" by simp
  then have step: "drop i ms = ms ! i # drop (Suc i) ms" by (simp add: Cons_nth_drop_Suc)
  note v = versions_nth [OF assms(2) i]
  show ?case
  proof (cases "i < j")
    case True
    then show ?thesis using Suc.hyps(1) [of "Suc i" j report c] Suc.hyps(2) Suc.prems v by (simp add: step)
  next
    case False
    then have j: "j = i" using Suc.prems(1) by simp
    let ?r = "report\<lparr>mr_current_version := mg_version (ms ! i), mr_applied_versions := mr_applied_versions report @ [mg_version (ms ! i)]\<rparr>"
    obtain c1 where c1: "apply_migration w (ms ! i) (length ms) c = (Inr True, c1)" "at_stage w ms base (Suc i) (co_db c1)"
      "db_versions (co_db c1) = Some (version_rows (take (Suc i) ms))"
      using quiet_apply [OF assms(1-3) _ _ i assms(4)] Suc.prems(4,5) j by blast
    have "l = length ms - Suc i" using Suc.hyps(2) i by simp
    from Suc.hyps(1) [OF this _ _ _ c1(2,3), of ?r] obtain r c' where "apply_pending w (length ms) (drop (Suc i) ms) ?r c1 = (Inr r, c')"
      "mr_applied_versions r = mr_applied_versions ?r @ map (\<lambda>i. int i + 1) [Suc i..<length ms]"
      using i v by auto
    then show ?thesis using c1(1) Suc.prems(3) v j i by (auto simp: step ebind_def upt_conv_Cons)
  qed
qed

lemma quiet_run:
  assumes "quiet w" "validate_migration_list ms = Inr ()" "int (length ms) \<le> i64_max" "run_sql w ms base = Inr d'" "at_stage w ms base k (co_db c)"
  shows "\<exists>r c'. run_migrations w ms c = (Inr r, c') \<and> mr_applied_versions r = map (\<lambda>i. int i + 1) [k..<length ms]"
proof -
  define c1 where "c1 = c\<lparr>co_calls := co_calls c + 1, co_db := (co_db c)\<lparr>db_versions := Some (version_rows (take k ms))\<rparr>\<rparr>"
  let ?r = "\<lparr>mr_previous_version = int k, mr_current_version = int k, mr_applied_versions = []\<rparr>"
  have create: "ebind (create_schema_versions w) f c = f () c1" for f :: "unit \<Rightarrow> ('a connection, 'b) eff"
    using assms(1,5) by (auto simp: create_schema_versions_def ebind_assoc at_stage_def version_rows_def c1_def)
  have stage: "at_stage w ms base k (co_db c1)" "k \<le> length ms" "db_versions (co_db c1) = Some (version_rows (take k ms))"
    using assms(5) by (auto simp: at_stage_def c1_def)
  have "run_migrations w ms c = apply_pending w (length ms) ms ?r (c1\<lparr>co_calls := co_calls c1 + 1\<rparr>)"
    by (simp add: run_migrations_def assms(1,2) create quiet_read [OF assms(1-3) stage(1,3)] validate_stage_versions stage(2))
  then show ?thesis using quiet_pending [OF assms(1-4), of 0 k ?r "c1\<lparr>co_calls := co_calls c1 + 1\<rparr>"] stage by simp
qed

text \<open>
  C20: Migrations are applied exactly once and in order. Start from a database at some stage, let
  every call of SQLite fail at will and let other processes move the database to later stages
  whenever no transaction is open: the run leaves the database at a stage that is not earlier,
  also when it fails half way, and when it succeeds the database is at the last stage and the
  report lists, in increasing order, only versions beyond the one it started from. Without
  faults and interference it succeeds and applies exactly the missing migrations.
\<close>

theorem migrations_exactly_once:
  assumes "validate_migration_list ms = Inr ()" and "int (length ms) \<le> i64_max" and "forward w ms base"
    and "at_stage w ms base k (co_db c)" and "run_migrations w ms c = (r, c')"
  shows "(\<exists>k'\<ge>k. at_stage w ms base k' (co_db c') \<and> (is_ok r \<longrightarrow> k' = length ms)) \<and>
    (\<forall>rep. r = Inr rep \<longrightarrow> good_report ms k rep \<and> mr_current_version rep = int (length ms)) \<and>
    (quiet w \<and> is_ok (run_sql w ms base) \<longrightarrow> (\<exists>rep. r = Inr rep \<and> mr_applied_versions rep = map (\<lambda>i. int i + 1) [k..<length ms]))"
proof -
  have "reach w ms base k c" using assms(4) by (auto simp: reach_def)
  note run = validD [OF valid_run_migrations [OF assms(1-3)] this]
  have "\<exists>k'\<ge>k. at_stage w ms base k' (co_db c') \<and> (is_ok r \<longrightarrow> k' = length ms)"
  proof (cases r)
    case (Inl e)
    then show ?thesis using run(2) assms(5) by (auto simp: reach_def)
  next
    case (Inr rep)
    then have "reach w ms base (length ms) c'" using run(1) assms(5) by simp
    then show ?thesis using assms(4) by (auto simp: reach_def at_stage_def)
  qed
  moreover have "good_report ms k rep \<and> mr_current_version rep = int (length ms)" if "r = Inr rep" for rep
    using run(1) assms(5) that by simp
  moreover have "\<exists>rep. r = Inr rep \<and> mr_applied_versions rep = map (\<lambda>i. int i + 1) [k..<length ms]" if "quiet w" "is_ok (run_sql w ms base)"
    using quiet_run [OF that(1) assms(1,2) _ assms(4)] that(2) assms(5) by (auto simp: is_ok_iff)
  ultimately show ?thesis by blast
qed

text \<open>Two migrations that append their text, on an empty database in a quiet world.\<close>

definition demo_migrations :: "migration list" where
  "demo_migrations = [\<lparr>mg_version = 1, mg_name = ''init'', mg_sql = ''a''\<rparr>, \<lparr>mg_version = 2, mg_name = ''more'', mg_sql = ''b''\<rparr>]"

definition demo_world :: "string sql_world" where
  "demo_world = \<lparr>sw_exec = (\<lambda>sql d. Inr (d @ sql)), sw_fault = (\<lambda>_. None), sw_others = (\<lambda>_ d. d), sw_no_table = err_storage ''no such table'',
     sw_constraint = err_storage ''constraint''\<rparr>"

definition demo_connection :: "string connection" where
  "demo_connection = \<lparr>co_db = \<lparr>db_versions = None, db_content = []\<rparr>, co_calls = 0\<rparr>"

theorem migrations_exactly_once_witness:
  "\<exists>rep c'. run_migrations demo_world demo_migrations demo_connection = (Inr rep, c') \<and> mr_applied_versions rep = [1, 2] \<and>
     at_stage demo_world demo_migrations [] 2 (co_db c')"
proof -
  obtain r c' where run: "run_migrations demo_world demo_migrations demo_connection = (r, c')" by fastforce
  have ok: "validate_migration_list demo_migrations = Inr ()" by (simp add: demo_migrations_def validate_migration_list_def)
  have world: "quiet demo_world" "forward demo_world demo_migrations []" "is_ok (run_sql demo_world demo_migrations [])"
    by (auto simp: demo_world_def quiet_def forward_def demo_migrations_def)
  have "at_stage demo_world demo_migrations [] 0 (co_db demo_connection)" by (simp add: at_stage_def demo_connection_def)
  note main = migrations_exactly_once [OF ok _ world(2) this run]
  have "int (length demo_migrations) \<le> i64_max" by (simp add: demo_migrations_def i64_max_def)
  from main [OF this] world run show ?thesis
    by (auto simp: demo_migrations_def numeral_2_eq_2 upt_conv_Cons)
qed

end
