(* ===== verification/Channel_Protocol.thy ===== *)
theory Channel_Protocol
  imports Core_Str Json_Value
begin

text \<open>
  \<^verbatim>\<open>oran-channel/adapter.hpp\<close> and \<^verbatim>\<open>protocol.cpp\<close>: messages of chat platforms, their identity, the
  validation every adapter applies, the splitting of replies and the reading of API answers.
\<close>

section \<open>Data\<close>

datatype platform = Telegram | QQ | Feishu
datatype chat_kind = Direct | Group
datatype activity_kind = NoActivity | Renewable | Reaction | Expiring

record capabilities =
  cp_activity :: activity_kind
  cp_threads :: bool
  cp_text_bytes :: nat

record conversation =
  cv_platform :: platform
  cv_account :: string
  cv_kind :: chat_kind
  cv_chat :: string
  cv_thread :: string

record image_attachment =
  ia_file_id :: string
  ia_media_type :: string
  ia_file_size :: "64 word"

record reply_context =
  rc_message_id :: string
  rc_sender :: string
  rc_text :: string
  rc_quote :: string
  rc_image :: "image_attachment option"
  rc_reference_key :: string

record channel_message =
  cm_conversation :: conversation
  cm_event_id :: string
  cm_message_id :: string
  cm_sender :: string
  cm_text :: string
  cm_image :: "image_attachment option"
  cm_reply_to :: "reply_context option"
  cm_reference_key :: string

record account =
  ac_id :: string
  ac_bot_id :: string

record api_request =
  ar_method :: string
  ar_path :: string
  ar_body :: string

record api_response =
  as_status :: nat
  as_body :: string
  as_retry_after :: "int option"

record receipt =
  rt_id :: string
  rt_reference_key :: string

section \<open>Identity\<close>

fun platform_number :: "platform \<Rightarrow> nat" where
  "platform_number Telegram = 0"
| "platform_number QQ = 1"
| "platform_number Feishu = 2"

fun chat_kind_number :: "chat_kind \<Rightarrow> nat" where
  "chat_kind_number Direct = 0"
| "chat_kind_number Group = 1"

definition conversation_key :: "conversation \<Rightarrow> string" where
  "conversation_key c = show_nat (platform_number (cv_platform c)) @ '':'' @ show_nat (length (cv_account c)) @ '':'' @ cv_account c @ '':'' @
     show_nat (chat_kind_number (cv_kind c)) @ '':'' @ show_nat (length (cv_chat c)) @ '':'' @ cv_chat c @ '':'' @
     show_nat (length (cv_thread c)) @ '':'' @ cv_thread c"

section \<open>Splitting replies\<close>

partial_function (option) split_loop :: "string \<Rightarrow> nat \<Rightarrow> string list option" where
  "split_loop t limit =
     (if t = [] then Some []
      else let part = truncate_to_code_point t limit in
        Option.bind (split_loop (drop (length part) t) limit) (\<lambda>parts. Some (part # parts)))"

definition split_text :: "string \<Rightarrow> nat \<Rightarrow> string list result option" where
  "split_text t limit =
     (if limit < 4 then Some (Inl (err_invalid_argument ''text limit must be at least four bytes''))
      else if \<not> is_valid_utf8 t then Some (Inl (err_invalid_argument ''invalid UTF-8 text''))
      else map_option Inr (split_loop t limit))"

section \<open>Envelopes and messages\<close>

definition channel_parse :: "json_lib \<Rightarrow> string \<Rightarrow> json result" where
  "channel_parse lib t =
     (if length t > 1024 * 1024 then Inl (err_parsing ''channel envelope exceeds byte limit'')
      else case json_parse lib t of
        Inr j \<Rightarrow> if is_object j then Inr j else Inl (err_parsing ''invalid channel JSON object'')
      | Inl _ \<Rightarrow> Inl (err_parsing ''invalid channel JSON object''))"

definition json_id :: "json \<Rightarrow> string" where
  "json_id j = (case j of JString s \<Rightarrow> s | JUnsigned n \<Rightarrow> show_nat (unat n) | JInteger i \<Rightarrow> show_int i | _ \<Rightarrow> [])"

definition valid_image_id :: "image_attachment option \<Rightarrow> bool" where
  "valid_image_id img = (case img of None \<Rightarrow> True | Some a \<Rightarrow> ia_file_id a \<noteq> [] \<and> length (ia_file_id a) \<le> 512)"

definition valid_identity :: "channel_message \<Rightarrow> platform \<Rightarrow> bool" where
  "valid_identity m p \<longleftrightarrow> (let c = cm_conversation m in
     cv_platform c = p \<and> cv_account c \<noteq> [] \<and> cv_chat c \<noteq> [] \<and> cm_event_id m \<noteq> [] \<and> cm_message_id m \<noteq> [] \<and> cm_sender m \<noteq> [] \<and>
     (cm_text m \<noteq> [] \<or> cm_image m \<noteq> None) \<and> length (cv_account c) \<le> 256 \<and> length (cv_chat c) \<le> 256 \<and> length (cv_thread c) \<le> 256 \<and>
     length (cm_reference_key m) \<le> 256 \<and> length (cm_event_id m) \<le> 256 \<and> length (cm_message_id m) \<le> 256 \<and> length (cm_sender m) \<le> 256 \<and>
     length (cm_text m) \<le> 65536)"

definition valid_reply_context :: "reply_context \<Rightarrow> bool" where
  "valid_reply_context r \<longleftrightarrow> length (rc_reference_key r) \<le> 256 \<and> length (rc_message_id r) \<le> 256 \<and> length (rc_sender r) \<le> 256 \<and>
     length (rc_text r) \<le> 65536 \<and> length (rc_quote r) \<le> 65536 \<and> is_valid_utf8 (rc_text r) \<and> is_valid_utf8 (rc_quote r) \<and> valid_image_id (rc_image r)"

definition validate :: "channel_message \<Rightarrow> platform \<Rightarrow> unit result" where
  "validate m p =
     (if \<not> valid_identity m p then Inl (err_invalid_argument ''invalid channel message identity or size'')
      else if \<not> is_valid_utf8 (cm_text m) then Inl (err_invalid_argument ''invalid UTF-8 text'')
      else if \<not> valid_image_id (cm_image m) then Inl (err_invalid_argument ''invalid channel image identifier'')
      else (case cm_reply_to m of
          Some r \<Rightarrow> if valid_reply_context r then Inr () else Inl (err_invalid_argument ''invalid channel reply context'')
        | None \<Rightarrow> Inr ()))"

definition checked :: "channel_message \<Rightarrow> channel_message option result" where
  "checked m = rbind (validate m (cv_platform (cm_conversation m))) (\<lambda>_. Inr (Some m))"

definition hex_upper :: "nat \<Rightarrow> char" where
  "hex_upper n = (if n < 10 then byte_to_char (48 + n) else byte_to_char (55 + n))"

definition unreserved :: "char \<Rightarrow> bool" where
  "unreserved c \<longleftrightarrow> (let b = byte_of c in 97 \<le> b \<and> b \<le> 122 \<or> 65 \<le> b \<and> b \<le> 90 \<or> 48 \<le> b \<and> b \<le> 57 \<or> c = CHR ''_'' \<or> c = CHR ''-'')"

definition escape :: "char \<Rightarrow> string" where
  "escape c = (if unreserved c then [c] else [CHR ''%'', hex_upper (byte_of c div 16), hex_upper (byte_of c mod 16)])"

definition segment :: "string \<Rightarrow> string" where
  "segment t = concat (map escape t)"

section \<open>Reading JSON that may throw\<close>

text \<open>
  The adapters read fields with accessors that throw and catch every exception of the library in
  one place: \<open>None\<close> is the exception. \<open>json_at\<close> is \<^verbatim>\<open>at(key)\<close> and \<open>json_value\<close> is \<^verbatim>\<open>value(key, default)\<close> for a
  default that is JSON itself. Comparing a floating-point number with an integer is the library's.
\<close>

definition json_at :: "json \<Rightarrow> string \<Rightarrow> json option" where
  "json_at j k = json_member j k"

definition json_contains :: "json \<Rightarrow> string \<Rightarrow> bool" where
  "json_contains j k \<longleftrightarrow> json_member j k \<noteq> None"

definition json_value :: "json \<Rightarrow> string \<Rightarrow> json \<Rightarrow> json option" where
  "json_value j k d = (if is_object j then Some (case json_member j k of Some v \<Rightarrow> v | None \<Rightarrow> d) else None)"

fun get_string :: "json \<Rightarrow> string option" where
  "get_string (JString s) = Some s"
| "get_string _ = None"

fun get_bool :: "json \<Rightarrow> bool option" where
  "get_bool (JBool b) = Some b"
| "get_bool _ = None"

definition string_value :: "json \<Rightarrow> string \<Rightarrow> string \<Rightarrow> string option" where
  "string_value j k d = Option.bind (json_value j k (JString d)) get_string"

definition bool_value :: "json \<Rightarrow> string \<Rightarrow> bool \<Rightarrow> bool option" where
  "bool_value j k d = Option.bind (json_value j k (JBool d)) get_bool"

definition equals_int :: "(string \<Rightarrow> int \<Rightarrow> bool) \<Rightarrow> json \<Rightarrow> int \<Rightarrow> bool" where
  "equals_int feq j n = (case j of JUnsigned w \<Rightarrow> uint w = n | JInteger i \<Rightarrow> i = n | JFloat f \<Rightarrow> feq f n | _ \<Rightarrow> False)"

section \<open>Answers of the platforms\<close>

definition rate_limited :: "(string \<Rightarrow> int \<Rightarrow> bool) \<Rightarrow> platform \<Rightarrow> api_response \<Rightarrow> json result \<Rightarrow> bool" where
  "rate_limited feq p r body \<longleftrightarrow> as_status r = 429 \<or>
     (case body of Inr j \<Rightarrow> p = Telegram \<and> (case json_member j ''error_code'' of Some c \<Rightarrow> equals_int feq c 429 | None \<Rightarrow> False) | Inl _ \<Rightarrow> False)"

definition rate_limit_error :: "platform \<Rightarrow> api_response \<Rightarrow> json result \<Rightarrow> core_error" where
  "rate_limit_error p r body =
     (let e = err_rate_limit ''channel API rate limit'';
          e1 = (case as_retry_after r of Some d \<Rightarrow> with_retry_after d e | None \<Rightarrow> e) in
      case body of
        Inr j \<Rightarrow> (case (if p = Telegram then json_member j ''parameters'' else None) of
            Some params \<Rightarrow> (case json_member params ''retry_after'' of
                Some (JUnsigned seconds) \<Rightarrow> with_retry_after (min (uint seconds) 86400 * 1000) e1
              | _ \<Rightarrow> e1)
          | None \<Rightarrow> e1)
      | Inl _ \<Rightarrow> e1)"

definition upstream_rejected :: "string \<Rightarrow> receipt result" where
  "upstream_rejected msg = Inl (err_upstream msg)"

definition accept_telegram :: "json \<Rightarrow> receipt result option" where
  "accept_telegram body =
     Option.bind (Option.bind (json_at body ''ok'') get_bool) (\<lambda>ok.
       if \<not> ok then Some (upstream_rejected ''Telegram API rejected request'')
       else Option.bind (json_at body ''result'') (\<lambda>res.
         if \<not> is_object res \<and> res \<noteq> JBool True then Some (Inl (err_parsing ''invalid Telegram success result''))
         else Some (Inr \<lparr>rt_id = (case json_member res ''message_id'' of Some v \<Rightarrow> json_id v | None \<Rightarrow> []), rt_reference_key = []\<rparr>)))"

definition accept_feishu :: "(string \<Rightarrow> int \<Rightarrow> bool) \<Rightarrow> json \<Rightarrow> receipt result option" where
  "accept_feishu feq body =
     Option.bind (json_at body ''code'') (\<lambda>code.
       if \<not> equals_int feq code 0 then Some (upstream_rejected ''Feishu API rejected request'')
       else Option.bind (json_value body ''data'' (JObject [])) (\<lambda>data.
         Option.bind (json_value data ''message_id'' JNull) (\<lambda>msg.
         Option.bind (json_value data ''reaction_id'' msg) (\<lambda>v. Some (Inr \<lparr>rt_id = json_id v, rt_reference_key = []\<rparr>)))))"

definition accept_qq :: "(string \<Rightarrow> int \<Rightarrow> bool) \<Rightarrow> json \<Rightarrow> receipt result option" where
  "accept_qq feq body =
     (if (case json_member body ''code'' of Some code \<Rightarrow> \<not> equals_int feq code 0 | None \<Rightarrow> False)
      then Some (upstream_rejected ''QQ API rejected request'')
      else if json_items body = [] then Some (Inr \<lparr>rt_id = [], rt_reference_key = []\<rparr>)
        else Option.bind (json_at body ''id'') (\<lambda>v.
          if json_id v = [] then Some (Inl (err_parsing ''missing QQ message receipt''))
          else Option.bind (case json_member body ''ext_info'' of
                None \<Rightarrow> Some [] | Some ext \<Rightarrow> map_option json_id (json_value ext ''ref_idx'' JNull)) (\<lambda>reference.
            if length reference > 256 then Some (Inl (err_parsing ''invalid QQ reference index''))
            else Some (Inr \<lparr>rt_id = json_id v, rt_reference_key = reference\<rparr>))))"

definition accept :: "json_lib \<Rightarrow> (string \<Rightarrow> int \<Rightarrow> bool) \<Rightarrow> platform \<Rightarrow> api_response \<Rightarrow> receipt result" where
  "accept lib feq p r =
     (let body = channel_parse lib (as_body r) in
      if rate_limited feq p r body then Inl (rate_limit_error p r body)
      else if as_status r = 401 \<or> as_status r = 403 then Inl (make_error auth_kind ''channel API authorization failed'')
      else if as_status r < 200 \<or> as_status r \<ge> 300
      then Inl (with_ctx ''status'' (show_nat (as_status r)) (err_upstream ''channel HTTP request failed''))
      else rbind body (\<lambda>j.
        case (case p of Telegram \<Rightarrow> accept_telegram j | Feishu \<Rightarrow> accept_feishu feq j | QQ \<Rightarrow> accept_qq feq j) of
          Some res \<Rightarrow> res | None \<Rightarrow> Inl (err_parsing ''invalid channel API response'')))"

section \<open>Keys identify conversations\<close>

lemma show_nat_inject: "show_nat a = show_nat b \<longleftrightarrow> a = b"
  by (metis digits_val_show_nat)

lemma colon_no_digit: "CHR '':'' \<notin> set (show_nat n)"
  using show_nat_digits [of n] by (auto simp: list_all_iff is_digit_def)

lemma number_field_inject: "show_nat a @ CHR '':'' # r = show_nat b @ CHR '':'' # s \<longleftrightarrow> a = b \<and> r = s"
proof -
  have tw: "takeWhile (\<lambda>c. c \<noteq> CHR '':'') (show_nat n @ CHR '':'' # t) = show_nat n" for n t
    using colon_no_digit [of n] by (subst takeWhile_append2) auto
  show ?thesis using tw [of a r] tw [of b s] by (auto simp: show_nat_inject)
qed

lemma string_field_inject:
  "show_nat (length x) @ CHR '':'' # x @ r = show_nat (length y) @ CHR '':'' # y @ s \<longleftrightarrow> x = y \<and> r = s"
  by (auto simp: number_field_inject append_eq_append_conv)

lemma platform_number_inject: "platform_number p = platform_number q \<longleftrightarrow> p = q"
  by (cases p; cases q) simp_all

lemma chat_kind_number_inject: "chat_kind_number k = chat_kind_number l \<longleftrightarrow> k = l"
  by (cases k; cases l) simp_all

lemma conversation_key_prefix_free: "conversation_key c @ r = conversation_key d @ s \<longleftrightarrow> c = d \<and> r = s"
  by (cases c; cases d)
     (auto simp: conversation_key_def number_field_inject string_field_inject platform_number_inject chat_kind_number_inject)

section \<open>Splitting loses nothing\<close>

lemma truncate_nonempty:
  assumes "is_valid_utf8 t" "t \<noteq> []" "4 \<le> n"
  shows "truncate_to_code_point t n \<noteq> []"
proof -
  obtain cps where cps: "list_all scalar_value cps" "t = utf8_string cps" using assms(1) by (auto simp: is_valid_utf8_iff)
  then obtain cp rest where c: "cps = cp # rest" using assms(2) by (cases cps) auto
  have "length (utf8_encode cp) \<le> 4" by (simp add: length_utf8_encode utf8_bytes_def)
  then have "fitting n cps = cp # fitting (n - length (utf8_encode cp)) rest" using assms(3) by (simp add: c Let_def)
  then show ?thesis using truncate_fitting [OF cps(1), of n] cps(2) utf8_encode_nonempty [of cp] by simp
qed

lemma truncate_rest_valid:
  assumes "is_valid_utf8 t"
  shows "is_valid_utf8 (drop (length (truncate_to_code_point t n)) t)"
proof -
  obtain r where r: "t = truncate_to_code_point t n @ r" using truncate_prefix_and_bound [of t n] by (auto elim: prefixE)
  obtain ds where ds: "list_all scalar_value ds" "truncate_to_code_point t n = utf8_string ds"
    using truncate_valid [OF assms, of n] by (auto simp: is_valid_utf8_iff)
  have "is_valid_utf8 r" using valid_suffix [OF ds(1), of r] assms r ds(2) by metis
  moreover have "drop (length (truncate_to_code_point t n)) t = r" using r by (metis append_eq_conv_conj)
  ultimately show ?thesis by simp
qed

lemma split_loop_correct:
  assumes "is_valid_utf8 t" "4 \<le> n"
  shows "\<exists>parts. split_loop t n = Some parts \<and> concat parts = t \<and>
    (\<forall>p\<in>set parts. p \<noteq> [] \<and> length p \<le> n \<and> is_valid_utf8 p)"
  using assms(1)
proof (induction "length t" arbitrary: t rule: less_induct)
  case less
  show ?case
  proof (cases "t = []")
    case True
    then show ?thesis by (simp add: split_loop.simps)
  next
    case False
    let ?p = "truncate_to_code_point t n"
    have p: "?p \<noteq> []" "length ?p \<le> n" "is_valid_utf8 ?p" "t = ?p @ drop (length ?p) t"
      using truncate_nonempty [OF less.prems False assms(2)] truncate_prefix_and_bound [of t n] truncate_valid [OF less.prems]
      by (auto elim: prefixE) (metis append_eq_conv_conj prefixE)
    have "length (drop (length ?p) t) < length t" using p(1) False by simp
    from less.hyps [OF this truncate_rest_valid [OF less.prems]] obtain ps where
      ps: "split_loop (drop (length ?p) t) n = Some ps" "concat ps = drop (length ?p) t" "\<forall>q\<in>set ps. q \<noteq> [] \<and> length q \<le> n \<and> is_valid_utf8 q"
      by blast
    then have "split_loop t n = Some (?p # ps)" using False by (subst split_loop.simps) (simp add: Let_def)
    moreover have "concat (?p # ps) = t" using ps(2) p(4) by simp
    ultimately show ?thesis using p(1-3) ps(3) by (intro exI [of _ "?p # ps"]) simp
  qed
qed

text \<open>
  Splitting a reply always returns: an error for a limit below four bytes or for text that
  is not UTF-8, and otherwise nonempty parts within the limit, cut at code points, that
  concatenate to the text.
\<close>

theorem split_text_total:
  "\<exists>r. split_text t limit = Some r \<and> (is_ok r \<longleftrightarrow> 4 \<le> limit \<and> is_valid_utf8 t) \<and>
    (case r of Inl _ \<Rightarrow> True | Inr parts \<Rightarrow> concat parts = t \<and> (\<forall>p \<in> set parts. p \<noteq> [] \<and> length p \<le> limit \<and> is_valid_utf8 p))"
proof (cases "4 \<le> limit \<and> is_valid_utf8 t")
  case True
  then obtain parts where "split_loop t limit = Some parts" "concat parts = t" "\<forall>p\<in>set parts. p \<noteq> [] \<and> length p \<le> limit \<and> is_valid_utf8 p"
    using split_loop_correct by blast
  then show ?thesis using True by (simp add: split_text_def)
qed (auto simp: split_text_def)

section \<open>Path segments\<close>

lemma hex_upper_inject: "m < 16 \<Longrightarrow> n < 16 \<Longrightarrow> hex_upper m = hex_upper n \<longleftrightarrow> m = n"
  by (auto simp: hex_upper_def byte_to_char_inject split: if_splits)

lemma unreserved_percent: "\<not> unreserved CHR ''%''"
  by (simp add: unreserved_def)

lemma byte_high_nibble: "byte_of c div 16 < 16"
proof -
  have "byte_of c < 256" by simp
  then show ?thesis by (simp add: div_less_iff_less_mult)
qed

lemma escape_nonempty: "escape c \<noteq> []"
  by (simp add: escape_def)

lemma escape_prefix_free: "escape c @ r = escape d @ s \<longleftrightarrow> c = d \<and> r = s"
proof -
  have "byte_of c = byte_of d" if "byte_of c div 16 = byte_of d div 16" "byte_of c mod 16 = byte_of d mod 16"
    using that by (metis div_mult_mod_eq)
  then show ?thesis using unreserved_percent byte_high_nibble
    by (auto simp: escape_def hex_upper_inject byte_of_inject)
qed

lemma segment_inject: "segment s = segment t \<longleftrightarrow> s = t"
proof (induction s arbitrary: t)
  case Nil
  then show ?case by (cases t) (simp_all add: segment_def escape_nonempty)
next
  case (Cons c s)
  then show ?case
    by (cases t) (simp_all add: segment_def escape_prefix_free escape_nonempty)
qed

lemma hex_upper_safe: "n < 16 \<Longrightarrow> unreserved (hex_upper n)"
  by (auto simp: hex_upper_def unreserved_def Let_def)

lemma segment_safe: "c \<in> set (segment t) \<Longrightarrow> unreserved c \<or> c = CHR ''%''"
  using byte_high_nibble by (auto simp: segment_def escape_def hex_upper_safe split: if_splits)

end
