(* ===== verification/Channel_Adapters.thy ===== *)
theory Channel_Adapters
  imports Channel_Protocol
begin

text \<open>
  \<^verbatim>\<open>telegram.cpp\<close>, \<^verbatim>\<open>qq.cpp\<close> and \<^verbatim>\<open>feishu.cpp\<close> of \<^verbatim>\<open>oran-channel\<close>: decoding of events and encoding of
  replies and activity. A decoder either throws inside the JSON library (\<open>None\<close>, translated into a
  parsing error at its end), fails, ignores the event, or gives a message.
\<close>

section \<open>Code that fails or throws\<close>

type_synonym 'a throwing = "'a result option"

definition tret :: "'a \<Rightarrow> 'a throwing" where "tret x = Some (Inr x)"

definition tget :: "'a option \<Rightarrow> 'a throwing" where "tget x = map_option Inr x"

definition tbind :: "'a throwing \<Rightarrow> ('a \<Rightarrow> 'b throwing) \<Rightarrow> 'b throwing" where
  "tbind m f = (case m of None \<Rightarrow> None | Some (Inl e) \<Rightarrow> Some (Inl e) | Some (Inr x) \<Rightarrow> f x)"

definition catching :: "string \<Rightarrow> 'a throwing \<Rightarrow> 'a result" where
  "catching msg m = (case m of None \<Rightarrow> Inl (err_parsing msg) | Some r \<Rightarrow> r)"

text \<open>Conversions of numbers: those of floating-point numbers are the library's.\<close>

record float_lib =
  fl_u64 :: "string \<Rightarrow> 64 word"
  fl_i32 :: "string \<Rightarrow> 32 word"
  fl_equals :: "string \<Rightarrow> int \<Rightarrow> bool"

definition get_u64 :: "float_lib \<Rightarrow> json \<Rightarrow> 64 word option" where
  "get_u64 fl j = (case j of JUnsigned w \<Rightarrow> Some w | JInteger i \<Rightarrow> Some (of_int i) | JFloat f \<Rightarrow> Some (fl_u64 fl f)
     | JBool b \<Rightarrow> Some (if b then 1 else 0) | _ \<Rightarrow> None)"

definition get_i32 :: "float_lib \<Rightarrow> json \<Rightarrow> 32 word option" where
  "get_i32 fl j = (case j of JUnsigned w \<Rightarrow> Some (ucast w) | JInteger i \<Rightarrow> Some (of_int i) | JFloat f \<Rightarrow> Some (fl_i32 fl f)
     | JBool b \<Rightarrow> Some (if b then 1 else 0) | _ \<Rightarrow> None)"

definition u64_value :: "float_lib \<Rightarrow> json \<Rightarrow> string \<Rightarrow> 64 word option" where
  "u64_value fl j k = Option.bind (json_value j k (JUnsigned 0)) (get_u64 fl)"

definition i32_value :: "float_lib \<Rightarrow> json \<Rightarrow> string \<Rightarrow> int \<Rightarrow> 32 word option" where
  "i32_value fl j k d = Option.bind (json_value j k (JInteger d)) (get_i32 fl)"

text \<open>Iterating a value: an array by its elements, an object by its values, null not at all, anything else once.\<close>

fun json_iterate :: "json \<Rightarrow> json list" where
  "json_iterate (JArray xs) = xs"
| "json_iterate (JObject kvs) = map snd kvs"
| "json_iterate JNull = []"
| "json_iterate j = [j]"

definition blank_chars :: string where "blank_chars = [CHR '' '', byte_to_char 9, byte_to_char 13, byte_to_char 10]"

definition trim_front :: "string \<Rightarrow> string" where
  "trim_front t = dropWhile (\<lambda>c. c \<in> set blank_chars) t"

section \<open>Telegram\<close>

definition photo_area :: "float_lib \<Rightarrow> json \<Rightarrow> 64 word option" where
  "photo_area fl sz = Option.bind (Option.bind (json_at sz ''width'') (get_u64 fl)) (\<lambda>w.
     Option.bind (Option.bind (json_at sz ''height'') (get_u64 fl)) (\<lambda>h. Some (w * h)))"

text \<open>\<^verbatim>\<open>std::ranges::max_element\<close>: the first largest; the projection runs only when there is something to compare.\<close>

fun max_photo :: "float_lib \<Rightarrow> json \<Rightarrow> json list \<Rightarrow> json option" where
  "max_photo fl best [] = Some best"
| "max_photo fl best (p # ps) = Option.bind (photo_area fl best) (\<lambda>a. Option.bind (photo_area fl p) (\<lambda>b.
     max_photo fl (if a < b then p else best) ps))"

definition image_attachment_of :: "float_lib \<Rightarrow> json \<Rightarrow> image_attachment option throwing" where
  "image_attachment_of fl msg =
     (case json_member msg ''photo'' of
        Some photos \<Rightarrow> (case photos of
            JArray (p # ps) \<Rightarrow>
              tget (Option.bind (max_photo fl p ps) (\<lambda>photo.
                Option.bind (Option.bind (json_at photo ''file_id'') get_string) (\<lambda>fid.
                Option.bind (u64_value fl photo ''file_size'') (\<lambda>bytes.
                  Some (Some \<lparr>ia_file_id = fid, ia_media_type = ''image/jpeg'', ia_file_size = bytes\<rparr>)))))
          | JArray [] \<Rightarrow> Some (Inl (err_parsing ''empty Telegram photo''))
          | _ \<Rightarrow> None)
      | None \<Rightarrow> (case json_member msg ''document'' of
            Some document \<Rightarrow> tget (Option.bind (string_value document ''mime_type'' []) (\<lambda>media.
              if prefix ''image/'' media
              then Option.bind (Option.bind (json_at document ''file_id'') get_string) (\<lambda>fid.
                Option.bind (u64_value fl document ''file_size'') (\<lambda>bytes.
                  Some (Some \<lparr>ia_file_id = fid, ia_media_type = media, ia_file_size = bytes\<rparr>)))
              else Some None))
          | None \<Rightarrow> tret None))"

definition empty_reply :: reply_context where
  "empty_reply = \<lparr>rc_message_id = [], rc_sender = [], rc_text = [], rc_quote = [], rc_image = None, rc_reference_key = []\<rparr>"

definition text_or_caption :: "json \<Rightarrow> string option" where
  "text_or_caption msg = Option.bind (string_value msg ''caption'' []) (\<lambda>caption. string_value msg ''text'' caption)"

definition reply_context_of :: "float_lib \<Rightarrow> json \<Rightarrow> reply_context option throwing" where
  "reply_context_of fl msg =
     tbind (case json_member msg ''reply_to_message'' of
        Some original \<Rightarrow> tbind (image_attachment_of fl original) (\<lambda>img.
          tget (Option.bind (json_at original ''message_id'') (\<lambda>mid.
            Option.bind (case json_member original ''from'' of Some from \<Rightarrow> map_option json_id (json_at from ''id'') | None \<Rightarrow> Some []) (\<lambda>sender.
            Option.bind (text_or_caption original) (\<lambda>t.
              Some (Some (empty_reply\<lparr>rc_message_id := json_id mid, rc_sender := sender, rc_text := t, rc_image := img\<rparr>)))))))
      | None \<Rightarrow> (case json_member msg ''external_reply'' of
          Some original \<Rightarrow> tbind (image_attachment_of fl original) (\<lambda>img.
            tget (Option.bind (json_value original ''message_id'' JNull) (\<lambda>mid.
              Some (Some (empty_reply\<lparr>rc_message_id := json_id mid, rc_image := img\<rparr>)))))
        | None \<Rightarrow> tret None)) (\<lambda>reply.
     case json_member msg ''quote'' of
       None \<Rightarrow> tret reply
     | Some quote \<Rightarrow> tget (Option.bind (Option.bind (json_at quote ''text'') get_string) (\<lambda>q.
         Some (Some ((case reply of Some r \<Rightarrow> r | None \<Rightarrow> empty_reply)\<lparr>rc_quote := q\<rparr>)))))"

definition telegram_message :: "float_lib \<Rightarrow> account \<Rightarrow> json \<Rightarrow> json \<Rightarrow> image_attachment option \<Rightarrow> json \<Rightarrow> string \<Rightarrow> json \<Rightarrow> reply_context option \<Rightarrow>
    channel_message option throwing" where
  "telegram_message fl acc parsed msg img from kind chat reply =
     tbind (tget (Option.bind (json_at chat ''id'') (\<lambda>cid.
       Option.bind (json_value msg ''message_thread_id'' JNull) (\<lambda>thread.
       Option.bind (json_at parsed ''update_id'') (\<lambda>update.
       Option.bind (json_at msg ''message_id'') (\<lambda>mid.
       Option.bind (json_at from ''id'') (\<lambda>sender.
       Option.bind (text_or_caption msg) (\<lambda>t.
         Some \<lparr>cm_conversation = \<lparr>cv_platform = Telegram, cv_account = ac_id acc, cv_kind = (if kind = ''private'' then Direct else Group),
                 cv_chat = json_id cid, cv_thread = json_id thread\<rparr>,
               cm_event_id = json_id update, cm_message_id = json_id mid, cm_sender = json_id sender, cm_text = t, cm_image = img,
               cm_reply_to = reply, cm_reference_key = []\<rparr>)))))))) (\<lambda>m. Some (checked m))"

definition telegram_decode :: "json_lib \<Rightarrow> float_lib \<Rightarrow> string \<Rightarrow> account \<Rightarrow> channel_message option result" where
  "telegram_decode lib fl envelope acc =
     rbind (channel_parse lib envelope) (\<lambda>parsed. catching ''invalid Telegram message''
       (case json_member parsed ''message'' of
          None \<Rightarrow> tret None
        | Some msg \<Rightarrow> tbind (image_attachment_of fl msg) (\<lambda>img.
            if \<not> json_contains msg ''text'' \<and> img = None then tret None
            else tbind (tget (json_at msg ''from'')) (\<lambda>from. tbind (tget (bool_value from ''is_bot'' False)) (\<lambda>bot.
              if bot then tret None
              else tbind (tget (json_at msg ''chat'')) (\<lambda>chat. tbind (tget (Option.bind (json_at chat ''type'') get_string)) (\<lambda>kind.
                if kind \<notin> {''private'', ''group'', ''supergroup''} then tret None
                else tbind (reply_context_of fl msg) (\<lambda>reply. telegram_message fl acc parsed msg img from kind chat reply))))))))"

definition number :: "string \<Rightarrow> int result" where
  "number t = (case from_chars_i64 t of Some v \<Rightarrow> Inr v | None \<Rightarrow> Inl (err_invalid_argument ''invalid Telegram numeric identifier''))"

definition with_thread :: "channel_message \<Rightarrow> (string \<times> json) list \<Rightarrow> (string \<times> json) list result" where
  "with_thread m body = (if cv_thread (cm_conversation m) = [] then Inr body
     else rbind (number (cv_thread (cm_conversation m))) (\<lambda>thread. Inr (set_member ''message_thread_id'' (JInteger thread) body)))"

definition telegram_reply :: "json_lib \<Rightarrow> channel_message \<Rightarrow> string \<Rightarrow> nat \<Rightarrow> api_request result" where
  "telegram_reply lib m t part =
     rbind (validate m Telegram) (\<lambda>_.
     case (number (cv_chat (cm_conversation m)), number (cm_message_id m)) of
       (Inr chat, Inr parent) \<Rightarrow>
         rbind (with_thread m [(''chat_id'', JInteger chat), (''text'', JString t),
             (''reply_parameters'', JObject [(''message_id'', JInteger parent)]),
             (''link_preview_options'', JObject [(''is_disabled'', JBool True)])]) (\<lambda>body.
           Inr \<lparr>ar_method = ''POST'', ar_path = ''/sendMessage'', ar_body = json_dump lib (JObject body)\<rparr>)
     | _ \<Rightarrow> Inl (err_invalid_argument ''invalid Telegram reply route''))"

definition telegram_activity :: "json_lib \<Rightarrow> channel_message \<Rightarrow> receipt option \<Rightarrow> api_request option result" where
  "telegram_activity lib m rec =
     (if rec \<noteq> None then Inr None
      else rbind (validate m Telegram) (\<lambda>_. rbind (number (cv_chat (cm_conversation m))) (\<lambda>chat.
        rbind (with_thread m [(''chat_id'', JInteger chat), (''action'', JString ''typing'')]) (\<lambda>body.
          Inr (Some \<lparr>ar_method = ''POST'', ar_path = ''/sendChatAction'', ar_body = json_dump lib (JObject body)\<rparr>)))))"

section \<open>QQ\<close>

fun qq_image :: "float_lib \<Rightarrow> image_attachment option \<Rightarrow> json list \<Rightarrow> image_attachment option option" where
  "qq_image fl img [] = Some img"
| "qq_image fl img (a # as) =
     Option.bind (string_value a ''content_type'' []) (\<lambda>media.
       if img = None \<and> prefix ''image/'' media
       then Option.bind (Option.bind (json_at a ''url'') get_string) (\<lambda>url. Option.bind (u64_value fl a ''size'') (\<lambda>bytes.
         qq_image fl (Some \<lparr>ia_file_id = (if prefix ''//'' url then ''https:'' @ url else url), ia_media_type = media, ia_file_size = bytes\<rparr>) as))
       else qq_image fl img as)"

definition strip_mention :: "account \<Rightarrow> string \<Rightarrow> string" where
  "strip_mention acc t = (let mention = ''<@!'' @ ac_bot_id acc @ ''>'' in
     if ac_bot_id acc \<noteq> [] \<and> prefix mention t then drop (length mention) t else t)"

text \<open>The key of the message and the key it refers to, from the strings of \<^verbatim>\<open>message_scene.ext\<close>.\<close>

fun scene_keys :: "json list \<Rightarrow> string \<times> string \<Rightarrow> string \<times> string" where
  "scene_keys [] ks = ks"
| "scene_keys (e # es) ks = (case e of
     JString v \<Rightarrow>
       let k1 = (if prefix ''msg_idx='' v then drop 8 v else fst ks);
           k2 = (if prefix ''ref_msg_idx='' v then drop 12 v else snd ks) in scene_keys es (k1, k2)
   | _ \<Rightarrow> scene_keys es ks)"

definition scene_entries :: "json \<Rightarrow> json list" where
  "scene_entries msg = (case json_member msg ''message_scene'' of
     Some scene \<Rightarrow> (case json_member scene ''ext'' of Some ext \<Rightarrow> json_iterate ext | None \<Rightarrow> []) | None \<Rightarrow> [])"

fun quoted_element :: "json list \<Rightarrow> string \<Rightarrow> (string \<times> string) option" where
  "quoted_element [] reference = Some (reference, [])"
| "quoted_element (e # es) reference =
     (if json_contains e ''msg_idx''
      then Option.bind (Option.bind (json_at e ''msg_idx'') get_string) (\<lambda>k. Option.bind (string_value e ''content'' []) (\<lambda>q. Some (k, q)))
      else quoted_element es reference)"

definition qq_reply_to :: "float_lib \<Rightarrow> json \<Rightarrow> string \<Rightarrow> reply_context option option" where
  "qq_reply_to fl msg reference =
     Option.bind (i32_value fl msg ''message_type'' 0) (\<lambda>ty.
     Option.bind (if ty = 103 then (case json_member msg ''msg_elements'' of
          Some els \<Rightarrow> quoted_element (json_iterate els) reference | None \<Rightarrow> Some (reference, [])) else Some (reference, [])) (\<lambda>(ref, quoted).
       if ref \<noteq> [] then Some (Some (empty_reply\<lparr>rc_reference_key := ref, rc_text := quoted\<rparr>))
       else (case json_member msg ''message_reference'' of
           Some r \<Rightarrow> Option.bind (json_at r ''message_id'') (\<lambda>mid. Some (Some (empty_reply\<lparr>rc_message_id := json_id mid\<rparr>)))
         | None \<Rightarrow> Some None)))"

definition qq_message :: "float_lib \<Rightarrow> account \<Rightarrow> json \<Rightarrow> bool \<Rightarrow> string \<Rightarrow> string \<Rightarrow> image_attachment option \<Rightarrow> channel_message option throwing" where
  "qq_message fl acc msg is_group sender t img =
     tbind (tget (Option.bind (json_at msg ''id'') (\<lambda>mid.
       Option.bind (if is_group then map_option json_id (json_at msg ''group_openid'') else Some sender) (\<lambda>chat.
       let ks = scene_keys (scene_entries msg) ([], []) in
       Option.bind (qq_reply_to fl msg (snd ks)) (\<lambda>reply.
         Some \<lparr>cm_conversation = \<lparr>cv_platform = QQ, cv_account = ac_id acc, cv_kind = (if is_group then Group else Direct), cv_chat = chat, cv_thread = []\<rparr>,
           cm_event_id = json_id mid, cm_message_id = json_id mid, cm_sender = sender, cm_text = t, cm_image = img, cm_reply_to = reply,
           cm_reference_key = fst ks\<rparr>))))) (\<lambda>m. Some (checked m))"

definition qq_decode :: "json_lib \<Rightarrow> float_lib \<Rightarrow> string \<Rightarrow> account \<Rightarrow> channel_message option result" where
  "qq_decode lib fl envelope acc =
     rbind (channel_parse lib envelope) (\<lambda>parsed. catching ''invalid QQ message''
       (tbind (tget (i32_value fl parsed ''op'' (-1))) (\<lambda>code.
        if code \<noteq> 0 then tret None
        else tbind (tget (Option.bind (json_at parsed ''t'') get_string)) (\<lambda>ty.
          if ty \<noteq> ''C2C_MESSAGE_CREATE'' \<and> ty \<noteq> ''GROUP_AT_MESSAGE_CREATE'' then tret None
          else tbind (tget (json_at parsed ''d'')) (\<lambda>msg. tbind (tget (json_at msg ''author'')) (\<lambda>author.
            let is_group = (ty = ''GROUP_AT_MESSAGE_CREATE'') in
            tbind (tget (json_at author (if is_group then ''member_openid'' else ''user_openid''))) (\<lambda>sender.
            tbind (tget (bool_value author ''bot'' False)) (\<lambda>bot.
            if bot then tret None
            else tbind (tget (string_value msg ''content'' [])) (\<lambda>content.
              tbind (tget (case json_member msg ''attachments'' of Some as \<Rightarrow> qq_image fl None (json_iterate as) | None \<Rightarrow> Some None)) (\<lambda>img.
              let t = trim_front (strip_mention acc content) in
              if t = [] \<and> img = None then tret None else qq_message fl acc msg is_group (json_id sender) t img))))))))))"

definition qq_path :: "channel_message \<Rightarrow> string" where
  "qq_path m = (if cv_kind (cm_conversation m) = Group then ''/v2/groups/'' else ''/v2/users/'') @ segment (cv_chat (cm_conversation m)) @ ''/messages''"

definition qq_reply_body :: "channel_message \<Rightarrow> string \<Rightarrow> nat \<Rightarrow> (string \<times> json) list" where
  "qq_reply_body m t part = [(''content'', JString t), (''msg_type'', JInteger 0), (''msg_id'', JString (cm_message_id m)),
     (''msg_seq'', JUnsigned (of_nat (part + (if cv_kind (cm_conversation m) = Direct then 3 else 1))))]"

definition qq_check :: "channel_message \<Rightarrow> nat \<Rightarrow> unit result" where
  "qq_check m part = rbind (validate m QQ) (\<lambda>_.
     if cv_thread (cm_conversation m) \<noteq> [] \<or> part \<ge> 5
     then Inl (err_invalid_argument ''QQ passive replies support at most five parts and no threads'') else Inr ())"

definition qq_reply :: "json_lib \<Rightarrow> channel_message \<Rightarrow> string \<Rightarrow> nat \<Rightarrow> api_request result" where
  "qq_reply lib m t part = rbind (qq_check m part) (\<lambda>_.
     Inr \<lparr>ar_method = ''POST'', ar_path = qq_path m, ar_body = json_dump lib (JObject (qq_reply_body m t part))\<rparr>)"

definition qq_activity :: "json_lib \<Rightarrow> channel_message \<Rightarrow> receipt option \<Rightarrow> api_request option result" where
  "qq_activity lib m rec =
     rbind (validate m QQ) (\<lambda>_.
       if cv_kind (cm_conversation m) \<noteq> Direct then Inr None
       else let n = JInteger (if rec \<noteq> None then 2 else 1) in
         Inr (Some \<lparr>ar_method = ''POST'', ar_path = ''/v2/users/'' @ segment (cv_chat (cm_conversation m)) @ ''/messages'',
           ar_body = json_dump lib (JObject [(''msg_type'', JInteger 6), (''msg_id'', JString (cm_message_id m)), (''msg_seq'', n),
             (''input_notify'', JObject [(''input_type'', n), (''input_second'', JInteger 60)])])\<rparr>))"

definition qq_markdown_reply :: "json_lib \<Rightarrow> channel_message \<Rightarrow> string \<Rightarrow> nat \<Rightarrow> api_request throwing" where
  "qq_markdown_reply lib m t part =
     tbind (Some (qq_reply lib m t part)) (\<lambda>request.
       case json_parse lib (ar_body request) of
         Inr (JObject kvs) \<Rightarrow> tret (request\<lparr>ar_body := json_dump lib (JObject (set_member ''markdown'' (JObject [(''content'', JString t)])
             (set_member ''msg_type'' (JInteger 2) (filter (\<lambda>(k, _). k \<noteq> ''content'') kvs))))\<rparr>)
       | _ \<Rightarrow> None)"

section \<open>Feishu\<close>

fun remove_first :: "string \<Rightarrow> string \<Rightarrow> string option" where
  "remove_first key [] = (if key = [] then Some [] else None)"
| "remove_first key (c # cs) = (if prefix key (c # cs) then Some (drop (length key) (c # cs)) else map_option (Cons c) (remove_first key cs))"

lemma remove_first_length: "remove_first key t = Some u \<Longrightarrow> length t = length key + length u"
  by (induction t arbitrary: u) (auto split: if_splits dest: prefix_length_le)

function remove_key :: "string \<Rightarrow> string \<Rightarrow> string" where
  "remove_key key t = (if key = [] then t else case remove_first key t of None \<Rightarrow> t | Some u \<Rightarrow> remove_key key u)"
  by auto
termination by (relation "measure (\<lambda>(key, t). length t)") (auto dest: remove_first_length)

declare remove_key.simps [simp del]

fun strip_mentions :: "account \<Rightarrow> json list \<Rightarrow> string \<Rightarrow> string option" where
  "strip_mentions acc [] t = Some t"
| "strip_mentions acc (mention # ms) t =
     Option.bind (json_at mention ''id'') (\<lambda>mid. Option.bind (string_value mid ''open_id'' []) (\<lambda>open_id.
       if open_id \<noteq> ac_bot_id acc then strip_mentions acc ms t
       else Option.bind (Option.bind (json_at mention ''key'') get_string) (\<lambda>key. strip_mentions acc ms (remove_key key t))))"

definition feishu_message :: "account \<Rightarrow> json \<Rightarrow> json \<Rightarrow> json \<Rightarrow> string \<Rightarrow> string \<Rightarrow> channel_message option throwing" where
  "feishu_message acc header sender msg kind t =
     tbind (tget (Option.bind (json_at msg ''chat_id'') (\<lambda>chat.
       Option.bind (json_value msg ''root_id'' JNull) (\<lambda>root. Option.bind (json_value msg ''thread_id'' root) (\<lambda>thread.
       Option.bind (json_at header ''event_id'') (\<lambda>event.
       Option.bind (json_at msg ''message_id'') (\<lambda>mid.
       Option.bind (Option.bind (json_at sender ''sender_id'') (\<lambda>s. json_at s ''open_id'')) (\<lambda>who.
         Some \<lparr>cm_conversation = \<lparr>cv_platform = Feishu, cv_account = ac_id acc, cv_kind = (if kind = ''p2p'' then Direct else Group),
                 cv_chat = json_id chat, cv_thread = json_id thread\<rparr>,
               cm_event_id = json_id event, cm_message_id = json_id mid, cm_sender = json_id who, cm_text = t, cm_image = None,
               cm_reply_to = None, cm_reference_key = []\<rparr>)))))))) (\<lambda>m. Some (checked m))"

definition feishu_decode :: "json_lib \<Rightarrow> string \<Rightarrow> account \<Rightarrow> channel_message option result" where
  "feishu_decode lib envelope acc =
     rbind (channel_parse lib envelope) (\<lambda>parsed. catching ''invalid Feishu message''
       (case json_member parsed ''header'' of
          None \<Rightarrow> tret None
        | Some header \<Rightarrow> tbind (tget (json_at header ''event_type'')) (\<lambda>ty.
            if ty \<noteq> JString ''im.message.receive_v1'' then tret None
            else tbind (tget (json_at parsed ''event'')) (\<lambda>event. tbind (tget (json_at event ''sender'')) (\<lambda>sender.
              tbind (tget (json_at sender ''sender_type'')) (\<lambda>st.
              if st \<noteq> JString ''user'' then tret None
              else tbind (tget (json_at event ''message'')) (\<lambda>msg. tbind (tget (json_at msg ''message_type'')) (\<lambda>mt.
                if mt \<noteq> JString ''text'' then tret None
                else tbind (tget (Option.bind (json_at msg ''content'') get_string)) (\<lambda>content.
                  tbind (Some (channel_parse lib content)) (\<lambda>inner.
                  tbind (tget (Option.bind (json_at inner ''text'') get_string)) (\<lambda>raw.
                  tbind (tget (if ac_bot_id acc \<noteq> [] then (case json_member msg ''mentions'' of
                      Some ms \<Rightarrow> strip_mentions acc (json_iterate ms) raw | None \<Rightarrow> Some raw) else Some raw)) (\<lambda>stripped.
                  let t = trim_front stripped in
                  if t = [] then tret None
                  else tbind (tget (Option.bind (json_at msg ''chat_type'') get_string)) (\<lambda>kind.
                    if kind \<noteq> ''p2p'' \<and> kind \<noteq> ''group'' then tret None else feishu_message acc header sender msg kind t)))))))))))))"

definition feishu_path :: "channel_message \<Rightarrow> string" where
  "feishu_path m = ''/open-apis/im/v1/messages/'' @ segment (cm_message_id m)"

definition feishu_reply :: "json_lib \<Rightarrow> channel_message \<Rightarrow> string \<Rightarrow> nat \<Rightarrow> api_request result" where
  "feishu_reply lib m t part =
     rbind (validate m Feishu) (\<lambda>_.
       let body = [(''msg_type'', JString ''text''), (''content'', JString (json_dump lib (JObject [(''text'', JString t)])))] in
       Inr \<lparr>ar_method = ''POST'', ar_path = feishu_path m @ ''/reply'',
         ar_body = json_dump lib (JObject (if cv_thread (cm_conversation m) = [] then body else set_member ''reply_in_thread'' (JBool True) body))\<rparr>)"

definition feishu_activity :: "json_lib \<Rightarrow> channel_message \<Rightarrow> receipt option \<Rightarrow> api_request option result" where
  "feishu_activity lib m rec =
     rbind (validate m Feishu) (\<lambda>_. let path = feishu_path m @ ''/reactions'' in
       case rec of
         Some r \<Rightarrow> if rt_id r = [] then Inr None
           else Inr (Some \<lparr>ar_method = ''DELETE'', ar_path = path @ ''/'' @ segment (rt_id r), ar_body = []\<rparr>)
       | None \<Rightarrow> Inr (Some \<lparr>ar_method = ''POST'', ar_path = path,
           ar_body = json_dump lib (JObject [(''reaction_type'', JObject [(''emoji_type'', JString ''Typing'')])])\<rparr>))"

section \<open>The adapters\<close>

record adapter =
  ad_platform :: platform
  ad_capabilities :: "chat_kind \<Rightarrow> capabilities"
  ad_decode :: "string \<Rightarrow> account \<Rightarrow> channel_message option result"
  ad_reply :: "channel_message \<Rightarrow> string \<Rightarrow> nat \<Rightarrow> api_request result"
  ad_activity :: "channel_message \<Rightarrow> receipt option \<Rightarrow> api_request option result"
  ad_accept :: "api_response \<Rightarrow> receipt result"

definition telegram :: "json_lib \<Rightarrow> float_lib \<Rightarrow> adapter" where
  "telegram lib fl = \<lparr>ad_platform = Telegram, ad_capabilities = (\<lambda>_. \<lparr>cp_activity = Renewable, cp_threads = True, cp_text_bytes = 4000\<rparr>),
     ad_decode = telegram_decode lib fl, ad_reply = telegram_reply lib, ad_activity = telegram_activity lib, ad_accept = accept lib (fl_equals fl) Telegram\<rparr>"

definition qq :: "json_lib \<Rightarrow> float_lib \<Rightarrow> adapter" where
  "qq lib fl = \<lparr>ad_platform = QQ,
     ad_capabilities = (\<lambda>kind. \<lparr>cp_activity = (if kind = Direct then Expiring else NoActivity), cp_threads = False, cp_text_bytes = 2000\<rparr>),
     ad_decode = qq_decode lib fl, ad_reply = qq_reply lib, ad_activity = qq_activity lib, ad_accept = accept lib (fl_equals fl) QQ\<rparr>"

definition feishu :: "json_lib \<Rightarrow> float_lib \<Rightarrow> adapter" where
  "feishu lib fl = \<lparr>ad_platform = Feishu, ad_capabilities = (\<lambda>_. \<lparr>cp_activity = Reaction, cp_threads = True, cp_text_bytes = 4000\<rparr>),
     ad_decode = feishu_decode lib, ad_reply = feishu_reply lib, ad_activity = feishu_activity lib, ad_accept = accept lib (fl_equals fl) Feishu\<rparr>"

section \<open>The contract of an adapter\<close>

definition slashes :: "string \<Rightarrow> nat" where
  "slashes t = length (filter (\<lambda>c. c = CHR ''/'') t)"

definition path_char :: "char \<Rightarrow> bool" where
  "path_char c \<longleftrightarrow> unreserved c \<or> c = CHR ''%'' \<or> c = CHR ''/''"

fun route_depth :: "platform \<Rightarrow> nat" where
  "route_depth Telegram = 1"
| "route_depth QQ = 4"
| "route_depth Feishu = 6"

text \<open>The route of a typing notice, or of taking a reaction with a receipt back.\<close>

fun activity_depth :: "platform \<Rightarrow> receipt option \<Rightarrow> nat" where
  "activity_depth Telegram r = 1"
| "activity_depth QQ r = 4"
| "activity_depth Feishu None = 6"
| "activity_depth Feishu (Some r) = 7"

text \<open>
  What the dispatcher relies on: a decoded message passes validation and carries the account of
  the host; a reply or an activity notice is only rendered for a message that passes it, and neither
  the identifiers of the message nor those of a receipt can change the route of the request; limits
  admit every code point.
\<close>

locale channel_adapter =
  fixes ad :: adapter
  assumes decode_sound: "ad_decode ad envelope acc = Inr (Some m) \<Longrightarrow>
      validate m (ad_platform ad) = Inr () \<and> cv_account (cm_conversation m) = ac_id acc"
    and reply_validates: "ad_reply ad m t part = Inr req \<Longrightarrow> validate m (ad_platform ad) = Inr ()"
    and reply_route: "ad_reply ad m t part = Inr req \<Longrightarrow>
      list_all path_char (ar_path req) \<and> slashes (ar_path req) = route_depth (ad_platform ad)"
    and activity_validates: "ad_activity ad m rec = Inr (Some req) \<Longrightarrow> validate m (ad_platform ad) = Inr ()"
    and activity_route: "ad_activity ad m rec = Inr (Some req) \<Longrightarrow>
      list_all path_char (ar_path req) \<and> slashes (ar_path req) = activity_depth (ad_platform ad) rec"
    and text_limit: "4 \<le> cp_text_bytes (ad_capabilities ad kind)"
begin

lemma reply_splits:
  "is_valid_utf8 t \<Longrightarrow> \<exists>parts. split_text t (cp_text_bytes (ad_capabilities ad kind)) = Some (Inr parts) \<and> concat parts = t"
  using split_loop_correct [OF _ text_limit] text_limit [of kind] by (fastforce simp: split_text_def)

end

lemma tbind_SomeInr_iff: "tbind m f = Some (Inr y) \<longleftrightarrow> (\<exists>x. m = Some (Inr x) \<and> f x = Some (Inr y))"
  by (auto simp: tbind_def split: option.splits sum.splits)

lemma tget_SomeInr_iff [simp]: "tget x = Some (Inr y) \<longleftrightarrow> x = Some y"
  by (auto simp: tget_def)

lemma tret_iff [simp]: "tret x = Some (Inr y) \<longleftrightarrow> x = y"
  by (simp add: tret_def)

lemma catching_Inr_iff [simp]: "catching msg m = Inr y \<longleftrightarrow> m = Some (Inr y)"
  by (auto simp: catching_def split: option.split)

lemma checked_Inr_iff: "checked m = Inr x \<longleftrightarrow> x = Some m \<and> validate m (cv_platform (cm_conversation m)) = Inr ()"
  by (auto simp: checked_def rbind_Inr_iff)

lemmas decode_simps = rbind_Inr_iff tbind_SomeInr_iff checked_Inr_iff Option.bind_eq_Some_conv Let_def

lemma telegram_message_sound:
  "telegram_message fl acc parsed msg img from kind chat reply = Some (Inr (Some m)) \<Longrightarrow> validate m Telegram = Inr () \<and> cv_account (cm_conversation m) = ac_id acc"
  by (auto simp: telegram_message_def decode_simps)

lemma telegram_decode_sound:
  "telegram_decode lib fl envelope acc = Inr (Some m) \<Longrightarrow> validate m Telegram = Inr () \<and> cv_account (cm_conversation m) = ac_id acc"
  by (auto simp: telegram_decode_def decode_simps split: option.splits if_splits dest: telegram_message_sound)

lemma qq_message_sound:
  "qq_message fl acc msg g sender t img = Some (Inr (Some m)) \<Longrightarrow> validate m QQ = Inr () \<and> cv_account (cm_conversation m) = ac_id acc"
  by (auto simp: qq_message_def decode_simps)

lemma qq_decode_sound:
  "qq_decode lib fl envelope acc = Inr (Some m) \<Longrightarrow> validate m QQ = Inr () \<and> cv_account (cm_conversation m) = ac_id acc"
  by (auto simp: qq_decode_def decode_simps split: if_splits dest: qq_message_sound)

lemma feishu_message_sound:
  "feishu_message acc header sender msg kind t = Some (Inr (Some m)) \<Longrightarrow> validate m Feishu = Inr () \<and> cv_account (cm_conversation m) = ac_id acc"
  by (auto simp: feishu_message_def decode_simps)

lemma feishu_decode_sound:
  "feishu_decode lib envelope acc = Inr (Some m) \<Longrightarrow> validate m Feishu = Inr () \<and> cv_account (cm_conversation m) = ac_id acc"
  by (auto simp: feishu_decode_def decode_simps split: option.splits if_splits dest: feishu_message_sound)

lemma slashes_segment: "slashes (segment t) = 0"
  using segment_safe [of "CHR ''/''" t] by (auto simp: slashes_def filter_empty_conv unreserved_def)

lemma path_char_segment: "list_all path_char (segment t)"
  using segment_safe [of _ t] by (auto simp: list_all_iff path_char_def)

lemma slashes_simps: "slashes (s @ t) = slashes s + slashes t" "slashes (c # t) = (if c = CHR ''/'' then 1 else 0) + slashes t" "slashes [] = 0"
  by (simp_all add: slashes_def)

lemmas route_simps = slashes_simps slashes_segment path_char_segment path_char_def unreserved_def

lemma qq_route: "list_all path_char (qq_path m) \<and> slashes (qq_path m) = 4"
  by (simp add: qq_path_def route_simps)

lemma feishu_route: "list_all path_char (feishu_path m @ ''/reply'') \<and> slashes (feishu_path m @ ''/reply'') = 6"
  by (simp add: feishu_path_def route_simps)

lemma telegram_activity_sound:
  "telegram_activity lib m rec = Inr (Some req) \<Longrightarrow> validate m Telegram = Inr () \<and>
     list_all path_char (ar_path req) \<and> slashes (ar_path req) = activity_depth Telegram rec"
  by (auto simp: telegram_activity_def rbind_Inr_iff route_simps split: if_splits)

lemma qq_activity_sound:
  "qq_activity lib m rec = Inr (Some req) \<Longrightarrow> validate m QQ = Inr () \<and>
     list_all path_char (ar_path req) \<and> slashes (ar_path req) = activity_depth QQ rec"
  by (auto simp: qq_activity_def rbind_Inr_iff Let_def route_simps split: if_splits)

lemma feishu_activity_sound:
  "feishu_activity lib m rec = Inr (Some req) \<Longrightarrow> validate m Feishu = Inr () \<and>
     list_all path_char (ar_path req) \<and> slashes (ar_path req) = activity_depth Feishu rec"
  by (auto simp: feishu_activity_def feishu_path_def rbind_Inr_iff Let_def route_simps split: if_splits option.splits)

lemma qq_markdown_sound:
  assumes "qq_markdown_reply lib m t part = Some (Inr req)"
  shows "\<exists>plain. qq_reply lib m t part = Inr plain \<and> ar_method req = ar_method plain \<and> ar_path req = ar_path plain"
proof -
  obtain plain where plain: "qq_reply lib m t part = Inr plain"
    using assms by (cases "qq_reply lib m t part") (auto simp: qq_markdown_reply_def tbind_def)
  with assms obtain kvs where "json_parse lib (ar_body plain) = Inr (JObject kvs)"
    unfolding qq_markdown_reply_def tbind_SomeInr_iff by (auto split: sum.splits json.splits)
  with assms plain show ?thesis by (auto simp: qq_markdown_reply_def tbind_def tret_def)
qed

lemma adapter_sels [simp]:
  "ad_platform (telegram lib fl) = Telegram" "ad_decode (telegram lib fl) = telegram_decode lib fl"
  "ad_reply (telegram lib fl) = telegram_reply lib" "ad_activity (telegram lib fl) = telegram_activity lib"
  "ad_platform (qq lib fl) = QQ" "ad_decode (qq lib fl) = qq_decode lib fl"
  "ad_reply (qq lib fl) = qq_reply lib" "ad_activity (qq lib fl) = qq_activity lib"
  "ad_platform (feishu lib fl) = Feishu" "ad_decode (feishu lib fl) = feishu_decode lib"
  "ad_reply (feishu lib fl) = feishu_reply lib" "ad_activity (feishu lib fl) = feishu_activity lib"
  by (simp_all add: telegram_def qq_def feishu_def)

lemma telegram_reply_sound:
  "telegram_reply lib m t part = Inr req \<Longrightarrow> validate m Telegram = Inr () \<and>
     list_all path_char (ar_path req) \<and> slashes (ar_path req) = 1"
  by (auto simp: telegram_reply_def rbind_Inr_iff route_simps split: sum.splits)

lemma qq_reply_sound:
  "qq_reply lib m t part = Inr req \<Longrightarrow> validate m QQ = Inr () \<and>
     list_all path_char (ar_path req) \<and> slashes (ar_path req) = 4"
  using qq_route [of m] by (auto simp: qq_reply_def qq_check_def rbind_Inr_iff)

lemma feishu_reply_sound:
  "feishu_reply lib m t part = Inr req \<Longrightarrow> validate m Feishu = Inr () \<and>
     list_all path_char (ar_path req) \<and> slashes (ar_path req) = 6"
  using feishu_route [of m] by (auto simp: feishu_reply_def Let_def rbind_Inr_iff)

interpretation tg: channel_adapter "telegram lib fl" for lib fl
  by unfold_locales
     (simp_all add: telegram_decode_sound telegram_reply_sound telegram_activity_sound, simp add: telegram_def)

interpretation qqs: channel_adapter "qq lib fl" for lib fl
  by unfold_locales (simp_all add: qq_decode_sound qq_reply_sound qq_activity_sound, simp add: qq_def)

interpretation fs: channel_adapter "feishu lib fl" for lib fl
  by unfold_locales
     (simp_all add: feishu_decode_sound feishu_reply_sound feishu_activity_sound, simp add: feishu_def)

text \<open>
  C28: Whatever bytes a platform delivers, a decoded message has passed the size, encoding and
  identity checks and belongs to the account of the host, never to one the event names. No request
  the adapters render can be redirected by an identifier: a reply, a typing notice, a reaction and
  the removal of a reaction (whose receipt the platform chose) are only rendered for a message
  that passes the checks, and the path has only unreserved characters and the slashes of its route.
  The Markdown form of a QQ reply has the method and path of the plain one.
\<close>

theorem adapters_trust_only_the_host:
  assumes "ad \<in> {telegram lib fl, qq lib fl, feishu lib fl}"
  shows "(ad_decode ad envelope acc = Inr (Some m) \<longrightarrow> validate m (ad_platform ad) = Inr () \<and> cv_account (cm_conversation m) = ac_id acc) \<and>
    (ad_reply ad m' t part = Inr req \<longrightarrow> validate m' (ad_platform ad) = Inr () \<and> list_all path_char (ar_path req) \<and>
       slashes (ar_path req) = route_depth (ad_platform ad)) \<and>
    (ad_activity ad m' rec = Inr (Some notice) \<longrightarrow> validate m' (ad_platform ad) = Inr () \<and> list_all path_char (ar_path notice) \<and>
       slashes (ar_path notice) = activity_depth (ad_platform ad) rec) \<and>
    (qq_markdown_reply lib m' t part = Some (Inr md) \<longrightarrow>
       (\<exists>plain. ad_reply (qq lib fl) m' t part = Inr plain \<and> ar_method md = ar_method plain \<and> ar_path md = ar_path plain))"
proof -
  have "channel_adapter ad" using assms tg.channel_adapter_axioms qqs.channel_adapter_axioms fs.channel_adapter_axioms by auto
  note laws = channel_adapter.decode_sound [OF this] channel_adapter.reply_validates [OF this] channel_adapter.reply_route [OF this]
    channel_adapter.activity_validates [OF this] channel_adapter.activity_route [OF this]
  have "\<exists>plain. ad_reply (qq lib fl) m' t part = Inr plain \<and> ar_method md = ar_method plain \<and> ar_path md = ar_path plain"
    if "qq_markdown_reply lib m' t part = Some (Inr md)"
    using qq_markdown_sound [OF that] by simp
  then show ?thesis using laws by blast
qed

text \<open>A group message whose chat identifier tries to leave its path segment.\<close>

definition demo_chat :: channel_message where
  "demo_chat = \<lparr>cm_conversation = \<lparr>cv_platform = QQ, cv_account = ''bot'', cv_kind = Group, cv_chat = ''../x'', cv_thread = []\<rparr>,
     cm_event_id = ''e'', cm_message_id = ''m'', cm_sender = ''s'', cm_text = ''hi'', cm_image = None, cm_reply_to = None, cm_reference_key = []\<rparr>"

definition demo_json :: json_lib where
  "demo_json = \<lparr>json_parse = (\<lambda>_. Inl ''bad''), json_dump = (\<lambda>_. ''{}'')\<rparr>"

definition demo_floats :: float_lib where
  "demo_floats = \<lparr>fl_u64 = (\<lambda>_. 0), fl_i32 = (\<lambda>_. 0), fl_equals = (\<lambda>_ _. False)\<rparr>"

lemma demo_valid: "validate demo_chat QQ = Inr ()"
  by (simp add: validate_def valid_identity_def demo_chat_def Let_def valid_image_id_def is_valid_utf8.simps sequence_at_def
      lead_length_def Let_def)

theorem adapters_trust_only_the_host_witness:
  "\<exists>req. ad_reply (qq demo_json demo_floats) demo_chat ''ok'' 0 = Inr req \<and> slashes (ar_path req) = 4 \<and>
     ar_path req = ''/v2/groups/%2E%2E%2Fx/messages''"
proof -
  define req where "req = \<lparr>ar_method = ''POST'', ar_path = qq_path demo_chat, ar_body = ''{}''\<rparr>"
  have r: "ad_reply (qq demo_json demo_floats) demo_chat ''ok'' 0 = Inr req"
    using demo_valid by (simp add: qq_def qq_reply_def qq_check_def req_def demo_chat_def demo_json_def)
  have "ar_path req = ''/v2/groups/%2E%2E%2Fx/messages''"
    by (simp add: req_def qq_path_def demo_chat_def segment_def escape_def unreserved_def hex_upper_def Let_def, code_simp)
  moreover have "slashes (ar_path req) = route_depth (ad_platform (qq demo_json demo_floats))"
    using adapters_trust_only_the_host [of "qq demo_json demo_floats" demo_json demo_floats] r by blast
  ultimately show ?thesis using r by (intro exI [of _ req]) (simp add: qq_def)
qed

end
