(* ===== verification/Channel_Dispatcher.thy ===== *)
theory Channel_Dispatcher
  imports Channel_Adapters Perm_Rules "HOL-Library.AList"
begin

text \<open>
  \<^verbatim>\<open>oran-channel/dispatcher.cpp\<close>: one message per conversation at a time is admitted, authorised, answered
  by a turn, split and delivered part by part. Handlers of different conversations interleave
  at their suspension points: the return of an authorisation, of the turn, of each send. These
  points are the events of the model, with what the awaited operation answered; a flight records
  where the handler of a conversation is, and holding one is holding the conversation's lease.
  Hooks, turns and sends are entries of a log.
\<close>

section \<open>State\<close>

record delivery =
  dl_parts_sent :: nat
  dl_duplicate :: bool
  dl_activity_failures :: nat

record entry =
  en_message :: channel_message
  en_parts :: "string list"
  en_next_part :: nat
  en_generated :: bool
  en_complete :: bool
  en_error :: "core_error option"
  en_delivery :: delivery

record dispatcher_options =
  do_rules :: rule_set
  do_mode :: mode
  do_hooks :: bool
  do_capacity :: nat
  do_max_reply_bytes :: nat
  do_typing_interval :: int
  do_typing_ttl :: int
  do_render_reply :: "(channel_message \<Rightarrow> string \<Rightarrow> nat \<Rightarrow> api_request result) option"
  do_split_reply :: "(string \<Rightarrow> nat \<Rightarrow> string list result) option"

text \<open>\<open>Receiving\<close> and \<open>Resuming\<close> await authorisation, \<open>Running\<close> the turn, \<open>Sending\<close> the send of the next part.\<close>

datatype flight =
    Receiving channel_message
  | Running string
  | Sending bool string
  | Resuming string nat

datatype channel_effect =
    Hooked string bool
  | RunTurn string
  | SendPart string nat api_request
  | Typing api_request
  | Confirmed string nat
  | Evicted string
  | Returned string "delivery result"

record dispatcher =
  di_entries :: "(string \<times> entry) list"
  di_completed :: "string list"
  di_flights :: "(string \<times> flight) list"
  di_log :: "channel_effect list"

record dispatcher_env =
  dv_adapter :: adapter
  dv_options :: dispatcher_options
  dv_re :: re_engine
  dv_lib :: json_lib

definition event_key :: "channel_message \<Rightarrow> string" where
  "event_key m = conversation_key (cm_conversation m) @ '':'' @ cm_event_id m"

definition safe_error :: "core_error \<Rightarrow> core_error" where
  "safe_error e = (let s = make_error (err_kind e) ''channel operation failed'' in
     case err_retry_after e of Some d \<Rightarrow> with_retry_after d s | None \<Rightarrow> s)"

definition new_delivery :: delivery where
  "new_delivery = \<lparr>dl_parts_sent = 0, dl_duplicate = False, dl_activity_failures = 0\<rparr>"

definition new_channel_entry :: "channel_message \<Rightarrow> entry" where
  "new_channel_entry m = \<lparr>en_message = m, en_parts = [], en_next_part = 0, en_generated = False, en_complete = False, en_error = None,
     en_delivery = new_delivery\<rparr>"

definition dispatcher_create :: "dispatcher_env \<Rightarrow> bool \<Rightarrow> bool \<Rightarrow> dispatcher result" where
  "dispatcher_create env transport run = (let o1 = dv_options env in
     if \<not> transport \<or> \<not> run \<or> \<not> do_hooks o1 \<or> do_capacity o1 = 0 \<or> do_capacity o1 > 4096 \<or> do_max_reply_bytes o1 = 0 \<or>
        do_max_reply_bytes o1 > 1024 * 1024 \<or> do_typing_interval o1 \<le> 0 \<or> do_typing_interval o1 > 4000 \<or> do_typing_ttl o1 \<le> 0 \<or>
        do_typing_ttl o1 > 60000
     then Inl (err_invalid_argument ''invalid channel dispatcher options'')
     else Inr \<lparr>di_entries = [], di_completed = [], di_flights = [], di_log = []\<rparr>)"

section \<open>Authorisation and sends\<close>

definition render_reply :: "dispatcher_env \<Rightarrow> channel_message \<Rightarrow> string \<Rightarrow> nat \<Rightarrow> api_request result" where
  "render_reply env m t part = (case do_render_reply (dv_options env) of Some f \<Rightarrow> f m t part | None \<Rightarrow> ad_reply (dv_adapter env) m t part)"

definition authorize_input :: "dispatcher_env \<Rightarrow> channel_message \<Rightarrow> api_request option \<Rightarrow> string" where
  "authorize_input env m request = json_dump (dv_lib env) (JObject ([(''conversation'', JString (conversation_key (cm_conversation m))),
     (''sender'', JString (cm_sender m))] @ (case request of None \<Rightarrow> [] | Some r \<Rightarrow>
       [(''method'', JString (ar_method r)), (''path'', JString (ar_path r)), (''body'', JString (ar_body r))])))"

definition channel_allowed :: "dispatcher_env \<Rightarrow> channel_message \<Rightarrow> string \<Rightarrow> api_request option \<Rightarrow> bool" where
  "channel_allowed env m operation request \<longleftrightarrow>
     dc_verdict (evaluate (dv_re env) (do_rules (dv_options env)) operation (authorize_input env m request)
       (if request = None then [] else [egress_http]) (do_mode (dv_options env))) = Allow"

definition dispatcher_authorize :: "dispatcher_env \<Rightarrow> bool \<Rightarrow> channel_message \<Rightarrow> string \<Rightarrow> api_request option \<Rightarrow> unit result \<times> channel_effect list" where
  "dispatcher_authorize env is_cancelled m operation request =
     (if is_cancelled then (Inl err_cancelled, [])
      else let allowed = channel_allowed env m operation request in
        (if allowed then Inr () else Inl (err_permission_denied ''channel operation requires an explicit allow decision''), [Hooked operation allowed]))"

text \<open>What the awaited calls of a send answered: whether it was cancelled before, the transport (\<open>None\<close> when it threw), and whether it was cancelled then.\<close>

record send_answer =
  sa_cancelled :: bool
  sa_response :: "api_response result option"
  sa_cancelled_after :: bool

definition send :: "dispatcher_env \<Rightarrow> channel_message \<Rightarrow> api_request \<Rightarrow> string \<Rightarrow> channel_effect \<Rightarrow> send_answer \<Rightarrow> receipt result \<times> channel_effect list" where
  "send env m request operation effect a =
     (case dispatcher_authorize env (sa_cancelled a) m operation (Some request) of
        (Inl e, effs) \<Rightarrow> (Inl e, effs)
      | (Inr _, effs) \<Rightarrow>
          ((case sa_response a of
              None \<Rightarrow> Inl (if sa_cancelled_after a then err_cancelled else err_internal ''channel transport failed'')
            | Some (Inl e) \<Rightarrow> Inl (safe_error e)
            | Some (Inr response) \<Rightarrow> rbind (ad_accept (dv_adapter env) response) (\<lambda>r.
                if operation = ''ChannelSend'' \<and> rt_id r = [] then Inl (err_parsing ''channel send returned no message receipt'') else Inr r)),
           effs @ [effect]))"

section \<open>Activity\<close>

text \<open>One tick per iteration of the loop that is entered: the answer of its send and whether the turn had ended by then.\<close>

record activity_tick =
  tk_answer :: send_answer
  tk_stopped :: bool

record activity_result =
  av_receipt :: "receipt option"
  av_failures :: nat
  av_effects :: "channel_effect list"

definition stops_activity :: "core_error \<Rightarrow> nat \<Rightarrow> bool" where
  "stops_activity e consecutive \<longleftrightarrow> consecutive \<ge> 2 \<or> err_kind e = rate_limit_kind \<or> err_kind e = permission_denied_kind"

fun activity_loop :: "dispatcher_env \<Rightarrow> channel_message \<Rightarrow> activity_tick list \<Rightarrow> nat \<Rightarrow> activity_result \<Rightarrow> activity_result" where
  "activity_loop env m [] consecutive s = s"
| "activity_loop env m (tick # ticks) consecutive s =
     (let kind = cp_activity (ad_capabilities (dv_adapter env) (cv_kind (cm_conversation m))) in
      case ad_activity (dv_adapter env) m None of
        Inl e \<Rightarrow> s\<lparr>av_failures := av_failures s + 1\<rparr>
      | Inr None \<Rightarrow> s
      | Inr (Some request) \<Rightarrow>
          (case send env m request ''ChannelTyping'' (Typing request) (tk_answer tick) of
            (Inl e, effs) \<Rightarrow>
              let s1 = s\<lparr>av_failures := av_failures s + 1, av_effects := av_effects s @ effs\<rparr> in
              if stops_activity e (consecutive + 1) \<or> tk_stopped tick \<or> kind \<noteq> Renewable \<and> av_receipt s1 \<noteq> None then s1
              else activity_loop env m ticks (consecutive + 1) s1
          | (Inr r, effs) \<Rightarrow>
              let s1 = s\<lparr>av_receipt := Some r, av_effects := av_effects s @ effs\<rparr> in
              if kind \<noteq> Renewable then (if kind = Reaction \<and> rt_id r = [] then s1\<lparr>av_failures := av_failures s1 + 1\<rparr> else s1)
              else if tk_stopped tick then s1
              else activity_loop env m ticks 0 s1))"

definition activity :: "dispatcher_env \<Rightarrow> channel_message \<Rightarrow> activity_tick list \<Rightarrow> send_answer \<Rightarrow> activity_result" where
  "activity env m ticks final =
     (let s = activity_loop env m ticks 0 \<lparr>av_receipt = None, av_failures = 0, av_effects = []\<rparr> in
      case av_receipt s of
        None \<Rightarrow> s
      | Some r \<Rightarrow> (case ad_activity (dv_adapter env) m (Some r) of
            Inl e \<Rightarrow> s\<lparr>av_failures := av_failures s + 1\<rparr>
          | Inr None \<Rightarrow> s
          | Inr (Some request) \<Rightarrow> (case send env m request ''ChannelTyping'' (Typing request) final of
              (Inl e, effs) \<Rightarrow> s\<lparr>av_failures := av_failures s + 1, av_effects := av_effects s @ effs\<rparr>
            | (Inr _, effs) \<Rightarrow> s\<lparr>av_effects := av_effects s @ effs\<rparr>)))"

section \<open>Delivery\<close>

definition find_entry :: "string \<Rightarrow> dispatcher \<Rightarrow> entry option" where
  "find_entry k d = map_of (di_entries d) k"

definition put_entry :: "string \<Rightarrow> entry \<Rightarrow> dispatcher \<Rightarrow> dispatcher" where
  "put_entry k e d = d\<lparr>di_entries := AList.update k e (di_entries d)\<rparr>"

definition log_effects :: "channel_effect list \<Rightarrow> dispatcher \<Rightarrow> dispatcher" where
  "log_effects effs d = d\<lparr>di_log := di_log d @ effs\<rparr>"

definition set_flight :: "string \<Rightarrow> flight \<Rightarrow> dispatcher \<Rightarrow> dispatcher" where
  "set_flight c f d = d\<lparr>di_flights := AList.update c f (di_flights d)\<rparr>"

definition end_flight :: "string \<Rightarrow> delivery result \<Rightarrow> dispatcher \<Rightarrow> dispatcher" where
  "end_flight c r d = log_effects [Returned c r] (d\<lparr>di_flights := AList.delete c (di_flights d)\<rparr>)"

definition fail_entry :: "string \<Rightarrow> string \<Rightarrow> core_error \<Rightarrow> dispatcher \<Rightarrow> dispatcher" where
  "fail_entry c k err d = (case find_entry k d of
     Some e \<Rightarrow> end_flight c (Inl err) (put_entry k (e\<lparr>en_error := Some err\<rparr>) d)
   | None \<Rightarrow> end_flight c (Inl err) d)"

definition finish_delivery :: "string \<Rightarrow> string \<Rightarrow> entry \<Rightarrow> dispatcher \<Rightarrow> dispatcher" where
  "finish_delivery c k e d = end_flight c (Inr (en_delivery e))
     ((put_entry k (e\<lparr>en_complete := True, en_error := None\<rparr>) d)\<lparr>di_completed := di_completed d @ [k]\<rparr>)"

fun preflight_parts :: "dispatcher_env \<Rightarrow> entry \<Rightarrow> nat \<Rightarrow> string list \<Rightarrow> unit result" where
  "preflight_parts env e i [] = Inr ()"
| "preflight_parts env e i (p # ps) = rbind (render_reply env (en_message e) p i) (\<lambda>_. preflight_parts env e (Suc i) ps)"

definition deliver :: "dispatcher_env \<Rightarrow> bool \<Rightarrow> string \<Rightarrow> string \<Rightarrow> entry \<Rightarrow> dispatcher \<Rightarrow> dispatcher" where
  "deliver env resumed c k e d = (case preflight_parts env e (en_next_part e) (drop (en_next_part e) (en_parts e)) of
     Inl err \<Rightarrow> fail_entry c k err d
   | Inr _ \<Rightarrow> if en_next_part e < length (en_parts e) then set_flight c (Sending resumed k) d else finish_delivery c k e d)"

definition send_step :: "dispatcher_env \<Rightarrow> bool \<Rightarrow> string \<Rightarrow> string \<Rightarrow> entry \<Rightarrow> send_answer \<Rightarrow> dispatcher \<Rightarrow> dispatcher" where
  "send_step env resumed c k e a d = (let part = en_next_part e in
     case render_reply env (en_message e) (en_parts e ! part) part of
       Inl err \<Rightarrow> fail_entry c k err d
     | Inr request \<Rightarrow> (case send env (en_message e) request ''ChannelSend'' (SendPart k part request) a of
         (Inl err, effs) \<Rightarrow> fail_entry c k (with_ctx ''confirmed_parts'' (show_nat part) err) (log_effects effs d)
       | (Inr _, effs) \<Rightarrow>
           let e1 = e\<lparr>en_next_part := part + 1, en_delivery := (en_delivery e)\<lparr>dl_parts_sent := dl_parts_sent (en_delivery e) + 1\<rparr>\<rparr>;
               d1 = put_entry k e1 (log_effects (effs @ [Confirmed k part]) d) in
           if part + 1 < length (en_parts e) then d1 else finish_delivery c k e1 d1))"

section \<open>Handling a message\<close>

definition handle_start :: "dispatcher_env \<Rightarrow> channel_message \<Rightarrow> dispatcher \<Rightarrow> dispatcher" where
  "handle_start env m d = (let c = conversation_key (cm_conversation m) in
     case validate m (ad_platform (dv_adapter env)) of
       Inl e \<Rightarrow> log_effects [Returned c (Inl e)] d
     | Inr _ \<Rightarrow>
         if c \<in> fst ` set (di_flights d) then log_effects [Returned c (Inl (make_error conflict_kind ''channel conversation is busy''))] d
         else if length (di_flights d) \<ge> do_capacity (dv_options env)
         then log_effects [Returned c (Inl (make_error mailbox_overflowed_kind ''channel admission is full''))] d
         else set_flight c (Receiving m) d)"

definition admit :: "dispatcher_env \<Rightarrow> string \<Rightarrow> channel_message \<Rightarrow> dispatcher \<Rightarrow> dispatcher" where
  "admit env c m d = (let k = event_key m in
     case find_entry k d of
       Some e \<Rightarrow> (case en_error e of
           Some err \<Rightarrow> end_flight c (Inl err) d
         | None \<Rightarrow> end_flight c (Inr ((en_delivery e)\<lparr>dl_duplicate := True\<rparr>)) d)
     | None \<Rightarrow>
         (if length (di_entries d) \<ge> do_capacity (dv_options env)
          then (case di_completed d of
              [] \<Rightarrow> end_flight c (Inl (make_error mailbox_overflowed_kind ''channel delivery cache is full'')) d
            | old # rest \<Rightarrow> set_flight c (Running k) (log_effects [RunTurn k] (put_entry k (new_channel_entry m)
                (log_effects [Evicted old] (d\<lparr>di_entries := AList.delete old (di_entries d), di_completed := rest\<rparr>)))))
          else set_flight c (Running k) (log_effects [RunTurn k] (put_entry k (new_channel_entry m) d))))"

definition handle_authorized :: "dispatcher_env \<Rightarrow> string \<Rightarrow> channel_message \<Rightarrow> bool \<Rightarrow> dispatcher \<Rightarrow> dispatcher" where
  "handle_authorized env c m is_cancelled d = (case dispatcher_authorize env is_cancelled m ''ChannelReceive'' None of
     (Inl e, effs) \<Rightarrow> end_flight c (Inl e) (log_effects effs d)
   | (Inr _, effs) \<Rightarrow> admit env c m (log_effects effs d))"

definition split_answer :: "dispatcher_env \<Rightarrow> string \<Rightarrow> nat \<Rightarrow> string list result option" where
  "split_answer env t limit = (case do_split_reply (dv_options env) of Some f \<Rightarrow> Some (f t limit) | None \<Rightarrow> split_text t limit)"

definition valid_part :: "nat \<Rightarrow> string \<Rightarrow> bool" where
  "valid_part limit p \<longleftrightarrow> p \<noteq> [] \<and> (case split_text p limit of Some (Inr [_]) \<Rightarrow> True | _ \<Rightarrow> False)"

definition reply_parts :: "dispatcher_env \<Rightarrow> channel_message \<Rightarrow> string \<Rightarrow> string list result option" where
  "reply_parts env m t = (let o1 = dv_options env; limit = cp_text_bytes (ad_capabilities (dv_adapter env) (cv_kind (cm_conversation m))) in
     if length t > do_max_reply_bytes o1 then Some (Inl (err_invalid_argument ''channel reply exceeds byte limit''))
     else map_option (\<lambda>r. rbind r (\<lambda>parts.
       if (t \<noteq> [] \<and> parts = []) \<or> length parts > do_max_reply_bytes o1 then Inl (err_invalid_argument ''invalid channel reply parts'')
       else if \<not> list_all (valid_part limit) parts then Inl (err_invalid_argument ''invalid channel reply part'')
       else Inr parts)) (split_answer env t limit))"

text \<open>
  What the turn answered (\<open>None\<close> when it threw), whether the handler was cancelled by the join of the
  activity, what the activity saw meanwhile and what the join reported. The task group holds
  one task and one completion, so its creation and the single spawn into it succeed.
\<close>

record turn_answer =
  ta_answer :: "string result option"
  ta_cancelled :: bool
  ta_ticks :: "activity_tick list"
  ta_last :: send_answer
  ta_joined :: "nat result"

definition turn_done :: "dispatcher_env \<Rightarrow> string \<Rightarrow> string \<Rightarrow> entry \<Rightarrow> turn_answer \<Rightarrow> dispatcher \<Rightarrow> dispatcher" where
  "turn_done env c k e a d =
     (let m = en_message e;
          s = (if cp_activity (ad_capabilities (dv_adapter env) (cv_kind (cm_conversation m))) = NoActivity
               then \<lparr>av_receipt = None, av_failures = 0, av_effects = []\<rparr> else activity env m (ta_ticks a) (ta_last a));
          e1 = e\<lparr>en_delivery := (en_delivery e)\<lparr>dl_activity_failures := av_failures s + (case ta_joined a of Inr n \<Rightarrow> n | Inl _ \<Rightarrow> 0)\<rparr>\<rparr>;
          d1 = put_entry k e1 (log_effects (av_effects s) d) in
      case rbind (ta_joined a) (\<lambda>_. case ta_answer a of
             None \<Rightarrow> Inl (if ta_cancelled a then err_cancelled else safe_error (err_internal ''channel turn failed''))
           | Some (Inl err) \<Rightarrow> Inl (if ta_cancelled a then err_cancelled else safe_error err)
           | Some (Inr t) \<Rightarrow> Inr t) of
        Inl err \<Rightarrow> fail_entry c k err d1
      | Inr t \<Rightarrow> (case reply_parts env m t of
          None \<Rightarrow> d
        | Some (Inl err) \<Rightarrow> fail_entry c k err d1
        | Some (Inr parts) \<Rightarrow>
            let e2 = e1\<lparr>en_parts := parts, en_generated := True\<rparr>; d2 = put_entry k e2 d1 in
            if ta_cancelled a then fail_entry c k err_cancelled d2 else deliver env False c k e2 d2))"

section \<open>Recovery\<close>

definition recoverable :: "string \<Rightarrow> dispatcher \<Rightarrow> entry option" where
  "recoverable k d = (case find_entry k d of Some e \<Rightarrow> if \<not> en_generated e \<or> en_complete e then None else Some e | None \<Rightarrow> None)"

definition pending_reply :: "channel_message \<Rightarrow> dispatcher \<Rightarrow> (string list \<times> nat) result" where
  "pending_reply m d =
     (if conversation_key (cm_conversation m) \<in> fst ` set (di_flights d) then Inl (make_error conflict_kind ''channel conversation is busy'')
      else case recoverable (event_key m) d of
        None \<Rightarrow> Inl (err_not_found ''no pending channel reply'') | Some e \<Rightarrow> Inr (en_parts e, en_next_part e))"

definition resume_start :: "channel_message \<Rightarrow> nat \<Rightarrow> dispatcher \<Rightarrow> dispatcher" where
  "resume_start m next d = (let c = conversation_key (cm_conversation m) in
     if c \<in> fst ` set (di_flights d) then log_effects [Returned c (Inl (make_error conflict_kind ''channel conversation is busy''))] d
     else case recoverable (event_key m) d of
       None \<Rightarrow> log_effects [Returned c (Inl (err_not_found ''no pending channel reply''))] d
     | Some e \<Rightarrow>
         if next < en_next_part e \<or> next > length (en_parts e)
         then log_effects [Returned c (Inl (err_invalid_argument ''invalid delivery recovery position''))] d
         else set_flight c (Resuming (event_key m) next) d)"

definition resume_authorized :: "dispatcher_env \<Rightarrow> string \<Rightarrow> string \<Rightarrow> entry \<Rightarrow> nat \<Rightarrow> bool \<Rightarrow> dispatcher \<Rightarrow> dispatcher" where
  "resume_authorized env c k e next is_cancelled d = (case dispatcher_authorize env is_cancelled (en_message e) ''ChannelReceive'' None of
     (Inl err, effs) \<Rightarrow> end_flight c (Inl err) (log_effects effs d)
   | (Inr _, effs) \<Rightarrow>
       let e1 = e\<lparr>en_next_part := next, en_delivery := (en_delivery e)\<lparr>dl_parts_sent := next\<rparr>\<rparr> in
       deliver env True c k e1 (put_entry k e1 (log_effects effs d)))"

definition acknowledge_failure :: "channel_message \<Rightarrow> dispatcher \<Rightarrow> unit result \<times> dispatcher" where
  "acknowledge_failure m d = (let k = event_key m in
     if conversation_key (cm_conversation m) \<in> fst ` set (di_flights d) then (Inl (make_error conflict_kind ''channel conversation is busy''), d)
     else case find_entry k d of
       Some e \<Rightarrow>
         if en_error e = None then (Inl (err_not_found ''no failed channel delivery''), d)
         else (Inr (), if en_complete e then d else (put_entry k (e\<lparr>en_complete := True\<rparr>) d)\<lparr>di_completed := di_completed d @ [k]\<rparr>)
     | None \<Rightarrow> (Inl (err_not_found ''no failed channel delivery''), d))"

text \<open>
  An exception inside a handler: the body of \<^verbatim>\<open>handle_impl\<close> around the turn records it in the entry, the
  wrappers of \<^verbatim>\<open>handle\<close> and \<^verbatim>\<open>resume\<close> only report it.
\<close>

definition handler_threw :: "string \<Rightarrow> flight \<Rightarrow> bool \<Rightarrow> dispatcher \<Rightarrow> dispatcher" where
  "handler_threw c f is_cancelled d = (case f of
     Running k \<Rightarrow> fail_entry c k (err_internal ''channel dispatch failed'') d
   | Sending resumed k \<Rightarrow>
       if resumed then end_flight c (Inl (if is_cancelled then err_cancelled else err_internal ''channel recovery failed'')) d
       else fail_entry c k (err_internal ''channel dispatch failed'') d
   | Receiving m \<Rightarrow> end_flight c (Inl (if is_cancelled then err_cancelled else err_internal ''channel dispatch failed'')) d
   | Resuming k next \<Rightarrow> end_flight c (Inl (if is_cancelled then err_cancelled else err_internal ''channel recovery failed'')) d)"

section \<open>Steps\<close>

datatype dispatcher_event =
    Handle channel_message
  | Resume channel_message nat
  | Acknowledge channel_message
  | AuthorizedNow string bool
  | TurnDone string turn_answer
  | SendDone string send_answer
  | Threw string bool

definition flight_entry :: "string \<Rightarrow> string \<Rightarrow> (entry \<Rightarrow> dispatcher \<Rightarrow> dispatcher) \<Rightarrow> dispatcher \<Rightarrow> dispatcher" where
  "flight_entry c k f d = (case find_entry k d of Some e \<Rightarrow> f e d | None \<Rightarrow> d)"

fun dispatcher_step :: "dispatcher_env \<Rightarrow> dispatcher_event \<Rightarrow> dispatcher \<Rightarrow> dispatcher" where
  "dispatcher_step env (Handle m) d = handle_start env m d"
| "dispatcher_step env (Resume m next) d = resume_start m next d"
| "dispatcher_step env (Acknowledge m) d = snd (acknowledge_failure m d)"
| "dispatcher_step env (AuthorizedNow c x) d = (case map_of (di_flights d) c of
     Some (Receiving m) \<Rightarrow> handle_authorized env c m x d
   | Some (Resuming k next) \<Rightarrow> flight_entry c k (\<lambda>e. resume_authorized env c k e next x) d
   | _ \<Rightarrow> d)"
| "dispatcher_step env (TurnDone c a) d = (case map_of (di_flights d) c of
     Some (Running k) \<Rightarrow> flight_entry c k (\<lambda>e. turn_done env c k e a) d | _ \<Rightarrow> d)"
| "dispatcher_step env (SendDone c a) d = (case map_of (di_flights d) c of
     Some (Sending resumed k) \<Rightarrow> flight_entry c k (\<lambda>e. send_step env resumed c k e a) d | _ \<Rightarrow> d)"
| "dispatcher_step env (Threw c x) d = (case map_of (di_flights d) c of Some f \<Rightarrow> handler_threw c f x d | None \<Rightarrow> d)"

section \<open>What the log of one event may say\<close>

text \<open>
  The replay of the log for one event key: \<open>None\<close> before the turn has run and after the entry was evicted, \<open>Some n\<close> once it has
  run and all parts below \<open>n\<close> are confirmed. A second turn, or a send below the confirmed parts, is a failure of the replay.
\<close>

fun delivery_step :: "string \<Rightarrow> channel_effect \<Rightarrow> nat option \<Rightarrow> nat option option" where
  "delivery_step k (RunTurn k') s = (if k' \<noteq> k then Some s else case s of None \<Rightarrow> Some (Some 0) | Some _ \<Rightarrow> None)"
| "delivery_step k (SendPart k' i r) s = (if k' \<noteq> k then Some s else case s of Some n \<Rightarrow> if n \<le> i then Some s else None | None \<Rightarrow> None)"
| "delivery_step k (Confirmed k' i) s = (if k' \<noteq> k then Some s else case s of Some n \<Rightarrow> if n \<le> i then Some (Some (Suc i)) else None | None \<Rightarrow> None)"
| "delivery_step k (Evicted k') s = (if k' \<noteq> k then Some s else case s of Some _ \<Rightarrow> Some None | None \<Rightarrow> None)"
| "delivery_step k _ s = Some s"

fun delivery_run :: "string \<Rightarrow> channel_effect list \<Rightarrow> nat option \<Rightarrow> nat option option" where
  "delivery_run k [] s = Some s"
| "delivery_run k (x # xs) s = (case delivery_step k x s of None \<Rightarrow> None | Some s' \<Rightarrow> delivery_run k xs s')"

lemma delivery_run_append [simp]:
  "delivery_run k (xs @ ys) s = (case delivery_run k xs s of None \<Rightarrow> None | Some s' \<Rightarrow> delivery_run k ys s')"
  by (induction xs arbitrary: s) (auto split: option.split)

text \<open>Nothing reaches the transport, and no turn runs, without a decision of the permission rules that allows it.\<close>

fun effect_allowed :: "dispatcher_env \<Rightarrow> channel_effect \<Rightarrow> bool" where
  "effect_allowed env (RunTurn k) \<longleftrightarrow> (\<exists>m. event_key m = k \<and> channel_allowed env m ''ChannelReceive'' None)"
| "effect_allowed env (SendPart k i r) \<longleftrightarrow> (\<exists>m. event_key m = k \<and> channel_allowed env m ''ChannelSend'' (Some r))"
| "effect_allowed env (Typing r) \<longleftrightarrow> (\<exists>m. channel_allowed env m ''ChannelTyping'' (Some r))"
| "effect_allowed env _ \<longleftrightarrow> True"

fun quiet_effect :: "channel_effect \<Rightarrow> bool" where
  "quiet_effect (Hooked _ _) = True"
| "quiet_effect (Typing _) = True"
| "quiet_effect (Returned _ _) = True"
| "quiet_effect _ = False"

lemma delivery_run_quiet [simp]: "list_all quiet_effect xs \<Longrightarrow> delivery_run k xs s = Some s"
proof (induction xs)
  case (Cons x xs)
  then show ?case by (cases x) auto
qed simp

section \<open>The invariant\<close>

text \<open>The invariant may exempt the flight of one conversation, whose handler is running.\<close>

fun flight_ok :: "dispatcher \<Rightarrow> string \<Rightarrow> flight \<Rightarrow> bool" where
  "flight_ok d c (Receiving m) \<longleftrightarrow> c = conversation_key (cm_conversation m)"
| "flight_ok d c (Running k) \<longleftrightarrow> (\<exists>e. find_entry k d = Some e \<and> \<not> en_complete e \<and> c = conversation_key (cm_conversation (en_message e)))"
| "flight_ok d c (Sending r k) \<longleftrightarrow> (\<exists>e. find_entry k d = Some e \<and> \<not> en_complete e \<and> c = conversation_key (cm_conversation (en_message e)))"
| "flight_ok d c (Resuming k n) \<longleftrightarrow> (\<exists>e. find_entry k d = Some e \<and> \<not> en_complete e \<and> c = conversation_key (cm_conversation (en_message e)) \<and>
     en_next_part e \<le> n)"

definition entry_ok :: "dispatcher \<Rightarrow> string \<Rightarrow> bool" where
  "entry_ok d k \<longleftrightarrow> (case find_entry k d of
     None \<Rightarrow> delivery_run k (di_log d) None = Some None
   | Some e \<Rightarrow> k = event_key (en_message e) \<and> (\<exists>n \<le> en_next_part e. delivery_run k (di_log d) None = Some (Some n)))"

fun is_receiving :: "flight \<Rightarrow> bool" where
  "is_receiving (Receiving m) = True"
| "is_receiving _ = False"

definition receiving :: "(string \<times> flight) list \<Rightarrow> nat" where
  "receiving fs = length (filter (is_receiving \<circ> snd) fs)"

definition dispatcher_bounds :: "dispatcher_env \<Rightarrow> dispatcher \<Rightarrow> bool" where
  "dispatcher_bounds env d \<longleftrightarrow> distinct (map fst (di_entries d)) \<and> distinct (map fst (di_flights d)) \<and>
     length (di_entries d) \<le> do_capacity (dv_options env) \<and> receiving (di_flights d) \<le> do_capacity (dv_options env)"

definition completed_ok :: "dispatcher \<Rightarrow> bool" where
  "completed_ok d \<longleftrightarrow> distinct (di_completed d) \<and> (\<forall>k \<in> set (di_completed d). \<exists>e. find_entry k d = Some e \<and> en_complete e)"

definition flights_ok :: "string option \<Rightarrow> dispatcher \<Rightarrow> bool" where
  "flights_ok x d \<longleftrightarrow> (\<forall>c f. map_of (di_flights d) c = Some f \<longrightarrow> Some c \<noteq> x \<longrightarrow> flight_ok d c f)"

definition dispatcher_inv :: "dispatcher_env \<Rightarrow> string option \<Rightarrow> dispatcher \<Rightarrow> bool" where
  "dispatcher_inv env x d \<longleftrightarrow> dispatcher_bounds env d \<and> completed_ok d \<and> flights_ok x d \<and> (\<forall>k. entry_ok d k) \<and> list_all (effect_allowed env) (di_log d)"

lemmas dispatcher_inv_defs = dispatcher_inv_def dispatcher_bounds_def completed_ok_def flights_ok_def entry_ok_def

lemma event_key_inject: "event_key m = event_key m' \<longleftrightarrow> cm_conversation m = cm_conversation m' \<and> cm_event_id m = cm_event_id m'"
  by (simp add: event_key_def conversation_key_prefix_free)

lemma find_put_entry [simp]: "find_entry k' (put_entry k e d) = (if k' = k then Some e else find_entry k' d)"
  by (simp add: find_entry_def put_entry_def update_conv')

lemma find_entry_frame [simp]:
  "find_entry k (log_effects effs d) = find_entry k d" "find_entry k (set_flight c f d) = find_entry k d"
  "find_entry k (d\<lparr>di_completed := ks\<rparr>) = find_entry k d" "find_entry k (end_flight c r d) = find_entry k d"
  "find_entry k (d\<lparr>di_flights := fs\<rparr>) = find_entry k d"
  by (simp_all add: find_entry_def log_effects_def set_flight_def end_flight_def)

lemma flight_ok_frame: "(\<And>k. find_entry k d' = find_entry k d) \<Longrightarrow> flight_ok d' c f = flight_ok d c f"
  by (cases f) auto

lemma length_alist_update: "length (AList.update k v al) = (if k \<in> fst ` set al then length al else Suc (length al))"
  by (induction al) auto

lemma receiving_update: "receiving (AList.update k f al) \<le> receiving al + (if is_receiving f then 1 else 0)"
  by (induction al) (auto simp: receiving_def)

lemma receiving_delete: "receiving (AList.delete k al) \<le> receiving al"
  by (induction al) (auto simp: receiving_def)

lemma receiving_length: "receiving al \<le> length al"
  by (simp add: receiving_def)

lemma inv_exempt: "dispatcher_inv env None d \<Longrightarrow> dispatcher_inv env x d"
  by (simp add: dispatcher_inv_def flights_ok_def)

lemma inv_no_flight: "dispatcher_inv env (Some c) d \<Longrightarrow> c \<notin> fst ` set (di_flights d) \<Longrightarrow> dispatcher_inv env None d"
  by (simp add: dispatcher_inv_def flights_ok_def) (metis map_of_eq_None_iff option.distinct(1))

lemma log_quiet_inv:
  assumes "dispatcher_inv env x d" "list_all quiet_effect effs" "list_all (effect_allowed env) effs"
  shows "dispatcher_inv env x (log_effects effs d)"
proof -
  have same: "flight_ok (log_effects effs d) c f = flight_ok d c f" for c f by (rule flight_ok_frame) simp
  have "flights_ok x (log_effects effs d)" unfolding flights_ok_def same using assms by (simp add: dispatcher_inv_def flights_ok_def log_effects_def)
  moreover have run: "delivery_run k (di_log (log_effects effs d)) None = delivery_run k (di_log d) None" for k using assms(2)
    by (simp add: log_effects_def split: option.split)
  then have "entry_ok (log_effects effs d) k" for k using assms(1) unfolding dispatcher_inv_def entry_ok_def run find_entry_frame by blast
  ultimately show ?thesis using assms
    by (simp add: dispatcher_inv_def dispatcher_bounds_def completed_ok_def) (simp add: log_effects_def)
qed

lemma log_returned_inv: "dispatcher_inv env x d \<Longrightarrow> dispatcher_inv env x (log_effects [Returned c r] d)"
  by (rule log_quiet_inv) auto

lemma flights_inv:
  assumes "dispatcher_inv env x d" "di_entries d1 = di_entries d" "di_log d1 = di_log d" "di_completed d1 = di_completed d"
    "distinct (map fst (di_flights d1))" "receiving (di_flights d1) \<le> do_capacity (dv_options env)" "flights_ok y d1"
  shows "dispatcher_inv env y d1"
proof -
  have "entry_ok d1 k = entry_ok d k" "completed_ok d1 = completed_ok d" for k
    unfolding entry_ok_def completed_ok_def find_entry_def assms by simp_all
  then show ?thesis using assms by (simp add: dispatcher_inv_def dispatcher_bounds_def)
qed

lemma end_flight_inv:
  assumes "dispatcher_inv env (Some c) d"
  shows "dispatcher_inv env None (end_flight c r d)"
proof -
  define d1 where "d1 = d\<lparr>di_flights := AList.delete c (di_flights d)\<rparr>"
  have same: "flight_ok d1 c' f' = flight_ok d c' f'" for c' f' by (rule flight_ok_frame) (simp add: d1_def)
  have "flights_ok None d1" unfolding flights_ok_def same using assms
    by (auto simp: dispatcher_inv_def flights_ok_def d1_def delete_conv' split: if_splits)
  moreover have "receiving (di_flights d1) \<le> receiving (di_flights d)" by (simp add: d1_def receiving_delete)
  moreover have "distinct (map fst (di_flights d1))"
    using assms by (auto simp: dispatcher_inv_def dispatcher_bounds_def d1_def distinct_delete)
  ultimately have "dispatcher_inv env None d1" using assms
    by (intro flights_inv [OF assms]) (auto simp: d1_def dispatcher_inv_def dispatcher_bounds_def)
  then show ?thesis by (simp add: end_flight_def d1_def [symmetric] log_returned_inv)
qed

lemma set_flight_inv:
  assumes "dispatcher_inv env (Some c) d" "flight_ok d c f" "is_receiving f \<Longrightarrow> length (di_flights d) < do_capacity (dv_options env)"
  shows "dispatcher_inv env None (set_flight c f d)"
proof -
  define d1 where "d1 = set_flight c f d"
  have same: "flight_ok d1 c' f' = flight_ok d c' f'" for c' f' by (rule flight_ok_frame) (simp add: d1_def)
  have "flights_ok None d1" unfolding flights_ok_def same using assms
    by (auto simp: dispatcher_inv_def flights_ok_def d1_def set_flight_def update_conv' split: if_splits)
  moreover have "receiving (di_flights d1) \<le> do_capacity (dv_options env)"
    using assms receiving_update [of c f "di_flights d"] receiving_length [of "di_flights d"]
    by (auto simp: d1_def set_flight_def dispatcher_inv_def dispatcher_bounds_def split: if_splits)
  moreover have "distinct (map fst (di_flights d1))"
    using assms by (auto simp: dispatcher_inv_def dispatcher_bounds_def d1_def set_flight_def distinct_update)
  ultimately show ?thesis unfolding d1_def [symmetric]
    by (intro flights_inv [OF assms(1)]) (auto simp: d1_def set_flight_def)
qed

lemma entry_key: "dispatcher_inv env x d \<Longrightarrow> find_entry k d = Some e \<Longrightarrow> k = event_key (en_message e)"
  by (auto simp: dispatcher_inv_def entry_ok_def dest!: spec [of _ k])

text \<open>An update of the entry a conversation's handler works on leaves the flights of other conversations alone.\<close>

lemma other_flight:
  assumes "dispatcher_inv env (Some c) d" "map_of (di_flights d) c' = Some f" "c' \<noteq> c"
    "conversation_key (cm_conversation m) = c" "\<And>k'. k' \<noteq> event_key m \<Longrightarrow> find_entry k' d' = find_entry k' d"
  shows "flight_ok d' c' f"
proof -
  have ok: "flight_ok d c' f" using assms by (auto simp: dispatcher_inv_def flights_ok_def)
  have keep: "find_entry k d' = find_entry k d" if "find_entry k d = Some e" "conversation_key (cm_conversation (en_message e)) = c'" for k e
  proof (rule assms(5))
    show "k \<noteq> event_key m" using entry_key [OF assms(1) that(1)] that(2) assms(3,4) by (auto simp: event_key_inject)
  qed
  show ?thesis using ok by (cases f) (auto simp: keep)
qed

lemma update_inv:
  assumes inv: "dispatcher_inv env (Some c) d" and e: "find_entry k d = Some e" "\<not> en_complete e" "conversation_key (cm_conversation (en_message e)) = c"
    and e': "en_message e' = en_message e"
    and run: "\<And>n. n \<le> en_next_part e \<Longrightarrow> \<exists>n' \<le> en_next_part e'. delivery_run k effs (Some n) = Some (Some n')"
      "\<And>k' s. k' \<noteq> k \<Longrightarrow> delivery_run k' effs s = Some s"
    and allowed: "list_all (effect_allowed env) effs"
    and ks: "ks = di_completed d @ (if en_complete e' then [k] else [])"
  shows "dispatcher_inv env (Some c) ((put_entry k e' (log_effects effs d))\<lparr>di_completed := ks\<rparr>)"
proof -
  define d1 where "d1 = (put_entry k e' (log_effects effs d))\<lparr>di_completed := ks\<rparr>"
  have k: "k = event_key (en_message e)" using entry_key [OF inv e(1)] .
  have frame: "di_flights d1 = di_flights d" "di_log d1 = di_log d @ effs" "di_completed d1 = ks"
    "find_entry k' d1 = (if k' = k then Some e' else find_entry k' d)" for k'
    by (auto simp: d1_def put_entry_def log_effects_def update_conv' find_entry_def)
  have "flights_ok (Some c) d1" unfolding flights_ok_def using other_flight [OF inv, of _ _ "en_message e" d1] e(3) k
    by (auto simp: frame)
  moreover have "entry_ok d1 k'" for k'
  proof (cases "k' = k")
    case True
    have "entry_ok d k" using inv by (simp add: dispatcher_inv_def)
    then obtain n where "n \<le> en_next_part e" "delivery_run k (di_log d) None = Some (Some n)" by (auto simp: entry_ok_def e)
    then show ?thesis using run(1) [of n] k by (auto simp: entry_ok_def frame True e')
  next
    case False
    have "entry_ok d k'" using inv by (simp add: dispatcher_inv_def)
    then show ?thesis using False by (auto simp: entry_ok_def frame run(2) split: option.splits)
  qed
  moreover have "completed_ok d1" using inv e by (auto simp: dispatcher_inv_def completed_ok_def frame ks)
  moreover have "k \<in> fst ` set (di_entries d)" using e(1) by (force simp: find_entry_def dest: map_of_SomeD)
  then have "dispatcher_bounds env d1" using inv
    by (simp add: dispatcher_inv_def dispatcher_bounds_def frame) (simp add: d1_def put_entry_def log_effects_def distinct_update length_alist_update)
  ultimately show ?thesis using inv allowed by (simp add: dispatcher_inv_def d1_def [symmetric] frame)
qed

lemma log_effects_Nil [simp]: "log_effects [] d = d"
  by (simp add: log_effects_def)

lemma put_entry_inv:
  assumes "dispatcher_inv env (Some c) d" "find_entry k d = Some e" "\<not> en_complete e" "conversation_key (cm_conversation (en_message e)) = c"
    "en_message e' = en_message e" "en_next_part e \<le> en_next_part e'" "\<not> en_complete e'"
  shows "dispatcher_inv env (Some c) (put_entry k e' d)"
proof -
  have "\<exists>n' \<le> en_next_part e'. delivery_run k [] (Some n) = Some (Some n')" if "n \<le> en_next_part e" for n
    using that assms(6) by (intro exI [of _ n]) auto
  note * = update_inv [OF assms(1-5) this, of "di_completed d"]
  have "(put_entry k e' d)\<lparr>di_completed := di_completed d\<rparr> = put_entry k e' d" by (simp add: put_entry_def)
  then show ?thesis using * assms(7) by simp
qed

lemma complete_inv:
  assumes "dispatcher_inv env (Some c) d" "find_entry k d = Some e" "\<not> en_complete e" "conversation_key (cm_conversation (en_message e)) = c"
    "en_message e' = en_message e" "en_next_part e' = en_next_part e" "en_complete e'"
  shows "dispatcher_inv env (Some c) ((put_entry k e' d)\<lparr>di_completed := di_completed d @ [k]\<rparr>)"
proof -
  have "\<exists>n' \<le> en_next_part e'. delivery_run k [] (Some n) = Some (Some n')" if "n \<le> en_next_part e" for n
    using that assms(6) by (intro exI [of _ n]) auto
  from update_inv [OF assms(1-5) this, of "di_completed d @ [k]"] show ?thesis using assms(7) by simp
qed

lemma evict_inv:
  assumes inv: "dispatcher_inv env x d" and old: "di_completed d = old # rest"
  shows "dispatcher_inv env x (log_effects [Evicted old] (d\<lparr>di_entries := AList.delete old (di_entries d), di_completed := rest\<rparr>))"
    (is "dispatcher_inv env x ?d1")
proof -
  define d1 where "d1 = ?d1"
  obtain e where e: "find_entry old d = Some e" "en_complete e" using inv old by (auto simp: dispatcher_inv_def completed_ok_def)
  have frame: "di_flights d1 = di_flights d" "di_log d1 = di_log d @ [Evicted old]" "di_completed d1 = rest"
    "find_entry k d1 = (if k = old then None else find_entry k d)" for k
    by (auto simp: d1_def log_effects_def delete_conv' find_entry_def)
  have "flight_ok d1 c f" if "flight_ok d c f" for c f using that e by (cases f) (auto simp: frame)
  then have "flights_ok x d1" using inv by (auto simp: dispatcher_inv_def flights_ok_def frame)
  moreover have "entry_ok d1 k" for k
  proof -
    have "entry_ok d k" using inv by (simp add: dispatcher_inv_def)
    then show ?thesis using e by (cases "k = old") (auto simp: entry_ok_def frame split: option.splits)
  qed
  moreover have "completed_ok d1" using inv old by (auto simp: dispatcher_inv_def completed_ok_def frame)
  moreover have "dispatcher_bounds env d1" using inv AList.length_delete_le [of old "di_entries d"]
    by (simp add: dispatcher_inv_def dispatcher_bounds_def frame) (simp add: d1_def log_effects_def distinct_delete)
  ultimately show ?thesis using inv by (simp add: dispatcher_inv_def d1_def [symmetric] frame)
qed

lemma admitted_inv:
  assumes inv: "dispatcher_inv env (Some c) d" and k: "find_entry (event_key m) d = None" "conversation_key (cm_conversation m) = c"
    and room: "length (di_entries d) < do_capacity (dv_options env)" and allowed: "channel_allowed env m ''ChannelReceive'' None"
  shows "dispatcher_inv env (Some c) (log_effects [RunTurn (event_key m)] (put_entry (event_key m) (new_channel_entry m) d))"
    (is "dispatcher_inv env (Some c) ?d1")
proof -
  define d1 where "d1 = ?d1"
  have frame: "di_flights d1 = di_flights d" "di_log d1 = di_log d @ [RunTurn (event_key m)]" "di_completed d1 = di_completed d"
    "find_entry k' d1 = (if k' = event_key m then Some (new_channel_entry m) else find_entry k' d)" for k'
    by (auto simp: d1_def put_entry_def log_effects_def update_conv' find_entry_def)
  have "flights_ok (Some c) d1" unfolding flights_ok_def using other_flight [OF inv, of _ _ m d1] k by (auto simp: frame)
  moreover have "entry_ok d1 k'" for k'
  proof -
    have "entry_ok d k'" using inv by (simp add: dispatcher_inv_def)
    then show ?thesis using k by (cases "k' = event_key m") (auto simp: entry_ok_def frame new_channel_entry_def split: option.splits)
  qed
  moreover have "completed_ok d1" using inv k by (force simp: dispatcher_inv_def completed_ok_def frame)
  moreover have "event_key m \<notin> fst ` set (di_entries d)" using k(1) by (force simp: find_entry_def map_of_eq_None_iff)
  then have "dispatcher_bounds env d1" using inv room
    by (simp add: dispatcher_inv_def dispatcher_bounds_def frame) (simp add: d1_def put_entry_def log_effects_def distinct_update length_alist_update)
  ultimately show ?thesis using inv allowed by (auto simp: dispatcher_inv_def d1_def [symmetric] frame)
qed

section \<open>Every handler keeps it\<close>

text \<open>The handler of conversation \<open>c\<close> owns the unfinished entry \<open>e\<close> of key \<open>k\<close> and its place among the flights.\<close>

definition owns :: "dispatcher_env \<Rightarrow> string \<Rightarrow> string \<Rightarrow> entry \<Rightarrow> dispatcher \<Rightarrow> bool" where
  "owns env c k e d \<longleftrightarrow> dispatcher_inv env (Some c) d \<and> find_entry k d = Some e \<and> \<not> en_complete e \<and>
     conversation_key (cm_conversation (en_message e)) = c \<and> c \<in> fst ` set (di_flights d)"

lemma owns_put:
  assumes "owns env c k e d" "en_message e' = en_message e" "en_next_part e \<le> en_next_part e'" "\<not> en_complete e'"
  shows "owns env c k e' (put_entry k e' d)"
  using assms put_entry_inv [of env c d k e e'] by (auto simp: owns_def put_entry_def find_entry_def update_conv')

lemma owns_log_quiet:
  "owns env c k e d \<Longrightarrow> list_all quiet_effect effs \<Longrightarrow> list_all (effect_allowed env) effs \<Longrightarrow> owns env c k e (log_effects effs d)"
  using log_quiet_inv [of env "Some c" d effs] by (auto simp: owns_def log_effects_def find_entry_def)

lemma owns_end: "owns env c k e d \<Longrightarrow> dispatcher_inv env None (end_flight c r d)"
  by (simp add: owns_def end_flight_inv)

lemma fail_entry_inv: "owns env c k e d \<Longrightarrow> dispatcher_inv env None (fail_entry c k err d)"
  using owns_end [OF owns_put [of env c k e d "e\<lparr>en_error := Some err\<rparr>"]] by (simp add: fail_entry_def owns_def)

lemma finish_delivery_inv: "owns env c k e d \<Longrightarrow> dispatcher_inv env None (finish_delivery c k e d)"
  unfolding finish_delivery_def by (rule end_flight_inv, rule complete_inv) (auto simp: owns_def)

lemma deliver_inv: "owns env c k e d \<Longrightarrow> dispatcher_inv env None (deliver env resumed c k e d)"
proof -
  assume own: "owns env c k e d"
  then have "dispatcher_inv env None (set_flight c (Sending resumed k) d)" by (intro set_flight_inv) (auto simp: owns_def)
  then show ?thesis using own by (simp add: deliver_def fail_entry_inv finish_delivery_inv split: sum.split)
qed

lemma authorize_effects:
  "dispatcher_authorize env x m op req = (r, effs) \<Longrightarrow> list_all quiet_effect effs \<and> list_all (effect_allowed env) effs \<and>
     (r = Inr () \<longrightarrow> channel_allowed env m op req)"
  by (auto simp: dispatcher_authorize_def Let_def split: if_splits)

lemma send_effects:
  assumes "send env m req op eff a = (r, effs)"
  shows "(\<exists>pre. list_all quiet_effect pre \<and> list_all (effect_allowed env) pre \<and> (effs = pre \<and> (\<exists>e. r = Inl e) \<or> effs = pre @ [eff] \<and> channel_allowed env m op (Some req)))"
proof (cases "dispatcher_authorize env (sa_cancelled a) m op (Some req)")
  case (Pair r0 pre)
  then show ?thesis using assms authorize_effects [OF Pair] by (intro exI [of _ pre]) (cases r0; auto simp: send_def)
qed

lemma typing_effects:
  assumes "send env m req ''ChannelTyping'' (Typing req) a = (r, effs)"
  shows "list_all quiet_effect effs \<and> list_all (effect_allowed env) effs"
  using send_effects [OF assms] by auto

lemma activity_loop_effects:
  "list_all quiet_effect (av_effects s) \<Longrightarrow> list_all (effect_allowed env) (av_effects s) \<Longrightarrow>
   list_all quiet_effect (av_effects (activity_loop env m ticks n s)) \<and> list_all (effect_allowed env) (av_effects (activity_loop env m ticks n s))"
proof (induction env m ticks n s rule: activity_loop.induct)
  case (2 env m tick ticks n s)
  show ?case
  proof (cases "ad_activity (dv_adapter env) m None")
    case (Inr req)
    then show ?thesis
    proof (cases req)
      case (Some request)
      obtain r effs where snd: "send env m request ''ChannelTyping'' (Typing request) (tk_answer tick) = (r, effs)" by force
      then show ?thesis using 2 Inr Some typing_effects [OF snd] by (cases r) (auto simp: Let_def)
    qed (use 2 in auto)
  qed (use 2 in auto)
qed simp

lemma activity_effects:
  "list_all quiet_effect (av_effects (activity env m ticks final)) \<and> list_all (effect_allowed env) (av_effects (activity env m ticks final))"
  using activity_loop_effects [of "\<lparr>av_receipt = None, av_failures = 0, av_effects = []\<rparr>" env m ticks 0]
  by (auto simp: activity_def Let_def dest!: typing_effects split: option.split sum.split prod.split)

lemma update_same: "map_of al k = Some v \<Longrightarrow> AList.update k v al = al"
  by (induction al) (auto split: if_splits)

lemma owns_update:
  assumes own: "owns env c k e d" and e': "en_message e' = en_message e" "\<not> en_complete e'"
    and run: "\<And>n. n \<le> en_next_part e \<Longrightarrow> \<exists>n' \<le> en_next_part e'. delivery_run k effs (Some n) = Some (Some n')"
      "\<And>k' s. k' \<noteq> k \<Longrightarrow> delivery_run k' effs s = Some s"
    and allowed: "list_all (effect_allowed env) effs"
  shows "owns env c k e' (put_entry k e' (log_effects effs d))"
proof -
  define d1 where "d1 = put_entry k e' (log_effects effs d)"
  have "dispatcher_inv env (Some c) (d1\<lparr>di_completed := di_completed d\<rparr>)" unfolding d1_def using own e' allowed
    by (intro update_inv [OF _ _ _ _ _ run]) (auto simp: owns_def)
  moreover have "d1\<lparr>di_completed := di_completed d\<rparr> = d1" by (simp add: d1_def put_entry_def log_effects_def)
  moreover have "di_flights d1 = di_flights d" "find_entry k d1 = Some e'" by (simp_all add: d1_def) (simp add: put_entry_def log_effects_def)
  ultimately show ?thesis using own e' by (simp add: owns_def d1_def [symmetric])
qed

lemma send_run:
  assumes "list_all quiet_effect pre" "effs = pre \<or> effs = pre @ [SendPart k i r]"
  shows "n \<le> i \<Longrightarrow> delivery_run k effs (Some n) = Some (Some n)" "k' \<noteq> k \<Longrightarrow> delivery_run k' effs s = Some s"
  using assms by auto

lemma send_step_inv:
  assumes own: "owns env c k e d" and flight: "map_of (di_flights d) c = Some (Sending resumed k)"
  shows "dispatcher_inv env None (send_step env resumed c k e a d)"
proof (cases "render_reply env (en_message e) (en_parts e ! en_next_part e) (en_next_part e)")
  case (Inl err)
  then show ?thesis using own by (simp add: send_step_def fail_entry_inv)
next
  case (Inr request)
  define i where "i = en_next_part e"
  obtain r effs where snd: "send env (en_message e) request ''ChannelSend'' (SendPart k i request) a = (r, effs)"
    by (cases "send env (en_message e) request ''ChannelSend'' (SendPart k i request) a")
  from send_effects [OF snd] obtain pre where pre: "list_all quiet_effect pre" "list_all (effect_allowed env) pre"
      "effs = pre \<and> (\<exists>e. r = Inl e) \<or> effs = pre @ [SendPart k i request] \<and> channel_allowed env (en_message e) ''ChannelSend'' (Some request)"
    by (elim exE conjE)
  have k: "k = event_key (en_message e)" using own entry_key by (auto simp: owns_def)
  have allowed: "list_all (effect_allowed env) effs" using pre k by auto
  have effs: "effs = pre \<or> effs = pre @ [SendPart k i request]" using pre by auto
  note run = send_run [OF pre(1) effs]
  show ?thesis
  proof (cases r)
    case (Inl err)
    have "put_entry k e (log_effects effs d) = log_effects effs d" using own
      by (simp add: put_entry_def log_effects_def update_same owns_def find_entry_def)
    moreover have "owns env c k e (put_entry k e (log_effects effs d))"
    proof (rule owns_update [OF own _ _ _ run(2) allowed])
      show "\<exists>n' \<le> en_next_part e. delivery_run k effs (Some n) = Some (Some n')" if "n \<le> en_next_part e" for n
        using that run(1) [of n] by (simp add: i_def)
    qed (use own in \<open>auto simp: owns_def\<close>)
    ultimately have "owns env c k e (log_effects effs d)" by simp
    then show ?thesis using Inl snd Inr by (simp add: send_step_def Let_def i_def [symmetric] fail_entry_inv)
  next
    case (Inr x)
    define e1 where "e1 = e\<lparr>en_next_part := Suc i, en_delivery := (en_delivery e)\<lparr>dl_parts_sent := Suc (dl_parts_sent (en_delivery e))\<rparr>\<rparr>"
    define d1 where "d1 = put_entry k e1 (log_effects (effs @ [Confirmed k i]) d)"
    have e1: "en_message e1 = en_message e" "en_complete e1 = en_complete e" "en_next_part e1 = Suc i" "en_parts e1 = en_parts e"
      by (simp_all add: e1_def)
    have owns1: "owns env c k e1 d1" unfolding d1_def
    proof (rule owns_update [OF own e1(1)])
      show "\<not> en_complete e1" using own by (simp add: e1 owns_def)
      show "\<exists>n' \<le> en_next_part e1. delivery_run k (effs @ [Confirmed k i]) (Some n) = Some (Some n')" if "n \<le> en_next_part e" for n
        using that by (simp add: run(1) i_def [symmetric] e1)
      show "delivery_run k' (effs @ [Confirmed k i]) s = Some s" if "k' \<noteq> k" for k' s using that by (simp add: run(2))
      show "list_all (effect_allowed env) (effs @ [Confirmed k i])" using allowed by simp
    qed
    have "di_flights d1 = di_flights d" by (simp add: d1_def put_entry_def log_effects_def)
    then have "set_flight c (Sending resumed k) d1 = d1" using flight by (simp add: set_flight_def update_same)
    moreover have "flight_ok d1 c (Sending resumed k)" "dispatcher_inv env (Some c) d1" "c \<in> fst ` set (di_flights d1)"
      using owns1 by (auto simp: owns_def)
    ultimately have "dispatcher_inv env None d1" using set_flight_inv [of env c d1 "Sending resumed k"] by simp
    then show ?thesis using finish_delivery_inv [OF owns1] snd Inr \<open>_ = Inr request\<close>
      by (simp add: send_step_def Let_def i_def [symmetric] e1_def [symmetric] d1_def [symmetric])
  qed
qed

lemma turn_done_inv:
  assumes own: "owns env c k e d" and flight: "map_of (di_flights d) c = Some (Running k)"
  shows "dispatcher_inv env None (turn_done env c k e a d)"
proof -
  define s where "s = (if cp_activity (ad_capabilities (dv_adapter env) (cv_kind (cm_conversation (en_message e)))) = NoActivity
    then \<lparr>av_receipt = None, av_failures = 0, av_effects = []\<rparr> else activity env (en_message e) (ta_ticks a) (ta_last a))"
  define e1 where "e1 = e\<lparr>en_delivery := (en_delivery e)\<lparr>dl_activity_failures := av_failures s + (case ta_joined a of Inr n \<Rightarrow> n | Inl _ \<Rightarrow> 0)\<rparr>\<rparr>"
  define d1 where "d1 = put_entry k e1 (log_effects (av_effects s) d)"
  have "owns env c k e (log_effects (av_effects s) d)" using activity_effects [of env] own
    by (intro owns_log_quiet) (auto simp: s_def)
  then have own1: "owns env c k e1 d1" unfolding d1_def by (rule owns_put) (use own in \<open>auto simp: e1_def owns_def\<close>)
  have stay: "dispatcher_inv env None d" using set_flight_inv [of env c d "Running k"] own flight
    by (simp add: owns_def set_flight_def update_same)
  have own2: "owns env c k (e1\<lparr>en_parts := parts, en_generated := True\<rparr>) (put_entry k (e1\<lparr>en_parts := parts, en_generated := True\<rparr>) d1)" for parts
    by (rule owns_put [OF own1]) (use own1 in \<open>auto simp: owns_def\<close>)
  show ?thesis
    unfolding turn_done_def Let_def s_def [symmetric] e1_def [symmetric] d1_def [symmetric]
    by (auto split: sum.split option.split intro: fail_entry_inv [OF own1] fail_entry_inv [OF own2] deliver_inv [OF own2] stay)
qed

lemma admit_inv:
  assumes inv: "dispatcher_inv env (Some c) d" and c: "c = conversation_key (cm_conversation m)" "c \<in> fst ` set (di_flights d)"
    and allowed: "channel_allowed env m ''ChannelReceive'' None"
  shows "dispatcher_inv env None (admit env c m d)"
proof -
  define k where "k = event_key m"
  have run: "dispatcher_inv env None (set_flight c (Running k) (log_effects [RunTurn k] (put_entry k (new_channel_entry m) d')))"
    if "dispatcher_inv env (Some c) d'" "find_entry k d' = None" "length (di_entries d') < do_capacity (dv_options env)" "di_flights d' = di_flights d" for d'
  proof (rule set_flight_inv)
    show "dispatcher_inv env (Some c) (log_effects [RunTurn k] (put_entry k (new_channel_entry m) d'))"
      using admitted_inv [OF that(1), of m] that c allowed by (simp add: k_def)
    show "flight_ok (log_effects [RunTurn k] (put_entry k (new_channel_entry m) d')) c (Running k)"
      using c by (simp add: new_channel_entry_def)
  qed (use c that in \<open>simp add: log_effects_def put_entry_def\<close>)
  have room: "length (di_entries d) \<le> do_capacity (dv_options env)" using inv by (simp add: dispatcher_inv_def dispatcher_bounds_def)
  have evicted: "dispatcher_inv env None (set_flight c (Running k) (log_effects [RunTurn k] (put_entry k (new_channel_entry m)
      (log_effects [Evicted old] (d\<lparr>di_entries := AList.delete old (di_entries d), di_completed := rest\<rparr>)))))"
    if old: "di_completed d = old # rest" and none: "find_entry k d = None" for old rest
  proof (rule run [OF evict_inv [OF inv old]])
    obtain e where "find_entry old d = Some e" using inv old by (auto simp: dispatcher_inv_def completed_ok_def)
    then have "old \<in> fst ` set (di_entries d)" by (force simp: find_entry_def dest: map_of_SomeD)
    then have "length (AList.delete old (di_entries d)) < length (di_entries d)"
      unfolding AList.delete_eq by (auto intro!: length_filter_less)
    then show "length (di_entries (log_effects [Evicted old] (d\<lparr>di_entries := AList.delete old (di_entries d), di_completed := rest\<rparr>))) < do_capacity (dv_options env)"
      using room by (simp add: log_effects_def)
  qed (use none in \<open>auto simp: log_effects_def find_entry_def delete_conv'\<close>)
  show ?thesis unfolding admit_def Let_def k_def [symmetric]
    using inv run [OF inv] evicted room
    by (auto simp: end_flight_inv split: option.split list.split)
qed

lemma handle_authorized_inv:
  assumes "dispatcher_inv env (Some c) d" "c = conversation_key (cm_conversation m)" "c \<in> fst ` set (di_flights d)"
  shows "dispatcher_inv env None (handle_authorized env c m x d)"
proof (cases "dispatcher_authorize env x m ''ChannelReceive'' None")
  case (Pair r effs)
  note eff = authorize_effects [OF Pair]
  have inv: "dispatcher_inv env (Some c) (log_effects effs d)" using assms eff by (intro log_quiet_inv) auto
  moreover have "di_flights (log_effects effs d) = di_flights d" by (simp add: log_effects_def)
  ultimately show ?thesis using Pair eff assms end_flight_inv [OF inv] admit_inv [OF inv assms(2)]
    by (auto simp: handle_authorized_def split: sum.split)
qed

lemma resume_authorized_inv:
  assumes own: "owns env c k e d" and le: "en_next_part e \<le> n"
  shows "dispatcher_inv env None (resume_authorized env c k e n x d)"
proof (cases "dispatcher_authorize env x (en_message e) ''ChannelReceive'' None")
  case (Pair r effs)
  have own1: "owns env c k e (log_effects effs d)" using authorize_effects [OF Pair] own by (intro owns_log_quiet) auto
  define e1 where "e1 = e\<lparr>en_next_part := n, en_delivery := (en_delivery e)\<lparr>dl_parts_sent := n\<rparr>\<rparr>"
  have "owns env c k e1 (put_entry k e1 (log_effects effs d))" by (rule owns_put [OF own1]) (use own le in \<open>auto simp: e1_def owns_def\<close>)
  then show ?thesis using Pair owns_end [OF own1]
    by (auto simp: resume_authorized_def Let_def e1_def [symmetric] deliver_inv split: sum.split)
qed

lemma flight_owns:
  assumes "dispatcher_inv env None d" "map_of (di_flights d) c = Some f" "f = Running k \<or> f = Sending r k \<or> f = Resuming k n"
  obtains e where "find_entry k d = Some e" "owns env c k e d" "f = Resuming k n \<Longrightarrow> en_next_part e \<le> n"
proof -
  have "flight_ok d c f" "c \<in> fst ` set (di_flights d)" using assms by (auto simp: dispatcher_inv_def flights_ok_def dest: map_of_SomeD intro: rev_image_eqI)
  moreover have "dispatcher_inv env (Some c) d" using assms(1) by (rule inv_exempt)
  ultimately show ?thesis using that assms(3) by (auto simp: owns_def)
qed

lemma handler_threw_inv:
  assumes "dispatcher_inv env None d" "map_of (di_flights d) c = Some f"
  shows "dispatcher_inv env None (handler_threw c f x d)"
proof -
  note ended = end_flight_inv [OF inv_exempt [OF assms(1)]]
  have "dispatcher_inv env None (fail_entry c k err d)" if "f = Running k \<or> f = Sending r k" for k r err
    using flight_owns [OF assms, of k r] that fail_entry_inv by metis
  then show ?thesis by (cases f) (auto simp: handler_threw_def ended)
qed

lemma handle_start_inv:
  assumes "dispatcher_inv env None d"
  shows "dispatcher_inv env None (handle_start env m d)"
proof -
  define c where "c = conversation_key (cm_conversation m)"
  have "dispatcher_inv env None (set_flight c (Receiving m) d)" if "length (di_flights d) < do_capacity (dv_options env)"
    using that by (intro set_flight_inv [OF inv_exempt [OF assms]]) (simp_all add: c_def)
  then show ?thesis using assms by (auto simp: handle_start_def Let_def c_def [symmetric] log_returned_inv split: sum.split)
qed

lemma resume_start_inv:
  assumes inv: "dispatcher_inv env None d"
  shows "dispatcher_inv env None (resume_start m n d)"
proof -
  define c where "c = conversation_key (cm_conversation m)"
  have "dispatcher_inv env None (set_flight c (Resuming (event_key m) n) d)"
    if "recoverable (event_key m) d = Some e" "en_next_part e \<le> n" for e
    using that entry_key [OF inv, of "event_key m"]
    by (intro set_flight_inv [OF inv_exempt [OF inv]]) (auto simp: c_def recoverable_def event_key_inject split: option.splits if_splits)
  then show ?thesis using inv by (auto simp: resume_start_def Let_def c_def [symmetric] log_returned_inv split: option.split)
qed

lemma acknowledge_inv:
  assumes inv: "dispatcher_inv env None d"
  shows "dispatcher_inv env None (snd (acknowledge_failure m d))"
proof -
  define c where "c = conversation_key (cm_conversation m)"
  define k where "k = event_key m"
  have "dispatcher_inv env None ((put_entry k (e\<lparr>en_complete := True\<rparr>) d)\<lparr>di_completed := di_completed d @ [k]\<rparr>)" (is "dispatcher_inv env None ?d1")
    if "find_entry k d = Some e" "\<not> en_complete e" "c \<notin> fst ` set (di_flights d)" for e
  proof -
    have "dispatcher_inv env (Some c) ?d1" using that entry_key [OF inv that(1)]
      by (intro complete_inv [OF inv_exempt [OF inv]]) (auto simp: c_def k_def event_key_inject)
    moreover have "di_flights ?d1 = di_flights d" by (simp add: put_entry_def)
    ultimately show ?thesis using that(3) by (intro inv_no_flight) auto
  qed
  then show ?thesis using inv by (auto simp: acknowledge_failure_def Let_def c_def [symmetric] k_def [symmetric] split: option.split)
qed

lemma dispatcher_step_inv:
  assumes inv: "dispatcher_inv env None d"
  shows "dispatcher_inv env None (dispatcher_step env ev d)"
proof (cases ev)
  case (AuthorizedNow c x)
  show ?thesis
  proof (cases "map_of (di_flights d) c")
    case (Some f)
    have "c \<in> fst ` set (di_flights d)" "flight_ok d c f" using Some inv
      by (auto simp: dispatcher_inv_def flights_ok_def dest: map_of_SomeD intro: rev_image_eqI)
    then show ?thesis using AuthorizedNow Some inv handle_authorized_inv [OF inv_exempt [OF inv], of c]
        flight_owns [OF inv Some] resume_authorized_inv
      by (cases f) (simp_all add: flight_entry_def, metis option.simps(5))
  qed (use AuthorizedNow inv in simp)
next
  case (TurnDone c a)
  show ?thesis
  proof (cases "\<exists>k. map_of (di_flights d) c = Some (Running k)")
    case True
    then obtain k where "map_of (di_flights d) c = Some (Running k)" by blast
    moreover from this obtain e where "find_entry k d = Some e" "owns env c k e d" using flight_owns [OF inv, of c "Running k" k] by blast
    ultimately show ?thesis using TurnDone turn_done_inv by (simp add: flight_entry_def)
  qed (use TurnDone inv in \<open>auto split: option.split flight.split\<close>)
next
  case (SendDone c a)
  show ?thesis
  proof (cases "\<exists>r k. map_of (di_flights d) c = Some (Sending r k)")
    case True
    then obtain r k where "map_of (di_flights d) c = Some (Sending r k)" by blast
    moreover from this obtain e where "find_entry k d = Some e" "owns env c k e d" using flight_owns [OF inv, of c "Sending r k" k r] by blast
    ultimately show ?thesis using SendDone send_step_inv by (simp add: flight_entry_def)
  qed (use SendDone inv in \<open>auto split: option.split flight.split\<close>)
qed (use inv in \<open>auto simp: handle_start_inv resume_start_inv acknowledge_inv handler_threw_inv split: option.split\<close>)

interpretation disp: invariant_machine "dispatcher_step env" "\<lambda>_. True" "dispatcher_inv env None" for env
  by unfold_locales (rule dispatcher_step_inv)

lemma dispatcher_create_inv: "dispatcher_create env transport run = Inr d \<Longrightarrow> dispatcher_inv env None d"
  by (auto simp: dispatcher_create_def Let_def dispatcher_inv_defs receiving_def find_entry_def split: if_splits)

section \<open>At most one turn, nothing confirmed sent again\<close>

fun flight_key :: "flight \<Rightarrow> string" where
  "flight_key (Receiving m) = event_key m"
| "flight_key (Running k) = k"
| "flight_key (Sending r k) = k"
| "flight_key (Resuming k n) = k"

lemma flights_bound:
  assumes inv: "dispatcher_inv env None d"
  shows "length (di_flights d) \<le> 2 * do_capacity (dv_options env)"
proof -
  define fs where "fs = filter (Not \<circ> is_receiving \<circ> snd) (di_flights d)"
  have flight: "\<exists>e. find_entry (flight_key f) d = Some e \<and> conversation_key (cm_conversation (en_message e)) = c" if "(c, f) \<in> set fs" for c f
  proof -
    have "map_of (di_flights d) c = Some f" "\<not> is_receiving f" using that inv by (auto simp: fs_def dispatcher_inv_def dispatcher_bounds_def)
    then have "flight_ok d c f" using inv by (simp add: dispatcher_inv_def flights_ok_def)
    then show ?thesis using \<open>\<not> is_receiving f\<close> by (cases f) auto
  qed
  have dist: "distinct fs" "distinct (map fst (di_flights d))" using inv by (auto simp: fs_def dispatcher_inv_def dispatcher_bounds_def distinct_map)
  have "inj_on (flight_key \<circ> snd) (set fs)"
  proof (rule inj_onI)
    fix x y assume "x \<in> set fs" "y \<in> set fs" "(flight_key \<circ> snd) x = (flight_key \<circ> snd) y"
    then have "fst x = fst y" "x \<in> set (di_flights d)" "y \<in> set (di_flights d)" using flight [of "fst x" "snd x"] flight [of "fst y" "snd y"]
      by (auto simp: fs_def)
    then show "x = y" using dist(2) by (auto simp: distinct_map inj_on_def)
  qed
  then have "length fs = card ((flight_key \<circ> snd) ` set fs)" using dist(1) distinct_card [of fs] by (simp only: card_image)
  also have "\<dots> \<le> card (fst ` set (di_entries d))"
  proof (intro card_mono subsetI)
    fix k assume "k \<in> (flight_key \<circ> snd) ` set fs"
    then obtain e where "find_entry k d = Some e" using flight by fastforce
    then show "k \<in> fst ` set (di_entries d)" by (force simp: find_entry_def dest: map_of_SomeD)
  qed simp
  also have "\<dots> \<le> length (di_entries d)" using card_length [of "map fst (di_entries d)"] by simp
  finally have "length fs \<le> do_capacity (dv_options env)" using inv by (simp add: dispatcher_inv_def dispatcher_bounds_def)
  moreover have "length (di_flights d) = receiving (di_flights d) + length fs"
    using sum_length_filter_compl [of "is_receiving \<circ> snd" "di_flights d"] by (simp add: receiving_def fs_def comp_def)
  ultimately show ?thesis using inv by (simp add: dispatcher_inv_def dispatcher_bounds_def)
qed

text \<open>
  C19: Whatever interleaving of messages, recoveries, acknowledgements, cancellations, exceptions and answers the
  dispatcher sees, the log of every event replays: its turn runs at most once while its entry is kept, a part below the
  confirmed ones is never sent again, and only an entry that was completed is evicted. Each conversation has at most one handler; the
  entries stay within the capacity and the handlers within twice of it (recovery takes a lease without
  an admission check, but only for an entry that is kept); every turn run and every request sent was allowed by an
  explicit decision of the permission rules; and each completed entry is listed once.
\<close>

theorem dispatcher_at_most_once:
  assumes "dispatcher_create env transport run = Inr d0" and "d = fold (dispatcher_step env) events d0"
  shows "delivery_run k (di_log d) None \<noteq> None \<and> list_all (effect_allowed env) (di_log d) \<and>
    distinct (map fst (di_flights d)) \<and> length (di_flights d) \<le> 2 * do_capacity (dv_options env) \<and>
    length (di_entries d) \<le> do_capacity (dv_options env) \<and> distinct (di_completed d) \<and>
    list_all (\<lambda>k. \<exists>e. find_entry k d = Some e \<and> en_complete e) (di_completed d)"
proof -
  have inv: "dispatcher_inv env None d" unfolding assms(2)
    by (rule disp.run_inv [OF dispatcher_create_inv [OF assms(1)]]) (simp add: list_all_iff)
  then have "entry_ok d k" by (simp add: dispatcher_inv_def)
  then have "delivery_run k (di_log d) None \<noteq> None" by (auto simp: entry_ok_def split: option.splits)
  then show ?thesis using inv flights_bound [OF inv] by (simp add: dispatcher_inv_def dispatcher_bounds_def completed_ok_def list_all_iff)
qed

definition demo_channel :: dispatcher_env where
  "demo_channel = \<lparr>dv_adapter = qq demo_json demo_floats,
     dv_options = \<lparr>do_rules = [], do_mode = Strict, do_hooks = True, do_capacity = 1, do_max_reply_bytes = 65536,
       do_typing_interval = 4000, do_typing_ttl = 60000, do_render_reply = None, do_split_reply = None\<rparr>,
     dv_re = (\<lambda>_ _. False), dv_lib = demo_json\<rparr>"

theorem dispatcher_at_most_once_witness:
  "\<exists>d0. dispatcher_create demo_channel True True = Inr d0 \<and>
     length (di_flights (fold (dispatcher_step demo_channel) [Handle demo_chat, Handle demo_chat] d0)) \<le> 2"
proof -
  define d0 where "d0 = \<lparr>di_entries = [], di_completed = [], di_flights = [], di_log = []\<rparr>"
  have cap: "do_capacity (dv_options demo_channel) = 1" by (simp add: demo_channel_def)
  have start: "dispatcher_create demo_channel True True = Inr d0" by (simp add: dispatcher_create_def demo_channel_def d0_def)
  have "length (di_flights (fold (dispatcher_step demo_channel) [Handle demo_chat, Handle demo_chat] d0)) \<le> 2 * 1"
    using dispatcher_at_most_once [OF start refl] unfolding cap by blast
  then show ?thesis using start by auto
qed

end
