(* ===== verification/Io_Authority.thy ===== *)
theory Io_Authority
  imports Core_Effect "HOL-Library.Word" "HOL-Library.Sublist"
begin

text \<open>
  \<^verbatim>\<open>oran-io/directory_authority.cpp\<close>: files are opened and replaced through a directory descriptor.
  The kernel is an argument that answers each system call from the history of all calls, so other
  processes may act at any point; the state is that history. Signals are not modelled: an
  interrupted call, which the source repeats, is one call. Closing descriptors is not modelled.
\<close>

section \<open>The kernel\<close>

datatype errno = ENOENT | EACCES | EPERM | ELOOP | EXDEV | EAGAIN | ENAMETOOLONG | ENOTDIR | EEXIST | ENOSYS | EOther nat

datatype open_flag = O_RDONLY | O_WRONLY | O_PATH | O_DIRECTORY | O_NOFOLLOW | O_CLOEXEC | O_NONBLOCK | O_NOCTTY | O_APPEND | O_CREAT | O_EXCL

datatype file_type = RegularFile | DirectoryFile | SymbolicLink | OtherFile

record stat =
  st_dev :: nat
  st_ino :: nat
  st_mode :: file_type
  st_size :: int
  st_mtim :: "int \<times> int"
  st_ctim :: "int \<times> int"

text \<open>\<open>OpenAt2 d p fs b\<close> resolves beneath \<open>d\<close> without magic links, and without any symbolic link when \<open>b\<close>.\<close>

datatype io_call =
    OpenPath string "open_flag list"
  | OpenAt nat string "open_flag list"
  | OpenAt2 nat string "open_flag list" bool
  | DupFd nat
  | FStat nat
  | FStatAt nat string
  | LStat string
  | MkdirAt nat string
  | PRead nat int nat
  | WriteFd nat string
  | FSync nat
  | LinkAt nat string nat string
  | RenameAt nat string nat string
  | UnlinkAt nat string

datatype io_answer =
    RFd "errno + nat"
  | RStat "errno + stat"
  | RCount "errno + nat"
  | RBytes "errno + string"
  | RUnit "errno + unit"

type_synonym io_trace = "(io_call \<times> io_answer) list"

record kernel =
  kn_fd :: "io_trace \<Rightarrow> io_call \<Rightarrow> errno + nat"
  kn_stat :: "io_trace \<Rightarrow> io_call \<Rightarrow> errno + stat"
  kn_count :: "io_trace \<Rightarrow> io_call \<Rightarrow> errno + nat"
  kn_bytes :: "io_trace \<Rightarrow> io_call \<Rightarrow> errno + string"
  kn_unit :: "io_trace \<Rightarrow> io_call \<Rightarrow> errno + unit"
  kn_number :: "errno \<Rightarrow> int"
  kn_message :: "errno \<Rightarrow> string"
  kn_pid :: nat
  kn_random :: "io_trace \<Rightarrow> nat"

definition call_fd :: "kernel \<Rightarrow> io_call \<Rightarrow> (io_trace, errno + nat) eff" where
  "call_fd k c = (\<lambda>tr. (Inr (kn_fd k tr c), tr @ [(c, RFd (kn_fd k tr c))]))"

definition call_stat :: "kernel \<Rightarrow> io_call \<Rightarrow> (io_trace, errno + stat) eff" where
  "call_stat k c = (\<lambda>tr. (Inr (kn_stat k tr c), tr @ [(c, RStat (kn_stat k tr c))]))"

definition call_count :: "kernel \<Rightarrow> io_call \<Rightarrow> (io_trace, errno + nat) eff" where
  "call_count k c = (\<lambda>tr. (Inr (kn_count k tr c), tr @ [(c, RCount (kn_count k tr c))]))"

definition call_bytes :: "kernel \<Rightarrow> io_call \<Rightarrow> (io_trace, errno + string) eff" where
  "call_bytes k c = (\<lambda>tr. (Inr (kn_bytes k tr c), tr @ [(c, RBytes (kn_bytes k tr c))]))"

definition call_unit :: "kernel \<Rightarrow> io_call \<Rightarrow> (io_trace, errno + unit) eff" where
  "call_unit k c = (\<lambda>tr. (Inr (kn_unit k tr c), tr @ [(c, RUnit (kn_unit k tr c))]))"

section \<open>Errors and paths\<close>

definition path_error :: "string \<Rightarrow> string \<Rightarrow> string \<Rightarrow> string \<Rightarrow> core_error" where
  "path_error msg root rel reason = with_ctx ''reason'' reason (with_ctx ''path'' rel (with_ctx ''root'' root (err_permission_denied msg)))"

definition errno_error :: "kernel \<Rightarrow> string \<Rightarrow> string \<Rightarrow> string \<Rightarrow> errno \<Rightarrow> core_error" where
  "errno_error k msg root rel n =
     (let context = (\<lambda>e. with_ctx ''detail'' (kn_message k n) (with_ctx ''errno'' (show_int (kn_number k n)) (with_ctx ''path'' rel (with_ctx ''root'' root e)))) in
      if n = ENOENT then context (err_not_found msg)
      else if n = EACCES \<or> n = EPERM then context (err_permission_denied msg)
      else if n = ELOOP then path_error msg root rel ''symlink_component''
      else if n = EXDEV then path_error msg root rel ''outside_authority''
      else if n = EAGAIN then with_ctx ''reason'' ''path_resolution_raced'' (with_ctx ''path'' rel (with_ctx ''root'' root (make_error conflict_kind msg)))
      else if n = ENAMETOOLONG \<or> n = ENOTDIR then context (err_invalid_argument msg)
      else context (err_io msg))"

definition try_call :: "(io_trace, errno + 'a) eff \<Rightarrow> (errno \<Rightarrow> core_error) \<Rightarrow> (io_trace, 'a) eff" where
  "try_call m err = ebind m (\<lambda>r. case r of Inl n \<Rightarrow> efail (err n) | Inr x \<Rightarrow> eret x)"

record anchored_path =
  ap_relative_path :: string
  ap_reject_all :: bool

fun split_slash :: "string \<Rightarrow> string list" where
  "split_slash [] = [[]]"
| "split_slash (c # s) = (if c = CHR ''/'' then [] # split_slash s else (c # hd (split_slash s)) # tl (split_slash s))"

definition validate_anchored_path :: "anchored_path \<Rightarrow> unit result" where
  "validate_anchored_path p = (let rel = ap_relative_path p in
     if rel = [] then Inl (err_invalid_argument ''anchored path must not be empty'')
     else if CHR 0x00 \<in> set rel then Inl (err_invalid_argument ''anchored path must not contain NUL'')
     else if prefix ''/'' rel then Inl (with_ctx ''path'' rel (err_invalid_argument ''anchored path must be relative''))
     else if ''..'' \<in> set (split_slash rel) then Inl (path_error ''anchored path must not contain parent traversal'' [] rel ''outside_authority'')
     else Inr ())"

definition path_components :: "string \<Rightarrow> string list" where
  "path_components rel = filter (\<lambda>c. c \<noteq> [] \<and> c \<noteq> ''.'') (split_slash rel)"

section \<open>Opening beneath a directory\<close>

fun open_directories :: "kernel \<Rightarrow> string \<Rightarrow> string \<Rightarrow> nat \<Rightarrow> string list \<Rightarrow> (io_trace, nat) eff" where
  "open_directories k root rel d [] = eret d"
| "open_directories k root rel d (c # cs) =
     ebind (try_call (call_fd k (OpenAt d c [O_PATH, O_DIRECTORY, O_NOFOLLOW, O_CLOEXEC])) (errno_error k ''failed to resolve anchored directory'' root rel))
       (\<lambda>d'. open_directories k root rel d' cs)"

definition openat_fallback :: "kernel \<Rightarrow> nat \<Rightarrow> string \<Rightarrow> anchored_path \<Rightarrow> open_flag list \<Rightarrow> (io_trace, nat) eff" where
  "openat_fallback k fd root p flags = (let rel = ap_relative_path p; cs = path_components rel in
     ebind (try_call (call_fd k (DupFd fd)) (errno_error k ''failed to duplicate directory authority'' root rel)) (\<lambda>d.
       if cs = [] then try_call (call_fd k (OpenAt d ''.'' (flags @ [O_NOFOLLOW]))) (errno_error k ''failed to open anchored path'' root rel)
       else ebind (open_directories k root rel d (butlast cs)) (\<lambda>d'.
         try_call (call_fd k (OpenAt d' (last cs) (flags @ [O_NOFOLLOW]))) (errno_error k ''failed to open anchored path'' root rel))))"

fun openat2_attempts :: "kernel \<Rightarrow> nat \<Rightarrow> string \<Rightarrow> anchored_path \<Rightarrow> open_flag list \<Rightarrow> nat \<Rightarrow> (io_trace, nat) eff" where
  "openat2_attempts k fd root p flags 0 = efail (err_internal ''unreachable anchored path retry state'')"
| "openat2_attempts k fd root p flags (Suc n) =
     ebind (call_fd k (OpenAt2 fd (ap_relative_path p) flags (ap_reject_all p))) (\<lambda>r. case r of
       Inr opened \<Rightarrow> eret opened
     | Inl e \<Rightarrow>
         if e = ENOSYS then openat_fallback k fd root p flags
         else if e \<noteq> EAGAIN \<or> n = 0 then efail (errno_error k ''failed to open anchored path'' root (ap_relative_path p) e)
         else openat2_attempts k fd root p flags n)"

definition open_beneath :: "kernel \<Rightarrow> nat \<Rightarrow> string \<Rightarrow> anchored_path \<Rightarrow> open_flag list \<Rightarrow> (io_trace, nat) eff" where
  "open_beneath k fd root p flags = ebind (elift (validate_anchored_path p)) (\<lambda>_. openat2_attempts k fd root p flags 3)"

definition require_regular_file :: "kernel \<Rightarrow> nat \<Rightarrow> string \<Rightarrow> string \<Rightarrow> (io_trace, unit) eff" where
  "require_regular_file k fd root rel =
     ebind (try_call (call_stat k (FStat fd)) (errno_error k ''failed to inspect anchored file'' root rel)) (\<lambda>s.
       if st_mode s \<noteq> RegularFile then efail (with_ctx ''path'' rel (with_ctx ''root'' root (err_invalid_argument ''anchored path is not a regular file'')))
       else eret ())"

record directory_authority =
  da_fd :: nat
  da_root :: string

record read_only_file =
  ro_fd :: nat
  ro_display :: string

definition open_trusted_file :: "kernel \<Rightarrow> string \<Rightarrow> (io_trace, read_only_file) eff" where
  "open_trusted_file k path =
     (if path = [] \<or> CHR 0x00 \<in> set path then efail (err_invalid_argument ''file path must be non-empty and contain no NUL'')
      else ebind (try_call (call_fd k (OpenPath path [O_RDONLY, O_NONBLOCK, O_CLOEXEC, O_NOCTTY])) (\<lambda>n.
          if n = ENOTDIR then with_ctx ''path'' path (err_not_found ''file path does not exist'')
          else errno_error k ''failed to open file for reading'' [] path n)) (\<lambda>fd.
        ebind (require_regular_file k fd [] path) (\<lambda>_. eret \<lparr>ro_fd = fd, ro_display = path\<rparr>)))"

definition open_trusted_directory :: "kernel \<Rightarrow> string \<Rightarrow> (io_trace, directory_authority) eff" where
  "open_trusted_directory k root =
     (if root = [] then efail (err_invalid_argument ''directory authority root must not be empty'')
      else if CHR 0x00 \<in> set root then efail (err_invalid_argument ''directory authority root must not contain NUL'')
      else ebind (try_call (call_fd k (OpenPath root [O_PATH, O_DIRECTORY, O_CLOEXEC])) (errno_error k ''failed to open directory authority'' root ''.''))
        (\<lambda>fd. eret \<lparr>da_fd = fd, da_root = root\<rparr>))"

definition open_file :: "kernel \<Rightarrow> directory_authority \<Rightarrow> anchored_path \<Rightarrow> (io_trace, read_only_file) eff" where
  "open_file k a p =
     ebind (open_beneath k (da_fd a) (da_root a) p [O_RDONLY, O_NONBLOCK, O_CLOEXEC, O_NOCTTY]) (\<lambda>fd.
       ebind (require_regular_file k fd (da_root a) (ap_relative_path p)) (\<lambda>_.
         eret \<lparr>ro_fd = fd, ro_display = da_root a @ ''/'' @ ap_relative_path p\<rparr>))"

definition refers_to_path :: "kernel \<Rightarrow> directory_authority \<Rightarrow> string \<Rightarrow> (io_trace, bool) eff" where
  "refers_to_path k a path =
     (if path = [] \<or> CHR 0x00 \<in> set path then efail (err_invalid_argument ''directory comparison path is invalid'')
      else ebind (try_call (call_stat k (FStat (da_fd a))) (errno_error k ''failed to inspect directory authority'' (da_root a) ''.'')) (\<lambda>s.
        ebind (call_stat k (LStat path)) (\<lambda>r. case r of
          Inl n \<Rightarrow> if n = ENOENT \<or> n = ENOTDIR then eret False else efail (errno_error k ''failed to inspect directory comparison path'' path ''.'' n)
        | Inr t \<Rightarrow> eret (st_dev s = st_dev t \<and> st_ino s = st_ino t))))"

section \<open>Mutations\<close>

record file_identity =
  id_device :: nat
  id_inode :: nat
  id_size :: int
  id_mtime :: "int \<times> int"
  id_ctime :: "int \<times> int"

record file_mutation =
  fm_parent :: nat
  fm_name :: string
  fm_display :: string
  fm_existed :: bool
  fm_identity :: file_identity

definition same_identity :: "file_identity \<Rightarrow> stat \<Rightarrow> bool" where
  "same_identity i s \<longleftrightarrow> st_dev s = id_device i \<and> st_ino s = id_inode i \<and> st_size s = id_size i \<and> st_mtim s = id_mtime i \<and> st_ctim s = id_ctime i"

definition open_parent :: "kernel \<Rightarrow> string \<Rightarrow> string \<Rightarrow> bool \<Rightarrow> nat \<Rightarrow> string \<Rightarrow> (io_trace, nat) eff" where
  "open_parent k root rel create d c =
     (let dir_open = call_fd k (OpenAt d c [O_RDONLY, O_DIRECTORY, O_NOFOLLOW, O_CLOEXEC]) in
      ebind dir_open (\<lambda>r.
      ebind (if r = Inl ENOENT \<and> create
             then ebind (call_unit k (MkdirAt d c)) (\<lambda>made. case made of
                 Inl n \<Rightarrow> if n \<noteq> EEXIST then efail (errno_error k ''failed to create anchored parent directory'' root rel n) else dir_open
               | Inr _ \<Rightarrow> dir_open)
             else eret r) (\<lambda>r'. case r' of
        Inr d' \<Rightarrow> eret d'
      | Inl n \<Rightarrow>
          if n = ELOOP \<or> n = ENOTDIR
          then ebind (call_stat k (FStatAt d c)) (\<lambda>s. case s of
              Inr st \<Rightarrow> if st_mode st = SymbolicLink then efail (path_error ''anchored mutation parent must not be a symlink'' root rel ''symlink_component'')
                else efail (errno_error k ''failed to open anchored parent directory'' root rel n)
            | Inl _ \<Rightarrow> efail (errno_error k ''failed to open anchored parent directory'' root rel n))
          else efail (errno_error k ''failed to open anchored parent directory'' root rel n))))"

fun open_parents :: "kernel \<Rightarrow> string \<Rightarrow> string \<Rightarrow> bool \<Rightarrow> nat \<Rightarrow> string list \<Rightarrow> (io_trace, nat) eff" where
  "open_parents k root rel create d [] = eret d"
| "open_parents k root rel create d (c # cs) = ebind (open_parent k root rel create d c) (\<lambda>d'. open_parents k root rel create d' cs)"

definition identity_of :: "stat \<Rightarrow> file_identity" where
  "identity_of s = \<lparr>id_device = st_dev s, id_inode = st_ino s, id_size = st_size s, id_mtime = st_mtim s, id_ctime = st_ctim s\<rparr>"

definition no_identity :: file_identity where
  "no_identity = \<lparr>id_device = 0, id_inode = 0, id_size = 0, id_mtime = (0, 0), id_ctime = (0, 0)\<rparr>"

definition snapshot_target :: "kernel \<Rightarrow> string \<Rightarrow> string \<Rightarrow> nat \<Rightarrow> (io_trace, file_identity) eff" where
  "snapshot_target k root rel fd =
     ebind (try_call (call_stat k (FStat fd)) (errno_error k ''failed to snapshot anchored mutation target'' root rel)) (\<lambda>s.
       if st_mode s = SymbolicLink then efail (path_error ''anchored mutation target must not be a symlink'' root rel ''symlink_component'')
       else ebind (require_regular_file k fd root rel) (\<lambda>_. eret (identity_of s)))"

definition begin_file_mutation :: "kernel \<Rightarrow> directory_authority \<Rightarrow> string \<Rightarrow> bool \<Rightarrow> (io_trace, file_mutation) eff" where
  "begin_file_mutation k a rel create =
     (let root = da_root a; cs = path_components rel in
      ebind (elift (validate_anchored_path \<lparr>ap_relative_path = rel, ap_reject_all = True\<rparr>)) (\<lambda>_.
      if cs = [] then efail (err_invalid_argument ''mutation target must name a file'')
      else ebind (try_call (call_fd k (OpenAt (da_fd a) ''.'' [O_RDONLY, O_DIRECTORY, O_CLOEXEC])) (errno_error k ''failed to duplicate directory authority'' root rel)) (\<lambda>d.
        ebind (open_parents k root rel create d (butlast cs)) (\<lambda>parent.
        ebind (call_fd k (OpenAt parent (last cs) [O_PATH, O_CLOEXEC, O_NOFOLLOW])) (\<lambda>r.
          let mutation = (\<lambda>existed i. \<lparr>fm_parent = parent, fm_name = last cs, fm_display = root @ ''/'' @ rel, fm_existed = existed, fm_identity = i\<rparr>) in
          case r of
            Inl n \<Rightarrow> if n \<noteq> ENOENT then efail (errno_error k ''failed to inspect anchored mutation target'' root rel n) else eret (mutation False no_identity)
          | Inr fd \<Rightarrow> ebind (snapshot_target k root rel fd) (\<lambda>i. eret (mutation True i)))))))"

definition open_existing :: "kernel \<Rightarrow> file_mutation \<Rightarrow> (io_trace, read_only_file) eff" where
  "open_existing k m =
     (if \<not> fm_existed m then efail (with_ctx ''path'' (fm_display m) (err_not_found ''anchored mutation target does not exist''))
      else ebind (try_call (call_fd k (OpenAt (fm_parent m) (fm_name m) [O_RDONLY, O_CLOEXEC, O_NOFOLLOW, O_NONBLOCK]))
             (errno_error k ''failed to open mutation target for reading'' [] (fm_display m))) (\<lambda>fd.
        ebind (try_call (call_stat k (FStat fd)) (errno_error k ''failed to validate mutation read target'' [] (fm_display m))) (\<lambda>s.
          if \<not> same_identity (fm_identity m) s
          then efail (with_ctx ''path'' (fm_display m) (with_ctx ''reason'' ''stale_fingerprint''
            (make_error conflict_kind ''anchored mutation target changed before read'')))
          else eret \<lparr>ro_fd = fd, ro_display = fm_display m\<rparr>)))"

section \<open>Writing\<close>

record file_fingerprint =
  fp_size_bytes :: "64 word"
  fp_mtime_ns :: "64 word"
  fp_sha256 :: "string option"

definition stat_mtime_nanoseconds :: "stat \<Rightarrow> 64 word" where
  "stat_mtime_nanoseconds s = (if fst (st_mtim s) < 0 then 0 else of_int (fst (st_mtim s)) * 1000000000 + of_int (snd (st_mtim s)))"

definition fingerprint_from_stat :: "stat \<Rightarrow> file_fingerprint" where
  "fingerprint_from_stat s = \<lparr>fp_size_bytes = of_int (st_size s), fp_mtime_ns = stat_mtime_nanoseconds s, fp_sha256 = None\<rparr>"

datatype write_mode = Truncate | Append | FailIfExists

datatype durability = RenameOnly | FsyncFile | FsyncFileAndParent

record write_options =
  wo_mode :: write_mode
  wo_create_parents :: bool
  wo_atomic :: bool
  wo_durability :: durability
  wo_verify :: "(file_fingerprint \<Rightarrow> unit result) option"

function write_all :: "kernel \<Rightarrow> nat \<Rightarrow> string \<Rightarrow> string \<Rightarrow> io_trace \<Rightarrow> unit result \<times> io_trace" where
  "write_all k fd contents path tr =
     (if contents = [] then (Inr (), tr)
      else let c = WriteFd fd (take (nat i64_max) contents); r = kn_count k tr c; tr' = tr @ [(c, RCount r)] in
        case r of
          Inl n \<Rightarrow> (Inl (errno_error k ''failed to write anchored file'' [] path n), tr')
        | Inr count \<Rightarrow>
            if count = 0 then (Inl (with_ctx ''path'' path (err_io ''anchored file write made no progress'')), tr')
            else write_all k fd (drop count contents) path tr')"
  by auto
termination by (relation "measure (\<lambda>(k, fd, contents, path, tr). length contents)") auto

declare write_all.simps [simp del]

definition stale_mutation_error :: "string \<Rightarrow> string \<Rightarrow> core_error" where
  "stale_mutation_error msg path = with_ctx ''path'' path (with_ctx ''reason'' ''stale_fingerprint'' (make_error conflict_kind msg))"

definition sync_fd :: "kernel \<Rightarrow> nat \<Rightarrow> string \<Rightarrow> string \<Rightarrow> (io_trace, unit) eff" where
  "sync_fd k fd path msg = try_call (call_unit k (FSync fd)) (errno_error k msg [] path)"

definition temp_name :: "kernel \<Rightarrow> io_trace \<Rightarrow> string" where
  "temp_name k tr = ''.orangutan.tmp.'' @ show_nat (kn_pid k) @ ''.'' @ show_nat (kn_random k tr)"

definition temp_flags :: "open_flag list" where
  "temp_flags = [O_WRONLY, O_CREAT, O_EXCL, O_CLOEXEC, O_NOFOLLOW]"

fun temp_attempts :: "kernel \<Rightarrow> nat \<Rightarrow> string \<Rightarrow> nat \<Rightarrow> (io_trace, string \<times> nat) eff" where
  "temp_attempts k parent path 0 = efail (with_ctx ''attempts'' ''32'' (with_ctx ''path'' path (err_io ''failed to allocate anchored temporary file'')))"
| "temp_attempts k parent path (Suc left) = ebind (egets (temp_name k)) (\<lambda>name.
     ebind (call_fd k (OpenAt parent name temp_flags)) (\<lambda>r. case r of
       Inr fd \<Rightarrow> eret (name, fd)
     | Inl n \<Rightarrow> if n \<noteq> EEXIST then efail (errno_error k ''failed to create anchored temporary file'' [] path n) else temp_attempts k parent path left))"

definition create_sibling_temp :: "kernel \<Rightarrow> nat \<Rightarrow> string \<Rightarrow> (io_trace, string \<times> nat) eff" where
  "create_sibling_temp k parent path = temp_attempts k parent path 32"

definition write_and_sync_temp :: "kernel \<Rightarrow> nat \<Rightarrow> string \<Rightarrow> string \<Rightarrow> durability \<Rightarrow> (io_trace, unit) eff" where
  "write_and_sync_temp k fd contents path dur = ebind (write_all k fd contents path) (\<lambda>_.
     if dur \<noteq> RenameOnly then sync_fd k fd path ''failed to sync anchored temporary file'' else eret ())"

text \<open>
  The destructor of \<^verbatim>\<open>SiblingTempFile\<close>: the name is removed at the end of its scope unless it was committed, which
  the exclusive creation never is.
\<close>

definition unlink_temp :: "kernel \<Rightarrow> nat \<Rightarrow> string \<Rightarrow> io_trace \<Rightarrow> io_trace" where
  "unlink_temp k parent name tr = tr @ [(UnlinkAt parent name, RUnit (kn_unit k tr (UnlinkAt parent name)))]"

definition unlink_unless_committed :: "kernel \<Rightarrow> nat \<Rightarrow> string \<Rightarrow> (io_trace, unit) eff \<Rightarrow> (io_trace, unit) eff" where
  "unlink_unless_committed k parent name body = (\<lambda>tr. case body tr of (Inl e, tr') \<Rightarrow> (Inl e, unlink_temp k parent name tr') | (Inr _, tr') \<Rightarrow> (Inr (), tr'))"

definition unlink_always :: "kernel \<Rightarrow> nat \<Rightarrow> string \<Rightarrow> (io_trace, unit) eff \<Rightarrow> (io_trace, unit) eff" where
  "unlink_always k parent name body = (\<lambda>tr. case body tr of (r, tr') \<Rightarrow> (r, unlink_temp k parent name tr'))"

definition check_write_options :: "file_mutation \<Rightarrow> write_options \<Rightarrow> unit result" where
  "check_write_options m o1 =
     (if wo_mode o1 \<noteq> Truncate \<and> wo_atomic o1 then Inl (err_invalid_argument ''atomic writes require truncate mode'')
      else if \<not> wo_atomic o1 \<and> wo_durability o1 \<noteq> RenameOnly then Inl (err_invalid_argument ''write durability requires atomic mode'')
      else if wo_verify o1 \<noteq> None \<and> (wo_mode o1 \<noteq> Truncate \<or> \<not> wo_atomic o1)
      then Inl (err_invalid_argument ''commit verification requires atomic truncate mode'')
      else if wo_verify o1 \<noteq> None \<and> \<not> fm_existed m then Inl (err_invalid_argument ''commit verification requires an existing target'')
      else Inr ())"

definition write_append :: "kernel \<Rightarrow> file_mutation \<Rightarrow> string \<Rightarrow> (io_trace, unit) eff" where
  "write_append k m contents =
     (let path = fm_display m; create = (if fm_existed m then [] else [O_CREAT, O_EXCL]) in
      ebind (try_call (call_fd k (OpenAt (fm_parent m) (fm_name m) ([O_WRONLY, O_APPEND] @ create @ [O_CLOEXEC, O_NOFOLLOW]))) (\<lambda>n.
          if \<not> fm_existed m \<and> n = EEXIST then stale_mutation_error ''anchored append target appeared before write'' path
          else errno_error k ''failed to open anchored append target'' [] path n)) (\<lambda>fd.
      ebind (require_regular_file k fd [] path) (\<lambda>_.
      ebind (if fm_existed m
             then ebind (try_call (call_stat k (FStat fd)) (errno_error k ''failed to validate anchored append target'' [] path)) (\<lambda>s.
               if \<not> same_identity (fm_identity m) s then efail (stale_mutation_error ''anchored append target changed before write'' path) else eret ())
             else eret ()) (\<lambda>_. write_all k fd contents path))))"

definition write_exclusive :: "kernel \<Rightarrow> file_mutation \<Rightarrow> string \<Rightarrow> write_options \<Rightarrow> (io_trace, unit) eff" where
  "write_exclusive k m contents o1 =
     (let path = fm_display m; parent = fm_parent m in
      if fm_existed m then efail (with_ctx ''path'' path (make_error conflict_kind ''file already exists''))
      else ebind (create_sibling_temp k parent path) (\<lambda>(name, fd). unlink_always k parent name
        (ebind (write_and_sync_temp k fd contents path (wo_durability o1)) (\<lambda>_.
          try_call (call_unit k (LinkAt parent name parent (fm_name m))) (\<lambda>n.
            if n = EEXIST then with_ctx ''path'' path (make_error conflict_kind ''file already exists'')
            else errno_error k ''failed to commit anchored exclusive create'' [] path n)))))"

definition check_target :: "kernel \<Rightarrow> file_mutation \<Rightarrow> write_options \<Rightarrow> (io_trace, unit) eff" where
  "check_target k m o1 =
     (let path = fm_display m; changed = stale_mutation_error ''anchored mutation target changed before commit'' path in
      ebind (call_fd k (OpenAt (fm_parent m) (fm_name m) [O_PATH, O_CLOEXEC, O_NOFOLLOW])) (\<lambda>r.
        if fm_existed m
        then (case r of
            Inl n \<Rightarrow> if n = ENOENT then efail changed else efail (errno_error k ''failed to reopen anchored mutation target'' [] path n)
          | Inr fd \<Rightarrow> ebind (try_call (call_stat k (FStat fd)) (errno_error k ''failed to validate anchored mutation target'' [] path)) (\<lambda>s.
              if \<not> same_identity (fm_identity m) s then efail changed
              else (case wo_verify o1 of None \<Rightarrow> eret () | Some verify \<Rightarrow> elift (verify (fingerprint_from_stat s)))))
        else (case r of
            Inr _ \<Rightarrow> efail (stale_mutation_error ''anchored mutation target appeared before commit'' path)
          | Inl n \<Rightarrow> if n \<noteq> ENOENT then efail (errno_error k ''failed to verify absent anchored mutation target'' [] path n) else eret ())))"

definition write_truncate :: "kernel \<Rightarrow> file_mutation \<Rightarrow> string \<Rightarrow> write_options \<Rightarrow> (io_trace, unit) eff" where
  "write_truncate k m contents o1 =
     (let path = fm_display m; parent = fm_parent m in
      ebind (create_sibling_temp k parent path) (\<lambda>(name, fd).
      ebind (unlink_unless_committed k parent name
        (ebind (write_and_sync_temp k fd contents path (wo_durability o1)) (\<lambda>_.
         ebind (check_target k m o1) (\<lambda>_.
         try_call (call_unit k (RenameAt parent name parent (fm_name m))) (errno_error k ''failed to commit anchored write'' [] path))))) (\<lambda>_.
      if wo_durability o1 = FsyncFileAndParent then sync_fd k parent path ''failed to sync anchored parent directory'' else eret ())))"

definition write_text :: "kernel \<Rightarrow> file_mutation \<Rightarrow> string \<Rightarrow> write_options \<Rightarrow> (io_trace, unit) eff" where
  "write_text k m contents o1 = ebind (elift (check_write_options m o1)) (\<lambda>_.
     case wo_mode o1 of Append \<Rightarrow> write_append k m contents | FailIfExists \<Rightarrow> write_exclusive k m contents o1 | Truncate \<Rightarrow> write_truncate k m contents o1)"

section \<open>The calls of a step\<close>

text \<open>\<open>traces m P\<close>: every run of \<open>m\<close> only extends the history, by events that stand in relation \<open>P\<close> to its result.\<close>

definition traces :: "(io_trace, 'a) eff \<Rightarrow> ('a result \<Rightarrow> io_trace \<Rightarrow> bool) \<Rightarrow> bool" where
  "traces m P \<longleftrightarrow> (\<forall>tr. \<exists>r evs. m tr = (r, tr @ evs) \<and> P r evs)"

lemma traces_ret: "P (Inr x) [] \<Longrightarrow> traces (eret x) P"
  and traces_fail: "P (Inl e) [] \<Longrightarrow> traces (efail e) P"
  and traces_lift: "P r [] \<Longrightarrow> traces (elift r) P"
  by (auto simp: traces_def eff_apply)

lemma traces_bind:
  assumes m: "traces m P" and f: "\<And>x. traces (f x) (Q x)" and err: "\<And>e evs. P (Inl e) evs \<Longrightarrow> R (Inl e) evs"
    and ok: "\<And>x evs r evs'. P (Inr x) evs \<Longrightarrow> Q x r evs' \<Longrightarrow> R r (evs @ evs')"
  shows "traces (ebind m f) R"
  unfolding traces_def
proof
  fix tr
  obtain r evs where r: "m tr = (r, tr @ evs)" "P r evs" using m unfolding traces_def by blast
  show "\<exists>r evs. ebind m f tr = (r, tr @ evs) \<and> R r evs"
  proof (cases r)
    case (Inl e)
    then show ?thesis using r err by (auto simp: ebind_def)
  next
    case (Inr x)
    obtain r' evs' where "f x (tr @ evs) = (r', (tr @ evs) @ evs')" "Q x r' evs'" using f unfolding traces_def by blast
    then show ?thesis using r Inr ok by (auto simp: ebind_def intro!: exI [of _ r'] exI [of _ "evs @ evs'"])
  qed
qed

lemma traces_weaken: "traces m P \<Longrightarrow> (\<And>r evs. P r evs \<Longrightarrow> Q r evs) \<Longrightarrow> traces m Q"
  by (fastforce simp: traces_def)

lemma traces_calls:
  "traces (call_fd k c1) (\<lambda>r evs. \<exists>a. r = Inr a \<and> evs = [(c1, RFd a)])"
  "traces (call_stat k c2) (\<lambda>r evs. \<exists>a. r = Inr a \<and> evs = [(c2, RStat a)])"
  "traces (call_unit k c3) (\<lambda>r evs. \<exists>a. r = Inr a \<and> evs = [(c3, RUnit a)])"
  by (auto simp: traces_def call_fd_def call_stat_def call_unit_def)

fun answered_ok :: "errno + 'a \<Rightarrow> 'a result \<Rightarrow> bool" where
  "answered_ok (Inl n) r \<longleftrightarrow> (\<exists>e. r = Inl e)"
| "answered_ok (Inr x) r \<longleftrightarrow> r = Inr x"

lemma traces_try:
  "traces (try_call (call_fd k c1) err1) (\<lambda>r evs. \<exists>a. answered_ok a r \<and> evs = [(c1, RFd a)])"
  "traces (try_call (call_stat k c2) err2) (\<lambda>r evs. \<exists>a. answered_ok a r \<and> evs = [(c2, RStat a)])"
  "traces (try_call (call_unit k c3) err3) (\<lambda>r evs. \<exists>a. answered_ok a r \<and> evs = [(c3, RUnit a)])"
  by (auto simp: traces_def try_call_def call_fd_def call_stat_def call_unit_def ebind_def eff_apply split: sum.split)

text \<open>What the calls of a history put into descriptor \<open>fd\<close>.\<close>

fun written :: "nat \<Rightarrow> io_trace \<Rightarrow> string" where
  "written fd [] = []"
| "written fd ((c, a) # evs) = (case (c, a) of (WriteFd fd' d, RCount (Inr n)) \<Rightarrow> if fd' = fd then take n d @ written fd evs else written fd evs
     | _ \<Rightarrow> written fd evs)"

fun works_on :: "nat \<Rightarrow> io_call \<times> io_answer \<Rightarrow> bool" where
  "works_on fd (WriteFd fd' d, a) \<longleftrightarrow> fd' = fd"
| "works_on fd (FSync fd', a) \<longleftrightarrow> fd' = fd"
| "works_on fd _ \<longleftrightarrow> False"

lemma written_append [simp]: "written fd (xs @ ys) = written fd xs @ written fd ys"
  by (induction xs) (auto split: io_call.split io_answer.split sum.split)

text \<open>POSIX: a write takes at most what it was given.\<close>

definition counts_writes :: "kernel \<Rightarrow> bool" where
  "counts_writes k \<longleftrightarrow> (\<forall>tr fd d n. kn_count k tr (WriteFd fd d) = Inr n \<longrightarrow> n \<le> length d)"

lemma write_all_traces:
  assumes "counts_writes k"
  shows "traces (write_all k fd contents path) (\<lambda>r evs. list_all (works_on fd) evs \<and> (r = Inr () \<longrightarrow> written fd evs = contents))"
  unfolding traces_def
proof
  fix tr show "\<exists>r evs. write_all k fd contents path tr = (r, tr @ evs) \<and> list_all (works_on fd) evs \<and> (r = Inr () \<longrightarrow> written fd evs = contents)"
    using assms
  proof (induction k fd contents path tr rule: write_all.induct)
    case (1 k fd contents path tr)
    define c where "c = WriteFd fd (take (nat i64_max) contents)"
    show ?case
    proof (cases "contents = [] \<or> (\<forall>n. kn_count k tr c \<noteq> Inr n \<or> n = 0)")
      case True
      then show ?thesis by (subst write_all.simps) (auto simp: c_def Let_def split: sum.split)
    next
      case False
      then obtain n where n: "kn_count k tr c = Inr n" "n \<noteq> 0" "contents \<noteq> []" by auto
      then have "n \<le> length (take (nat i64_max) contents)" using 1(2) unfolding counts_writes_def c_def by blast
      then have split: "contents = take n (take (nat i64_max) contents) @ drop n contents" by (simp add: min_def split: if_splits)
      obtain r evs where r: "write_all k fd (drop n contents) path (tr @ [(c, RCount (Inr n))]) = (r, (tr @ [(c, RCount (Inr n))]) @ evs)"
        "list_all (works_on fd) evs" "r = Inr () \<longrightarrow> written fd evs = drop n contents"
        using 1(1) [of c "Inr n" _ n] 1(2) n by (auto simp: c_def)
      then have "write_all k fd contents path tr = (r, tr @ (c, RCount (Inr n)) # evs)"
        using n by (subst write_all.simps) (simp add: c_def [symmetric] Let_def)
      then show ?thesis using r split by (auto simp: c_def intro!: exI [of _ "(c, RCount (Inr n)) # evs"])
    qed
  qed
qed

section \<open>A replacement is whole, checked and clean\<close>

text \<open>An event that created, replaced, opened for writing or removed the target.\<close>

fun touches :: "file_mutation \<Rightarrow> io_call \<times> io_answer \<Rightarrow> bool" where
  "touches m (RenameAt d n d' n', RUnit (Inr _)) \<longleftrightarrow> d' = fm_parent m \<and> n' = fm_name m \<or> d = fm_parent m \<and> n = fm_name m"
| "touches m (LinkAt d n d' n', RUnit (Inr _)) \<longleftrightarrow> d' = fm_parent m \<and> n' = fm_name m"
| "touches m (UnlinkAt d n, RUnit (Inr _)) \<longleftrightarrow> d = fm_parent m \<and> n = fm_name m"
| "touches m (MkdirAt d n, RUnit (Inr _)) \<longleftrightarrow> d = fm_parent m \<and> n = fm_name m"
| "touches m (OpenAt d n fs, RFd (Inr _)) \<longleftrightarrow> d = fm_parent m \<and> n = fm_name m \<and> (O_CREAT \<in> set fs \<or> O_WRONLY \<in> set fs)"
| "touches m _ \<longleftrightarrow> False"

definition untouched :: "file_mutation \<Rightarrow> io_trace \<Rightarrow> bool" where
  "untouched m evs \<longleftrightarrow> list_all (\<lambda>ev. \<not> touches m ev) evs"

definition opens_temp :: "file_mutation \<Rightarrow> string \<Rightarrow> nat \<Rightarrow> io_call \<times> io_answer" where
  "opens_temp m name fd = (OpenAt (fm_parent m) name temp_flags, RFd (Inr fd))"

text \<open>The events of a check that the target is what the mutation began with and what the verifier accepts.\<close>

definition target_checked :: "file_mutation \<Rightarrow> write_options \<Rightarrow> io_trace \<Rightarrow> bool" where
  "target_checked m o1 evs \<longleftrightarrow> (let opened = OpenAt (fm_parent m) (fm_name m) [O_PATH, O_CLOEXEC, O_NOFOLLOW] in
     if fm_existed m
     then \<exists>fd s. evs = [(opened, RFd (Inr fd)), (FStat fd, RStat (Inr s))] \<and> same_identity (fm_identity m) s \<and>
       (\<forall>verify. wo_verify o1 = Some verify \<longrightarrow> verify (fingerprint_from_stat s) = Inr ())
     else evs = [(opened, RFd (Inl ENOENT))])"

definition replaced :: "file_mutation \<Rightarrow> string \<Rightarrow> write_options \<Rightarrow> io_trace \<Rightarrow> bool" where
  "replaced m contents o1 evs \<longleftrightarrow> (\<exists>tries name fd ws checks fin.
     evs = tries @ [opens_temp m name fd] @ ws @ checks @ [(RenameAt (fm_parent m) name (fm_parent m) (fm_name m), RUnit (Inr ()))] @ fin \<and>
     untouched m (tries @ [opens_temp m name fd] @ ws @ checks) \<and> list_all (works_on fd) ws \<and> written fd ws = contents \<and> target_checked m o1 checks \<and>
     list_all (works_on (fm_parent m)) fin)"

definition cleaned :: "file_mutation \<Rightarrow> io_trace \<Rightarrow> bool" where
  "cleaned m evs \<longleftrightarrow> (\<forall>name fd. opens_temp m name fd \<in> set evs \<longrightarrow> fst (last evs) = UnlinkAt (fm_parent m) name)"

definition temp_prefix :: string where
  "temp_prefix = ''.orangutan.tmp.''"

lemma temp_name_differs: "\<not> prefix temp_prefix n \<Longrightarrow> temp_name k tr \<noteq> n"
  by (auto simp: temp_name_def temp_prefix_def)

lemma untouched_simps [simp]: "untouched m []" "untouched m (ev # evs) \<longleftrightarrow> \<not> touches m ev \<and> untouched m evs"
    "untouched m (xs @ ys) \<longleftrightarrow> untouched m xs \<and> untouched m ys"
  by (auto simp: untouched_def)

lemma works_on_untouched: "list_all (works_on fd) evs \<Longrightarrow> untouched m evs"
  unfolding untouched_def by (rule list.pred_mono_strong, assumption) (metis touches.simps works_on.elims(2))

lemma works_on_not_temp: "list_all (works_on fd) evs \<Longrightarrow> opens_temp m name fd' \<notin> set evs"
  by (auto simp: opens_temp_def list_all_iff)

text \<open>Attempts at a temporary file that did not open one.\<close>

definition failed_tries :: "file_mutation \<Rightarrow> io_trace \<Rightarrow> bool" where
  "failed_tries m evs \<longleftrightarrow> list_all (\<lambda>(c, a). \<exists>name n. c = OpenAt (fm_parent m) name temp_flags \<and> a = RFd (Inl n)) evs"

lemma failed_tries_untouched: "failed_tries m evs \<Longrightarrow> untouched m evs \<and> opens_temp m name fd \<notin> set evs"
  by (auto simp: failed_tries_def untouched_def list_all_iff opens_temp_def)

lemma create_temp_traces:
  "traces (temp_attempts k (fm_parent m) path n) (\<lambda>r evs. case r of Inl e \<Rightarrow> failed_tries m evs
     | Inr (name, fd) \<Rightarrow> prefix temp_prefix name \<and> (\<exists>tries. evs = tries @ [opens_temp m name fd] \<and> failed_tries m tries))"
proof (induction n)
  case 0
  then show ?case by (auto simp: traces_def eff_apply failed_tries_def)
next
  case (Suc n)
  show ?case unfolding traces_def
  proof
    fix tr
    define name where "name = temp_name k tr"
    define c where "c = OpenAt (fm_parent m) name temp_flags"
    have name: "prefix temp_prefix name" by (simp add: name_def temp_name_def temp_prefix_def)
    obtain r evs where r: "temp_attempts k (fm_parent m) path n (tr @ [(c, RFd (Inl EEXIST))]) = (r, (tr @ [(c, RFd (Inl EEXIST))]) @ evs)"
      "case r of Inl e \<Rightarrow> failed_tries m evs
        | Inr (name, fd) \<Rightarrow> prefix temp_prefix name \<and> (\<exists>tries. evs = tries @ [opens_temp m name fd] \<and> failed_tries m tries)"
      using Suc unfolding traces_def by blast
    have fails: "failed_tries m ((c, RFd (Inl e)) # xs) \<longleftrightarrow> failed_tries m xs" for e xs by (auto simp: failed_tries_def c_def)
    show "\<exists>r evs. temp_attempts k (fm_parent m) path (Suc n) tr = (r, tr @ evs) \<and> (case r of Inl e \<Rightarrow> failed_tries m evs
        | Inr (name, fd) \<Rightarrow> prefix temp_prefix name \<and> (\<exists>tries. evs = tries @ [opens_temp m name fd] \<and> failed_tries m tries))"
    proof (cases "kn_fd k tr c")
      case (Inr fd)
      then show ?thesis using name
        by (auto simp: call_fd_def ebind_def eff_apply name_def [symmetric] c_def [symmetric] opens_temp_def failed_tries_def)
    next
      case (Inl e)
      show ?thesis
      proof (cases "e = EEXIST")
        case True
        have "temp_attempts k (fm_parent m) path (Suc n) tr = (r, tr @ (c, RFd (Inl EEXIST)) # evs)"
          using r(1) Inl True by (simp add: call_fd_def ebind_def eff_apply name_def [symmetric] c_def [symmetric])
        moreover have "case r of Inl e \<Rightarrow> failed_tries m ((c, RFd (Inl EEXIST)) # evs) | Inr (name, fd) \<Rightarrow> prefix temp_prefix name \<and>
            (\<exists>tries. (c, RFd (Inl EEXIST)) # evs = tries @ [opens_temp m name fd] \<and> failed_tries m tries)"
          using r(2) fails by (auto split: sum.splits intro!: exI [of _ "(c, RFd (Inl EEXIST)) # _"])
        ultimately show ?thesis by blast
      next
        case False
        then show ?thesis using Inl fails [of e "[]"]
          by (auto simp: call_fd_def ebind_def eff_apply name_def [symmetric] c_def [symmetric] failed_tries_def)
      qed
    qed
  qed
qed

lemma check_target_traces:
  "traces (check_target k m o1) (\<lambda>r evs. untouched m evs \<and> (\<forall>name fd. opens_temp m name fd \<notin> set evs) \<and> (r = Inr () \<longrightarrow> target_checked m o1 evs))"
proof -
  define c where "c = OpenAt (fm_parent m) (fm_name m) [O_PATH, O_CLOEXEC, O_NOFOLLOW]"
  have quiet: "\<not> touches m (c, RFd a)" "\<not> touches m (FStat fd, b)" "opens_temp m name fd' \<noteq> (c, RFd a)" "opens_temp m name fd' \<noteq> (FStat fd, b)" for a b fd fd' name
    by (cases a; auto simp: c_def opens_temp_def temp_flags_def)+
  show ?thesis unfolding traces_def
  proof
    fix tr
    show "\<exists>r evs. check_target k m o1 tr = (r, tr @ evs) \<and> untouched m evs \<and> (\<forall>name fd. opens_temp m name fd \<notin> set evs) \<and> (r = Inr () \<longrightarrow> target_checked m o1 evs)"
    proof (cases "kn_fd k tr c")
      case (Inl n)
      then show ?thesis using quiet
        by (auto simp: check_target_def Let_def c_def [symmetric] call_fd_def ebind_def eff_apply target_checked_def)
    next
      case (Inr fd)
      define tr1 where "tr1 = tr @ [(c, RFd (Inr fd))]"
      show ?thesis
      proof (cases "fm_existed m")
        case True
        define a where "a = kn_stat k tr1 (FStat fd)"
        have "\<exists>r. check_target k m o1 tr = (r, tr1 @ [(FStat fd, RStat a)]) \<and>
          (r = Inr () \<longrightarrow> (\<exists>s. a = Inr s \<and> same_identity (fm_identity m) s \<and> (\<forall>verify. wo_verify o1 = Some verify \<longrightarrow> verify (fingerprint_from_stat s) = Inr ())))"
          using True Inr
          by (cases a) (auto simp: check_target_def Let_def c_def [symmetric] call_fd_def call_stat_def try_call_def ebind_def eff_apply
              tr1_def [symmetric] a_def [symmetric] simp del: append_assoc append.simps split: option.split)
        then show ?thesis using quiet True
          by (auto simp: target_checked_def Let_def c_def [symmetric] tr1_def intro!: exI [of _ "[(c, RFd (Inr fd)), (FStat fd, RStat a)]"])
      next
        case False
        then show ?thesis using Inr quiet
          by (auto simp: check_target_def Let_def c_def [symmetric] call_fd_def ebind_def eff_apply)
      qed
    qed
  qed
qed

lemma write_and_sync_traces:
  assumes "counts_writes k"
  shows "traces (write_and_sync_temp k fd contents path dur) (\<lambda>r evs. list_all (works_on fd) evs \<and> (r = Inr () \<longrightarrow> written fd evs = contents))"
  unfolding write_and_sync_temp_def
proof (rule traces_bind [OF write_all_traces [OF assms], where Q = "\<lambda>_ r evs. list_all (works_on fd) evs \<and> written fd evs = []"])
  show "traces (if dur \<noteq> RenameOnly then sync_fd k fd path ''failed to sync anchored temporary file'' else eret ())
      (\<lambda>r evs. list_all (works_on fd) evs \<and> written fd evs = [])"
    unfolding sync_fd_def by (auto intro!: traces_ret traces_weaken [OF traces_try(3)])
qed auto

text \<open>Up to the rename: either it happened after complete writes and a passed check, or nothing touched the target.\<close>

definition commit_body :: "kernel \<Rightarrow> file_mutation \<Rightarrow> string \<Rightarrow> write_options \<Rightarrow> string \<Rightarrow> nat \<Rightarrow> (io_trace, unit) eff" where
  "commit_body k m contents o1 name fd =
     ebind (write_and_sync_temp k fd contents (fm_display m) (wo_durability o1)) (\<lambda>_. ebind (check_target k m o1) (\<lambda>_.
       try_call (call_unit k (RenameAt (fm_parent m) name (fm_parent m) (fm_name m))) (errno_error k ''failed to commit anchored write'' [] (fm_display m))))"

definition commit_events :: "file_mutation \<Rightarrow> string \<Rightarrow> write_options \<Rightarrow> string \<Rightarrow> nat \<Rightarrow> io_trace \<Rightarrow> bool" where
  "commit_events m contents o1 name fd evs \<longleftrightarrow>
     (\<exists>ws checks. evs = ws @ checks @ [(RenameAt (fm_parent m) name (fm_parent m) (fm_name m), RUnit (Inr ()))] \<and> list_all (works_on fd) ws \<and>
        written fd ws = contents \<and> untouched m checks \<and> target_checked m o1 checks)"

definition body_events :: "file_mutation \<Rightarrow> string \<Rightarrow> write_options \<Rightarrow> string \<Rightarrow> nat \<Rightarrow> unit result \<Rightarrow> io_trace \<Rightarrow> bool" where
  "body_events m contents o1 name fd r evs \<longleftrightarrow> (\<forall>name fd. opens_temp m name fd \<notin> set evs) \<and>
     (case r of Inl e \<Rightarrow> untouched m evs | Inr _ \<Rightarrow> commit_events m contents o1 name fd evs)"

lemma commit_body_traces:
  assumes "counts_writes k" "name \<noteq> fm_name m"
  shows "traces (commit_body k m contents o1 name fd) (body_events m contents o1 name fd)"
proof -
  define c where "c = RenameAt (fm_parent m) name (fm_parent m) (fm_name m)"
  have rename: "traces (ebind (check_target k m o1) (\<lambda>_. try_call (call_unit k c) err)) (\<lambda>r evs. (\<forall>name fd. opens_temp m name fd \<notin> set evs) \<and>
      (case r of Inl e \<Rightarrow> untouched m evs | Inr _ \<Rightarrow> (\<exists>checks. evs = checks @ [(c, RUnit (Inr ()))] \<and> untouched m checks \<and> target_checked m o1 checks)))" for err
  proof (rule traces_bind [OF check_target_traces traces_try(3)])
    fix x evs r evs'
    assume "untouched m evs \<and> (\<forall>name fd. opens_temp m name fd \<notin> set evs) \<and> (Inr x = Inr () \<longrightarrow> target_checked m o1 evs)"
      and "\<exists>a. answered_ok a r \<and> evs' = [(c, RUnit a)]"
    then show "(\<forall>name fd. opens_temp m name fd \<notin> set (evs @ evs')) \<and> (case r of Inl e \<Rightarrow> untouched m (evs @ evs')
        | Inr _ \<Rightarrow> (\<exists>checks. evs @ evs' = checks @ [(c, RUnit (Inr ()))] \<and> untouched m checks \<and> target_checked m o1 checks))"
      by (elim exE conjE, rename_tac a, case_tac a) (auto simp: opens_temp_def c_def)
  qed auto
  show ?thesis unfolding commit_body_def c_def [symmetric]
  proof (rule traces_bind [OF write_and_sync_traces [OF assms(1)] rename])
    fix x evs evs' and r :: "unit result"
    assume w: "list_all (works_on fd) evs \<and> (Inr x = Inr () \<longrightarrow> written fd evs = contents)"
      and rest: "(\<forall>name fd. opens_temp m name fd \<notin> set evs') \<and> (case r of Inl e \<Rightarrow> untouched m evs'
        | Inr _ \<Rightarrow> (\<exists>checks. evs' = checks @ [(c, RUnit (Inr ()))] \<and> untouched m checks \<and> target_checked m o1 checks))"
    show "body_events m contents o1 name fd r (evs @ evs')"
      using w rest works_on_untouched [of fd evs m] works_on_not_temp [of fd evs m]
      by (cases r) (auto simp: body_events_def commit_events_def c_def)
  qed (auto simp: body_events_def works_on_untouched works_on_not_temp)
qed

lemma cleaned_unlink: "\<forall>name' fd'. opens_temp m name' fd' \<in> set evs \<longrightarrow> name' = name \<Longrightarrow> cleaned m (evs @ [(UnlinkAt (fm_parent m) name, a)])"
  by (auto simp: cleaned_def opens_temp_def)

lemma unlink_untouched: "name \<noteq> fm_name m \<Longrightarrow> \<not> touches m (UnlinkAt (fm_parent m) name, RUnit a)"
  by (cases a) auto

text \<open>What a replacement leaves: the target replaced, or untouched with the temporary file removed.\<close>

definition atomic_outcome :: "file_mutation \<Rightarrow> string \<Rightarrow> write_options \<Rightarrow> unit result \<Rightarrow> io_trace \<Rightarrow> bool" where
  "atomic_outcome m contents o1 r evs \<longleftrightarrow>
     replaced m contents o1 evs \<and> (r = Inr () \<or> wo_durability o1 = FsyncFileAndParent) \<or> r \<noteq> Inr () \<and> untouched m evs \<and> cleaned m evs"

definition scoped_events :: "file_mutation \<Rightarrow> string \<Rightarrow> write_options \<Rightarrow> string \<Rightarrow> nat \<Rightarrow> unit result \<Rightarrow> io_trace \<Rightarrow> bool" where
  "scoped_events m contents o1 name fd r evs \<longleftrightarrow> body_events m contents o1 name fd r evs \<and>
     (\<forall>e. r = Inl e \<longrightarrow> evs \<noteq> [] \<and> fst (last evs) = UnlinkAt (fm_parent m) name)"

lemma scoped_traces:
  assumes "counts_writes k" "name \<noteq> fm_name m"
  shows "traces (unlink_unless_committed k (fm_parent m) name (commit_body k m contents o1 name fd)) (scoped_events m contents o1 name fd)"
  unfolding traces_def
proof
  fix tr
  obtain r evs where "commit_body k m contents o1 name fd tr = (r, tr @ evs)" "body_events m contents o1 name fd r evs"
    using commit_body_traces [OF assms] unfolding traces_def by blast
  then show "\<exists>r evs. unlink_unless_committed k (fm_parent m) name (commit_body k m contents o1 name fd) tr = (r, tr @ evs) \<and>
      scoped_events m contents o1 name fd r evs"
    using unlink_untouched [OF assms(2)]
    by (cases r) (auto simp: unlink_unless_committed_def unlink_temp_def scoped_events_def body_events_def opens_temp_def)
qed

lemma scoped_failed:
  assumes "scoped_events m contents o1 name fd (Inl e) evs" "name \<noteq> fm_name m" "failed_tries m tries"
  shows "atomic_outcome m contents o1 (Inl e) (tries @ [opens_temp m name fd] @ evs)"
  using assms failed_tries_untouched [OF assms(3)]
  by (auto simp: atomic_outcome_def scoped_events_def body_events_def cleaned_def opens_temp_def)

lemma scoped_committed:
  assumes body: "scoped_events m contents o1 name fd (Inr x) evs" and name: "name \<noteq> fm_name m" and tries: "failed_tries m tries"
    and fin: "list_all (works_on (fm_parent m)) evs'" "r = Inr () \<or> wo_durability o1 = FsyncFileAndParent"
  shows "atomic_outcome m contents o1 r (tries @ [opens_temp m name fd] @ evs @ evs')"
proof -
  obtain ws checks where shape: "evs = ws @ checks @ [(RenameAt (fm_parent m) name (fm_parent m) (fm_name m), RUnit (Inr ()))]"
    "list_all (works_on fd) ws" "written fd ws = contents" "untouched m checks" "target_checked m o1 checks"
    using body by (auto simp: scoped_events_def body_events_def commit_events_def)
  have "replaced m contents o1 (tries @ [opens_temp m name fd] @ evs @ evs')"
    unfolding replaced_def using failed_tries_untouched [OF tries] works_on_untouched [OF shape(2)] shape fin name
    by (intro exI [of _ tries] exI [of _ name] exI [of _ fd] exI [of _ ws] exI [of _ checks] exI [of _ evs']) (simp add: opens_temp_def)
  then show ?thesis using fin by (simp add: atomic_outcome_def)
qed

lemma write_truncate_traces:
  assumes k: "counts_writes k" and m: "\<not> prefix temp_prefix (fm_name m)"
  shows "traces (write_truncate k m contents o1) (atomic_outcome m contents o1)"
proof -
  have fin: "traces (if wo_durability o1 = FsyncFileAndParent then sync_fd k (fm_parent m) path msg else eret ())
      (\<lambda>r evs. list_all (works_on (fm_parent m)) evs \<and> (r = Inr () \<or> wo_durability o1 = FsyncFileAndParent))" for path msg
    unfolding sync_fd_def by (auto intro!: traces_ret traces_weaken [OF traces_try(3)])
  have inner: "traces (ebind (unlink_unless_committed k (fm_parent m) name (commit_body k m contents o1 name fd))
        (\<lambda>_. if wo_durability o1 = FsyncFileAndParent then sync_fd k (fm_parent m) path msg else eret ()))
      (\<lambda>r evs. \<forall>tries. failed_tries m tries \<longrightarrow> atomic_outcome m contents o1 r (tries @ [opens_temp m name fd] @ evs))"
    if name: "name \<noteq> fm_name m" for name fd path msg
    by (rule traces_bind [OF scoped_traces [OF k name] fin]) (auto intro: scoped_failed [OF _ name, simplified] scoped_committed [OF _ name, simplified])
  show ?thesis unfolding traces_def
  proof
    fix tr
    obtain r evs where temp: "temp_attempts k (fm_parent m) (fm_display m) 32 tr = (r, tr @ evs)" "case r of Inl e \<Rightarrow> failed_tries m evs
        | Inr (name, fd) \<Rightarrow> prefix temp_prefix name \<and> (\<exists>tries. evs = tries @ [opens_temp m name fd] \<and> failed_tries m tries)"
      using create_temp_traces [of k m "fm_display m" 32] unfolding traces_def by blast
    show "\<exists>r evs. write_truncate k m contents o1 tr = (r, tr @ evs) \<and> atomic_outcome m contents o1 r evs"
    proof (cases r)
      case (Inl e)
      then show ?thesis using temp failed_tries_untouched
        by (auto simp: write_truncate_def Let_def create_sibling_temp_def ebind_def atomic_outcome_def cleaned_def)
    next
      case (Inr x)
      then obtain name fd tries where x: "r = Inr (name, fd)" "prefix temp_prefix name" "evs = tries @ [opens_temp m name fd]" "failed_tries m tries"
        using temp(2) by (cases x) auto
      then have "name \<noteq> fm_name m" using m by auto
      from inner [OF this, of fd "fm_display m" "''failed to sync anchored parent directory''"] obtain r' evs' where
        "ebind (unlink_unless_committed k (fm_parent m) name (commit_body k m contents o1 name fd))
          (\<lambda>_. if wo_durability o1 = FsyncFileAndParent then sync_fd k (fm_parent m) (fm_display m) ''failed to sync anchored parent directory'' else eret ())
          (tr @ evs) = (r', (tr @ evs) @ evs')" "atomic_outcome m contents o1 r' (tries @ [opens_temp m name fd] @ evs')"
        using x(4) unfolding traces_def by blast
      then have "write_truncate k m contents o1 tr = (r', tr @ (evs @ evs'))" "atomic_outcome m contents o1 r' (evs @ evs')"
        using temp(1) x by (simp_all add: write_truncate_def Let_def create_sibling_temp_def ebind_def [of "temp_attempts _ _ _ _"] commit_body_def)
      then show ?thesis by blast
    qed
  qed
qed

section \<open>Confinement\<close>

text \<open>
  A call is confined when it goes through known descriptors with single names that are not the
  parent and are not followed as links, or through the kernel's own resolution beneath a known descriptor.
\<close>

definition simple_name :: "string \<Rightarrow> bool" where
  "simple_name n \<longleftrightarrow> CHR ''/'' \<notin> set n \<and> n \<noteq> ''..'' \<and> n \<noteq> []"

fun confined_call :: "nat set \<Rightarrow> io_call \<Rightarrow> bool" where
  "confined_call K (OpenAt d n fs) \<longleftrightarrow> d \<in> K \<and> simple_name n \<and> (O_NOFOLLOW \<in> set fs \<or> n = ''.'')"
| "confined_call K (OpenAt2 d p fs b) \<longleftrightarrow> d \<in> K \<and> \<not> prefix ''/'' p \<and> ''..'' \<notin> set (split_slash p)"
| "confined_call K (DupFd d) \<longleftrightarrow> d \<in> K"
| "confined_call K (FStat d) \<longleftrightarrow> d \<in> K"
| "confined_call K (FStatAt d n) \<longleftrightarrow> d \<in> K \<and> simple_name n"
| "confined_call K (MkdirAt d n) \<longleftrightarrow> d \<in> K \<and> simple_name n"
| "confined_call K (PRead d i n) \<longleftrightarrow> d \<in> K"
| "confined_call K (WriteFd d s) \<longleftrightarrow> d \<in> K"
| "confined_call K (FSync d) \<longleftrightarrow> d \<in> K"
| "confined_call K (LinkAt d n d' n') \<longleftrightarrow> d \<in> K \<and> d' \<in> K \<and> simple_name n \<and> simple_name n'"
| "confined_call K (RenameAt d n d' n') \<longleftrightarrow> d \<in> K \<and> d' \<in> K \<and> simple_name n \<and> simple_name n'"
| "confined_call K (UnlinkAt d n) \<longleftrightarrow> d \<in> K \<and> simple_name n"
| "confined_call K (OpenPath p fs) \<longleftrightarrow> False"
| "confined_call K (LStat p) \<longleftrightarrow> False"

fun gained :: "io_answer \<Rightarrow> nat set" where
  "gained (RFd (Inr fd)) = {fd}"
| "gained _ = {}"

definition known :: "nat set \<Rightarrow> io_trace \<Rightarrow> nat set" where
  "known K evs = K \<union> (\<Union>(c, a) \<in> set evs. gained a)"

fun confined :: "nat set \<Rightarrow> io_trace \<Rightarrow> bool" where
  "confined K [] \<longleftrightarrow> True"
| "confined K ((c, a) # evs) \<longleftrightarrow> confined_call K c \<and> confined (K \<union> gained a) evs"

lemma known_simps [simp]: "known K [] = K" "known K ((c, a) # evs) = known (K \<union> gained a) evs" "known K (xs @ ys) = known (known K xs) ys"
  by (auto simp: known_def)

lemma known_mono: "K \<subseteq> known K evs"
  by (auto simp: known_def)

lemma confined_append [simp]: "confined K (xs @ ys) \<longleftrightarrow> confined K xs \<and> confined (known K xs) ys"
  by (induction K xs rule: confined.induct) auto

text \<open>\<open>stays N m D\<close>: knowing \<open>N\<close>, every run of \<open>m\<close> is confined and knows \<open>D x\<close> when it returns \<open>x\<close>.\<close>

definition stays :: "nat set \<Rightarrow> (io_trace, 'a) eff \<Rightarrow> ('a \<Rightarrow> nat set) \<Rightarrow> bool" where
  "stays N m D \<longleftrightarrow> (\<forall>K. N \<subseteq> K \<longrightarrow> traces m (\<lambda>r evs. confined K evs \<and> (\<forall>x. r = Inr x \<longrightarrow> D x \<subseteq> known K evs)))"

lemma staysD:
  assumes "stays N m D" "N \<subseteq> K"
  shows "\<exists>r evs. m tr = (r, tr @ evs) \<and> confined K evs \<and> (\<forall>x. r = Inr x \<longrightarrow> D x \<subseteq> known K evs)"
  using assms by (simp add: stays_def traces_def)

lemma stays_bind [intro]:
  assumes "stays N m D" "\<And>x. stays (N \<union> D x) (f x) D'"
  shows "stays N (ebind m f) D'"
  unfolding stays_def traces_def
proof (intro allI impI)
  fix K tr assume K: "N \<subseteq> K"
  from staysD [OF assms(1) K, of tr] obtain r evs where r: "m tr = (r, tr @ evs)" "confined K evs" and D: "\<forall>x. r = Inr x \<longrightarrow> D x \<subseteq> known K evs"
    by (elim exE conjE)
  show "\<exists>r evs. ebind m f tr = (r, tr @ evs) \<and> confined K evs \<and> (\<forall>x. r = Inr x \<longrightarrow> D' x \<subseteq> known K evs)"
  proof (cases r)
    case (Inl e)
    then show ?thesis using r by (simp add: ebind_def)
  next
    case (Inr x)
    have "N \<union> D x \<subseteq> known K evs" using D Inr K known_mono [of K evs] by simp
    from staysD [OF assms(2) this, of "tr @ evs"] obtain r' evs' where
      "f x (tr @ evs) = (r', (tr @ evs) @ evs')" "confined (known K evs) evs'" "\<forall>x. r' = Inr x \<longrightarrow> D' x \<subseteq> known (known K evs) evs'"
      by (elim exE conjE)
    then show ?thesis using r Inr by (intro exI [of _ r'] exI [of _ "evs @ evs'"]) (simp add: ebind_def)
  qed
qed

lemma stays_simple [intro]:
  "D x \<subseteq> N \<Longrightarrow> stays N (eret x) D" "stays N (efail e) D" "(\<And>x. r = Inr x \<Longrightarrow> D x \<subseteq> N) \<Longrightarrow> stays N (elift r) D" "(\<And>s. D (g s) \<subseteq> N) \<Longrightarrow> stays N (egets g) D"
  unfolding stays_def traces_def eff_apply by simp_all blast+

lemma confined_call_mono: "confined_call N c \<Longrightarrow> N \<subseteq> K \<Longrightarrow> confined_call K c"
  by (cases c) auto

fun fd_set :: "errno + nat \<Rightarrow> nat set" where
  "fd_set (Inr fd) = {fd}"
| "fd_set (Inl n) = {}"

lemma gained_RFd [simp]: "gained (RFd a) = fd_set a"
  by (cases a) auto

lemma stays_call:
  assumes "confined_call N c"
  shows "stays N (call_fd k c) fd_set" "stays N (call_stat k c) (\<lambda>_. {})" "stays N (call_unit k c) (\<lambda>_. {})"
  using confined_call_mono [OF assms] by (simp_all add: stays_def traces_def call_fd_def call_stat_def call_unit_def)

lemma stays_try_call:
  assumes "stays N m D" "\<And>x. D' x \<subseteq> N \<union> D (Inr x)"
  shows "stays N (try_call m err) D'"
  unfolding try_call_def
proof (rule stays_bind [OF assms(1)])
  fix r show "stays (N \<union> D r) (case r of Inl n \<Rightarrow> efail (err n) | Inr x \<Rightarrow> eret x) D'"
    using assms(2) by (cases r) (simp_all add: stays_simple)
qed

lemma stays_try:
  assumes "confined_call N c"
  shows "stays N (try_call (call_fd k c) err) (\<lambda>fd. {fd})" "stays N (try_call (call_stat k c) err) (\<lambda>_. {})" "stays N (try_call (call_unit k c) err) (\<lambda>_. {})"
  using stays_try_call [OF stays_call(1) [OF assms]] stays_try_call [OF stays_call(2) [OF assms]] stays_try_call [OF stays_call(3) [OF assms]] by simp_all

lemma stays_weaken:
  assumes "stays N m D" "N \<subseteq> N'" "\<And>x. D' x \<subseteq> D x"
  shows "stays N' m D'"
  unfolding stays_def
proof (intro allI impI)
  fix K assume "N' \<subseteq> K"
  then have "traces m (\<lambda>r evs. confined K evs \<and> (\<forall>x. r = Inr x \<longrightarrow> D x \<subseteq> known K evs))" using assms(1,2) by (simp add: stays_def)
  then show "traces m (\<lambda>r evs. confined K evs \<and> (\<forall>x. r = Inr x \<longrightarrow> D' x \<subseteq> known K evs))"
    by (rule traces_weaken) (use assms(3) in blast)
qed

lemma split_slash_nonempty [simp]: "split_slash rel \<noteq> []"
  by (cases rel) auto

lemma split_slash_names: "n \<in> set (split_slash rel) \<Longrightarrow> CHR ''/'' \<notin> set n"
proof (induction rel arbitrary: n)
  case (Cons c rel)
  have "hd (split_slash rel) \<in> set (split_slash rel)" by (rule hd_in_set) simp
  moreover have "set (tl (split_slash rel)) \<subseteq> set (split_slash rel)" by (cases "split_slash rel") auto
  ultimately show ?case using Cons by (auto split: if_splits)
qed simp

lemma component_simple:
  assumes "validate_anchored_path p = Inr ()" "c \<in> set (path_components (ap_relative_path p))"
  shows "simple_name c"
  using assms split_slash_names [of c] by (auto simp: validate_anchored_path_def path_components_def simple_name_def Let_def split: if_splits)

lemma temp_name_simple: "simple_name (temp_name k tr)"
proof -
  have "CHR ''/'' \<notin> set (show_nat n)" for n using show_nat_digits [of n] by (auto simp: list_all_iff is_digit_def)
  then show ?thesis by (simp add: simple_name_def temp_name_def)
qed

lemma open_directories_stays:
  "\<forall>c \<in> set cs. simple_name c \<Longrightarrow> d \<in> N \<Longrightarrow> stays N (open_directories k root rel d cs) (\<lambda>fd. {fd})"
proof (induction cs arbitrary: d N)
  case (Cons c cs)
  then show ?case by (auto intro!: stays_bind [OF stays_try(1)])
qed auto

lemma openat_fallback_stays:
  assumes "validate_anchored_path p = Inr ()" "fd \<in> N"
  shows "stays N (openat_fallback k fd root p flags) (\<lambda>fd. {fd})"
proof -
  define cs where "cs = path_components (ap_relative_path p)"
  have cs: "\<forall>c \<in> set cs. simple_name c" using component_simple [OF assms(1)] by (simp add: cs_def)
  then have names: "cs \<noteq> [] \<Longrightarrow> simple_name (last cs)" "\<forall>c \<in> set (butlast cs). simple_name c" by (auto dest: in_set_butlastD)
  show ?thesis unfolding openat_fallback_def Let_def cs_def [symmetric] using assms(2) names
    by (auto intro!: stays_bind [OF stays_try(1)] stays_bind [OF open_directories_stays] stays_try(1) simp: simple_name_def)
qed

lemma openat2_stays:
  assumes "validate_anchored_path p = Inr ()" "fd \<in> N"
  shows "stays N (openat2_attempts k fd root p flags n) (\<lambda>fd. {fd})"
proof (induction n)
  case (Suc n)
  have "confined_call N (OpenAt2 fd (ap_relative_path p) flags (ap_reject_all p))"
    using assms by (auto simp: validate_anchored_path_def Let_def split: if_splits)
  then show ?case using Suc assms
    by (auto intro!: stays_bind [OF stays_call(1)] openat_fallback_stays stays_weaken [OF Suc] split: sum.split)
qed auto

lemma require_regular_stays: "fd \<in> N \<Longrightarrow> stays N (require_regular_file k fd root rel) (\<lambda>_. {})"
  unfolding require_regular_file_def by (auto intro!: stays_bind [OF stays_try(2)])

lemma open_beneath_stays:
  assumes "fd \<in> N"
  shows "stays N (open_beneath k fd root p flags) (\<lambda>fd. {fd})"
proof (cases "validate_anchored_path p")
  case (Inr x)
  then show ?thesis using openat2_stays [OF _ assms, of p] by (simp add: open_beneath_def)
qed (auto simp: open_beneath_def)

lemma open_file_stays: "stays {da_fd a} (open_file k a p) (\<lambda>f. {ro_fd f})"
  unfolding open_file_def by (auto intro!: stays_bind [OF open_beneath_stays] stays_bind [OF require_regular_stays])

lemma open_parent_stays:
  assumes "simple_name c" "d \<in> N"
  shows "stays N (open_parent k root rel create d c) (\<lambda>fd. {fd})"
proof -
  have ok: "confined_call N' (OpenAt d c [O_RDONLY, O_DIRECTORY, O_NOFOLLOW, O_CLOEXEC])" "confined_call N' (MkdirAt d c)" "confined_call N' (FStatAt d c)"
    if "N \<subseteq> N'" for N' using assms that by auto
  have reopen: "stays N' (if r = Inl ENOENT \<and> create
      then ebind (call_unit k (MkdirAt d c)) (\<lambda>made. case made of
          Inl n \<Rightarrow> if n \<noteq> EEXIST then efail (err n) else call_fd k (OpenAt d c [O_RDONLY, O_DIRECTORY, O_NOFOLLOW, O_CLOEXEC])
        | Inr _ \<Rightarrow> call_fd k (OpenAt d c [O_RDONLY, O_DIRECTORY, O_NOFOLLOW, O_CLOEXEC]))
      else eret r) fd_set" if "N \<subseteq> N'" "fd_set r \<subseteq> N'" for N' r err
    using ok that by (auto intro!: stays_bind [OF stays_call(3)] stays_call(1) split: sum.split)
  have failed: "stays N' (ebind (call_stat k (FStatAt d c)) (\<lambda>s. case s of Inl _ \<Rightarrow> efail e2 | Inr st \<Rightarrow> if st_mode st = SymbolicLink then efail e1 else efail e2))
      (\<lambda>fd. {fd})" if "N \<subseteq> N'" for N' e1 e2
    using ok that by (auto intro!: stays_bind [OF stays_call(2)] split: sum.split)
  show ?thesis unfolding open_parent_def Let_def
    by (rule stays_bind [OF stays_call(1) [OF ok(1)]], simp, rule stays_bind [OF reopen])
       (auto split: sum.split intro!: stays_simple failed)
qed

lemma open_parents_stays:
  "\<forall>c \<in> set cs. simple_name c \<Longrightarrow> d \<in> N \<Longrightarrow> stays N (open_parents k root rel create d cs) (\<lambda>fd. {fd})"
proof (induction cs arbitrary: d N)
  case (Cons c cs)
  then show ?case by (auto intro!: stays_bind [OF open_parent_stays])
qed auto

lemma begin_file_mutation_stays:
  "stays {da_fd a} (begin_file_mutation k a rel create) (\<lambda>m. {fm_parent m})"
proof -
  define p where "p = \<lparr>ap_relative_path = rel, ap_reject_all = True\<rparr>"
  define cs where "cs = path_components rel"
  show ?thesis
  proof (cases "validate_anchored_path p")
    case (Inr x)
    have cs: "\<forall>c \<in> set cs. simple_name c" using component_simple [of p] Inr by (simp add: cs_def p_def)
    then have names: "cs \<noteq> [] \<Longrightarrow> simple_name (last cs)" "\<forall>c \<in> set (butlast cs). simple_name c" by (auto dest: in_set_butlastD)
    have snapshot: "stays N (snapshot_target k root rel fd) (\<lambda>_. {})" if "fd \<in> N" for N root fd
      unfolding snapshot_target_def using that by (auto intro!: stays_bind [OF stays_try(2)] stays_bind [OF require_regular_stays])
    have inspected: "stays N (ebind (call_fd k (OpenAt parent (last cs) [O_PATH, O_CLOEXEC, O_NOFOLLOW])) (\<lambda>r. case r of
          Inl n \<Rightarrow> if n \<noteq> ENOENT then efail (err n) else eret (mutation False no_identity)
        | Inr fd \<Rightarrow> ebind (snapshot_target k root rel fd) (\<lambda>i. eret (mutation True i)))) (\<lambda>m. {fm_parent m})"
      if "parent \<in> N" "cs \<noteq> []" "\<And>b i. fm_parent (mutation b i) = parent" for N parent mutation root err
    proof (rule stays_bind [OF stays_call(1)])
      fix r show "stays (N \<union> fd_set r) (case r of Inl n \<Rightarrow> if n \<noteq> ENOENT then efail (err n) else eret (mutation False no_identity)
          | Inr fd \<Rightarrow> ebind (snapshot_target k root rel fd) (\<lambda>i. eret (mutation True i))) (\<lambda>m. {fm_parent m})"
        using that by (cases r) (simp_all add: stays_simple stays_bind [OF snapshot])
    qed (use that names in simp)
    show ?thesis
    proof (cases "cs = []")
      case False
      have dup: "stays {da_fd a} (try_call (call_fd k (OpenAt (da_fd a) ''.'' [O_RDONLY, O_DIRECTORY, O_CLOEXEC])) err) (\<lambda>fd. {fd})" for err
        by (rule stays_try(1)) (simp add: simple_name_def)
      have parents: "stays N (open_parents k root rel create d (butlast cs)) (\<lambda>fd. {fd})" if "d \<in> N" for N d root
        by (rule open_parents_stays [OF names(2) that])
      show ?thesis unfolding begin_file_mutation_def Let_def cs_def [symmetric] p_def [symmetric] Inr ebind_run if_not_P [OF False]
        by (rule stays_bind [OF dup], rule stays_bind [OF parents], simp, rule inspected [OF _ False]) simp_all
    qed (auto simp: begin_file_mutation_def Let_def cs_def [symmetric] p_def [symmetric] Inr)
  qed (auto simp: begin_file_mutation_def Let_def p_def [symmetric])
qed

lemma write_all_stays: "fd \<in> N \<Longrightarrow> stays N (write_all k fd contents path) (\<lambda>_. {})"
  unfolding stays_def traces_def
proof (intro allI impI)
  fix K tr assume "fd \<in> N" "N \<subseteq> K"
  then show "\<exists>r evs. write_all k fd contents path tr = (r, tr @ evs) \<and> confined K evs \<and> (\<forall>x. r = Inr x \<longrightarrow> {} \<subseteq> known K evs)"
  proof (induction k fd contents path tr rule: write_all.induct)
    case (1 k fd contents path tr)
    define c where "c = WriteFd fd (take (nat i64_max) contents)"
    show ?case
    proof (cases "contents = [] \<or> (\<forall>n. kn_count k tr c \<noteq> Inr n \<or> n = 0)")
      case True
      then show ?thesis using 1(2,3) by (subst write_all.simps) (auto simp: c_def Let_def split: sum.split)
    next
      case False
      then obtain n where n: "kn_count k tr c = Inr n" "n \<noteq> 0" "contents \<noteq> []" by auto
      obtain r evs where "write_all k fd (drop n contents) path (tr @ [(c, RCount (Inr n))]) = (r, (tr @ [(c, RCount (Inr n))]) @ evs)" "confined K evs"
        using 1(1) [of c "Inr n" _ n] 1(2,3) n by (auto simp: c_def)
      moreover from this have "write_all k fd contents path tr = (r, tr @ (c, RCount (Inr n)) # evs)"
        using n by (subst write_all.simps) (simp add: c_def [symmetric] Let_def)
      moreover have "confined_call K c" using 1(2,3) by (auto simp: c_def)
      ultimately show ?thesis by (intro exI [of _ r] exI [of _ "(c, RCount (Inr n)) # evs"]) simp
    qed
  qed
qed

lemma stays_bind_where:
  assumes "stays N m D" "\<And>tr x tr'. m tr = (Inr x, tr') \<Longrightarrow> P x" "\<And>x. P x \<Longrightarrow> stays (N \<union> D x) (f x) D'"
  shows "stays N (ebind m f) D'"
proof -
  have "ebind m f = ebind m (\<lambda>x. if P x then f x else efail err_cancelled)"
    using assms(2) by (auto simp: ebind_def fun_eq_iff split: prod.splits sum.splits)
  moreover have "stays N (ebind m (\<lambda>x. if P x then f x else efail err_cancelled)) D'"
    by (rule stays_bind [OF assms(1)]) (simp add: assms(3) stays_simple)
  ultimately show ?thesis by simp
qed

lemma temp_attempts_simple: "temp_attempts k parent path n tr = (Inr x, tr') \<Longrightarrow> simple_name (fst x)"
  by (induction n arbitrary: tr) (auto simp: ebind_def call_fd_def eff_apply temp_name_simple split: sum.splits if_splits)

lemma temp_attempts_stays: "parent \<in> N \<Longrightarrow> stays N (temp_attempts k parent path n) (\<lambda>x. {snd x})"
proof (induction n)
  case (Suc n)
  have next_name: "stays N (ebind (call_fd k (OpenAt parent name temp_flags)) (\<lambda>r. case r of Inr fd \<Rightarrow> eret (name, fd)
      | Inl n' \<Rightarrow> if n' \<noteq> EEXIST then efail (err n') else temp_attempts k parent path n)) (\<lambda>x. {snd x})" if "simple_name name" for name err
  proof (rule stays_bind [OF stays_call(1)])
    fix r show "stays (N \<union> fd_set r) (case r of Inr fd \<Rightarrow> eret (name, fd)
        | Inl n' \<Rightarrow> if n' \<noteq> EEXIST then efail (err n') else temp_attempts k parent path n) (\<lambda>x. {snd x})"
      using Suc by (cases r) (simp_all add: stays_simple)
  qed (use that Suc.prems in \<open>simp add: temp_flags_def\<close>)
  show ?case unfolding temp_attempts.simps
    by (rule stays_bind_where [where P = simple_name and D = "\<lambda>_. {}"]) (auto simp: eff_apply temp_name_simple intro!: next_name)
qed (simp add: stays_simple)

lemma write_and_sync_stays: "fd \<in> N \<Longrightarrow> stays N (write_and_sync_temp k fd contents path dur) (\<lambda>_. {})"
  unfolding write_and_sync_temp_def sync_fd_def by (rule stays_bind [OF write_all_stays]) (simp_all add: stays_simple stays_try)

lemma check_target_stays: "fm_parent m \<in> N \<Longrightarrow> simple_name (fm_name m) \<Longrightarrow> stays N (check_target k m o1) (\<lambda>_. {})"
proof -
  assume m: "fm_parent m \<in> N" "simple_name (fm_name m)"
  have checked: "stays N (ebind (try_call (call_stat k (FStat fd)) err) (\<lambda>s. if \<not> same_identity i s then efail e
      else (case wo_verify o1 of None \<Rightarrow> eret () | Some verify \<Rightarrow> elift (verify (fingerprint_from_stat s))))) (\<lambda>_. {})" if "fd \<in> N" for N fd err i e
    using that by (auto intro!: stays_bind [OF stays_try(2)] split: option.split)
  show ?thesis unfolding check_target_def Let_def
    by (rule stays_bind [OF stays_call(1)], use m in simp) (auto simp: stays_simple checked split: sum.split)
qed

lemma unlinks_stays:
  assumes "stays N body (\<lambda>_. {})" "parent \<in> N" "simple_name name"
  shows "stays N (unlink_unless_committed k parent name body) (\<lambda>_. {})" "stays N (unlink_always k parent name body) (\<lambda>_. {})"
proof -
  have "\<exists>r evs. unlink_unless_committed k parent name body tr = (r, tr @ evs) \<and> confined K evs" "\<exists>r evs. unlink_always k parent name body tr = (r, tr @ evs) \<and> confined K evs"
    if K: "N \<subseteq> K" for K tr
  proof -
    from staysD [OF assms(1) K, of tr] obtain r evs where r: "body tr = (r, tr @ evs)" "confined K evs" by blast
    have "parent \<in> known K evs" using assms(2) K known_mono [of K evs] by blast
    then have ok: "confined_call (known K evs) (UnlinkAt parent name)" using assms(3) by simp
    show "\<exists>r evs. unlink_unless_committed k parent name body tr = (r, tr @ evs) \<and> confined K evs"
      using r ok by (cases r) (simp_all add: unlink_unless_committed_def unlink_temp_def)
    show "\<exists>r evs. unlink_always k parent name body tr = (r, tr @ evs) \<and> confined K evs"
      using r ok by (simp add: unlink_always_def unlink_temp_def)
  qed
  then show "stays N (unlink_unless_committed k parent name body) (\<lambda>_. {})" "stays N (unlink_always k parent name body) (\<lambda>_. {})"
    by (simp_all add: stays_def traces_def)
qed

lemma write_append_stays: "fm_parent m \<in> N \<Longrightarrow> simple_name (fm_name m) \<Longrightarrow> stays N (write_append k m contents) (\<lambda>_. {})"
  unfolding write_append_def Let_def
  by (rule stays_bind [OF stays_try(1)], simp, rule stays_bind [OF require_regular_stays], simp,
      rule stays_bind [where D = "\<lambda>_. {}"], auto intro!: stays_bind [OF stays_try(2)] write_all_stays)

lemma write_exclusive_stays:
  assumes "fm_parent m \<in> N" "simple_name (fm_name m)"
  shows "stays N (write_exclusive k m contents o1) (\<lambda>_. {})"
proof -
  have body: "stays N (ebind (write_and_sync_temp k fd contents path dur) (\<lambda>_. try_call (call_unit k (LinkAt (fm_parent m) name (fm_parent m) (fm_name m))) err)) (\<lambda>_. {})"
    if "fd \<in> N" "simple_name name" "fm_parent m \<in> N" for N fd name path dur err
    using that assms(2) by (intro stays_bind [OF write_and_sync_stays]) (auto intro!: stays_try)
  show ?thesis unfolding write_exclusive_def Let_def create_sibling_temp_def using assms
    by (auto intro!: stays_bind_where [OF temp_attempts_stays temp_attempts_simple] unlinks_stays(2) body)
qed

lemma write_truncate_stays:
  assumes "fm_parent m \<in> N" "simple_name (fm_name m)"
  shows "stays N (write_truncate k m contents o1) (\<lambda>_. {})"
proof -
  have body: "stays N (commit_body k m contents o1 name fd) (\<lambda>_. {})" if "fd \<in> N" "simple_name name" "fm_parent m \<in> N" for N fd name
    unfolding commit_body_def using that assms(2)
    by (intro stays_bind [OF write_and_sync_stays] stays_bind [OF check_target_stays]) (auto intro!: stays_try)
  have rest: "stays N (ebind (unlink_unless_committed k (fm_parent m) name (commit_body k m contents o1 name fd))
      (\<lambda>_. if wo_durability o1 = FsyncFileAndParent then sync_fd k (fm_parent m) path msg else eret ())) (\<lambda>_. {})"
    if "fd \<in> N" "simple_name name" "fm_parent m \<in> N" for N fd name path msg
    using that by (intro stays_bind [OF unlinks_stays(1) [OF body]]) (auto simp: sync_fd_def intro!: stays_try)
  show ?thesis unfolding write_truncate_def Let_def create_sibling_temp_def commit_body_def [symmetric]
  proof (rule stays_bind_where [OF temp_attempts_stays temp_attempts_simple])
    fix x :: "string \<times> nat" assume "simple_name (fst x)"
    then show "stays (N \<union> {snd x}) (case x of (name, fd) \<Rightarrow> ebind (unlink_unless_committed k (fm_parent m) name (commit_body k m contents o1 name fd))
        (\<lambda>_. if wo_durability o1 = FsyncFileAndParent then sync_fd k (fm_parent m) (fm_display m) ''failed to sync anchored parent directory'' else eret ())) (\<lambda>_. {})"
      unfolding case_prod_unfold using assms by (intro rest) simp_all
  qed (use assms in simp)
qed

lemma write_text_stays: "fm_parent m \<in> N \<Longrightarrow> simple_name (fm_name m) \<Longrightarrow> stays N (write_text k m contents o1) (\<lambda>_. {})"
  unfolding write_text_def
  by (rule stays_bind [where D = "\<lambda>_. {}"]) (auto simp: write_append_stays write_exclusive_stays write_truncate_stays split: write_mode.split)

lemma begin_file_mutation_simple:
  assumes "begin_file_mutation k a rel create tr = (Inr m, tr')"
  shows "simple_name (fm_name m)"
proof -
  define p where "p = \<lparr>ap_relative_path = rel, ap_reject_all = True\<rparr>"
  have valid: "validate_anchored_path p = Inr ()" using assms
    by (cases "validate_anchored_path p") (auto simp: begin_file_mutation_def Let_def p_def eff_apply)
  have "path_components rel \<noteq> []" using assms valid by (auto simp: begin_file_mutation_def Let_def p_def eff_apply split: if_splits)
  moreover from this have "fm_name m = last (path_components rel)" using assms
    by (clarsimp simp: begin_file_mutation_def Let_def ebind_eq_Inr_iff eff_apply split: if_splits)
       (auto simp: ebind_eq_Inr_iff eff_apply split: sum.splits if_splits)
  ultimately show ?thesis using component_simple [OF valid, of "last (path_components rel)"] by (simp add: p_def)
qed

section \<open>Properties\<close>

text \<open>
  C21: A replacement of a file is all or nothing, whatever the kernel answers and whatever other processes do between
  the calls. Either the whole content was written to a fresh temporary file, then the target was seen with the identity
  the mutation began with (or absent, if it did not exist) and the verifier accepted that very status, and only then one rename put the file in place; or the target
  was not created, replaced, opened for writing or removed, an error is returned and, if a temporary file was created, the last call asks the kernel to unlink it (an answer the code ignores, so the file remains if the kernel refuses). After
  a rename the only error is a failed sync of the parent directory.
\<close>

theorem truncate_is_atomic:
  assumes "counts_writes k" and "wo_mode o1 = Truncate" and "\<not> prefix temp_prefix (fm_name m)"
  shows "\<exists>r evs. write_text k m contents o1 tr = (r, tr @ evs) \<and> atomic_outcome m contents o1 r evs"
proof (cases "check_write_options m o1")
  case (Inl e)
  then show ?thesis using assms(2) by (simp add: write_text_def eff_apply atomic_outcome_def cleaned_def)
next
  case (Inr x)
  then show ?thesis using write_truncate_traces [OF assms(1,3)] assms(2) by (simp add: write_text_def traces_def)
qed

definition demo_kernel :: kernel where
  "demo_kernel = \<lparr>kn_fd = (\<lambda>tr c. case c of OpenAt d n fs \<Rightarrow> if n = ''a.txt'' then Inl ENOENT else Inr 4 | _ \<Rightarrow> Inr 3),
     kn_stat = (\<lambda>tr c. Inr \<lparr>st_dev = 1, st_ino = 1, st_mode = RegularFile, st_size = 0, st_mtim = (0, 0), st_ctim = (0, 0)\<rparr>),
     kn_count = (\<lambda>tr c. case c of WriteFd fd d \<Rightarrow> Inr (length d) | _ \<Rightarrow> Inl (EOther 0)), kn_bytes = (\<lambda>tr c. Inr []), kn_unit = (\<lambda>tr c. Inr ()),
     kn_number = (\<lambda>n. 1), kn_message = (\<lambda>n. ''failed''), kn_pid = 1, kn_random = length\<rparr>"

definition demo_mutation :: file_mutation where
  "demo_mutation = \<lparr>fm_parent = 3, fm_name = ''a.txt'', fm_display = ''/w/a.txt'', fm_existed = False, fm_identity = no_identity\<rparr>"

definition demo_write :: write_options where
  "demo_write = \<lparr>wo_mode = Truncate, wo_create_parents = False, wo_atomic = True, wo_durability = FsyncFile, wo_verify = None\<rparr>"

theorem truncate_is_atomic_witness:
  "counts_writes demo_kernel \<and> (\<exists>r evs. write_text demo_kernel demo_mutation ''hi'' demo_write [] = (r, [] @ evs) \<and>
     atomic_outcome demo_mutation ''hi'' demo_write r evs)"
proof -
  have "counts_writes demo_kernel" by (simp add: counts_writes_def demo_kernel_def)
  moreover have "wo_mode demo_write = Truncate" "\<not> prefix temp_prefix (fm_name demo_mutation)"
    by (simp_all add: demo_write_def demo_mutation_def temp_prefix_def)
  ultimately show ?thesis using truncate_is_atomic [of demo_kernel demo_write demo_mutation "''hi''" "[]"] by blast
qed

text \<open>
  C22: A directory authority confines its users. Whatever the kernel answers, every system call of opening a file, of beginning a mutation and of writing
  through it goes through the descriptor of the authority or one obtained from it, with a single path component that is neither the
  parent nor followed as a link, or with a relative path without parent components that the kernel itself resolves beneath the descriptor.
\<close>

theorem authority_confined:
  "(\<exists>r evs. open_file k a p tr = (r, tr @ evs) \<and> confined {da_fd a} evs) \<and>
   (\<exists>r evs. begin_file_mutation k a rel create tr = (r, tr @ evs) \<and> confined {da_fd a} evs \<and>
     (case r of Inl e \<Rightarrow> True | Inr m \<Rightarrow> \<exists>r' evs'. write_text k m contents o1 (tr @ evs) = (r', tr @ evs @ evs') \<and> confined (known {da_fd a} evs) evs'))"
proof
  from staysD [OF open_file_stays subset_refl, of k a p tr] show "\<exists>r evs. open_file k a p tr = (r, tr @ evs) \<and> confined {da_fd a} evs"
    by (elim exE conjE) (intro exI conjI)
  from staysD [OF begin_file_mutation_stays subset_refl, of k a rel create tr] obtain r evs where
    r: "begin_file_mutation k a rel create tr = (r, tr @ evs)" "confined {da_fd a} evs" and parent: "\<forall>m. r = Inr m \<longrightarrow> {fm_parent m} \<subseteq> known {da_fd a} evs"
    by (elim exE conjE)
  have "case r of Inl e \<Rightarrow> True | Inr m \<Rightarrow> \<exists>r' evs'. write_text k m contents o1 (tr @ evs) = (r', tr @ evs @ evs') \<and> confined (known {da_fd a} evs) evs'"
  proof (cases r)
    case (Inr m)
    have "simple_name (fm_name m)" using r(1) Inr by (simp add: begin_file_mutation_simple)
    moreover have "fm_parent m \<in> known {da_fd a} evs" using parent Inr by simp
    ultimately have "stays (known {da_fd a} evs) (write_text k m contents o1) (\<lambda>_. {})" by (simp add: write_text_stays)
    from staysD [OF this subset_refl, of "tr @ evs"] Inr show ?thesis by auto
  qed simp
  then show "\<exists>r evs. begin_file_mutation k a rel create tr = (r, tr @ evs) \<and> confined {da_fd a} evs \<and>
     (case r of Inl e \<Rightarrow> True | Inr m \<Rightarrow> \<exists>r' evs'. write_text k m contents o1 (tr @ evs) = (r', tr @ evs @ evs') \<and> confined (known {da_fd a} evs) evs')"
    using r by (intro exI conjI)
qed

end
