(* ===== verification/Io_File.thy ===== *)
theory Io_File
  imports Io_Authority Core_Str
begin

text \<open>
  \<^verbatim>\<open>oran-io/file.cpp\<close> and the descriptor part of \<^verbatim>\<open>fingerprint.cpp\<close>: bounded reads of whole files, line windows
  and byte ranges, with the fingerprint taken before and after. Counts of bytes and lines are naturals: they stay below the largest
  file offset, which every chunk checks.
\<close>

section \<open>Data\<close>

record line_span =
  ls_start_line :: nat
  ls_line_count :: nat

record byte_span =
  bs_offset_bytes :: nat
  bs_length_bytes :: nat

record file_range =
  fr_lines :: "line_span option"
  fr_bytes :: "byte_span option"

record read_options =
  rd_max_bytes :: nat
  rd_range :: "file_range option"

record read_result =
  rr_text :: string
  rr_fingerprint :: file_fingerprint
  rr_start_line :: nat
  rr_end_line :: nat
  rr_returned_bytes :: nat
  rr_truncated :: bool

definition empty_fingerprint :: file_fingerprint where
  "empty_fingerprint = \<lparr>fp_size_bytes = 0, fp_mtime_ns = 0, fp_sha256 = None\<rparr>"

definition empty_result :: read_result where
  "empty_result = \<lparr>rr_text = [], rr_fingerprint = empty_fingerprint, rr_start_line = 1, rr_end_line = 0, rr_returned_bytes = 0, rr_truncated = False\<rparr>"

definition chunk_size :: nat where
  "chunk_size = 8192"

definition mid_read_retry_threshold :: nat where
  "mid_read_retry_threshold = 64 * 1024"

section \<open>Bytes\<close>

definition descriptor_error :: "kernel \<Rightarrow> string \<Rightarrow> read_only_file \<Rightarrow> errno \<Rightarrow> core_error" where
  "descriptor_error k msg f n = with_ctx ''detail'' (kn_message k n) (with_ctx ''errno'' (show_int (kn_number k n)) (with_ctx ''path'' (ro_display f) (err_io msg)))"

definition read_chunk :: "kernel \<Rightarrow> read_only_file \<Rightarrow> nat \<Rightarrow> nat \<Rightarrow> (io_trace, string) eff" where
  "read_chunk k f offset n =
     (if int offset > i64_max then efail (with_ctx ''path'' (ro_display f) (err_invalid_argument ''file read offset is too large''))
      else ebind (try_call (call_bytes k (PRead (ro_fd f) (int offset) n)) (descriptor_error k ''failed while reading file'' f)) (\<lambda>d. eret (take n d)))"

definition is_continuation :: "char \<Rightarrow> bool" where
  "is_continuation c \<longleftrightarrow> 0x80 \<le> byte_of c \<and> byte_of c < 0xC0"

definition sequence_length :: "nat \<Rightarrow> nat" where
  "sequence_length b = (if b < 0x80 then 1 else if b < 0xC2 then 0 else if b < 0xE0 then 2 else if b < 0xF0 then 3 else if b < 0xF5 then 4 else 0)"

function align_end :: "string \<Rightarrow> nat" where
  "align_end p = (case p of [] \<Rightarrow> 0 | b # _ \<Rightarrow> let n = sequence_length (byte_of b) in
     if n = 0 \<or> length p < n then 0 else n + align_end (drop n p))"
  by auto
termination by (relation "measure length") auto

declare align_end.simps [simp del]

definition align_to_utf8_boundaries :: "string \<Rightarrow> nat \<times> nat" where
  "align_to_utf8_boundaries buffer = (let head = length (takeWhile is_continuation buffer) in (head, head + align_end (drop head buffer)))"

definition aligned :: "string \<Rightarrow> string" where
  "aligned buffer = (case align_to_utf8_boundaries buffer of (head, stop) \<Rightarrow> take (stop - head) (drop head buffer))"

definition validate_range :: "file_range \<Rightarrow> unit result" where
  "validate_range r = (case (fr_lines r, fr_bytes r) of
     (Some l, None) \<Rightarrow> if ls_start_line l = 0 \<or> ls_line_count l = 0 then Inl (err_invalid_argument ''line range fields must be non-zero'') else Inr ()
   | (None, Some b) \<Rightarrow> if bs_offset_bytes b = 0 \<or> bs_length_bytes b = 0 then Inl (err_invalid_argument ''byte range fields must be non-zero'') else Inr ()
   | _ \<Rightarrow> Inl (err_invalid_argument ''FileRange must specify exactly one of lines or bytes''))"

definition newline :: char where
  "newline = CHR 0x0A"

definition count_line_span :: "string \<Rightarrow> nat" where
  "count_line_span t = (if t = [] then 0 else length (filter (\<lambda>c. c = newline) t) + (if last t = newline then 0 else 1))"

function read_bytes_loop :: "kernel \<Rightarrow> read_only_file \<Rightarrow> nat \<Rightarrow> nat \<Rightarrow> string \<Rightarrow> io_trace \<Rightarrow> string result \<times> io_trace" where
  "read_bytes_loop k f offset len t tr =
     (if len \<le> length t then (Inr t, tr)
      else case read_chunk k f (offset + length t) (min chunk_size (len - length t)) tr of
        (Inl e, tr') \<Rightarrow> (Inl e, tr')
      | (Inr d, tr') \<Rightarrow> if d = [] then (Inr t, tr') else read_bytes_loop k f offset len (t @ d) tr')"
  by pat_completeness auto
termination
proof (relation "measure (\<lambda>(k, f, offset, len, t, tr). len - length t)", goal_cases)
  case (2 k f offset len t tr p r tr')
  then show ?case by (cases tr') auto
qed auto

declare read_bytes_loop.simps [simp del]

definition read_bytes :: "kernel \<Rightarrow> read_only_file \<Rightarrow> nat \<Rightarrow> nat \<Rightarrow> (io_trace, string) eff" where
  "read_bytes k f offset len = read_bytes_loop k f offset len []"

definition read_whole :: "kernel \<Rightarrow> read_only_file \<Rightarrow> nat \<Rightarrow> nat \<Rightarrow> (io_trace, read_result) eff" where
  "read_whole k f file_size max_bytes = ebind (read_bytes k f 0 (min file_size max_bytes)) (\<lambda>raw.
     let truncated = file_size > max_bytes; t = (if truncated \<and> raw \<noteq> [] then aligned raw else raw) in
     eret (empty_result\<lparr>rr_text := t, rr_truncated := truncated, rr_returned_bytes := length t, rr_start_line := 1, rr_end_line := count_line_span t\<rparr>))"

definition read_bytes_range :: "kernel \<Rightarrow> read_only_file \<Rightarrow> byte_span \<Rightarrow> nat \<Rightarrow> (io_trace, read_result) eff" where
  "read_bytes_range k f b max_bytes = ebind (read_bytes k f (bs_offset_bytes b) (min (bs_length_bytes b) max_bytes)) (\<lambda>raw.
     let t = (if raw \<noteq> [] then aligned raw else raw) in
     eret (empty_result\<lparr>rr_text := t, rr_truncated := (max_bytes < bs_length_bytes b \<and> length raw \<ge> max_bytes), rr_returned_bytes := length t\<rparr>))"

section \<open>Line windows\<close>

record line_scan =
  sc_text :: string
  sc_truncated :: bool
  sc_end_line :: nat
  sc_current_line :: nat
  sc_emitted :: nat

text \<open>One character of the inner loop; the loop stops at the first character that does not fit.\<close>

definition scan_char :: "line_span \<Rightarrow> nat \<Rightarrow> char \<Rightarrow> line_scan \<Rightarrow> line_scan" where
  "scan_char l max_bytes ch s =
     (if sc_truncated s then s
      else let in_range = (sc_current_line s \<ge> ls_start_line l \<and> sc_emitted s < ls_line_count l) in
        if in_range \<and> length (sc_text s) \<ge> max_bytes then s\<lparr>sc_truncated := True\<rparr>
        else let s1 = (if in_range then s\<lparr>sc_text := sc_text s @ [ch]\<rparr> else s) in
          if ch = newline
          then let s2 = (if in_range then s1\<lparr>sc_emitted := sc_emitted s1 + 1, sc_end_line := ls_start_line l + sc_emitted s1\<rparr> else s1) in
            s2\<lparr>sc_current_line := sc_current_line s2 + 1\<rparr>
          else s1)"

function scan_lines :: "kernel \<Rightarrow> read_only_file \<Rightarrow> line_span \<Rightarrow> nat \<Rightarrow> nat \<Rightarrow> line_scan \<Rightarrow> io_trace \<Rightarrow> line_scan result \<times> io_trace" where
  "scan_lines k f l max_bytes offset s tr =
     (if ls_line_count l \<le> sc_emitted s then (Inr s, tr)
      else case read_chunk k f offset chunk_size tr of
        (Inl e, tr') \<Rightarrow> (Inl e, tr')
      | (Inr d, tr') \<Rightarrow>
          if d = [] then (Inr s, tr')
          else let s' = fold (scan_char l max_bytes) d s in
            if sc_truncated s' then (Inr s', tr') else scan_lines k f l max_bytes (offset + length d) s' tr')"
  by pat_completeness auto
termination
proof (relation "measure (\<lambda>(k, f, l, max_bytes, offset, s, tr). nat (i64_max + 1 - int offset))", goal_cases)
  case (2 k f l max_bytes offset s tr p r d)
  then have "int offset \<le> i64_max" "d \<noteq> []" by (auto simp: read_chunk_def eff_apply split: if_splits)
  then show ?case by (cases d) auto
qed auto

declare scan_lines.simps [simp del]

definition start_scan :: "line_span \<Rightarrow> line_scan" where
  "start_scan l = \<lparr>sc_text = [], sc_truncated = False, sc_end_line = ls_start_line l - 1, sc_current_line = 1, sc_emitted = 0\<rparr>"

definition finish_scan :: "line_span \<Rightarrow> line_scan \<Rightarrow> read_result" where
  "finish_scan l s =
     (let partial = (sc_text s \<noteq> [] \<and> last (sc_text s) \<noteq> newline \<and> sc_emitted s < ls_line_count l);
          t = (if sc_truncated s \<and> sc_text s \<noteq> [] then aligned (sc_text s) else sc_text s) in
      empty_result\<lparr>rr_text := t, rr_truncated := sc_truncated s, rr_start_line := ls_start_line l,
        rr_end_line := (if partial then ls_start_line l + sc_emitted s else sc_end_line s), rr_returned_bytes := length t\<rparr>)"

definition read_lines :: "kernel \<Rightarrow> read_only_file \<Rightarrow> line_span \<Rightarrow> nat \<Rightarrow> (io_trace, read_result) eff" where
  "read_lines k f l max_bytes = ebind (scan_lines k f l max_bytes 0 (start_scan l)) (\<lambda>s. eret (finish_scan l s))"

section \<open>Reading a file\<close>

definition compute_file_fingerprint :: "kernel \<Rightarrow> read_only_file \<Rightarrow> (io_trace, file_fingerprint) eff" where
  "compute_file_fingerprint k f =
     ebind (try_call (call_stat k (FStat (ro_fd f))) (descriptor_error k ''failed to inspect file descriptor for fingerprint'' f)) (\<lambda>s.
       if st_mode s \<noteq> RegularFile then efail (with_ctx ''path'' (ro_display f) (err_io ''fingerprint target is not a regular file''))
       else eret (fingerprint_from_stat s))"

definition dispatch_read :: "kernel \<Rightarrow> read_only_file \<Rightarrow> read_options \<Rightarrow> file_fingerprint \<Rightarrow> (io_trace, read_result) eff" where
  "dispatch_read k f o1 fp = (case rd_range o1 of
     None \<Rightarrow> read_whole k f (unat (fp_size_bytes fp)) (rd_max_bytes o1)
   | Some r \<Rightarrow> (case (fr_lines r, fr_bytes r) of
       (Some l, _) \<Rightarrow> read_lines k f l (rd_max_bytes o1)
     | (None, Some b) \<Rightarrow> read_bytes_range k f b (rd_max_bytes o1)
     | (None, None) \<Rightarrow> eret empty_result))"

definition check_read_options :: "read_only_file \<Rightarrow> read_options \<Rightarrow> unit result" where
  "check_read_options f o1 =
     (if rd_max_bytes o1 = 0 then Inl (with_ctx ''path'' (ro_display f) (err_invalid_argument ''max_bytes must be greater than zero''))
      else case rd_range o1 of None \<Rightarrow> Inr () | Some r \<Rightarrow> map_error (with_ctx ''path'' (ro_display f)) (validate_range r))"

definition read_file_io :: "kernel \<Rightarrow> read_only_file \<Rightarrow> read_options \<Rightarrow> (io_trace, read_result) eff" where
  "read_file_io k f o1 =
     ebind (elift (check_read_options f o1)) (\<lambda>_.
     ebind (compute_file_fingerprint k f) (\<lambda>pre.
     ebind (dispatch_read k f o1 pre) (\<lambda>res.
     ebind (compute_file_fingerprint k f) (\<lambda>post.
       if pre = post then eret (res\<lparr>rr_fingerprint := post\<rparr>)
       else if rd_range o1 \<noteq> None \<or> unat (fp_size_bytes pre) \<ge> mid_read_retry_threshold
       then efail (with_ctx ''size_after'' (show_nat (unat (fp_size_bytes post))) (with_ctx ''size_before'' (show_nat (unat (fp_size_bytes pre)))
         (with_ctx ''path'' (ro_display f) (make_error conflict_kind ''file changed during read''))))
       else ebind (dispatch_read k f o1 post) (\<lambda>res'.
         ebind (compute_file_fingerprint k f) (\<lambda>last_seen.
           if post \<noteq> last_seen then efail (with_ctx ''path'' (ro_display f) (make_error conflict_kind ''file changed during read (after retry)''))
           else eret (res'\<lparr>rr_fingerprint := last_seen\<rparr>)))))))"

definition read_text_file_ranged :: "kernel \<Rightarrow> string \<Rightarrow> read_options \<Rightarrow> (io_trace, read_result) eff" where
  "read_text_file_ranged k path o1 = ebind (open_trusted_file k path) (\<lambda>f. read_file_io k f o1)"

definition read_text_file :: "kernel \<Rightarrow> string \<Rightarrow> read_options \<Rightarrow> (io_trace, string) eff" where
  "read_text_file k path o1 = ebind (read_text_file_ranged k path o1) (\<lambda>res.
     if rr_truncated res then efail (with_ctx ''max_bytes'' (show_nat (rd_max_bytes o1)) (with_ctx ''path'' path (err_invalid_argument ''file exceeds max_bytes'')))
     else eret (rr_text res))"

definition write_text_file :: "kernel \<Rightarrow> file_mutation \<Rightarrow> string \<Rightarrow> write_options \<Rightarrow> (io_trace, unit) eff" where
  "write_text_file k m contents o1 = write_text k m contents o1"

section \<open>A file that stays the same\<close>

text \<open>
  POSIX, for a regular file nobody changes: a read gives a piece of the content at the offset, empty only at the end of the file,
  and the status does not change.
\<close>

definition serves :: "kernel \<Rightarrow> nat \<Rightarrow> string \<Rightarrow> stat \<Rightarrow> bool" where
  "serves k fd content st \<longleftrightarrow> int (length content) \<le> i64_max \<and> st_mode st = RegularFile \<and> st_size st = int (length content) \<and>
     (\<forall>tr. kn_stat k tr (FStat fd) = Inr st) \<and>
     (\<forall>tr off n. 0 < n \<longrightarrow> (\<exists>d. kn_bytes k tr (PRead fd (int off) n) = Inr d \<and> length d \<le> n \<and> prefix d (drop off content) \<and> (d = [] \<longrightarrow> length content \<le> off)))"

lemma served_chunk:
  assumes "serves k (ro_fd f) content st" "0 < n" "int off \<le> i64_max"
  obtains d tr' where "read_chunk k f off n tr = (Inr d, tr')" "length d \<le> n" "prefix d (drop off content)" "d = [] \<Longrightarrow> length content \<le> off"
proof -
  obtain d where "kn_bytes k tr (PRead (ro_fd f) (int off) n) = Inr d" "length d \<le> n" "prefix d (drop off content)" "d = [] \<longrightarrow> length content \<le> off"
    using assms(1,2) unfolding serves_def by blast
  then show ?thesis using that assms(3) by (simp add: read_chunk_def try_call_def call_bytes_def ebind_def eff_apply)
qed

lemma served_fingerprint:
  "serves k (ro_fd f) content st \<Longrightarrow> \<exists>tr'. compute_file_fingerprint k f tr = (Inr (fingerprint_from_stat st), tr')"
  by (simp add: compute_file_fingerprint_def try_call_def call_stat_def ebind_def eff_apply serves_def)

lemma prefix_drop_append: "prefix d (drop off content) \<Longrightarrow> take off content @ d = take (off + length d) content"
  by (auto simp: prefix_def take_add)

lemma read_bytes_loop_served:
  assumes "serves k (ro_fd f) content st" "t = take (length t) (drop off content)" "length t \<le> len" "off \<le> length content"
  shows "\<exists>tr'. read_bytes_loop k f off len t tr = (Inr (take len (drop off content)), tr')"
  using assms
proof (induction k f off len t tr rule: read_bytes_loop.induct)
  case (1 k f off len t tr)
  have t: "length t \<le> length content - off" using 1(3) by (metis length_drop length_take min.cobounded1)
  show ?case
  proof (cases "len \<le> length t")
    case True
    then have "t = take len (drop off content)" using 1(3,4) by simp
    then show ?thesis using True by (subst read_bytes_loop.simps) simp
  next
    case False
    define n where "n = min chunk_size (len - length t)"
    have "int (off + length t) \<le> i64_max" "0 < n" using 1(2,5) t False by (auto simp: serves_def n_def chunk_size_def)
    then obtain d tr' where d: "read_chunk k f (off + length t) n tr = (Inr d, tr')" "length d \<le> n" "prefix d (drop (off + length t) content)"
        "d = [] \<Longrightarrow> length content \<le> off + length t"
      using served_chunk [OF 1(2)] by metis
    show ?thesis
    proof (cases "d = []")
      case True
      then have "length (drop off content) \<le> length t" using d(4) t by simp
      then have "t = drop off content" "length (drop off content) \<le> len" using 1(3) False by (simp, simp)
      then show ?thesis using False True d(1) by (subst read_bytes_loop.simps) (simp add: n_def)
    next
      case False': False
      have "t @ d = take (length t + length d) (drop off content)"
        using 1(3) prefix_drop_append [of d "length t" "drop off content"] d(3) by (simp add: add.commute)
      moreover have "length (t @ d) \<le> len" using d(2) False unfolding n_def by (auto simp: min_def split: if_splits)
      ultimately have "\<exists>tr''. read_bytes_loop k f off len (t @ d) tr' = (Inr (take len (drop off content)), tr'')"
        using 1(1) [OF False d(1) [unfolded n_def, symmetric] refl False' 1(2) _ _ 1(5)] length_append [of t d] by metis
      then show ?thesis using False False' d(1) by (subst read_bytes_loop.simps) (simp add: n_def)
    qed
  qed
qed

lemma read_bytes_served:
  "serves k (ro_fd f) content st \<Longrightarrow> off \<le> length content \<Longrightarrow> \<exists>tr'. read_bytes k f off len tr = (Inr (take len (drop off content)), tr')"
  unfolding read_bytes_def by (rule read_bytes_loop_served) auto

text \<open>The offset of a byte range counts from zero, so a range from offset one leaves out the first byte.\<close>

theorem byte_range_counts_from_zero:
  assumes "serves k (ro_fd f) content st" "bs_offset_bytes b \<le> length content" "bs_length_bytes b \<le> max_bytes"
  shows "\<exists>res tr'. read_bytes_range k f b max_bytes tr = (Inr res, tr') \<and> \<not> rr_truncated res \<and>
    rr_text res = aligned (take (bs_length_bytes b) (drop (bs_offset_bytes b) content))"
proof -
  obtain tr' where "read_bytes k f (bs_offset_bytes b) (bs_length_bytes b) tr = (Inr (take (bs_length_bytes b) (drop (bs_offset_bytes b) content)), tr')"
    using read_bytes_served [OF assms(1,2)] by blast
  then show ?thesis using assms(3)
    by (auto simp: read_bytes_range_def ebind_def eff_apply Let_def empty_result_def min_def aligned_def align_to_utf8_boundaries_def align_end.simps)
qed

section \<open>Line windows are the lines\<close>

text \<open>The lines of a text with their terminators, and the window of \<open>count\<close> lines from line \<open>start\<close>.\<close>

fun lines_of :: "string \<Rightarrow> string list" where
  "lines_of [] = []"
| "lines_of (c # t) = (if c = newline then [c] # lines_of t else case lines_of t of [] \<Rightarrow> [[c]] | l # ls \<Rightarrow> (c # l) # ls)"

definition line_window :: "string \<Rightarrow> nat \<Rightarrow> nat \<Rightarrow> string" where
  "line_window t start count = concat (take count (drop (start - 1) (lines_of t)))"

text \<open>The window of a text in whose first line the scan stands: lines still to skip, lines still to take.\<close>

fun window :: "nat \<Rightarrow> nat \<Rightarrow> string \<Rightarrow> string" where
  "window skip left [] = []"
| "window (Suc skip) left (c # t) = window (if c = newline then skip else Suc skip) left t"
| "window 0 0 (c # t) = []"
| "window 0 (Suc left) (c # t) = c # window 0 (if c = newline then left else Suc left) t"

lemma lines_of_empty [simp]: "lines_of t = [] \<longleftrightarrow> t = []"
  by (cases t) (auto split: list.split)

lemma concat_lines_of [simp]: "concat (lines_of t) = t"
  by (induction t) (auto split: list.split)

lemma window_lines: "window skip left t = concat (take left (drop skip (lines_of t)))"
proof (induction skip left t rule: window.induct)
  case (2 skip left c t)
  then show ?case by (cases "lines_of t") auto
next
  case (4 left c t)
  then show ?case by (cases "lines_of t") auto
qed auto

definition scan_left :: "line_span \<Rightarrow> line_scan \<Rightarrow> nat" where
  "scan_left l s = ls_line_count l - sc_emitted s"

definition scan_skip :: "line_span \<Rightarrow> line_scan \<Rightarrow> nat" where
  "scan_skip l s = ls_start_line l - sc_current_line s"

definition newlines :: "string \<Rightarrow> nat" where
  "newlines t = length (filter (\<lambda>c. c = newline) t)"

lemma newlines_simps [simp]: "newlines [] = 0" "newlines (c # t) = (if c = newline then Suc (newlines t) else newlines t)"
  by (auto simp: newlines_def)

lemma window_none [simp]: "window skip 0 t = []"
  by (induction t arbitrary: skip) (simp, case_tac skip, auto)

lemma length_lines_of: "length (lines_of t) = newlines t + (if t = [] \<or> last t = newline then 0 else 1)"
  by (induction t) (auto split: list.split)

lemma length_lines_window: "length (lines_of (window skip left t)) \<le> left"
proof (induction skip left t rule: window.induct)
  case (4 left c t)
  then show ?case by (cases "c = newline") (auto split: list.split)
qed auto

lemma scan_truncated: "sc_truncated s \<Longrightarrow> fold (scan_char l max_bytes) t s = s"
  by (induction t) (auto simp: scan_char_def)

text \<open>The lines a scan has counted agree with the line it reports.\<close>

definition scan_ok :: "line_span \<Rightarrow> nat \<Rightarrow> line_scan \<Rightarrow> bool" where
  "scan_ok l max_bytes s \<longleftrightarrow> \<not> sc_truncated s \<and> length (sc_text s) \<le> max_bytes \<and> sc_end_line s = ls_start_line l - 1 + sc_emitted s \<and> 0 < ls_start_line l"

lemma scan_window:
  assumes "scan_ok l max_bytes s"
  defines "W \<equiv> \<lambda>t. window (scan_skip l s) (scan_left l s) t"
  shows "(max_bytes < length (sc_text s) + length (W t) \<longrightarrow>
      sc_truncated (fold (scan_char l max_bytes) t s) \<and> sc_text (fold (scan_char l max_bytes) t s) = take max_bytes (sc_text s @ W t)) \<and>
    (length (sc_text s) + length (W t) \<le> max_bytes \<longrightarrow>
      scan_ok l max_bytes (fold (scan_char l max_bytes) t s) \<and> sc_text (fold (scan_char l max_bytes) t s) = sc_text s @ W t \<and>
      sc_emitted (fold (scan_char l max_bytes) t s) = sc_emitted s + newlines (W t))"
  using assms(1) unfolding W_def
proof (induction t arbitrary: s)
  case Nil
  then show ?case by (simp add: Let_def scan_ok_def)
next
  case (Cons c t)
  define s1 where "s1 = scan_char l max_bytes c s"
  consider (skip) n where "scan_skip l s = Suc n" | (stop) "scan_skip l s = 0" "scan_left l s = 0"
    | (full) n where "scan_skip l s = 0" "scan_left l s = Suc n" "length (sc_text s) = max_bytes"
    | (take) n where "scan_skip l s = 0" "scan_left l s = Suc n" "length (sc_text s) < max_bytes"
    using Cons.prems by (cases "scan_skip l s"; cases "scan_left l s"; fastforce simp: scan_ok_def)
  then show ?case
  proof cases
    case skip
    have "scan_ok l max_bytes s1" "sc_text s1 = sc_text s" "sc_emitted s1 = sc_emitted s" "scan_left l s1 = scan_left l s"
      "scan_skip l s1 = (if c = newline then n else Suc n)"
      using skip Cons.prems by (auto simp: s1_def scan_char_def scan_ok_def scan_skip_def scan_left_def Let_def)
    then show ?thesis using Cons.IH [of s1] skip by (simp add: s1_def [symmetric])
  next
    case stop
    have "scan_ok l max_bytes s1" "sc_text s1 = sc_text s" "sc_emitted s1 = sc_emitted s" "scan_left l s1 = 0"
      using stop Cons.prems by (auto simp: s1_def scan_char_def scan_ok_def scan_skip_def scan_left_def Let_def)
    then show ?thesis using Cons.IH [of s1] stop by (simp add: s1_def [symmetric])
  next
    case full
    have "s1 = s\<lparr>sc_truncated := True\<rparr>"
      using full Cons.prems by (auto simp: s1_def scan_char_def scan_ok_def scan_skip_def scan_left_def Let_def)
    then show ?thesis using full scan_truncated [of s1] by (simp add: s1_def [symmetric] Let_def)
  next
    case take
    have "scan_ok l max_bytes s1" "sc_text s1 = sc_text s @ [c]" "sc_emitted s1 = sc_emitted s + newlines [c]" "scan_skip l s1 = 0"
      "scan_left l s1 = (if c = newline then n else Suc n)"
      using take Cons.prems by (auto simp: s1_def scan_char_def scan_ok_def scan_skip_def scan_left_def Let_def)
    then show ?thesis using Cons.IH [of s1] take by (simp add: s1_def [symmetric] Let_def)
  qed
qed

definition scan_outcome :: "line_scan \<Rightarrow> string \<times> bool \<times> nat \<times> nat" where
  "scan_outcome s = (sc_text s, sc_truncated s, sc_end_line s, sc_emitted s)"

lemma finish_scan_outcome: "scan_outcome s = scan_outcome s' \<Longrightarrow> finish_scan l s = finish_scan l s'"
  by (simp add: finish_scan_def scan_outcome_def Let_def)

lemma scan_nothing_left:
  assumes "scan_ok l max_bytes s" "scan_left l s = 0"
  shows "scan_outcome (fold (scan_char l max_bytes) t s) = scan_outcome s"
  using scan_window [OF assms(1), of t] assms by (auto simp: Let_def scan_outcome_def scan_ok_def)

lemma scan_lines_served:
  assumes "serves k (ro_fd f) content st" "scan_ok l max_bytes s" "off \<le> length content"
  shows "\<exists>s' tr'. scan_lines k f l max_bytes off s tr = (Inr s', tr') \<and> scan_outcome s' = scan_outcome (fold (scan_char l max_bytes) (drop off content) s)"
  using assms
proof (induction k f l max_bytes off s tr rule: scan_lines.induct)
  case (1 k f l max_bytes off s tr)
  show ?case
  proof (cases "ls_line_count l \<le> sc_emitted s")
    case True
    then show ?thesis using scan_nothing_left [OF 1(3)] by (subst scan_lines.simps) (simp add: scan_left_def)
  next
    case False
    have "int off \<le> i64_max" "0 < chunk_size" using 1(2,4) by (auto simp: serves_def chunk_size_def)
    then obtain d tr' where d: "read_chunk k f off chunk_size tr = (Inr d, tr')" "prefix d (drop off content)" "d = [] \<Longrightarrow> length content \<le> off"
      using served_chunk [OF 1(2)] by metis
    define s1 where "s1 = fold (scan_char l max_bytes) d s"
    have rest: "fold (scan_char l max_bytes) (drop off content) s = fold (scan_char l max_bytes) (drop (off + length d) content) s1"
    proof -
      obtain r where r: "drop off content = d @ r" using d(2) by (auto simp: prefix_def)
      then have "r = drop (off + length d) content" by (metis append_eq_conv_conj drop_drop add.commute)
      then show ?thesis using r by (simp add: s1_def)
    qed
    show ?thesis
    proof (cases "d = []")
      case True
      then show ?thesis using False d(1,3) by (subst scan_lines.simps) simp
    next
      case False': False
      have unfold: "scan_lines k f l max_bytes off s tr = (if sc_truncated s1 then (Inr s1, tr') else scan_lines k f l max_bytes (off + length d) s1 tr')"
        using False False' d(1) by (subst scan_lines.simps) (simp add: s1_def Let_def)
      show ?thesis
      proof (cases "sc_truncated s1")
        case True
        then show ?thesis using unfold rest scan_truncated [of s1] by simp
      next
        case False'': False
        then have "scan_ok l max_bytes s1" using scan_window [OF 1(3), of d] by (auto simp: s1_def Let_def split: if_splits)
        moreover have "off + length d \<le> length content" using d(2) 1(4) by (auto dest!: prefix_length_le)
        ultimately show ?thesis using 1(1) [OF False d(1) [symmetric] refl False' s1_def False''] 1(2) unfold rest False'' by simp
      qed
    qed
  qed
qed

lemma start_scan_ok: "0 < ls_start_line l \<Longrightarrow> scan_ok l max_bytes (start_scan l)"
  by (simp add: scan_ok_def start_scan_def)

text \<open>A window of lines of a file that stays the same.\<close>

lemma read_lines_served:
  assumes "serves k (ro_fd f) content st" "0 < ls_start_line l"
  defines "W \<equiv> line_window content (ls_start_line l) (ls_line_count l)"
  shows "\<exists>res tr'. read_lines k f l max_bytes tr = (Inr res, tr') \<and> rr_start_line res = ls_start_line l \<and> rr_truncated res = (max_bytes < length W) \<and>
    rr_text res = (if max_bytes < length W then aligned (take max_bytes W) else W) \<and> rr_returned_bytes res = length (rr_text res) \<and>
    (length W \<le> max_bytes \<longrightarrow> rr_end_line res + 1 = ls_start_line l + length (lines_of W))"
proof -
  obtain s' tr' where s': "scan_lines k f l max_bytes 0 (start_scan l) tr = (Inr s', tr')"
      "scan_outcome s' = scan_outcome (fold (scan_char l max_bytes) content (start_scan l))"
    using scan_lines_served [OF assms(1) start_scan_ok [OF assms(2)], where off = 0 and max_bytes = max_bytes and tr = tr] by auto
  have W: "W = window (scan_skip l (start_scan l)) (scan_left l (start_scan l)) content"
    by (simp add: W_def line_window_def window_lines scan_skip_def scan_left_def start_scan_def)
  have len: "length (lines_of W) \<le> ls_line_count l" using length_lines_window [of _ "scan_left l (start_scan l)"]
    by (simp add: W scan_left_def start_scan_def)
  have run: "read_lines k f l max_bytes tr = (Inr (finish_scan l s'), tr')" using s'(1) by (simp add: read_lines_def ebind_def eff_apply)
  note scan = scan_window [OF start_scan_ok [OF assms(2)], of max_bytes content, folded W]
  show ?thesis
  proof (cases "max_bytes < length W")
    case True
    then have "sc_truncated s'" "sc_text s' = take max_bytes W" using scan s'(2) by (auto simp: Let_def scan_outcome_def start_scan_def)
    moreover from this have "aligned (sc_text s') = sc_text s'" if "sc_text s' = []" using that by (simp add: aligned_def align_to_utf8_boundaries_def align_end.simps)
    ultimately show ?thesis using run True by (auto simp: finish_scan_def Let_def)
  next
    case False
    then have s'': "\<not> sc_truncated s'" "sc_text s' = W" "sc_emitted s' = newlines W" "sc_end_line s' = ls_start_line l - 1 + newlines W"
      using scan s'(2) by (auto simp: Let_def scan_outcome_def start_scan_def scan_ok_def)
    then show ?thesis using run False assms(2) length_lines_of [of W] len by (auto simp: finish_scan_def Let_def split: if_splits)
  qed
qed

section \<open>Alignment\<close>

lemma sequence_length_lead: "sequence_length b = lead_length b"
  by (simp add: sequence_length_def lead_length_def)

lemma align_end_fitting:
  "list_all scalar_value cps \<Longrightarrow> align_end (take n (utf8_string cps)) = length (utf8_string (fitting n cps))"
proof (induction cps arbitrary: n)
  case Nil
  then show ?case by (simp add: align_end.simps)
next
  case (Cons cp cps)
  define e where "e = utf8_encode cp"
  have e: "lead_length (byte_of (hd e)) = length e" "e \<noteq> []"
    using lead_length_utf8_encode [of cp] utf8_encode_nonempty [of cp] Cons.prems by (simp_all add: e_def hd_conv_nth)
  then obtain b bs where b: "e = b # bs" by (cases e) auto
  show ?case
  proof (cases "length e \<le> n")
    case True
    then have "take n (e @ utf8_string cps) = b # (bs @ take (n - length e) (utf8_string cps))" unfolding take_append by (simp add: b)
    then have "align_end (take n (e @ utf8_string cps)) = length e + align_end (take (n - length e) (utf8_string cps))"
      using e True by (subst align_end.simps) (simp add: b sequence_length_lead Let_def)
    then show ?thesis using Cons True by (simp add: e_def [symmetric] Let_def)
  next
    case False
    show ?thesis
    proof (cases n)
      case 0
      then show ?thesis using False by (simp add: align_end.simps e_def [symmetric] Let_def)
    next
      case (Suc m)
      then have "take n (e @ utf8_string cps) = b # take m bs" using False unfolding take_append by (simp add: b)
      then show ?thesis using e False Suc by (subst align_end.simps) (simp add: b sequence_length_lead e_def [symmetric] Let_def)
    qed
  qed
qed

lemma continuation_not_lead: "is_continuation c \<Longrightarrow> lead_length (byte_of c) = 0"
  by (simp add: is_continuation_def lead_length_def)

text \<open>On valid text the alignment of a cut is the truncation to a code point.\<close>

lemma aligned_truncate:
  assumes "is_valid_utf8 p"
  shows "aligned (take n p) = truncate_to_code_point p n"
proof -
  obtain cps where cps: "list_all scalar_value cps" "p = utf8_string cps" using assms by (auto simp: is_valid_utf8_iff)
  have "takeWhile is_continuation (take n p) = []"
  proof (cases cps)
    case (Cons cp rest)
    have "lead_length (byte_of (hd (utf8_encode cp))) \<noteq> 0" "utf8_encode cp \<noteq> []"
      using lead_length_utf8_encode [of cp] utf8_encode_nonempty [of cp] cps(1) Cons by (simp_all add: hd_conv_nth)
    then show ?thesis using continuation_not_lead Cons cps(2) by (cases "utf8_encode cp"; cases n) auto
  qed (simp add: cps(2))
  then have "aligned (take n p) = take (align_end (take n p)) (take n p)"
    by (simp add: aligned_def align_to_utf8_boundaries_def Let_def)
  also have "\<dots> = take (length (utf8_string (fitting n cps))) p"
  proof -
    have "length (utf8_string (fitting n cps)) \<le> n" using fitting_spec [of cps n] by auto
    then show ?thesis using align_end_fitting [OF cps(1)] by (simp add: cps(2) min_def)
  qed
  also have "\<dots> = utf8_string (fitting n cps)"
  proof -
    obtain j where "fitting n cps = take j cps" using fitting_spec by blast
    moreover have "utf8_string (take j cps) @ utf8_string (drop j cps) = utf8_string cps"
      by (metis append_take_drop_id concat_append map_append utf8_string_def)
    ultimately show ?thesis by (metis append_eq_conv_conj cps(2))
  qed
  finally show ?thesis by (simp add: cps(2) truncate_fitting [OF cps(1)])
qed

section \<open>Reading a file that stays the same\<close>

text \<open>The text of a bounded read and whether it was cut.\<close>

definition bounded :: "nat \<Rightarrow> string \<Rightarrow> read_result \<Rightarrow> bool" where
  "bounded max_bytes t res \<longleftrightarrow> rr_truncated res = (max_bytes < length t) \<and> rr_returned_bytes res = length (rr_text res) \<and>
     rr_text res = (if max_bytes < length t then truncate_to_code_point t max_bytes else t)"

lemma aligned_empty [simp]: "aligned [] = []"
  by (simp add: aligned_def align_to_utf8_boundaries_def align_end.simps)

lemma read_whole_served:
  assumes "serves k (ro_fd f) content st" "is_valid_utf8 content"
  shows "\<exists>res tr'. read_whole k f (length content) max_bytes tr = (Inr res, tr') \<and> bounded max_bytes content res \<and>
    rr_start_line res = 1 \<and> rr_end_line res = length (lines_of (rr_text res))"
proof -
  obtain tr' where "read_bytes k f 0 (min (length content) max_bytes) tr = (Inr (take (min (length content) max_bytes) content), tr')"
    using read_bytes_served [OF assms(1), of 0] by auto
  moreover have "take (min (length content) max_bytes) content = take max_bytes content" by (simp add: min_def)
  ultimately show ?thesis using aligned_truncate [OF assms(2), of max_bytes]
    by (auto simp: read_whole_def ebind_def eff_apply bounded_def Let_def empty_result_def count_line_span_def length_lines_of newlines_def)
qed

lemma valid_append: "is_valid_utf8 a \<Longrightarrow> is_valid_utf8 b \<Longrightarrow> is_valid_utf8 (a @ b)"
proof -
  assume "is_valid_utf8 a" "is_valid_utf8 b"
  then obtain xs ys where "list_all scalar_value xs" "a = utf8_string xs" "list_all scalar_value ys" "b = utf8_string ys" by (auto simp: is_valid_utf8_iff)
  then have "list_all scalar_value (xs @ ys)" "a @ b = utf8_string (xs @ ys)" by (auto simp: utf8_string_def)
  then show ?thesis unfolding is_valid_utf8_iff by blast
qed

lemma valid_encode: "scalar_value cp \<Longrightarrow> is_valid_utf8 (utf8_encode cp)"
  unfolding is_valid_utf8_iff by (intro exI [of _ "[cp]"]) (simp add: utf8_string_def)

lemma valid_empty [simp]: "is_valid_utf8 []"
  by (simp add: is_valid_utf8.simps)

lemma valid_concat: "list_all is_valid_utf8 ts \<Longrightarrow> is_valid_utf8 (concat ts)"
  by (induction ts) (auto intro: valid_append)

lemma encode_newline:
  assumes "scalar_value cp" "newline \<in> set (utf8_encode cp)"
  shows "utf8_encode cp = [newline]"
proof -
  have nl: "byte_of newline = 10" by (simp add: newline_def)
  then have "10 \<in> set (utf8_bytes cp)" using assms byte_of_utf8_encode [OF assms(1)] by (metis imageI list.set_map)
  then have "cp = 10" by (auto simp: utf8_bytes_def split: if_splits)
  then show ?thesis using assms(2) by (auto simp: utf8_encode_def utf8_bytes_def)
qed

lemma lines_of_append: "newline \<notin> set e \<Longrightarrow> e \<noteq> [] \<Longrightarrow> lines_of (e @ t) = (case lines_of t of [] \<Rightarrow> [e] | l # ls \<Rightarrow> (e @ l) # ls)"
proof (induction e)
  case (Cons c e)
  then show ?case by (cases "e = []") (auto split: list.split)
qed simp

lemma lines_of_valid: "list_all scalar_value cps \<Longrightarrow> list_all is_valid_utf8 (lines_of (utf8_string cps))"
proof (induction cps)
  case (Cons cp cps)
  then have cp: "scalar_value cp" and lines: "list_all is_valid_utf8 (lines_of (utf8_string cps))" by auto
  show ?case
  proof (cases "newline \<in> set (utf8_encode cp)")
    case True
    then show ?thesis using encode_newline [OF cp] valid_encode [OF cp] lines by simp
  next
    case False
    then show ?thesis using lines_of_append [OF False utf8_encode_nonempty] valid_encode [OF cp] lines
      by (auto split: list.split intro: valid_append)
  qed
qed simp

lemma window_valid:
  assumes "is_valid_utf8 content"
  shows "is_valid_utf8 (line_window content start count)"
proof -
  obtain cps where "list_all scalar_value cps" "content = utf8_string cps" using assms by (auto simp: is_valid_utf8_iff)
  then have "list_all is_valid_utf8 (lines_of content)" by (simp add: lines_of_valid)
  then have "list_all is_valid_utf8 (take count (drop (start - 1) (lines_of content)))"
    by (auto simp: list_all_iff dest: in_set_takeD in_set_dropD)
  then show ?thesis unfolding line_window_def by (rule valid_concat)
qed

text \<open>Windows that follow each other tile the file.\<close>

lemma line_windows_tile: "line_window t 1 a @ line_window t (Suc a) b = line_window t 1 (a + b)"
  by (simp add: line_window_def take_add)

lemma line_window_all: "length (lines_of t) \<le> a \<Longrightarrow> line_window t 1 a = t"
  by (simp add: line_window_def)

definition whole_read :: "nat \<Rightarrow> read_options" where
  "whole_read n = \<lparr>rd_max_bytes = n, rd_range = None\<rparr>"

definition lines_read :: "nat \<Rightarrow> nat \<Rightarrow> nat \<Rightarrow> read_options" where
  "lines_read n start count = \<lparr>rd_max_bytes = n, rd_range = Some \<lparr>fr_lines = Some \<lparr>ls_start_line = start, ls_line_count = count\<rparr>, fr_bytes = None\<rparr>\<rparr>"

lemma served_size: "serves k fd content st \<Longrightarrow> unat (fp_size_bytes (fingerprint_from_stat st)) = length content"
  by (simp add: serves_def fingerprint_from_stat_def i64_max_def unsigned_of_nat take_bit_nat_eq_self)

lemma read_file_served:
  assumes "serves k (ro_fd f) content st" "check_read_options f o1 = Inr ()"
    and "\<And>tr'. \<exists>res tr''. dispatch_read k f o1 (fingerprint_from_stat st) tr' = (Inr res, tr'') \<and> P res"
  shows "\<exists>res tr'. read_file_io k f o1 tr = (Inr (res\<lparr>rr_fingerprint := fingerprint_from_stat st\<rparr>), tr') \<and> P res"
proof -
  obtain tr1 where 1: "compute_file_fingerprint k f tr = (Inr (fingerprint_from_stat st), tr1)" using served_fingerprint [OF assms(1)] by blast
  obtain res tr2 where 2: "dispatch_read k f o1 (fingerprint_from_stat st) tr1 = (Inr res, tr2)" "P res" using assms(3) by blast
  obtain tr3 where 3: "compute_file_fingerprint k f tr2 = (Inr (fingerprint_from_stat st), tr3)" using served_fingerprint [OF assms(1)] by blast
  show ?thesis using 1 2 3 assms(2) by (auto simp: read_file_io_def ebind_def eff_apply)
qed

text \<open>
  C25: Reading a file of valid text that nobody changes. A whole read returns the text, or, when it is longer than the limit, the longest run of whole
  code points that fits, and says so; a read of lines does the same with exactly the requested lines, of which it
  reports the last; both come with the fingerprint of the file, and windows that follow each other put the file together again.
\<close>

theorem read_file_correct:
  assumes "serves k (ro_fd f) content st" and "is_valid_utf8 content" and "0 < max_bytes" and "0 < count"
  shows "(\<exists>res tr'. read_file_io k f (whole_read max_bytes) tr = (Inr res, tr') \<and> rr_fingerprint res = fingerprint_from_stat st \<and> bounded max_bytes content res) \<and>
    (\<exists>res tr'. read_file_io k f (lines_read max_bytes (Suc done_lines) count) tr = (Inr res, tr') \<and> rr_fingerprint res = fingerprint_from_stat st \<and>
       bounded max_bytes (line_window content (Suc done_lines) count) res \<and>
       (\<not> rr_truncated res \<longrightarrow> line_window content 1 done_lines @ rr_text res = line_window content 1 (done_lines + count) \<and>
          rr_end_line res = done_lines + length (lines_of (rr_text res)) \<and>
          (length (lines_of content) \<le> done_lines + count \<longrightarrow> line_window content 1 done_lines @ rr_text res = content)))"
proof
  have "\<exists>res tr''. dispatch_read k f (whole_read max_bytes) (fingerprint_from_stat st) tr' = (Inr res, tr'') \<and> bounded max_bytes content res" for tr'
    using read_whole_served [OF assms(1,2), of max_bytes tr'] by (auto simp: dispatch_read_def whole_read_def served_size [OF assms(1)])
  from read_file_served [OF assms(1) _ this, of tr] assms(3)
  show "\<exists>res tr'. read_file_io k f (whole_read max_bytes) tr = (Inr res, tr') \<and> rr_fingerprint res = fingerprint_from_stat st \<and> bounded max_bytes content res"
    by (fastforce simp: check_read_options_def whole_read_def bounded_def)
next
  define l where "l = \<lparr>ls_start_line = Suc done_lines, ls_line_count = count\<rparr>"
  define W where "W = line_window content (Suc done_lines) count"
  have "\<exists>res tr''. dispatch_read k f (lines_read max_bytes (Suc done_lines) count) (fingerprint_from_stat st) tr' = (Inr res, tr'') \<and>
      (bounded max_bytes W res \<and> (\<not> rr_truncated res \<longrightarrow> rr_end_line res = done_lines + length (lines_of W)))" for tr'
    using read_lines_served [OF assms(1), of l max_bytes tr'] aligned_truncate [OF window_valid [OF assms(2)], of max_bytes "Suc done_lines" count]
    by (auto simp: dispatch_read_def lines_read_def l_def W_def bounded_def)
  from read_file_served [OF assms(1) _ this, of tr] assms(3,4) obtain res tr' where
    res: "read_file_io k f (lines_read max_bytes (Suc done_lines) count) tr = (Inr (res\<lparr>rr_fingerprint := fingerprint_from_stat st\<rparr>), tr')"
      "bounded max_bytes W res" "\<not> rr_truncated res \<longrightarrow> rr_end_line res = done_lines + length (lines_of W)"
    by (auto simp: check_read_options_def lines_read_def validate_range_def)
  have "rr_text res = W" if "\<not> rr_truncated res" using res(2) that by (auto simp: bounded_def)
  then show "\<exists>res tr'. read_file_io k f (lines_read max_bytes (Suc done_lines) count) tr = (Inr res, tr') \<and> rr_fingerprint res = fingerprint_from_stat st \<and>
       bounded max_bytes W res \<and>
       (\<not> rr_truncated res \<longrightarrow> line_window content 1 done_lines @ rr_text res = line_window content 1 (done_lines + count) \<and>
          rr_end_line res = done_lines + length (lines_of (rr_text res)) \<and>
          (length (lines_of content) \<le> done_lines + count \<longrightarrow> line_window content 1 done_lines @ rr_text res = content))"
    using res line_windows_tile [of content done_lines count] line_window_all [of content "done_lines + count"]
    by (intro exI [of _ "res\<lparr>rr_fingerprint := fingerprint_from_stat st\<rparr>"] exI [of _ tr']) (auto simp: bounded_def W_def)
qed

definition demo_status :: stat where
  "demo_status = \<lparr>st_dev = 1, st_ino = 1, st_mode = RegularFile, st_size = 3, st_mtim = (0, 0), st_ctim = (0, 0)\<rparr>"

definition demo_file_kernel :: kernel where
  "demo_file_kernel = demo_kernel\<lparr>kn_stat := (\<lambda>tr c. Inr demo_status),
     kn_bytes := (\<lambda>tr c. case c of PRead fd off n \<Rightarrow> Inr (take n (drop (nat off) [CHR ''a'', newline, CHR ''b''])) | _ \<Rightarrow> Inr [])\<rparr>"

theorem read_file_correct_witness:
  "serves demo_file_kernel 5 [CHR ''a'', newline, CHR ''b''] demo_status \<and> is_valid_utf8 [CHR ''a'', newline, CHR ''b''] \<and>
   (\<exists>res tr'. read_file_io demo_file_kernel \<lparr>ro_fd = 5, ro_display = ''f''\<rparr> (whole_read 9) [] = (Inr res, tr') \<and> rr_text res = [CHR ''a'', newline, CHR ''b''])"
proof -
  have s: "serves demo_file_kernel (ro_fd \<lparr>ro_fd = 5, ro_display = ''f''\<rparr>) [CHR ''a'', newline, CHR ''b''] demo_status"
    by (auto simp: serves_def demo_file_kernel_def demo_status_def i64_max_def take_is_prefix)
  have v: "is_valid_utf8 [CHR ''a'', newline, CHR ''b'']"
    by (simp add: is_valid_utf8.simps sequence_at_def lead_length_def Let_def newline_def)
  show ?thesis using read_file_correct [OF s v, of 9 1 "[]" 0] s v by (auto simp: bounded_def)
qed

end
