(* ===== verification/Tool_Files.thy ===== *)
theory Tool_Files
  imports Io_File Tool_Registry
begin

text \<open>
  The file tools: \<^verbatim>\<open>version_token.hpp\<close>, \<^verbatim>\<open>file_read.cpp\<close>, \<^verbatim>\<open>file_write.cpp\<close>, \<^verbatim>\<open>file_edit.cpp\<close> and their registration in
  \<^verbatim>\<open>builtins.cpp\<close>. A handler runs against the kernel of \<open>Io_Authority\<close>. The authority handle of a resolved path is looked up
  in a table of the io layer, which is an argument.
\<close>

section \<open>Version tokens\<close>

definition hex_lower :: "string \<Rightarrow> string" where
  "hex_lower bytes = concat (map (\<lambda>c. [''0123456789abcdef'' ! (byte_of c div 16), ''0123456789abcdef'' ! (byte_of c mod 16)]) bytes)"

definition version_token :: "crypto \<Rightarrow> string \<Rightarrow> file_fingerprint \<Rightarrow> string" where
  "version_token cr path fp = ''v1:'' @ hex_lower (input_hash cr path) @ '':'' @ show_nat (unat (fp_size_bytes fp)) @ '':'' @ show_nat (unat (fp_mtime_ns fp))"

definition stale_version_error :: "string \<Rightarrow> string \<Rightarrow> string \<Rightarrow> string \<Rightarrow> core_error" where
  "stale_version_error msg path expected current = with_ctx ''fingerprint'' current (with_ctx ''expected'' expected
     (with_ctx ''reason'' ''stale_fingerprint'' (with_ctx ''path'' path (make_error conflict_kind msg))))"

definition expected_version_verifier :: "crypto \<Rightarrow> string \<Rightarrow> string \<Rightarrow> file_fingerprint \<Rightarrow> unit result" where
  "expected_version_verifier cr path expected fp =
     (if version_token cr path fp = expected then Inr () else Inl (stale_version_error ''file changed during write'' path expected (version_token cr path fp)))"

section \<open>Calls\<close>

record file_ctx =
  fx_resolved :: "resolved_tool_path option"
  fx_workspace :: bool

record file_call =
  fc_path :: path_request
  fc_execute :: "file_ctx \<Rightarrow> (io_trace, tool_output) eff"

type_synonym authorities = "nat \<Rightarrow> directory_authority option"

definition resolved_authority :: "authorities \<Rightarrow> file_ctx \<Rightarrow> (directory_authority \<times> resolved_path) option" where
  "resolved_authority auth ctx = (case fx_resolved ctx of
     None \<Rightarrow> None
   | Some tp \<Rightarrow> (case auth (rp_authority (tp_resolved tp)) of None \<Rightarrow> None | Some a \<Rightarrow> Some (a, tp_resolved tp)))"

definition optional_bool_field :: "json \<Rightarrow> string \<Rightarrow> string \<Rightarrow> bool result" where
  "optional_bool_field parsed tool field = (case json_member parsed field of
     None \<Rightarrow> Inr False
   | Some (JBool b) \<Rightarrow> Inr b
   | Some _ \<Rightarrow> Inl (err_invalid_argument (tool @ '': `'' @ field @ ''` must be a boolean'')))"

definition optional_string_field :: "json \<Rightarrow> string \<Rightarrow> string \<Rightarrow> string option result" where
  "optional_string_field parsed tool field = (case json_member parsed field of
     None \<Rightarrow> Inr None
   | Some (JString s) \<Rightarrow> Inr (Some s)
   | Some _ \<Rightarrow> Inl (err_invalid_argument (tool @ '': `'' @ field @ ''` must be a string'')))"

section \<open>FileRead\<close>

record file_read_request =
  frq_path :: string
  frq_options :: read_options

definition parse_line_field :: "json \<Rightarrow> string \<Rightarrow> 64 word \<Rightarrow> 64 word result" where
  "parse_line_field parsed field default_value = (case json_member parsed field of
     None \<Rightarrow> Inr default_value
   | Some v \<Rightarrow> parse_positive_unsigned v ''FileRead'' field)"

definition parse_options :: "json \<Rightarrow> read_options result" where
  "parse_options parsed =
     rbind (parse_file_max_bytes parsed ''FileRead'') (\<lambda>max_bytes.
     rbind (parse_line_field parsed ''offset'' 1) (\<lambda>start.
     rbind (parse_line_field parsed ''limit'' 2000) (\<lambda>count.
       if count > 2000 then Inl (err_invalid_argument ''FileRead: `limit` must be <= 2000'')
       else Inr \<lparr>rd_max_bytes = unat max_bytes, rd_range = Some \<lparr>fr_lines = Some \<lparr>ls_start_line = unat start, ls_line_count = unat count\<rparr>, fr_bytes = None\<rparr>\<rparr>)))"

definition format_header :: "string \<Rightarrow> read_result \<Rightarrow> string \<Rightarrow> string" where
  "format_header path res token = path @ '':'' @ show_nat (rr_start_line res) @ ''-'' @ show_nat (rr_end_line res) @ '' fingerprint='' @ token @
     '' bytes='' @ show_nat (rr_returned_bytes res) @ (if rr_truncated res then '' truncated'' else [])"

definition format_data_json :: "json_lib \<Rightarrow> string \<Rightarrow> read_result \<Rightarrow> string \<Rightarrow> string" where
  "format_data_json lib path res token = json_dump lib (JObject
     [(''kind'', JString ''file_read''), (''path'', JString path), (''text'', JString (rr_text res)), (''fingerprint'', JString token),
      (''start_line'', JUnsigned (of_nat (rr_start_line res))), (''end_line'', JUnsigned (of_nat (rr_end_line res))),
      (''returned_bytes'', JUnsigned (of_nat (rr_returned_bytes res))), (''truncated'', JBool (rr_truncated res))])"

definition line_limit :: "read_options \<Rightarrow> nat" where
  "line_limit o1 = (case rd_range o1 of Some r \<Rightarrow> (case fr_lines r of Some l \<Rightarrow> ls_line_count l | None \<Rightarrow> 0) | None \<Rightarrow> 0)"

definition read_hint :: "read_options \<Rightarrow> read_result \<Rightarrow> string" where
  "read_hint o1 res =
     (if rr_truncated res then ''; incomplete window: retry with a smaller limit or larger max_bytes before editing''
      else if rr_end_line res < rr_start_line res then ''; end of file''
      else if rr_end_line res - rr_start_line res + 1 < line_limit o1 then ''; end of file''
      else ''; continue with offset='' @ show_nat (rr_end_line res + 1))"

definition read_output :: "crypto \<Rightarrow> json_lib \<Rightarrow> string \<Rightarrow> read_options \<Rightarrow> read_result \<Rightarrow> tool_output" where
  "read_output cr lib path o1 res = (let token = version_token cr path (rr_fingerprint res) in
     \<lparr>out_text = format_header path res token @ read_hint o1 res @ [newline] @ rr_text res,
      out_data_json = Some (format_data_json lib path res token), out_attachments = [],
      out_usage = no_usage\<lparr>tu_bytes_read := Some (rr_returned_bytes res), tu_files_touched := Some 1, tu_truncated := rr_truncated res\<rparr>,
      out_is_error = False\<rparr>)"

definition file_read_handler :: "kernel \<Rightarrow> crypto \<Rightarrow> json_lib \<Rightarrow> authorities \<Rightarrow> file_read_request \<Rightarrow> file_ctx \<Rightarrow> (io_trace, tool_output) eff" where
  "file_read_handler k cr lib auth rq ctx = (let o1 = frq_options rq in case fx_resolved ctx of
     Some tp \<Rightarrow> (case auth (rp_authority (tp_resolved tp)) of
         None \<Rightarrow> efail (err_internal ''FileRead: resolved workspace path is missing authority'')
       | Some a \<Rightarrow> ebind (open_file k a \<lparr>ap_relative_path = rp_authority_relative (tp_resolved tp), ap_reject_all = False\<rparr>) (\<lambda>f.
           ebind (read_file_io k f o1) (\<lambda>res. eret (read_output cr lib (rp_absolute (tp_resolved tp)) o1 res))))
   | None \<Rightarrow>
       if fx_workspace ctx then efail (err_internal ''FileRead: workspace dispatch did not provide a resolved authority'')
       else ebind (read_text_file_ranged k (frq_path rq) o1) (\<lambda>res. eret (read_output cr lib (frq_path rq) o1 res)))"

definition prepare_file_read :: "kernel \<Rightarrow> crypto \<Rightarrow> json_lib \<Rightarrow> authorities \<Rightarrow> string \<Rightarrow> file_call result" where
  "prepare_file_read k cr lib auth input_json =
     rbind (parse_input_object lib input_json ''FileRead'' [''path'', ''offset'', ''limit'', ''max_bytes'', ''allow_outside_workspace'']) (\<lambda>parsed.
     rbind (require_path_field parsed ''FileRead'') (\<lambda>path.
     rbind (parse_options parsed) (\<lambda>o1.
     rbind (optional_bool_field parsed ''FileRead'' ''allow_outside_workspace'') (\<lambda>outside.
       Inr \<lparr>fc_path = \<lparr>pr_path = path, pr_intent = IntentRead, pr_create_parents = False, pr_allow_outside = outside\<rparr>,
            fc_execute = file_read_handler k cr lib auth \<lparr>frq_path = path, frq_options = o1\<rparr>\<rparr>))))"

section \<open>FileWrite\<close>

record file_write_request =
  fwr_content :: string
  fwr_options :: write_options
  fwr_expected_version :: "string option"

text \<open>The version check before a write; what cannot be fingerprinted is stale.\<close>

definition check_expected_version :: "kernel \<Rightarrow> crypto \<Rightarrow> string \<Rightarrow> string \<Rightarrow> string \<Rightarrow> (io_trace, file_fingerprint) eff \<Rightarrow> (io_trace, unit) eff" where
  "check_expected_version k cr tool path expected fingerprint =
     ebind (emap_error (\<lambda>e. with_ctx ''detail'' (err_message e) (with_ctx ''reason'' ''stale_fingerprint'' (with_ctx ''path'' path
         (make_error conflict_kind (tool @ '': expected_version cannot be verified''))))) fingerprint) (\<lambda>pre.
       let current = version_token cr path pre in
       if expected \<noteq> current then efail (stale_version_error (tool @ '': file has changed since the expected version'') path expected current) else eret ())"

definition file_write_handler :: "kernel \<Rightarrow> crypto \<Rightarrow> authorities \<Rightarrow> file_write_request \<Rightarrow> file_ctx \<Rightarrow> (io_trace, tool_output) eff" where
  "file_write_handler k cr auth rq ctx = (case resolved_authority auth ctx of
     None \<Rightarrow> efail (err_internal ''FileWrite requires a resolved workspace authority'')
   | Some (a, rp) \<Rightarrow>
       let path = rp_absolute rp; byte_count = length (fwr_content rq); o1 = fwr_options rq in
       ebind (begin_file_mutation k a (rp_authority_relative rp) (wo_create_parents o1)) (\<lambda>m.
       ebind (case fwr_expected_version rq of
           None \<Rightarrow> eret ()
         | Some expected \<Rightarrow> check_expected_version k cr ''FileWrite'' path expected (ebind (open_existing k m) (compute_file_fingerprint k))) (\<lambda>_.
       ebind (write_text_file k m (fwr_content rq)
           (case fwr_expected_version rq of
              Some expected \<Rightarrow> if wo_atomic o1 then o1\<lparr>wo_verify := Some (expected_version_verifier cr path expected)\<rparr> else o1
            | None \<Rightarrow> o1)) (\<lambda>_.
         eret \<lparr>out_text = ''wrote '' @ show_nat byte_count @ '' bytes to '' @ path, out_data_json = None, out_attachments = [],
           out_usage = no_usage\<lparr>tu_bytes_written := Some byte_count, tu_files_touched := Some 1\<rparr>, out_is_error = False\<rparr>))))"

definition parse_write_mode :: "json \<Rightarrow> write_mode result" where
  "parse_write_mode parsed = (case json_member parsed ''mode'' of
     None \<Rightarrow> Inr Truncate
   | Some (JString t) \<Rightarrow>
       if t = ''truncate'' then Inr Truncate else if t = ''append'' then Inr Append else if t = ''fail_if_exists'' then Inr FailIfExists
       else Inl (with_ctx ''value'' t (err_invalid_argument ''FileWrite: `mode` must be one of truncate|append|fail_if_exists''))
   | Some _ \<Rightarrow> Inl (err_invalid_argument ''FileWrite: `mode` must be a string''))"

definition prepare_file_write :: "kernel \<Rightarrow> crypto \<Rightarrow> json_lib \<Rightarrow> authorities \<Rightarrow> string \<Rightarrow> file_call result" where
  "prepare_file_write k cr lib auth input_json =
     rbind (parse_input_object lib input_json ''FileWrite'' [''path'', ''content'', ''mode'', ''create_parents'', ''max_bytes'', ''expected_version'']) (\<lambda>parsed.
     rbind (require_path_field parsed ''FileWrite'') (\<lambda>path.
     rbind (require_string_field parsed ''FileWrite'' ''content'') (\<lambda>content.
     rbind (parse_file_max_bytes parsed ''FileWrite'') (\<lambda>max_bytes.
     rbind (parse_write_mode parsed) (\<lambda>mode.
     rbind (optional_bool_field parsed ''FileWrite'' ''create_parents'') (\<lambda>create.
     rbind (optional_string_field parsed ''FileWrite'' ''expected_version'') (\<lambda>expected.
       if unat max_bytes < length content
       then Inl (with_ctx ''max_bytes'' (show_nat (unat max_bytes)) (with_ctx ''content_bytes'' (show_nat (length content)) (with_ctx ''path'' path
         (err_invalid_argument ''FileWrite: `content` exceeds max_bytes''))))
       else Inr \<lparr>fc_path = \<lparr>pr_path = path, pr_intent = IntentWrite, pr_create_parents = create, pr_allow_outside = False\<rparr>,
         fc_execute = file_write_handler k cr auth \<lparr>fwr_content = content,
           fwr_options = \<lparr>wo_mode = mode, wo_create_parents = create, wo_atomic = (mode = Truncate), wo_durability = RenameOnly, wo_verify = None\<rparr>,
           fwr_expected_version = expected\<rparr>\<rparr>)))))))"

section \<open>FileEdit\<close>

record file_edit_request =
  fe_old_string :: string
  fe_new_string :: string
  fe_replace_all :: bool
  fe_max_bytes :: nat
  fe_expected_version :: "string option"

text \<open>\<^verbatim>\<open>std::string_view::find\<close> from a position.\<close>

function find_from :: "string \<Rightarrow> string \<Rightarrow> nat \<Rightarrow> nat option" where
  "find_from haystack needle pos =
     (if length haystack < pos + length needle then None
      else if prefix needle (drop pos haystack) then Some pos
      else find_from haystack needle (Suc pos))"
  by auto
termination by (relation "measure (\<lambda>(h, n, pos). Suc (length h) - pos)") auto

declare find_from.simps [simp del]

text \<open>The scan for occurrences; with an empty needle it does not end, which is the value \<open>None\<close>.\<close>

partial_function (option) occurrences_loop :: "string \<Rightarrow> string \<Rightarrow> nat \<Rightarrow> nat list \<Rightarrow> nat list option" where
  "occurrences_loop haystack needle pos positions = (case find_from haystack needle pos of
     None \<Rightarrow> Some positions
   | Some p \<Rightarrow> occurrences_loop haystack needle (p + length needle) (positions @ [p]))"

definition find_occurrences :: "string \<Rightarrow> string \<Rightarrow> nat list option" where
  "find_occurrences haystack needle = occurrences_loop haystack needle 0 []"

definition replacement_size :: "64 word \<Rightarrow> 64 word \<Rightarrow> 64 word \<Rightarrow> 64 word \<Rightarrow> 64 word result" where
  "replacement_size src_size old_size new_size replacement_count =
     (if new_size \<le> old_size then Inr (src_size - (old_size - new_size) * replacement_count)
      else let delta = new_size - old_size; available = - 1 - src_size in
        if replacement_count > available div delta then Inl (err_invalid_argument ''FileEdit: replacement output is too large'')
        else Inr (src_size + delta * replacement_count))"

fun replacements_loop :: "string \<Rightarrow> string \<Rightarrow> string \<Rightarrow> nat list \<Rightarrow> nat \<Rightarrow> string" where
  "replacements_loop source old_string new_string [] cursor = drop cursor source"
| "replacements_loop source old_string new_string (pos # ps) cursor =
     take (pos - cursor) (drop cursor source) @ new_string @ replacements_loop source old_string new_string ps (pos + length old_string)"

definition apply_replacements :: "string \<Rightarrow> string \<Rightarrow> string \<Rightarrow> nat list \<Rightarrow> string" where
  "apply_replacements source old_string new_string positions = replacements_loop source old_string new_string positions 0"

definition edit_contents :: "file_edit_request \<Rightarrow> string \<Rightarrow> string \<Rightarrow> (string \<times> nat) result" where
  "edit_contents rq path contents =
     (let old = fe_old_string rq; new = fe_new_string rq; positions = the (find_occurrences contents old) in
      if positions = [] then Inl (with_ctx ''path'' path (err_not_found ''FileEdit: `old_string` does not occur in the file''))
      else if 1 < length positions \<and> \<not> fe_replace_all rq
      then Inl (with_ctx ''match_count'' (show_nat (length positions)) (with_ctx ''path'' path
        (make_error conflict_kind ''FileEdit: `old_string` is not unique; pass `replace_all` to apply to every match'')))
      else rbind (map_error (with_ctx ''path'' path)
          (replacement_size (of_nat (length contents)) (of_nat (length old)) (of_nat (length new)) (of_nat (length positions)))) (\<lambda>n.
        if fe_max_bytes rq < unat n
        then Inl (with_ctx ''max_bytes'' (show_nat (fe_max_bytes rq)) (with_ctx ''output_bytes'' (show_nat (unat n)) (with_ctx ''path'' path
          (err_invalid_argument ''FileEdit: output exceeds max_bytes''))))
        else Inr (apply_replacements contents old new positions, length positions)))"

definition edit_options :: "crypto \<Rightarrow> string \<Rightarrow> string option \<Rightarrow> write_options" where
  "edit_options cr path expected = \<lparr>wo_mode = Truncate, wo_create_parents = False, wo_atomic = True, wo_durability = RenameOnly,
     wo_verify = map_option (expected_version_verifier cr path) expected\<rparr>"

definition edit_output :: "string \<Rightarrow> string \<Rightarrow> string \<Rightarrow> nat \<Rightarrow> tool_output" where
  "edit_output path contents new_text applied =
     \<lparr>out_text = ''edited '' @ path @ '': '' @ show_nat applied @ '' replacement'' @ (if applied = 1 then [] else ''s''), out_data_json = None,
      out_attachments = [], out_usage = no_usage\<lparr>tu_bytes_read := Some (length contents), tu_bytes_written := Some (length new_text),
        tu_files_touched := Some 1, tu_match_count := Some (of_nat applied)\<rparr>, out_is_error = False\<rparr>"

definition file_edit_handler :: "kernel \<Rightarrow> crypto \<Rightarrow> authorities \<Rightarrow> file_edit_request \<Rightarrow> file_ctx \<Rightarrow> (io_trace, tool_output) eff" where
  "file_edit_handler k cr auth rq ctx = (case resolved_authority auth ctx of
     None \<Rightarrow> efail (err_internal ''FileEdit requires a resolved workspace authority'')
   | Some (a, rp) \<Rightarrow>
       let path = rp_absolute rp in
       ebind (begin_file_mutation k a (rp_authority_relative rp) False) (\<lambda>m.
       ebind (open_existing k m) (\<lambda>f.
       ebind (case fe_expected_version rq of
           None \<Rightarrow> eret ()
         | Some expected \<Rightarrow> check_expected_version k cr ''FileEdit'' path expected (compute_file_fingerprint k f)) (\<lambda>_.
       ebind (read_file_io k f \<lparr>rd_max_bytes = fe_max_bytes rq, rd_range = None\<rparr>) (\<lambda>res.
         if rr_truncated res
         then efail (with_ctx ''max_bytes'' (show_nat (fe_max_bytes rq)) (with_ctx ''path'' path (err_invalid_argument ''file exceeds max_bytes'')))
         else ebind (elift (edit_contents rq path (rr_text res))) (\<lambda>(new_text, applied).
           ebind (write_text_file k m new_text (edit_options cr path (fe_expected_version rq))) (\<lambda>_.
             eret (edit_output path (rr_text res) new_text applied))))))))"

definition prepare_file_edit :: "kernel \<Rightarrow> crypto \<Rightarrow> json_lib \<Rightarrow> authorities \<Rightarrow> string \<Rightarrow> file_call result" where
  "prepare_file_edit k cr lib auth input_json =
     rbind (parse_input_object lib input_json ''FileEdit'' [''path'', ''old_string'', ''new_string'', ''replace_all'', ''max_bytes'', ''expected_version'']) (\<lambda>parsed.
     rbind (require_path_field parsed ''FileEdit'') (\<lambda>path.
     rbind (require_string_field parsed ''FileEdit'' ''old_string'') (\<lambda>old.
     rbind (require_string_field parsed ''FileEdit'' ''new_string'') (\<lambda>new.
     rbind (optional_bool_field parsed ''FileEdit'' ''replace_all'') (\<lambda>replace_all.
     rbind (optional_string_field parsed ''FileEdit'' ''expected_version'') (\<lambda>expected.
     rbind (parse_file_max_bytes parsed ''FileEdit'') (\<lambda>max_bytes.
       if old = [] then Inl (err_invalid_argument ''FileEdit: `old_string` must be non-empty'')
       else if old = new then Inl (err_invalid_argument ''FileEdit: `old_string` and `new_string` are identical'')
       else Inr \<lparr>fc_path = \<lparr>pr_path = path, pr_intent = IntentWrite, pr_create_parents = False, pr_allow_outside = False\<rparr>,
         fc_execute = file_edit_handler k cr auth \<lparr>fe_old_string = old, fe_new_string = new, fe_replace_all = replace_all,
           fe_max_bytes = unat max_bytes, fe_expected_version = expected\<rparr>\<rparr>)))))))"

section \<open>Registration\<close>

definition file_read_schema :: string where
  \<open>file_read_schema =
     ''{"type":"object","properties":{"path":{"type":"string","minLength":1,"description":"Absolute or work'' @
     ''space-relative file path."},"offset":{"type":"integer","minimum":1,"default":1,"description":"First '' @
     ''line to read, 1-based. Use the returned continuation offset for the next window."},"limit":{"type":"'' @
     ''integer","minimum":1,"maximum":2000,"default":2000,"description":"Maximum lines to read."},"max_byte'' @
     ''s":{"type":"integer","minimum":1,"maximum":16777216,"default":16777216,"description":"Source UTF-8 b'' @
     ''yte cap for this window; separate tool-output limits may shorten the result."},"allow_outside_worksp'' @
     ''ace":{"type":"boolean","default":false,"description":"Request an outside-root read through approval.'' @
     '' This flag does not grant access."}},"required":["path"],"additionalProperties":false}''\<close>

definition file_read_description :: string where
  \<open>file_read_description =
     ''Inspect a UTF-8 text file before answering questions about it or editing it. Reads bounded line wind'' @
     ''ows, not directories, images or PDFs. Returns a metadata header followed by exact file text; the hea'' @
     ''der is not file content. Follow its continuation offset as needed. If the window or tool output is t'' @
     ''runcated, read a smaller relevant window before editing. Copy the fingerprint into expected_version '' @
     ''for a guarded edit or write.''\<close>

definition file_write_schema :: string where
  \<open>file_write_schema =
     ''{"type":"object","properties":{"path":{"type":"string","minLength":1,"description":"Absolute or work'' @
     ''space-relative file path."},"content":{"type":"string","description":"Complete UTF-8 file contents f'' @
     ''or truncate or fail_if_exists; only the added text for append. Empty is allowed. No diff markers or '' @
     ''read metadata."},"mode":{"type":"string","enum":["truncate","append","fail_if_exists"],"default":"tr'' @
     ''uncate","description":"truncate replaces the whole file; append adds content; fail_if_exists creates'' @
     '' only if absent."},"create_parents":{"type":"boolean","default":false,"description":"Create missing '' @
     ''parent directories."},"max_bytes":{"type":"integer","minimum":1,"maximum":16777216,"default":1677721'' @
     ''6,"description":"UTF-8 byte cap for supplied content, not the final size of an appended file."},"exp'' @
     ''ected_version":{"type":"string","description":"Opaque fingerprint copied from FileRead of this exist'' @
     ''ing file. Rejects a changed or missing file; omit when creating a new file."}},"required":["path","c'' @
     ''ontent"],"additionalProperties":false}''\<close>

definition file_write_description :: string where
  \<open>file_write_description =
     ''Create a UTF-8 text file, append text, or replace its complete contents. Prefer FileEdit for targete'' @
     ''d changes. The default truncate mode overwrites existing content: read existing files first and pass'' @
     '' their fingerprint as expected_version. For new files, use fail_if_exists to avoid overwriting an ex'' @
     ''isting file. On a version conflict, read and reconcile current content before retrying. Returns the '' @
     ''written byte count; it does not validate the resulting program.''\<close>

definition file_edit_schema :: string where
  \<open>file_edit_schema =
     ''{"type":"object","properties":{"path":{"type":"string","minLength":1,"description":"Absolute or work'' @
     ''space-relative file path."},"old_string":{"type":"string","minLength":1,"description":"Exact file te'' @
     ''xt copied from a read, including whitespace, without the metadata header. Include enough context to '' @
     ''select the intended occurrence."},"new_string":{"type":"string","description":"Replacement text; emp'' @
     ''ty deletes the match. Must differ from old_string."},"replace_all":{"type":"boolean","default":false'' @
     '',"description":"False requires exactly one match; true replaces every non-overlapping match in this '' @
     ''file."},"max_bytes":{"type":"integer","minimum":1,"maximum":16777216,"default":16777216,"description'' @
     ''":"UTF-8 byte cap for both the complete source and complete edited file."},"expected_version":{"type'' @
     ''":"string","description":"Opaque fingerprint copied from FileRead of this file. On conflict, read ag'' @
     ''ain and revise the edit; do not just drop the guard."}},"required":["path","old_string","new_string"'' @
     ''],"additionalProperties":false}''\<close>

definition file_edit_description :: string where
  \<open>file_edit_description =
     ''Make a targeted exact string replacement in an existing UTF-8 file; this is not a regex or patch too'' @
     ''l. Read the relevant text first and preserve whitespace. old_string must match exactly once unless r'' @
     ''eplace_all is true. On missing or ambiguous matches, read again and include more context instead of '' @
     ''widening the replacement blindly. Copy expected_version from FileRead to guard against stale content'' @
     ''; re-read on conflict. Returns the replacement count.''\<close>

definition file_read_def :: tool_def where
  "file_read_def = \<lparr>tool_name = ''FileRead'', tool_description = file_read_description, input_schema_json = file_read_schema, required_capabilities = [read_file]\<rparr>"

definition file_write_def :: tool_def where
  "file_write_def = \<lparr>tool_name = ''FileWrite'', tool_description = file_write_description, input_schema_json = file_write_schema, required_capabilities = [write_file]\<rparr>"

definition file_edit_def :: tool_def where
  "file_edit_def = \<lparr>tool_name = ''FileEdit'', tool_description = file_edit_description, input_schema_json = file_edit_schema, required_capabilities = [edit_file]\<rparr>"

text \<open>A preparer of the registry: what the executor returns when it runs after the history \<open>tr\<close>.\<close>

definition prepared_at :: "bool \<Rightarrow> io_trace \<Rightarrow> (string \<Rightarrow> file_call result) \<Rightarrow> string \<Rightarrow> prepared_call result" where
  "prepared_at ws tr prepare input_json = rbind (prepare input_json) (\<lambda>c.
     Inr \<lparr>pc_path = Some (fc_path c), pc_execute = Some (\<lambda>resolved. fst (fc_execute c \<lparr>fx_resolved = resolved, fx_workspace = ws\<rparr> tr))\<rparr>)"

record tool_host =
  th_kernel :: kernel
  th_crypto :: crypto
  th_lib :: json_lib
  th_authorities :: authorities
  th_workspace :: bool
  th_history :: io_trace

definition register_file_read :: "tool_host \<Rightarrow> registry \<Rightarrow> unit result \<times> registry" where
  "register_file_read h = add_prepared (th_lib h) file_read_def
     (Some (prepared_at (th_workspace h) (th_history h) (prepare_file_read (th_kernel h) (th_crypto h) (th_lib h) (th_authorities h)))) Permissioned"

definition register_file_write :: "tool_host \<Rightarrow> registry \<Rightarrow> unit result \<times> registry" where
  "register_file_write h = add_prepared (th_lib h) file_write_def
     (Some (prepared_at (th_workspace h) (th_history h) (prepare_file_write (th_kernel h) (th_crypto h) (th_lib h) (th_authorities h)))) Permissioned"

definition register_file_edit :: "tool_host \<Rightarrow> registry \<Rightarrow> unit result \<times> registry" where
  "register_file_edit h = add_prepared (th_lib h) file_edit_def
     (Some (prepared_at (th_workspace h) (th_history h) (prepare_file_edit (th_kernel h) (th_crypto h) (th_lib h) (th_authorities h)))) Permissioned"

definition register_builtins :: "tool_host \<Rightarrow> (registry, unit) eff" where
  "register_builtins h = ebind (register_file_read h) (\<lambda>_. ebind (register_file_write h) (\<lambda>_. register_file_edit h))"

section \<open>Replacement\<close>

text \<open>Left-to-right replacement of a text, and the number of its matches.\<close>

function replace_text :: "string \<Rightarrow> string \<Rightarrow> string \<Rightarrow> string" where
  "replace_text old new s = (if s = [] \<or> old = [] then s
     else if prefix old s then new @ replace_text old new (drop (length old) s) else hd s # replace_text old new (tl s))"
  by auto
termination by (relation "measure (\<lambda>(old, new, s). length s)") auto

function matches :: "string \<Rightarrow> string \<Rightarrow> nat" where
  "matches old s = (if s = [] \<or> old = [] then 0 else if prefix old s then Suc (matches old (drop (length old) s)) else matches old (tl s))"
  by auto
termination by (relation "measure (\<lambda>(old, s). length s)") auto

declare replace_text.simps [simp del] matches.simps [simp del]

lemma find_from_Some:
  "find_from h old pos = Some p \<Longrightarrow> pos \<le> p \<and> p + length old \<le> length h \<and> prefix old (drop p h) \<and> (\<forall>q. pos \<le> q \<and> q < p \<longrightarrow> \<not> prefix old (drop q h))"
proof (induction h old pos rule: find_from.induct)
  case (1 h old pos)
  show ?case
  proof (cases "length h < pos + length old \<or> prefix old (drop pos h)")
    case True
    then show ?thesis using 1(2) by (subst (asm) find_from.simps) (auto split: if_splits)
  next
    case False
    then have "find_from h old (Suc pos) = Some p" using 1(2) by (subst (asm) find_from.simps) simp
    then show ?thesis using 1(1) False by (metis Suc_leD Suc_leI le_neq_implies_less)
  qed
qed

lemma find_from_None: "find_from h old pos = None \<Longrightarrow> pos \<le> q \<Longrightarrow> old \<noteq> [] \<Longrightarrow> \<not> prefix old (drop q h)"
proof (induction h old pos rule: find_from.induct)
  case (1 h old pos)
  show ?case
  proof (cases "length h < pos + length old")
    case True
    then have "length (drop q h) < length old" using 1(3,4) by (cases old) auto
    then show ?thesis by (auto dest: prefix_length_le)
  next
    case False
    then have "\<not> prefix old (drop pos h)" "find_from h old (Suc pos) = None" using 1(2) by (subst (asm) find_from.simps; simp split: if_splits)+
    then show ?thesis using 1(1) False 1(3,4) by (cases "q = pos") auto
  qed
qed

lemma replace_miss: "\<not> prefix old (c # t) \<Longrightarrow> replace_text old new (c # t) = c # replace_text old new t \<and> matches old (c # t) = matches old t"
  by (subst replace_text.simps, subst matches.simps) auto

lemma replace_skip:
  assumes "old \<noteq> []" "\<forall>q<n. \<not> prefix old (drop q s)" "n \<le> length s"
  shows "replace_text old new s = take n s @ replace_text old new (drop n s) \<and> matches old s = matches old (drop n s)"
  using assms(2,3)
proof (induction n arbitrary: s)
  case (Suc n)
  then obtain c t where s: "s = c # t" by (cases s) auto
  have "\<not> prefix old s" using Suc.prems(1) by (metis drop0 zero_less_Suc)
  moreover have "\<forall>q<n. \<not> prefix old (drop q t)" using Suc.prems(1) s by (metis Suc_less_eq drop_Suc_Cons)
  ultimately show ?case using Suc.IH [of t] Suc.prems(2) s by (simp add: replace_miss)
qed simp

lemma replace_match: "prefix old s \<Longrightarrow> old \<noteq> [] \<Longrightarrow> replace_text old new s = new @ replace_text old new (drop (length old) s) \<and>
    matches old s = Suc (matches old (drop (length old) s))"
  by (auto simp: replace_text.simps [of old new s] matches.simps [of old s])

lemma replace_none: "\<forall>q. \<not> prefix old (drop q s) \<Longrightarrow> old \<noteq> [] \<Longrightarrow> replace_text old new s = s \<and> matches old s = 0"
  using replace_skip [of old "length s" s new] by (simp add: replace_text.simps [of old new "[]"] matches.simps [of old "[]"])

text \<open>The scan returns, and the stitching along its positions is the left-to-right replacement.\<close>

lemma occurrences_replace:
  assumes "old \<noteq> []"
  shows "pos \<le> length h \<Longrightarrow> \<exists>ps. (\<forall>done_ps. occurrences_loop h old pos done_ps = Some (done_ps @ ps)) \<and> replacements_loop h old new ps pos = replace_text old new (drop pos h) \<and>
    length ps = matches old (drop pos h)"
proof (induction "length h - pos" arbitrary: pos rule: less_induct)
  case less
  show ?case
  proof (cases "find_from h old pos")
    case None
    then have "\<forall>q. \<not> prefix old (drop q (drop pos h))" using find_from_None assms by (auto simp: add.commute)
    from replace_none [OF this assms] None show ?thesis by (intro exI [of _ "[]"]) (simp add: occurrences_loop.simps [of h old pos])
  next
    case (Some p)
    note p = find_from_Some [OF this]
    define next_pos where "next_pos = p + length old"
    have "0 < length old" "pos \<le> p" "p + length old \<le> length h" using p assms by auto
    then have "next_pos \<le> length h" "length h - next_pos < length h - pos" unfolding next_pos_def by linarith+
    then obtain ps where ps: "\<forall>done_ps. occurrences_loop h old next_pos done_ps = Some (done_ps @ ps)" "replacements_loop h old new ps next_pos = replace_text old new (drop next_pos h)"
      "length ps = matches old (drop next_pos h)" using less(1) by blast
    have "\<forall>q<p - pos. \<not> prefix old (drop q (drop pos h))" using p by (auto simp: less_diff_conv add.commute)
    from replace_skip [OF assms this, of new] have skip: "replace_text old new (drop pos h) = take (p - pos) (drop pos h) @ replace_text old new (drop p h)"
        "matches old (drop pos h) = matches old (drop p h)" using p by (auto simp: less_diff_conv)
    have "replace_text old new (drop p h) = new @ replace_text old new (drop next_pos h)" "matches old (drop p h) = Suc (matches old (drop next_pos h))"
      using replace_match [of old "drop p h" new] p assms by (auto simp: next_pos_def add.commute)
    then show ?thesis using Some ps skip by (intro exI [of _ "p # ps"]) (simp add: occurrences_loop.simps [of h old pos] next_pos_def)
  qed
qed

corollary occurrences_replace_all:
  assumes "old \<noteq> []"
  obtains ps where "find_occurrences h old = Some ps" "apply_replacements h old new ps = replace_text old new h" "length ps = matches old h"
  using occurrences_replace [OF assms, of 0 h new] by (auto simp: apply_replacements_def find_occurrences_def)

lemma replace_length: "length (replace_text old new s) + matches old s * length old = length s + matches old s * length new"
proof (induction old new s rule: replace_text.induct)
  case (1 old new s)
  consider "s = [] \<or> old = []" | "s \<noteq> []" "old \<noteq> []" "prefix old s" | "s \<noteq> []" "old \<noteq> []" "\<not> prefix old s" by blast
  then show ?case
  proof cases
    case 2
    then have "length old \<le> length s" by (auto dest: prefix_length_le)
    then show ?thesis using 1(1) 2 by (simp add: replace_text.simps [of old new s] matches.simps [of old s])
  next
    case 3
    then show ?thesis using 1(2) by (cases s) (simp_all add: replace_miss)
  qed (auto simp: replace_text.simps [of old new s] matches.simps [of old s])
qed

text \<open>The size computed in 64 bits is the size of the result, and the error is raised exactly when it has no 64-bit size.\<close>

lemma replacement_size_exact:
  assumes small: "L < 2 ^ 64" "a < 2 ^ 64" "b < 2 ^ 64" "c < 2 ^ 64" and N: "N + c * a = L + c * b"
  shows "replacement_size (of_nat L) (of_nat a) (of_nat b) (of_nat c) =
    (if N < 2 ^ 64 then Inr (of_nat N) else Inl (err_invalid_argument ''FileEdit: replacement output is too large''))"
proof -
  have u: "unat (of_nat x :: 64 word) = x" if "x < 2 ^ 64" for x
    using that by (simp add: unsigned_of_nat take_bit_nat_eq_self)
  have le: "(of_nat b :: 64 word) \<le> of_nat a \<longleftrightarrow> b \<le> a" using u small by (simp add: word_le_nat_alt)
  show ?thesis
  proof (cases "b \<le> a")
    case True
    then have "N = L - (a - b) * c" "(a - b) * c \<le> L" using N by (auto simp: algebra_simps diff_mult_distrib2)
    then show ?thesis using True le small by (simp add: replacement_size_def of_nat_diff)
  next
    case False
    then have N': "N = L + (b - a) * c" using N by (auto simp: algebra_simps diff_mult_distrib2)
    have d: "(of_nat b - of_nat a :: 64 word) = of_nat (b - a)" using False by (simp add: of_nat_diff)
    define A :: nat where "A = 2 ^ 64 - 1 - L"
    have A_sum: "A + L + 1 = 2 ^ 64" using small(1) unfolding A_def by linarith
    then have "(of_nat (A + L + 1) :: 64 word) = of_nat (2 ^ 64)" by (rule arg_cong)
    moreover have "(of_nat (2 ^ 64) :: 64 word) = 0" by simp
    ultimately have "(of_nat A + (of_nat L + 1) :: 64 word) = 0" by (simp only: of_nat_add of_nat_1 add.assoc)
    then have "(of_nat A :: 64 word) = - (of_nat L + 1)" by (simp only: eq_neg_iff_add_eq_0)
    then have m: "(- 1 - of_nat L :: 64 word) = of_nat A" by (simp only: minus_add_distrib add.commute diff_conv_add_uminus)
    have bound: "A < x \<longleftrightarrow> M \<le> L + x" if "A + L + 1 = M" for M x :: nat using that by linarith
    have A: "A < 2 ^ 64" "b - a < 2 ^ 64" using A_sum small(3) by linarith+
    have "(- 1 - of_nat L :: 64 word) div (of_nat b - of_nat a) < of_nat c \<longleftrightarrow> A div (b - a) < c"
      unfolding d m word_less_nat_alt unat_div u [OF A(1)] u [OF A(2)] u [OF small(4)] by (rule refl)
    also have "\<dots> \<longleftrightarrow> A < c * (b - a)" using False by (intro div_less_iff_less_mult) simp
    also have "\<dots> \<longleftrightarrow> 2 ^ 64 \<le> N" unfolding N' mult.commute [of c] by (rule bound [OF A_sum])
    finally have fits: "(- 1 - of_nat L :: 64 word) div (of_nat b - of_nat a) < of_nat c \<longleftrightarrow> \<not> N < 2 ^ 64" by (simp only: not_less)
    have "of_nat L + (of_nat b - of_nat a) * of_nat c = (of_nat N :: 64 word)" unfolding d N' by (simp only: of_nat_add of_nat_mult)
    then show ?thesis using False le by (simp only: replacement_size_def Let_def fits if_False if_not_P split: if_split) simp
  qed
qed

lemma matches_length: "matches old s * length old \<le> length s"
proof (induction old s rule: matches.induct)
  case (1 old s)
  consider "s = [] \<or> old = []" | "s \<noteq> []" "old \<noteq> []" "prefix old s" | "s \<noteq> []" "old \<noteq> []" "\<not> prefix old s" by blast
  then show ?case
  proof cases
    case 2
    then have "length old \<le> length s" by (auto dest: prefix_length_le)
    then show ?thesis using 1(1) 2 by (simp add: matches.simps [of old s])
  next
    case 3
    then show ?thesis using 1(2) by (cases s) (simp_all add: replace_miss)
  qed (auto simp: matches.simps [of old s])
qed

lemma matches_bound: "old \<noteq> [] \<Longrightarrow> matches old s \<le> length s"
  using matches_length [of old s] by (cases old) auto

section \<open>Steps that only look\<close>

fun inspects :: "io_call \<Rightarrow> bool" where
  "inspects (OpenPath n fs) \<longleftrightarrow> O_CREAT \<notin> set fs \<and> O_WRONLY \<notin> set fs"
| "inspects (OpenAt d n fs) \<longleftrightarrow> O_CREAT \<notin> set fs \<and> O_WRONLY \<notin> set fs"
| "inspects (OpenAt2 d n fs b) \<longleftrightarrow> O_CREAT \<notin> set fs \<and> O_WRONLY \<notin> set fs"
| "inspects (DupFd d) \<longleftrightarrow> True"
| "inspects (FStat d) \<longleftrightarrow> True"
| "inspects (FStatAt d n) \<longleftrightarrow> True"
| "inspects (LStat n) \<longleftrightarrow> True"
| "inspects (PRead d off n) \<longleftrightarrow> True"
| "inspects _ \<longleftrightarrow> False"

definition looks :: "io_trace \<Rightarrow> bool" where
  "looks evs \<longleftrightarrow> list_all (\<lambda>ev. inspects (fst ev)) evs"

definition inspecting :: "(io_trace, 'a) eff \<Rightarrow> bool" where
  "inspecting m \<longleftrightarrow> traces m (\<lambda>r evs. looks evs)"

lemma looks_simps [simp]: "looks []" "looks (ev # evs) \<longleftrightarrow> inspects (fst ev) \<and> looks evs" "looks (xs @ ys) \<longleftrightarrow> looks xs \<and> looks ys"
  by (auto simp: looks_def)

lemma inspecting_bind: "inspecting m \<Longrightarrow> (\<And>x. inspecting (f x)) \<Longrightarrow> inspecting (ebind m f)"
  unfolding inspecting_def by (rule traces_bind [where P = "\<lambda>r. looks" and Q = "\<lambda>x r. looks"]) auto

lemma inspecting_simple: "inspecting (eret x)" "inspecting (efail e)" "inspecting (elift r)"
  by (auto simp: inspecting_def traces_def eff_apply)

lemma inspecting_map_error: "inspecting m \<Longrightarrow> inspecting (emap_error g m)"
  unfolding inspecting_def traces_def
proof
  fix tr assume "\<forall>tr. \<exists>r evs. m tr = (r, tr @ evs) \<and> looks evs"
  then obtain r evs where "m tr = (r, tr @ evs)" "looks evs" by blast
  then show "\<exists>r evs. emap_error g m tr = (r, tr @ evs) \<and> looks evs" by (cases r) (auto simp: emap_error_def)
qed

lemma inspecting_call:
  "inspects c \<Longrightarrow> inspecting (call_fd k c)" "inspects c \<Longrightarrow> inspecting (call_stat k c)" "inspects c \<Longrightarrow> inspecting (call_bytes k c)"
  by (auto simp: inspecting_def traces_def call_fd_def call_stat_def call_bytes_def)

lemma inspecting_cases:
  "(\<And>x. inspecting (g x)) \<Longrightarrow> (\<And>y. inspecting (h y)) \<Longrightarrow> inspecting (case_sum g h r)"
  "inspecting m \<Longrightarrow> inspecting m' \<Longrightarrow> inspecting (if b then m else m')"
  by (auto split: sum.split)

lemma inspecting_try: "inspecting m \<Longrightarrow> inspecting (try_call m err)"
  unfolding try_call_def by (intro inspecting_bind inspecting_cases inspecting_simple)

lemmas inspecting_intros = inspecting_bind inspecting_simple inspecting_map_error inspecting_call inspecting_cases inspecting_try

lemma inspecting_open_parents: "inspecting (open_parents k dir rel False d cs)"
proof (induction cs arbitrary: d)
  case (Cons c cs)
  have "inspecting (open_parent k dir rel False d c)"
    unfolding open_parent_def Let_def by (auto intro!: inspecting_intros)
  then show ?case using Cons by (auto intro!: inspecting_intros)
qed (auto intro!: inspecting_intros)

lemma inspecting_begin: "inspecting (begin_file_mutation k a rel False)"
  unfolding begin_file_mutation_def snapshot_target_def require_regular_file_def Let_def
  by (auto intro!: inspecting_intros inspecting_open_parents)

lemma inspecting_open_existing: "inspecting (open_existing k m)"
  unfolding open_existing_def by (auto intro!: inspecting_intros)

lemma inspecting_fingerprint: "inspecting (compute_file_fingerprint k f)"
  unfolding compute_file_fingerprint_def by (auto intro!: inspecting_intros)

lemma inspecting_chunk: "inspecting (read_chunk k f off n)"
  unfolding read_chunk_def by (auto intro!: inspecting_intros)

lemma inspecting_read_bytes: "inspecting (read_bytes k f off len)"
  unfolding inspecting_def traces_def read_bytes_def
proof
  fix tr
  have "\<exists>r evs. read_bytes_loop k f off len t tr = (r, tr @ evs) \<and> looks evs" for t
  proof (induction k f off len t tr rule: read_bytes_loop.induct)
    case (1 k f off len t tr)
    obtain r evs where r: "read_chunk k f (off + length t) (min chunk_size (len - length t)) tr = (r, tr @ evs)" "looks evs"
      using inspecting_chunk unfolding inspecting_def traces_def by blast
    show ?case
    proof (cases "len \<le> length t \<or> (\<exists>e. r = Inl e) \<or> r = Inr []")
      case True
      then show ?thesis using r by (subst read_bytes_loop.simps) auto
    next
      case False
      then obtain d where d: "r = Inr d" "d \<noteq> []" by (cases r) auto
      then obtain r' evs' where "read_bytes_loop k f off len (t @ d) (tr @ evs) = (r', (tr @ evs) @ evs')" "looks evs'"
        using 1 [OF _ r(1) [symmetric] d(1)] False by auto
      then show ?thesis using r d False by (subst read_bytes_loop.simps) auto
    qed
  qed
  then show "\<exists>r evs. read_bytes_loop k f off len [] tr = (r, tr @ evs) \<and> looks evs" .
qed

lemma inspecting_read_whole: "rd_range o1 = None \<Longrightarrow> inspecting (read_file_io k f o1)"
  unfolding read_file_io_def dispatch_read_def read_whole_def Let_def
  by (auto intro!: inspecting_intros inspecting_fingerprint inspecting_read_bytes)

section \<open>An edit\<close>

text \<open>The steps of an edit up to the write, and the edit as those steps followed by the write.\<close>

definition edit_reads :: "kernel \<Rightarrow> crypto \<Rightarrow> file_edit_request \<Rightarrow> directory_authority \<Rightarrow> resolved_path \<Rightarrow> (io_trace, file_mutation \<times> string \<times> string \<times> nat) eff" where
  "edit_reads k cr rq a rp = (let path = rp_absolute rp in
     ebind (begin_file_mutation k a (rp_authority_relative rp) False) (\<lambda>m.
     ebind (open_existing k m) (\<lambda>f.
     ebind (case fe_expected_version rq of
         None \<Rightarrow> eret ()
       | Some expected \<Rightarrow> check_expected_version k cr ''FileEdit'' path expected (compute_file_fingerprint k f)) (\<lambda>_.
     ebind (read_file_io k f \<lparr>rd_max_bytes = fe_max_bytes rq, rd_range = None\<rparr>) (\<lambda>res.
       if rr_truncated res
       then efail (with_ctx ''max_bytes'' (show_nat (fe_max_bytes rq)) (with_ctx ''path'' path (err_invalid_argument ''file exceeds max_bytes'')))
       else ebind (elift (edit_contents rq path (rr_text res))) (\<lambda>(new_text, applied). eret (m, rr_text res, new_text, applied)))))))"

lemma ebind_if: "ebind (if b then m else m') f = (if b then ebind m f else ebind m' f)"
  by simp

lemma edit_handler_steps:
  "resolved_authority auth ctx = Some (a, rp) \<Longrightarrow> file_edit_handler k cr auth rq ctx = ebind (edit_reads k cr rq a rp) (\<lambda>(m, contents, new_text, applied).
     ebind (write_text_file k m new_text (edit_options cr (rp_absolute rp) (fe_expected_version rq))) (\<lambda>_. eret (edit_output (rp_absolute rp) contents new_text applied)))"
  by (simp add: file_edit_handler_def edit_reads_def Let_def ebind_assoc ebind_if split_def cong: if_cong option.case_cong)

lemma inspecting_edit_reads: "inspecting (edit_reads k cr rq a rp)"
  unfolding edit_reads_def Let_def check_expected_version_def
  by (auto intro!: inspecting_intros inspecting_begin inspecting_open_existing inspecting_fingerprint inspecting_read_whole split: option.split)

lemma edit_contents_Inr:
  assumes "edit_contents rq path contents = Inr (t, n)" "fe_old_string rq \<noteq> []"
  shows "t = replace_text (fe_old_string rq) (fe_new_string rq) contents \<and> n = matches (fe_old_string rq) contents \<and> 0 < n \<and> (fe_replace_all rq \<or> n = 1)"
proof -
  obtain ps where ps: "find_occurrences contents (fe_old_string rq) = Some ps"
      "apply_replacements contents (fe_old_string rq) (fe_new_string rq) ps = replace_text (fe_old_string rq) (fe_new_string rq) contents"
      "length ps = matches (fe_old_string rq) contents"
    using occurrences_replace_all [OF assms(2)] by blast
  have "ps \<noteq> []" "\<not> (1 < length ps \<and> \<not> fe_replace_all rq)" "t = apply_replacements contents (fe_old_string rq) (fe_new_string rq) ps" "n = length ps"
    using assms(1) ps(1) by (auto simp: edit_contents_def Let_def rbind_Inr_iff split: if_splits)
  then show ?thesis using ps by (cases ps) auto
qed

text \<open>What the steps before the write have found when they succeed.\<close>

definition edit_found :: "kernel \<Rightarrow> file_edit_request \<Rightarrow> directory_authority \<Rightarrow> resolved_path \<Rightarrow> io_trace \<Rightarrow> io_trace \<Rightarrow> file_mutation \<Rightarrow> string \<Rightarrow> bool" where
  "edit_found k rq a rp tr tr' m contents \<longleftrightarrow> (\<exists>tr1 f tr2 tr3 res.
     begin_file_mutation k a (rp_authority_relative rp) False tr = (Inr m, tr1) \<and> open_existing k m tr1 = (Inr f, tr2) \<and>
     read_file_io k f (whole_read (fe_max_bytes rq)) tr3 = (Inr res, tr') \<and> \<not> rr_truncated res \<and> contents = rr_text res)"

lemma edit_reads_Inr:
  assumes "edit_reads k cr rq a rp tr = (Inr (m, contents, t, n), tr')" "fe_old_string rq \<noteq> []"
  shows "edit_found k rq a rp tr tr' m contents \<and> t = replace_text (fe_old_string rq) (fe_new_string rq) contents \<and>
    n = matches (fe_old_string rq) contents \<and> 0 < n \<and> (fe_replace_all rq \<or> n = 1)"
proof -
  from assms(1) obtain tr1 f tr2 tr3 res where steps: "begin_file_mutation k a (rp_authority_relative rp) False tr = (Inr m, tr1)" "open_existing k m tr1 = (Inr f, tr2)"
      "read_file_io k f (whole_read (fe_max_bytes rq)) tr3 = (Inr res, tr')" "\<not> rr_truncated res" "contents = rr_text res"
      "edit_contents rq (rp_absolute rp) contents = Inr (t, n)"
    by (auto simp: edit_reads_def Let_def ebind_eq_Inr_iff eff_apply whole_read_def split: if_splits)
  from edit_contents_Inr [OF steps(6) assms(2)] steps show ?thesis unfolding edit_found_def by blast
qed

lemma open_existing_existed: "open_existing k m tr = (Inr f, tr') \<Longrightarrow> fm_existed m"
  by (auto simp: open_existing_def eff_apply split: if_splits)

lemma begin_mutation_name:
  "begin_file_mutation k a rel create tr = (Inr m, tr') \<Longrightarrow> fm_name m = last (path_components rel)"
  by (cases "path_components rel = []", clarsimp simp: begin_file_mutation_def Let_def ebind_eq_Inr_iff eff_apply)
     (clarsimp simp: begin_file_mutation_def Let_def ebind_eq_Inr_iff eff_apply split: if_splits, auto simp: ebind_eq_Inr_iff eff_apply split: sum.splits if_splits)

lemma write_text_file_traces:
  assumes "counts_writes k" "\<not> prefix temp_prefix (fm_name m)" "wo_mode o1 = Truncate"
  shows "traces (write_text_file k m contents o1) (atomic_outcome m contents o1)"
proof (cases "check_write_options m o1")
  case (Inl e)
  then show ?thesis using assms(3) by (simp add: write_text_file_def write_text_def traces_def eff_apply atomic_outcome_def cleaned_def)
next
  case (Inr x)
  then show ?thesis using write_truncate_traces [OF assms(1,2)] assms(3) by (simp add: write_text_file_def write_text_def)
qed

lemma replaced_checked: "replaced m t o1 evs \<Longrightarrow> \<exists>checks. set checks \<subseteq> set evs \<and> target_checked m o1 checks"
  unfolding replaced_def by (elim exE conjE, rule_tac x = checks in exI) auto

section \<open>Properties\<close>

text \<open>
  C26: What an edit makes of a text, on every branch. The scan and the stitching of \<^verbatim>\<open>file_edit.cpp\<close> give the left-to-right replacement and the number of
  matches; the size is computed in 64 bits without wrapping, and the edit fails when there is no match, when there are several and the request
  does not say to replace all, when the result has no 64-bit size, and when it exceeds the limit, in this order and with these errors.
\<close>

theorem edit_contents_correct:
  assumes "fe_old_string rq \<noteq> []" and "length contents < 2 ^ 64" and "length (fe_old_string rq) < 2 ^ 64" and "length (fe_new_string rq) < 2 ^ 64"
    and "fe_max_bytes rq < 2 ^ 64"
  shows "edit_contents rq path contents = (let n = matches (fe_old_string rq) contents; t = replace_text (fe_old_string rq) (fe_new_string rq) contents in
    if n = 0 then Inl (with_ctx ''path'' path (err_not_found ''FileEdit: `old_string` does not occur in the file''))
    else if 1 < n \<and> \<not> fe_replace_all rq
    then Inl (with_ctx ''match_count'' (show_nat n) (with_ctx ''path'' path
      (make_error conflict_kind ''FileEdit: `old_string` is not unique; pass `replace_all` to apply to every match'')))
    else if 2 ^ 64 \<le> length t then Inl (with_ctx ''path'' path (err_invalid_argument ''FileEdit: replacement output is too large''))
    else if fe_max_bytes rq < length t
    then Inl (with_ctx ''max_bytes'' (show_nat (fe_max_bytes rq)) (with_ctx ''output_bytes'' (show_nat (length t)) (with_ctx ''path'' path
      (err_invalid_argument ''FileEdit: output exceeds max_bytes''))))
    else Inr (t, n))"
proof -
  define n t where "n = matches (fe_old_string rq) contents" and "t = replace_text (fe_old_string rq) (fe_new_string rq) contents"
  obtain ps where ps: "find_occurrences contents (fe_old_string rq) = Some ps" "apply_replacements contents (fe_old_string rq) (fe_new_string rq) ps = t" "length ps = n"
    using occurrences_replace_all [OF assms(1)] by (metis n_def t_def)
  have "n < 2 ^ 64" using matches_bound [OF assms(1)] assms(2) by (auto simp: n_def intro: le_less_trans)
  from replacement_size_exact [OF assms(2,3,4) this, of "length t"] have exact:
    "replacement_size (of_nat (length contents)) (of_nat (length (fe_old_string rq))) (of_nat (length (fe_new_string rq))) (of_nat n) =
      (if length t < 2 ^ 64 then Inr (of_nat (length t)) else Inl (err_invalid_argument ''FileEdit: replacement output is too large''))"
    using replace_length by (simp add: n_def t_def)
  have size: "unat (of_nat (length t) :: 64 word) = length t" if "length t < 2 ^ 64"
    using that by (simp add: unsigned_of_nat take_bit_nat_eq_self)
  have empty: "ps = [] \<longleftrightarrow> n = 0" using ps(3) by auto
  show ?thesis unfolding n_def [symmetric] t_def [symmetric] edit_contents_def Let_def ps option.sel empty exact
    using size by (cases "length t < 2 ^ 64") (simp_all add: ps not_less [symmetric] cong: if_cong)
qed

definition demo_edit :: file_edit_request where
  "demo_edit = \<lparr>fe_old_string = ''ab'', fe_new_string = ''c'', fe_replace_all = True, fe_max_bytes = 100, fe_expected_version = None\<rparr>"

theorem edit_contents_correct_witness: "edit_contents demo_edit ''f'' ''xabab'' = Inr (''xcc'', 2)"
  using edit_contents_correct [of demo_edit "''xabab''" "''f''"]
  by (simp add: demo_edit_def replace_text.simps matches.simps)

text \<open>
  C24: An edit of a file never leaves a half-written file and never overwrites what it did not read. Whatever the kernel answers and whatever other processes do: if the edit fails,
  every call before the write only looked, and the write left the target as it was and asked the kernel last to unlink its temporary file. If it succeeds, the text it read through the mutation's own descriptor,
  whole, had at least one match, and only one unless all were to be replaced; the file was replaced in one rename by that text with every match replaced; and right
  before the rename the target still had the identity the edit began with and, if the request named a version, that version.
\<close>

theorem file_edit_outcome:
  assumes "counts_writes k" and "fe_old_string rq \<noteq> []" and "resolved_authority auth ctx = Some (a, rp)"
    and "\<not> prefix temp_prefix (last (path_components (rp_authority_relative rp)))"
  shows "\<exists>r pre evs. file_edit_handler k cr auth rq ctx tr = (r, tr @ pre @ evs) \<and> looks pre \<and> (case r of
      Inl e \<Rightarrow> evs = [] \<or> (\<exists>m contents. edit_found k rq a rp tr (tr @ pre) m contents \<and> untouched m evs \<and> cleaned m evs)
    | Inr out \<Rightarrow> \<exists>m contents. edit_found k rq a rp tr (tr @ pre) m contents \<and>
        0 < matches (fe_old_string rq) contents \<and> (fe_replace_all rq \<or> matches (fe_old_string rq) contents = 1) \<and>
        replaced m (replace_text (fe_old_string rq) (fe_new_string rq) contents) (edit_options cr (rp_absolute rp) (fe_expected_version rq)) evs \<and>
        (\<exists>fd s. (FStat fd, RStat (Inr s)) \<in> set evs \<and> same_identity (fm_identity m) s \<and>
          (\<forall>expected. fe_expected_version rq = Some expected \<longrightarrow> version_token cr (rp_absolute rp) (fingerprint_from_stat s) = expected)))"
proof -
  define path where "path = rp_absolute rp"
  define o1 where "o1 = edit_options cr path (fe_expected_version rq)"
  obtain r pre where r: "edit_reads k cr rq a rp tr = (r, tr @ pre)" "looks pre"
    using inspecting_edit_reads unfolding inspecting_def traces_def by blast
  show ?thesis
  proof (cases r)
    case (Inl e)
    then have "file_edit_handler k cr auth rq ctx tr = (Inl e, tr @ pre @ [])" using r(1) edit_handler_steps [OF assms(3)] by (simp add: ebind_def)
    then show ?thesis using r(2) by (intro exI [of _ "Inl e"] exI [of _ pre] exI [of _ "[]"]) simp
  next
    case (Inr x)
    obtain m contents t n where x: "x = (m, contents, t, n)" by (cases x)
    note found = edit_reads_Inr [OF r(1) [unfolded Inr x] assms(2)]
    then have m: "fm_name m = last (path_components (rp_authority_relative rp))" "fm_existed m"
      unfolding edit_found_def using begin_mutation_name open_existing_existed by blast+
    have "wo_mode o1 = Truncate" by (simp add: o1_def edit_options_def)
    from write_text_file_traces [OF assms(1) _ this, of m t] obtain w evs where w: "write_text_file k m t o1 (tr @ pre) = (w, (tr @ pre) @ evs)" "atomic_outcome m t o1 w evs"
      using m(1) assms(4) unfolding traces_def by metis
    have run: "file_edit_handler k cr auth rq ctx tr = (case w of Inl e \<Rightarrow> Inl e | Inr _ \<Rightarrow> Inr (edit_output path contents t n), tr @ pre @ evs)"
      using r(1) w(1) edit_handler_steps [OF assms(3)] by (simp add: Inr x ebind_def o1_def path_def eff_apply split: sum.split)
    show ?thesis
    proof (cases w)
      case (Inl e)
      then have "untouched m evs \<and> cleaned m evs" using w(2) by (simp add: atomic_outcome_def o1_def edit_options_def)
      then show ?thesis using run r(2) Inl found by (intro exI [of _ "Inl e"] exI [of _ pre] exI [of _ evs]) auto
    next
      case (Inr u)
      then have rep: "replaced m t o1 evs" using w(2) by (simp add: atomic_outcome_def)
      then obtain checks where "set checks \<subseteq> set evs" "target_checked m o1 checks" using replaced_checked by blast
      then obtain fd s where s: "(FStat fd, RStat (Inr s)) \<in> set evs" "same_identity (fm_identity m) s"
          "\<forall>verify. wo_verify o1 = Some verify \<longrightarrow> verify (fingerprint_from_stat s) = Inr ()"
        using m(2) by (auto simp: target_checked_def Let_def)
      then have "\<forall>expected. fe_expected_version rq = Some expected \<longrightarrow> version_token cr path (fingerprint_from_stat s) = expected"
        by (auto simp: o1_def edit_options_def expected_version_verifier_def split: if_splits)
      then show ?thesis using run r(2) Inr found rep s
        by (intro exI [of _ "Inr (edit_output path contents t n)"] exI [of _ pre] exI [of _ evs]) (auto simp: path_def o1_def)
    qed
  qed
qed

definition demo_edit_path :: resolved_path where
  "demo_edit_path = \<lparr>rp_authority = 0, rp_authority_relative = ''b.txt'', rp_absolute = ''/w/b.txt'', rp_relative = ''b.txt'', rp_symlink_followed = False,
     rp_created_parents = False, rp_outside_explicit = False, rp_per_call_outside = False, rp_override_root = None\<rparr>"

definition demo_edit_ctx :: file_ctx where
  "demo_edit_ctx = \<lparr>fx_resolved = Some \<lparr>tp_resolved = demo_edit_path, tp_display_path = ''b.txt'', tp_input_path_hash = [], tp_workspace_root_hash = []\<rparr>, fx_workspace = True\<rparr>"

definition demo_authorities :: authorities where
  "demo_authorities = (\<lambda>_. Some \<lparr>da_fd = 3, da_root = ''/w''\<rparr>)"

text \<open>An edit that replaces the one match in the text the kernel serves.\<close>

definition demo_small_edit :: file_edit_request where
  "demo_small_edit = \<lparr>fe_old_string = ''a'', fe_new_string = ''cd'', fe_replace_all = False, fe_max_bytes = 100, fe_expected_version = None\<rparr>"

lemma demo_occurrences: "occurrences_loop [CHR ''a'', CHR 0x0A, CHR ''b''] ''a'' 0 [] = Some [0]"
  by (subst occurrences_loop.simps, simp add: find_from.simps, subst occurrences_loop.simps, simp add: find_from.simps)

lemma demo_replacement_size: "replacement_size 3 1 2 1 = Inr 4" by code_simp

lemma demo_edit_succeeds:
  "case fst (file_edit_handler demo_file_kernel demo_crypto demo_authorities demo_small_edit demo_edit_ctx []) of Inl _ \<Rightarrow> False | Inr _ \<Rightarrow> True"
  by (code_simp, simp add: demo_occurrences demo_replacement_size apply_replacements_def i64_max_def Let_def, code_simp)

theorem file_edit_outcome_witness:
  "\<exists>out pre evs m contents. file_edit_handler demo_file_kernel demo_crypto demo_authorities demo_small_edit demo_edit_ctx [] = (Inr out, pre @ evs) \<and> looks pre \<and>
     matches ''a'' contents = 1 \<and> replaced m (replace_text ''a'' ''cd'' contents) (edit_options demo_crypto ''/w/b.txt'' None) evs"
proof -
  have k: "counts_writes demo_file_kernel" by (simp add: counts_writes_def demo_file_kernel_def demo_kernel_def)
  have rq: "fe_old_string demo_small_edit \<noteq> []" by (simp add: demo_small_edit_def)
  have ctx: "resolved_authority demo_authorities demo_edit_ctx = Some (\<lparr>da_fd = 3, da_root = ''/w''\<rparr>, demo_edit_path)"
    by (simp add: resolved_authority_def demo_authorities_def demo_edit_ctx_def)
  have name: "\<not> prefix temp_prefix (last (path_components (rp_authority_relative demo_edit_path)))"
    by (simp add: path_components_def demo_edit_path_def temp_prefix_def)
  have fields: "fe_old_string demo_small_edit = ''a''" "fe_new_string demo_small_edit = ''cd''" "\<not> fe_replace_all demo_small_edit"
      "fe_expected_version demo_small_edit = None" "rp_absolute demo_edit_path = ''/w/b.txt''"
    by (simp_all add: demo_small_edit_def demo_edit_path_def)
  obtain out t where ok: "file_edit_handler demo_file_kernel demo_crypto demo_authorities demo_small_edit demo_edit_ctx [] = (Inr out, t)"
    using demo_edit_succeeds by (cases "file_edit_handler demo_file_kernel demo_crypto demo_authorities demo_small_edit demo_edit_ctx []") (auto split: sum.splits)
  from file_edit_outcome [OF k rq ctx name, of demo_crypto "[]", unfolded ok fields] obtain pre evs m contents where
      "t = pre @ evs" "looks pre" "0 < matches ''a'' contents" "fe_replace_all demo_small_edit \<or> matches ''a'' contents = 1"
      "replaced m (replace_text ''a'' ''cd'' contents) (edit_options demo_crypto ''/w/b.txt'' None) evs"
    by (elim exE conjE) (simp, blast)
  then show ?thesis using ok fields(3) by blast
qed

end
