(* ===== verification/Config_Load.thy ===== *)
theory Config_Load
  imports Complex_Main Json_Value Perm_Rules
begin

text \<open>
  \<^verbatim>\<open>oran-config/config.cpp\<close>: environment references in strings, the reader of JSON objects that accounts for every key, and the
  parse of the configuration document. The environment, the conversion of JSON numbers to doubles (rationals here, with nothing for a value that is not finite), the RE2
  compiler and the file system are arguments.
\<close>

section \<open>Data\<close>

record config_warning =
  cw_path :: string
  cw_message :: string

record tool_output_config =
  to_max_text_bytes :: int
  to_max_data_bytes :: int

record tool_scheduler_config =
  sc_max_parallel_tools :: int
  sc_per_call_timeout_ms :: int

record active_tools_config =
  at_use_defaults :: bool
  at_tool_names :: "string list"

record runtime_config =
  rc_workers :: int
  rc_request_timeout_ms :: int
  rc_tool_output :: tool_output_config
  rc_tool_scheduler :: tool_scheduler_config
  rc_active_tools :: active_tools_config
  rc_stream_max_bytes :: int

record pricing_config =
  pg_input :: "rat option"
  pg_output :: "rat option"
  pg_cache_creation :: "rat option"
  pg_cache_read :: "rat option"

record cache_config =
  cc_enabled :: bool
  cc_min_prefix_bytes :: int

record profile_config =
  pf_name :: string
  pf_provider :: string
  pf_protocol :: "string option"
  pf_model :: string
  pf_base_url :: string
  pf_api_key_env :: string
  pf_pricing :: pricing_config
  pf_thinking_budget :: "32 word option"
  pf_cache :: "cache_config option"

record route_config =
  rt_name :: string
  rt_primary_profile :: string
  rt_fallback_profiles :: "string list"

record recall_config =
  lc_enabled :: bool
  lc_limit :: int
  lc_kinds :: "string list"

record rule_config =
  ru_verdict :: verdict
  ru_tool_pattern :: string
  ru_capability :: "capability option"
  ru_input_pattern :: "string option"
  ru_replay_max :: "32 word option"
  ru_approval_ttl_seconds :: "int option"

record permissions_config =
  pm_rules :: "rule_config list"
  pm_extra_read_roots :: "string list"
  pm_extra_write_roots :: "string list"

record load_options =
  lo_strict_unknown_fields :: bool
  lo_max_bytes :: nat

record config =
  cf_strict_config :: bool
  cf_runtime :: runtime_config
  cf_profiles :: "profile_config list"
  cf_routes :: "route_config list"
  cf_trace_enabled :: bool
  cf_hooks_timeout_ms :: int
  cf_recall :: recall_config
  cf_permissions :: permissions_config
  cf_warnings :: "config_warning list"

definition default_runtime :: runtime_config where
  "default_runtime = \<lparr>rc_workers = 4, rc_request_timeout_ms = 600000, rc_tool_output = \<lparr>to_max_text_bytes = 256 * 1024, to_max_data_bytes = 1024 * 1024\<rparr>,
     rc_tool_scheduler = \<lparr>sc_max_parallel_tools = 4, sc_per_call_timeout_ms = 60000\<rparr>,
     rc_active_tools = \<lparr>at_use_defaults = True, at_tool_names = []\<rparr>, rc_stream_max_bytes = 16 * 1024 * 1024\<rparr>"

definition no_pricing :: pricing_config where
  "no_pricing = \<lparr>pg_input = None, pg_output = None, pg_cache_creation = None, pg_cache_read = None\<rparr>"

definition new_profile :: "string \<Rightarrow> profile_config" where
  "new_profile name = \<lparr>pf_name = name, pf_provider = [], pf_protocol = None, pf_model = [], pf_base_url = [], pf_api_key_env = [], pf_pricing = no_pricing,
     pf_thinking_budget = None, pf_cache = None\<rparr>"

definition new_route :: "string \<Rightarrow> route_config" where
  "new_route name = \<lparr>rt_name = name, rt_primary_profile = [], rt_fallback_profiles = []\<rparr>"

definition new_rule :: "verdict \<Rightarrow> rule_config" where
  "new_rule v = \<lparr>ru_verdict = v, ru_tool_pattern = [], ru_capability = None, ru_input_pattern = None, ru_replay_max = None, ru_approval_ttl_seconds = None\<rparr>"

definition default_config :: config where
  "default_config = \<lparr>cf_strict_config = False, cf_runtime = default_runtime, cf_profiles = [], cf_routes = [], cf_trace_enabled = True, cf_hooks_timeout_ms = 2000,
     cf_recall = \<lparr>lc_enabled = True, lc_limit = 20, lc_kinds = []\<rparr>, cf_permissions = \<lparr>pm_rules = [], pm_extra_read_roots = [], pm_extra_write_roots = []\<rparr>, cf_warnings = []\<rparr>"

text \<open>The arguments of the model: the environment, doubles, RE2 (the error of a pattern it rejects) and JSON.\<close>

record config_host =
  ch_getenv :: "string \<Rightarrow> string option"
  ch_double :: "json \<Rightarrow> rat option"
  ch_regex_error :: "string \<Rightarrow> string option"
  ch_lib :: json_lib

section \<open>Environment references\<close>

definition config_error :: "string \<Rightarrow> string \<Rightarrow> core_error" where
  "config_error msg path = with_ctx ''path'' path (err_config msg)"

definition config_child_path :: "string \<Rightarrow> string \<Rightarrow> string" where
  "config_child_path base child = (if base = [] \<or> base = ''$'' then ''$.'' @ child else base @ ''.'' @ child)"

definition config_element_path :: "string \<Rightarrow> nat \<Rightarrow> string" where
  "config_element_path base i = base @ ''['' @ show_nat i @ '']''"

definition is_alnum :: "char \<Rightarrow> bool" where
  "is_alnum c \<longleftrightarrow> 48 \<le> byte_of c \<and> byte_of c \<le> 57 \<or> 65 \<le> byte_of c \<and> byte_of c \<le> 90 \<or> 97 \<le> byte_of c \<and> byte_of c \<le> 122"

definition valid_env_name :: "string \<Rightarrow> bool" where
  "valid_env_name name \<longleftrightarrow> name \<noteq> [] \<and> list_all (\<lambda>c. is_alnum c \<or> c = CHR ''_'') name"

definition expand_reference :: "config_host \<Rightarrow> string \<Rightarrow> string \<Rightarrow> string result" where
  "expand_reference h path expr =
     (let marker = find_sub '':-'' expr; name = (case marker of Some i \<Rightarrow> take i expr | None \<Rightarrow> expr);
          fallback = (case marker of Some i \<Rightarrow> drop (i + 2) expr | None \<Rightarrow> []) in
      if \<not> valid_env_name name then Inl (with_ctx ''name'' name (config_error ''invalid environment variable name'' path))
      else case ch_getenv h name of
        Some v \<Rightarrow> Inr (if v \<noteq> [] \<or> marker = None then v else fallback)
      | None \<Rightarrow> if marker \<noteq> None then Inr fallback else Inl (with_ctx ''name'' name (config_error ''missing environment variable'' path)))"

function expand_env_string :: "config_host \<Rightarrow> string \<Rightarrow> string \<Rightarrow> string result" where
  "expand_env_string h path input = (case find_sub ''${'' input of
     None \<Rightarrow> Inr input
   | Some start \<Rightarrow> (case find_sub ''}'' (drop (start + 2) input) of
       None \<Rightarrow> Inl (config_error ''unterminated environment substitution'' path)
     | Some len \<Rightarrow> rbind (expand_reference h path (take len (drop (start + 2) input))) (\<lambda>value.
         rbind (expand_env_string h path (drop (start + len + 3) input)) (\<lambda>rest. Inr (take start input @ value @ rest)))))"
  by pat_completeness auto
termination
proof (relation "measure (\<lambda>(h, path, input). length input)", goal_cases)
  case (2 h path input start len)
  then show ?case using find_sub_Some_iff [of "''${''" input start] by (auto dest: prefix_length_le)
qed auto

declare expand_env_string.simps [simp del]

section \<open>Reading an object\<close>

record parse_state =
  ps_strict :: bool
  ps_warnings :: "config_warning list"

record fields_view =
  fd_value :: json
  fd_path :: string
  fd_known :: "string list"
  fd_error :: "core_error option"
  fd_state :: parse_state

type_synonym 'a reader = "fields_view \<times> 'a \<Rightarrow> fields_view \<times> 'a"

definition fd_ok :: "fields_view \<Rightarrow> bool" where
  "fd_ok f \<longleftrightarrow> fd_error f = None"

definition fd_fail :: "core_error \<Rightarrow> fields_view \<Rightarrow> fields_view" where
  "fd_fail e f = (if fd_error f = None then f\<lparr>fd_error := Some e\<rparr> else f)"

definition make_fields :: "json \<Rightarrow> string \<Rightarrow> parse_state \<Rightarrow> fields_view" where
  "make_fields v path st = (let f = \<lparr>fd_value = v, fd_path = path, fd_known = [], fd_error = None, fd_state = st\<rparr> in
     if is_object v then f else fd_fail (config_error ''expected object'' path) f)"

definition path_of :: "fields_view \<Rightarrow> string \<Rightarrow> string" where
  "path_of f key = config_child_path (fd_path f) key"

definition take_key :: "string \<Rightarrow> fields_view \<Rightarrow> json option \<times> fields_view" where
  "take_key key f = (if \<not> fd_ok f then (None, f) else (json_member (fd_value f) key, f\<lparr>fd_known := fd_known f @ [key]\<rparr>))"

definition read_field :: "string \<Rightarrow> (json \<Rightarrow> string \<Rightarrow> 'a \<Rightarrow> 'a result) \<Rightarrow> 'a reader" where
  "read_field key parse = (\<lambda>(f, x). case take_key key f of
     (None, f') \<Rightarrow> (f', x)
   | (Some v, f') \<Rightarrow> (case parse v (path_of f' key) x of Inl e \<Rightarrow> (fd_fail e f', x) | Inr y \<Rightarrow> (f', y)))"

definition require_key :: "string \<Rightarrow> 'a reader" where
  "require_key key = (\<lambda>(f, x). (if fd_ok f \<and> json_member (fd_value f) key = None then fd_fail (config_error ''missing required field'' (path_of f key)) f else f, x))"

definition read_boolean :: "string \<Rightarrow> (bool \<Rightarrow> 'a \<Rightarrow> 'a) \<Rightarrow> 'a reader" where
  "read_boolean key put = read_field key (\<lambda>v path x. case v of JBool b \<Rightarrow> Inr (put b x) | _ \<Rightarrow> Inl (config_error ''expected boolean'' path))"

definition integer_value :: "json \<Rightarrow> string \<Rightarrow> int \<Rightarrow> int \<Rightarrow> int result" where
  "integer_value v path lo hi =
     (let bounded_value = (\<lambda>i. if i < lo then Inl (config_error (if lo = 1 then ''expected positive integer'' else ''expected non-negative integer'') path)
          else if hi < i then Inl (with_ctx ''max'' (show_int hi) (config_error ''integer is out of range'' path)) else Inr i) in
      case v of
        JUnsigned n \<Rightarrow> if i64_max < uint n then Inl (config_error ''integer is out of range'' path) else bounded_value (uint n)
      | JInteger i \<Rightarrow> bounded_value i
      | _ \<Rightarrow> Inl (config_error ''expected integer'' path))"

definition read_integer :: "string \<Rightarrow> (int \<Rightarrow> 'a \<Rightarrow> 'a) \<Rightarrow> int \<Rightarrow> int \<Rightarrow> 'a reader" where
  "read_integer key put lo hi = read_field key (\<lambda>v path x. rbind (integer_value v path lo hi) (\<lambda>i. Inr (put i x)))"

definition read_price :: "config_host \<Rightarrow> string \<Rightarrow> (rat \<Rightarrow> 'a \<Rightarrow> 'a) \<Rightarrow> 'a reader" where
  "read_price h key put = read_field key (\<lambda>v path x.
     if \<not> is_number v then Inl (config_error ''expected number'' path)
     else case ch_double h v of
       Some p \<Rightarrow> if p < 0 then Inl (config_error ''expected non-negative finite number'' path) else Inr (put p x)
     | None \<Rightarrow> Inl (config_error ''expected non-negative finite number'' path))"

definition config_string_value :: "config_host \<Rightarrow> json \<Rightarrow> string \<Rightarrow> bool \<Rightarrow> string result" where
  "config_string_value h v path non_empty = (case v of
     JString s \<Rightarrow> rbind (expand_env_string h path s) (\<lambda>t. if non_empty \<and> t = [] then Inl (config_error ''expected non-empty string'' path) else Inr t)
   | _ \<Rightarrow> Inl (config_error ''expected string'' path))"

fun string_items :: "config_host \<Rightarrow> json list \<Rightarrow> string \<Rightarrow> bool \<Rightarrow> nat \<Rightarrow> string list result" where
  "string_items h [] path non_empty i = Inr []"
| "string_items h (v # vs) path non_empty i = rbind (config_string_value h v (config_element_path path i) non_empty) (\<lambda>s.
     rbind (string_items h vs path non_empty (Suc i)) (\<lambda>ss. Inr (s # ss)))"

definition string_array :: "config_host \<Rightarrow> json \<Rightarrow> string \<Rightarrow> bool \<Rightarrow> string list result" where
  "string_array h v path non_empty = (case v of JArray vs \<Rightarrow> string_items h vs path non_empty 0 | _ \<Rightarrow> Inl (config_error ''expected array'' path))"

definition read_string :: "config_host \<Rightarrow> string \<Rightarrow> (string \<Rightarrow> 'a \<Rightarrow> 'a) \<Rightarrow> bool \<Rightarrow> 'a reader" where
  "read_string h key put non_empty = read_field key (\<lambda>v path x. rbind (config_string_value h v path non_empty) (\<lambda>s. Inr (put s x)))"

definition required_string_field :: "config_host \<Rightarrow> string \<Rightarrow> (string \<Rightarrow> 'a \<Rightarrow> 'a) \<Rightarrow> bool \<Rightarrow> 'a reader" where
  "required_string_field h key put non_empty = (\<lambda>s. read_string h key put non_empty (require_key key s))"

definition read_strings :: "config_host \<Rightarrow> string \<Rightarrow> (string list \<Rightarrow> 'a \<Rightarrow> 'a) \<Rightarrow> bool \<Rightarrow> 'a reader" where
  "read_strings h key put non_empty = read_field key (\<lambda>v path x. rbind (string_array h v path non_empty) (\<lambda>ss. Inr (put ss x)))"

fun unknown_keys :: "fields_view \<Rightarrow> string list \<Rightarrow> parse_state \<Rightarrow> unit result \<times> parse_state" where
  "unknown_keys f [] st = (Inr (), st)"
| "unknown_keys f (key # keys) st =
     (if key \<in> set (fd_known f) then unknown_keys f keys st
      else if ps_strict st then (Inl (config_error ''unknown config field'' (path_of f key)), st)
      else unknown_keys f keys (st\<lparr>ps_warnings := ps_warnings st @ [\<lparr>cw_path = path_of f key, cw_message = ''unknown config field''\<rparr>]\<rparr>))"

definition finish_fields :: "fields_view \<Rightarrow> unit result \<times> parse_state" where
  "finish_fields f = (case fd_error f of Some e \<Rightarrow> (Inl e, fd_state f) | None \<Rightarrow> unknown_keys f (map fst (json_items (fd_value f))) (fd_state f))"

definition read_nested :: "json \<Rightarrow> string \<Rightarrow> 'a reader \<Rightarrow> 'a reader" where
  "read_nested v path parse = (\<lambda>(f, x).
     let g = make_fields v path (fd_state f); (g', x') = (if fd_ok g then parse (g, x) else (g, x)); (r, st) = finish_fields g'; f' = f\<lparr>fd_state := st\<rparr> in
     case r of Inl e \<Rightarrow> (fd_fail e f', x') | Inr _ \<Rightarrow> (f', x'))"

definition read_object :: "string \<Rightarrow> ('a \<Rightarrow> 'b) \<Rightarrow> ('b \<Rightarrow> 'a \<Rightarrow> 'a) \<Rightarrow> 'b reader \<Rightarrow> 'a reader" where
  "read_object key sub put parse = (\<lambda>(f, x). case take_key key f of
     (None, f') \<Rightarrow> (f', x)
   | (Some v, f') \<Rightarrow> (case read_nested v (path_of f' key) parse (f', sub x) of (f'', y) \<Rightarrow> (f'', put y x)))"

fun read_items :: "string \<Rightarrow> (string \<Rightarrow> 'b) \<Rightarrow> 'b reader \<Rightarrow> (string \<times> json) list \<Rightarrow> fields_view \<times> 'b list \<Rightarrow> fields_view \<times> 'b list" where
  "read_items base new parse [] (f, xs) = (f, xs)"
| "read_items base new parse ((name, v) # kvs) (f, xs) = (case read_nested v (config_child_path base name) parse (f, new name) of
     (f', x) \<Rightarrow> if fd_ok f' then read_items base new parse kvs (f', xs @ [x]) else (f', xs))"

definition read_entries :: "string \<Rightarrow> (string \<Rightarrow> 'b) \<Rightarrow> ('a \<Rightarrow> 'b list) \<Rightarrow> ('b list \<Rightarrow> 'a \<Rightarrow> 'a) \<Rightarrow> 'b reader \<Rightarrow> 'a reader" where
  "read_entries key new sub put parse = (\<lambda>(f, x). case take_key key f of
     (None, f') \<Rightarrow> (f', x)
   | (Some v, f') \<Rightarrow>
       if \<not> is_object v then (fd_fail (config_error ''expected object'' (path_of f' key)) f', x)
       else (case read_items (path_of f' key) new parse (json_items v) (f', sub x) of (f'', ys) \<Rightarrow> (f'', put ys x)))"

definition run_steps :: "'a reader list \<Rightarrow> 'a reader" where
  "run_steps steps s = fold (\<lambda>step s. step s) steps s"

section \<open>The document\<close>

definition parse_tool_output :: "tool_output_config reader" where
  "parse_tool_output = run_steps
     [read_integer ''max_text_bytes'' (\<lambda>i x. x\<lparr>to_max_text_bytes := i\<rparr>) 1 i64_max, read_integer ''max_data_bytes'' (\<lambda>i x. x\<lparr>to_max_data_bytes := i\<rparr>) 1 i64_max]"

definition parse_tool_scheduler :: "tool_scheduler_config reader" where
  "parse_tool_scheduler = run_steps
     [read_integer ''max_parallel_tools'' (\<lambda>i x. x\<lparr>sc_max_parallel_tools := i\<rparr>) 1 i64_max,
      read_integer ''per_call_timeout_ms'' (\<lambda>i x. x\<lparr>sc_per_call_timeout_ms := i\<rparr>) 1 i64_max]"

fun tool_name_items :: "json list \<Rightarrow> string \<Rightarrow> nat \<Rightarrow> string list result" where
  "tool_name_items [] path i = Inr []"
| "tool_name_items (v # vs) path i = (case v of
     JString s \<Rightarrow> if s = [] then Inl (config_error ''expected non-empty string'' (config_element_path path i))
       else rbind (tool_name_items vs path (Suc i)) (\<lambda>ss. Inr (s # ss))
   | _ \<Rightarrow> Inl (config_error ''expected non-empty string'' (config_element_path path i)))"

definition active_tools_message :: string where
  \<open>active_tools_message = ''expected "defaults" or array of tool names''\<close>

definition parse_prompt :: "active_tools_config reader" where
  "parse_prompt = read_field ''active_tools'' (\<lambda>v path x. case v of
     JString s \<Rightarrow> if s \<noteq> ''defaults'' then Inl (with_ctx ''value'' s (config_error active_tools_message path)) else Inr x
   | JArray vs \<Rightarrow> rbind (tool_name_items vs path 0) (\<lambda>names. Inr \<lparr>at_use_defaults = False, at_tool_names = names\<rparr>)
   | _ \<Rightarrow> Inl (config_error active_tools_message path))"

definition parse_stream :: "int reader" where
  "parse_stream = read_integer ''max_bytes'' (\<lambda>i _. i) 1 i64_max"

definition parse_runtime :: "runtime_config reader" where
  "parse_runtime = run_steps
     [read_integer ''workers'' (\<lambda>i x. x\<lparr>rc_workers := i\<rparr>) 1 i64_max, read_integer ''request_timeout_ms'' (\<lambda>i x. x\<lparr>rc_request_timeout_ms := i\<rparr>) 1 i64_max,
      read_object ''tool_output'' rc_tool_output (\<lambda>y x. x\<lparr>rc_tool_output := y\<rparr>) parse_tool_output,
      read_object ''tool_scheduler'' rc_tool_scheduler (\<lambda>y x. x\<lparr>rc_tool_scheduler := y\<rparr>) parse_tool_scheduler,
      read_object ''prompt'' rc_active_tools (\<lambda>y x. x\<lparr>rc_active_tools := y\<rparr>) parse_prompt,
      read_object ''stream'' rc_stream_max_bytes (\<lambda>y x. x\<lparr>rc_stream_max_bytes := y\<rparr>) parse_stream]"

fun repeated_kinds :: "string list \<Rightarrow> string list \<Rightarrow> string \<Rightarrow> nat \<Rightarrow> fields_view \<Rightarrow> fields_view" where
  "repeated_kinds seen [] path i f = f"
| "repeated_kinds seen (k # ks) path i f = repeated_kinds (seen @ [k]) ks path (Suc i)
     (if k \<in> set seen then fd_fail (config_error ''long-term memory recall kind must be unique'' (config_element_path path i)) f else f)"

definition check_kinds :: "recall_config reader" where
  "check_kinds = (\<lambda>(f, x).
     if \<not> fd_ok f \<or> json_member (fd_value f) ''kinds'' = None then (f, x)
     else let path = path_of f ''kinds'';
              f' = (if lc_kinds x = [] then fd_fail (config_error ''long-term memory recall kinds must not be empty'' path) f else f) in
       (repeated_kinds [] (lc_kinds x) path 0 f', x))"

definition parse_recall :: "config_host \<Rightarrow> recall_config reader" where
  "parse_recall h = run_steps
     [read_boolean ''enabled'' (\<lambda>b x. x\<lparr>lc_enabled := b\<rparr>), read_integer ''limit'' (\<lambda>i x. x\<lparr>lc_limit := i\<rparr>) 1 20,
      read_strings h ''kinds'' (\<lambda>ks x. x\<lparr>lc_kinds := ks\<rparr>) True, check_kinds]"

definition parse_memory :: "config_host \<Rightarrow> recall_config reader" where
  "parse_memory h = read_object ''longterm'' (\<lambda>x. x) (\<lambda>y _. y) (read_object ''recall'' (\<lambda>x. x) (\<lambda>y _. y) (parse_recall h))"

definition parse_cache :: "cache_config option reader" where
  "parse_cache = (\<lambda>(f, x). run_steps
     [read_boolean ''enabled'' (\<lambda>b. map_option (\<lambda>y. y\<lparr>cc_enabled := b\<rparr>)), read_integer ''min_prefix_bytes'' (\<lambda>i. map_option (\<lambda>y. y\<lparr>cc_min_prefix_bytes := i\<rparr>)) 0 i64_max]
     (f, Some \<lparr>cc_enabled = True, cc_min_prefix_bytes = 0\<rparr>))"

definition parse_pricing :: "config_host \<Rightarrow> pricing_config reader" where
  "parse_pricing h = run_steps
     [read_price h ''input_per_million_usd'' (\<lambda>p x. x\<lparr>pg_input := Some p\<rparr>), read_price h ''output_per_million_usd'' (\<lambda>p x. x\<lparr>pg_output := Some p\<rparr>),
      read_price h ''cache_creation_per_million_usd'' (\<lambda>p x. x\<lparr>pg_cache_creation := Some p\<rparr>), read_price h ''cache_read_per_million_usd'' (\<lambda>p x. x\<lparr>pg_cache_read := Some p\<rparr>)]"

definition u32_max :: int where
  "u32_max = 2 ^ 32 - 1"

definition parse_profile :: "config_host \<Rightarrow> profile_config reader" where
  "parse_profile h = run_steps
     [required_string_field h ''provider'' (\<lambda>s x. x\<lparr>pf_provider := s\<rparr>) False, read_string h ''protocol'' (\<lambda>s x. x\<lparr>pf_protocol := Some s\<rparr>) True,
      required_string_field h ''model'' (\<lambda>s x. x\<lparr>pf_model := s\<rparr>) False, required_string_field h ''base_url'' (\<lambda>s x. x\<lparr>pf_base_url := s\<rparr>) False,
      required_string_field h ''api_key_env'' (\<lambda>s x. x\<lparr>pf_api_key_env := s\<rparr>) False,
      read_object ''pricing'' pf_pricing (\<lambda>y x. x\<lparr>pf_pricing := y\<rparr>) (parse_pricing h),
      read_integer ''thinking_budget'' (\<lambda>i x. x\<lparr>pf_thinking_budget := Some (of_int i)\<rparr>) 1 u32_max,
      read_object ''cache'' pf_cache (\<lambda>y x. x\<lparr>pf_cache := y\<rparr>) parse_cache]"

definition parse_route :: "config_host \<Rightarrow> route_config reader" where
  "parse_route h = run_steps
     [required_string_field h ''primary'' (\<lambda>s x. x\<lparr>rt_primary_profile := s\<rparr>) False, read_strings h ''fallbacks'' (\<lambda>ss x. x\<lparr>rt_fallback_profiles := ss\<rparr>) False]"

definition all_capabilities :: "capability list" where
  "all_capabilities = [read_file, write_file, edit_file, delete_path, list_directory, egress_http, egress_websocket, spawn_subprocess, signal_subprocess, external_mcp, runtime_loader]"

definition parse_capability :: "string \<Rightarrow> capability option" where
  "parse_capability t = find (\<lambda>c. capability_name c = t) all_capabilities"

definition check_input_pattern :: "config_host \<Rightarrow> rule_config reader" where
  "check_input_pattern h = (\<lambda>(f, x). case ru_input_pattern x of
     Some p \<Rightarrow> (case ch_regex_error h p of
         Some e \<Rightarrow> (if fd_ok f then fd_fail (with_ctx ''regex_error'' e (config_error ''invalid input_pattern regex'' (path_of f ''input_pattern''))) f else f, x)
       | None \<Rightarrow> (f, x))
   | None \<Rightarrow> (f, x))"

definition parse_rule :: "config_host \<Rightarrow> rule_config reader" where
  "parse_rule h = run_steps
     [required_string_field h ''tool_pattern'' (\<lambda>s x. x\<lparr>ru_tool_pattern := s\<rparr>) True,
      read_field ''capability'' (\<lambda>v path x. case v of
          JString t \<Rightarrow> (case parse_capability t of
              Some c \<Rightarrow> Inr (x\<lparr>ru_capability := Some c\<rparr>)
            | None \<Rightarrow> Inl (with_ctx ''capability'' t (config_error ''unknown capability spelling'' path)))
        | _ \<Rightarrow> Inl (config_error ''expected string'' path)),
      read_string h ''input_pattern'' (\<lambda>s x. x\<lparr>ru_input_pattern := Some s\<rparr>) True, check_input_pattern h,
      read_integer ''replay_max'' (\<lambda>i x. x\<lparr>ru_replay_max := Some (of_int i)\<rparr>) 0 u32_max,
      read_integer ''approval_ttl_seconds'' (\<lambda>i x. x\<lparr>ru_approval_ttl_seconds := Some i\<rparr>) 0 i64_max]"

definition parse_workspace :: "config_host \<Rightarrow> permissions_config reader" where
  "parse_workspace h = run_steps
     [read_strings h ''extra_read_roots'' (\<lambda>ss x. x\<lparr>pm_extra_read_roots := ss\<rparr>) False, read_strings h ''extra_write_roots'' (\<lambda>ss x. x\<lparr>pm_extra_write_roots := ss\<rparr>) False]"

definition parse_verdict :: "string \<Rightarrow> verdict option" where
  "parse_verdict key = (if key = ''allow'' then Some Allow else if key = ''deny'' then Some Deny else if key = ''ask'' then Some Ask else None)"

fun parse_rules :: "config_host \<Rightarrow> verdict \<Rightarrow> string \<Rightarrow> json list \<Rightarrow> nat \<Rightarrow> permissions_config reader" where
  "parse_rules h verdict path [] i (f, x) = (f, x)"
| "parse_rules h verdict path (v # vs) i (f, x) =
     (if \<not> fd_ok f then (f, x)
      else case read_nested v (config_element_path path i) (parse_rule h) (f, new_rule verdict) of
        (f', r) \<Rightarrow> parse_rules h verdict path vs (Suc i) (f', x\<lparr>pm_rules := pm_rules x @ [r]\<rparr>))"

fun parse_rule_lists :: "config_host \<Rightarrow> string list \<Rightarrow> permissions_config reader" where
  "parse_rule_lists h [] (f, x) = (f, x)"
| "parse_rule_lists h (key # keys) (f, x) = (case parse_verdict key of
     None \<Rightarrow> parse_rule_lists h keys (f, x)
   | Some verdict \<Rightarrow> (case take_key key f of
       (None, f') \<Rightarrow> (f', x)
     | (Some v, f') \<Rightarrow> (case v of
         JArray vs \<Rightarrow> parse_rule_lists h keys (parse_rules h verdict (path_of f' key) vs 0 (f', x))
       | _ \<Rightarrow> (fd_fail (config_error ''expected array'' (path_of f' key)) f', x))))"

definition parse_permissions :: "config_host \<Rightarrow> permissions_config reader" where
  "parse_permissions h = run_steps
     [read_object ''workspace'' (\<lambda>x. x) (\<lambda>y _. y) (parse_workspace h), \<lambda>(f, x). parse_rule_lists h (map fst (json_items (fd_value f))) (f, x)]"

definition set_strict :: "load_options \<Rightarrow> config reader" where
  "set_strict o1 = (\<lambda>(f, c). (f\<lparr>fd_state := (fd_state f)\<lparr>ps_strict := lo_strict_unknown_fields o1 \<or> cf_strict_config c\<rparr>\<rparr>, c))"

definition document_steps :: "config_host \<Rightarrow> load_options \<Rightarrow> config reader list" where
  "document_steps h o1 =
     [read_boolean ''strict_config'' (\<lambda>b x. x\<lparr>cf_strict_config := b\<rparr>), set_strict o1,
      read_object ''runtime'' cf_runtime (\<lambda>y x. x\<lparr>cf_runtime := y\<rparr>) parse_runtime,
      read_entries ''profiles'' new_profile cf_profiles (\<lambda>y x. x\<lparr>cf_profiles := y\<rparr>) (parse_profile h),
      read_entries ''routes'' new_route cf_routes (\<lambda>y x. x\<lparr>cf_routes := y\<rparr>) (parse_route h),
      read_object ''trace'' cf_trace_enabled (\<lambda>y x. x\<lparr>cf_trace_enabled := y\<rparr>) (read_boolean ''enabled'' (\<lambda>b _. b)),
      read_object ''hooks'' cf_hooks_timeout_ms (\<lambda>y x. x\<lparr>cf_hooks_timeout_ms := y\<rparr>) (read_integer ''timeout_ms'' (\<lambda>i _. i) 1 i64_max),
      read_object ''memory'' cf_recall (\<lambda>y x. x\<lparr>cf_recall := y\<rparr>) (parse_memory h),
      read_object ''permissions'' cf_permissions (\<lambda>y x. x\<lparr>cf_permissions := y\<rparr>) (parse_permissions h)]"

definition parse_document :: "config_host \<Rightarrow> json \<Rightarrow> load_options \<Rightarrow> config result" where
  "parse_document h doc o1 =
     (case run_steps (document_steps h o1) (make_fields doc ''$'' \<lparr>ps_strict = False, ps_warnings = []\<rparr>, default_config) of
        (f, c) \<Rightarrow> (case finish_fields f of (Inl e, st) \<Rightarrow> Inl e | (Inr _, st) \<Rightarrow> Inr (c\<lparr>cf_warnings := ps_warnings st\<rparr>)))"

definition parse_config :: "config_host \<Rightarrow> string \<Rightarrow> load_options \<Rightarrow> config result" where
  "parse_config h contents o1 = (case json_parse (ch_lib h) contents of
     Inl detail \<Rightarrow> Inl (with_ctx ''detail'' detail (err_config ''failed to parse config JSON''))
   | Inr doc \<Rightarrow> parse_document h doc o1)"

text \<open>The file system as \<^verbatim>\<open>load_file\<close> uses it; an error is its message.\<close>

record config_files =
  fs_exists :: "string \<Rightarrow> string + bool"
  fs_file_size :: "string \<Rightarrow> string + nat"
  fs_opens :: "string \<Rightarrow> bool"
  fs_contents :: "string \<Rightarrow> string option"

definition load_file :: "config_host \<Rightarrow> config_files \<Rightarrow> string \<Rightarrow> load_options \<Rightarrow> config result" where
  "load_file h fs path o1 =
     (if path = [] then Inl (err_invalid_argument ''config path is empty'')
      else case fs_exists fs path of
        Inl detail \<Rightarrow> Inl (with_ctx ''detail'' detail (with_ctx ''path'' path (err_io ''failed to check config file'')))
      | Inr present \<Rightarrow>
          if \<not> present then Inl (with_ctx ''path'' path (err_not_found ''config file not found''))
          else (case fs_file_size fs path of
            Inl detail \<Rightarrow> Inl (with_ctx ''detail'' detail (with_ctx ''path'' path (err_io ''failed to stat config file'')))
          | Inr n \<Rightarrow>
              if lo_max_bytes o1 < n
              then Inl (with_ctx ''max_bytes'' (show_nat (lo_max_bytes o1)) (with_ctx ''size'' (show_nat n) (with_ctx ''path'' path
                (err_invalid_argument ''config file exceeds max_bytes''))))
              else if \<not> fs_opens fs path then Inl (with_ctx ''path'' path (err_io ''failed to open config file''))
              else (case fs_contents fs path of
                None \<Rightarrow> Inl (with_ctx ''path'' path (err_io ''failed to read config file''))
              | Some contents \<Rightarrow> parse_config h contents o1)))"

section \<open>References are expanded once\<close>

text \<open>A text as literal pieces and references; a reference has a name and perhaps a default.\<close>

type_synonym env_ref = "string \<times> string option"

definition ref_text :: "env_ref \<Rightarrow> string" where
  "ref_text r = ''${'' @ fst r @ (case snd r of None \<Rightarrow> [] | Some d \<Rightarrow> '':-'' @ d) @ ''}''"

definition ref_ok :: "env_ref \<Rightarrow> bool" where
  "ref_ok r \<longleftrightarrow> valid_env_name (fst r) \<and> (case snd r of None \<Rightarrow> True | Some d \<Rightarrow> CHR ''}'' \<notin> set d)"

definition ref_value :: "config_host \<Rightarrow> env_ref \<Rightarrow> string option" where
  "ref_value h r = (case ch_getenv h (fst r) of Some v \<Rightarrow> if v = [] \<and> snd r \<noteq> None then snd r else Some v | None \<Rightarrow> snd r)"

definition plain :: "string \<Rightarrow> bool" where
  "plain t \<longleftrightarrow> find_sub ''${'' t = None"

fun template_text :: "(string \<times> env_ref) list \<Rightarrow> string \<Rightarrow> string" where
  "template_text [] t = t"
| "template_text ((lit, r) # rs) t = lit @ ref_text r @ template_text rs t"

fun template_value :: "config_host \<Rightarrow> string \<Rightarrow> (string \<times> env_ref) list \<Rightarrow> string \<Rightarrow> string result" where
  "template_value h path [] t = Inr t"
| "template_value h path ((lit, r) # rs) t = (case ref_value h r of
     None \<Rightarrow> Inl (with_ctx ''name'' (fst r) (config_error ''missing environment variable'' path))
   | Some v \<Rightarrow> rbind (template_value h path rs t) (\<lambda>rest. Inr (lit @ v @ rest)))"

lemma find_open: "plain lit \<Longrightarrow> find_sub ''${'' (lit @ ''${'' @ rest) = Some (length lit)"
proof -
  assume lit: "plain lit"
  have "\<not> prefix ''${'' (drop i (lit @ ''${'' @ rest))" if i: "i < length lit" for i
  proof
    assume "prefix ''${'' (drop i (lit @ ''${'' @ rest))"
    moreover have "drop i (lit @ ''${'' @ rest) = drop i lit @ ''${'' @ rest" using i by simp
    moreover obtain c cs where "drop i lit = c # cs" using Cons_nth_drop_Suc [OF i] by metis
    ultimately have "prefix ''${'' (drop i lit)" by (cases cs) auto
    then show False using find_sub_None [of "''${''" lit i] lit i by (simp add: plain_def)
  qed
  then show ?thesis unfolding find_sub_Some_iff by auto
qed

lemma find_char: "c \<notin> set t \<Longrightarrow> find_sub (c # cs) (t @ (c # cs) @ rest) = Some (length t)"
  unfolding find_sub_Some_iff
proof (intro conjI allI impI)
  fix i assume c: "c \<notin> set t" "i < length t"
  then have "drop i t = t ! i # drop (Suc i) t" "t ! i \<noteq> c" using Cons_nth_drop_Suc [of i t] by (auto simp: nth_mem) 
  then show "\<not> prefix (c # cs) (drop i (t @ (c # cs) @ rest))" using c(2) by auto
qed auto

lemma find_char_None: "c \<notin> set t \<Longrightarrow> find_sub (c # cs) t = None"
proof (rule ccontr)
  assume c: "c \<notin> set t" and "find_sub (c # cs) t \<noteq> None"
  then obtain p where "prefix (c # cs) (drop p t)" by (auto simp: find_sub_Some_iff)
  then have "c \<in> set (drop p t)" by (cases "drop p t") auto
  then show False using c in_set_dropD by metis
qed

lemma env_name_chars: "valid_env_name n \<Longrightarrow> CHR '':'' \<notin> set n \<and> CHR ''}'' \<notin> set n"
  by (auto simp: valid_env_name_def list_all_iff is_alnum_def)

lemma expand_reference_value:
  assumes "ref_ok r"
  shows "expand_reference h path (fst r @ (case snd r of None \<Rightarrow> [] | Some d \<Rightarrow> '':-'' @ d)) = (case ref_value h r of
    None \<Rightarrow> Inl (with_ctx ''name'' (fst r) (config_error ''missing environment variable'' path)) | Some v \<Rightarrow> Inr v)"
proof (cases "snd r")
  case None
  then show ?thesis using assms env_name_chars [of "fst r"] find_char_None [of "CHR '':''" "fst r" "''-''"]
    by (auto simp: expand_reference_def ref_ok_def ref_value_def split: option.split)
next
  case (Some d)
  then have "find_sub '':-'' (fst r @ '':-'' @ d) = Some (length (fst r))"
    using assms env_name_chars [of "fst r"] find_char [of "CHR '':''" "fst r" "''-''" d] by (simp add: ref_ok_def)
  then show ?thesis using assms Some by (auto simp: expand_reference_def ref_ok_def ref_value_def Let_def split: option.split)
qed

text \<open>
  C38: References to the environment are expanded once, from left to right. A text made of literal pieces and references becomes the pieces with the values: the variable, or the default when it
  is unset or empty and there is one; what a value contains is never looked at again. The first reference without a value is the error.
\<close>

theorem expand_env_template:
  assumes "list_all (\<lambda>(lit, r). plain lit \<and> ref_ok r) rs" and "plain t"
  shows "expand_env_string h path (template_text rs t) = template_value h path rs t"
  using assms(1)
proof (induction rs)
  case Nil
  then show ?case using assms(2) by (subst expand_env_string.simps) (simp add: plain_def)
next
  case (Cons p rs)
  obtain lit r where p: "p = (lit, r)" by (cases p)
  define body where "body = fst r @ (case snd r of None \<Rightarrow> [] | Some d \<Rightarrow> '':-'' @ d)"
  have ok: "plain lit" "ref_ok r" using Cons.prems p by auto
  then have "CHR ''}'' \<notin> set body" using env_name_chars [of "fst r"] by (auto simp: body_def ref_ok_def split: option.splits)
  then have stop: "find_sub ''}'' (body @ ''}'' @ template_text rs t) = Some (length body)" by (rule find_char)
  have input: "template_text (p # rs) t = lit @ ''${'' @ body @ ''}'' @ template_text rs t" by (simp add: p ref_text_def body_def)
  have "expand_env_string h path (lit @ ''${'' @ body @ ''}'' @ template_text rs t) =
      rbind (expand_reference h path body) (\<lambda>v. rbind (expand_env_string h path (template_text rs t)) (\<lambda>rest. Inr (lit @ v @ rest)))"
    using find_open [OF ok(1), of "body @ ''}'' @ template_text rs t"] stop
    by (subst expand_env_string.simps) (simp add: numeral_3_eq_3)
  then show ?case using Cons expand_reference_value [OF ok(2), of h path] input
    by (simp add: body_def [symmetric] p split: option.split)
qed

theorem expand_env_template_witness:
  "expand_env_string \<lparr>ch_getenv = (\<lambda>n. if n = ''HOME'' then Some ''${X}'' else None), ch_double = (\<lambda>_. None), ch_regex_error = (\<lambda>_. None),
     ch_lib = \<lparr>json_parse = (\<lambda>_. Inr JNull), json_dump = (\<lambda>_. [])\<rparr>\<rparr> ''$.a'' ''a${HOME}b${Y:-c}d'' = Inr ''a${X}bcd''"
proof -
  have "list_all (\<lambda>(lit, r). plain lit \<and> ref_ok r) [(''a'', (''HOME'', None)), (''b'', (''Y'', Some ''c''))]" "plain ''d''"
    by (simp_all add: plain_def find_sub.simps ref_ok_def valid_env_name_def is_alnum_def)
  from expand_env_template [OF this] show ?thesis by (simp add: ref_text_def ref_value_def)
qed

end
