(* ===== verification/Config_Accepted.thy ===== *)
theory Config_Accepted
  imports Config_Load
begin

text \<open>
  What an accepted configuration says of its document. A declarative relation states, section by section of
  \<^verbatim>\<open>oran-config/config.cpp\<close>, which configuration a document denotes: a field that is given has the JSON type and
  the range it needs and its value is the one in the configuration, a field that is not given has its default.
  The readers of \<open>Config_Load\<close> are then verified as steps against it.
\<close>

section \<open>What a document denotes\<close>

fun int_of_json :: "json \<Rightarrow> int option" where
  "int_of_json (JUnsigned n) = Some (uint n)"
| "int_of_json (JInteger i) = Some i"
| "int_of_json _ = None"

text \<open>A field that may be given, and one that must be.\<close>

definition given :: "json \<Rightarrow> string \<Rightarrow> (json \<Rightarrow> 'b \<Rightarrow> bool) \<Rightarrow> 'b \<Rightarrow> 'b \<Rightarrow> bool" where
  "given obj key R old new \<longleftrightarrow> (case json_member obj key of None \<Rightarrow> new = old | Some j \<Rightarrow> R j new)"

definition needed :: "json \<Rightarrow> string \<Rightarrow> (json \<Rightarrow> 'b \<Rightarrow> bool) \<Rightarrow> 'b \<Rightarrow> bool" where
  "needed obj key R new \<longleftrightarrow> (\<exists>j. json_member obj key = Some j \<and> R j new)"

definition int_in :: "int \<Rightarrow> int \<Rightarrow> json \<Rightarrow> int \<Rightarrow> bool" where
  "int_in lo hi j i \<longleftrightarrow> int_of_json j = Some i \<and> lo \<le> i \<and> i \<le> hi"

text \<open>A 32-bit field holds the very integer of the document.\<close>

definition word_in :: "int \<Rightarrow> json \<Rightarrow> 32 word option \<Rightarrow> bool" where
  "word_in lo j w \<longleftrightarrow> (\<exists>u. w = Some u \<and> int_of_json j = Some (uint u) \<and> lo \<le> uint u)"

definition bool_is :: "json \<Rightarrow> bool \<Rightarrow> bool" where
  "bool_is j b \<longleftrightarrow> j = JBool b"

definition some_is :: "(json \<Rightarrow> 'b \<Rightarrow> bool) \<Rightarrow> json \<Rightarrow> 'b option \<Rightarrow> bool" where
  "some_is R j x \<longleftrightarrow> (\<exists>y. x = Some y \<and> R j y)"

definition text_is :: "config_host \<Rightarrow> bool \<Rightarrow> json \<Rightarrow> string \<Rightarrow> bool" where
  "text_is h non_empty j t \<longleftrightarrow> (\<exists>s path. j = JString s \<and> expand_env_string h path s = Inr t \<and> (non_empty \<longrightarrow> t \<noteq> []))"

definition texts_are :: "config_host \<Rightarrow> bool \<Rightarrow> json \<Rightarrow> string list \<Rightarrow> bool" where
  "texts_are h non_empty j ts \<longleftrightarrow> (\<exists>js. j = JArray js \<and> list_all2 (text_is h non_empty) js ts)"

definition price_is :: "config_host \<Rightarrow> json \<Rightarrow> rat option \<Rightarrow> bool" where
  "price_is h j p \<longleftrightarrow> (\<exists>q. p = Some q \<and> is_number j \<and> ch_double h j = Some q \<and> 0 \<le> q)"

definition kinds_are :: "config_host \<Rightarrow> json \<Rightarrow> string list \<Rightarrow> bool" where
  "kinds_are h j ks \<longleftrightarrow> texts_are h True j ks \<and> ks \<noteq> [] \<and> distinct ks"

definition pattern_is :: "config_host \<Rightarrow> json \<Rightarrow> string option \<Rightarrow> bool" where
  "pattern_is h j p \<longleftrightarrow> some_is (text_is h True) j p \<and> ch_regex_error h (the p) = None"

definition capability_is :: "json \<Rightarrow> capability option \<Rightarrow> bool" where
  "capability_is j x \<longleftrightarrow> (\<exists>c. x = Some c \<and> j = JString (capability_name c))"

definition active_tools_are :: "json \<Rightarrow> active_tools_config \<Rightarrow> bool" where
  "active_tools_are j a \<longleftrightarrow> j = JString ''defaults'' \<and> a = rc_active_tools default_runtime \<or>
     (\<exists>ts. j = JArray (map JString ts) \<and> [] \<notin> set ts \<and> a = \<lparr>at_use_defaults = False, at_tool_names = ts\<rparr>)"

definition tool_output_of :: "json \<Rightarrow> tool_output_config \<Rightarrow> bool" where
  "tool_output_of j x \<longleftrightarrow> is_object j \<and>
     given j ''max_text_bytes'' (int_in 1 i64_max) (256 * 1024) (to_max_text_bytes x) \<and>
     given j ''max_data_bytes'' (int_in 1 i64_max) (1024 * 1024) (to_max_data_bytes x)"

definition tool_scheduler_of :: "json \<Rightarrow> tool_scheduler_config \<Rightarrow> bool" where
  "tool_scheduler_of j x \<longleftrightarrow> is_object j \<and>
     given j ''max_parallel_tools'' (int_in 1 i64_max) 4 (sc_max_parallel_tools x) \<and>
     given j ''per_call_timeout_ms'' (int_in 1 i64_max) 60000 (sc_per_call_timeout_ms x)"

definition prompt_of :: "json \<Rightarrow> active_tools_config \<Rightarrow> bool" where
  "prompt_of j a \<longleftrightarrow> is_object j \<and> given j ''active_tools'' active_tools_are (rc_active_tools default_runtime) a"

definition stream_of :: "json \<Rightarrow> int \<Rightarrow> bool" where
  "stream_of j n \<longleftrightarrow> is_object j \<and> given j ''max_bytes'' (int_in 1 i64_max) (16 * 1024 * 1024) n"

definition runtime_of :: "json \<Rightarrow> runtime_config \<Rightarrow> bool" where
  "runtime_of j r \<longleftrightarrow> is_object j \<and>
     given j ''workers'' (int_in 1 i64_max) 4 (rc_workers r) \<and>
     given j ''request_timeout_ms'' (int_in 1 i64_max) 600000 (rc_request_timeout_ms r) \<and>
     given j ''tool_output'' tool_output_of (rc_tool_output default_runtime) (rc_tool_output r) \<and>
     given j ''tool_scheduler'' tool_scheduler_of (rc_tool_scheduler default_runtime) (rc_tool_scheduler r) \<and>
     given j ''prompt'' prompt_of (rc_active_tools default_runtime) (rc_active_tools r) \<and>
     given j ''stream'' stream_of (rc_stream_max_bytes default_runtime) (rc_stream_max_bytes r)"

definition pricing_of :: "config_host \<Rightarrow> json \<Rightarrow> pricing_config \<Rightarrow> bool" where
  "pricing_of h j p \<longleftrightarrow> is_object j \<and>
     given j ''input_per_million_usd'' (price_is h) None (pg_input p) \<and>
     given j ''output_per_million_usd'' (price_is h) None (pg_output p) \<and>
     given j ''cache_creation_per_million_usd'' (price_is h) None (pg_cache_creation p) \<and>
     given j ''cache_read_per_million_usd'' (price_is h) None (pg_cache_read p)"

definition cache_of :: "json \<Rightarrow> cache_config option \<Rightarrow> bool" where
  "cache_of j x \<longleftrightarrow> is_object j \<and> (\<exists>c. x = Some c \<and> given j ''enabled'' bool_is True (cc_enabled c) \<and>
     given j ''min_prefix_bytes'' (int_in 0 i64_max) 0 (cc_min_prefix_bytes c))"

definition profile_of :: "config_host \<Rightarrow> string \<times> json \<Rightarrow> profile_config \<Rightarrow> bool" where
  "profile_of h = (\<lambda>(name, j) p. is_object j \<and> pf_name p = name \<and>
     needed j ''provider'' (text_is h False) (pf_provider p) \<and>
     given j ''protocol'' (some_is (text_is h True)) None (pf_protocol p) \<and>
     needed j ''model'' (text_is h False) (pf_model p) \<and>
     needed j ''base_url'' (text_is h False) (pf_base_url p) \<and>
     needed j ''api_key_env'' (text_is h False) (pf_api_key_env p) \<and>
     given j ''pricing'' (pricing_of h) no_pricing (pf_pricing p) \<and>
     given j ''thinking_budget'' (word_in 1) None (pf_thinking_budget p) \<and>
     given j ''cache'' cache_of None (pf_cache p))"

definition route_of :: "config_host \<Rightarrow> string \<times> json \<Rightarrow> route_config \<Rightarrow> bool" where
  "route_of h = (\<lambda>(name, j) r. is_object j \<and> rt_name r = name \<and>
     needed j ''primary'' (text_is h False) (rt_primary_profile r) \<and>
     given j ''fallbacks'' (texts_are h False) [] (rt_fallback_profiles r))"

definition recall_of :: "config_host \<Rightarrow> json \<Rightarrow> recall_config \<Rightarrow> bool" where
  "recall_of h j r \<longleftrightarrow> is_object j \<and> given j ''enabled'' bool_is True (lc_enabled r) \<and>
     given j ''limit'' (int_in 1 20) 20 (lc_limit r) \<and> given j ''kinds'' (kinds_are h) [] (lc_kinds r)"

definition default_recall :: recall_config where
  "default_recall = \<lparr>lc_enabled = True, lc_limit = 20, lc_kinds = []\<rparr>"

definition memory_of :: "config_host \<Rightarrow> json \<Rightarrow> recall_config \<Rightarrow> bool" where
  "memory_of h j r \<longleftrightarrow> is_object j \<and> given j ''longterm'' (\<lambda>l r. is_object l \<and> given l ''recall'' (recall_of h) default_recall r) default_recall r"

definition rule_of :: "config_host \<Rightarrow> verdict \<times> json \<Rightarrow> rule_config \<Rightarrow> bool" where
  "rule_of h = (\<lambda>(verdict, j) r. is_object j \<and> ru_verdict r = verdict \<and>
     needed j ''tool_pattern'' (text_is h True) (ru_tool_pattern r) \<and>
     given j ''capability'' capability_is None (ru_capability r) \<and>
     given j ''input_pattern'' (pattern_is h) None (ru_input_pattern r) \<and>
     given j ''replay_max'' (word_in 0) None (ru_replay_max r) \<and>
     given j ''approval_ttl_seconds'' (some_is (int_in 0 i64_max)) None (ru_approval_ttl_seconds r))"

text \<open>The rules of a permissions section, list by list in the order of its keys, with the verdict of their list.\<close>

definition rule_sources :: "json \<Rightarrow> string list \<Rightarrow> (verdict \<times> json) list" where
  "rule_sources j keys = concat (map (\<lambda>key. case parse_verdict key of
     None \<Rightarrow> []
   | Some vd \<Rightarrow> (case json_member j key of Some (JArray js) \<Rightarrow> map (Pair vd) js | _ \<Rightarrow> [])) keys)"

definition rule_lists_ok :: "json \<Rightarrow> string list \<Rightarrow> bool" where
  "rule_lists_ok j keys \<longleftrightarrow> list_all (\<lambda>key. parse_verdict key = None \<or> (\<exists>js. json_member j key = Some (JArray js))) keys"

definition roots_of :: "config_host \<Rightarrow> json \<Rightarrow> string list \<times> string list \<Rightarrow> bool" where
  "roots_of h j = (\<lambda>(rs, ws). is_object j \<and> given j ''extra_read_roots'' (texts_are h False) [] rs \<and> given j ''extra_write_roots'' (texts_are h False) [] ws)"

definition permissions_of :: "config_host \<Rightarrow> json \<Rightarrow> permissions_config \<Rightarrow> bool" where
  "permissions_of h j p \<longleftrightarrow> is_object j \<and>
     given j ''workspace'' (roots_of h) ([], []) (pm_extra_read_roots p, pm_extra_write_roots p) \<and>
     rule_lists_ok j (map fst (json_items j)) \<and> list_all2 (rule_of h) (rule_sources j (map fst (json_items j))) (pm_rules p)"

definition entries_of :: "(string \<times> json \<Rightarrow> 'b \<Rightarrow> bool) \<Rightarrow> json \<Rightarrow> 'b list \<Rightarrow> bool" where
  "entries_of R j xs \<longleftrightarrow> is_object j \<and> list_all2 R (json_items j) xs"

definition config_of :: "config_host \<Rightarrow> json \<Rightarrow> config \<Rightarrow> bool" where
  "config_of h doc c \<longleftrightarrow> is_object doc \<and>
     given doc ''strict_config'' bool_is False (cf_strict_config c) \<and>
     given doc ''runtime'' runtime_of default_runtime (cf_runtime c) \<and>
     given doc ''profiles'' (entries_of (profile_of h)) [] (cf_profiles c) \<and>
     given doc ''routes'' (entries_of (route_of h)) [] (cf_routes c) \<and>
     given doc ''trace'' (\<lambda>j b. is_object j \<and> given j ''enabled'' bool_is True b) True (cf_trace_enabled c) \<and>
     given doc ''hooks'' (\<lambda>j n. is_object j \<and> given j ''timeout_ms'' (int_in 1 i64_max) 2000 n) 2000 (cf_hooks_timeout_ms c) \<and>
     given doc ''memory'' (memory_of h) default_recall (cf_recall c) \<and>
     given doc ''permissions'' (permissions_of h) \<lparr>pm_rules = [], pm_extra_read_roots = [], pm_extra_write_roots = []\<rparr> (cf_permissions c)"

lemma given_simps:
  "json_member obj key = None \<Longrightarrow> given obj key R old new \<longleftrightarrow> new = old"
  "json_member obj key = Some j \<Longrightarrow> given obj key R old new \<longleftrightarrow> R j new"
  "json_member obj key = Some j \<Longrightarrow> needed obj key R new \<longleftrightarrow> R j new"
  by (simp_all add: given_def needed_def)

section \<open>Readers as steps\<close>

text \<open>
  A step keeps the object and the path, only adds warnings, and none in strict mode; when it leaves no error there was
  none before and, on the object \<open>v\<close>, what held of the value read so far has become what should.
\<close>

definition grows :: "parse_state \<Rightarrow> parse_state \<Rightarrow> bool" where
  "grows st st' \<longleftrightarrow> ps_strict st' = ps_strict st \<and> prefix (ps_warnings st) (ps_warnings st') \<and> (ps_strict st \<longrightarrow> ps_warnings st' = ps_warnings st)"

definition reads :: "json \<Rightarrow> ('a \<Rightarrow> bool) \<Rightarrow> 'a reader \<Rightarrow> ('a \<Rightarrow> bool) \<Rightarrow> bool" where
  "reads v P step Q \<longleftrightarrow> (\<forall>f x f' y. step (f, x) = (f', y) \<longrightarrow>
     fd_value f' = fd_value f \<and> fd_path f' = fd_path f \<and> grows (fd_state f) (fd_state f') \<and>
     (fd_ok f' \<longrightarrow> fd_ok f \<and> (fd_value f = v \<and> P x \<longrightarrow> Q y)))"

lemma grows_refl [simp]: "grows st st"
  and grows_trans: "grows st st' \<Longrightarrow> grows st' st'' \<Longrightarrow> grows st st''"
  by (auto simp: grows_def)

lemma fail_simps [simp]:
  "fd_value (fd_fail e f) = fd_value f" "fd_path (fd_fail e f) = fd_path f" "fd_state (fd_fail e f) = fd_state f" "fd_known (fd_fail e f) = fd_known f" "\<not> fd_ok (fd_fail e f)"
  by (auto simp: fd_fail_def fd_ok_def)

lemma take_key_simps [simp]:
  "fd_value (snd (take_key key f)) = fd_value f" "fd_path (snd (take_key key f)) = fd_path f" "fd_state (snd (take_key key f)) = fd_state f" "fd_ok (snd (take_key key f)) = fd_ok f"
  by (auto simp: take_key_def fd_ok_def)

lemma take_keyE:
  obtains g where "take_key key f = (if fd_ok f then json_member (fd_value f) key else None, g)"
    "fd_value g = fd_value f" "fd_path g = fd_path f" "fd_state g = fd_state f" "fd_ok g = fd_ok f"
  using take_key_simps [of key f] by (cases "take_key key f") (auto simp: take_key_def split: if_splits)

lemma readsI:
  assumes "\<And>f x f' y. step (f, x) = (f', y) \<Longrightarrow> fd_value f' = fd_value f \<and> fd_path f' = fd_path f \<and> grows (fd_state f) (fd_state f') \<and>
    (fd_ok f' \<longrightarrow> fd_ok f \<and> (fd_value f = v \<and> P x \<longrightarrow> Q y))"
  shows "reads v P step Q"
  using assms unfolding reads_def by blast

lemma readsD:
  assumes "reads v P step Q" "step (f, x) = (f', y)"
  shows "fd_value f' = fd_value f" "fd_path f' = fd_path f" "grows (fd_state f) (fd_state f')" "fd_ok f' \<Longrightarrow> fd_ok f"
    "fd_ok f' \<Longrightarrow> fd_value f = v \<Longrightarrow> P x \<Longrightarrow> Q y"
  using assms unfolding reads_def by blast+

lemma reads_cong: "reads v P step Q \<Longrightarrow> (\<And>x. P' x \<Longrightarrow> P x) \<Longrightarrow> (\<And>x. Q x \<Longrightarrow> Q' x) \<Longrightarrow> reads v P' step Q'"
  unfolding reads_def by blast

lemma reads_any: "reads v P step Q \<Longrightarrow> (\<And>x. Q' x) \<Longrightarrow> reads v' P' step Q'"
  unfolding reads_def by blast

lemma reads_comp:
  assumes "reads v P step Q" "reads v Q step' R"
  shows "reads v P (\<lambda>s. step' (step s)) R"
proof (rule readsI)
  fix f x f' y assume run: "step' (step (f, x)) = (f', y)"
  obtain f1 x1 where 1: "step (f, x) = (f1, x1)" by (cases "step (f, x)")
  with run have 2: "step' (f1, x1) = (f', y)" by simp
  show "fd_value f' = fd_value f \<and> fd_path f' = fd_path f \<and> grows (fd_state f) (fd_state f') \<and> (fd_ok f' \<longrightarrow> fd_ok f \<and> (fd_value f = v \<and> P x \<longrightarrow> R y))"
    using readsD [OF assms(1) 1] readsD [OF assms(2) 2] grows_trans by auto
qed

lemma run_steps_simps: "run_steps [] = (\<lambda>s. s)" "run_steps (step # steps) = (\<lambda>s. run_steps steps (step s))"
  by (auto simp: run_steps_def fun_eq_iff)

lemma reads_conj: "reads v P step Q \<Longrightarrow> reads v P' step Q' \<Longrightarrow> reads v (\<lambda>x. P x \<and> P' x) step (\<lambda>x. Q x \<and> Q' x)"
  unfolding reads_def by blast

lemma reads_list: "reads v P step Q \<Longrightarrow> list_all (\<lambda>q. reads v q step q) qs \<Longrightarrow> reads v (\<lambda>x. P x \<and> list_all (\<lambda>q. q x) qs) step (\<lambda>x. Q x \<and> list_all (\<lambda>q. q x) qs)"
  by (induction qs) (auto intro: reads_cong dest: reads_conj [where P' = q and Q' = q for q])

text \<open>
  Fields read one after the other: each step turns its pending fact into its settled one, may use the facts settled
  before, and keeps the facts of the other fields.
\<close>

fun frames :: "json \<Rightarrow> ('a \<Rightarrow> bool) list \<Rightarrow> 'a reader list \<Rightarrow> ('a \<Rightarrow> bool) list \<Rightarrow> ('a \<Rightarrow> bool) list \<Rightarrow> bool" where
  "frames v settled [] [] [] \<longleftrightarrow> True"
| "frames v settled (step # steps) (p # ps) (q # qs) \<longleftrightarrow>
     reads v (\<lambda>x. p x \<and> list_all (\<lambda>r. r x) settled) step q \<and> list_all (\<lambda>r. reads v r step r) settled \<and>
     list_all (\<lambda>r. reads v r step r) ps \<and> frames v (q # settled) steps ps qs"
| "frames v settled _ _ _ \<longleftrightarrow> False"

lemma reads_frames:
  "frames v settled steps ps qs \<Longrightarrow>
     reads v (\<lambda>x. list_all (\<lambda>r. r x) settled \<and> list_all (\<lambda>r. r x) ps) (run_steps steps) (\<lambda>x. list_all (\<lambda>r. r x) settled \<and> list_all (\<lambda>r. r x) qs)"
proof (induction v settled steps ps qs rule: frames.induct)
  case (1 v settled)
  then show ?case unfolding run_steps_simps by (intro readsI) simp
next
  case (2 v settled step steps p ps q qs)
  have "reads v (\<lambda>x. (p x \<and> list_all (\<lambda>r. r x) settled) \<and> list_all (\<lambda>r. r x) (settled @ ps)) step (\<lambda>x. q x \<and> list_all (\<lambda>r. r x) (settled @ ps))"
    using 2(2) by (intro reads_list) auto
  then have "reads v (\<lambda>x. list_all (\<lambda>r. r x) settled \<and> list_all (\<lambda>r. r x) (p # ps)) step
      (\<lambda>x. list_all (\<lambda>r. r x) (q # settled) \<and> list_all (\<lambda>r. r x) ps)"
    by (rule reads_cong) auto
  from reads_comp [OF this 2(1)] 2(2) show ?case unfolding run_steps_simps by (auto intro: reads_cong)
qed auto

lemma reads_all: "frames v [] steps ps qs \<Longrightarrow> reads v (\<lambda>x. list_all (\<lambda>r. r x) ps) (run_steps steps) (\<lambda>x. list_all (\<lambda>r. r x) qs)"
  by (drule reads_frames) simp

lemma reads_field:
  assumes "\<And>x. json_member v key = None \<Longrightarrow> P x \<Longrightarrow> Q x"
    and "\<And>j path x y. json_member v key = Some j \<Longrightarrow> P x \<Longrightarrow> parse j path x = Inr y \<Longrightarrow> Q y"
  shows "reads v P (read_field key parse) Q"
proof (rule readsI)
  fix f x f' y assume run: "read_field key parse (f, x) = (f', y)"
  show "fd_value f' = fd_value f \<and> fd_path f' = fd_path f \<and> grows (fd_state f) (fd_state f') \<and> (fd_ok f' \<longrightarrow> fd_ok f \<and> (fd_value f = v \<and> P x \<longrightarrow> Q y))"
    using run assms by (cases rule: take_keyE [of key f]) (auto simp: read_field_def split: option.splits sum.splits if_splits)
qed

lemma reads_boolean:
  assumes "\<And>x. json_member v key = None \<Longrightarrow> P x \<Longrightarrow> Q x"
    and "\<And>j b x. json_member v key = Some j \<Longrightarrow> P x \<Longrightarrow> bool_is j b \<Longrightarrow> Q (put b x)"
  shows "reads v P (read_boolean key put) Q"
  unfolding read_boolean_def by (rule reads_field) (auto simp: bool_is_def assms split: json.splits)

lemma integer_value_in: "integer_value j path lo hi = Inr i \<Longrightarrow> int_in lo hi j i"
  by (auto simp: integer_value_def int_in_def Let_def split: json.splits if_splits)

lemma reads_integer:
  assumes "\<And>x. json_member v key = None \<Longrightarrow> P x \<Longrightarrow> Q x"
    and "\<And>j i x. json_member v key = Some j \<Longrightarrow> P x \<Longrightarrow> int_in lo hi j i \<Longrightarrow> Q (put i x)"
  shows "reads v P (read_integer key put lo hi) Q"
  unfolding read_integer_def by (rule reads_field) (auto simp: rbind_Inr_iff assms dest: integer_value_in)

lemma reads_price:
  assumes "\<And>x. json_member v key = None \<Longrightarrow> P x \<Longrightarrow> Q x"
    and "\<And>j p x. json_member v key = Some j \<Longrightarrow> P x \<Longrightarrow> price_is h j (Some p) \<Longrightarrow> Q (put p x)"
  shows "reads v P (read_price h key put) Q"
  unfolding read_price_def by (rule reads_field) (auto simp: price_is_def assms split: if_splits option.splits)

lemma string_value_is: "config_string_value h j path non_empty = Inr t \<Longrightarrow> text_is h non_empty j t"
  by (auto simp: config_string_value_def text_is_def rbind_Inr_iff split: json.splits if_splits)

lemma reads_string:
  assumes "\<And>x. json_member v key = None \<Longrightarrow> P x \<Longrightarrow> Q x"
    and "\<And>j t x. json_member v key = Some j \<Longrightarrow> P x \<Longrightarrow> text_is h non_empty j t \<Longrightarrow> Q (put t x)"
  shows "reads v P (read_string h key put non_empty) Q"
  unfolding read_string_def by (rule reads_field) (auto simp: rbind_Inr_iff assms dest: string_value_is)

lemma string_items_are: "string_items h js path non_empty i = Inr ts \<Longrightarrow> list_all2 (text_is h non_empty) js ts"
  by (induction js arbitrary: i ts) (auto simp: rbind_Inr_iff dest: string_value_is)

lemma reads_strings:
  assumes "\<And>x. json_member v key = None \<Longrightarrow> P x \<Longrightarrow> Q x"
    and "\<And>j ts x. json_member v key = Some j \<Longrightarrow> P x \<Longrightarrow> texts_are h non_empty j ts \<Longrightarrow> Q (put ts x)"
  shows "reads v P (read_strings h key put non_empty) Q"
  unfolding read_strings_def
  by (rule reads_field) (auto simp: rbind_Inr_iff string_array_def texts_are_def assms split: json.splits dest: string_items_are)

lemma reads_require: "reads v P (require_key key) (\<lambda>x. P x \<and> json_member v key \<noteq> None)"
  by (rule readsI) (auto simp: require_key_def split: if_splits)

lemma reads_required:
  assumes "\<And>j t x. json_member v key = Some j \<Longrightarrow> P x \<Longrightarrow> text_is h non_empty j t \<Longrightarrow> Q (put t x)"
  shows "reads v P (required_string_field h key put non_empty) Q"
  unfolding required_string_field_def by (rule reads_comp [OF reads_require reads_string]) (auto simp: assms)

lemma unknown_keys_grows: "unknown_keys f keys st = (r, st') \<Longrightarrow> grows st st'"
proof (induction keys arbitrary: st)
  case (Cons key keys)
  show ?case
  proof (cases "key \<in> set (fd_known f) \<or> ps_strict st")
    case True
    then show ?thesis using Cons by (auto split: if_splits)
  next
    case False
    define st1 where "st1 = st\<lparr>ps_warnings := ps_warnings st @ [\<lparr>cw_path = path_of f key, cw_message = ''unknown config field''\<rparr>]\<rparr>"
    have "grows st1 st'" using Cons False by (auto simp: st1_def)
    moreover have "grows st st1" using False by (simp add: grows_def st1_def)
    ultimately show ?thesis by (rule grows_trans [rotated])
  qed
qed simp

lemma finish_grows: "finish_fields f = (r, st) \<Longrightarrow> grows (fd_state f) st"
  by (auto simp: finish_fields_def split: option.splits dest: unknown_keys_grows)

lemma finish_ok: "finish_fields f = (Inr u, st) \<Longrightarrow> fd_ok f"
  by (auto simp: finish_fields_def fd_ok_def split: option.splits)

lemma make_fields_sel [simp]:
  "fd_value (make_fields j path st) = j" "fd_state (make_fields j path st) = st" "fd_ok (make_fields j path st) \<longleftrightarrow> is_object j"
  by (auto simp: make_fields_def Let_def fd_ok_def fd_fail_def)

lemma reads_nested:
  assumes "reads j P parse Q"
  shows "reads v P (read_nested j path parse) (\<lambda>y. is_object j \<and> Q y)"
proof (rule readsI)
  fix f x f' y assume run: "read_nested j path parse (f, x) = (f', y)"
  define g where "g = make_fields j path (fd_state f)"
  obtain g' x' where g': "(if fd_ok g then parse (g, x) else (g, x)) = (g', x')" by (cases "if fd_ok g then parse (g, x) else (g, x)")
  obtain r st where fin: "finish_fields g' = (r, st)" by (cases "finish_fields g'")
  have state: "grows (fd_state f) (fd_state g')" using g' readsD(3) [OF assms, of g x g' x'] by (auto simp: g_def split: if_splits)
  have ok: "is_object j \<and> (P x \<longrightarrow> Q x')" if "fd_ok g'" using g' readsD(4,5) [OF assms, of g x g' x'] that by (auto simp: g_def split: if_splits)
  have f': "y = x'" "f' = (case r of Inl e \<Rightarrow> fd_fail e (f\<lparr>fd_state := st\<rparr>) | Inr _ \<Rightarrow> f\<lparr>fd_state := st\<rparr>)"
    using run fin unfolding read_nested_def Let_def prod.case g_def [symmetric] g' by (auto split: sum.splits)
  show "fd_value f' = fd_value f \<and> fd_path f' = fd_path f \<and> grows (fd_state f) (fd_state f') \<and> (fd_ok f' \<longrightarrow> fd_ok f \<and> (fd_value f = v \<and> P x \<longrightarrow> is_object j \<and> Q y))"
    using f' ok finish_ok [of g' "()" st] fin grows_trans [OF state finish_grows [OF fin]]
    by (cases r) (simp_all, simp add: fd_ok_def)
qed

text \<open>An object under a key, read into a part of the value.\<close>

lemma reads_object:
  assumes parse: "\<And>j. reads j P' parse (Q' j)"
    and "\<And>x. json_member v key = None \<Longrightarrow> P x \<Longrightarrow> Q x" "\<And>x. P x \<Longrightarrow> P' (sub x)"
    and "\<And>j x y. json_member v key = Some j \<Longrightarrow> P x \<Longrightarrow> is_object j \<Longrightarrow> Q' j y \<Longrightarrow> Q (put y x)"
  shows "reads v P (read_object key sub put parse) Q"
proof (rule readsI)
  fix f x f' y assume run: "read_object key sub put parse (f, x) = (f', y)"
  obtain g where g: "take_key key f = (if fd_ok f then json_member (fd_value f) key else None, g)"
    "fd_value g = fd_value f" "fd_path g = fd_path f" "fd_state g = fd_state f" "fd_ok g = fd_ok f" by (rule take_keyE)
  show "fd_value f' = fd_value f \<and> fd_path f' = fd_path f \<and> grows (fd_state f) (fd_state f') \<and> (fd_ok f' \<longrightarrow> fd_ok f \<and> (fd_value f = v \<and> P x \<longrightarrow> Q y))"
  proof (cases "if fd_ok f then json_member (fd_value f) key else None")
    case None
    then show ?thesis using run g assms(2) by (auto simp: read_object_def split: if_splits)
  next
    case (Some j)
    obtain z where "read_nested j (path_of g key) parse (g, sub x) = (f', z)" "y = put z x"
      using run g Some by (auto simp: read_object_def split: prod.splits)
    then show ?thesis using readsD [OF reads_nested [OF parse, where v = "fd_value g"], of j "path_of g key" g "sub x" f' z] g assms(3,4) Some
      by (auto split: if_splits)
  qed
qed

lemma kept_object:
  assumes "reads j P' parse Q'" "\<And>y x. q x \<Longrightarrow> q (put y x)"
  shows "reads v q (read_object key sub put parse) q"
  by (rule reads_object [where P' = "\<lambda>_. True" and Q' = "\<lambda>_ _. True"]) (auto intro: reads_any [OF assms(1)] assms(2))

lemma reads_items:
  assumes parse: "\<And>name j. reads j (\<lambda>x. x = new name) parse (R (name, j))"
    and "read_items base new parse kvs (f, xs) = (f', ys)"
  shows "fd_value f' = fd_value f \<and> fd_path f' = fd_path f \<and> grows (fd_state f) (fd_state f') \<and>
    (fd_ok f' \<longrightarrow> fd_ok f \<and> (\<exists>zs. ys = xs @ zs \<and> list_all2 (\<lambda>kv x. is_object (snd kv) \<and> R kv x) kvs zs))"
  using assms(2)
proof (induction kvs arbitrary: f xs)
  case (Cons kv kvs)
  obtain name j where kv: "kv = (name, j)" by (cases kv)
  obtain g x where g: "read_nested j (config_child_path base name) parse (f, new name) = (g, x)"
    by (cases "read_nested j (config_child_path base name) parse (f, new name)")
  note step = readsD [OF reads_nested [OF parse, where v = "fd_value f"] g]
  show ?case
  proof (cases "fd_ok g")
    case True
    then have "read_items base new parse kvs (g, xs @ [x]) = (f', ys)" using Cons.prems g kv by simp
    from Cons.IH [OF this] show ?thesis using step True grows_trans kv by (fastforce intro: list_all2_Cons [THEN iffD2])
  next
    case False
    then show ?thesis using Cons.prems g kv step by auto
  qed
qed simp

lemma reads_entries:
  assumes parse: "\<And>name j. reads j (\<lambda>x. x = new name) parse (R (name, j))"
    and "\<And>x. json_member v key = None \<Longrightarrow> P x \<Longrightarrow> Q x"
    and "\<And>j x zs. json_member v key = Some j \<Longrightarrow> P x \<Longrightarrow> entries_of (\<lambda>kv x. is_object (snd kv) \<and> R kv x) j zs \<Longrightarrow> Q (put (sub x @ zs) x)"
  shows "reads v P (read_entries key new sub put parse) Q"
proof (rule readsI)
  fix f x f' y assume run: "read_entries key new sub put parse (f, x) = (f', y)"
  obtain g where g: "take_key key f = (if fd_ok f then json_member (fd_value f) key else None, g)"
    "fd_value g = fd_value f" "fd_path g = fd_path f" "fd_state g = fd_state f" "fd_ok g = fd_ok f" by (rule take_keyE)
  show "fd_value f' = fd_value f \<and> fd_path f' = fd_path f \<and> grows (fd_state f) (fd_state f') \<and> (fd_ok f' \<longrightarrow> fd_ok f \<and> (fd_value f = v \<and> P x \<longrightarrow> Q y))"
  proof (cases "if fd_ok f then json_member (fd_value f) key else None")
    case None
    then show ?thesis using run g assms(2) by (auto simp: read_entries_def split: if_splits)
  next
    case (Some j)
    show ?thesis
    proof (cases "is_object j")
      case True
      then obtain ys where ys: "read_items (path_of g key) new parse (json_items j) (g, sub x) = (f', ys)" "y = put ys x"
        using run g Some by (auto simp: read_entries_def split: prod.splits)
      from reads_items [OF parse ys(1)] show ?thesis using ys(2) g assms(3) Some True by (auto simp: entries_of_def split: if_splits)
    qed (use run g Some in \<open>auto simp: read_entries_def\<close>)
  qed
qed

lemma kept_entries:
  assumes "\<And>j. reads j P' parse (Q' j)" "\<And>y x. q x \<Longrightarrow> q (put y x)"
  shows "reads v q (read_entries key new sub put parse) q"
  by (rule reads_entries [where R = "\<lambda>_ _. True"]) (auto intro: reads_any [OF assms(1)] assms(2))

lemmas field_rules = reads_boolean reads_integer reads_price reads_string reads_strings reads_required

section \<open>The sections of a document\<close>

lemma reads_tool_output: "reads j (\<lambda>x. x = rc_tool_output default_runtime) parse_tool_output
  (\<lambda>x. given j ''max_text_bytes'' (int_in 1 i64_max) (256 * 1024) (to_max_text_bytes x) \<and> given j ''max_data_bytes'' (int_in 1 i64_max) (1024 * 1024) (to_max_data_bytes x))"
  unfolding parse_tool_output_def
  by (rule reads_cong, rule reads_all [where ps = "[\<lambda>x. to_max_text_bytes x = 256 * 1024, \<lambda>x. to_max_data_bytes x = 1024 * 1024]"
      and qs = "[\<lambda>x. given j ''max_text_bytes'' (int_in 1 i64_max) (256 * 1024) (to_max_text_bytes x),
        \<lambda>x. given j ''max_data_bytes'' (int_in 1 i64_max) (1024 * 1024) (to_max_data_bytes x)]"])
    (auto intro!: field_rules simp: given_simps default_runtime_def)

lemma reads_tool_scheduler: "reads j (\<lambda>x. x = rc_tool_scheduler default_runtime) parse_tool_scheduler
  (\<lambda>x. given j ''max_parallel_tools'' (int_in 1 i64_max) 4 (sc_max_parallel_tools x) \<and> given j ''per_call_timeout_ms'' (int_in 1 i64_max) 60000 (sc_per_call_timeout_ms x))"
  unfolding parse_tool_scheduler_def
  by (rule reads_cong, rule reads_all [where ps = "[\<lambda>x. sc_max_parallel_tools x = 4, \<lambda>x. sc_per_call_timeout_ms x = 60000]"
      and qs = "[\<lambda>x. given j ''max_parallel_tools'' (int_in 1 i64_max) 4 (sc_max_parallel_tools x),
        \<lambda>x. given j ''per_call_timeout_ms'' (int_in 1 i64_max) 60000 (sc_per_call_timeout_ms x)]"])
    (auto intro!: field_rules simp: given_simps default_runtime_def)

lemma tool_name_items_are: "tool_name_items js path i = Inr ts \<Longrightarrow> js = map JString ts \<and> [] \<notin> set ts"
  by (induction js arbitrary: i ts) (auto simp: rbind_Inr_iff split: json.splits if_splits)

lemma reads_prompt: "reads j (\<lambda>x. x = rc_active_tools default_runtime) parse_prompt (given j ''active_tools'' active_tools_are (rc_active_tools default_runtime))"
  unfolding parse_prompt_def
  by (rule reads_field) (auto simp: given_simps rbind_Inr_iff active_tools_are_def split: json.splits if_splits dest: tool_name_items_are)

lemma reads_stream: "reads j (\<lambda>x. x = rc_stream_max_bytes default_runtime) parse_stream (given j ''max_bytes'' (int_in 1 i64_max) (16 * 1024 * 1024))"
  unfolding parse_stream_def by (intro reads_integer) (auto simp: given_simps default_runtime_def)

lemma reads_runtime: "reads j (\<lambda>x. x = default_runtime) parse_runtime (\<lambda>r.
  given j ''workers'' (int_in 1 i64_max) 4 (rc_workers r) \<and> given j ''request_timeout_ms'' (int_in 1 i64_max) 600000 (rc_request_timeout_ms r) \<and>
  given j ''tool_output'' tool_output_of (rc_tool_output default_runtime) (rc_tool_output r) \<and>
  given j ''tool_scheduler'' tool_scheduler_of (rc_tool_scheduler default_runtime) (rc_tool_scheduler r) \<and>
  given j ''prompt'' prompt_of (rc_active_tools default_runtime) (rc_active_tools r) \<and>
  given j ''stream'' stream_of (rc_stream_max_bytes default_runtime) (rc_stream_max_bytes r))"
  unfolding parse_runtime_def
  by (rule reads_cong, rule reads_all [where ps = "[\<lambda>r. rc_workers r = 4, \<lambda>r. rc_request_timeout_ms r = 600000, \<lambda>r. rc_tool_output r = rc_tool_output default_runtime,
        \<lambda>r. rc_tool_scheduler r = rc_tool_scheduler default_runtime, \<lambda>r. rc_active_tools r = rc_active_tools default_runtime, \<lambda>r. rc_stream_max_bytes r = rc_stream_max_bytes default_runtime]"
      and qs = "[\<lambda>r. given j ''workers'' (int_in 1 i64_max) 4 (rc_workers r), \<lambda>r. given j ''request_timeout_ms'' (int_in 1 i64_max) 600000 (rc_request_timeout_ms r),
        \<lambda>r. given j ''tool_output'' tool_output_of (rc_tool_output default_runtime) (rc_tool_output r),
        \<lambda>r. given j ''tool_scheduler'' tool_scheduler_of (rc_tool_scheduler default_runtime) (rc_tool_scheduler r),
        \<lambda>r. given j ''prompt'' prompt_of (rc_active_tools default_runtime) (rc_active_tools r),
        \<lambda>r. given j ''stream'' stream_of (rc_stream_max_bytes default_runtime) (rc_stream_max_bytes r)]"])
    (auto intro!: field_rules kept_object [OF reads_tool_output] kept_object [OF reads_tool_scheduler] kept_object [OF reads_prompt] kept_object [OF reads_stream]
      reads_object [OF reads_tool_output] reads_object [OF reads_tool_scheduler] reads_object [OF reads_prompt] reads_object [OF reads_stream]
      simp: given_simps tool_output_of_def tool_scheduler_of_def prompt_of_def stream_of_def default_runtime_def)

lemma reads_pricing: "reads j (\<lambda>x. x = no_pricing) (parse_pricing h) (\<lambda>p.
  given j ''input_per_million_usd'' (price_is h) None (pg_input p) \<and> given j ''output_per_million_usd'' (price_is h) None (pg_output p) \<and>
  given j ''cache_creation_per_million_usd'' (price_is h) None (pg_cache_creation p) \<and> given j ''cache_read_per_million_usd'' (price_is h) None (pg_cache_read p))"
  unfolding parse_pricing_def
  by (rule reads_cong, rule reads_all [where ps = "[\<lambda>p. pg_input p = None, \<lambda>p. pg_output p = None, \<lambda>p. pg_cache_creation p = None, \<lambda>p. pg_cache_read p = None]"
      and qs = "[\<lambda>p. given j ''input_per_million_usd'' (price_is h) None (pg_input p), \<lambda>p. given j ''output_per_million_usd'' (price_is h) None (pg_output p),
        \<lambda>p. given j ''cache_creation_per_million_usd'' (price_is h) None (pg_cache_creation p), \<lambda>p. given j ''cache_read_per_million_usd'' (price_is h) None (pg_cache_read p)]"])
    (auto intro!: field_rules simp: given_simps no_pricing_def)

lemma reads_cache: "reads j (\<lambda>_. True) parse_cache (\<lambda>x. \<exists>c. x = Some c \<and> given j ''enabled'' bool_is True (cc_enabled c) \<and>
  given j ''min_prefix_bytes'' (int_in 0 i64_max) 0 (cc_min_prefix_bytes c))"
proof -
  define step :: "cache_config option reader" where "step = run_steps [read_boolean ''enabled'' (\<lambda>b. map_option (\<lambda>y. y\<lparr>cc_enabled := b\<rparr>)),
    read_integer ''min_prefix_bytes'' (\<lambda>i. map_option (\<lambda>y. y\<lparr>cc_min_prefix_bytes := i\<rparr>)) 0 i64_max]"
  have "reads j (\<lambda>x. x = Some \<lparr>cc_enabled = True, cc_min_prefix_bytes = 0\<rparr>) step (\<lambda>x. \<exists>c. x = Some c \<and> given j ''enabled'' bool_is True (cc_enabled c) \<and>
      given j ''min_prefix_bytes'' (int_in 0 i64_max) 0 (cc_min_prefix_bytes c))"
    unfolding step_def
    by (rule reads_cong, rule reads_all [where ps = "[\<lambda>x. x \<noteq> None \<and> cc_enabled (the x), \<lambda>x. x \<noteq> None \<and> cc_min_prefix_bytes (the x) = 0]"
        and qs = "[\<lambda>x. x \<noteq> None \<and> given j ''enabled'' bool_is True (cc_enabled (the x)),
          \<lambda>x. x \<noteq> None \<and> given j ''min_prefix_bytes'' (int_in 0 i64_max) 0 (cc_min_prefix_bytes (the x))]"])
      (auto intro!: field_rules simp: given_simps)
  then show ?thesis unfolding parse_cache_def step_def [symmetric] reads_def by auto
qed

lemma word_in_of_int: "int_in lo u32_max j i \<Longrightarrow> 0 \<le> lo \<Longrightarrow> word_in lo j (Some (of_int i))"
  by (auto simp: int_in_def word_in_def u32_max_def unsigned_of_int take_bit_int_eq_self)

lemma reads_profile: "reads j (\<lambda>x. x = new_profile name) (parse_profile h) (\<lambda>p. pf_name p = name \<and>
  needed j ''provider'' (text_is h False) (pf_provider p) \<and> given j ''protocol'' (some_is (text_is h True)) None (pf_protocol p) \<and>
  needed j ''model'' (text_is h False) (pf_model p) \<and> needed j ''base_url'' (text_is h False) (pf_base_url p) \<and>
  needed j ''api_key_env'' (text_is h False) (pf_api_key_env p) \<and> given j ''pricing'' (pricing_of h) no_pricing (pf_pricing p) \<and>
  given j ''thinking_budget'' (word_in 1) None (pf_thinking_budget p) \<and> given j ''cache'' cache_of None (pf_cache p))"
  unfolding parse_profile_def
  by (rule reads_cong, rule reads_all [where ps = "[\<lambda>_. True, \<lambda>p. pf_protocol p = None, \<lambda>_. True, \<lambda>_. True, \<lambda>_. True, \<lambda>p. pf_pricing p = no_pricing,
        \<lambda>p. pf_thinking_budget p = None, \<lambda>p. pf_name p = name \<and> pf_cache p = None]"
      and qs = "[\<lambda>p. needed j ''provider'' (text_is h False) (pf_provider p),
        \<lambda>p. given j ''protocol'' (some_is (text_is h True)) None (pf_protocol p), \<lambda>p. needed j ''model'' (text_is h False) (pf_model p),
        \<lambda>p. needed j ''base_url'' (text_is h False) (pf_base_url p), \<lambda>p. needed j ''api_key_env'' (text_is h False) (pf_api_key_env p),
        \<lambda>p. given j ''pricing'' (pricing_of h) no_pricing (pf_pricing p), \<lambda>p. given j ''thinking_budget'' (word_in 1) None (pf_thinking_budget p),
        \<lambda>p. pf_name p = name \<and> given j ''cache'' cache_of None (pf_cache p)]"])
    (auto intro!: field_rules kept_object [OF reads_pricing] kept_object [OF reads_cache] reads_object [OF reads_pricing] reads_object [OF reads_cache]
      simp: given_simps pricing_of_def cache_of_def some_is_def word_in_of_int new_profile_def)

lemma reads_route: "reads j (\<lambda>x. x = new_route name) (parse_route h) (\<lambda>r. rt_name r = name \<and>
  needed j ''primary'' (text_is h False) (rt_primary_profile r) \<and> given j ''fallbacks'' (texts_are h False) [] (rt_fallback_profiles r))"
  unfolding parse_route_def
  by (rule reads_cong, rule reads_all [where ps = "[\<lambda>r. rt_name r = name, \<lambda>r. rt_fallback_profiles r = []]"
      and qs = "[\<lambda>r. rt_name r = name \<and> needed j ''primary'' (text_is h False) (rt_primary_profile r),
        \<lambda>r. given j ''fallbacks'' (texts_are h False) [] (rt_fallback_profiles r)]"])
    (auto intro!: field_rules simp: given_simps new_route_def)

lemma repeated_kinds_ok:
  assumes "fd_ok (repeated_kinds seen ks path i f)"
  shows "fd_ok f \<and> distinct ks \<and> set seen \<inter> set ks = {}"
  using assms
proof (induction ks arbitrary: seen i f)
  case (Cons k ks)
  define g where "g = (if k \<in> set seen then fd_fail (config_error ''long-term memory recall kind must be unique'' (config_element_path path i)) f else f)"
  have "fd_ok (repeated_kinds (seen @ [k]) ks path (Suc i) g)" using Cons.prems by (simp add: g_def)
  from Cons.IH [OF this] have "fd_ok g" "distinct ks" "set (seen @ [k]) \<inter> set ks = {}" by auto
  moreover from this(1) have "k \<notin> set seen \<and> fd_ok f" unfolding g_def by (simp split: if_splits)
  ultimately show ?case by auto
qed simp

lemma repeated_kinds_frame [simp]:
  "fd_value (repeated_kinds seen ks path i f) = fd_value f" "fd_path (repeated_kinds seen ks path i f) = fd_path f" "fd_state (repeated_kinds seen ks path i f) = fd_state f"
  by (induction ks arbitrary: seen i f) auto

lemma reads_check_kinds:
  assumes "\<And>x. json_member j ''kinds'' = None \<Longrightarrow> P x \<Longrightarrow> Q x"
    and "\<And>k x. json_member j ''kinds'' = Some k \<Longrightarrow> P x \<Longrightarrow> lc_kinds x \<noteq> [] \<Longrightarrow> distinct (lc_kinds x) \<Longrightarrow> Q x"
  shows "reads j P check_kinds Q"
proof (rule readsI)
  fix f x f' y assume run: "check_kinds (f, x) = (f', y)"
  show "fd_value f' = fd_value f \<and> fd_path f' = fd_path f \<and> grows (fd_state f) (fd_state f') \<and> (fd_ok f' \<longrightarrow> fd_ok f \<and> (fd_value f = j \<and> P x \<longrightarrow> Q y))"
  proof (cases "\<not> fd_ok f \<or> json_member (fd_value f) ''kinds'' = None")
    case True
    then show ?thesis using run assms(1) by (auto simp: check_kinds_def)
  next
    case False
    define g where "g = (if lc_kinds x = [] then fd_fail (config_error ''long-term memory recall kinds must not be empty'' (path_of f ''kinds'')) f else f)"
    have f': "f' = repeated_kinds [] (lc_kinds x) (path_of f ''kinds'') 0 g" "y = x" using False run by (auto simp: check_kinds_def g_def Let_def)
    moreover have "fd_value g = fd_value f" "fd_path g = fd_path f" "fd_state g = fd_state f" "fd_ok g \<Longrightarrow> lc_kinds x \<noteq> []" by (auto simp: g_def)
    ultimately show ?thesis using repeated_kinds_ok [of "[]" "lc_kinds x" "path_of f ''kinds''" 0 g] False assms(2) by auto
  qed
qed

lemma reads_recall: "reads j (\<lambda>x. x = default_recall) (parse_recall h) (\<lambda>r. given j ''enabled'' bool_is True (lc_enabled r) \<and>
  given j ''limit'' (int_in 1 20) 20 (lc_limit r) \<and> given j ''kinds'' (kinds_are h) [] (lc_kinds r))"
  unfolding parse_recall_def
  by (rule reads_cong, rule reads_all [where ps = "[\<lambda>r. lc_enabled r, \<lambda>r. lc_limit r = 20, \<lambda>r. lc_kinds r = [], \<lambda>_. True]"
      and qs = "[\<lambda>r. given j ''enabled'' bool_is True (lc_enabled r), \<lambda>r. given j ''limit'' (int_in 1 20) 20 (lc_limit r),
        \<lambda>r. given j ''kinds'' (texts_are h True) [] (lc_kinds r), \<lambda>r. given j ''kinds'' (kinds_are h) [] (lc_kinds r)]"])
    (auto intro!: field_rules reads_check_kinds simp: given_simps kinds_are_def default_recall_def)

lemma reads_memory: "reads j (\<lambda>x. x = default_recall) (parse_memory h)
  (given j ''longterm'' (\<lambda>l r. is_object l \<and> given l ''recall'' (recall_of h) default_recall r) default_recall)"
proof -
  have "reads l (\<lambda>x. x = default_recall) (read_object ''recall'' (\<lambda>x. x) (\<lambda>y _. y) (parse_recall h)) (given l ''recall'' (recall_of h) default_recall)" for l
    by (rule reads_object [OF reads_recall]) (auto simp: given_simps recall_of_def)
  then show ?thesis unfolding parse_memory_def by (rule reads_object) (auto simp: given_simps)
qed

lemma reads_check_input_pattern:
  assumes "\<And>x. P x \<Longrightarrow> (\<And>p. ru_input_pattern x = Some p \<Longrightarrow> ch_regex_error h p = None) \<Longrightarrow> Q x"
  shows "reads j P (check_input_pattern h) Q"
  by (rule readsI) (auto simp: check_input_pattern_def intro: assms split: option.splits if_splits)

lemma capability_parsed: "parse_capability t = Some c \<Longrightarrow> t = capability_name c"
  by (auto simp: parse_capability_def find_Some_iff)

lemma reads_capability:
  assumes "\<And>x. json_member v key = None \<Longrightarrow> P x \<Longrightarrow> Q x"
    and "\<And>j c x. json_member v key = Some j \<Longrightarrow> P x \<Longrightarrow> capability_is j (Some c) \<Longrightarrow> Q (x\<lparr>ru_capability := Some c\<rparr>)"
  shows "reads v P (read_field key (\<lambda>j path x. case j of
      JString t \<Rightarrow> (case parse_capability t of
          Some c \<Rightarrow> Inr (x\<lparr>ru_capability := Some c\<rparr>)
        | None \<Rightarrow> Inl (with_ctx ''capability'' t (config_error ''unknown capability spelling'' path)))
    | _ \<Rightarrow> Inl (config_error ''expected string'' path))) Q"
  by (rule reads_field) (auto simp: capability_is_def assms split: json.splits option.splits dest: capability_parsed)

lemma reads_rule: "reads j (\<lambda>x. x = new_rule verdict) (parse_rule h) (\<lambda>r. ru_verdict r = verdict \<and>
  needed j ''tool_pattern'' (text_is h True) (ru_tool_pattern r) \<and> given j ''capability'' capability_is None (ru_capability r) \<and>
  given j ''input_pattern'' (pattern_is h) None (ru_input_pattern r) \<and> given j ''replay_max'' (word_in 0) None (ru_replay_max r) \<and>
  given j ''approval_ttl_seconds'' (some_is (int_in 0 i64_max)) None (ru_approval_ttl_seconds r))"
proof -
  have pattern: "given j ''input_pattern'' (pattern_is h) None p"
    if "given j ''input_pattern'' (some_is (text_is h True)) None p" "\<And>t. p = Some t \<Longrightarrow> ch_regex_error h t = None" for p
    using that by (auto simp: given_def pattern_is_def some_is_def split: option.splits)
  show ?thesis unfolding parse_rule_def
    by (rule reads_cong, rule reads_all [where ps = "[\<lambda>r. ru_verdict r = verdict, \<lambda>r. ru_capability r = None, \<lambda>r. ru_input_pattern r = None, \<lambda>_. True,
          \<lambda>r. ru_replay_max r = None, \<lambda>r. ru_approval_ttl_seconds r = None]"
        and qs = "[\<lambda>r. ru_verdict r = verdict \<and> needed j ''tool_pattern'' (text_is h True) (ru_tool_pattern r),
          \<lambda>r. given j ''capability'' capability_is None (ru_capability r), \<lambda>r. given j ''input_pattern'' (some_is (text_is h True)) None (ru_input_pattern r),
          \<lambda>r. given j ''input_pattern'' (pattern_is h) None (ru_input_pattern r), \<lambda>r. given j ''replay_max'' (word_in 0) None (ru_replay_max r),
          \<lambda>r. given j ''approval_ttl_seconds'' (some_is (int_in 0 i64_max)) None (ru_approval_ttl_seconds r)]"])
      (auto intro!: field_rules reads_capability reads_check_input_pattern intro: pattern simp: given_simps some_is_def word_in_of_int new_rule_def)
qed

lemma reads_workspace: "reads j (\<lambda>p. p = \<lparr>pm_rules = [], pm_extra_read_roots = [], pm_extra_write_roots = []\<rparr>) (parse_workspace h)
  (\<lambda>p. pm_rules p = [] \<and> given j ''extra_read_roots'' (texts_are h False) [] (pm_extra_read_roots p) \<and> given j ''extra_write_roots'' (texts_are h False) [] (pm_extra_write_roots p))"
  unfolding parse_workspace_def
  by (rule reads_cong, rule reads_all [where ps = "[\<lambda>p. pm_rules p = [] \<and> pm_extra_read_roots p = [], \<lambda>p. pm_extra_write_roots p = []]"
      and qs = "[\<lambda>p. pm_rules p = [] \<and> given j ''extra_read_roots'' (texts_are h False) [] (pm_extra_read_roots p),
        \<lambda>p. given j ''extra_write_roots'' (texts_are h False) [] (pm_extra_write_roots p)]"])
    (auto intro!: field_rules simp: given_simps)

lemma parse_rules_of:
  assumes "parse_rules h verdict path js i (f, x) = (f', y)"
  shows "fd_value f' = fd_value f \<and> fd_path f' = fd_path f \<and> grows (fd_state f) (fd_state f') \<and>
    (fd_ok f' \<longrightarrow> fd_ok f \<and> (\<exists>rs. y = x\<lparr>pm_rules := pm_rules x @ rs\<rparr> \<and> list_all2 (rule_of h) (map (Pair verdict) js) rs))"
  using assms
proof (induction js arbitrary: i f x)
  case (Cons j js)
  obtain g r where g: "read_nested j (config_element_path path i) (parse_rule h) (f, new_rule verdict) = (g, r)"
    by (cases "read_nested j (config_element_path path i) (parse_rule h) (f, new_rule verdict)")
  note step = readsD [OF reads_nested [OF reads_rule [of j verdict h], where v = "fd_value f"] g]
  have head: "rule_of h (verdict, j) r" if "fd_ok g" using step(5) [OF that] by (simp add: rule_of_def)
  show ?case
  proof (cases "fd_ok f")
    case True
    then have "parse_rules h verdict path js (Suc i) (g, x\<lparr>pm_rules := pm_rules x @ [r]\<rparr>) = (f', y)" using Cons.prems g by simp
    note rest = Cons.IH [OF this]
    show ?thesis
    proof (intro conjI impI)
      show "fd_value f' = fd_value f" "fd_path f' = fd_path f" "fd_ok f" using rest step(1,2) True by simp_all
      show "grows (fd_state f) (fd_state f')" using rest step(3) grows_trans by blast
      assume "fd_ok f'"
      with rest obtain rs where "fd_ok g" "y = x\<lparr>pm_rules := pm_rules x @ [r] @ rs\<rparr>" "list_all2 (rule_of h) (map (Pair verdict) js) rs" by auto
      then show "\<exists>rs. y = x\<lparr>pm_rules := pm_rules x @ rs\<rparr> \<and> list_all2 (rule_of h) (map (Pair verdict) (j # js)) rs"
        using head by (intro exI [of _ "r # rs"]) simp
    qed
  qed (use Cons.prems in auto)
qed simp

lemma parse_rule_lists_of:
  assumes "parse_rule_lists h keys (f, x) = (f', y)" "\<And>key. key \<in> set keys \<Longrightarrow> json_member (fd_value f) key \<noteq> None \<or> \<not> is_object (fd_value f)"
  shows "fd_value f' = fd_value f \<and> fd_path f' = fd_path f \<and> grows (fd_state f) (fd_state f') \<and>
    (fd_ok f' \<longrightarrow> fd_ok f \<and> (is_object (fd_value f) \<longrightarrow> rule_lists_ok (fd_value f) keys \<and>
      (\<exists>rs. y = x\<lparr>pm_rules := pm_rules x @ rs\<rparr> \<and> list_all2 (rule_of h) (rule_sources (fd_value f) keys) rs)))"
  using assms
proof (induction keys arbitrary: f x)
  case (Cons key keys)
  show ?case
  proof (cases "parse_verdict key")
    case None
    then show ?thesis using Cons.IH [of f x] Cons.prems by (simp add: rule_sources_def rule_lists_ok_def)
  next
    case (Some verdict)
    obtain g where g: "take_key key f = (if fd_ok f then json_member (fd_value f) key else None, g)"
      "fd_value g = fd_value f" "fd_path g = fd_path f" "fd_state g = fd_state f" "fd_ok g = fd_ok f" by (rule take_keyE)
    show ?thesis
    proof (cases "fd_ok f \<and> (\<exists>js. json_member (fd_value f) key = Some (JArray js))")
      case True
      then obtain js where js: "json_member (fd_value f) key = Some (JArray js)" by blast
      obtain g1 x1 where 1: "parse_rules h verdict (path_of g key) js 0 (g, x) = (g1, x1)" by (cases "parse_rules h verdict (path_of g key) js 0 (g, x)")
      have 2: "parse_rule_lists h keys (g1, x1) = (f', y)" using Cons.prems(1) Some g True js 1 by simp
      note r1 = parse_rules_of [OF 1]
      have rest: "json_member (fd_value g1) k \<noteq> None \<or> \<not> is_object (fd_value g1)" if "k \<in> set keys" for k
        using Cons.prems(2) [of k] that r1 g(2) by simp
      from Cons.IH [OF 2 rest] have r2: "fd_value f' = fd_value g1 \<and> fd_path f' = fd_path g1 \<and> grows (fd_state g1) (fd_state f') \<and>
        (fd_ok f' \<longrightarrow> fd_ok g1 \<and> (is_object (fd_value g1) \<longrightarrow> rule_lists_ok (fd_value g1) keys \<and>
          (\<exists>rs. y = x1\<lparr>pm_rules := pm_rules x1 @ rs\<rparr> \<and> list_all2 (rule_of h) (rule_sources (fd_value g1) keys) rs)))" .
      have src: "rule_sources (fd_value f) (key # keys) = map (Pair verdict) js @ rule_sources (fd_value f) keys" "rule_lists_ok (fd_value f) (key # keys) = rule_lists_ok (fd_value f) keys"
        using Some js by (simp_all add: rule_sources_def rule_lists_ok_def)
      show ?thesis
      proof (intro conjI impI)
        show "fd_value f' = fd_value f" "fd_path f' = fd_path f" "fd_ok f" using r1 r2 g True by simp_all
        show "grows (fd_state f) (fd_state f')" using r1 r2 g(4) grows_trans by metis
        assume ok: "fd_ok f'" "is_object (fd_value f)"
        from ok r1 r2 g(2) show "rule_lists_ok (fd_value f) (key # keys)" by (simp add: src(2))
        from ok r2 r1 g(2) obtain rs where rs: "y = x1\<lparr>pm_rules := pm_rules x1 @ rs\<rparr>" "list_all2 (rule_of h) (rule_sources (fd_value f) keys) rs" "fd_ok g1" by auto
        with r1 obtain qs where "x1 = x\<lparr>pm_rules := pm_rules x @ qs\<rparr>" "list_all2 (rule_of h) (map (Pair verdict) js) qs" by blast
        with rs show "\<exists>rs. y = x\<lparr>pm_rules := pm_rules x @ rs\<rparr> \<and> list_all2 (rule_of h) (rule_sources (fd_value f) (key # keys)) rs"
          by (intro exI [of _ "qs @ rs"]) (simp add: src(1) list_all2_appendI)
      qed
    next
      case False
      moreover have "json_member (fd_value f) key \<noteq> None \<or> \<not> is_object (fd_value f)" using Cons.prems(2) [of key] by simp
      ultimately have "f' = g \<and> \<not> (fd_ok g \<and> is_object (fd_value g)) \<or> (\<exists>e. f' = fd_fail e g)"
        using Cons.prems(1) g Some by (cases "json_member (fd_value f) key"; cases "the (json_member (fd_value f) key)") (auto split: if_splits)
      then show ?thesis using g by auto
    qed
  qed
qed (simp add: rule_sources_def rule_lists_ok_def)

lemma object_keys: "is_object j \<Longrightarrow> key \<in> set (map fst (json_items j)) \<Longrightarrow> json_member j key \<noteq> None"
  by (cases j) (auto simp: map_of_eq_None_iff)

definition no_permissions :: permissions_config where
  "no_permissions = \<lparr>pm_rules = [], pm_extra_read_roots = [], pm_extra_write_roots = []\<rparr>"

lemma reads_permissions: "reads j (\<lambda>p. p = no_permissions) (parse_permissions h) (\<lambda>p. is_object j \<longrightarrow> permissions_of h j p)"
proof -
  define R :: "permissions_config \<Rightarrow> bool" where "R = (\<lambda>p. pm_rules p = [] \<and> given j ''workspace'' (roots_of h) ([], []) (pm_extra_read_roots p, pm_extra_write_roots p))"
  have ws: "reads j (\<lambda>p. p = no_permissions) (read_object ''workspace'' (\<lambda>x. x) (\<lambda>y _. y) (parse_workspace h)) R"
    by (rule reads_object [OF reads_workspace]) (auto simp: R_def given_simps roots_of_def no_permissions_def)
  have "reads j R (\<lambda>(f, x). parse_rule_lists h (map fst (json_items (fd_value f))) (f, x)) (\<lambda>p. is_object j \<longrightarrow> permissions_of h j p)"
  proof (rule readsI)
    fix f x f' y assume "(\<lambda>(f, x). parse_rule_lists h (map fst (json_items (fd_value f))) (f, x)) (f, x) = (f', y)"
    then have "parse_rule_lists h (map fst (json_items (fd_value f))) (f, x) = (f', y)" by simp
    from parse_rule_lists_of [OF this] object_keys [of "fd_value f"]
    show "fd_value f' = fd_value f \<and> fd_path f' = fd_path f \<and> grows (fd_state f) (fd_state f') \<and>
        (fd_ok f' \<longrightarrow> fd_ok f \<and> (fd_value f = j \<and> R x \<longrightarrow> is_object j \<longrightarrow> permissions_of h j y))"
      unfolding R_def permissions_of_def by fastforce
  qed
  from reads_comp [OF ws this] show ?thesis unfolding parse_permissions_def run_steps_simps .
qed

text \<open>The steps after the document said whether it is strict.\<close>

definition unread :: "config \<Rightarrow> bool" where
  "unread c \<longleftrightarrow> cf_runtime c = default_runtime \<and> cf_profiles c = [] \<and> cf_routes c = [] \<and> cf_trace_enabled c \<and> cf_hooks_timeout_ms c = 2000 \<and>
     cf_recall c = default_recall \<and> cf_permissions c = no_permissions"

lemma reads_profiles: "reads j (\<lambda>x. x = new_profile name) (parse_profile h) (\<lambda>p. is_object j \<longrightarrow> profile_of h (name, j) p)"
  by (rule reads_cong [OF reads_profile]) (auto simp: profile_of_def)

lemma reads_routes: "reads j (\<lambda>x. x = new_route name) (parse_route h) (\<lambda>r. is_object j \<longrightarrow> route_of h (name, j) r)"
  by (rule reads_cong [OF reads_route]) (auto simp: route_of_def)

lemma entries_of_mono: "entries_of (\<lambda>kv x. is_object (snd kv) \<and> (is_object (snd kv) \<longrightarrow> R kv x)) j xs \<Longrightarrow> entries_of R j xs"
  by (auto simp: entries_of_def elim!: list_all2_mono)

lemma reads_trace: "reads j (\<lambda>b. b) (read_boolean ''enabled'' (\<lambda>b _. b)) (given j ''enabled'' bool_is True)"
  by (rule reads_boolean) (auto simp: given_simps)

lemma reads_hooks: "reads j (\<lambda>n. n = 2000) (read_integer ''timeout_ms'' (\<lambda>i _. i) 1 i64_max) (given j ''timeout_ms'' (int_in 1 i64_max) 2000)"
  by (rule reads_integer) (auto simp: given_simps)

lemmas config_sections = reads_runtime reads_trace reads_hooks reads_memory reads_permissions

lemma reads_profile_entries:
  assumes "\<And>x. json_member v key = None \<Longrightarrow> P x \<Longrightarrow> Q x"
    and "\<And>j x ps. json_member v key = Some j \<Longrightarrow> P x \<Longrightarrow> entries_of (profile_of h) j ps \<Longrightarrow> Q (put (sub x @ ps) x)"
  shows "reads v P (read_entries key new_profile sub put (parse_profile h)) Q"
  by (rule reads_entries [where R = "\<lambda>(name, j) p. is_object j \<longrightarrow> profile_of h (name, j) p"])
    (use reads_profiles assms entries_of_mono [of "profile_of h"] in \<open>auto simp: case_prod_beta\<close>)

lemma reads_route_entries:
  assumes "\<And>x. json_member v key = None \<Longrightarrow> P x \<Longrightarrow> Q x"
    and "\<And>j x rs. json_member v key = Some j \<Longrightarrow> P x \<Longrightarrow> entries_of (route_of h) j rs \<Longrightarrow> Q (put (sub x @ rs) x)"
  shows "reads v P (read_entries key new_route sub put (parse_route h)) Q"
  by (rule reads_entries [where R = "\<lambda>(name, j) r. is_object j \<longrightarrow> route_of h (name, j) r"])
    (use reads_routes assms entries_of_mono [of "route_of h"] in \<open>auto simp: case_prod_beta\<close>)

lemma reads_rest:
  "reads doc (\<lambda>c. unread c \<and> cf_strict_config c = b) (run_steps (drop 2 (document_steps h o1)))
    (\<lambda>c. cf_strict_config c = b \<and> (is_object doc \<longrightarrow> given doc ''strict_config'' bool_is False b \<longrightarrow> config_of h doc c))"
proof -
  let ?qs = "[\<lambda>c. given doc ''runtime'' runtime_of default_runtime (cf_runtime c), \<lambda>c. given doc ''profiles'' (entries_of (profile_of h)) [] (cf_profiles c),
    \<lambda>c. given doc ''routes'' (entries_of (route_of h)) [] (cf_routes c),
    \<lambda>c. given doc ''trace'' (\<lambda>j b. is_object j \<and> given j ''enabled'' bool_is True b) True (cf_trace_enabled c),
    \<lambda>c. given doc ''hooks'' (\<lambda>j n. is_object j \<and> given j ''timeout_ms'' (int_in 1 i64_max) 2000 n) 2000 (cf_hooks_timeout_ms c),
    \<lambda>c. given doc ''memory'' (memory_of h) default_recall (cf_recall c),
    \<lambda>c. cf_strict_config c = b \<and> given doc ''permissions'' (permissions_of h) no_permissions (cf_permissions c)]"
  let ?ps = "[\<lambda>c. cf_runtime c = default_runtime, \<lambda>c. cf_profiles c = [], \<lambda>c. cf_routes c = [], \<lambda>c. cf_trace_enabled c, \<lambda>c. cf_hooks_timeout_ms c = 2000,
    \<lambda>c. cf_recall c = default_recall, \<lambda>c. cf_strict_config c = b \<and> cf_permissions c = no_permissions]"
  have "frames doc [] (drop 2 (document_steps h o1)) ?ps ?qs"
    unfolding document_steps_def
    by (auto intro!: reads_profile_entries reads_route_entries kept_object [OF reads_runtime] kept_object [OF reads_trace] kept_object [OF reads_hooks]
        kept_object [OF reads_memory] kept_object [OF reads_permissions] reads_object [OF reads_runtime] reads_object [OF reads_trace] reads_object [OF reads_hooks]
        reads_object [OF reads_memory] reads_object [OF reads_permissions] simp: given_simps runtime_of_def memory_of_def)
  from reads_all [OF this] show ?thesis
    by (rule reads_cong) (auto simp: unread_def config_of_def no_permissions_def)
qed

section \<open>Every key is accounted for\<close>

definition root_keys :: "string list" where
  "root_keys = [''strict_config'', ''runtime'', ''profiles'', ''routes'', ''trace'', ''hooks'', ''memory'', ''permissions'']"

definition claims :: "'a reader \<Rightarrow> string \<Rightarrow> bool" where
  "claims step key \<longleftrightarrow> (\<forall>f x f' y. step (f, x) = (f', y) \<longrightarrow> fd_ok f' \<longrightarrow> fd_ok f \<and> fd_known f' = fd_known f @ [key])"

lemma nested_known: "read_nested v path parse (f, x) = (f', y) \<Longrightarrow> fd_known f' = fd_known f \<and> (fd_ok f' \<longrightarrow> fd_ok f)"
  by (auto simp: read_nested_def Let_def fd_ok_def split: prod.splits sum.splits) (auto simp: fd_fail_def split: if_splits)

lemma items_known: "read_items base new parse kvs (f, xs) = (f', ys) \<Longrightarrow> fd_known f' = fd_known f \<and> (fd_ok f' \<longrightarrow> fd_ok f)"
proof (induction kvs arbitrary: f xs)
  case (Cons kv kvs)
  obtain name v where kv: "kv = (name, v)" by (cases kv)
  obtain g x where g: "read_nested v (config_child_path base name) parse (f, new name) = (g, x)" by (cases "read_nested v (config_child_path base name) parse (f, new name)")
  show ?case using Cons.prems Cons.IH [of g "xs @ [x]"] nested_known [OF g] g kv by (auto split: if_splits)
qed simp

lemma take_known: "take_key key f = (v, g) \<Longrightarrow> fd_ok g = fd_ok f \<and> (fd_ok f \<longrightarrow> fd_known g = fd_known f @ [key])"
  by (auto simp: take_key_def fd_ok_def split: if_splits)

lemma claims_field: "claims (read_field key parse) key"
  unfolding claims_def read_field_def by (auto split: prod.splits option.splits sum.splits dest!: take_known)

lemma claims_object: "claims (read_object key sub put parse) key"
  unfolding claims_def read_object_def by (auto split: prod.splits option.splits dest!: take_known nested_known)

lemma claims_entries: "claims (read_entries key new sub put parse) key"
  unfolding claims_def read_entries_def by (auto split: prod.splits option.splits if_splits dest!: take_known items_known)

lemma claims_steps:
  "list_all2 claims steps keys \<Longrightarrow> run_steps steps (f, x) = (f', y) \<Longrightarrow> fd_ok f' \<Longrightarrow> fd_ok f \<and> fd_known f' = fd_known f @ keys"
proof (induction steps keys arbitrary: f x rule: list_all2_induct)
  case Nil
  then show ?case by (simp add: run_steps_simps)
next
  case (Cons step steps key keys)
  obtain g z where g: "step (f, x) = (g, z)" by (cases "step (f, x)")
  with Cons.prems have "fd_ok g \<and> fd_known f' = fd_known g @ keys" by (intro Cons.IH) (simp_all add: run_steps_simps)
  then show ?case using Cons.hyps(1) g unfolding claims_def by fastforce
qed

lemma unknown_keys_accounted:
  "unknown_keys f keys st = (Inr u, st') \<Longrightarrow> key \<in> set keys \<Longrightarrow>
     key \<in> set (fd_known f) \<or> \<lparr>cw_path = path_of f key, cw_message = ''unknown config field''\<rparr> \<in> set (ps_warnings st')"
proof (induction keys arbitrary: st)
  case (Cons k keys)
  show ?case
  proof (cases "k \<in> set (fd_known f)")
    case True
    then show ?thesis using Cons by auto
  next
    case False
    define st1 where "st1 = st\<lparr>ps_warnings := ps_warnings st @ [\<lparr>cw_path = path_of f k, cw_message = ''unknown config field''\<rparr>]\<rparr>"
    have rest: "unknown_keys f keys st1 = (Inr u, st')" using Cons.prems False by (auto simp: st1_def split: if_splits)
    have "\<lparr>cw_path = path_of f k, cw_message = ''unknown config field''\<rparr> \<in> set (ps_warnings st')"
      using unknown_keys_grows [OF rest] by (auto simp: grows_def st1_def prefix_def)
    then show ?thesis using Cons.prems Cons.IH [OF rest] by auto
  qed
qed simp

lemma claims_rest: "list_all2 claims (drop 2 (document_steps h o1)) (tl root_keys)"
  by (simp add: document_steps_def root_keys_def claims_object claims_entries)

section \<open>Properties\<close>

text \<open>
  C27: An accepted configuration is the one its document denotes, and no key was ignored silently. Every field the document gives, in any section, profile, route or
  permission rule, has the JSON type it needs and its value is the one in the configuration: integers are integers within the bounds of their field (a 32-bit \<open>replay_max\<close> or
  \<open>thinking_budget\<close> holds the very integer given), prices are finite and not negative, strings are expanded and not empty where they must not be, recall kinds are
  at least one and distinct, input patterns compile; profiles, routes and rules are those of the document, in its order. A field that is not given has its default.
  Every key of the root object is one of the eight sections or has a warning with its path; when the caller or the document asks for strictness there is no warning
  at any level, so every key was known.
\<close>

theorem config_accepted:
  assumes "parse_document h doc o1 = Inr c"
  shows "config_of h doc c \<and> (lo_strict_unknown_fields o1 \<or> cf_strict_config c \<longrightarrow> cf_warnings c = []) \<and>
    (\<forall>key. key \<in> set (map fst (json_items doc)) \<longrightarrow> key \<in> set root_keys \<or> \<lparr>cw_path = ''$.'' @ key, cw_message = ''unknown config field''\<rparr> \<in> set (cf_warnings c))"
proof -
  define f0 where "f0 = make_fields doc ''$'' \<lparr>ps_strict = False, ps_warnings = []\<rparr>"
  define step where "step = read_boolean ''strict_config'' (\<lambda>b (x :: config). x\<lparr>cf_strict_config := b\<rparr>)"
  obtain f1 c1 where 1: "step (f0, default_config) = (f1, c1)" by (cases "step (f0, default_config)")
  define b where "b = cf_strict_config c1"
  define f2 where "f2 = f1\<lparr>fd_state := (fd_state f1)\<lparr>ps_strict := lo_strict_unknown_fields o1 \<or> b\<rparr>\<rparr>"
  obtain f3 c3 where 3: "run_steps (drop 2 (document_steps h o1)) (f2, c1) = (f3, c3)" by (cases "run_steps (drop 2 (document_steps h o1)) (f2, c1)")
  have "run_steps (document_steps h o1) (f0, default_config) = (f3, c3)"
    using 1 3 by (simp add: document_steps_def run_steps_simps step_def set_strict_def f2_def b_def)
  then obtain st where fin: "finish_fields f3 = (Inr (), st)" "c = c3\<lparr>cf_warnings := ps_warnings st\<rparr>"
    using assms by (auto simp: parse_document_def f0_def split: prod.splits sum.splits)
  have ok3: "fd_ok f3" using finish_ok [OF fin(1)] .
  have f0: "fd_value f0 = doc" "fd_path f0 = ''$''" "fd_known f0 = []" "ps_warnings (fd_state f0) = []" "fd_ok f0 = is_object doc"
    by (auto simp: f0_def make_fields_def Let_def fd_ok_def fd_fail_def)
  have first: "reads doc (\<lambda>c. c = default_config) step (\<lambda>c. unread c \<and> given doc ''strict_config'' bool_is False (cf_strict_config c))"
    unfolding step_def
    by (rule reads_boolean) (auto simp: given_simps unread_def default_config_def default_recall_def no_permissions_def)
  have st1: "fd_state f1 = fd_state f0" using 1 unfolding step_def read_boolean_def read_field_def take_key_def by (auto split: if_splits option.splits sum.splits)
  note r3 = readsD [OF reads_rest [where doc = doc and b = b] 3]
  have f2: "fd_ok f2 = fd_ok f1" "fd_known f2 = fd_known f1" "fd_value f2 = fd_value f1" "fd_path f2 = fd_path f1" "fd_state f2 = (fd_state f0)\<lparr>ps_strict := lo_strict_unknown_fields o1 \<or> b\<rparr>"
    by (simp_all add: f2_def fd_ok_def st1)
  have known: "fd_known f3 = root_keys"
    using claims_steps [OF claims_rest 3 ok3] claims_field 1 f0(3) f2(1,2) unfolding claims_def step_def read_boolean_def root_keys_def by fastforce
  have ok1: "fd_ok f1" using r3(4) ok3 f2(1) by simp
  have c3: "cf_strict_config c3 = b" "config_of h doc c3"
    using r3(5) [OF ok3] readsD [OF first 1] ok1 f0 f2(3) by (auto simp: b_def)
  have at: "fd_value f3 = doc" "fd_path f3 = ''$''" using r3(1,2) readsD(1,2) [OF first 1] f2 f0 by simp_all
  have un: "unknown_keys f3 (map fst (json_items doc)) (fd_state f3) = (Inr (), st)"
    using fin(1) ok3 at by (simp add: finish_fields_def fd_ok_def)
  have "grows (fd_state f2) st" using r3(3) unknown_keys_grows [OF un] by (rule grows_trans)
  then have strict: "lo_strict_unknown_fields o1 \<or> b \<longrightarrow> ps_warnings st = []" using f2(5) f0(4) by (auto simp: grows_def)
  have "config_of h doc c" "cf_strict_config c = b" using c3 fin(2) by (simp_all add: config_of_def)
  moreover have "key \<in> set root_keys \<or> \<lparr>cw_path = ''$.'' @ key, cw_message = ''unknown config field''\<rparr> \<in> set (cf_warnings c)" if "key \<in> set (map fst (json_items doc))" for key
    using unknown_keys_accounted [OF un that] known at fin(2) by (simp add: path_of_def config_child_path_def)
  ultimately show ?thesis using strict fin(2) by simp
qed

definition demo_host :: config_host where
  "demo_host = \<lparr>ch_getenv = (\<lambda>_. None), ch_double = (\<lambda>_. None), ch_regex_error = (\<lambda>_. None), ch_lib = \<lparr>json_parse = (\<lambda>_. Inr JNull), json_dump = (\<lambda>_. [])\<rparr>\<rparr>"

definition demo_document :: json where
  "demo_document = JObject [(''runtime'', JObject [(''workers'', JUnsigned 2)]),
     (''permissions'', JObject [(''allow'', JArray [JObject [(''tool_pattern'', JString ''*''), (''replay_max'', JUnsigned 4294967295)]])]),
     (''extra'', JNull)]"

lemma expand_plain_star: "expand_env_string h path ''*'' = Inr ''*''"
  by (subst expand_env_string.simps) (simp add: find_sub.simps)

theorem config_accepted_witness:
  "\<exists>c. parse_document demo_host demo_document \<lparr>lo_strict_unknown_fields = False, lo_max_bytes = 9\<rparr> = Inr c \<and> rc_workers (cf_runtime c) = 2 \<and>
     map ru_replay_max (pm_rules (cf_permissions c)) = [Some 4294967295] \<and>
     \<lparr>cw_path = ''$.extra'', cw_message = ''unknown config field''\<rparr> \<in> set (cf_warnings c)"
proof -
  define o1 where "o1 = \<lparr>lo_strict_unknown_fields = False, lo_max_bytes = 9\<rparr>"
  have "\<exists>c. parse_document demo_host demo_document o1 = Inr c"
    by (simp add: o1_def parse_document_def document_steps_def run_steps_simps demo_document_def make_fields_def read_boolean_def read_integer_def read_object_def read_entries_def read_field_def
      take_key_def fd_ok_def set_strict_def read_nested_def parse_runtime_def integer_value_def finish_fields_def path_of_def i64_max_def Let_def default_config_def
      parse_permissions_def parse_verdict_def parse_rule_def required_string_field_def require_key_def read_string_def config_string_value_def expand_plain_star
      check_input_pattern_def new_rule_def u32_max_def)
  then obtain c where c: "parse_document demo_host demo_document o1 = Inr c" by blast
  note accepted = config_accepted [OF c]
  have "given demo_document ''runtime'' runtime_of default_runtime (cf_runtime c)"
      "given demo_document ''permissions'' (permissions_of demo_host) \<lparr>pm_rules = [], pm_extra_read_roots = [], pm_extra_write_roots = []\<rparr> (cf_permissions c)"
    using accepted by (simp_all add: config_of_def)
  then have "rc_workers (cf_runtime c) = 2" "map ru_replay_max (pm_rules (cf_permissions c)) = [Some 4294967295]"
    by (auto simp: demo_document_def given_def runtime_of_def int_in_def permissions_of_def rule_sources_def parse_verdict_def list_all2_Cons1 rule_of_def word_in_def word_uint_eq_iff)
  moreover have "\<lparr>cw_path = ''$.extra'', cw_message = ''unknown config field''\<rparr> \<in> set (cf_warnings c)"
    using accepted [THEN conjunct2, THEN conjunct2, rule_format, of "''extra''"] by (simp add: demo_document_def root_keys_def)
  ultimately show ?thesis using c unfolding o1_def by (intro exI [of _ c] conjI)
qed

end
