(* ===== verification/Tool_Workspace.thy ===== *)
theory Tool_Workspace
  imports Tool_Files
begin

text \<open>
  \<^verbatim>\<open>oran-tool/workspace.cpp\<close>: which directory authority and which relative path a tool may use. Lexical paths are those of \<^verbatim>\<open>std::filesystem::path\<close> on POSIX. The
  answers of the file system to canonicalisation and status queries are arguments; each query has its own number, so the answers may change
  between any two queries, and they may depend on the system calls made before.
\<close>

section \<open>Lexical paths\<close>

text \<open>The names of a path as its iterator gives them, without the root; an empty last name is a trailing separator.\<close>

record fs_path =
  p_rooted :: bool
  p_names :: "string list"

definition parse_path :: "string \<Rightarrow> fs_path" where
  "parse_path s = (let names = filter (\<lambda>n. n \<noteq> []) (split_slash s) in
     \<lparr>p_rooted = prefix ''/'' s, p_names = (if names \<noteq> [] \<and> last s = CHR ''/'' then names @ [[]] else names)\<rparr>)"

fun join_names :: "string list \<Rightarrow> string" where
  "join_names [] = []"
| "join_names [n] = n"
| "join_names (n # ns) = n @ ''/'' @ join_names ns"

definition path_string :: "fs_path \<Rightarrow> string" where
  "path_string p = (if p_rooted p then ''/'' else []) @ join_names (p_names p)"

definition normal_step :: "bool \<Rightarrow> string \<Rightarrow> string list \<Rightarrow> string list" where
  "normal_step rooted n acc =
     (if n = [] \<or> n = ''.'' then acc
      else if n = ''..'' then (if acc \<noteq> [] \<and> last acc \<noteq> ''..'' then butlast acc else if rooted then acc else acc @ [n])
      else acc @ [n])"

definition lexically_normal :: "fs_path \<Rightarrow> fs_path" where
  "lexically_normal p = (let names = fold (normal_step (p_rooted p)) (p_names p) [];
       trailing = (p_names p \<noteq> [] \<and> last (p_names p) \<in> {[], ''.'', ''..''} \<and> names \<noteq> [] \<and> last names \<noteq> ''..'') in
     if p_names p = [] then p
     else p\<lparr>p_names := (if names = [] \<and> \<not> p_rooted p then [''.''] else if trailing then names @ [[]] else names)\<rparr>)"

definition path_elements :: "fs_path \<Rightarrow> string list" where
  "path_elements p = (if p_rooted p then [''/''] else []) @ p_names p"

definition path_append :: "fs_path \<Rightarrow> fs_path \<Rightarrow> fs_path" where
  "path_append a b = (if p_rooted b then b
     else a\<lparr>p_names := (if p_names a \<noteq> [] \<and> last (p_names a) = [] then butlast (p_names a) else p_names a) @ (if p_names b = [] then (if p_names a = [] then [] else [[]]) else p_names b)\<rparr>)"

definition parent_path :: "fs_path \<Rightarrow> fs_path" where
  "parent_path p = p\<lparr>p_names := butlast (p_names p)\<rparr>"

definition filename :: "fs_path \<Rightarrow> string" where
  "filename p = (if p_names p = [] then [] else last (p_names p))"

definition path_empty :: "fs_path \<Rightarrow> bool" where
  "path_empty p \<longleftrightarrow> \<not> p_rooted p \<and> p_names p = []"

fun drop_common :: "string list \<Rightarrow> string list \<Rightarrow> string list \<times> string list" where
  "drop_common (x # xs) (y # ys) = (if x = y then drop_common xs ys else (x # xs, y # ys))"
| "drop_common xs ys = (xs, ys)"

definition ups :: "string list \<Rightarrow> int" where
  "ups ys = sum_list (map (\<lambda>n. if n = ''..'' then - 1 else if n \<noteq> [] \<and> n \<noteq> ''.'' then 1 else 0) ys)"

definition lexically_relative :: "fs_path \<Rightarrow> fs_path \<Rightarrow> fs_path" where
  "lexically_relative p base =
     (let rel = (\<lambda>ns. \<lparr>p_rooted = False, p_names = ns\<rparr>) in
      if p_rooted p \<noteq> p_rooted base then rel []
      else case drop_common (p_names p) (p_names base) of (as, bs) \<Rightarrow>
        if as = [] \<and> bs = [] then rel [''.'']
        else let n = ups bs in
          if n = 0 \<and> (as = [] \<or> hd as = []) then rel [''.'']
          else if n < 0 then rel []
          else rel (replicate (nat n) ''..'' @ as))"

definition is_under_root :: "fs_path \<Rightarrow> fs_path \<Rightarrow> bool" where
  "is_under_root candidate root_path \<longleftrightarrow> prefix (path_elements (lexically_normal root_path)) (path_elements (lexically_normal candidate))"

definition join_input :: "fs_path \<Rightarrow> string \<Rightarrow> fs_path" where
  "join_input root_path input = (let raw = parse_path input in
     if p_rooted raw then lexically_normal raw else lexically_normal (path_append root_path raw))"

definition relative_path :: "fs_path \<Rightarrow> fs_path \<Rightarrow> string" where
  "relative_path candidate root_path = (let rel = lexically_relative (lexically_normal candidate) (lexically_normal root_path) in
     if path_empty rel then ''.'' else path_string rel)"

section \<open>The workspace\<close>

record ws_world =
  ww_trace :: io_trace
  ww_queries :: nat

record path_fs =
  pq_canonical :: "io_trace \<Rightarrow> nat \<Rightarrow> string \<Rightarrow> string + string"
  pq_status :: "io_trace \<Rightarrow> nat \<Rightarrow> string \<Rightarrow> string + file_type option"
  pq_symlink_status :: "io_trace \<Rightarrow> nat \<Rightarrow> string \<Rightarrow> string + file_type option"

definition ask_fs :: "(io_trace \<Rightarrow> nat \<Rightarrow> 'a) \<Rightarrow> (ws_world, 'a) eff" where
  "ask_fs q = (\<lambda>w. (Inr (q (ww_trace w) (ww_queries w)), w\<lparr>ww_queries := Suc (ww_queries w)\<rparr>))"

definition on_kernel :: "(io_trace, 'a) eff \<Rightarrow> (ws_world, 'a) eff" where
  "on_kernel m = (\<lambda>w. case m (ww_trace w) of (r, tr) \<Rightarrow> (r, w\<lparr>ww_trace := tr\<rparr>))"

record workspace =
  wk_root :: string
  wk_extra_read_roots :: "string list"
  wk_extra_write_roots :: "string list"
  wk_root_authority :: directory_authority
  wk_extra_read_authorities :: "directory_authority list"
  wk_extra_write_authorities :: "directory_authority list"

record root_match =
  rm_root :: fs_path
  rm_override_index :: "nat option"

definition ws_path_error :: "string \<Rightarrow> string \<Rightarrow> string \<Rightarrow> core_error" where
  "ws_path_error msg input reason = with_ctx ''reason'' reason (with_ctx ''path'' input (err_permission_denied msg))"

definition filesystem_error :: "string \<Rightarrow> string \<Rightarrow> string \<Rightarrow> core_error" where
  "filesystem_error msg path detail = with_ctx ''detail'' detail (with_ctx ''path'' path (err_io msg))"

text \<open>\<^verbatim>\<open>std::filesystem::weakly_canonical(...).lexically_normal()\<close>.\<close>

definition canonical_path :: "path_fs \<Rightarrow> string \<Rightarrow> (string \<Rightarrow> core_error) \<Rightarrow> (ws_world, fs_path) eff" where
  "canonical_path fs path err = ebind (ask_fs (\<lambda>tr n. pq_canonical fs tr n path)) (\<lambda>r. case r of
     Inl detail \<Rightarrow> efail (err detail) | Inr s \<Rightarrow> eret (lexically_normal (parse_path s)))"

definition canonical_directory :: "path_fs \<Rightarrow> string \<Rightarrow> string \<Rightarrow> (ws_world, fs_path) eff" where
  "canonical_directory fs raw field =
     (if raw = [] then efail (with_ctx ''field'' field (err_invalid_argument ''workspace root must not be empty''))
      else ebind (canonical_path fs raw (\<lambda>detail. with_ctx ''field'' field (filesystem_error ''failed to canonicalize workspace root'' raw detail))) (\<lambda>c.
        ebind (ask_fs (\<lambda>tr n. pq_status fs tr n (path_string c))) (\<lambda>r. case r of
          Inl detail \<Rightarrow> efail (with_ctx ''field'' field (filesystem_error ''failed to inspect workspace root'' (path_string c) detail))
        | Inr None \<Rightarrow> efail (with_ctx ''field'' field (with_ctx ''path'' (path_string c) (err_not_found ''workspace root does not exist'')))
        | Inr (Some t) \<Rightarrow>
            if t \<noteq> DirectoryFile then efail (with_ctx ''field'' field (with_ctx ''path'' (path_string c) (err_invalid_argument ''workspace root must be a directory'')))
            else eret c)))"

definition indexed_field :: "string \<Rightarrow> nat \<Rightarrow> string" where
  "indexed_field name i = name @ ''['' @ show_nat i @ '']''"

fun canonicalize_extra_roots :: "path_fs \<Rightarrow> string list \<Rightarrow> string \<Rightarrow> nat \<Rightarrow> (ws_world, string list) eff" where
  "canonicalize_extra_roots fs [] name i = eret []"
| "canonicalize_extra_roots fs (r # rs) name i = ebind (canonical_directory fs r (indexed_field name i)) (\<lambda>c.
     ebind (canonicalize_extra_roots fs rs name (Suc i)) (\<lambda>cs. eret (path_string c # cs)))"

fun open_root_authorities :: "kernel \<Rightarrow> string list \<Rightarrow> string \<Rightarrow> nat \<Rightarrow> (ws_world, directory_authority list) eff" where
  "open_root_authorities k [] name i = eret []"
| "open_root_authorities k (r # rs) name i = ebind (emap_error (with_ctx ''field'' (indexed_field name i)) (on_kernel (open_trusted_directory k r))) (\<lambda>a.
     ebind (open_root_authorities k rs name (Suc i)) (\<lambda>as. eret (a # as)))"

definition create_workspace :: "kernel \<Rightarrow> path_fs \<Rightarrow> string \<Rightarrow> string list \<Rightarrow> string list \<Rightarrow> (ws_world, workspace) eff" where
  "create_workspace k fs raw reads_roots writes_roots =
     ebind (canonical_directory fs raw ''workspace'') (\<lambda>c.
     ebind (canonicalize_extra_roots fs reads_roots ''permissions.workspace.extra_read_roots'' 0) (\<lambda>rs.
     ebind (canonicalize_extra_roots fs writes_roots ''permissions.workspace.extra_write_roots'' 0) (\<lambda>ws.
     ebind (emap_error (with_ctx ''field'' ''workspace'') (on_kernel (open_trusted_directory k (path_string c)))) (\<lambda>a.
     ebind (open_root_authorities k rs ''permissions.workspace.extra_read_roots'' 0) (\<lambda>ras.
     ebind (open_root_authorities k ws ''permissions.workspace.extra_write_roots'' 0) (\<lambda>was.
       eret \<lparr>wk_root = path_string c, wk_extra_read_roots = rs, wk_extra_write_roots = ws, wk_root_authority = a,
             wk_extra_read_authorities = ras, wk_extra_write_authorities = was\<rparr>))))))"

fun symlink_prefixes :: "path_fs \<Rightarrow> fs_path list \<Rightarrow> (ws_world, bool) eff" where
  "symlink_prefixes fs [] = eret False"
| "symlink_prefixes fs (p # ps) = ebind (ask_fs (\<lambda>tr n. pq_symlink_status fs tr n (path_string p))) (\<lambda>r.
     if r = Inr (Some SymbolicLink) then eret True else symlink_prefixes fs ps)"

definition path_prefixes :: "fs_path \<Rightarrow> fs_path list" where
  "path_prefixes p = (if p_rooted p then [p\<lparr>p_names := []\<rparr>] else []) @ map (\<lambda>i. p\<lparr>p_names := take (Suc i) (p_names p)\<rparr>) [0..<length (p_names p)]"

definition has_symlink_component :: "path_fs \<Rightarrow> fs_path \<Rightarrow> (ws_world, bool) eff" where
  "has_symlink_component fs candidate = symlink_prefixes fs (path_prefixes (lexically_normal candidate))"

fun match_extra_roots :: "fs_path \<Rightarrow> string list \<Rightarrow> nat \<Rightarrow> root_match option" where
  "match_extra_roots candidate [] i = None"
| "match_extra_roots candidate (r # rs) i =
     (if is_under_root candidate (parse_path r) then Some \<lparr>rm_root = parse_path r, rm_override_index = Some i\<rparr> else match_extra_roots candidate rs (Suc i))"

definition find_matching_root :: "fs_path \<Rightarrow> fs_path \<Rightarrow> string list \<Rightarrow> root_match option" where
  "find_matching_root candidate root_path extra =
     (if is_under_root candidate root_path then Some \<lparr>rm_root = root_path, rm_override_index = None\<rparr> else match_extra_roots candidate extra 0)"

definition authority_for_match :: "root_match \<Rightarrow> directory_authority \<Rightarrow> directory_authority list \<Rightarrow> directory_authority" where
  "authority_for_match m primary extra = (case rm_override_index m of Some i \<Rightarrow> extra ! i | None \<Rightarrow> primary)"

text \<open>A resolved path and the authority its handle stands for.\<close>

type_synonym resolution = "directory_authority \<times> resolved_path"

definition build_resolved :: "fs_path \<Rightarrow> root_match \<Rightarrow> directory_authority \<Rightarrow> directory_authority list \<Rightarrow> bool \<Rightarrow> bool \<Rightarrow> resolution" where
  "build_resolved candidate m primary extra followed created = (let a = authority_for_match m primary extra; rel = relative_path candidate (rm_root m) in
     (a, \<lparr>rp_authority = da_fd a, rp_authority_relative = rel, rp_absolute = path_string (lexically_normal candidate), rp_relative = rel, rp_symlink_followed = followed,
          rp_created_parents = created, rp_outside_explicit = (rm_override_index m \<noteq> None), rp_per_call_outside = False, rp_override_root = rm_override_index m\<rparr>))"

definition build_per_call_outside_resolved :: "kernel \<Rightarrow> fs_path \<Rightarrow> bool \<Rightarrow> (ws_world, resolution) eff" where
  "build_per_call_outside_resolved k candidate followed =
     (let whole = path_empty (parent_path candidate) \<or> filename candidate = []; dir = (if whole then candidate else parent_path candidate);
          rel = (if whole then ''.'' else filename candidate) in
      ebind (on_kernel (open_trusted_directory k (path_string dir))) (\<lambda>a.
        eret (a, \<lparr>rp_authority = da_fd a, rp_authority_relative = rel, rp_absolute = path_string (lexically_normal candidate), rp_relative = [], rp_symlink_followed = followed,
          rp_created_parents = False, rp_outside_explicit = True, rp_per_call_outside = True, rp_override_root = None\<rparr>)))"

definition canonical_existing_path :: "path_fs \<Rightarrow> fs_path \<Rightarrow> string \<Rightarrow> string \<Rightarrow> (ws_world, fs_path) eff" where
  "canonical_existing_path fs candidate input action =
     ebind (ask_fs (\<lambda>tr n. pq_symlink_status fs tr n (path_string candidate))) (\<lambda>r. case r of
       Inl detail \<Rightarrow> efail (filesystem_error (''failed to inspect path for '' @ action) (path_string candidate) detail)
     | Inr None \<Rightarrow> efail (with_ctx ''path'' input (err_not_found ''workspace path does not exist''))
     | Inr (Some _) \<Rightarrow> canonical_path fs (path_string candidate) (filesystem_error (''failed to canonicalize path for '' @ action) (path_string candidate)))"

definition resolve_existing_readable ::
  "path_fs \<Rightarrow> string \<Rightarrow> string \<Rightarrow> string list \<Rightarrow> directory_authority \<Rightarrow> directory_authority list \<Rightarrow> string \<Rightarrow> (ws_world, resolution) eff" where
  "resolve_existing_readable fs input root_text extra primary authorities action =
     (if input = [] then efail (err_invalid_argument ''workspace path must not be empty'')
      else let root_path = parse_path root_text; candidate = join_input root_path input in
        ebind (has_symlink_component fs candidate) (\<lambda>followed.
          if find_matching_root candidate root_path extra = None then efail (ws_path_error ''path is outside workspace'' input ''outside_workspace'')
          else ebind (canonical_existing_path fs candidate input action) (\<lambda>c.
            case find_matching_root c root_path extra of
              None \<Rightarrow> efail (ws_path_error (if followed then ''path symlink escapes workspace'' else ''path is outside workspace'') input
                (if followed then ''symlink_escape'' else ''outside_workspace''))
            | Some m \<Rightarrow> eret (build_resolved c m primary authorities followed False))))"

definition resolve_existing_readable_outside_workspace :: "kernel \<Rightarrow> path_fs \<Rightarrow> string \<Rightarrow> string \<Rightarrow> string \<Rightarrow> (ws_world, resolution) eff" where
  "resolve_existing_readable_outside_workspace k fs input root_text action =
     (if input = [] then efail (err_invalid_argument ''workspace path must not be empty'')
      else let candidate = join_input (parse_path root_text) input in
        ebind (has_symlink_component fs candidate) (\<lambda>followed.
          ebind (canonical_existing_path fs candidate input action) (\<lambda>c. build_per_call_outside_resolved k c followed)))"

text \<open>The canonical spelling of a path that may not exist yet, and whether its parent is to be created.\<close>

definition mutation_candidate :: "path_fs \<Rightarrow> fs_path \<Rightarrow> bool \<Rightarrow> string \<Rightarrow> (ws_world, fs_path \<times> bool) eff" where
  "mutation_candidate fs candidate allow_missing_parent action =
     ebind (ask_fs (\<lambda>tr n. pq_symlink_status fs tr n (path_string candidate))) (\<lambda>r. case r of
       Inl detail \<Rightarrow> efail (filesystem_error (''failed to inspect path for '' @ action) (path_string candidate) detail)
     | Inr (Some _) \<Rightarrow> ebind (canonical_path fs (path_string candidate) (filesystem_error (''failed to canonicalize path for '' @ action) (path_string candidate))) (\<lambda>c. eret (c, False))
     | Inr None \<Rightarrow>
         let parent = parent_path candidate in
         if path_empty parent then eret (lexically_normal candidate, False)
         else ebind (ask_fs (\<lambda>tr n. pq_symlink_status fs tr n (path_string parent))) (\<lambda>pr. case pr of
             Inl detail \<Rightarrow> efail (filesystem_error (''failed to inspect parent for '' @ action) (path_string parent) detail)
           | Inr None \<Rightarrow> eret (lexically_normal candidate, allow_missing_parent)
           | Inr (Some _) \<Rightarrow> ebind (ask_fs (\<lambda>tr n. pq_canonical fs tr n (path_string parent))) (\<lambda>cr. case cr of
               Inl detail \<Rightarrow> efail (filesystem_error (''failed to canonicalize parent for '' @ action) (path_string parent) detail)
             | Inr s \<Rightarrow> eret (lexically_normal (path_append (parse_path s) (parse_path (filename candidate))), False))))"

definition resolve_mutating ::
  "path_fs \<Rightarrow> string \<Rightarrow> string \<Rightarrow> string list \<Rightarrow> directory_authority \<Rightarrow> directory_authority list \<Rightarrow> bool \<Rightarrow> string \<Rightarrow> (ws_world, resolution) eff" where
  "resolve_mutating fs input root_text extra primary authorities allow_missing_parent action =
     (if input = [] then efail (err_invalid_argument ''workspace path must not be empty'')
      else let root_path = parse_path root_text; candidate = join_input root_path input in
        ebind (has_symlink_component fs candidate) (\<lambda>followed.
          if followed then efail (ws_path_error ''mutating path resolves through a symlink'' input ''symlink_target'')
          else ebind (mutation_candidate fs candidate allow_missing_parent action) (\<lambda>(c, created).
            case find_matching_root c root_path extra of
              None \<Rightarrow> efail (ws_path_error ''path is outside workspace'' input ''outside_workspace'')
            | Some m \<Rightarrow> eret (build_resolved c m primary authorities False created))))"

definition escape_error :: "string \<Rightarrow> core_error \<Rightarrow> core_error" where
  "escape_error input e = (case map_of (err_context e) ''reason'' of
     Some r \<Rightarrow> if r = ''outside_authority'' \<or> r = ''symlink_component'' then ws_path_error ''path symlink escapes workspace'' input ''symlink_escape'' else e
   | None \<Rightarrow> e)"

definition resolve_read_through_authority ::
  "kernel \<Rightarrow> path_fs \<Rightarrow> string \<Rightarrow> string \<Rightarrow> string list \<Rightarrow> directory_authority \<Rightarrow> directory_authority list \<Rightarrow> (ws_world, resolution) eff" where
  "resolve_read_through_authority k fs input root_text extra primary authorities =
     (if input = [] then efail (err_invalid_argument ''workspace path must not be empty'')
      else let root_path = parse_path root_text; candidate = join_input root_path input in
        case find_matching_root candidate root_path extra of
          None \<Rightarrow> efail (ws_path_error ''path is outside workspace'' input ''outside_workspace'')
        | Some m \<Rightarrow>
            let a = authority_for_match m primary authorities in
            ebind (on_kernel (refers_to_path k a (path_string (rm_root m)))) (\<lambda>named.
              let anchored = ebind (emap_error (escape_error input) (on_kernel (open_file k a \<lparr>ap_relative_path = relative_path candidate (rm_root m), ap_reject_all = False\<rparr>))) (\<lambda>_.
                    eret (build_resolved candidate m primary authorities False False)) in
              if named
              then (\<lambda>w. case resolve_existing_readable fs input root_text extra primary authorities ''read'' w of
                  (Inr res, w') \<Rightarrow> (Inr res, w') | (Inl _, w') \<Rightarrow> anchored w')
              else anchored))"

definition workspace_resolve_read :: "kernel \<Rightarrow> path_fs \<Rightarrow> workspace \<Rightarrow> string \<Rightarrow> (ws_world, resolution) eff" where
  "workspace_resolve_read k fs ws path =
     resolve_read_through_authority k fs path (wk_root ws) (wk_extra_read_roots ws) (wk_root_authority ws) (wk_extra_read_authorities ws)"

definition workspace_resolve_read_outside :: "kernel \<Rightarrow> path_fs \<Rightarrow> workspace \<Rightarrow> string \<Rightarrow> (ws_world, resolution) eff" where
  "workspace_resolve_read_outside k fs ws path = resolve_existing_readable_outside_workspace k fs path (wk_root ws) ''read''"

definition workspace_resolve_write :: "path_fs \<Rightarrow> workspace \<Rightarrow> string \<Rightarrow> bool \<Rightarrow> (ws_world, resolution) eff" where
  "workspace_resolve_write fs ws path create =
     resolve_mutating fs path (wk_root ws) (wk_extra_write_roots ws) (wk_root_authority ws) (wk_extra_write_authorities ws) create ''write''"

definition workspace_lock_key :: "workspace \<Rightarrow> string \<Rightarrow> lock_direction \<Rightarrow> string option" where
  "workspace_lock_key ws path direction =
     (if path = [] then None
      else let root_path = parse_path (wk_root ws); candidate = join_input root_path path;
               extra = (if direction = LockRead then wk_extra_read_roots ws else wk_extra_write_roots ws) in
        if find_matching_root candidate root_path extra = None then None else Some (path_string candidate))"

definition render_display :: "fs_path \<Rightarrow> string \<Rightarrow> fs_path \<Rightarrow> string" where
  "render_display candidate label root_path = (let rel = relative_path candidate root_path in if rel = ''.'' then label else label @ ''/'' @ rel)"

fun display_extra :: "fs_path \<Rightarrow> string \<Rightarrow> string list \<Rightarrow> nat \<Rightarrow> string option" where
  "display_extra candidate kind [] i = None"
| "display_extra candidate kind (r # rs) i =
     (if is_under_root candidate (parse_path r) then Some (render_display candidate (''<'' @ kind @ ''-root-'' @ show_nat i @ ''>'') (parse_path r))
      else display_extra candidate kind rs (Suc i))"

definition workspace_display_path :: "workspace \<Rightarrow> string \<Rightarrow> string" where
  "workspace_display_path ws absolute = (let candidate = lexically_normal (parse_path absolute); root_path = parse_path (wk_root ws) in
     if is_under_root candidate root_path then render_display candidate ''<workspace>'' root_path
     else case display_extra candidate ''read'' (wk_extra_read_roots ws) 0 of
       Some t \<Rightarrow> t
     | None \<Rightarrow> (case display_extra candidate ''write'' (wk_extra_write_roots ws) 0 of Some t \<Rightarrow> t | None \<Rightarrow> absolute))"

section \<open>Normal paths\<close>

lemma split_slash_join: "ns \<noteq> [] \<Longrightarrow> list_all (\<lambda>n. CHR ''/'' \<notin> set n) ns \<Longrightarrow> split_slash (join_names ns) = ns"
proof (induction ns rule: join_names.induct)
  case (2 n)
  then have "CHR ''/'' \<notin> set n" by simp
  then show ?case by (induction n) auto
next
  case (3 n m ms)
  then have "split_slash (join_names (m # ms)) = m # ms" "CHR ''/'' \<notin> set n" by auto
  then have "split_slash (n @ CHR ''/'' # join_names (m # ms)) = n # m # ms" by (induction n) auto
  then show ?case by simp
qed simp

definition simple_names :: "string list \<Rightarrow> bool" where
  "simple_names ns \<longleftrightarrow> list_all (\<lambda>n. CHR ''/'' \<notin> set n) ns"

lemma parse_path_simple: "simple_names (p_names (parse_path t))"
  by (auto simp: parse_path_def Let_def simple_names_def list_all_iff dest: split_slash_names)

lemma append_simple: "simple_names (p_names a) \<Longrightarrow> simple_names (p_names b) \<Longrightarrow> simple_names (p_names (path_append a b))"
  by (auto simp: path_append_def simple_names_def list_all_iff dest: in_set_butlastD)

lemma normal_fold:
  "set (fold (normal_step rooted) ns acc) \<subseteq> set acc \<union> (set ns - {[], ''.''})" "rooted \<Longrightarrow> ''..'' \<notin> set acc \<Longrightarrow> ''..'' \<notin> set (fold (normal_step rooted) ns acc)"
proof (induction ns arbitrary: acc)
  case (Cons n ns)
  { case 1
    have "set (normal_step rooted n acc) \<subseteq> set acc \<union> ({n} - {[], ''.''})" by (auto simp: normal_step_def dest: in_set_butlastD)
    then show ?case using Cons(1) [of "normal_step rooted n acc"] by auto }
  { case 2
    then have "''..'' \<notin> set (normal_step rooted n acc)" by (auto simp: normal_step_def dest: in_set_butlastD)
    then show ?case using Cons(2) [of "normal_step rooted n acc"] 2 by auto }
qed auto

lemma normal_simple: "simple_names (p_names p) \<Longrightarrow> simple_names (p_names (lexically_normal p))"
  using normal_fold(1) [of "p_rooted p" "p_names p" "[]"]
  by (auto simp: lexically_normal_def Let_def simple_names_def list_all_iff)

lemma normal_rooted [simp]: "p_rooted (lexically_normal p) = p_rooted p"
  by (simp add: lexically_normal_def Let_def)

lemma normal_no_up: "p_rooted p \<Longrightarrow> ''..'' \<notin> set (p_names (lexically_normal p))"
  using normal_fold(2) [of True "[]" "p_names p"] by (auto simp: lexically_normal_def Let_def)

lemma normal_inner_names: "p_rooted p \<Longrightarrow> n \<in> set (butlast (p_names (lexically_normal p))) \<Longrightarrow> n \<noteq> []"
  using normal_fold(1) [of True "p_names p" "[]"] by (auto simp: lexically_normal_def Let_def split: if_splits dest: in_set_butlastD)

lemma parse_rooted: "p_rooted (parse_path t) = prefix ''/'' t"
  by (simp add: parse_path_def Let_def)

lemma drop_common_append: "drop_common (xs @ ys) xs = (ys, [])"
proof (induction xs)
  case Nil
  show ?case by (cases ys) auto
qed simp

text \<open>A path under a root is the root followed by names that do not lead up, and its relative path is those names.\<close>

lemma under_root_split:
  assumes "is_under_root c base" "p_rooted base" "simple_names (p_names c)"
  obtains rest where "p_rooted c" "p_names (lexically_normal c) = p_names (lexically_normal base) @ rest" "''..'' \<notin> set rest" "simple_names rest"
    "relative_path c base = (if rest = [] \<or> hd rest = [] then ''.'' else join_names rest)"
proof -
  obtain zs where zs: "path_elements (lexically_normal c) = path_elements (lexically_normal base) @ zs" using assms(1) by (auto simp: is_under_root_def prefix_def)
  have rooted: "p_rooted c"
  proof (rule ccontr)
    assume "\<not> p_rooted c"
    then have "p_names (lexically_normal c) = ''/'' # p_names (lexically_normal base) @ zs" using zs assms(2) by (simp add: path_elements_def)
    then show False using normal_simple [OF assms(3)] by (simp add: simple_names_def)
  qed
  then have names: "p_names (lexically_normal c) = p_names (lexically_normal base) @ zs" using zs assms(2) by (simp add: path_elements_def)
  have "''..'' \<notin> set zs" using normal_no_up [OF rooted] names by auto
  moreover have "simple_names zs" using normal_simple [OF assms(3)] names by (simp add: simple_names_def)
  moreover have "relative_path c base = (if zs = [] \<or> hd zs = [] then ''.'' else join_names zs)"
    using rooted assms(2) names
    by (auto simp: relative_path_def Let_def lexically_relative_def drop_common_append ups_def path_empty_def path_string_def)
  ultimately show ?thesis using that [of zs] rooted names by blast
qed

text \<open>A relative path that an authority accepts.\<close>

definition anchored :: "string \<Rightarrow> bool" where
  "anchored rel \<longleftrightarrow> rel \<noteq> [] \<and> \<not> prefix ''/'' rel \<and> ''..'' \<notin> set (split_slash rel)"

lemma anchored_valid: "anchored rel \<Longrightarrow> CHR 0x00 \<notin> set rel \<Longrightarrow> validate_anchored_path \<lparr>ap_relative_path = rel, ap_reject_all = b\<rparr> = Inr ()"
  by (simp add: anchored_def validate_anchored_path_def Let_def)

lemma anchored_names: "simple_names rest \<Longrightarrow> ''..'' \<notin> set rest \<Longrightarrow> rest \<noteq> [] \<Longrightarrow> hd rest \<noteq> [] \<Longrightarrow> anchored (join_names rest)"
proof -
  assume rest: "simple_names rest" "''..'' \<notin> set rest" "rest \<noteq> []" "hd rest \<noteq> []"
  then obtain n ns where n: "rest = n # ns" "n \<noteq> []" "CHR ''/'' \<notin> set n" by (cases rest) (auto simp: simple_names_def)
  then have "join_names rest \<noteq> []" "hd (join_names rest) = hd n" by (cases ns; auto)+
  moreover have "hd n \<noteq> CHR ''/''" using n by (cases n) auto
  ultimately show ?thesis using split_slash_join [of rest] rest unfolding anchored_def by (cases "join_names rest") (auto simp: simple_names_def)
qed

lemma anchored_dot: "anchored ''.''"
  by (simp add: anchored_def)

section \<open>Resolution stays beneath the roots\<close>

definition beneath :: "string \<Rightarrow> resolved_path \<Rightarrow> bool" where
  "beneath base rp \<longleftrightarrow> (\<exists>rest. ''..'' \<notin> set rest \<and> rp_absolute rp = path_string \<lparr>p_rooted = True, p_names = p_names (lexically_normal (parse_path base)) @ rest\<rparr> \<and>
     rp_authority_relative rp = (if rest = [] \<or> hd rest = [] then ''.'' else join_names rest)) \<and> anchored (rp_authority_relative rp)"

text \<open>The resolution hands out the given authority, and not one opened for this call.\<close>

definition through :: "directory_authority \<Rightarrow> resolved_path \<Rightarrow> bool" where
  "through a rp \<longleftrightarrow> rp_authority rp = da_fd a \<and> \<not> rp_per_call_outside rp"

lemma match_extra_spec:
  "match_extra_roots c rs i = Some m \<Longrightarrow> \<exists>j. j < length rs \<and> rm_override_index m = Some (i + j) \<and> rm_root m = parse_path (rs ! j) \<and> is_under_root c (parse_path (rs ! j))"
proof (induction rs arbitrary: i)
  case (Cons r rs)
  show ?case
  proof (cases "is_under_root c (parse_path r)")
    case True
    then show ?thesis using Cons.prems by (intro exI [of _ 0]) auto
  next
    case False
    then obtain j where "j < length rs" "rm_override_index m = Some (Suc i + j)" "rm_root m = parse_path (rs ! j)" "is_under_root c (parse_path (rs ! j))"
      using Cons.IH [of "Suc i"] Cons.prems by auto
    then show ?thesis by (intro exI [of _ "Suc j"]) auto
  qed
qed simp

lemma normal_path_string_rooted: "p_rooted c \<Longrightarrow> lexically_normal c = \<lparr>p_rooted = True, p_names = p_names (lexically_normal c)\<rparr>"
  by simp

lemma build_resolved_beneath:
  assumes m: "find_matching_root c (parse_path base) extra = Some m" and c: "simple_names (p_names c)"
    and rooted: "list_all (prefix ''/'') (base # extra)" and len: "length authorities = length extra" and res: "build_resolved c m primary authorities followed created = (a, rp)"
  shows "\<exists>r. (r, a) \<in> set (zip (base # extra) (primary # authorities)) \<and> beneath r rp \<and> through a rp"
proof -
  obtain r where r: "rm_root m = parse_path r" "is_under_root c (parse_path r)" "(r, authority_for_match m primary authorities) \<in> set (zip (base # extra) (primary # authorities))"
  proof (cases "is_under_root c (parse_path base)")
    case True
    then show ?thesis using m that [of base] by (auto simp: find_matching_root_def authority_for_match_def)
  next
    case False
    then obtain j where "j < length extra" "rm_override_index m = Some j" "rm_root m = parse_path (extra ! j)" "is_under_root c (parse_path (extra ! j))"
      using m match_extra_spec [of c extra 0 m] by (auto simp: find_matching_root_def)
    then show ?thesis using that [of "extra ! j"] len by (auto simp: authority_for_match_def set_zip)
  qed
  have "prefix ''/'' r" using r(3) rooted by (auto simp: list_all_iff dest: set_zip_leftD)
  then have "p_rooted (parse_path r)" by (simp add: parse_rooted)
  from under_root_split [OF r(2) this c] obtain rest where rest: "p_rooted c" "p_names (lexically_normal c) = p_names (lexically_normal (parse_path r)) @ rest" "''..'' \<notin> set rest" "simple_names rest"
      "relative_path c (parse_path r) = (if rest = [] \<or> hd rest = [] then ''.'' else join_names rest)" by blast
  have "rp_absolute rp = path_string (lexically_normal c)" "rp_authority_relative rp = relative_path c (parse_path r)" "a = authority_for_match m primary authorities"
    using res r(1) by (auto simp: build_resolved_def Let_def)
  then have "beneath r rp" unfolding beneath_def using rest anchored_names [OF rest(4,3)] anchored_dot normal_path_string_rooted [OF rest(1)] by metis
  then show ?thesis using r(3) res by (auto simp: build_resolved_def through_def Let_def)
qed

lemma canonical_path_simple: "canonical_path fs path err w = (Inr c, w') \<Longrightarrow> simple_names (p_names c)"
  by (auto simp: canonical_path_def ask_fs_def ebind_eq_Inr_iff eff_apply intro: normal_simple parse_path_simple split: sum.splits)

lemma join_input_simple: "simple_names (p_names base) \<Longrightarrow> simple_names (p_names (join_input base input))"
  by (auto simp: join_input_def Let_def intro: normal_simple append_simple parse_path_simple)

lemma mutation_candidate_simple:
  "mutation_candidate fs candidate create action w = (Inr (c, created), w') \<Longrightarrow> simple_names (p_names candidate) \<Longrightarrow> simple_names (p_names c)"
  by (auto simp: mutation_candidate_def ask_fs_def ebind_eq_Inr_iff eff_apply Let_def intro!: normal_simple append_simple parse_path_simple dest: canonical_path_simple
      split: sum.splits option.splits if_splits prod.splits)

lemma resolve_mutating_beneath:
  assumes "resolve_mutating fs input base extra primary authorities create action w = (Inr (a, rp), w')"
    and "list_all (prefix ''/'') (base # extra)" "length authorities = length extra"
  shows "\<exists>r. (r, a) \<in> set (zip (base # extra) (primary # authorities)) \<and> beneath r rp \<and> through a rp"
proof -
  obtain c m created w1 w2 where "mutation_candidate fs (join_input (parse_path base) input) create action w1 = (Inr (c, created), w2)"
      "find_matching_root c (parse_path base) extra = Some m" "build_resolved c m primary authorities False created = (a, rp)"
    using assms(1) by (auto simp: resolve_mutating_def Let_def ebind_eq_Inr_iff eff_apply split: if_splits option.splits)
  then show ?thesis
    using build_resolved_beneath [OF _ _ assms(2,3)] mutation_candidate_simple join_input_simple [OF parse_path_simple] by blast
qed

lemma resolve_existing_beneath:
  assumes "resolve_existing_readable fs input base extra primary authorities action w = (Inr (a, rp), w')"
    and "list_all (prefix ''/'') (base # extra)" "length authorities = length extra"
  shows "\<exists>r. (r, a) \<in> set (zip (base # extra) (primary # authorities)) \<and> beneath r rp \<and> through a rp"
proof -
  obtain c m followed w1 w2 where "canonical_existing_path fs (join_input (parse_path base) input) input action w1 = (Inr c, w2)"
      "find_matching_root c (parse_path base) extra = Some m" "build_resolved c m primary authorities followed False = (a, rp)"
    using assms(1) by (auto simp: resolve_existing_readable_def Let_def ebind_eq_Inr_iff eff_apply split: if_splits option.splits)
  moreover from this(1) have "simple_names (p_names c)"
    by (auto simp: canonical_existing_path_def ask_fs_def ebind_eq_Inr_iff eff_apply dest: canonical_path_simple split: sum.splits option.splits)
  ultimately show ?thesis using build_resolved_beneath [OF _ _ assms(2,3)] by blast
qed

lemma read_fallback:
  "(case m t of (Inl e, u) \<Rightarrow> f u | (Inr res, u) \<Rightarrow> (Inr res, u)) = (Inr x, w') \<Longrightarrow> m t = (Inr x, w') \<or> (\<exists>u. f u = (Inr x, w'))"
  by (auto split: prod.splits sum.splits)

lemma resolve_read_beneath:
  assumes "resolve_read_through_authority k fs input base extra primary authorities w = (Inr (a, rp), w')"
    and "list_all (prefix ''/'') (base # extra)" "length authorities = length extra"
  shows "\<exists>r. (r, a) \<in> set (zip (base # extra) (primary # authorities)) \<and> beneath r rp \<and> through a rp"
proof -
  define c where "c = join_input (parse_path base) input"
  have c: "simple_names (p_names c)" unfolding c_def by (rule join_input_simple [OF parse_path_simple])
  obtain m where m: "find_matching_root c (parse_path base) extra = Some m"
    using assms(1) by (auto simp: resolve_read_through_authority_def Let_def c_def eff_apply split: if_splits option.splits)
  define anchored_read where "anchored_read = ebind (emap_error (escape_error input) (on_kernel (open_file k (authority_for_match m primary authorities)
      \<lparr>ap_relative_path = relative_path c (rm_root m), ap_reject_all = False\<rparr>))) (\<lambda>_. eret (build_resolved c m primary authorities False False))"
  have anchored_read: "build_resolved c m primary authorities False False = (a, rp)" if "anchored_read w1 = (Inr (a, rp), w2)" for w1 w2
    using that by (auto simp: anchored_read_def ebind_eq_Inr_iff eff_apply)
  from assms(1) m have "build_resolved c m primary authorities False False = (a, rp) \<or>
      (\<exists>w1 w2. resolve_existing_readable fs input base extra primary authorities ''read'' w1 = (Inr (a, rp), w2))"
    by (auto simp: resolve_read_through_authority_def Let_def c_def [symmetric] anchored_read_def [symmetric] ebind_eq_Inr_iff eff_apply
        split: if_splits dest: anchored_read dest!: read_fallback)
  with m show ?thesis using build_resolved_beneath [OF _ c assms(2,3)] resolve_existing_beneath [OF _ assms(2,3)] by blast
qed

section \<open>Creation\<close>

text \<open>What \<^verbatim>\<open>weakly_canonical\<close> documents: the canonical form of an absolute path is absolute.\<close>

definition canonical_absolute :: "path_fs \<Rightarrow> bool" where
  "canonical_absolute fs \<longleftrightarrow> (\<forall>tr n p s. prefix ''/'' p \<longrightarrow> pq_canonical fs tr n p = Inr s \<longrightarrow> prefix ''/'' s)"

definition opened :: "kernel \<Rightarrow> string \<Rightarrow> directory_authority \<Rightarrow> bool" where
  "opened k r a \<longleftrightarrow> (\<exists>tr. fst (open_trusted_directory k r tr) = Inr a)"

definition read_roots :: "workspace \<Rightarrow> (string \<times> directory_authority) list" where
  "read_roots ws = zip (wk_root ws # wk_extra_read_roots ws) (wk_root_authority ws # wk_extra_read_authorities ws)"

definition write_roots :: "workspace \<Rightarrow> (string \<times> directory_authority) list" where
  "write_roots ws = zip (wk_root ws # wk_extra_write_roots ws) (wk_root_authority ws # wk_extra_write_authorities ws)"

definition workspace_ok :: "kernel \<Rightarrow> workspace \<Rightarrow> bool" where
  "workspace_ok k ws \<longleftrightarrow> list_all (prefix ''/'') (wk_root ws # wk_extra_read_roots ws @ wk_extra_write_roots ws) \<and> opened k (wk_root ws) (wk_root_authority ws) \<and>
     list_all2 (opened k) (wk_extra_read_roots ws) (wk_extra_read_authorities ws) \<and> list_all2 (opened k) (wk_extra_write_roots ws) (wk_extra_write_authorities ws)"

lemma canonical_directory_rooted:
  "canonical_directory fs raw field w = (Inr c, w') \<Longrightarrow> canonical_absolute fs \<Longrightarrow> prefix ''/'' raw \<Longrightarrow> prefix ''/'' (path_string c)"
  by (auto simp: canonical_directory_def canonical_path_def ask_fs_def ebind_eq_Inr_iff eff_apply canonical_absolute_def path_string_def parse_rooted split: if_splits sum.splits option.splits)

lemma canonicalize_extra_rooted:
  "canonicalize_extra_roots fs rs name i w = (Inr cs, w') \<Longrightarrow> canonical_absolute fs \<Longrightarrow> list_all (prefix ''/'') rs \<Longrightarrow> list_all (prefix ''/'') cs"
  by (induction rs arbitrary: i w cs w') (auto simp: ebind_eq_Inr_iff eff_apply dest: canonical_directory_rooted)

lemma on_kernel_opened: "emap_error g (on_kernel (open_trusted_directory k r)) w = (Inr a, w') \<Longrightarrow> opened k r a"
  by (auto simp: emap_error_def on_kernel_def opened_def split: prod.splits sum.splits) (metis fst_conv)

lemma open_root_authorities_opened: "open_root_authorities k rs name i w = (Inr as, w') \<Longrightarrow> list_all2 (opened k) rs as"
  by (induction rs arbitrary: i w as w') (auto simp: ebind_eq_Inr_iff eff_apply dest: on_kernel_opened)

lemma create_workspace_ok:
  assumes "create_workspace k fs raw reads_roots writes_roots w = (Inr ws, w')" "canonical_absolute fs" "list_all (prefix ''/'') (raw # reads_roots @ writes_roots)"
  shows "workspace_ok k ws"
proof -
  from assms(1) obtain c rs wss a ras was w1 w2 w3 w4 w5 where run:
    "canonical_directory fs raw ''workspace'' w = (Inr c, w1)"
    "canonicalize_extra_roots fs reads_roots ''permissions.workspace.extra_read_roots'' 0 w1 = (Inr rs, w2)"
    "canonicalize_extra_roots fs writes_roots ''permissions.workspace.extra_write_roots'' 0 w2 = (Inr wss, w3)"
    "emap_error (with_ctx ''field'' ''workspace'') (on_kernel (open_trusted_directory k (path_string c))) w3 = (Inr a, w4)"
    "open_root_authorities k rs ''permissions.workspace.extra_read_roots'' 0 w4 = (Inr ras, w5)"
    "open_root_authorities k wss ''permissions.workspace.extra_write_roots'' 0 w5 = (Inr was, w')"
    "ws = \<lparr>wk_root = path_string c, wk_extra_read_roots = rs, wk_extra_write_roots = wss, wk_root_authority = a, wk_extra_read_authorities = ras, wk_extra_write_authorities = was\<rparr>"
    unfolding create_workspace_def ebind_eq_Inr_iff eff_apply by auto
  then show ?thesis
    using canonical_directory_rooted [OF run(1) assms(2)] canonicalize_extra_rooted [OF run(2) assms(2)] canonicalize_extra_rooted [OF run(3) assms(2)]
      on_kernel_opened [OF run(4)] open_root_authorities_opened [OF run(5)] open_root_authorities_opened [OF run(6)] assms(3)
    by (auto simp: workspace_ok_def)
qed

lemma roots_opened: "workspace_ok k ws \<Longrightarrow> (r, a) \<in> set (read_roots ws) \<union> set (write_roots ws) \<Longrightarrow> opened k r a"
  by (auto simp: workspace_ok_def read_roots_def write_roots_def list_all2_iff)

text \<open>
  A read outside of the roots stands for one canonical path \<open>c\<close>: the authority was opened for this call at
  the parent directory of \<open>c\<close>, with the last name of \<open>c\<close> beneath it, or at \<open>c\<close> itself when it has no last name.
\<close>

definition per_call_target :: "kernel \<Rightarrow> fs_path \<Rightarrow> directory_authority \<Rightarrow> resolved_path \<Rightarrow> bool" where
  "per_call_target k c a rp \<longleftrightarrow> p_rooted c \<and> ''..'' \<notin> set (p_names c) \<and>
     rp_per_call_outside rp \<and> rp_outside_explicit rp \<and> rp_authority rp = da_fd a \<and> rp_absolute rp = path_string (lexically_normal c) \<and>
     anchored (rp_authority_relative rp) \<and>
     (if p_names c = [] \<or> last (p_names c) = []
      then opened k (path_string c) a \<and> rp_authority_relative rp = ''.''
      else opened k (path_string (c\<lparr>p_names := butlast (p_names c)\<rparr>)) a \<and> rp_authority_relative rp = last (p_names c) \<and>
        CHR ''/'' \<notin> set (rp_authority_relative rp))"

lemma join_input_rooted: "p_rooted base \<Longrightarrow> p_rooted (join_input base input)"
  by (simp add: join_input_def path_append_def Let_def)

lemma build_per_call_target:
  assumes "build_per_call_outside_resolved k (lexically_normal (parse_path t)) followed w = (Inr (a, rp), w')" "prefix ''/'' t"
  shows "per_call_target k (lexically_normal (parse_path t)) a rp"
proof -
  define c where "c = lexically_normal (parse_path t)"
  define whole where "whole = (p_names c = [] \<or> last (p_names c) = [])"
  have c: "p_rooted c" "simple_names (p_names c)" "''..'' \<notin> set (p_names c)"
    using assms(2) normal_no_up [of "parse_path t"] by (simp_all add: c_def parse_rooted normal_simple [OF parse_path_simple])
  have "path_empty (parent_path c) \<or> filename c = [] \<longleftrightarrow> whole"
    using c(1) by (auto simp: path_empty_def parent_path_def filename_def whole_def)
  then have run: "on_kernel (open_trusted_directory k (path_string (if whole then c else parent_path c))) w = (Inr a, w')"
      and rp: "rp = \<lparr>rp_authority = da_fd a, rp_authority_relative = (if whole then ''.'' else filename c), rp_absolute = path_string (lexically_normal c), rp_relative = [],
        rp_symlink_followed = followed, rp_created_parents = False, rp_outside_explicit = True, rp_per_call_outside = True, rp_override_root = None\<rparr>"
    using assms(1) unfolding c_def [symmetric] build_per_call_outside_resolved_def Let_def by (auto simp: ebind_eq_Inr_iff eff_apply)
  have at: "opened k (path_string (if whole then c else parent_path c)) a"
    using run by (auto simp: on_kernel_def opened_def split: prod.splits) (metis fst_conv)+
  show ?thesis
  proof (cases whole)
    case True
    then show ?thesis using at rp c anchored_dot unfolding c_def [symmetric] by (auto simp: per_call_target_def whole_def)
  next
    case False
    then have l: "last (p_names c) \<in> set (p_names c)" "last (p_names c) \<noteq> []" by (auto simp: whole_def)
    then have "anchored (join_names [last (p_names c)])"
      using c by (intro anchored_names) (auto simp: simple_names_def list_all_iff)
    then show ?thesis using False at rp c l unfolding c_def [symmetric]
      by (auto simp: per_call_target_def whole_def parent_path_def filename_def simple_names_def list_all_iff)
  qed
qed

lemma resolve_outside_target:
  assumes "resolve_existing_readable_outside_workspace k fs input base action w = (Inr (a, rp), w')"
    and "canonical_absolute fs" "prefix ''/'' base"
  shows "\<exists>tr n t. pq_canonical fs tr n (path_string (join_input (parse_path base) input)) = Inr t \<and>
    per_call_target k (lexically_normal (parse_path t)) a rp"
proof -
  let ?p = "path_string (join_input (parse_path base) input)"
  obtain followed c w1 w2 where c: "canonical_existing_path fs (join_input (parse_path base) input) input action w1 = (Inr c, w2)"
      and res: "build_per_call_outside_resolved k c followed w2 = (Inr (a, rp), w')"
    using assms(1) by (auto simp: resolve_existing_readable_outside_workspace_def Let_def ebind_eq_Inr_iff eff_apply split: if_splits)
  from c obtain tr n t where t: "pq_canonical fs tr n ?p = Inr t" "c = lexically_normal (parse_path t)"
    by (auto simp: canonical_existing_path_def canonical_path_def ask_fs_def ebind_eq_Inr_iff eff_apply split: sum.splits option.splits)
  have "prefix ''/'' ?p" using assms(3) join_input_rooted [of "parse_path base" input] by (simp add: path_string_def parse_rooted)
  then have "prefix ''/'' t" using t(1) assms(2) unfolding canonical_absolute_def by blast
  then show ?thesis using build_per_call_target [of k t] res t by blast
qed

text \<open>
  C23: A workspace confines the paths of tools. Let the configured roots be absolute, and let the file system canonicalise absolute paths to absolute ones (as documented). Once the workspace
  is created, every path that \<open>resolve_read\<close> or \<open>resolve_write\<close> resolves, at any later state of the file system and whatever else it answers, comes with the authority of a configured root,
  the one that was opened under the name of that root, and with a relative path beneath it: the absolute path is the root followed by names none of which leads up, the relative path is those
  names, and it is one that an authority accepts. Reads may use the read roots, writes only the write roots. The separate \<open>resolve_read_outside_workspace\<close> may leave the roots; what it resolves
  is always marked as a per-call override, and its authority reaches one canonical path: it was opened at the parent directory of that path and comes with the last name only (or at the path
  itself, when there is no last name). No other resolution carries that mark.
\<close>

theorem workspace_confines:
  assumes "canonical_absolute fs" "list_all (prefix ''/'') (raw # reads_roots @ writes_roots)"
    and "create_workspace k fs raw reads_roots writes_roots w = (Inr ws, w1)"
  shows "(workspace_resolve_read k fs ws path w2 = (Inr (a, rp), w3) \<longrightarrow>
      (\<exists>r. (r, a) \<in> set (read_roots ws) \<and> opened k r a \<and> beneath r rp \<and> through a rp)) \<and>
    (workspace_resolve_write fs ws path create w2 = (Inr (a, rp), w3) \<longrightarrow>
      (\<exists>r. (r, a) \<in> set (write_roots ws) \<and> opened k r a \<and> beneath r rp \<and> through a rp)) \<and>
    (workspace_resolve_read_outside k fs ws path w2 = (Inr (a, rp), w3) \<longrightarrow>
      (\<exists>tr n t. pq_canonical fs tr n (path_string (join_input (parse_path (wk_root ws)) path)) = Inr t \<and>
        per_call_target k (lexically_normal (parse_path t)) a rp))"
proof -
  have ok: "workspace_ok k ws" by (rule create_workspace_ok [OF assms(3,1,2)])
  then have rooted: "list_all (prefix ''/'') (wk_root ws # wk_extra_read_roots ws)" "list_all (prefix ''/'') (wk_root ws # wk_extra_write_roots ws)"
      and len: "length (wk_extra_read_authorities ws) = length (wk_extra_read_roots ws)" "length (wk_extra_write_authorities ws) = length (wk_extra_write_roots ws)"
    by (auto simp: workspace_ok_def list_all2_iff)
  have "\<exists>r. (r, a) \<in> set (read_roots ws) \<and> beneath r rp \<and> through a rp" if "workspace_resolve_read k fs ws path w2 = (Inr (a, rp), w3)"
    using resolve_read_beneath [OF that [unfolded workspace_resolve_read_def] rooted(1) len(1)] by (simp add: read_roots_def)
  moreover have "\<exists>r. (r, a) \<in> set (write_roots ws) \<and> beneath r rp \<and> through a rp" if "workspace_resolve_write fs ws path create w2 = (Inr (a, rp), w3)"
    using resolve_mutating_beneath [OF that [unfolded workspace_resolve_write_def] rooted(2) len(2)] by (simp add: write_roots_def)
  moreover have "\<exists>tr n t. pq_canonical fs tr n (path_string (join_input (parse_path (wk_root ws)) path)) = Inr t \<and>
      per_call_target k (lexically_normal (parse_path t)) a rp" if "workspace_resolve_read_outside k fs ws path w2 = (Inr (a, rp), w3)"
    using resolve_outside_target [OF that [unfolded workspace_resolve_read_outside_def] assms(1)] rooted(1) by simp
  ultimately show ?thesis using roots_opened [OF ok] by blast
qed

definition demo_paths :: path_fs where
  "demo_paths = \<lparr>pq_canonical = (\<lambda>tr n p. Inr p), pq_status = (\<lambda>tr n p. Inr (Some DirectoryFile)),
     pq_symlink_status = (\<lambda>tr n p. Inr (if p = ''/w/a.txt'' then None else Some DirectoryFile))\<rparr>"

theorem workspace_confines_witness:
  "\<exists>ws w1 a rp w3 r. create_workspace demo_kernel demo_paths ''/w'' [''/r''] [] \<lparr>ww_trace = [], ww_queries = 0\<rparr> = (Inr ws, w1) \<and>
     workspace_resolve_write demo_paths ws ''s/../a.txt'' False w1 = (Inr (a, rp), w3) \<and> (r, a) \<in> set (write_roots ws) \<and> opened demo_kernel r a \<and> beneath r rp \<and> through a rp"
proof -
  define w where "w = \<lparr>ww_trace = [], ww_queries = 0\<rparr>"
  have hyps: "canonical_absolute demo_paths" "list_all (prefix ''/'') (''/w'' # [''/r''] @ [])" by (simp_all add: canonical_absolute_def demo_paths_def)
  obtain ws w1 where create: "create_workspace demo_kernel demo_paths ''/w'' [''/r''] [] w = (Inr ws, w1)" and roots: "wk_root ws = ''/w''" "wk_extra_write_roots ws = []"
    by (simp add: w_def create_workspace_def canonical_directory_def canonical_path_def ask_fs_def on_kernel_def open_trusted_directory_def try_call_def call_fd_def ebind_def eff_apply emap_error_def
      demo_paths_def demo_kernel_def indexed_field_def lexically_normal_def parse_path_def path_string_def normal_step_def)
  have "\<exists>a rp w3. workspace_resolve_write demo_paths ws ''s/../a.txt'' False w1 = (Inr (a, rp), w3)"
    by (simp add: workspace_resolve_write_def resolve_mutating_def roots join_input_def parse_path_def path_append_def lexically_normal_def normal_step_def has_symlink_component_def
      path_prefixes_def ask_fs_def ebind_def eff_apply demo_paths_def path_string_def mutation_candidate_def parent_path_def path_empty_def filename_def find_matching_root_def is_under_root_def
      path_elements_def build_resolved_def Let_def upt_rec)
  then obtain a rp w3 where "workspace_resolve_write demo_paths ws ''s/../a.txt'' False w1 = (Inr (a, rp), w3)" by blast
  then show ?thesis using workspace_confines [OF hyps create, of "''s/../a.txt''" w1 a rp w3 False] create unfolding w_def by blast
qed

end
