(* ===== verification/Spec2Isabelle.thy ===== *)
theory Spec2Isabelle
  imports Core_Str Core_Time Perm_Rules Perm_Approval Tool_PathLocks Http_Sse Provider_Execution Hook_Bus Tool_Input Tool_Registry Agent_Loop Provider_Transport Async_TaskGroup Storage_Pool Storage_Migrations Channel_Dispatcher Tool_Files Config_Accepted Tool_Workspace
begin

text \<open>
  Orangutan, a C++26 agent runtime: a verification development of its core.

  \<^bold>\<open>The program.\<close> A turn of the agent (\<^verbatim>\<open>oran-agent\<close>) renders a prompt (\<^verbatim>\<open>oran-prompt\<close>), fits the
  conversation into the context budget, asks a provider with retries and fallbacks
  (\<^verbatim>\<open>oran-provider\<close>, over HTTP and server-sent events, \<^verbatim>\<open>oran-http\<close>), and runs the tool calls of a
  response through a scheduler and the tool registry (\<^verbatim>\<open>oran-tool\<close>). Dispatch asks the permission
  layer (\<^verbatim>\<open>oran-permission\<close>) and the hook bus (\<^verbatim>\<open>oran-hook\<close>), takes path locks, audits, redacts and
  caps outputs. Everything rests on the value types of \<^verbatim>\<open>oran-core\<close>.

  \<^bold>\<open>Theories and sources\<close> (paths under \<^verbatim>\<open>src/src\<close> and \<^verbatim>\<open>src/include/oran\<close>).
  \<^item> \<open>Oran_Prelude\<close>: bytes, 64-bit arithmetic with wrap-around, decimal printing, association
    lists, and the locales \<open>invariant_machine\<close> and \<open>budget_machine\<close> for deterministic machines
    driven by events: what every step keeps holds of every run, and what every step spends is
    bounded by the budget of the start. They are interpreted on the approval broker, the SSE
    parser, the OpenAI stream decoder, the registry, the batches of the scheduler, the
    statement cache and the channel dispatcher.
  \<^item> \<open>Core_Error\<close>, \<open>Core_Str\<close>, \<open>Core_Time\<close>, \<open>Core_Content\<close>, \<open>Json_Value\<close>: \<^verbatim>\<open>oran-core/error.cpp\<close>,
    \<^verbatim>\<open>str.cpp\<close>, \<^verbatim>\<open>time.cpp\<close>, \<^verbatim>\<open>content.cpp\<close>, \<^verbatim>\<open>message.cpp\<close>, \<^verbatim>\<open>turn_id.cpp\<close>. A \<^verbatim>\<open>Result\<close> is a sum whose
    left side is the error and \<open>rbind\<close> is the early return. UTF-8 validation and truncation are
    compared with the encoding of Unicode scalar values, ISO 8601 stamps with the civil calendar;
    turn ids round-trip through hexadecimal.
  \<^item> \<open>Perm_Rules\<close>, \<open>Perm_Approval\<close>: \<^verbatim>\<open>rule_set.cpp\<close>, \<^verbatim>\<open>defaults.cpp\<close>, \<^verbatim>\<open>approval.cpp\<close>,
    \<^verbatim>\<open>approval_broker.cpp\<close>, \<^verbatim>\<open>approval_secret.cpp\<close>, \<^verbatim>\<open>audit.cpp\<close>. The glob matcher is equivalent to a
    declarative matching relation; for each requirement deny rules come before allow,
    allow before ask and ask before the baseline, and the strictest requirement decides; a
    grant is honoured at most as often as it allows and only for what was signed.
  \<^item> \<open>Tool_PathLocks\<close>, \<open>Tool_Input\<close>, \<open>Tool_Registry\<close>: \<^verbatim>\<open>path-locks.cpp\<close>, \<^verbatim>\<open>schema_validation.cpp\<close>,
    \<^verbatim>\<open>parse_input.cpp\<close>, \<^verbatim>\<open>input_redaction.cpp\<close>, \<^verbatim>\<open>output.cpp\<close>, \<^verbatim>\<open>catalog.cpp\<close>, \<^verbatim>\<open>registry.cpp\<close>,
    \<^verbatim>\<open>approval_resolution.cpp\<close>, \<^verbatim>\<open>audit_metadata.cpp\<close>, \<^verbatim>\<open>path_resolution.cpp\<close>. Readers and writers
    exclude each other and waiters are always woken; a handler runs only when authorised and after
    its audit row, and a dispatch tries to record exactly one; the registry refines a sorted catalog.
  \<^item> \<open>Hook_Bus\<close>: \<^verbatim>\<open>oran-hook/bus.cpp\<close>. A gate opens exactly when every deciding sink answered
    proceed in time; untrusted sinks see redacted payloads, whoever listens beside them.
  \<^item> \<open>Http_Sse\<close>, \<open>Provider_Response\<close>, \<open>Provider_Stream\<close>, \<open>Provider_Execution\<close>: \<^verbatim>\<open>sse_parser.hpp\<close>,
    \<^verbatim>\<open>protocol_response.cpp\<close>, the two SSE decoders, \<^verbatim>\<open>execution.cpp\<close>. Parsing is independent of how
    bytes are chunked, streaming decodes to the same response as the body but for two corner cases the
    theorem names (an empty stop reason, empty signature deltas), and nothing a caller saw is ever sent again.
  \<^item> \<open>Prompt_Render\<close>, \<open>Agent_Context\<close>, \<open>Agent_Scheduler\<close>, \<open>Agent_Observer\<close>, \<open>Agent_Loop\<close>:
    \<^verbatim>\<open>render.cpp\<close>, \<^verbatim>\<open>context.cpp\<close>, \<^verbatim>\<open>scheduler.cpp\<close>, \<^verbatim>\<open>turn_observer.cpp\<close>, \<^verbatim>\<open>loop.cpp\<close>. Compaction
    keeps the budget and splits no tool exchange; batches are bounded, ordered and end; the
    transcript of a turn pairs calls with results; a turn ends and is traced once.
  \<^item> \<open>Provider_Request\<close>, \<open>Provider_Transport\<close>: \<^verbatim>\<open>protocol_request.cpp\<close>, \<^verbatim>\<open>protocol_transport.cpp\<close>. What a
    provider said is sent back unchanged, requests keep every tool exchange, and a credential
    goes to its own endpoint and shows in nothing else.
  \<^item> \<open>Async_Channel\<close>, \<open>Async_TaskGroup\<close>, \<open>Storage_Pool\<close>: \<^verbatim>\<open>channel.hpp\<close>, \<^verbatim>\<open>task_group.cpp\<close>,
    \<^verbatim>\<open>oran-storage/pool.cpp\<close>. The channel is a bounded queue, a group accounts for every child and a
    join is always woken; leases of connections are exclusive and no waiter is forgotten.
  \<^item> \<open>Core_Effect\<close>, \<open>Storage_Cache\<close>, \<open>Storage_Migrations\<close>: \<^verbatim>\<open>statement_cache.cpp\<close>, \<^verbatim>\<open>migrations.cpp\<close>. Calls that
    may fail and change a state are values of a state and error monad with Hoare triples. A prepared
    statement has one holder; migrations run once each and in order, also when processes race.
  \<^item> \<open>Channel_Protocol\<close>, \<open>Channel_Adapters\<close>, \<open>Channel_Dispatcher\<close>: \<^verbatim>\<open>oran-channel\<close>. The locale
    \<open>channel_adapter\<close> states what the dispatcher relies on, and Telegram, QQ and Feishu interpret it; the
    dispatcher runs a turn at most once per event and never sends a confirmed part again.
  \<^item> \<open>Io_Authority\<close>: \<^verbatim>\<open>oran-io/directory_authority.cpp\<close> over system calls whose answers are an argument and whose
    history is the state. Files are replaced whole or not at all, and no call leaves the directory.
  \<^item> \<open>Io_File\<close>, \<open>Tool_Files\<close>: \<^verbatim>\<open>oran-io/file.cpp\<close>, \<^verbatim>\<open>fingerprint.cpp\<close>, \<^verbatim>\<open>version_token.hpp\<close>, \<^verbatim>\<open>file_read.cpp\<close>, \<^verbatim>\<open>file_write.cpp\<close>,
    \<^verbatim>\<open>file_edit.cpp\<close>. Reads of an unchanged file return its text or lines, cut at a code point; an edit is the
    left-to-right replacement, sized without wrapping, and either replaces what it read or changes nothing.
  \<^item> \<open>Config_Load\<close>, \<open>Config_Accepted\<close>: \<^verbatim>\<open>oran-config/config.cpp\<close>. A reader of JSON objects claims keys and keeps the first error; an accepted
    configuration is the one its document denotes, field by field, and environment references are expanded once.
  \<^item> \<open>Tool_Workspace\<close>: \<^verbatim>\<open>oran-tool/workspace.cpp\<close> over lexical paths. Whatever the file system answers, a path resolved within the
    workspace comes with the authority of a configured root and stays beneath it; a read outside of it is marked and reaches one path.
  \<^bold>\<open>State and effects.\<close> Stateful code is explicit state passing over records with the fields of the
  source. Coroutines that interleave (path locks, batches, channels, task groups, the pool, the
  channel dispatcher) are machines whose
  events are the points at which the source suspends, and theorems hold for every sequence of
  events. Effects on the outside (audit rows, hook publications, trace rows, provider sends) are
  entries of a log, in the order of the code. Machine integers that can wrap are words or
  integers with the wrap-around written out (in \<open>Core_Time\<close> it stands for a signed overflow, and the
  properties exclude it); byte counts of objects in memory are naturals.

  \<^bold>\<open>Parameters.\<close> Code that is not in the repository is an argument: SHA-256 and HMAC, the
  JSON parser and printer, the RE2 matcher, random numbers, clocks, the kernel that answers system
  calls, the file system queries of the workspace, the resolution of paths in dispatch, the provider transport, the storage behind traces and audits. Doubles are an
  arbitrary field or rationals: no rounding is modelled.

  \<^bold>\<open>Termination and fuel.\<close> Loops are structural or have a measure. The iterations of a turn carry fuel,
  because a batch of tools may never return; \<open>turn_terminates\<close> shows that one unit per iteration and one
  for the cap are enough once batches end, and \<open>batch_terminates\<close> that a batch ends once its calls do.

  \<^bold>\<open>Not modelled.\<close> The libcurl transport, SQL statements and
  full-text search, the assembly of the runtime, the chat hosts and the desktop client: they are
  input and output or glue over libraries. Background tasks and teams are the next candidates.
\<close>

end
